(* ===== verification/Prelude.thy ===== *)
theory Prelude
  imports Complex_Main
begin

text \<open>
  Shared vocabulary of the development: Python values and strings, ordered
  dictionaries, results of operations that may raise, and the hint collections the
  component theories use.

  Modelling conventions, stated once:
  \<^item> a Python \<open>float\<close> is a \<open>real\<close>; rounding, infinities and NaN are not modelled;
  \<^item> a Python \<open>int\<close> is an \<open>int\<close>; a \<open>str\<close> is a \<open>string\<close> (case mapping is modelled on
    ASCII letters, other characters are their own upper and lower case);
  \<^item> an \<open>OrderedDict\<close>, and a \<open>dict\<close> whose iteration order matters, is an association
    list with distinct keys, oldest entry first; a \<open>dict\<close> used only for lookup is a map;
  \<^item> a raised exception is \<open>Inl\<close> of an error, a normal return is \<open>Inr\<close>;
  \<^item> wall clocks and monotonic clocks are arguments of the operation that reads them.
\<close>

named_theorems od_simps \<open>lookup and shape of ordered dictionaries after an update\<close>
named_theorems inv_intros \<open>operations that keep a component invariant\<close>

section \<open>Results\<close>

type_synonym ('e, 'a) res = "'e + 'a"

fun is_ok :: "('e, 'a) res \<Rightarrow> bool" where
  "is_ok (Inl _) = False"
| "is_ok (Inr _) = True"

section \<open>Strings\<close>

definition chr_upper :: "char \<Rightarrow> char" where
  "chr_upper c = (if 97 \<le> (of_char c :: nat) \<and> (of_char c :: nat) \<le> 122
                  then char_of ((of_char c :: nat) - 32) else c)"

definition chr_lower :: "char \<Rightarrow> char" where
  "chr_lower c = (if 65 \<le> (of_char c :: nat) \<and> (of_char c :: nat) \<le> 90
                  then char_of ((of_char c :: nat) + 32) else c)"

definition str_upper :: "string \<Rightarrow> string" where
  "str_upper s = map chr_upper s"

definition str_lower :: "string \<Rightarrow> string" where
  "str_lower s = map chr_lower s"

definition is_space :: "char \<Rightarrow> bool" where
  "is_space c \<longleftrightarrow> (of_char c :: nat) \<in> {9, 10, 11, 12, 13, 28, 29, 30, 31, 32, 133, 160}"

definition str_lstrip :: "string \<Rightarrow> string" where
  "str_lstrip s = dropWhile is_space s"

definition str_strip :: "string \<Rightarrow> string" where
  "str_strip s = rev (str_lstrip (rev (str_lstrip s)))"

lemma length_str_upper [simp]: "length (str_upper s) = length s"
  by (simp add: str_upper_def)

lemma str_upper_eq_Nil [simp]: "str_upper s = [] \<longleftrightarrow> s = []"
  by (simp add: str_upper_def)

lemma str_strip_Nil [simp]: "str_strip [] = []"
  by (simp add: str_strip_def str_lstrip_def)

lemma str_strip_id:
  assumes "s \<noteq> [] \<Longrightarrow> \<not> is_space (hd s) \<and> \<not> is_space (last s)"
  shows "str_strip s = s"
proof (cases "s = []")
  case False
  with assms have "dropWhile is_space s = s"
    by (cases s) auto
  moreover from False assms have "dropWhile is_space (rev s) = rev s"
    by (cases s rule: rev_cases) auto
  ultimately show ?thesis
    by (simp add: str_strip_def str_lstrip_def)
qed simp

text \<open>\<open>s.split(sep)\<close> for a one-character separator: always at least one part.\<close>

fun str_split :: "char \<Rightarrow> string \<Rightarrow> string list" where
  "str_split sep [] = [[]]"
| "str_split sep (c # cs) =
     (if c = sep then [] # str_split sep cs
      else (case str_split sep cs of [] \<Rightarrow> [[c]] | p # ps \<Rightarrow> (c # p) # ps))"

lemma str_split_neq_Nil [simp]: "str_split sep s \<noteq> []"
  by (induction s) (auto split: list.splits)

lemma str_split_no_sep: "sep \<notin> set s \<Longrightarrow> str_split sep s = [s]"
  by (induction s) auto

fun show_digits :: "nat \<Rightarrow> string" where
  "show_digits n = (if n < 10 then [char_of (48 + n)]
                    else show_digits (n div 10) @ [char_of (48 + n mod 10)])"

declare show_digits.simps [simp del]

definition show_int :: "int \<Rightarrow> string" where
  "show_int i = (if i < 0 then CHR ''-'' # show_digits (nat (- i)) else show_digits (nat i))"

text \<open>\<open>repr\<close> of a string: single quotes unless the text holds a single quote and no double
  quote; the quote in use and the backslash are escaped.\<close>

definition esc_char :: "char \<Rightarrow> char \<Rightarrow> string" where
  "esc_char q c =
     (if c = q \<or> c = CHR 0x5C then [CHR 0x5C, c]
      else if c = CHR 0x0A then [CHR 0x5C, CHR ''n'']
      else if c = CHR 0x0D then [CHR 0x5C, CHR ''r'']
      else if c = CHR 0x09 then [CHR 0x5C, CHR ''t'']
      else [c])"

definition py_repr :: "string \<Rightarrow> string" where
  "py_repr s =
     (let q = (if CHR 0x27 \<in> set s \<and> CHR 0x22 \<notin> set s then CHR 0x22 else CHR 0x27)
      in [q] @ concat (map (esc_char q) s) @ [q])"

section \<open>JSON and YAML values\<close>

datatype json =
    JNull
  | JBool bool
  | JInt int
  | JFloat real
  | JStr string
  | JList "json list"
  | JObj "(string \<times> json) list"

fun is_obj :: "json \<Rightarrow> bool" where
  "is_obj (JObj _) = True"
| "is_obj _ = False"

fun obj_items :: "json \<Rightarrow> (string \<times> json) list" where
  "obj_items (JObj kvs) = kvs"
| "obj_items _ = []"

text \<open>\<open>d.get(k)\<close> on an object: the value, or \<open>None\<close> (here \<open>JNull\<close>) when absent.\<close>

definition jget :: "(string \<times> json) list \<Rightarrow> string \<Rightarrow> json" where
  "jget kvs k = (case map_of kvs k of None \<Rightarrow> JNull | Some v \<Rightarrow> v)"

definition jget_default :: "(string \<times> json) list \<Rightarrow> string \<Rightarrow> json \<Rightarrow> json" where
  "jget_default kvs k d = (case map_of kvs k of None \<Rightarrow> d | Some v \<Rightarrow> v)"

text \<open>Truthiness of a value (\<open>bool(v)\<close>).\<close>

fun truthy :: "json \<Rightarrow> bool" where
  "truthy JNull = False"
| "truthy (JBool b) = b"
| "truthy (JInt i) = (i \<noteq> 0)"
| "truthy (JFloat r) = (r \<noteq> 0)"
| "truthy (JStr s) = (s \<noteq> [])"
| "truthy (JList xs) = (xs \<noteq> [])"
| "truthy (JObj kvs) = (kvs \<noteq> [])"

text \<open>\<open>str(v)\<close>. How Python prints a float or a container is left to the argument
  \<open>shw\<close>, which no property constrains.\<close>

fun py_str :: "(json \<Rightarrow> string) \<Rightarrow> json \<Rightarrow> string" where
  "py_str shw JNull = ''None''"
| "py_str shw (JBool b) = (if b then ''True'' else ''False'')"
| "py_str shw (JInt i) = show_int i"
| "py_str shw (JStr s) = s"
| "py_str shw v = shw v"

fun py_type_name :: "json \<Rightarrow> string" where
  "py_type_name JNull = ''NoneType''"
| "py_type_name (JBool _) = ''bool''"
| "py_type_name (JInt _) = ''int''"
| "py_type_name (JFloat _) = ''float''"
| "py_type_name (JStr _) = ''str''"
| "py_type_name (JList _) = ''list''"
| "py_type_name (JObj _) = ''dict''"

text \<open>A file as a loader finds it: absent, unparsable, or a parsed value.\<close>

datatype file_content = Absent | Unreadable | Parsed json

section \<open>Ordered dictionaries\<close>

text \<open>\<open>d[k] = v\<close> keeps the position of a present key and appends a new one.\<close>

fun od_set :: "'k \<Rightarrow> 'v \<Rightarrow> ('k \<times> 'v) list \<Rightarrow> ('k \<times> 'v) list" where
  "od_set k v [] = [(k, v)]"
| "od_set k v ((k', v') # kvs) =
     (if k' = k then (k, v) # kvs else (k', v') # od_set k v kvs)"

definition od_del :: "'k \<Rightarrow> ('k \<times> 'v) list \<Rightarrow> ('k \<times> 'v) list" where
  "od_del k kvs = filter (\<lambda>p. fst p \<noteq> k) kvs"

definition od_move_to_end :: "'k \<Rightarrow> ('k \<times> 'v) list \<Rightarrow> ('k \<times> 'v) list" where
  "od_move_to_end k kvs =
     (case map_of kvs k of None \<Rightarrow> kvs | Some v \<Rightarrow> od_del k kvs @ [(k, v)])"

text \<open>\<open>popitem(last=False)\<close>, repeated while the dictionary holds more than \<open>n\<close> entries.\<close>

definition od_evict :: "nat \<Rightarrow> ('k \<times> 'v) list \<Rightarrow> ('k \<times> 'v) list" where
  "od_evict n kvs = drop (length kvs - n) kvs"

definition od_wf :: "('k \<times> 'v) list \<Rightarrow> bool" where
  "od_wf kvs \<longleftrightarrow> distinct (map fst kvs)"

lemma od_wf_Nil [simp, inv_intros]: "od_wf []"
  by (simp add: od_wf_def)

lemma map_of_od_set [od_simps]: "map_of (od_set k v kvs) k' = (if k' = k then Some v else map_of kvs k')"
  by (induction kvs) auto

lemma keys_od_set [od_simps]: "fst ` set (od_set k v kvs) = insert k (fst ` set kvs)"
  by (simp only: dom_map_of_conv_image_fst [symmetric]) (auto simp: dom_def map_of_od_set)

lemma od_wf_od_set [inv_intros]: "od_wf kvs \<Longrightarrow> od_wf (od_set k v kvs)"
proof (induction kvs)
  case (Cons p kvs)
  then show ?case
    by (cases p) (auto simp: od_wf_def keys_od_set image_iff)
qed (simp add: od_wf_def)

lemma length_od_set [od_simps]:
  "length (od_set k v kvs) = (if k \<in> fst ` set kvs then length kvs else Suc (length kvs))"
proof (induction kvs)
  case (Cons p kvs)
  then show ?case by (cases p) simp
qed simp

lemma od_set_new: "k \<notin> fst ` set kvs \<Longrightarrow> od_set k v kvs = kvs @ [(k, v)]"
  by (induction kvs) auto

lemma map_of_od_del [od_simps]: "map_of (od_del k kvs) k' = (if k' = k then None else map_of kvs k')"
  unfolding od_del_def by (induction kvs) auto

lemma keys_od_del [od_simps]: "fst ` set (od_del k kvs) = fst ` set kvs - {k}"
  by (auto simp: od_del_def)

lemma od_wf_filter: "od_wf kvs \<Longrightarrow> od_wf (filter P kvs)"
  by (simp add: od_wf_def distinct_map_filter)

lemma od_wf_od_del [inv_intros]: "od_wf kvs \<Longrightarrow> od_wf (od_del k kvs)"
  unfolding od_del_def by (rule od_wf_filter)

lemma map_of_append_new: "map_of (kvs @ [(k, v)]) k' =
    (case map_of kvs k' of None \<Rightarrow> if k' = k then Some v else None | Some x \<Rightarrow> Some x)"
  by (auto split: option.splits simp: map_add_Some_iff map_add_None)

lemma map_of_od_move_to_end [od_simps]: "map_of (od_move_to_end k kvs) = map_of kvs"
  by (rule ext) (auto simp: od_move_to_end_def map_of_append_new map_of_od_del
      split: option.splits simp del: map_of_append)

lemma od_wf_od_move_to_end [inv_intros]: "od_wf kvs \<Longrightarrow> od_wf (od_move_to_end k kvs)"
  by (auto simp: od_move_to_end_def od_wf_def od_del_def distinct_map_filter split: option.splits)

lemma length_od_del_in:
  "od_wf kvs \<Longrightarrow> k \<in> fst ` set kvs \<Longrightarrow> Suc (length (od_del k kvs)) = length kvs"
proof (induction kvs)
  case (Cons p kvs)
  show ?case
  proof (cases "fst p = k")
    case True
    from Cons.prems(1) have "fst p \<notin> fst ` set kvs"
      by (simp add: od_wf_def)
    with True have "\<forall>q \<in> set kvs. fst q \<noteq> k"
      by (metis image_eqI)
    then have "filter (\<lambda>q. fst q \<noteq> k) kvs = kvs"
      by (simp add: filter_id_conv)
    with True show ?thesis by (simp add: od_del_def)
  next
    case False
    with Cons.prems have "od_wf kvs" and "k \<in> fst ` set kvs"
      by (auto simp: od_wf_def)
    with Cons.IH False show ?thesis by (simp add: od_del_def)
  qed
qed simp

lemma length_od_move_to_end [od_simps]:
  "od_wf kvs \<Longrightarrow> length (od_move_to_end k kvs) = length kvs"
  by (cases "map_of kvs k")
     (auto simp: od_move_to_end_def dom_map_of_conv_image_fst [symmetric] intro!: length_od_del_in)

lemma od_wf_od_evict [inv_intros]: "od_wf kvs \<Longrightarrow> od_wf (od_evict n kvs)"
  by (simp add: od_wf_def od_evict_def drop_map [symmetric])

lemma length_od_evict [od_simps]: "length (od_evict n kvs) = min n (length kvs)"
  by (simp add: od_evict_def)

lemma od_evict_noop [od_simps]: "length kvs \<le> n \<Longrightarrow> od_evict n kvs = kvs"
  by (simp add: od_evict_def)

lemma map_of_od_evict_SomeD:
  "od_wf kvs \<Longrightarrow> map_of (od_evict n kvs) k = Some v \<Longrightarrow> map_of kvs k = Some v"
  by (auto simp: od_wf_def od_evict_def intro!: map_of_is_SomeI
      dest!: map_of_SomeD dest: in_set_dropD)

text \<open>An object found in a dictionary and changed in place: the dictionary sees the change only if
  the object is still in it.\<close>

definition od_mutate :: "'k \<Rightarrow> 'v \<Rightarrow> ('k \<times> 'v) list \<Rightarrow> ('k \<times> 'v) list" where
  "od_mutate k v kvs = (if map_of kvs k = None then kvs else od_set k v kvs)"

lemma od_mutate_wf [inv_intros]: "od_wf kvs \<Longrightarrow> od_wf (od_mutate k v kvs)"
  by (simp add: od_mutate_def od_wf_od_set)

lemma length_od_mutate [od_simps]: "length (od_mutate k v kvs) = length kvs"
  by (auto simp: od_mutate_def length_od_set map_of_eq_None_iff)

lemma map_of_od_mutate [od_simps]: "map_of (od_mutate k v kvs) k' =
    (if k' = k \<and> map_of kvs k \<noteq> None then Some v else map_of kvs k')"
  by (auto simp: od_mutate_def map_of_od_set)

lemma keys_od_mutate [od_simps]: "fst ` set (od_mutate k v kvs) = fst ` set kvs"
  by (auto simp: od_mutate_def keys_od_set map_of_eq_None_iff)

lemma keys_od_move_to_end [od_simps]: "fst ` set (od_move_to_end k kvs) = fst ` set kvs"
  by (simp only: dom_map_of_conv_image_fst [symmetric] map_of_od_move_to_end)

text \<open>A dictionary whose keys all come from a finite set is no longer than the set.\<close>

lemma length_le_card_keys:
  assumes "od_wf kvs" and "fst ` set kvs \<subseteq> I" and "finite I"
  shows "length kvs \<le> card I"
proof -
  have "length kvs = card (set (map fst kvs))"
    using assms(1) by (simp add: od_wf_def distinct_card [of "map fst kvs"] del: set_map)
  also have "\<dots> \<le> card I"
    using assms(2,3) by (intro card_mono) auto
  finally show ?thesis .
qed

text \<open>\<open>key_room I m kvs\<close>: the keys are among \<open>I\<close>, and all of \<open>I\<close> fits under the cap \<open>m\<close>, so setting
  a key of \<open>I\<close> evicts nothing.\<close>

definition key_room :: "'k set \<Rightarrow> nat \<Rightarrow> ('k \<times> 'v) list \<Rightarrow> bool" where
  "key_room I m kvs \<longleftrightarrow> od_wf kvs \<and> fst ` set kvs \<subseteq> I \<and> finite I \<and> card I \<le> m"

lemma key_room_set:
  assumes "key_room I m kvs" and "k \<in> I"
  shows "key_room I m (od_set k v kvs)" and "od_evict m (od_set k v kvs) = od_set k v kvs"
proof -
  show kr: "key_room I m (od_set k v kvs)"
    using assms by (auto simp: key_room_def od_wf_od_set keys_od_set)
  then have "length (od_set k v kvs) \<le> card I"
    unfolding key_room_def by (blast intro: length_le_card_keys)
  with kr show "od_evict m (od_set k v kvs) = od_set k v kvs"
    by (simp add: key_room_def od_evict_noop)
qed

lemma key_room_keep [inv_intros]:
  "key_room I m kvs \<Longrightarrow> key_room I m (od_move_to_end k kvs)"
  "key_room I m kvs \<Longrightarrow> key_room I m (od_mutate k v kvs)"
  by (simp_all add: key_room_def od_wf_od_move_to_end keys_od_move_to_end od_mutate_wf keys_od_mutate)

end
