(* ===== verification/Assess_Result.thy ===== *)
theory Assess_Result
  imports Prelude
begin

text \<open>
  core/assess_result.py: the typed result of a risk assessment, its five contexts and the wire
  dictionary of each.
\<close>

record assess_result =
  ar_risk_level :: string
  ar_source :: string
  ar_context :: string
  ar_semantic_score :: "real option"
  ar_detail :: "string option"
  ar_educational_context :: bool
  ar_domain_score :: "real option"
  ar_topicality :: string
  ar_symbolic_triggered :: bool
  ar_judge_invoked :: bool
  ar_meta_intent_score :: "real option"
  ar_fusion_triggering_class :: "string option"
  ar_fusion_class_scores :: "(string \<times> real) list"
  ar_centroid_score :: "real option"
  ar_fusion_available :: "bool option"
  ar_fusion_detail :: "string option"
  ar_fusion_detector_scores :: "(string \<times> real) list option"
  ar_anchor_threat_score :: "real option"
  ar_meta_intent_ms :: "real option"
  ar_faiss_threat_search_ms :: "real option"
  ar_domain_alignment_ms :: "real option"
  ar_fusion_ms :: "real option"

definition base_result :: "string \<Rightarrow> string \<Rightarrow> string \<Rightarrow> assess_result" where
  "base_result risk source context =
     \<lparr>ar_risk_level = risk, ar_source = source, ar_context = context, ar_semantic_score = None, ar_detail = None,
      ar_educational_context = False, ar_domain_score = None, ar_topicality = ''UNKNOWN'',
      ar_symbolic_triggered = False, ar_judge_invoked = False, ar_meta_intent_score = None,
      ar_fusion_triggering_class = None, ar_fusion_class_scores = [], ar_centroid_score = None,
      ar_fusion_available = None, ar_fusion_detail = None, ar_fusion_detector_scores = None,
      ar_anchor_threat_score = None, ar_meta_intent_ms = None, ar_faiss_threat_search_ms = None,
      ar_domain_alignment_ms = None, ar_fusion_ms = None\<rparr>"

definition result_keys :: "string \<Rightarrow> string list option" where
  "result_keys context = map_of
     [(''cache'', [''semantic_score'', ''source'', ''educational_context'', ''domain_score'', ''topicality'',
        ''symbolic_triggered'', ''judge_invoked'', ''meta_intent_score'', ''fusion_triggering_class'', ''fusion_class_scores'']),
      (''cache_locked_high'', [''semantic_score'', ''source'', ''educational_context'', ''domain_score'', ''topicality'',
        ''symbolic_triggered'', ''judge_invoked'', ''meta_intent_score'', ''fusion_triggering_class'', ''fusion_class_scores'']),
      (''symbolic'', [''source'', ''detail'', ''semantic_score'', ''educational_context'', ''domain_score'', ''topicality'',
        ''symbolic_triggered'', ''judge_invoked'', ''meta_intent_score'', ''fusion_triggering_class'', ''fusion_class_scores'']),
      (''fast_path'', [''source'', ''semantic_score'', ''educational_context'', ''domain_score'', ''topicality'',
        ''symbolic_triggered'', ''judge_invoked'', ''meta_intent_score'', ''fusion_triggering_class'', ''fusion_class_scores'']),
      (''deep_path'', [''semantic_score'', ''source'', ''educational_context'', ''domain_score'', ''topicality'',
        ''symbolic_triggered'', ''judge_invoked'', ''centroid_score'', ''fusion_available'', ''fusion_detail'',
        ''fusion_detector_scores'', ''fusion_triggering_class'', ''fusion_class_scores'', ''anchor_threat_score'',
        ''meta_intent_score'', ''meta_intent_ms'', ''faiss_threat_search_ms'', ''domain_alignment_ms'', ''fusion_ms''])] context"

definition jopt :: "('a \<Rightarrow> json) \<Rightarrow> 'a option \<Rightarrow> json" where
  "jopt f x = (case x of None \<Rightarrow> JNull | Some v \<Rightarrow> f v)"

definition jscores :: "(string \<times> real) list \<Rightarrow> json" where
  "jscores kvs = JObj (map (\<lambda>(k, v). (k, JFloat v)) kvs)"

text \<open>\<open>getattr\<close> by name, for the names that occur.\<close>

definition result_attrs :: "assess_result \<Rightarrow> (string \<times> json) list" where
  "result_attrs r =
     [(''source'', JStr (ar_source r)), (''semantic_score'', jopt JFloat (ar_semantic_score r)),
      (''detail'', jopt JStr (ar_detail r)), (''educational_context'', JBool (ar_educational_context r)),
      (''domain_score'', jopt JFloat (ar_domain_score r)), (''topicality'', JStr (ar_topicality r)),
      (''symbolic_triggered'', JBool (ar_symbolic_triggered r)), (''judge_invoked'', JBool (ar_judge_invoked r)),
      (''meta_intent_score'', jopt JFloat (ar_meta_intent_score r)),
      (''fusion_triggering_class'', jopt JStr (ar_fusion_triggering_class r)),
      (''fusion_class_scores'', jscores (ar_fusion_class_scores r)),
      (''centroid_score'', jopt JFloat (ar_centroid_score r)), (''fusion_available'', jopt JBool (ar_fusion_available r)),
      (''fusion_detail'', jopt JStr (ar_fusion_detail r)),
      (''fusion_detector_scores'', jopt jscores (ar_fusion_detector_scores r)),
      (''anchor_threat_score'', jopt JFloat (ar_anchor_threat_score r)),
      (''meta_intent_ms'', jopt JFloat (ar_meta_intent_ms r)),
      (''faiss_threat_search_ms'', jopt JFloat (ar_faiss_threat_search_ms r)),
      (''domain_alignment_ms'', jopt JFloat (ar_domain_alignment_ms r)), (''fusion_ms'', jopt JFloat (ar_fusion_ms r))]"

definition to_dict :: "assess_result \<Rightarrow> (string \<times> json) list" where
  "to_dict r = map (\<lambda>k. (k, the (map_of (result_attrs r) k))) (the (result_keys (ar_context r)))"

definition as_return :: "assess_result \<Rightarrow> string \<times> (string \<times> json) list" where
  "as_return r = (ar_risk_level r, to_dict r)"

definition cache_hit :: "string \<Rightarrow> real \<Rightarrow> bool \<Rightarrow> assess_result" where
  "cache_hit risk score locked_high =
     (let c = (if locked_high then ''cache_locked_high'' else ''cache'')
      in (base_result risk c c)\<lparr>ar_semantic_score := Some score\<rparr>)"

definition symbolic :: "string \<Rightarrow> assess_result" where
  "symbolic detail = (base_result ''HIGH'' ''symbolic_rule'' ''symbolic'')
     \<lparr>ar_detail := Some detail, ar_semantic_score := Some 1, ar_symbolic_triggered := True\<rparr>"

definition fast_path :: "string \<Rightarrow> string \<Rightarrow> real \<Rightarrow> assess_result" where
  "fast_path risk source meta = (base_result risk source ''fast_path'')
     \<lparr>ar_semantic_score := Some 1, ar_meta_intent_score := Some meta\<rparr>"

text \<open>The four stage timings of the deep path.\<close>

record stage_ms =
  sm_meta_intent :: real
  sm_faiss :: real
  sm_domain :: real
  sm_fusion :: real

definition deep_path ::
  "string \<Rightarrow> string \<Rightarrow> real \<Rightarrow> bool \<Rightarrow> real option \<Rightarrow> string \<Rightarrow> bool \<Rightarrow> real \<Rightarrow> bool \<Rightarrow> string
   \<Rightarrow> (string \<times> real) list \<Rightarrow> string option \<Rightarrow> (string \<times> real) list \<Rightarrow> real \<Rightarrow> real \<Rightarrow> stage_ms \<Rightarrow> assess_result" where
  "deep_path risk source score edu dscore topic judged centroid favail fdetail fscores fclass fcscores anchor meta ms =
     (base_result risk source ''deep_path'')
       \<lparr>ar_semantic_score := Some score, ar_educational_context := edu, ar_domain_score := dscore,
        ar_topicality := topic, ar_judge_invoked := judged, ar_centroid_score := Some centroid,
        ar_fusion_available := Some favail, ar_fusion_detail := Some fdetail,
        ar_fusion_detector_scores := Some fscores, ar_fusion_triggering_class := fclass,
        ar_fusion_class_scores := fcscores, ar_anchor_threat_score := Some anchor,
        ar_meta_intent_score := Some meta, ar_meta_intent_ms := Some (sm_meta_intent ms),
        ar_faiss_threat_search_ms := Some (sm_faiss ms), ar_domain_alignment_ms := Some (sm_domain ms),
        ar_fusion_ms := Some (sm_fusion ms)\<rparr>"

lemma map_of_keyed: "map_of (map (\<lambda>k. (k, f k)) ks) k = (if k \<in> set ks then Some (f k) else None)"
  by (induction ks) auto

lemma deep_keys: "result_keys ''deep_path'' = Some [''semantic_score'', ''source'', ''educational_context'', ''domain_score'', ''topicality'',
        ''symbolic_triggered'', ''judge_invoked'', ''centroid_score'', ''fusion_available'', ''fusion_detail'',
        ''fusion_detector_scores'', ''fusion_triggering_class'', ''fusion_class_scores'', ''anchor_threat_score'',
        ''meta_intent_score'', ''meta_intent_ms'', ''faiss_threat_search_ms'', ''domain_alignment_ms'', ''fusion_ms'']"
  by code_simp

lemma deep_dict:
  "ar_context r = ''deep_path'' \<Longrightarrow> result_keys ''deep_path'' = Some ks \<Longrightarrow> k \<in> set ks \<Longrightarrow>
   map_of (to_dict r) k = Some (the (map_of (result_attrs r) k))"
  by (simp add: to_dict_def map_of_keyed)

lemma context_simps [simp]:
  "ar_context (base_result r s c) = c" "ar_source (base_result r s c) = s" "ar_risk_level (base_result r s c) = r"
  by (simp_all add: base_result_def)

section \<open>Properties\<close>

text \<open>The dictionary of a deep-path result carries every stage timing under its key, so none
  can be dropped on the way to the metrics, together with the score and source of the decision.\<close>

theorem deep_path_keeps_timings:
  "let d = map_of (snd (as_return (deep_path risk source score edu dscore topic judged centroid favail fdetail fscores
             fclass fcscores anchor meta ms)))
   in d ''meta_intent_ms'' = Some (JFloat (sm_meta_intent ms)) \<and> d ''faiss_threat_search_ms'' = Some (JFloat (sm_faiss ms))
    \<and> d ''domain_alignment_ms'' = Some (JFloat (sm_domain ms)) \<and> d ''fusion_ms'' = Some (JFloat (sm_fusion ms))
    \<and> d ''semantic_score'' = Some (JFloat score) \<and> d ''source'' = Some (JStr source)"
proof -
  let ?r = "deep_path risk source score edu dscore topic judged centroid favail fdetail fscores fclass fcscores anchor meta ms"
  have c: "ar_context ?r = ''deep_path''" by (simp add: deep_path_def base_result_def)
  note d = deep_dict [OF c deep_keys]
  have "the (map_of (result_attrs ?r) ''meta_intent_ms'') = JFloat (sm_meta_intent ms)"
    "the (map_of (result_attrs ?r) ''faiss_threat_search_ms'') = JFloat (sm_faiss ms)"
    "the (map_of (result_attrs ?r) ''domain_alignment_ms'') = JFloat (sm_domain ms)"
    "the (map_of (result_attrs ?r) ''fusion_ms'') = JFloat (sm_fusion ms)"
    "the (map_of (result_attrs ?r) ''semantic_score'') = JFloat score"
    "the (map_of (result_attrs ?r) ''source'') = JStr source"
    by (simp_all add: result_attrs_def deep_path_def jopt_def base_result_def)
  then show ?thesis by (simp add: as_return_def d)
qed

end
