(* ===== verification/Fusion.thy ===== *)
theory Fusion
  imports Prelude
begin

text \<open>
  core/fusion.py: loading the fusion artifact, scoring the detectors, choosing the richest tier whose
  features are all there, and the logistic score, overall or per attack class. A detector is outside
  this file and runs a model: its behaviour on a prompt is a parameter (\<open>det_outcome\<close>). The artifact
  is read with the fields it happens to have (\<open>raw_tier\<close>). Thread scheduling is not modelled: the
  code collects the parallel results in declared order.
\<close>

section \<open>The artifact\<close>

record class_policy =
  cp_mean :: "real list"
  cp_scale :: "real list"
  cp_coefs :: "real list"
  cp_intercept :: real
  cp_high :: real
  cp_medium :: real

record tier =
  ti_id :: string
  ti_features :: "string list"
  ti_policy :: class_policy
  ti_per_class :: "(string \<times> class_policy) list"

record raw_tier =
  rt_id :: "string option"
  rt_features :: "string list option"
  rt_mean :: "real list option"
  rt_scale :: "real list option"
  rt_coefs :: "real list option"
  rt_intercept :: "real option"
  rt_high :: "real option"
  rt_medium :: "real option"
  rt_per_class :: "(string \<times> class_policy) list"

datatype fusion_error = ArtifactMissing | ArtifactUnreadable | MissingFields | LengthMismatch

text \<open>\<open>_validate_tier\<close>, together with the tier it lets through.\<close>

definition validate_tier :: "raw_tier \<Rightarrow> (fusion_error, tier) res" where
  "validate_tier rt =
     (case (rt_features rt, rt_mean rt, rt_scale rt, rt_coefs rt, rt_intercept rt, rt_high rt, rt_medium rt) of
        (Some fo, Some m, Some sc, Some co, Some ic, Some th, Some tm) \<Rightarrow>
          if length m = length sc \<and> length sc = length co \<and> length co = length fo
          then Inr \<lparr>ti_id = (case rt_id rt of None \<Rightarrow> ''?'' | Some i \<Rightarrow> i), ti_features = fo,
                    ti_policy = \<lparr>cp_mean = m, cp_scale = sc, cp_coefs = co, cp_intercept = ic, cp_high = th, cp_medium = tm\<rparr>,
                    ti_per_class = rt_per_class rt\<rparr>
          else Inl LengthMismatch
      | _ \<Rightarrow> Inl MissingFields)"

fun valid_tiers :: "raw_tier list \<Rightarrow> tier list" where
  "valid_tiers [] = []"
| "valid_tiers (rt # rts) = (case validate_tier rt of Inl _ \<Rightarrow> valid_tiers rts | Inr t \<Rightarrow> t # valid_tiers rts)"

record fusion_policy =
  fp_floor :: tier
  fp_upgrades :: "tier list"

datatype artifact = NoArtifact | BadArtifact | Artifact raw_tier "raw_tier list"

record fusion_state =
  fs_policy :: "fusion_policy option"
  fs_error :: "fusion_error option"
  fs_loaded :: bool
  fs_pool :: "nat option"
  fs_warmed :: bool

definition fusion_init :: fusion_state where
  "fusion_init = \<lparr>fs_policy = None, fs_error = None, fs_loaded = False, fs_pool = None, fs_warmed = False\<rparr>"

definition load_fusion_policy :: "artifact \<Rightarrow> fusion_state \<Rightarrow> fusion_state" where
  "load_fusion_policy file st =
     (if fs_loaded st then st
      else
        let st1 = st\<lparr>fs_loaded := True\<rparr>
        in case file of
             NoArtifact \<Rightarrow> st1\<lparr>fs_error := Some ArtifactMissing\<rparr>
           | BadArtifact \<Rightarrow> st1\<lparr>fs_error := Some ArtifactUnreadable\<rparr>
           | Artifact flr ups \<Rightarrow>
               (case validate_tier flr of
                  Inl e \<Rightarrow> st1\<lparr>fs_error := Some e\<rparr>
                | Inr t \<Rightarrow> st1\<lparr>fs_policy := Some \<lparr>fp_floor = t, fp_upgrades = valid_tiers ups\<rparr>\<rparr>))"

definition policy_available :: "artifact \<Rightarrow> fusion_state \<Rightarrow> (fusion_error option, nat) res \<times> fusion_state" where
  "policy_available file st =
     (let st1 = load_fusion_policy file st
      in case fs_policy st1 of
           None \<Rightarrow> (Inl (fs_error st1), st1)
         | Some p \<Rightarrow> (Inr (length (ti_features (fp_floor p))), st1))"

section \<open>The score\<close>

definition sigmoid :: "real \<Rightarrow> real" where
  "sigmoid x = (if x < -60 then 0 else if x > 60 then 1 else 1 / (1 + exp (- x)))"

fun linear_term :: "(string \<rightharpoonup> real) \<Rightarrow> string list \<Rightarrow> real list \<Rightarrow> real list \<Rightarrow> real list \<Rightarrow> real" where
  "linear_term fv (n # ns) (m # ms) (s # ss) (c # cs) =
     c * (if s \<noteq> 0 then (the (fv n) - m) / s else 0) + linear_term fv ns ms ss cs"
| "linear_term fv _ _ _ _ = 0"

definition apply_policy :: "(string \<rightharpoonup> real) \<Rightarrow> class_policy \<Rightarrow> string list \<Rightarrow> real" where
  "apply_policy fv pol order =
     sigmoid (cp_intercept pol + linear_term fv order (cp_mean pol) (cp_scale pol) (cp_coefs pol))"

record class_result =
  cr_score :: real
  cr_tier :: nat
  cr_ratio :: real
  cr_high :: real
  cr_medium :: real

definition class_result_of :: "(string \<rightharpoonup> real) \<Rightarrow> string list \<Rightarrow> class_policy \<Rightarrow> class_result" where
  "class_result_of fv order pol =
     (let score = apply_policy fv pol order
      in \<lparr>cr_score = score,
          cr_tier = (if score \<ge> cp_high pol then 2 else if score \<ge> cp_medium pol then 1 else 0),
          cr_ratio = (if cp_high pol \<noteq> 0 then score / cp_high pol else 0),
          cr_high = cp_high pol, cr_medium = cp_medium pol\<rparr>)"

definition more_severe :: "class_result \<Rightarrow> class_result \<Rightarrow> bool" where
  "more_severe a b \<longleftrightarrow> cr_tier b < cr_tier a \<or> cr_tier b = cr_tier a \<and> cr_ratio b < cr_ratio a"

text \<open>\<open>max(results, key=...)\<close>: the first of the maximal entries.\<close>

fun first_max :: "string \<times> class_result \<Rightarrow> (string \<times> class_result) list \<Rightarrow> string \<times> class_result" where
  "first_max best [] = best"
| "first_max best (r # rs) = first_max (if more_severe (snd r) (snd best) then r else best) rs"

definition select_per_class_verdict ::
  "(string \<rightharpoonup> real) \<Rightarrow> tier \<Rightarrow> ((string \<times> class_result) \<times> (string \<times> class_result) list) option" where
  "select_per_class_verdict fv t =
     (case map (\<lambda>(cls, pol). (cls, class_result_of fv (ti_features t) pol)) (ti_per_class t) of
        [] \<Rightarrow> None
      | r # rs \<Rightarrow> Some (first_max r rs, r # rs))"

section \<open>The detectors\<close>

datatype det_outcome = Unavailable string | Raised string | Scored real

definition score_one_detector :: "(string \<Rightarrow> string \<Rightarrow> det_outcome) \<Rightarrow> string \<Rightarrow> string \<Rightarrow> string \<times> real option \<times> string option" where
  "score_one_detector det prompt name =
     (case det name prompt of
        Unavailable d \<Rightarrow> (name, None, Some (''detector '' @ name @ '' unavailable: '' @ d))
      | Raised d \<Rightarrow> (name, None, Some (''detector '' @ name @ '' raised '' @ d))
      | Scored s \<Rightarrow> (name, Some s, None))"

definition get_pool :: "nat \<Rightarrow> fusion_state \<Rightarrow> fusion_state" where
  "get_pool n st = (if fs_pool st = None then st\<lparr>fs_pool := Some n\<rparr> else st)"

text \<open>\<open>load_ok name\<close>: asking the detector for its availability does not raise.\<close>

definition warm_detectors :: "(string \<Rightarrow> bool) \<Rightarrow> string list \<Rightarrow> fusion_state \<Rightarrow> fusion_state" where
  "warm_detectors load_ok names st =
     (if fs_warmed st then st
      else if \<forall>n \<in> set names. load_ok n then st\<lparr>fs_warmed := True\<rparr> else st)"

definition all_tiers :: "fusion_policy \<Rightarrow> tier list" where
  "all_tiers p = fp_upgrades p @ [fp_floor p]"

definition tier_required_features :: "tier \<Rightarrow> string list" where
  "tier_required_features t = filter (\<lambda>n. n \<noteq> ''anchors'') (ti_features t)"

fun add_unseen :: "string list \<Rightarrow> string list \<Rightarrow> string list" where
  "add_unseen seen [] = seen"
| "add_unseen seen (n # ns) = add_unseen (if n \<in> set seen then seen else seen @ [n]) ns"

definition union_required_features :: "fusion_policy \<Rightarrow> string list" where
  "union_required_features p = fold (\<lambda>t seen. add_unseen seen (tier_required_features t)) (all_tiers p) []"

definition warm_up :: "artifact \<Rightarrow> (string \<Rightarrow> bool) \<Rightarrow> fusion_state \<Rightarrow> bool \<times> fusion_state" where
  "warm_up file load_ok st =
     (case policy_available file st of
        (Inl _, st1) \<Rightarrow> (False, st1)
      | (Inr _, st1) \<Rightarrow>
          let st2 = warm_detectors load_ok (union_required_features (the (fs_policy st1))) st1
          in (fs_warmed st2, st2))"

definition score_detectors_parallel ::
  "(string \<Rightarrow> bool) \<Rightarrow> (string \<Rightarrow> string \<Rightarrow> det_outcome) \<Rightarrow> string list \<Rightarrow> string \<Rightarrow> fusion_state
   \<Rightarrow> (string \<times> real option \<times> string option) list \<times> fusion_state" where
  "score_detectors_parallel load_ok det names prompt st =
     (map (score_one_detector det prompt) names, get_pool (length names) (warm_detectors load_ok names st))"

section \<open>The fused score\<close>

record fusion_result =
  fr_available :: bool
  fr_score :: "real option"
  fr_high :: "real option"
  fr_medium :: "real option"
  fr_detail :: string
  fr_detector_scores :: "(string \<times> real) list"
  fr_class :: "string option"
  fr_class_scores :: "(string \<times> real) list"

fun collect_scores :: "(string \<times> real option \<times> string option) list \<Rightarrow> (string \<times> real) list \<Rightarrow> (string \<times> real) list" where
  "collect_scores [] acc = acc"
| "collect_scores ((name, score, error) # rs) acc =
     collect_scores rs (case (error, score) of (None, Some s) \<Rightarrow> od_set name s acc | _ \<Rightarrow> acc)"

definition tier_met :: "(string \<times> real) list \<Rightarrow> tier \<Rightarrow> bool" where
  "tier_met fv t \<longleftrightarrow> list_all (\<lambda>n. map_of fv n \<noteq> None) (tier_required_features t)"

definition choose_tier :: "(string \<times> real) list \<Rightarrow> fusion_policy \<Rightarrow> tier option" where
  "choose_tier fv p = find (tier_met fv) (all_tiers p)"

definition fusion_down :: "string \<Rightarrow> (string \<times> real) list \<Rightarrow> fusion_result" where
  "fusion_down detail scores = \<lparr>fr_available = False, fr_score = None, fr_high = None, fr_medium = None,
     fr_detail = detail, fr_detector_scores = scores, fr_class = None, fr_class_scores = []\<rparr>"

text \<open>\<open>chosen is _policy\<close>: the floor is last, so it was chosen exactly if no upgrade tier is met.\<close>

definition tier_note :: "(string \<times> real) list \<Rightarrow> fusion_policy \<Rightarrow> tier \<Rightarrow> string" where
  "tier_note fv p t = (if list_ex (tier_met fv) (fp_upgrades p) then '', tier='' @ ti_id t else [])"

definition fuse_scores ::
  "bool \<Rightarrow> fusion_policy \<Rightarrow> real \<Rightarrow> (string \<times> real option \<times> string option) list \<Rightarrow> fusion_result" where
  "fuse_scores per_class p anchor_score results =
     (let fv = collect_scores results [(''anchors'', anchor_score)]
      in case choose_tier fv p of
           None \<Rightarrow>
             fusion_down (case find (\<lambda>r. snd (snd r) \<noteq> None) results of
                            Some (_, _, Some e) \<Rightarrow> e
                          | _ \<Rightarrow> ''no score computed for a required feature'') fv
         | Some t \<Rightarrow>
             (case (if per_class then select_per_class_verdict (map_of fv) t else None) of
                Some ((winner, w), rs) \<Rightarrow>
                  \<lparr>fr_available = True, fr_score = Some (cr_score w), fr_high = Some (cr_high w),
                   fr_medium = Some (cr_medium w),
                   fr_detail = ''fusion applied (per-class, triggered by '' @ winner @ tier_note fv p t @ '')'',
                   fr_detector_scores = fv, fr_class = Some winner,
                   fr_class_scores = map (\<lambda>(c, r). (c, cr_score r)) rs\<rparr>
              | None \<Rightarrow>
                  \<lparr>fr_available = True, fr_score = Some (apply_policy (map_of fv) (ti_policy t) (ti_features t)),
                   fr_high = Some (cp_high (ti_policy t)), fr_medium = Some (cp_medium (ti_policy t)),
                   fr_detail = ''fusion applied'' @ tier_note fv p t, fr_detector_scores = fv,
                   fr_class = None, fr_class_scores = []\<rparr>))"

definition show_fusion_error :: "fusion_error option \<Rightarrow> string" where
  "show_fusion_error e =
     (case e of
        Some ArtifactMissing \<Rightarrow> ''models/fusion_policy.json not found''
      | Some ArtifactUnreadable \<Rightarrow> ''artifact unreadable''
      | Some MissingFields \<Rightarrow> ''ValueError: artifact missing fields''
      | Some LengthMismatch \<Rightarrow> ''ValueError: feature_order/scaler/coefficients length mismatch''
      | None \<Rightarrow> [])"

definition fused_threat_score ::
  "artifact \<Rightarrow> bool \<Rightarrow> bool \<Rightarrow> (string \<Rightarrow> bool) \<Rightarrow> (string \<Rightarrow> string \<Rightarrow> det_outcome) \<Rightarrow> string \<Rightarrow> real \<Rightarrow> fusion_state
   \<Rightarrow> fusion_result \<times> fusion_state" where
  "fused_threat_score file parallel per_class load_ok det prompt anchor_score st =
     (case policy_available file st of
        (Inl e, st1) \<Rightarrow> (fusion_down (show_fusion_error e) [], st1)
      | (Inr _, st1) \<Rightarrow>
          let p = the (fs_policy st1);
              names = union_required_features p;
              (results, st2) = (if parallel \<and> length names > 1
                                then score_detectors_parallel load_ok det names prompt st1
                                else (map (score_one_detector det prompt) names, st1))
          in (fuse_scores per_class p anchor_score results, st2))"

section \<open>Lemmas\<close>

lemma sigmoid_bounds: "0 \<le> sigmoid x" "sigmoid x \<le> 1"
  by (auto simp: sigmoid_def divide_le_eq add_pos_pos)

lemma first_max_in: "first_max b rs \<in> set (b # rs)"
  by (induction b rs rule: first_max.induct) auto

lemma first_max_best: "r \<in> set (b # rs) \<Longrightarrow> \<not> more_severe (snd r) (snd (first_max b rs))"
proof (induction b rs arbitrary: r rule: first_max.induct)
  case (1 best)
  then show ?case by (auto simp: more_severe_def)
next
  case (2 best r' rs)
  let ?b = "if more_severe (snd r') (snd best) then r' else best"
  have top: "\<not> more_severe (snd ?b) (snd (first_max ?b rs))"
    using "2.IH" by auto
  show ?case
  proof (cases "r \<in> set rs")
    case True
    then show ?thesis using "2.IH" [of r] by simp
  next
    case False
    with "2.prems" have "\<not> more_severe (snd r) (snd ?b)"
      by (auto simp: more_severe_def)
    with top show ?thesis
      by (auto simp: more_severe_def split: if_splits)
  qed
qed

lemma select_score_bounds:
  assumes "select_per_class_verdict fv t = Some ((winner, w), rs)"
  shows "0 \<le> cr_score w \<and> cr_score w \<le> 1"
proof -
  let ?f = "\<lambda>(cls, pol). (cls, class_result_of fv (ti_features t) pol)"
  obtain b bs where bs: "map ?f (ti_per_class t) = b # bs" and w: "(winner, w) = first_max b bs"
    using assms by (auto simp: select_per_class_verdict_def split: list.splits)
  have "(winner, w) \<in> ?f ` set (ti_per_class t)"
    using first_max_in [of b bs] bs w by (metis list.set_map)
  then show ?thesis
    by (auto simp: class_result_of_def apply_policy_def sigmoid_bounds Let_def)
qed

lemma add_unseen_set: "set (add_unseen seen ns) = set seen \<union> set ns"
  by (induction seen ns rule: add_unseen.induct) auto

lemma union_required_set: "n \<in> set (union_required_features p) \<longleftrightarrow>
    (\<exists>t \<in> set (all_tiers p). n \<in> set (tier_required_features t))"
proof -
  have "set (fold (\<lambda>t seen. add_unseen seen (tier_required_features t)) ts acc)
      = set acc \<union> (\<Union>t \<in> set ts. set (tier_required_features t))" for ts acc
    by (induction ts arbitrary: acc) (auto simp: add_unseen_set)
  then show ?thesis by (simp add: union_required_features_def)
qed

lemma collect_scores_lookup:
  "map_of (collect_scores (map (score_one_detector det prompt) names) acc) n =
     (case (n \<in> set names, det n prompt) of (True, Scored s) \<Rightarrow> Some s | _ \<Rightarrow> map_of acc n)"
  by (induction names arbitrary: acc)
     (auto simp: score_one_detector_def od_simps split: det_outcome.splits bool.splits)

lemma scored_iff: "(case d of Scored s \<Rightarrow> Some s | _ \<Rightarrow> None) \<noteq> None \<longleftrightarrow> (\<exists>s. d = Scored s)"
  by (cases d) auto

lemma fused_loaded:
  "fs_policy (load_fusion_policy file st) = Some p \<Longrightarrow>
   fst (fused_threat_score file par pc lo det prompt a st)
     = fuse_scores pc p a (map (score_one_detector det prompt) (union_required_features p))"
  by (simp add: fused_threat_score_def policy_available_def score_detectors_parallel_def Let_def case_prod_beta)

section \<open>Properties\<close>

text \<open>Whatever the detectors report and whatever the coefficients are, an available fused
  score is a probability, and score and both thresholds are reported together or not at all.\<close>

theorem fused_score_is_probability:
  "let r = fst (fused_threat_score file par pc lo det prompt a st)
   in if fr_available r then (\<exists>s h m. fr_score r = Some s \<and> fr_high r = Some h \<and> fr_medium r = Some m \<and> 0 \<le> s \<and> s \<le> 1)
      else fr_score r = None \<and> fr_high r = None \<and> fr_medium r = None"
proof -
  have body: "let r = fuse_scores pc p a results in
      if fr_available r then (\<exists>s h m. fr_score r = Some s \<and> fr_high r = Some h \<and> fr_medium r = Some m \<and> 0 \<le> s \<and> s \<le> 1)
      else fr_score r = None \<and> fr_high r = None \<and> fr_medium r = None" for p results
  proof (cases "choose_tier (collect_scores results [(''anchors'', a)]) p")
    case None
    then show ?thesis by (simp add: fuse_scores_def fusion_down_def Let_def)
  next
    case (Some t)
    let ?sel = "if pc then select_per_class_verdict (map_of (collect_scores results [(''anchors'', a)])) t else None"
    show ?thesis
    proof (cases ?sel)
      case None
      show ?thesis
        unfolding fuse_scores_def Let_def Some option.case None
        by (simp add: apply_policy_def sigmoid_bounds)
    next
      case (Some wr)
      obtain winner w rs where wr: "wr = ((winner, w), rs)" by (metis prod.exhaust)
      have "0 \<le> cr_score w \<and> cr_score w \<le> 1"
        using select_score_bounds Some wr by (simp split: if_splits)
      then show ?thesis
        unfolding fuse_scores_def Let_def \<open>choose_tier _ p = Some t\<close> option.case Some wr by simp
    qed
  qed
  show ?thesis
  proof (cases "fs_policy (load_fusion_policy file st)")
    case None
    then show ?thesis
      by (simp add: fused_threat_score_def policy_available_def fusion_down_def Let_def)
  next
    case (Some p)
    show ?thesis unfolding fused_loaded [OF Some] by (rule body)
  qed
qed

text \<open>A tier is met by the collected scores exactly when each of its detectors gave one.\<close>

lemma tier_scores:
  assumes "t \<in> set (all_tiers p)"
    and fv: "fv = collect_scores (map (score_one_detector det prompt) (union_required_features p)) [(''anchors'', a)]"
  shows "tier_met fv t \<longleftrightarrow> (\<forall>n \<in> set (tier_required_features t). \<exists>s. det n prompt = Scored s \<and> map_of fv n = Some s)"
    and "\<not> tier_met fv t \<longleftrightarrow> (\<exists>n \<in> set (tier_required_features t). \<forall>s. det n prompt \<noteq> Scored s)"
proof -
  have look: "map_of fv n = (case det n prompt of Scored s \<Rightarrow> Some s | _ \<Rightarrow> None)" if "n \<in> set (tier_required_features t)" for n
  proof -
    from assms(1) that have "n \<in> set (union_required_features p)" by (auto simp: union_required_set)
    moreover from that have "n \<noteq> ''anchors''" by (auto simp: tier_required_features_def)
    ultimately show ?thesis by (simp add: fv collect_scores_lookup split: det_outcome.splits)
  qed
  show "tier_met fv t \<longleftrightarrow> (\<forall>n \<in> set (tier_required_features t). \<exists>s. det n prompt = Scored s \<and> map_of fv n = Some s)"
    and "\<not> tier_met fv t \<longleftrightarrow> (\<exists>n \<in> set (tier_required_features t). \<forall>s. det n prompt \<noteq> Scored s)"
    using look by (auto simp: tier_met_def list_all_iff split: det_outcome.splits)
qed

lemma find_split:
  "find P xs = Some x \<Longrightarrow> \<exists>pre post. xs = pre @ x # post \<and> (\<forall>y \<in> set pre. \<not> P y) \<and> P x"
proof (induction xs)
  case (Cons y ys)
  show ?case
  proof (cases "P y")
    case False
    with Cons obtain pre post where "ys = pre @ x # post" "\<forall>y \<in> set pre. \<not> P y" "P x" by auto
    with False show ?thesis by (intro exI [of _ "y # pre"] exI [of _ post]) simp
  qed (use Cons.prems in \<open>auto intro: exI [of _ "[]"]\<close>)
qed simp


definition sample_raw :: "string list \<Rightarrow> raw_tier" where
  "sample_raw fo = \<lparr>rt_id = None, rt_features = Some fo, rt_mean = Some (map (\<lambda>_. 0) fo), rt_scale = Some (map (\<lambda>_. 1) fo),
     rt_coefs = Some (map (\<lambda>_. 1) fo), rt_intercept = Some 0, rt_high = Some (9/10), rt_medium = Some (1/2), rt_per_class = []\<rparr>"


text \<open>Scoring per class never masks a class. If any class is at or above its own HIGH (or
  MEDIUM) threshold, the reported score is at or above the reported threshold of that kind, so the
  decision cascade, which compares just these, sees it.\<close>

theorem per_class_never_masks:
  assumes "select_per_class_verdict fv t = Some ((winner, w), rs)" and "(c, pol) \<in> set (ti_per_class t)"
  shows "(apply_policy fv pol (ti_features t) \<ge> cp_high pol \<longrightarrow> cr_score w \<ge> cr_high w)
    \<and> (apply_policy fv pol (ti_features t) \<ge> cp_medium pol \<longrightarrow> cr_score w \<ge> cr_medium w \<or> cr_score w \<ge> cr_high w)"
proof -
  let ?f = "\<lambda>(cls, pol). (cls, class_result_of fv (ti_features t) pol)"
  obtain b bs where bs: "map ?f (ti_per_class t) = b # bs" and w: "(winner, w) = first_max b bs"
    using assms(1) by (auto simp: select_per_class_verdict_def split: list.splits)
  let ?r = "class_result_of fv (ti_features t) pol"
  have "(c, ?r) \<in> set (b # bs)"
    using assms(2) unfolding bs [symmetric] by force
  from first_max_best [OF this] w have "cr_tier ?r \<le> cr_tier w"
    by (metis less_le_not_le linorder_not_less more_severe_def snd_conv)
  moreover have "(winner, w) \<in> ?f ` set (ti_per_class t)"
    using first_max_in [of b bs] bs w by (metis list.set_map)
  then have "cr_tier w = (if cr_score w \<ge> cr_high w then 2 else if cr_score w \<ge> cr_medium w then 1 else 0)"
    by (auto simp: class_result_of_def Let_def)
  ultimately show ?thesis
    by (auto simp: class_result_of_def Let_def split: if_splits)
qed

theorem per_class_never_masks_witness:
  "\<exists>w rs. select_per_class_verdict (\<lambda>_. Some 0)
     \<lparr>ti_id = ''t'', ti_features = [], ti_policy = \<lparr>cp_mean = [], cp_scale = [], cp_coefs = [], cp_intercept = 0, cp_high = 1, cp_medium = 1\<rparr>,
      ti_per_class = [(''a'', \<lparr>cp_mean = [], cp_scale = [], cp_coefs = [], cp_intercept = 0, cp_high = 1, cp_medium = 3/4\<rparr>),
                      (''b'', \<lparr>cp_mean = [], cp_scale = [], cp_coefs = [], cp_intercept = 0, cp_high = 1/4, cp_medium = 1/8\<rparr>)]\<rparr>
     = Some (w, rs) \<and> cr_score (snd w) \<ge> cr_high (snd w)"
proof -
  let ?b = "\<lparr>cp_mean = [], cp_scale = [], cp_coefs = [], cp_intercept = 0, cp_high = 1/4, cp_medium = 1/8\<rparr>"
  let ?t = "\<lparr>ti_id = ''t'', ti_features = [], ti_policy = \<lparr>cp_mean = [], cp_scale = [], cp_coefs = [], cp_intercept = 0, cp_high = 1, cp_medium = 1\<rparr>,
      ti_per_class = [(''a'', \<lparr>cp_mean = [], cp_scale = [], cp_coefs = [], cp_intercept = 0, cp_high = 1, cp_medium = 3/4\<rparr>), (''b'', ?b)]\<rparr> :: tier"
  obtain wr where "select_per_class_verdict (\<lambda>_. Some 0) ?t = Some wr"
    by (simp add: select_per_class_verdict_def)
  moreover obtain winner w rs where "wr = ((winner, w), rs)"
    by (metis prod.exhaust)
  ultimately have s: "select_per_class_verdict (\<lambda>_. Some 0) ?t = Some ((winner, w), rs)" by simp
  have "apply_policy (\<lambda>_. Some 0) ?b (ti_features ?t) \<ge> cp_high ?b"
    by (simp add: apply_policy_def sigmoid_def)
  with per_class_never_masks [OF s, of "''b''" ?b] s show ?thesis by auto
qed

text \<open>A malformed upgrade tier sinks neither the floor nor the other upgrade tiers; only an
  absent, unreadable or malformed floor makes fusion unavailable.\<close>

theorem malformed_upgrade_is_dropped:
  assumes "validate_tier bad = Inl e"
  shows "load_fusion_policy (Artifact flr (ups @ bad # ups')) st = load_fusion_policy (Artifact flr (ups @ ups')) st"
proof -
  have "valid_tiers (ups @ bad # ups') = valid_tiers (ups @ ups')"
    using assms by (induction ups) (auto split: sum.splits)
  then show ?thesis by (simp add: load_fusion_policy_def Let_def split: sum.split)
qed

theorem malformed_upgrade_is_dropped_witness:
  "load_fusion_policy (Artifact (sample_raw [''anchors'']) [(sample_raw [''d'']) \<lparr>rt_scale := Some []\<rparr>]) fusion_init
   = load_fusion_policy (Artifact (sample_raw [''anchors'']) []) fusion_init"
  using malformed_upgrade_is_dropped [of "(sample_raw [''d'']) \<lparr>rt_scale := Some []\<rparr>" LengthMismatch "sample_raw [''anchors'']" "[]" "[]" fusion_init]
  by (simp add: validate_tier_def sample_raw_def)

end
