(* ===== verification/Redis_Client.thy ===== *)
theory Redis_Client
  imports Prelude
begin

text \<open>
  The Redis server is outside the repository, so it is a parameter: the record \<open>redis\<close>
  holds the commands the Lua scripts and the Python clients issue, over an abstract server
  state \<open>'s\<close>. The locale \<open>redis_kv\<close> states the documented behaviour the code relies on,
  and the map-based server \<open>ref_redis\<close> shows that the laws can hold together.
  Numbers stored in keys are read back exactly (Redis stores their decimal text).

  A call from Python can fail before the server acts or after it acted and before the
  reply arrived; \<open>fault\<close> and \<open>redis_call\<close> cover both.
  \<open>get_redis_client\<close> models core/redis_client.py.
\<close>

record 's redis =
  r_get :: "'s \<Rightarrow> string \<Rightarrow> real option"
  r_set :: "string \<Rightarrow> real \<Rightarrow> 's \<Rightarrow> 's"
  r_del :: "string \<Rightarrow> 's \<Rightarrow> 's"
  r_incrby :: "string \<Rightarrow> real \<Rightarrow> 's \<Rightarrow> real \<times> 's"
  r_expire :: "string \<Rightarrow> real \<Rightarrow> 's \<Rightarrow> 's"
  r_hmget :: "'s \<Rightarrow> string \<Rightarrow> (real \<times> real) option"
  r_hset :: "string \<Rightarrow> real \<times> real \<Rightarrow> 's \<Rightarrow> 's"
  r_scan :: "'s \<Rightarrow> string \<Rightarrow> string list"
  r_time :: "'s \<Rightarrow> real"

locale redis_kv =
  fixes R :: "'s redis"
  assumes get_set: "r_get R (r_set R k v s) k' = (if k' = k then Some v else r_get R s k')"
    and get_del: "r_get R (r_del R k s) k' = (if k' = k then None else r_get R s k')"
    and get_expire: "0 < ttl \<Longrightarrow> r_get R (r_expire R k ttl s) k' = r_get R s k'"
    and get_incrby: "r_get R (snd (r_incrby R k n s)) k'
          = (if k' = k then Some (fst (r_incrby R k n s)) else r_get R s k')"
    and incrby_value: "fst (r_incrby R k n s) = (case r_get R s k of None \<Rightarrow> n | Some x \<Rightarrow> x + n)"
    and hmget_hset: "r_hmget R (r_hset R k h s) k' = (if k' = k then Some h else r_hmget R s k')"
    and hmget_expire: "0 < ttl \<Longrightarrow> r_hmget R (r_expire R k ttl s) k' = r_hmget R s k'"
    and hmget_del: "r_hmget R (r_del R k s) k' = (if k' = k then None else r_hmget R s k')"
    and scan_prefix: "k \<in> set (r_scan R s p) \<Longrightarrow> take (length p) k = p"
    and scan_complete: "r_get R s k \<noteq> None \<or> r_hmget R s k \<noteq> None \<Longrightarrow>
          take (length p) k = p \<Longrightarrow> k \<in> set (r_scan R s p)"
    and time_set: "r_time R (r_set R k v s) = r_time R s"
    and time_del: "r_time R (r_del R k s) = r_time R s"
    and time_expire: "r_time R (r_expire R k ttl s) = r_time R s"
    and time_incrby: "r_time R (snd (r_incrby R k n s)) = r_time R s"
begin

lemmas kv_simps = get_set get_del get_expire get_incrby incrby_value hmget_hset hmget_expire hmget_del
  time_set time_del time_expire time_incrby

lemma fold_del: "r_get R (fold (r_del R) ks s) k = (if k \<in> set ks then None else r_get R s k) \<and>
    r_hmget R (fold (r_del R) ks s) k = (if k \<in> set ks then None else r_hmget R s k)"
  by (induction ks arbitrary: s) (auto simp: kv_simps)

end

section \<open>A server for which the laws hold\<close>

record ref_server =
  rs_keys :: "(string \<times> real) list"
  rs_hashes :: "(string \<times> real \<times> real) list"
  rs_time :: real

definition ref_redis :: "ref_server redis" where
  "ref_redis = \<lparr>
     r_get = (\<lambda>s. map_of (rs_keys s)),
     r_set = (\<lambda>k v s. s\<lparr>rs_keys := od_set k v (rs_keys s)\<rparr>),
     r_del = (\<lambda>k s. s\<lparr>rs_keys := od_del k (rs_keys s), rs_hashes := od_del k (rs_hashes s)\<rparr>),
     r_incrby = (\<lambda>k n s.
        let v = (case map_of (rs_keys s) k of None \<Rightarrow> n | Some x \<Rightarrow> x + n)
        in (v, s\<lparr>rs_keys := od_set k v (rs_keys s)\<rparr>)),
     r_expire = (\<lambda>k ttl s. s),
     r_hmget = (\<lambda>s. map_of (rs_hashes s)),
     r_hset = (\<lambda>k h s. s\<lparr>rs_hashes := od_set k h (rs_hashes s)\<rparr>),
     r_scan = (\<lambda>s p. filter (\<lambda>k. take (length p) k = p) (map fst (rs_keys s) @ map fst (rs_hashes s))),
     r_time = rs_time\<rparr>"

definition empty_server :: "real \<Rightarrow> ref_server" where
  "empty_server t = \<lparr>rs_keys = [], rs_hashes = [], rs_time = t\<rparr>"

interpretation ref: redis_kv ref_redis
proof unfold_locales
  fix s :: ref_server and k p :: string
  assume "r_get ref_redis s k \<noteq> None \<or> r_hmget ref_redis s k \<noteq> None" and "take (length p) k = p"
  then show "k \<in> set (r_scan ref_redis s p)"
    by (force simp: ref_redis_def dest: map_of_SomeD)
qed (auto simp: ref_redis_def Let_def od_simps)

section \<open>Calls that may fail\<close>

datatype fault = NoFault | FaultBefore | FaultAfter

fun redis_call :: "fault \<Rightarrow> ('s \<Rightarrow> 'r \<times> 's) \<Rightarrow> 's \<Rightarrow> 'r option \<times> 's" where
  "redis_call NoFault f s = (Some (fst (f s)), snd (f s))"
| "redis_call FaultBefore f s = (None, s)"
| "redis_call FaultAfter f s = (None, snd (f s))"

text \<open>Deleting every key a scan found; \<open>Some n\<close> is a failure after \<open>n\<close> deletions.\<close>

definition redis_purge :: "'s redis \<Rightarrow> nat option \<Rightarrow> string \<Rightarrow> 's \<Rightarrow> 's" where
  "redis_purge R failing prefix s =
     (let ks = r_scan R s prefix
      in fold (r_del R) (case failing of None \<Rightarrow> ks | Some n \<Rightarrow> take n ks) s)"

lemma redis_call_cases:
  obtains "redis_call x f s = (Some (fst (f s)), snd (f s))"
    | "redis_call x f s = (None, s)"
    | "redis_call x f s = (None, snd (f s))"
  by (cases x) auto

section \<open>The shared client\<close>

text \<open>The module state of core/redis_client.py: the client that is cached, named by the URL it
  was connected to.\<close>

record redis_module =
  cached_client :: "string option"
  last_url :: "string option"

definition sanitize_redis_url :: "string \<Rightarrow> string" where
  "sanitize_redis_url url =
     (if CHR ''@'' \<in> set url then last (str_split (CHR ''@'') url) else url)"

text \<open>\<open>reachable\<close> stands for importing the library, building the pool and \<open>ping\<close>.\<close>

definition get_redis_client ::
  "(string \<Rightarrow> bool) \<Rightarrow> string option \<Rightarrow> string option \<Rightarrow> redis_module
   \<Rightarrow> string option \<times> redis_module" where
  "get_redis_client reachable redis_url environ m =
     (let target = (case redis_url of Some u \<Rightarrow> if u = [] then environ else Some u | None \<Rightarrow> environ)
      in case target of
           None \<Rightarrow> (None, m)
         | Some u \<Rightarrow>
             if u = [] then (None, m)
             else if cached_client m \<noteq> None \<and> last_url m = Some u then (cached_client m, m)
             else if reachable u
                  then (Some u, m\<lparr>cached_client := Some u, last_url := Some u\<rparr>)
                  else (None, m))"

definition reset_redis_client :: "redis_module \<Rightarrow> redis_module" where
  "reset_redis_client m = m\<lparr>cached_client := None, last_url := None\<rparr>"

text \<open>A credential in front of the last \<open>@\<close> never reaches the log line.\<close>

lemma last_split_no_sep: "sep \<notin> set (last (str_split sep s))"
proof (induction s)
  case (Cons c s)
  then show ?case
    by (cases "str_split sep s") (auto split: if_splits)
qed simp

lemma sanitize_no_at: "CHR ''@'' \<notin> set (sanitize_redis_url url)"
  by (simp add: sanitize_redis_url_def last_split_no_sep)

text \<open>The module never hands out a client for a URL it did not reach.\<close>

definition client_inv :: "(string \<Rightarrow> bool) \<Rightarrow> redis_module \<Rightarrow> bool" where
  "client_inv was_reached m \<longleftrightarrow>
     (case cached_client m of None \<Rightarrow> True | Some u \<Rightarrow> last_url m = Some u \<and> was_reached u)"

lemma get_redis_client_inv [inv_intros]:
  assumes "client_inv W m" and "\<And>u. reachable u \<Longrightarrow> W u"
  shows "client_inv W (snd (get_redis_client reachable url env m))"
  using assms by (auto simp: get_redis_client_def client_inv_def Let_def split: option.splits)

end
