(* ===== verification/Circuit_Breaker.thy ===== *)
theory Circuit_Breaker
  imports Redis_Client
begin

text \<open>
  core/circuit_breaker.py. \<open>breaker\<close> holds the fields of a \<open>CircuitBreaker\<close>; the two
  Redis keys of a shared breaker live in the server state. Each operation has the
  process-local part (under the lock) and the full method that tries Redis first and falls
  back when a call raises. Time is an argument: \<open>now\<close> is \<open>time.time()\<close>, the server
  clock is \<open>r_time\<close>.
\<close>

record breaker =
  cb_name :: string
  cb_threshold :: int
  cb_cooldown :: real
  cb_ttl :: int
  cb_uses_redis :: bool
  cb_opened_at :: "real option"
  cb_fails :: int

definition py_int :: "real \<Rightarrow> int" where
  "py_int x = (if 0 \<le> x then \<lfloor>x\<rfloor> else \<lceil>x\<rceil>)"

text \<open>\<open>__init__\<close>: \<open>client\<close> says whether a Redis client was passed, \<open>registered\<close> whether
  registering the two scripts succeeded.\<close>

definition cb_init :: "string \<Rightarrow> int \<Rightarrow> real \<Rightarrow> bool \<Rightarrow> bool \<Rightarrow> breaker" where
  "cb_init name threshold cooldown client registered =
     \<lparr>cb_name = name, cb_threshold = threshold, cb_cooldown = cooldown,
      cb_ttl = max (py_int cooldown * 4) 60,
      cb_uses_redis = (client \<and> registered), cb_opened_at = None, cb_fails = 0\<rparr>"

definition k_opened :: "breaker \<Rightarrow> string" where
  "k_opened cb = ''gk:cb:'' @ cb_name cb @ '':opened_at''"

definition k_fails :: "breaker \<Rightarrow> string" where
  "k_fails cb = ''gk:cb:'' @ cb_name cb @ '':fails''"

lemma k_opened_neq_k_fails [simp]: "k_opened cb \<noteq> k_fails cb" "k_fails cb \<noteq> k_opened cb"
  by (auto simp: k_opened_def k_fails_def)

section \<open>The Lua scripts\<close>

definition lua_open_check ::
  "'s redis \<Rightarrow> string \<Rightarrow> string \<Rightarrow> real \<Rightarrow> 's \<Rightarrow> int \<times> 's" where
  "lua_open_check R ko kf cooldown s =
     (case r_get R s ko of
        None \<Rightarrow> (0, s)
      | Some opened \<Rightarrow>
          if r_time R s - opened \<ge> cooldown then (0, r_del R kf (r_del R ko s)) else (1, s))"

definition lua_record_failure ::
  "'s redis \<Rightarrow> string \<Rightarrow> string \<Rightarrow> int \<Rightarrow> int \<Rightarrow> 's \<Rightarrow> (real \<times> int) \<times> 's" where
  "lua_record_failure R ko kf threshold ttl s =
     (let fails = fst (r_incrby R kf 1 s);
          s1 = r_expire R kf (of_int ttl) (snd (r_incrby R kf 1 s))
      in if r_get R s1 ko = None \<and> fails \<ge> of_int threshold
         then ((fails, 1), r_expire R ko (of_int ttl) (r_set R ko (r_time R s1) s1))
         else ((fails, 0), s1))"

section \<open>Process-local operations\<close>

definition is_open_local :: "real \<Rightarrow> breaker \<Rightarrow> bool \<times> breaker" where
  "is_open_local now cb =
     (case cb_opened_at cb of
        None \<Rightarrow> (False, cb)
      | Some t \<Rightarrow>
          if now - t \<ge> cb_cooldown cb then (False, cb\<lparr>cb_opened_at := None, cb_fails := 0\<rparr>)
          else (True, cb))"

definition record_success_local :: "breaker \<Rightarrow> breaker" where
  "record_success_local cb = cb\<lparr>cb_fails := 0, cb_opened_at := None\<rparr>"

definition record_failure_local :: "real \<Rightarrow> breaker \<Rightarrow> breaker" where
  "record_failure_local now cb =
     (let cb1 = cb\<lparr>cb_fails := cb_fails cb + 1\<rparr>
      in if cb_fails cb1 \<ge> cb_threshold cb1 \<and> cb_opened_at cb1 = None
         then cb1\<lparr>cb_opened_at := Some now\<rparr> else cb1)"

section \<open>The methods\<close>

definition is_open ::
  "'s redis \<Rightarrow> fault \<Rightarrow> fault \<Rightarrow> real \<Rightarrow> breaker \<Rightarrow> 's \<Rightarrow> bool \<times> breaker \<times> 's" where
  "is_open R f1 f2 now cb s =
     (let fallback = (\<lambda>s'. (fst (is_open_local now cb), snd (is_open_local now cb), s'))
      in if \<not> cb_uses_redis cb then fallback s
         else case redis_call f1 (\<lambda>s. (r_get R s (k_opened cb), s)) s of
                (None, s1) \<Rightarrow> fallback s1
              | (Some opened_before, s1) \<Rightarrow>
                 (case redis_call f2 (lua_open_check R (k_opened cb) (k_fails cb) (cb_cooldown cb)) s1 of
                    (None, s2) \<Rightarrow> fallback s2
                  | (Some result, s2) \<Rightarrow>
                      (result \<noteq> 0,
                       cb\<lparr>cb_opened_at := (if result = 0 then None else opened_before)\<rparr>, s2)))"

definition record_success :: "'s redis \<Rightarrow> fault \<Rightarrow> breaker \<Rightarrow> 's \<Rightarrow> breaker \<times> 's" where
  "record_success R f cb s =
     (if \<not> cb_uses_redis cb then (record_success_local cb, s)
      else case redis_call f (\<lambda>s. ((), r_del R (k_fails cb) (r_del R (k_opened cb) s))) s of
             (None, s1) \<Rightarrow> (record_success_local cb, s1)
           | (Some _, s1) \<Rightarrow> (cb\<lparr>cb_opened_at := None, cb_fails := 0\<rparr>, s1))"

definition record_failure :: "'s redis \<Rightarrow> fault \<Rightarrow> real \<Rightarrow> breaker \<Rightarrow> 's \<Rightarrow> breaker \<times> 's" where
  "record_failure R f now cb s =
     (if \<not> cb_uses_redis cb then (record_failure_local now cb, s)
      else case redis_call f (lua_record_failure R (k_opened cb) (k_fails cb)
                                (cb_threshold cb) (cb_ttl cb)) s of
             (None, s1) \<Rightarrow> (record_failure_local now cb, s1)
           | (Some (fails, opened), s1) \<Rightarrow>
               (let cb1 = cb\<lparr>cb_fails := \<lfloor>fails\<rfloor>\<rparr>
                in (if opened = 1 then cb1\<lparr>cb_opened_at := Some now\<rparr> else cb1, s1)))"

definition cb_reset :: "'s redis \<Rightarrow> fault \<Rightarrow> breaker \<Rightarrow> 's \<Rightarrow> breaker \<times> 's" where
  "cb_reset R f cb s =
     (let s1 = (if cb_uses_redis cb
                then snd (redis_call f (\<lambda>s. ((), r_del R (k_fails cb) (r_del R (k_opened cb) s))) s)
                else s)
      in (cb\<lparr>cb_fails := 0, cb_opened_at := None\<rparr>, s1))"

text \<open>The read-only views \<open>_opened_at\<close> and \<open>_consecutive_failures\<close>.\<close>

definition opened_at_view :: "'s redis \<Rightarrow> fault \<Rightarrow> breaker \<Rightarrow> 's \<Rightarrow> real option \<times> breaker \<times> 's" where
  "opened_at_view R f cb s =
     (if \<not> cb_uses_redis cb then (cb_opened_at cb, cb, s)
      else case redis_call f (\<lambda>s. (r_get R s (k_opened cb), s)) s of
             (None, s1) \<Rightarrow> (cb_opened_at cb, cb, s1)
           | (Some v, s1) \<Rightarrow> (v, cb\<lparr>cb_opened_at := v\<rparr>, s1))"

definition consecutive_failures_view :: "'s redis \<Rightarrow> fault \<Rightarrow> breaker \<Rightarrow> 's \<Rightarrow> int \<times> 's" where
  "consecutive_failures_view R f cb s =
     (if \<not> cb_uses_redis cb then (cb_fails cb, s)
      else case redis_call f (\<lambda>s. (r_get R s (k_fails cb), s)) s of
             (None, s1) \<Rightarrow> (cb_fails cb, s1)
           | (Some None, s1) \<Rightarrow> (0, s1)
           | (Some (Some v), s1) \<Rightarrow> (\<lfloor>v\<rfloor>, s1))"

text \<open>\<open>_build\<close>: shared when a client was found.\<close>

definition cb_build :: "string \<Rightarrow> string option \<Rightarrow> bool \<Rightarrow> breaker" where
  "cb_build name client registered = cb_init name 3 30 (client \<noteq> None) registered"

section \<open>Local state machine\<close>

datatype cb_event = IsOpen real | Success | Failure real | Reset

fun cb_apply :: "cb_event \<Rightarrow> breaker \<Rightarrow> breaker" where
  "cb_apply (IsOpen now) cb = snd (is_open_local now cb)"
| "cb_apply Success cb = record_success_local cb"
| "cb_apply (Failure now) cb = record_failure_local now cb"
| "cb_apply Reset cb = cb\<lparr>cb_fails := 0, cb_opened_at := None\<rparr>"

lemmas cb_defs = is_open_local_def record_success_local_def record_failure_local_def

inductive cb_reach :: "breaker \<Rightarrow> breaker \<Rightarrow> bool" for cb0 where
  start: "cb_reach cb0 cb0"
| step: "cb_reach cb0 cb \<Longrightarrow> cb_reach cb0 (cb_apply e cb)"

lemma cb_apply_frame [simp]:
  "cb_threshold (cb_apply e cb) = cb_threshold cb"
  "cb_cooldown (cb_apply e cb) = cb_cooldown cb"
  by (cases e; auto simp: cb_defs Let_def split: option.splits)+

lemma cb_reach_frame:
  "cb_reach cb0 cb \<Longrightarrow> cb_threshold cb = cb_threshold cb0 \<and> cb_cooldown cb = cb_cooldown cb0"
  by (induction rule: cb_reach.induct) simp_all

text \<open>The invariant: closed exactly while fewer than \<open>failure_threshold\<close> failures count.\<close>

definition cb_inv :: "breaker \<Rightarrow> bool" where
  "cb_inv cb \<longleftrightarrow> 0 \<le> cb_fails cb \<and> (cb_opened_at cb = None \<longleftrightarrow> cb_fails cb < cb_threshold cb)"

lemma cb_apply_inv [inv_intros]:
  "1 \<le> cb_threshold cb \<Longrightarrow> cb_inv cb \<Longrightarrow> cb_inv (cb_apply e cb)"
  by (cases e) (auto simp: cb_inv_def cb_defs Let_def split: option.splits if_splits)

lemma cb_reach_inv:
  "cb_reach cb0 cb \<Longrightarrow> 1 \<le> cb_threshold cb0 \<Longrightarrow> cb_inv cb0 \<Longrightarrow> cb_inv cb"
proof (induction rule: cb_reach.induct)
  case (step cb e)
  with cb_reach_frame [OF step.hyps] show ?case by (simp add: cb_apply_inv)
qed

lemma cb_init_inv [inv_intros]: "1 \<le> th \<Longrightarrow> cb_inv (cb_init n th cd c r)"
  by (simp add: cb_inv_def cb_init_def)

text \<open>A run of failures, at the given times, from any closed breaker.\<close>

lemma record_failures_closed:
  "cb_inv cb \<Longrightarrow> cb_opened_at cb = None \<Longrightarrow>
   (let cb' = fold record_failure_local ts cb; left = nat (cb_threshold cb - cb_fails cb)
    in cb_fails cb' = cb_fails cb + int (length ts) \<and> cb_threshold cb' = cb_threshold cb \<and>
       cb_cooldown cb' = cb_cooldown cb \<and>
       cb_opened_at cb' = (if length ts < left then None else Some (ts ! (left - 1))))"
proof (induction ts rule: rev_induct)
  case Nil
  then show ?case by (simp add: cb_inv_def Let_def)
next
  case (snoc t ts)
  then show ?case
    by (auto simp: Let_def record_failure_local_def cb_inv_def nth_append not_less
        split: if_splits)
qed

section \<open>The shared breaker simulates the local one\<close>

text \<open>The abstraction reads the two keys as the local fields.\<close>

definition cb_abs :: "'s redis \<Rightarrow> breaker \<Rightarrow> 's \<Rightarrow> breaker" where
  "cb_abs R cb s = cb\<lparr>cb_opened_at := r_get R s (k_opened cb),
                      cb_fails := (case r_get R s (k_fails cb) of None \<Rightarrow> 0 | Some v \<Rightarrow> \<lfloor>v\<rfloor>)\<rparr>"

context redis_kv
begin

lemma is_open_refines:
  assumes "cb_uses_redis cb"
  shows "fst (is_open R NoFault NoFault now cb s) = fst (is_open_local (r_time R s) (cb_abs R cb s))"
    and "cb_abs R cb (snd (snd (is_open R NoFault NoFault now cb s)))
         = snd (is_open_local (r_time R s) (cb_abs R cb s))"
  using assms
  by (auto simp: is_open_def is_open_local_def lua_open_check_def cb_abs_def kv_simps Let_def
      split: option.splits)

lemma record_failure_refines:
  assumes "cb_uses_redis cb" and "0 < cb_ttl cb"
  shows "cb_abs R cb (snd (record_failure R NoFault now cb s))
         = record_failure_local (r_time R s) (cb_abs R cb s)"
proof -
  have th: "of_int c \<le> v + 1 \<longleftrightarrow> c \<le> \<lfloor>v\<rfloor> + 1" for c :: int and v :: real
    by linarith
  show ?thesis
    using assms th
    by (auto simp: record_failure_def record_failure_local_def lua_record_failure_def cb_abs_def
        kv_simps Let_def split: option.splits)
qed

lemma record_success_refines:
  assumes "cb_uses_redis cb"
  shows "cb_abs R cb (snd (record_success R NoFault cb s)) = record_success_local (cb_abs R cb s)"
  using assms by (simp add: record_success_def record_success_local_def cb_abs_def kv_simps)

end


section \<open>Properties\<close>

text \<open>The answers the \<open>is_open\<close> calls of an event sequence give.\<close>

fun cb_answers :: "cb_event list \<Rightarrow> breaker \<Rightarrow> bool list" where
  "cb_answers [] cb = []"
| "cb_answers (IsOpen now # es) cb =
     fst (is_open_local now cb) # cb_answers es (snd (is_open_local now cb))"
| "cb_answers (e # es) cb = cb_answers es (cb_apply e cb)"

definition count_failures :: "cb_event list \<Rightarrow> nat" where
  "count_failures es = length (filter (\<lambda>e. case e of Failure _ \<Rightarrow> True | _ \<Rightarrow> False) es)"

lemma cb_answers_below_threshold:
  "cb_opened_at cb = None \<Longrightarrow> 0 \<le> cb_fails cb \<Longrightarrow>
   cb_fails cb + int (count_failures es) < cb_threshold cb \<Longrightarrow>
   True \<notin> set (cb_answers es cb)"
proof (induction es arbitrary: cb)
  case (Cons e es)
  from Cons.IH [of "cb_apply e cb"] Cons.prems show ?case
    by (cases e) (auto simp: count_failures_def cb_defs Let_def)
qed simp

text \<open>A fresh process-local breaker that has seen only failures answers "open"
  exactly when at least \<open>failure_threshold\<close> of them happened and less than the cooldown has
  passed since the failure that reached the threshold (later failures do not extend it).\<close>

theorem breaker_trips_at_threshold:
  assumes "1 \<le> th"
  shows "fst (is_open_local now (fold record_failure_local ts (cb_init name th cd False False)))
         \<longleftrightarrow> nat th \<le> length ts \<and> now - ts ! (nat th - 1) < cd"
proof -
  let ?cb = "cb_init name th cd False False"
  have "cb_inv ?cb" and "cb_opened_at ?cb = None"
    using cb_init_inv [OF assms, of name cd False False] by (simp_all add: cb_init_def)
  from record_failures_closed [OF this, of ts]
  show ?thesis
    by (auto simp: is_open_local_def Let_def cb_init_def split: option.splits if_splits)
qed

theorem breaker_trips_at_threshold_witness:
  "fst (is_open_local 40 (fold record_failure_local [10, 11, 12, 13] (cb_init ''j'' 3 30 False False)))"
  using breaker_trips_at_threshold [of 3 40 "[10, 11, 12, 13]" "''j''" 30] by simp

text \<open>In every state a local breaker can reach from its construction, it is closed
  exactly while fewer than \<open>failure_threshold\<close> failures are counted, and the count is
  never negative.\<close>

theorem breaker_reachable_invariant:
  assumes "cb_reach (cb_init name th cd False False) cb" and "1 \<le> th"
  shows "0 \<le> cb_fails cb \<and> (cb_opened_at cb = None \<longleftrightarrow> cb_fails cb < th)"
  using cb_reach_inv [OF assms(1)] cb_reach_frame [OF assms(1)] assms(2) cb_init_inv [OF assms(2)]
  by (simp add: cb_inv_def cb_init_def)

theorem breaker_reachable_invariant_witness:
  "cb_reach (cb_init ''j'' 1 30 False False)
     (record_failure_local 5 (cb_init ''j'' 1 30 False False)) \<and>
   (cb_opened_at (record_failure_local 5 (cb_init ''j'' 1 30 False False)) = None \<longleftrightarrow>
    cb_fails (record_failure_local 5 (cb_init ''j'' 1 30 False False)) < 1)"
proof -
  let ?c = "cb_init ''j'' 1 30 False False"
  have r: "cb_reach ?c (cb_apply (Failure 5) ?c)"
    by (rule cb_reach.step [OF cb_reach.start])
  then show ?thesis
    using breaker_reachable_invariant [OF r] by simp
qed

text \<open>Claim C30: a breaker shared through Redis behaves, call by call, like a local breaker
  driven by the server's clock: reading the two keys as the local fields, \<open>is_open\<close> gives the
  same answer and each of \<open>is_open\<close>, \<open>record_failure\<close> and \<open>record_success\<close> leads to the
  local operation's state.\<close>

theorem shared_breaker_refines_local:
  assumes "redis_kv R" and "cb_uses_redis cb" and "0 < cb_ttl cb"
  shows "fst (is_open R NoFault NoFault now cb s) = fst (is_open_local (r_time R s) (cb_abs R cb s))
    \<and> cb_abs R cb (snd (snd (is_open R NoFault NoFault now cb s)))
        = snd (is_open_local (r_time R s) (cb_abs R cb s))
    \<and> cb_abs R cb (snd (record_failure R NoFault now cb s))
        = record_failure_local (r_time R s) (cb_abs R cb s)
    \<and> cb_abs R cb (snd (record_success R NoFault cb s)) = record_success_local (cb_abs R cb s)"
  using redis_kv.is_open_refines [OF assms(1,2)] redis_kv.record_failure_refines [OF assms]
    redis_kv.record_success_refines [OF assms(1,2)]
  by simp

theorem shared_breaker_refines_local_witness:
  "fst (is_open ref_redis NoFault NoFault 7 (cb_init ''j'' 3 30 True True) (empty_server 50))
   = fst (is_open_local 50 (cb_abs ref_redis (cb_init ''j'' 3 30 True True) (empty_server 50)))"
proof -
  have u: "cb_uses_redis (cb_init ''j'' 3 30 True True)" and l: "0 < cb_ttl (cb_init ''j'' 3 30 True True)"
    by (simp_all add: cb_init_def)
  have t: "r_time ref_redis (empty_server 50) = 50"
    by (simp add: ref_redis_def empty_server_def)
  show ?thesis
    using shared_breaker_refines_local [OF ref.redis_kv_axioms u l, of 7 "empty_server 50"]
    unfolding t by blast
qed

text \<open>The read-only views used by the metrics gauges and by \<open>/health\<close> never write
  the shared keys and never change what the next \<open>is_open\<close> answers, whatever fails, so they
  cannot consume the half-open transition.\<close>

theorem views_do_not_consume_probe:
  "snd (snd (opened_at_view R f cb s)) = s \<and> snd (consecutive_failures_view R f' cb s) = s \<and>
   fst (is_open R NoFault NoFault now (fst (snd (opened_at_view R f cb s))) s)
     = fst (is_open R NoFault NoFault now cb s)"
  by (cases f; cases f')
     (auto simp: opened_at_view_def consecutive_failures_view_def is_open_def is_open_local_def
        k_opened_def k_fails_def Let_def split: option.splits)

text \<open>After the cooldown, the breaker does not let exactly one request through as a
  probe. The first \<open>is_open\<close> closes it completely, and from then on every \<open>is_open\<close> of every
  caller answers "closed" for as long as fewer than \<open>failure_threshold\<close> new failures are
  recorded, so one failed probe does not start the cooldown again.\<close>

theorem half_open_is_not_a_single_probe:
  assumes "cb_opened_at cb = Some t" and "now - t \<ge> cb_cooldown cb"
    and "int (count_failures es) < cb_threshold cb"
  shows "True \<notin> set (cb_answers (IsOpen now # es) cb)"
  using assms cb_answers_below_threshold [of "cb\<lparr>cb_opened_at := None, cb_fails := 0\<rparr>" es]
  by (simp add: is_open_local_def)

theorem half_open_is_not_a_single_probe_witness:
  "True \<notin> set (cb_answers [IsOpen 50, IsOpen 51, Failure 52, IsOpen 53, Failure 54, IsOpen 55]
      (fold record_failure_local [10, 11, 12] (cb_init ''j'' 3 30 False False)))"
  by (rule half_open_is_not_a_single_probe [where t = 12])
     (simp_all add: record_failure_local_def cb_init_def count_failures_def)

end
