(* ===== verification/Semantic_Judge.thy ===== *)
theory Semantic_Judge
  imports Circuit_Breaker
begin

text \<open>
  core/semantic_judge.py: the LLM judges of prompts and of responses. What the judge's HTTP endpoint
  answers is a parameter (\<open>reply\<close>): the call raises, or a status arrives with a body that parses as
  JSON or not. \<open>json.loads\<close> of the model's text is the parameter \<open>parse_json\<close>. The breaker is used
  through the three methods it has (\<open>breaker_ops\<close>), so that both its local and its shared form can
  be put in; the wording of the instructions sent is not modelled.
\<close>

record 'b breaker_ops =
  bo_is_open :: "'b \<Rightarrow> bool \<times> 'b"
  bo_success :: "'b \<Rightarrow> 'b"
  bo_failure :: "'b \<Rightarrow> 'b"

definition local_breaker :: "real \<Rightarrow> breaker breaker_ops" where
  "local_breaker now = \<lparr>bo_is_open = is_open_local now, bo_success = record_success_local,
     bo_failure = record_failure_local now\<rparr>"

datatype reply = NoReply | Reply int "json option"

section \<open>Helpers\<close>

fun is_prefix :: "string \<Rightarrow> string \<Rightarrow> bool" where
  "is_prefix [] s = True"
| "is_prefix (p # ps) [] = False"
| "is_prefix (p # ps) (c # cs) = (p = c \<and> is_prefix ps cs)"

text \<open>\<open>s.replace(old, new)\<close> for a non-empty \<open>old\<close>; \<open>skip\<close> counts the characters of a replaced
  occurrence still to be dropped.\<close>

fun replace_from :: "nat \<Rightarrow> string \<Rightarrow> string \<Rightarrow> string \<Rightarrow> string" where
  "replace_from skip old new [] = []"
| "replace_from (Suc k) old new (c # cs) = replace_from k old new cs"
| "replace_from 0 old new (c # cs) =
     (if is_prefix old (c # cs) then new @ replace_from (length old - 1) old new cs
      else c # replace_from 0 old new cs)"

definition str_replace :: "string \<Rightarrow> string \<Rightarrow> string \<Rightarrow> string" where
  "str_replace old new s = replace_from 0 old new s"

fun contains :: "string \<Rightarrow> string \<Rightarrow> bool" where
  "contains p [] = (p = [])"
| "contains p (c # cs) = (is_prefix p (c # cs) \<or> contains p cs)"

definition uses_llama_guard_protocol :: "string \<Rightarrow> bool" where
  "uses_llama_guard_protocol model = contains ''guard'' (str_lower model)"

section \<open>Availability probe\<close>

definition judge_base_url :: "string \<Rightarrow> string" where
  "judge_base_url url =
     (case butlast (str_split CHR ''/'' url) of
        [] \<Rightarrow> []
      | p # ps \<Rightarrow> p @ concat (map (\<lambda>q. CHR ''/'' # q) ps))"

text \<open>\<open>None\<close>: something in the expression raised.\<close>

fun model_names :: "json list \<Rightarrow> string list option" where
  "model_names [] = Some []"
| "model_names (JObj m # ms) =
     (case (jget_default m ''name'' (JStr []), model_names ms) of
        (JStr n, Some ns) \<Rightarrow> Some (n # ns)
      | _ \<Rightarrow> None)"
| "model_names (_ # ms) = None"

definition judge_available :: "string \<Rightarrow> string \<Rightarrow> (string \<Rightarrow> reply) \<Rightarrow> bool" where
  "judge_available url model http_get =
     (case http_get (judge_base_url url @ ''/tags'') of
        Reply status (Some (JObj body)) \<Rightarrow>
          status = 200 \<and>
          (case jget_default body ''models'' (JList []) of
             JList ms \<Rightarrow> (case model_names ms of
                            Some ns \<Rightarrow> list_ex (\<lambda>m. hd (str_split CHR '':'' m) = model) ns
                          | None \<Rightarrow> False)
           | _ \<Rightarrow> False)
      | _ \<Rightarrow> False)"

section \<open>The Llama Guard protocol\<close>

definition chat_content :: "json \<Rightarrow> string option" where
  "chat_content body =
     (case body of
        JObj b \<Rightarrow> (case jget_default b ''message'' (JObj []) of
                     JObj m \<Rightarrow> (case jget_default m ''content'' (JStr []) of
                                  JStr c \<Rightarrow> Some (str_strip c) | _ \<Rightarrow> None)
                   | _ \<Rightarrow> None)
      | _ \<Rightarrow> None)"

definition verdict_line :: "string \<Rightarrow> string" where
  "verdict_line raw = str_lower (str_strip (hd (str_split (CHR 0x0A) raw)))"

text \<open>\<open>_judge_via_llama_guard\<close>; \<open>Inl ()\<close> is an exception that leaves it.\<close>

definition judge_via_llama_guard :: "'b breaker_ops \<Rightarrow> reply \<Rightarrow> 'b \<Rightarrow> (unit, string) res \<times> 'b" where
  "judge_via_llama_guard B rep b =
     (case rep of
        NoReply \<Rightarrow> (Inl (), b)
      | Reply status body \<Rightarrow>
          if status \<noteq> 200 then (Inr ''DANGEROUS'', bo_failure B b)
          else case body of
                 None \<Rightarrow> (Inl (), b)
               | Some v \<Rightarrow>
                   (case chat_content v of
                      None \<Rightarrow> (Inl (), b)
                    | Some raw \<Rightarrow>
                        if verdict_line raw = ''safe'' then (Inr ''SAFE'', bo_success B b)
                        else if verdict_line raw = ''unsafe'' then (Inr ''DANGEROUS'', bo_success B b)
                        else (Inr ''DANGEROUS'', b)))"

section \<open>The chat protocol\<close>

definition strip_markdown :: "string \<Rightarrow> string" where
  "strip_markdown raw =
     (if is_prefix (''```json'') raw then str_strip (str_replace (''```'') [] (str_replace (''```json'') [] raw)) else raw)"

datatype chat_verdict = ChatRaises | NotJson | Verdict string

definition chat_verdict :: "(string \<Rightarrow> json option) \<Rightarrow> json option \<Rightarrow> chat_verdict" where
  "chat_verdict parse_json body =
     (case body of
        Some (JObj b) \<Rightarrow>
          (case jget_default b ''response'' (JStr []) of
             JStr r \<Rightarrow>
               (case parse_json (strip_markdown (str_strip r)) of
                  None \<Rightarrow> NotJson
                | Some (JObj p) \<Rightarrow>
                    (case jget_default p ''verdict'' (JStr []) of
                       JStr v \<Rightarrow> Verdict (str_upper v) | _ \<Rightarrow> ChatRaises)
                | Some _ \<Rightarrow> ChatRaises)
           | _ \<Rightarrow> ChatRaises)
      | _ \<Rightarrow> ChatRaises)"

definition semantic_judge ::
  "'b breaker_ops \<Rightarrow> (string \<Rightarrow> json option) \<Rightarrow> string \<Rightarrow> reply \<Rightarrow> 'b \<Rightarrow> string \<times> 'b" where
  "semantic_judge B parse_json model rep b0 =
     (let (op, b) = bo_is_open B b0
      in if op then (''JUDGE_OFFLINE'', b)
         else if uses_llama_guard_protocol model
         then (case judge_via_llama_guard B rep b of
                 (Inr v, b1) \<Rightarrow> (v, b1)
               | (Inl _, b1) \<Rightarrow> (''JUDGE_OFFLINE'', bo_failure B b1))
         else (case rep of
                 NoReply \<Rightarrow> (''JUDGE_OFFLINE'', bo_failure B b)
               | Reply status body \<Rightarrow>
                   if status = 200
                   then (case chat_verdict parse_json body of
                           ChatRaises \<Rightarrow> (''JUDGE_OFFLINE'', bo_failure B b)
                         | NotJson \<Rightarrow> (''DANGEROUS'', b)
                         | Verdict v \<Rightarrow> if v \<in> {''SAFE'', ''DANGEROUS'', ''AMBIGUOUS''}
                                        then (v, bo_success B b) else (''DANGEROUS'', b))
                   else (''DANGEROUS'', bo_failure B b)))"

section \<open>The output judge\<close>

text \<open>\<open>score\<close> is what the local toxicity model answers; \<open>None\<close> if it raises.\<close>

definition fallback_output_judge :: "bool \<Rightarrow> real \<Rightarrow> real option \<Rightarrow> string" where
  "fallback_output_judge enabled threshold score =
     (if \<not> enabled then ''JUDGE_OFFLINE''
      else case score of
             None \<Rightarrow> ''JUDGE_OFFLINE''
           | Some s \<Rightarrow> if s \<ge> threshold then ''DANGEROUS'' else ''SAFE'')"

definition output_judge ::
  "'b breaker_ops \<Rightarrow> (string \<Rightarrow> json option) \<Rightarrow> string \<Rightarrow> reply \<Rightarrow> bool \<Rightarrow> real \<Rightarrow> real option \<Rightarrow> 'b \<Rightarrow> string \<times> 'b" where
  "output_judge B parse_json model rep enabled threshold score b =
     (if uses_llama_guard_protocol model
      then (case judge_via_llama_guard B rep b of
              (Inr v, b1) \<Rightarrow> (v, b1)
            | (Inl _, b1) \<Rightarrow> (fallback_output_judge enabled threshold score, bo_failure B b1))
      else (case rep of
              NoReply \<Rightarrow> (fallback_output_judge enabled threshold score, b)
            | Reply status body \<Rightarrow>
                if status = 200
                then (case chat_verdict parse_json body of
                        ChatRaises \<Rightarrow> (fallback_output_judge enabled threshold score, b)
                      | NotJson \<Rightarrow> (''DANGEROUS'', b)
                      | Verdict v \<Rightarrow> (if v \<in> {''SAFE'', ''DANGEROUS''} then v else ''DANGEROUS'', b))
                else (''DANGEROUS'', b)))"

section \<open>Properties\<close>

text \<open>The input judge says SAFE only on positive evidence. Its breaker was closed, the endpoint
  answered 200, and the answer itself says safe in the protocol of the configured model; silence, an
  error status, unparsable text and unknown verdicts never count as SAFE.\<close>

theorem judge_safe_needs_evidence:
  assumes "fst (semantic_judge B parse_json model rep b) = ''SAFE''"
  shows "\<not> fst (bo_is_open B b) \<and> (\<exists>body. rep = Reply 200 (Some body) \<and>
     (if uses_llama_guard_protocol model
      then (\<exists>raw. chat_content body = Some raw \<and> verdict_line raw = ''safe'')
      else chat_verdict parse_json (Some body) = Verdict ''SAFE''))"
proof -
  obtain op b1 where op: "bo_is_open B b = (op, b1)" by fastforce
  with assms have no: "\<not> op" by (auto simp: semantic_judge_def)
  show ?thesis
  proof (cases "uses_llama_guard_protocol model")
    case True
    with assms op no show ?thesis
      by (auto simp: semantic_judge_def judge_via_llama_guard_def split: reply.splits option.splits if_splits)
  next
    case False
    with assms op no obtain body where rep: "rep = Reply 200 body" and v: "chat_verdict parse_json body = Verdict ''SAFE''"
      by (auto simp: semantic_judge_def split: reply.splits chat_verdict.splits if_splits)
    then obtain j where "body = Some j" by (cases body) (simp_all add: chat_verdict_def)
    with False op no rep v show ?thesis by simp
  qed
qed

theorem judge_safe_needs_evidence_witness:
  "\<exists>raw. chat_content (JObj [(''message'', JObj [(''content'', JStr '' Safe'')])]) = Some raw \<and> verdict_line raw = ''safe''"
proof -
  have j: "fst (semantic_judge (local_breaker 0) (\<lambda>_. None) ''Llama-Guard3''
      (Reply 200 (Some (JObj [(''message'', JObj [(''content'', JStr '' Safe'')])]))) (cb_init ''j'' 3 30 False False)) = ''SAFE''"
  proof -
    have g: "uses_llama_guard_protocol ''Llama-Guard3''" by code_simp
    have c: "chat_content (JObj [(''message'', JObj [(''content'', JStr '' Safe'')])]) = Some ''Safe''" by code_simp
    have l: "verdict_line ''Safe'' = ''safe''" by code_simp
    show ?thesis
      by (simp add: semantic_judge_def g judge_via_llama_guard_def c l local_breaker_def is_open_local_def cb_init_def)
  qed
  have g: "uses_llama_guard_protocol ''Llama-Guard3''" by code_simp
  show ?thesis
    using judge_safe_needs_evidence [OF j] g by simp
qed

text \<open>While the breaker is open the endpoint is not used: the verdict is JUDGE_OFFLINE whatever
  it would have answered, and the breaker's counters do not move.\<close>

theorem open_breaker_skips_judge:
  assumes "fst (is_open_local now cb)"
  shows "semantic_judge (local_breaker now) parse_json model rep cb = (''JUDGE_OFFLINE'', cb)"
  using assms
  by (auto simp: semantic_judge_def local_breaker_def is_open_local_def split: option.splits if_splits)

theorem open_breaker_skips_judge_witness:
  "semantic_judge (local_breaker 5) (\<lambda>_. None) ''m'' (Reply 200 None) (record_failure_local 4 (cb_init ''j'' 1 30 False False))
   = (''JUDGE_OFFLINE'', record_failure_local 4 (cb_init ''j'' 1 30 False False))"
  by (rule open_breaker_skips_judge) (simp add: is_open_local_def record_failure_local_def cb_init_def)

text \<open>The output judge fails open only if both judges are down. It answers SAFE, DANGEROUS or
  JUDGE_OFFLINE, and JUDGE_OFFLINE only if the primary gave no usable answer and the local fallback is
  disabled or raised.\<close>

theorem output_judge_fails_open_only_when_both_down:
  "fst (output_judge B parse_json model rep enabled threshold score b) \<in> {''SAFE'', ''DANGEROUS'', ''JUDGE_OFFLINE''}
   \<and> (fst (output_judge B parse_json model rep enabled threshold score b) = ''JUDGE_OFFLINE'' \<longrightarrow>
        (\<not> enabled \<or> score = None) \<and> (rep = NoReply \<or> (\<exists>body. rep = Reply 200 body \<and>
          (if uses_llama_guard_protocol model then Option.bind body chat_content = None
           else chat_verdict parse_json body = ChatRaises))))"
proof -
  have fb: "fallback_output_judge enabled threshold score \<in> {''SAFE'', ''DANGEROUS'', ''JUDGE_OFFLINE''}
      \<and> (fallback_output_judge enabled threshold score = ''JUDGE_OFFLINE'' \<longrightarrow> \<not> enabled \<or> score = None)"
    by (auto simp: fallback_output_judge_def split: option.splits)
  show ?thesis
  proof (cases "uses_llama_guard_protocol model")
    case True
    show ?thesis
    proof (cases "judge_via_llama_guard B rep b")
      case (Pair r b1)
      have "r = Inl () \<Longrightarrow> rep = NoReply \<or> (\<exists>body. rep = Reply 200 body \<and> Option.bind body chat_content = None)"
        and "r = Inr v \<Longrightarrow> v \<in> {''SAFE'', ''DANGEROUS''}" for v
        using Pair by (auto simp: judge_via_llama_guard_def split: reply.splits option.splits if_splits)
      with fb True Pair show ?thesis
        by (cases r) (auto simp: output_judge_def)
    qed
  next
    case False
    with fb show ?thesis
      by (cases rep) (auto simp: output_judge_def split: chat_verdict.splits)
  qed
qed

theorem output_judge_fails_open_only_when_both_down_witness:
  "fst (output_judge (local_breaker 0) (\<lambda>_. None) ''mistral'' NoReply False 1 (Some 0) (cb_init ''j'' 3 30 False False)) = ''JUDGE_OFFLINE''
   \<and> \<not> False"
proof -
  let ?o = "fst (output_judge (local_breaker 0) (\<lambda>_. None) ''mistral'' NoReply False 1 (Some 0) (cb_init ''j'' 3 30 False False))"
  have g: "\<not> uses_llama_guard_protocol ''mistral''" by code_simp
  have "?o = ''JUDGE_OFFLINE''" by (simp add: output_judge_def g fallback_output_judge_def)
  with output_judge_fails_open_only_when_both_down [of "local_breaker 0" "\<lambda>_. None" "''mistral''" NoReply False 1 "Some 0" "cb_init ''j'' 3 30 False False"]
  show ?thesis by simp
qed

end
