(* ===== verification/Cache.thy ===== *)
theory Cache
  imports Prelude
begin

text \<open>
  core/cache_backend.py and core/cache.py: the two exact-match backends, and the semantic cache with
  its exact tier and its fuzzy tier over a FAISS index.

  Embedding vectors are of an arbitrary type \<open>'v\<close>. FAISS is a parameter: \<open>cf_search\<close> returns the
  similarity and the position of the stored vector nearest to a query (position \<open>-1\<close> when there is
  none). The index holds a snapshot of the vectors in the order they had when it was built, so it is
  a list of its own. SHA-256 is the parameter \<open>cf_sha\<close>. Whether a call of the exact backend raises is
  an argument. The background threads that write snapshots to disk are not modelled;
  \<open>save_to_disk\<close> is what they write.
\<close>

record 'v entry =
  en_prompt :: string
  en_vector :: 'v
  en_risk :: string
  en_score :: real
  en_hash :: string
  en_epoch :: real
  en_source :: string
  en_ttl :: "real option"

definition DEFAULT_TTL_SECONDS :: real where
  "DEFAULT_TTL_SECONDS = 86400"

section \<open>The exact-match backends\<close>

record ('v, 'x) exact_backend =
  xb_get :: "real \<Rightarrow> string \<Rightarrow> 'x \<Rightarrow> 'v entry option \<times> 'x"
  xb_set :: "real \<Rightarrow> string \<Rightarrow> 'v entry \<Rightarrow> real \<Rightarrow> 'x \<Rightarrow> 'x"
  xb_delete :: "string \<Rightarrow> 'x \<Rightarrow> 'x"
  xb_flush :: "'x \<Rightarrow> 'x"

record 'v local_exact =
  le_max :: nat
  le_data :: "(string \<times> 'v entry) list"

definition entry_ttl :: "'v entry \<Rightarrow> real" where
  "entry_ttl e = (case en_ttl e of None \<Rightarrow> DEFAULT_TTL_SECONDS | Some t \<Rightarrow> t)"

fun local_exact_load :: "real \<Rightarrow> (string \<times> 'v entry) list \<Rightarrow> (string \<times> 'v entry) list \<Rightarrow> (string \<times> 'v entry) list" where
  "local_exact_load now [] data = data"
| "local_exact_load now ((k, e) # raw) data =
     local_exact_load now raw (if now - en_epoch e < entry_ttl e then od_set k e data else data)"

definition local_exact_init :: "real \<Rightarrow> nat \<Rightarrow> (string \<times> 'v entry) list option \<Rightarrow> 'v local_exact" where
  "local_exact_init now max_size file =
     \<lparr>le_max = max_size, le_data = (case file of None \<Rightarrow> [] | Some raw \<Rightarrow> local_exact_load now raw [])\<rparr>"

definition local_exact_get :: "real \<Rightarrow> string \<Rightarrow> 'v local_exact \<Rightarrow> 'v entry option \<times> 'v local_exact" where
  "local_exact_get now key le =
     (case map_of (le_data le) key of
        None \<Rightarrow> (None, le)
      | Some e \<Rightarrow>
          if now - en_epoch e \<ge> entry_ttl e then (None, le\<lparr>le_data := od_del key (le_data le)\<rparr>)
          else (Some e, le\<lparr>le_data := od_move_to_end key (le_data le)\<rparr>))"

text \<open>The eviction shared by both caches: a present key is dropped to be appended anew, otherwise the
  oldest entry makes room when the dictionary is full.\<close>

definition od_make_room :: "nat \<Rightarrow> 'k \<Rightarrow> ('k \<times> 'e) list \<Rightarrow> ('k \<times> 'e) list" where
  "od_make_room max_size key kvs =
     (if map_of kvs key \<noteq> None then od_del key kvs
      else if length kvs \<ge> max_size then drop 1 kvs else kvs)"

definition local_exact_set :: "real \<Rightarrow> string \<Rightarrow> 'v entry \<Rightarrow> real \<Rightarrow> 'v local_exact \<Rightarrow> 'v local_exact" where
  "local_exact_set now key e ttl le =
     le\<lparr>le_data := od_make_room (le_max le) key (le_data le) @ [(key, e\<lparr>en_epoch := now, en_ttl := Some ttl\<rparr>)]\<rparr>"

definition local_exact_delete :: "string \<Rightarrow> 'v local_exact \<Rightarrow> 'v local_exact" where
  "local_exact_delete key le = le\<lparr>le_data := od_del key (le_data le)\<rparr>"

definition local_exact_flush :: "'v local_exact \<Rightarrow> 'v local_exact" where
  "local_exact_flush le = le\<lparr>le_data := []\<rparr>"

definition local_backend :: "('v, 'v local_exact) exact_backend" where
  "local_backend = \<lparr>xb_get = local_exact_get, xb_set = local_exact_set,
     xb_delete = local_exact_delete, xb_flush = local_exact_flush\<rparr>"

text \<open>Redis as the backend sees it: expiry is the server's, the entries are read back as written.\<close>

record ('v, 's) entry_server =
  sv_get :: "'s \<Rightarrow> string \<Rightarrow> 'v entry option"
  sv_setex :: "string \<Rightarrow> real \<Rightarrow> 'v entry \<Rightarrow> 's \<Rightarrow> 's"
  sv_delete :: "string \<Rightarrow> 's \<Rightarrow> 's"
  sv_scan :: "'s \<Rightarrow> string \<Rightarrow> string list"

definition KEY_PREFIX :: string where
  "KEY_PREFIX = ''gatekeeper:cache:''"

definition redis_exact_get :: "('v, 's) entry_server \<Rightarrow> string \<Rightarrow> 's \<Rightarrow> 'v entry option \<times> 's" where
  "redis_exact_get S key s = (sv_get S s (KEY_PREFIX @ key), s)"

definition redis_exact_set :: "('v, 's) entry_server \<Rightarrow> string \<Rightarrow> 'v entry \<Rightarrow> real \<Rightarrow> 's \<Rightarrow> 's" where
  "redis_exact_set S key e ttl s = sv_setex S (KEY_PREFIX @ key) ttl e s"

definition redis_exact_delete :: "('v, 's) entry_server \<Rightarrow> string \<Rightarrow> 's \<Rightarrow> 's" where
  "redis_exact_delete S key s = sv_delete S (KEY_PREFIX @ key) s"

definition redis_exact_flush :: "('v, 's) entry_server \<Rightarrow> 's \<Rightarrow> 's" where
  "redis_exact_flush S s = fold (sv_delete S) (sv_scan S s KEY_PREFIX) s"

definition redis_backend :: "('v, 's) entry_server \<Rightarrow> ('v, 's) exact_backend" where
  "redis_backend S = \<lparr>xb_get = (\<lambda>now. redis_exact_get S), xb_set = (\<lambda>now. redis_exact_set S),
     xb_delete = redis_exact_delete S, xb_flush = redis_exact_flush S\<rparr>"

datatype exact_choice = UseRedis | UseLocal nat

definition build_exact_cache_backend :: "bool \<Rightarrow> string option \<Rightarrow> nat \<Rightarrow> exact_choice" where
  "build_exact_cache_backend client_given shared_client max_size =
     (if client_given then UseRedis else if shared_client \<noteq> None then UseRedis else UseLocal max_size)"

section \<open>The semantic cache\<close>

record 'v cache_config =
  cf_max :: nat
  cf_ttl :: real
  cf_threshold :: real
  cf_sha :: "string \<Rightarrow> string"
  cf_search :: "'v list \<Rightarrow> 'v \<Rightarrow> real \<times> int"

record ('v, 'x) sem_cache =
  fc_data :: "(string \<times> 'v entry) list"
  fc_index :: "'v list option"
  fc_exact :: 'x

definition cache_init :: "'x \<Rightarrow> ('v, 'x) sem_cache" where
  "cache_init x = \<lparr>fc_data = [], fc_index = None, fc_exact = x\<rparr>"

definition rebuild_faiss :: "('v, 'x) sem_cache \<Rightarrow> ('v, 'x) sem_cache" where
  "rebuild_faiss c = c\<lparr>fc_index := Some (map (en_vector \<circ> snd) (fc_data c))\<rparr>"

definition get_index :: "('v, 'x) sem_cache \<Rightarrow> ('v, 'x) sem_cache" where
  "get_index c = (case fc_index c of None \<Rightarrow> rebuild_faiss c | Some _ \<Rightarrow> c)"

fun cache_load_entries :: "real \<Rightarrow> real \<Rightarrow> 'v entry list \<Rightarrow> (string \<times> 'v entry) list \<Rightarrow> (string \<times> 'v entry) list" where
  "cache_load_entries now ttl [] data = data"
| "cache_load_entries now ttl (e # es) data =
     cache_load_entries now ttl es (if now - en_epoch e < ttl then od_set (en_hash e) e data else data)"

text \<open>\<open>load\<close>: \<open>None\<close> is no file, \<open>Some None\<close> one that cannot be read.\<close>

definition cache_load :: "'v cache_config \<Rightarrow> real \<Rightarrow> 'v entry list option option \<Rightarrow> ('v, 'x) sem_cache \<Rightarrow> ('v, 'x) sem_cache" where
  "cache_load cf now file c =
     (case file of
        None \<Rightarrow> c
      | Some None \<Rightarrow> c\<lparr>fc_data := []\<rparr>
      | Some (Some es) \<Rightarrow> c\<lparr>fc_data := cache_load_entries now (cf_ttl cf) es (fc_data c)\<rparr>)"

definition save_to_disk :: "('v, 'x) sem_cache \<Rightarrow> 'v entry list" where
  "save_to_disk c = map snd (fc_data c)"

definition save_cache_entry ::
  "'v cache_config \<Rightarrow> ('v, 'x) exact_backend \<Rightarrow> bool \<Rightarrow> real \<Rightarrow> string \<Rightarrow> 'v \<Rightarrow> string \<Rightarrow> real \<Rightarrow> string
   \<Rightarrow> ('v, 'x) sem_cache \<Rightarrow> ('v, 'x) sem_cache" where
  "save_cache_entry cf X set_raises now prompt vec risk score source c =
     (let h = cf_sha cf prompt;
          e = \<lparr>en_prompt = prompt, en_vector = vec, en_risk = risk, en_score = score, en_hash = h,
               en_epoch = now, en_source = source, en_ttl = None\<rparr>;
          c1 = rebuild_faiss (c\<lparr>fc_data := od_make_room (cf_max cf) h (fc_data c) @ [(h, e)]\<rparr>)
      in if set_raises then c1 else c1\<lparr>fc_exact := xb_set X now h e (cf_ttl cf) (fc_exact c1)\<rparr>)"

text \<open>The fuzzy tier reads the entry at the position the index names in the dictionary's current order.\<close>

definition fuzzy_lookup :: "'v cache_config \<Rightarrow> real \<Rightarrow> 'v \<Rightarrow> ('v, 'x) sem_cache \<Rightarrow> (string \<times> real) option \<times> ('v, 'x) sem_cache" where
  "fuzzy_lookup cf now q c =
     (let c1 = get_index c;
          vs = the (fc_index c1)
      in if vs = [] then (None, c1)
         else
           let (best_score, best_idx) = cf_search cf vs q
           in if best_score > cf_threshold cf \<and> best_idx \<noteq> -1 \<and> best_idx < int (length (fc_data c1))
              then let e = snd (fc_data c1 ! nat best_idx)
                   in if now - en_epoch e < cf_ttl cf
                      then (Some (en_risk e, en_score e),
                            c1\<lparr>fc_data := od_move_to_end (en_hash e) (fc_data c1)\<rparr>)
                      else (None, rebuild_faiss (c1\<lparr>fc_data := od_del (en_hash e) (fc_data c1)\<rparr>))
              else (None, c1))"

definition lookup_cache ::
  "'v cache_config \<Rightarrow> ('v, 'x) exact_backend \<Rightarrow> bool \<Rightarrow> real \<Rightarrow> string \<Rightarrow> 'v \<Rightarrow> ('v, 'x) sem_cache
   \<Rightarrow> (string \<times> real) option \<times> ('v, 'x) sem_cache" where
  "lookup_cache cf X get_raises now prompt q c =
     (let (found, c1) = (if get_raises then (None, c)
                         else let (oe, x) = xb_get X now (cf_sha cf prompt) (fc_exact c) in (oe, c\<lparr>fc_exact := x\<rparr>))
      in case found of
           Some e \<Rightarrow> (Some (en_risk e, en_score e), c1)
         | None \<Rightarrow> if fc_data c1 = [] then (None, c1) else fuzzy_lookup cf now q c1)"

definition flush_cache :: "('v, 'x) exact_backend \<Rightarrow> bool \<Rightarrow> ('v, 'x) sem_cache \<Rightarrow> ('v, 'x) sem_cache" where
  "flush_cache X flush_raises c =
     (let c1 = rebuild_faiss (c\<lparr>fc_data := []\<rparr>)
      in if flush_raises then c1 else c1\<lparr>fc_exact := xb_flush X (fc_exact c1)\<rparr>)"

section \<open>The interface of the exact tier\<close>

locale exact_tier =
  fixes X :: "('v, 'x) exact_backend"
  assumes get_set: "now' - now < ttl \<Longrightarrow>
      \<exists>e'. fst (xb_get X now' k (xb_set X now k e ttl x)) = Some e' \<and> en_risk e' = en_risk e \<and> en_score e' = en_score e"
    and get_get: "now1 \<le> now2 \<Longrightarrow> fst (xb_get X now2 k' (snd (xb_get X now1 k x))) = fst (xb_get X now2 k' x)"
begin

lemma lookup_exact_hit:
  assumes "fst (xb_get X now (cf_sha cf prompt) (fc_exact c)) = Some e"
  shows "fst (lookup_cache cf X False now prompt q c) = Some (en_risk e, en_score e)"
  using assms by (simp add: lookup_cache_def case_prod_beta)

lemma lookup_exact_state:
  "fc_exact (snd (lookup_cache cf X False now prompt q c)) = snd (xb_get X now (cf_sha cf prompt) (fc_exact c))"
  by (auto simp: lookup_cache_def fuzzy_lookup_def get_index_def rebuild_faiss_def Let_def case_prod_beta
      split: option.splits)

text \<open>A run of lookups at non-decreasing times leaves the exact tier's answers alone.\<close>

lemma lookups_keep_exact:
  assumes "sorted (map (\<lambda>(t, p, q). t) ls)" and "\<forall>(t, p, q) \<in> set ls. t \<le> now'"
  shows "fst (xb_get X now' k (fc_exact (fold (\<lambda>(t, p, q) c. snd (lookup_cache cf X False t p q c)) ls c)))
    = fst (xb_get X now' k (fc_exact c))"
  using assms by (induction ls arbitrary: c) (auto simp: lookup_exact_state get_get)

lemma saved_verdict_persists:
  assumes "sorted (map (\<lambda>(t, p, q). t) ls)" and "\<forall>(t, p, q) \<in> set ls. t \<le> now'" and "now' - now < cf_ttl cf"
  shows "fst (lookup_cache cf X False now' prompt q
      (fold (\<lambda>(t, p, q) c. snd (lookup_cache cf X False t p q c)) ls
        (save_cache_entry cf X False now prompt v risk score src c))) = Some (risk, score)"
proof -
  let ?c = "save_cache_entry cf X False now prompt v risk score src c"
  obtain e' where "fst (xb_get X now' (cf_sha cf prompt) (fc_exact ?c)) = Some e'" and "en_risk e' = risk" "en_score e' = score"
    using get_set [OF assms(3), of "cf_sha cf prompt" "\<lparr>en_prompt = prompt, en_vector = v, en_risk = risk,
      en_score = score, en_hash = cf_sha cf prompt, en_epoch = now, en_source = src, en_ttl = None\<rparr>" "fc_exact c"]
    by (auto simp: save_cache_entry_def rebuild_faiss_def Let_def)
  then show ?thesis
    using lookups_keep_exact [OF assms(1,2), of "cf_sha cf prompt" cf ?c] by (simp add: lookup_exact_hit)
qed

end

lemma map_of_make_room_same: "map_of (od_make_room m k kvs) k = None"
proof -
  have "map_of (drop 1 kvs) k = None" if "map_of kvs k = None"
    using that by (cases kvs) (auto split: if_splits)
  then show ?thesis by (auto simp: od_make_room_def od_simps)
qed

interpretation local_tier: exact_tier local_backend
proof unfold_locales
  fix now now' ttl :: real and k :: string and e :: "'v entry" and x :: "'v local_exact"
  assume "now' - now < ttl"
  then show "\<exists>e'. fst (xb_get local_backend now' k (xb_set local_backend now k e ttl x)) = Some e'
      \<and> en_risk e' = en_risk e \<and> en_score e' = en_score e"
    by (simp add: local_backend_def local_exact_get_def local_exact_set_def map_of_append_new
        map_of_make_room_same entry_ttl_def del: map_of_append)
next
  fix now1 now2 :: real and k k' :: string and x :: "'v local_exact"
  assume "now1 \<le> now2"
  then show "fst (xb_get local_backend now2 k' (snd (xb_get local_backend now1 k x))) = fst (xb_get local_backend now2 k' x)"
    by (auto simp: local_backend_def local_exact_get_def od_simps split: option.splits)
qed

text \<open>What the shared backend relies on of Redis: SETEX then GET, and nothing else written.\<close>

locale entry_kv =
  fixes S :: "('v, 's) entry_server"
  assumes get_setex: "0 < ttl \<Longrightarrow> sv_get S (sv_setex S k ttl e s) k = Some e"
begin

lemma redis_get_after_set:
  "0 < ttl \<Longrightarrow> xb_get (redis_backend S) now' k (xb_set (redis_backend S) now k e ttl s)
     = (Some e, xb_set (redis_backend S) now k e ttl s)"
  by (simp add: redis_backend_def redis_exact_get_def redis_exact_set_def get_setex)

end

definition ref_entries :: "('v, (string \<times> 'v entry) list) entry_server" where
  "ref_entries = \<lparr>sv_get = map_of, sv_setex = (\<lambda>k ttl e. od_set k e), sv_delete = od_del,
     sv_scan = (\<lambda>s p. filter (\<lambda>k. take (length p) k = p) (map fst s))\<rparr>"

interpretation ref_entries: entry_kv ref_entries
  by unfold_locales (simp add: ref_entries_def od_simps)

section \<open>The invariant of the semantic cache\<close>

definition cache_inv :: "'v cache_config \<Rightarrow> ('v, 'x) sem_cache \<Rightarrow> bool" where
  "cache_inv cf c \<longleftrightarrow> od_wf (fc_data c) \<and> length (fc_data c) \<le> cf_max cf \<and> (\<forall>(h, e) \<in> set (fc_data c). en_hash e = h)"

definition in_sync :: "('v, 'x) sem_cache \<Rightarrow> bool" where
  "in_sync c \<longleftrightarrow> fc_index c \<in> {None, Some (map (en_vector \<circ> snd) (fc_data c))}"

lemma od_make_room_facts:
  assumes "od_wf kvs" and "length kvs \<le> m" and "0 < m"
  shows "od_wf (od_make_room m k kvs @ [(k, v)])" and "length (od_make_room m k kvs @ [(k, v)]) \<le> m"
    and "set (od_make_room m k kvs) \<subseteq> set kvs"
proof -
  have "k \<notin> fst ` set (od_make_room m k kvs)"
    using map_of_make_room_same [of m k kvs] by (simp add: map_of_eq_None_iff)
  moreover have "od_wf (od_make_room m k kvs)"
    using assms(1) by (auto simp: od_make_room_def od_wf_od_del) (simp add: od_wf_def drop_map [symmetric])
  ultimately show "od_wf (od_make_room m k kvs @ [(k, v)])" by (auto simp: od_wf_def)
  have "Suc (length (od_make_room m k kvs)) \<le> m"
  proof (cases "map_of kvs k")
    case None
    with assms show ?thesis by (auto simp: od_make_room_def)
  next
    case (Some x)
    then have "k \<in> fst ` set kvs" by (force dest: map_of_SomeD)
    with Some assms(2) length_od_del_in [OF assms(1)] show ?thesis by (simp add: od_make_room_def)
  qed
  then show "length (od_make_room m k kvs @ [(k, v)]) \<le> m" by simp
  show "set (od_make_room m k kvs) \<subseteq> set kvs"
    by (auto simp: od_make_room_def od_del_def dest: in_set_dropD)
qed

lemma cache_inv_save [inv_intros]:
  assumes "cache_inv cf c" and "0 < cf_max cf"
  shows "cache_inv cf (save_cache_entry cf X f now p v risk score src c)"
  using assms od_make_room_facts [of "fc_data c" "cf_max cf" "cf_sha cf p"]
  by (fastforce simp: cache_inv_def save_cache_entry_def rebuild_faiss_def Let_def)

lemma set_move_to_end: "set (od_move_to_end k kvs) \<subseteq> set kvs"
  by (auto simp: od_move_to_end_def od_del_def dest: map_of_SomeD split: option.splits)

lemma length_od_del_le: "length (od_del k kvs) \<le> length kvs"
  by (simp add: od_del_def)

lemma cache_inv_rebuild: "cache_inv cf (rebuild_faiss c) = cache_inv cf c"
  by (simp add: cache_inv_def rebuild_faiss_def)

lemma cache_inv_flush [inv_intros]: "cache_inv cf (flush_cache X f c)"
  by (simp add: cache_inv_def flush_cache_def rebuild_faiss_def Let_def)

lemma cache_inv_lookup [inv_intros]:
  assumes "cache_inv cf c"
  shows "cache_inv cf (snd (lookup_cache cf X f now p q c))"
proof -
  have fuzzy: "cache_inv cf (snd (fuzzy_lookup cf now q c'))" if "cache_inv cf c'" for c'
  proof -
    have fc: "fc_data (get_index c') = fc_data c'"
      by (simp add: get_index_def rebuild_faiss_def split: option.splits)
    have mv: "cache_inv cf (c''\<lparr>fc_data := od_move_to_end k (fc_data c')\<rparr>)" for c'' k
      using that set_move_to_end [of k "fc_data c'"]
      by (auto simp: cache_inv_def od_wf_od_move_to_end length_od_move_to_end)
    have del: "cache_inv cf (c''\<lparr>fc_data := od_del k (fc_data c')\<rparr>)" for c'' k
      using that length_od_del_le [of k "fc_data c'"] od_wf_od_del [of "fc_data c'" k]
      by (auto simp: cache_inv_def) (auto simp: od_del_def)
    have "cache_inv cf (get_index c')"
      using that fc by (simp add: cache_inv_def)
    then show ?thesis
      using mv del by (auto simp: fuzzy_lookup_def Let_def case_prod_beta fc cache_inv_rebuild)
  qed
  have "cache_inv cf (c\<lparr>fc_exact := x\<rparr>)" for x
    using assms by (simp add: cache_inv_def)
  then show ?thesis
    using assms fuzzy by (auto simp: lookup_cache_def Let_def case_prod_beta split: option.splits)
qed

lemma in_sync_save: "in_sync (save_cache_entry cf X f now p v risk score src c)"
  by (simp add: in_sync_def save_cache_entry_def rebuild_faiss_def Let_def)

text \<open>What FAISS is relied on for: the position returned is one of the index, with its similarity.\<close>

definition search_ok :: "('v \<Rightarrow> 'v \<Rightarrow> real) \<Rightarrow> 'v cache_config \<Rightarrow> bool" where
  "search_ok sim cf \<longleftrightarrow> (\<forall>vs q s i. vs \<noteq> [] \<longrightarrow> cf_search cf vs q = (s, i) \<longrightarrow>
     0 \<le> i \<and> i < int (length vs) \<and> s = sim (vs ! nat i) q)"

lemma fuzzy_hit_similar:
  assumes "in_sync c" and "search_ok sim cf" and "fst (fuzzy_lookup cf now q c) = Some (risk, score)"
  shows "\<exists>(h, e) \<in> set (fc_data c). en_risk e = risk \<and> en_score e = score \<and>
    sim (en_vector e) q > cf_threshold cf \<and> now - en_epoch e < cf_ttl cf"
proof -
  let ?vs = "map (en_vector \<circ> snd) (fc_data c)"
  have idx: "fc_index (get_index c) = Some ?vs" and dat: "fc_data (get_index c) = fc_data c"
    using assms(1) by (auto simp: get_index_def rebuild_faiss_def in_sync_def split: option.splits)
  obtain s i where si: "cf_search cf ?vs q = (s, i)" by fastforce
  from assms(3) have ne: "?vs \<noteq> []"
    by (auto simp: fuzzy_lookup_def idx Let_def)
  have ok: "0 \<le> i" "i < int (length ?vs)" "s = sim (?vs ! nat i) q"
    using assms(2) [unfolded search_ok_def, rule_format, OF ne si] by blast+
  let ?e = "snd (fc_data c ! nat i)"
  have "en_risk ?e = risk \<and> en_score ?e = score \<and> s > cf_threshold cf \<and> now - en_epoch ?e < cf_ttl cf"
    using assms(3) ne by (simp add: fuzzy_lookup_def idx dat si Let_def split: if_splits)
  moreover have "fc_data c ! nat i \<in> set (fc_data c)" and "s = sim (en_vector ?e) q"
    using ok by auto
  ultimately show ?thesis by (auto intro!: bexI [of _ "fc_data c ! nat i"] simp: case_prod_beta)
qed

datatype 'v cache_op = Save bool real string 'v string real string | Lookup bool real string 'v | Flush bool

fun cache_apply ::
  "'v cache_config \<Rightarrow> ('v, 'x) exact_backend \<Rightarrow> 'v cache_op \<Rightarrow> ('v, 'x) sem_cache \<Rightarrow> ('v, 'x) sem_cache" where
  "cache_apply cf X (Save f now p v r s src) c = save_cache_entry cf X f now p v r s src c"
| "cache_apply cf X (Lookup f now p q) c = snd (lookup_cache cf X f now p q c)"
| "cache_apply cf X (Flush f) c = flush_cache X f c"

section \<open>Properties\<close>

text \<open>Claim C34: with the local exact tier, the verdict saved for a prompt is the one every later lookup of
  the same prompt returns until the time to live is over, whatever lookups of other prompts came
  in between and whatever the fuzzy index holds.\<close>

theorem saved_verdict_is_served:
  assumes "sorted (map (\<lambda>(t, p, q). t) ls)" and "\<forall>(t, p, q) \<in> set ls. t \<le> now'" and "now' - now < cf_ttl cf"
  shows "fst (lookup_cache cf local_backend False now' prompt q
      (fold (\<lambda>(t, p, q) c. snd (lookup_cache cf local_backend False t p q c)) ls
        (save_cache_entry cf local_backend False now prompt v risk score src c))) = Some (risk, score)"
  by (rule local_tier.saved_verdict_persists [OF assms])

definition sample_cf :: "int cache_config" where
  "sample_cf = \<lparr>cf_max = 3, cf_ttl = 100, cf_threshold = 1/2, cf_sha = (\<lambda>s. s),
     cf_search = (\<lambda>vs q. if q \<in> set vs then (1, int (length (takeWhile (\<lambda>v. v \<noteq> q) vs))) else (0, 0))\<rparr>"

theorem saved_verdict_is_served_witness:
  "fst (lookup_cache sample_cf local_backend False 60 ''p'' 0
      (fold (\<lambda>(t, p, q) c. snd (lookup_cache sample_cf local_backend False t p q c)) [(10, ''q'', 5), (20, ''p'', 0)]
        (save_cache_entry sample_cf local_backend False 0 ''p'' 0 ''HIGH'' 1 ''s'' (cache_init (local_exact_init 0 2 None)))))
   = Some (''HIGH'', 1)"
  by (rule saved_verdict_is_served) (simp_all add: sample_cf_def)

text \<open>Right after a save, a fuzzy hit is what the threshold promises: the verdict of a stored,
  unexpired entry whose own vector is more similar to the query than the threshold.\<close>

theorem fuzzy_hit_after_save:
  assumes "search_ok sim cf"
    and "fst (fuzzy_lookup cf now' q (save_cache_entry cf X f now p v r sc src c)) = Some (risk, score)"
  shows "\<exists>(h, e) \<in> set (fc_data (save_cache_entry cf X f now p v r sc src c)). en_risk e = risk \<and> en_score e = score \<and>
    sim (en_vector e) q > cf_threshold cf \<and> now' - en_epoch e < cf_ttl cf"
  by (rule fuzzy_hit_similar [OF in_sync_save assms])

lemma sample_search_ok: "search_ok (\<lambda>a b. if a = b then 1 else 0) (sample_cf\<lparr>cf_search :=
    (\<lambda>vs q. if q \<in> set vs then (1, int (length (takeWhile (\<lambda>v. v \<noteq> q) vs))) else (if hd vs = q then 1 else 0, 0))\<rparr>)"
proof -
  have "length (takeWhile (\<lambda>v. v \<noteq> q) vs) < length vs \<and> vs ! length (takeWhile (\<lambda>v. v \<noteq> q) vs) = q" if "q \<in> set vs" for q :: int and vs
    using that by (induction vs) auto
  then show ?thesis
    by (auto simp: search_ok_def hd_conv_nth)
qed

theorem fuzzy_hit_after_save_witness:
  "\<exists>(h, e) \<in> set (fc_data (save_cache_entry (sample_cf\<lparr>cf_search := (\<lambda>vs q. if q \<in> set vs
       then (1, int (length (takeWhile (\<lambda>v. v \<noteq> q) vs))) else (if hd vs = q then 1 else 0, 0))\<rparr>)
      local_backend False 0 ''p'' (7::int) ''HIGH'' 1 ''s'' (cache_init (local_exact_init 0 2 None)))).
    en_risk e = ''HIGH'' \<and> en_score e = 1 \<and> (if en_vector e = 7 then 1 else (0::real)) > 1/2 \<and> 5 - en_epoch e < 100"
  using fuzzy_hit_after_save [OF sample_search_ok, of 5 7 local_backend False 0 "''p''" 7 "''HIGH''" 1 "''s''"
      "cache_init (local_exact_init 0 2 None)" "''HIGH''" 1]
  by (simp add: sample_cf_def save_cache_entry_def cache_init_def rebuild_faiss_def fuzzy_lookup_def get_index_def
      od_make_room_def Let_def)

text \<open>The comment that index positions "map 1:1" to the dictionary is wrong after a fuzzy hit.
  A hit moves its entry to the end without rebuilding the index, so the next query whose nearest
  neighbour is that same entry is answered with the verdict of the entry that followed it.\<close>

theorem fuzzy_hit_desynchronises_index:
  assumes "fc_data c = [(h1, e1), (h2, e2)]" and "en_hash e1 = h1" and "en_hash e2 = h2" and "h1 \<noteq> h2"
    and "in_sync c" and "cf_search cf [en_vector e1, en_vector e2] q = (s, 0)" and "s > cf_threshold cf"
    and "now - en_epoch e1 < cf_ttl cf" and "now - en_epoch e2 < cf_ttl cf"
  shows "fst (fuzzy_lookup cf now q c) = Some (en_risk e1, en_score e1)
    \<and> fst (fuzzy_lookup cf now q (snd (fuzzy_lookup cf now q c))) = Some (en_risk e2, en_score e2)"
proof -
  have idx: "get_index c = c\<lparr>fc_index := Some [en_vector e1, en_vector e2]\<rparr>"
    using assms(1,5) by (cases c) (auto simp: get_index_def rebuild_faiss_def in_sync_def split: option.splits)
  then have first: "fuzzy_lookup cf now q c = (Some (en_risk e1, en_score e1),
      c\<lparr>fc_index := Some [en_vector e1, en_vector e2], fc_data := [(h2, e2), (h1, e1)]\<rparr>)"
    using assms by (simp add: fuzzy_lookup_def Let_def od_move_to_end_def od_del_def)
  show ?thesis
    unfolding first using assms by (simp add: fuzzy_lookup_def get_index_def Let_def)
qed

theorem fuzzy_hit_desynchronises_index_witness:
  "let c = save_cache_entry sample_cf local_backend True 1 ''fine'' 8 ''LOW'' 0 ''s''
         (save_cache_entry sample_cf local_backend True 0 ''attack'' 7 ''HIGH'' 1 ''s'' (cache_init (local_exact_init 0 2 None)))
   in fst (fuzzy_lookup sample_cf 2 7 c) = Some (''HIGH'', 1)
    \<and> fst (fuzzy_lookup sample_cf 2 7 (snd (fuzzy_lookup sample_cf 2 7 c))) = Some (''LOW'', 0)"
proof -
  let ?e1 = "\<lparr>en_prompt = ''attack'', en_vector = 7, en_risk = ''HIGH'', en_score = 1, en_hash = ''attack'',
      en_epoch = 0, en_source = ''s'', en_ttl = None\<rparr> :: int entry"
  let ?e2 = "\<lparr>en_prompt = ''fine'', en_vector = 8, en_risk = ''LOW'', en_score = 0, en_hash = ''fine'',
      en_epoch = 1, en_source = ''s'', en_ttl = None\<rparr> :: int entry"
  let ?c = "save_cache_entry sample_cf local_backend True 1 ''fine'' 8 ''LOW'' 0 ''s''
         (save_cache_entry sample_cf local_backend True 0 ''attack'' 7 ''HIGH'' 1 ''s'' (cache_init (local_exact_init 0 2 None)))"
  have d: "fc_data ?c = [(''attack'', ?e1), (''fine'', ?e2)]"
    by (simp add: save_cache_entry_def rebuild_faiss_def cache_init_def od_make_room_def sample_cf_def Let_def)
  show ?thesis
    using fuzzy_hit_desynchronises_index [OF d _ _ _ in_sync_save, of sample_cf 7 1 2]
    by (simp add: sample_cf_def)
qed

text \<open>Claim C35: no sequence of saves, lookups and flushes makes the semantic cache hold more than
  \<open>MAX_CACHE_SIZE\<close> entries, two entries of one prompt hash, or an entry filed under another hash.\<close>

theorem semantic_cache_bounded:
  assumes "0 < cf_max cf"
  shows "cache_inv cf (fold (cache_apply cf X) ops (cache_init x))"
proof -
  have "cache_inv cf (cache_apply cf X op c)" if "cache_inv cf c" for op c
    using that assms
    by (cases op) (auto intro: cache_inv_save cache_inv_lookup cache_inv_flush)
  then have "cache_inv cf c \<Longrightarrow> cache_inv cf (fold (cache_apply cf X) ops c)" for c
    by (induction ops arbitrary: c) auto
  moreover have "cache_inv cf (cache_init x)"
    by (simp add: cache_inv_def cache_init_def)
  ultimately show ?thesis by blast
qed

theorem semantic_cache_bounded_witness:
  "length (fc_data (fold (cache_apply sample_cf local_backend)
      [Save True 0 ''a'' 1 ''LOW'' 0 ''s'', Lookup True 1 ''b'' 1, Flush True] (cache_init (local_exact_init 0 2 None)))) \<le> cf_max sample_cf"
  using semantic_cache_bounded [of sample_cf local_backend "[Save True 0 ''a'' 1 ''LOW'' 0 ''s'', Lookup True 1 ''b'' 1, Flush True]"
      "local_exact_init 0 2 None"]
  unfolding cache_inv_def by (simp add: sample_cf_def)

end
