(* ===== verification/Risk.thy ===== *)
theory Risk
  imports Assess_Result Fusion Semantic_Judge Cache
begin

text \<open>
  core/risk.py: the staged risk pipeline. What it computes with is an environment (\<open>risk_env\<close>): the
  loaded rules as predicates on text, the thresholds and settings, the embedding and the similarities
  (models of other files or libraries), the fused score of core/fusion.py, and the text normalizer.
  What it changes is \<open>risk_state\<close>: the verdict cache, Llama Guard's breaker and the judge's state. The
  cache is used through the interface \<open>verdict_cache\<close>, which core/cache.py's model provides.
\<close>

section \<open>Anchors\<close>

text \<open>\<open>load_policies\<close>: the threat anchors, flat and by class; a missing file gives none.\<close>

datatype anchor_file = NoAnchorFile | Anchors "(string \<times> string list) list" "string list"

definition load_policies :: "anchor_file \<Rightarrow> string list \<times> (string \<times> string list) list" where
  "load_policies file =
     (case file of
        NoAnchorFile \<Rightarrow> ([], [])
      | Anchors classes legacy \<Rightarrow>
          if classes \<noteq> [] then (concat (map snd classes), classes)
          else (legacy, if legacy \<noteq> [] then [(''unclassified'', legacy)] else []))"

section \<open>Environment and state\<close>

record 'v risk_env =
  re_jailbreak :: "(string \<Rightarrow> bool) list option"
  re_override :: "(string \<Rightarrow> bool) list option"
  re_hard_ban :: "string list option"
  re_normalize :: "string \<Rightarrow> string"
  re_meta_anchors :: "'v list"
  re_cosine :: "'v \<Rightarrow> 'v \<Rightarrow> real"
  re_threat_sim :: "'v \<Rightarrow> real"
  re_edu_sim :: "'v \<Rightarrow> real"
  re_centroid :: "'v \<Rightarrow> real"
  re_domain :: "string \<Rightarrow> bool \<times> real"
  re_fuse :: "string \<Rightarrow> real \<Rightarrow> fusion_result"
  re_embed :: "string \<Rightarrow> 'v"
  re_meta_threshold :: real
  re_high :: real
  re_medium :: real
  re_edu_threshold :: real
  re_domain_mode :: string
  re_may_clear :: bool
  re_clock :: stage_ms

record ('v, 'c, 'l, 'j) risk_ops =
  ro_lookup :: "string \<Rightarrow> 'v \<Rightarrow> 'c \<Rightarrow> (string \<times> real) option \<times> 'c"
  ro_save :: "string \<Rightarrow> 'v \<Rightarrow> string \<Rightarrow> real \<Rightarrow> string \<Rightarrow> 'c \<Rightarrow> 'c"
  ro_breaker :: "'l breaker_ops"
  ro_guard_available :: bool
  ro_classify :: "string \<Rightarrow> string option"
  ro_judge :: "string \<Rightarrow> 'j \<Rightarrow> string \<times> 'j"

record ('c, 'l, 'j) risk_state =
  rs_cache :: 'c
  rs_breaker :: 'l
  rs_judge :: 'j

section \<open>Symbolic rules\<close>

definition check_symbolic_violations :: "'v risk_env \<Rightarrow> string \<Rightarrow> string option" where
  "check_symbolic_violations E prompt =
     (case (re_jailbreak E, re_override E, re_hard_ban E) of
        (Some js, Some os, Some ks) \<Rightarrow>
          let p = str_lower prompt
          in if list_ex (\<lambda>pat. pat p) js then Some ''JAILBREAK_DETECTED''
             else if list_ex (\<lambda>pat. pat p) os then Some ''INSTRUCTION_OVERRIDE_DETECTED''
             else if list_ex (\<lambda>k. contains k p) ks then Some ''HARD_BAN_DETECTED''
             else None
      | _ \<Rightarrow> Some ''SYMBOLIC_POLICY_MISSING'')"

definition hard_ban_triggered :: "'v risk_env \<Rightarrow> string \<Rightarrow> string option" where
  "hard_ban_triggered E prompt = check_symbolic_violations E (re_normalize E prompt)"

section \<open>Signals\<close>

definition check_meta_intent :: "'v risk_env \<Rightarrow> 'v \<Rightarrow> real" where
  "check_meta_intent E v = fold (\<lambda>a m. if re_cosine E v a > m then re_cosine E v a else m) (re_meta_anchors E) 0"

definition check_educational_context :: "'v risk_env \<Rightarrow> 'v \<Rightarrow> bool" where
  "check_educational_context E v \<longleftrightarrow> re_edu_sim E v > re_edu_threshold E"

record fast_signals =
  fa_meta :: real
  fa_threat :: real

definition fast_path_signals :: "'v risk_env \<Rightarrow> 'v \<Rightarrow> fast_signals" where
  "fast_path_signals E v = \<lparr>fa_meta = check_meta_intent E v, fa_threat = re_threat_sim E v\<rparr>"

definition fast_path_decision :: "'v risk_env \<Rightarrow> fast_signals \<Rightarrow> (string \<times> string) option" where
  "fast_path_decision E fast =
     (if fa_meta fast \<ge> re_meta_threshold E then Some (''HIGH'', ''fast_path_meta_intent'')
      else if fa_threat fast \<ge> re_high E then Some (''HIGH'', ''fast_path_anchor_critical'')
      else None)"

record signals =
  si_meta :: real
  si_threat :: real
  si_educational :: bool
  si_domain_aligned :: "bool option"
  si_domain_score :: "real option"
  si_centroid :: real
  si_fusion :: fusion_result
  si_ms :: stage_ms

definition collect_semantic_signals :: "'v risk_env \<Rightarrow> string \<Rightarrow> 'v \<Rightarrow> fast_signals option \<Rightarrow> signals" where
  "collect_semantic_signals E prompt v fast =
     (let f = (case fast of Some f \<Rightarrow> f | None \<Rightarrow> fast_path_signals E v);
          paid = (fast = None);
          off = (re_domain_mode E = ''off'')
      in \<lparr>si_meta = fa_meta f, si_threat = fa_threat f,
          si_educational = check_educational_context E v,
          si_domain_aligned = (if off then None else Some (fst (re_domain E prompt))),
          si_domain_score = (if off then None else Some (snd (re_domain E prompt))),
          si_centroid = re_centroid E v,
          si_fusion = re_fuse E prompt (fa_threat f),
          si_ms = \<lparr>sm_meta_intent = (if paid then sm_meta_intent (re_clock E) else 0),
                   sm_faiss = (if paid then sm_faiss (re_clock E) else 0),
                   sm_domain = (if off then 0 else sm_domain (re_clock E)),
                   sm_fusion = sm_fusion (re_clock E)\<rparr>\<rparr>)"

section \<open>Deterministic fusion\<close>

definition classify_topicality :: "signals \<Rightarrow> string" where
  "classify_topicality s =
     (case si_domain_aligned s of None \<Rightarrow> ''UNKNOWN'' | Some b \<Rightarrow> if b then ''IN_DOMAIN'' else ''OUT_OF_DOMAIN'')"

definition in_upper_ambiguous_band :: "real \<Rightarrow> real \<Rightarrow> real \<Rightarrow> bool" where
  "in_upper_ambiguous_band score threshold_medium threshold_high =
     (let band = threshold_high - threshold_medium
      in if band \<le> 0 then True else score \<ge> threshold_medium + band / 2)"

text \<open>The score that decides and its two thresholds: the fused triple when it is available.\<close>

definition deciding_score :: "'v risk_env \<Rightarrow> signals \<Rightarrow> real \<times> real \<times> real" where
  "deciding_score E s =
     (if fr_available (si_fusion s)
      then (the (fr_score (si_fusion s)), the (fr_medium (si_fusion s)), the (fr_high (si_fusion s)))
      else (si_threat s, re_medium E, re_high E))"

definition fuse_signals :: "'v risk_env \<Rightarrow> signals \<Rightarrow> string \<times> string \<times> bool \<times> string" where
  "fuse_signals E s =
     (let topicality = classify_topicality s
      in if si_meta s \<ge> re_meta_threshold E then (''HIGH'', ''semantic_meta_intent'', False, topicality)
         else if re_domain_mode E = ''enforcing'' \<and> topicality = ''OUT_OF_DOMAIN''
         then (''MEDIUM'', ''domain_guardrail'', False, topicality)
         else if fr_available (si_fusion s)
         then (let (score, medium, high) = deciding_score E s
               in if score \<ge> high then (''HIGH'', ''fusion_threat_critical'', False, topicality)
                  else if score \<ge> medium
                  then (if si_educational s then (''MEDIUM'', ''fusion_educational_safe_harbor'', False, topicality)
                        else (''MEDIUM'', ''fusion_judge_pending'', True, topicality))
                  else (''LOW'', ''fusion_clean_pass'', False, topicality))
         else if si_threat s \<ge> re_high E then (''HIGH'', ''vector_threat_critical'', False, topicality)
         else if si_threat s \<ge> re_medium E
         then (if si_educational s then (''MEDIUM'', ''educational_safe_harbor'', False, topicality)
               else (''MEDIUM'', ''judge_pending'', True, topicality))
         else (''LOW'', ''clean_pass'', False, topicality))"

section \<open>Arbitration\<close>

definition llama_guard_arbitration ::
  "'v risk_env \<Rightarrow> ('v, 'c, 'l, 'j) risk_ops \<Rightarrow> string \<Rightarrow> bool \<Rightarrow> 'l \<Rightarrow> (string \<times> string) option \<times> 'l" where
  "llama_guard_arbitration E R prompt threat_present l0 =
     (let (op, l) = bo_is_open (ro_breaker R) l0
      in if op then (None, l)
         else if \<not> ro_guard_available R then (None, l)
         else case ro_classify R prompt of
                None \<Rightarrow> (None, bo_failure (ro_breaker R) l)
              | Some verdict \<Rightarrow>
                  (Some (if verdict = ''unsafe'' then (''HIGH'', ''llama_guard_arbitration'')
                         else if threat_present \<or> \<not> re_may_clear E
                         then (''MEDIUM'', if threat_present then ''llama_guard_override_restricted''
                                           else ''llama_guard_override_capped'')
                         else (''LOW'', ''llama_guard_override'')),
                   bo_success (ro_breaker R) l))"

definition judge_arbitration ::
  "'v risk_env \<Rightarrow> ('v, 'c, 'l, 'j) risk_ops \<Rightarrow> string \<Rightarrow> bool \<Rightarrow> 'j \<Rightarrow> (string \<times> string) \<times> 'j" where
  "judge_arbitration E R prompt threat_present j0 =
     (let (verdict, j) = ro_judge R prompt j0
      in (if verdict = ''DANGEROUS'' then (''HIGH'', ''semantic_judge'')
          else if verdict = ''SAFE''
          then (if threat_present \<or> \<not> re_may_clear E
                then (''MEDIUM'', if threat_present then ''semantic_judge_override_restricted''
                                  else ''semantic_judge_override_capped'')
                else (''LOW'', ''semantic_judge_override''))
          else if verdict = ''AMBIGUOUS'' then (''MEDIUM'', ''semantic_judge_ambiguous'')
          else (''HIGH'', ''judge_failure_fail_closed''), j))"

text \<open>\<open>save_raises\<close>: the cache write raises, which is logged and swallowed.\<close>

definition llama_guard_async_confirmation ::
  "'v risk_env \<Rightarrow> ('v, 'c, 'l, 'j) risk_ops \<Rightarrow> bool \<Rightarrow> string \<Rightarrow> 'v \<Rightarrow> string
   \<Rightarrow> ('c, 'l, 'j) risk_state \<Rightarrow> ('c, 'l, 'j) risk_state" where
  "llama_guard_async_confirmation E R save_raises prompt v fast_risk st =
     (let (result, l) = llama_guard_arbitration E R prompt (fast_risk \<in> {''MEDIUM'', ''HIGH''}) (rs_breaker st);
          st1 = st\<lparr>rs_breaker := l\<rparr>
      in case result of
           None \<Rightarrow> st1
         | Some (lg_risk, lg_source) \<Rightarrow>
             if lg_risk = ''HIGH'' \<and> fast_risk \<noteq> ''HIGH'' \<and> \<not> save_raises
             then st1\<lparr>rs_cache := ro_save R prompt v ''HIGH'' 1 ''llama_guard_async_escalation'' (rs_cache st1)\<rparr>
             else st1)"

section \<open>The pipeline\<close>

text \<open>What \<open>assess_risk\<close> hands the background scheduler, if anything.\<close>

record 'v confirmation_task =
  ct_prompt :: string
  ct_vec :: 'v
  ct_risk :: string
  ct_source :: string

record 'v risk_outcome =
  ou_result :: assess_result
  ou_task :: "'v confirmation_task option"

definition stage4 ::
  "'v risk_env \<Rightarrow> ('v, 'c, 'l, 'j) risk_ops \<Rightarrow> bool \<Rightarrow> string \<Rightarrow> 'v \<Rightarrow> bool
   \<Rightarrow> ('c, 'l, 'j) risk_state \<Rightarrow> (string \<times> string) \<times> 'v confirmation_task option \<times> ('c, 'l, 'j) risk_state" where
  "stage4 E R background prompt v threat_present st =
     (if background
      then let ((risk, source), j) = judge_arbitration E R prompt threat_present (rs_judge st)
           in ((risk, source), Some \<lparr>ct_prompt = prompt, ct_vec = v, ct_risk = risk, ct_source = source\<rparr>,
               st\<lparr>rs_judge := j\<rparr>)
      else case llama_guard_arbitration E R prompt threat_present (rs_breaker st) of
             (Some rs, l) \<Rightarrow> (rs, None, st\<lparr>rs_breaker := l\<rparr>)
           | (None, l) \<Rightarrow>
               let (rs, j) = judge_arbitration E R prompt threat_present (rs_judge st)
               in (rs, None, st\<lparr>rs_breaker := l, rs_judge := j\<rparr>))"

definition save_verdict ::
  "('v, 'c, 'l, 'j) risk_ops \<Rightarrow> string \<Rightarrow> 'v \<Rightarrow> string \<Rightarrow> real \<Rightarrow> string
   \<Rightarrow> ('c, 'l, 'j) risk_state \<Rightarrow> ('c, 'l, 'j) risk_state" where
  "save_verdict R prompt v risk score source st =
     st\<lparr>rs_cache := ro_save R prompt v risk score source (rs_cache st)\<rparr>"

text \<open>Stages 1 to 5, which run when the cache had no answer.\<close>

definition assess_uncached ::
  "'v risk_env \<Rightarrow> ('v, 'c, 'l, 'j) risk_ops \<Rightarrow> bool \<Rightarrow> string \<Rightarrow> string \<Rightarrow> 'v
   \<Rightarrow> ('c, 'l, 'j) risk_state \<Rightarrow> 'v risk_outcome \<times> ('c, 'l, 'j) risk_state" where
  "assess_uncached E R background prompt text v st =
     (case hard_ban_triggered E text of
        Some detail \<Rightarrow>
          (\<lparr>ou_result = symbolic detail, ou_task = None\<rparr>, save_verdict R prompt v ''HIGH'' 1 ''symbolic_rule'' st)
      | None \<Rightarrow>
          let fast = fast_path_signals E v
          in case fast_path_decision E fast of
               Some (risk, source) \<Rightarrow>
                 (\<lparr>ou_result = fast_path risk source (fa_meta fast), ou_task = None\<rparr>,
                  save_verdict R prompt v risk 1 source st)
             | None \<Rightarrow>
                 let s = collect_semantic_signals E text v (Some fast);
                     (risk0, source0, judge_required, topicality) = fuse_signals E s;
                     (score, medium, high) = deciding_score E s;
                     ((risk, source), task, st1) =
                       (if judge_required
                        then stage4 E R background prompt v (in_upper_ambiguous_band score medium high) st
                        else ((risk0, source0), None, st))
                 in (\<lparr>ou_result = deep_path risk source score (si_educational s) (si_domain_score s) topicality
                        judge_required (si_centroid s) (fr_available (si_fusion s)) (fr_detail (si_fusion s))
                        (fr_detector_scores (si_fusion s)) (fr_class (si_fusion s)) (fr_class_scores (si_fusion s))
                        (si_threat s) (si_meta s) (si_ms s), ou_task = task\<rparr>,
                     save_verdict R prompt v risk score source st1))"

definition assess_risk ::
  "'v risk_env \<Rightarrow> ('v, 'c, 'l, 'j) risk_ops \<Rightarrow> bool \<Rightarrow> string \<Rightarrow> string option
   \<Rightarrow> ('c, 'l, 'j) risk_state \<Rightarrow> 'v risk_outcome \<times> ('c, 'l, 'j) risk_state" where
  "assess_risk E R background prompt raw_prompt st0 =
     (let text = (case raw_prompt of Some t \<Rightarrow> t | None \<Rightarrow> prompt);
          v = re_embed E prompt;
          (cached, c) = ro_lookup R prompt v (rs_cache st0);
          st = st0\<lparr>rs_cache := c\<rparr>
      in case cached of
           Some (risk, score) \<Rightarrow>
             if risk \<noteq> [] then (\<lparr>ou_result = cache_hit risk score (risk = ''HIGH''), ou_task = None\<rparr>, st)
             else assess_uncached E R background prompt text v st
         | None \<Rightarrow> assess_uncached E R background prompt text v st)"

section \<open>The cache interface\<close>

locale verdict_cache =
  fixes lookup :: "real \<Rightarrow> string \<Rightarrow> 'v \<Rightarrow> 'c \<Rightarrow> (string \<times> real) option \<times> 'c"
    and save :: "real \<Rightarrow> string \<Rightarrow> 'v \<Rightarrow> string \<Rightarrow> real \<Rightarrow> string \<Rightarrow> 'c \<Rightarrow> 'c"
    and ttl :: real
  assumes lookup_save: "now' - now < ttl \<Longrightarrow> fst (lookup now' p q (save now p v r sc src c)) = Some (r, sc)"

definition at_time ::
  "(real \<Rightarrow> string \<Rightarrow> 'v \<Rightarrow> 'c \<Rightarrow> (string \<times> real) option \<times> 'c)
   \<Rightarrow> (real \<Rightarrow> string \<Rightarrow> 'v \<Rightarrow> string \<Rightarrow> real \<Rightarrow> string \<Rightarrow> 'c \<Rightarrow> 'c)
   \<Rightarrow> real \<Rightarrow> ('v, 'c, 'l, 'j) risk_ops \<Rightarrow> ('v, 'c, 'l, 'j) risk_ops" where
  "at_time lookup save now R = R\<lparr>ro_lookup := lookup now, ro_save := save now\<rparr>"

section \<open>Lemmas\<close>

lemma result_simps [simp]:
  "ar_risk_level (symbolic d) = ''HIGH''" "ar_source (symbolic d) = ''symbolic_rule''" "ar_context (symbolic d) = ''symbolic''"
  "ar_risk_level (fast_path r s m) = r" "ar_source (fast_path r s m) = s" "ar_context (fast_path r s m) = ''fast_path''"
  "ar_risk_level (deep_path r s a b c d e f g h i j k l m n) = r"
  "ar_source (deep_path r s a b c d e f g h i j k l m n) = s"
  "ar_context (deep_path r s a b c d e f g h i j k l m n) = ''deep_path''"
  "ar_risk_level (cache_hit r sc lk) = r"
  by (simp_all add: symbolic_def fast_path_def deep_path_def cache_hit_def base_result_def Let_def)

lemma check_meta_intent_ge: "a \<in> set (re_meta_anchors E) \<Longrightarrow> re_cosine E v a \<le> check_meta_intent E v"
proof -
  let ?f = "\<lambda>a m. if re_cosine E v a > m then re_cosine E v a else m"
  have mono: "m \<le> fold ?f as m" for as m
  proof (induction as arbitrary: m)
    case (Cons x xs)
    from Cons.IH [of "?f x m"] show ?case by (simp split: if_splits)
  qed simp
  have "a \<in> set as \<Longrightarrow> re_cosine E v a \<le> fold ?f as m" for as m
  proof (induction as arbitrary: m)
    case (Cons x xs)
    then show ?case using mono [of "?f x m" xs] by (auto split: if_splits)
  qed simp
  then show "a \<in> set (re_meta_anchors E) \<Longrightarrow> re_cosine E v a \<le> check_meta_intent E v"
    by (simp add: check_meta_intent_def)
qed

lemma fuse_signals_low:
  "fuse_signals E s = (''LOW'', src, judge, topic) \<Longrightarrow>
   \<not> judge \<and> si_meta s < re_meta_threshold E \<and> fst (deciding_score E s) < fst (snd (deciding_score E s))"
  by (auto simp: fuse_signals_def deciding_score_def Let_def split: if_splits)

lemma fuse_signals_judge:
  "fuse_signals E s = (r, src, True, topic) \<Longrightarrow>
   r = ''MEDIUM'' \<and> \<not> si_educational s \<and>
   fst (snd (deciding_score E s)) \<le> fst (deciding_score E s) \<and> fst (deciding_score E s) < snd (snd (deciding_score E s))"
  by (auto simp: fuse_signals_def deciding_score_def Let_def split: if_splits)

lemma stage4_low:
  assumes "fst (stage4 E R bg p v threat st) = (''LOW'', src)"
  shows "\<not> threat \<and> re_may_clear E \<and>
    (if bg then fst (ro_judge R p (rs_judge st)) = ''SAFE''
     else (\<exists>vd. ro_classify R p = Some vd \<and> vd \<noteq> ''unsafe'') \<or> fst (ro_judge R p (rs_judge st)) = ''SAFE'')"
proof -
  have judge: "\<not> threat \<and> re_may_clear E \<and> fst (ro_judge R p (rs_judge st)) = ''SAFE''"
    if "fst (judge_arbitration E R p threat (rs_judge st)) = (''LOW'', src)"
    using that by (simp add: judge_arbitration_def Let_def case_prod_beta split: if_splits)
  have guard: "\<not> threat \<and> re_may_clear E \<and> (\<exists>vd. ro_classify R p = Some vd \<and> vd \<noteq> ''unsafe'')"
    if "fst (llama_guard_arbitration E R p threat (rs_breaker st)) = Some (''LOW'', src)"
    using that by (simp add: llama_guard_arbitration_def Let_def case_prod_beta split: if_splits option.splits)
  show ?thesis
  proof (cases bg)
    case True
    with assms judge show ?thesis by (simp add: stage4_def Let_def case_prod_beta)
  next
    case False
    show ?thesis
    proof (cases "fst (llama_guard_arbitration E R p threat (rs_breaker st))")
      case None
      with assms False judge show ?thesis by (simp add: stage4_def Let_def case_prod_beta)
    next
      case (Some rs)
      with assms False have "fst (llama_guard_arbitration E R p threat (rs_breaker st)) = Some (''LOW'', src)"
        by (simp add: stage4_def case_prod_beta)
      with guard False show ?thesis by simp
    qed
  qed
qed

context verdict_cache
begin

lemma lookup_after_saved_state:
  assumes "now' - now < ttl"
  shows "fst (lookup now' p q (rs_cache (save_verdict (at_time lookup save now R) p v r sc src st))) = Some (r, sc)"
  using lookup_save [OF assms] by (simp add: save_verdict_def at_time_def)

text \<open>A verdict computed now and not taken from the cache is what the cache answers later.\<close>

lemma uncached_verdict_is_saved:
  assumes "now' - now < ttl"
  shows "\<exists>sc. fst (lookup now' p q (rs_cache (snd (assess_uncached E (at_time lookup save now R) bg p t v st))))
    = Some (ar_risk_level (ou_result (fst (assess_uncached E (at_time lookup save now R) bg p t v st))), sc)"
  unfolding assess_uncached_def Let_def
  by (simp add: case_prod_beta lookup_after_saved_state [OF assms] split: option.split)

end

interpretation local_verdicts: verdict_cache "lookup_cache cf local_backend False"
    "\<lambda>now. save_cache_entry cf local_backend False now" "cf_ttl cf" for cf
  by unfold_locales (rule local_tier.saved_verdict_persists [of "[]", simplified])

section \<open>Properties\<close>

text \<open>Claim C1: LOW is earned. A prompt that the cache does not answer is rated LOW only if no symbolic
  rule matched, the meta-intent and anchor scores are below their HIGH thresholds, and either the
  deciding score is below the MEDIUM threshold, or it is in the lower half of the ambiguous band, the
  deployment lets a judge clear to LOW, and an arbiter said the prompt is safe.\<close>

theorem low_is_earned:
  assumes "ar_risk_level (ou_result (fst (assess_uncached E R bg p t v st))) = ''LOW''"
    and "s = collect_semantic_signals E t v (Some (fast_path_signals E v))"
    and "(score, medium, high) = deciding_score E s"
  shows "hard_ban_triggered E t = None \<and> check_meta_intent E v < re_meta_threshold E \<and> re_threat_sim E v < re_high E \<and>
    (score < medium \<or>
     score < medium + (high - medium) / 2 \<and> re_may_clear E \<and>
     ((\<not> bg \<and> (\<exists>vd. ro_classify R p = Some vd \<and> vd \<noteq> ''unsafe'')) \<or> fst (ro_judge R p (rs_judge st)) = ''SAFE''))"
proof -
  have hb: "hard_ban_triggered E t = None"
    using assms(1) by (auto simp: assess_uncached_def split: option.splits)
  let ?fast = "fast_path_signals E v"
  have fd: "fast_path_decision E ?fast = None"
  proof (rule ccontr)
    assume "fast_path_decision E ?fast \<noteq> None"
    then obtain src where "fast_path_decision E ?fast = Some (''HIGH'', src)"
      by (auto simp: fast_path_decision_def split: if_splits)
    with assms(1) hb show False by (simp add: assess_uncached_def Let_def)
  qed
  then have fast: "check_meta_intent E v < re_meta_threshold E" "re_threat_sim E v < re_high E"
    by (auto simp: fast_path_decision_def fast_path_signals_def split: if_splits)
  obtain risk0 src0 judge topic where fs: "fuse_signals E s = (risk0, src0, judge, topic)"
    by (metis prod.exhaust)
  have ds: "deciding_score E s = (score, medium, high)" using assms(3) by simp
  have level: "(if judge then fst (fst (stage4 E R bg p v (in_upper_ambiguous_band score medium high) st)) else risk0) = ''LOW''"
    using assms(1) fs ds by (auto simp: assess_uncached_def hb fd Let_def case_prod_beta assms(2) [symmetric])
  have "score < medium \<or> score < medium + (high - medium) / 2 \<and> re_may_clear E \<and>
     ((\<not> bg \<and> (\<exists>vd. ro_classify R p = Some vd \<and> vd \<noteq> ''unsafe'')) \<or> fst (ro_judge R p (rs_judge st)) = ''SAFE'')"
  proof (cases judge)
    case False
    with level fs fuse_signals_low [of E s src0 judge topic] ds show ?thesis by simp
  next
    case True
    with level obtain src where "fst (stage4 E R bg p v (in_upper_ambiguous_band score medium high) st) = (''LOW'', src)"
      by (metis prod.collapse)
    from stage4_low [OF this] show ?thesis
      by (auto simp: in_upper_ambiguous_band_def Let_def split: if_splits)
  qed
  with hb fast show ?thesis by blast
qed

definition sample_env :: "real \<Rightarrow> real \<Rightarrow> int risk_env" where
  "sample_env threat score = \<lparr>re_jailbreak = Some [], re_override = Some [], re_hard_ban = Some [''bomb''], re_normalize = (\<lambda>s. s),
     re_meta_anchors = [], re_cosine = (\<lambda>a b. 0), re_threat_sim = (\<lambda>_. threat), re_edu_sim = (\<lambda>_. 0), re_centroid = (\<lambda>_. 0),
     re_domain = (\<lambda>_. (True, 1)), re_fuse = (\<lambda>_ _. \<lparr>fr_available = True, fr_score = Some score, fr_high = Some (8/10),
       fr_medium = Some (4/10), fr_detail = [], fr_detector_scores = [], fr_class = None, fr_class_scores = []\<rparr>),
     re_embed = (\<lambda>s. int (length s)), re_meta_threshold = 1/2, re_high = 7/10, re_medium = 4/10, re_edu_threshold = 1/2,
     re_domain_mode = ''off'', re_may_clear = True,
     re_clock = \<lparr>sm_meta_intent = 0, sm_faiss = 0, sm_domain = 0, sm_fusion = 0\<rparr>\<rparr>"

definition sample_ops :: "string \<Rightarrow> string option \<Rightarrow> (int, (int, int local_exact) sem_cache, unit, unit) risk_ops" where
  "sample_ops verdict guard = \<lparr>ro_lookup = lookup_cache sample_cf local_backend False 0,
     ro_save = save_cache_entry sample_cf local_backend False 0,
     ro_breaker = \<lparr>bo_is_open = (\<lambda>l. (False, l)), bo_success = id, bo_failure = id\<rparr>,
     ro_guard_available = True, ro_classify = (\<lambda>_. guard), ro_judge = (\<lambda>_ j. (verdict, j))\<rparr>"

definition sample_state :: "((int, int local_exact) sem_cache, unit, unit) risk_state" where
  "sample_state = \<lparr>rs_cache = cache_init (local_exact_init 0 5 None), rs_breaker = (), rs_judge = ()\<rparr>"

lemmas sample_defs = sample_env_def sample_ops_def hard_ban_triggered_def check_symbolic_violations_def
  fast_path_decision_def fast_path_signals_def check_meta_intent_def collect_semantic_signals_def
  fuse_signals_def deciding_score_def classify_topicality_def check_educational_context_def
  in_upper_ambiguous_band_def stage4_def judge_arbitration_def llama_guard_arbitration_def
  assess_uncached_def Let_def str_lower_def

theorem low_is_earned_witness:
  "ar_risk_level (ou_result (fst (assess_uncached (sample_env 0 (1/2)) (sample_ops ''SAFE'' None) True [] [] 0 sample_state))) = ''LOW''
   \<and> 1/2 < 4/10 + (8/10 - 4/10) / (2 :: real)"
proof -
  let ?E = "sample_env 0 (1/2)" and ?R = "sample_ops ''SAFE'' None"
  have low: "ar_risk_level (ou_result (fst (assess_uncached ?E ?R True [] [] 0 sample_state))) = ''LOW''"
    by (simp add: sample_defs)
  have "(1/2, 4/10, 8/10) = deciding_score ?E (collect_semantic_signals ?E [] 0 (Some (fast_path_signals ?E 0)))"
    by (simp add: sample_defs)
  from low_is_earned [OF low refl this] low show ?thesis by simp
qed



text \<open>Claim C12: a failing judge fails closed. When arbitration is required on the live path and the judge
  answers anything but SAFE, DANGEROUS or AMBIGUOUS, the verdict is HIGH; on the synchronous path the
  same holds once Llama Guard gives no answer either.\<close>

theorem judge_failure_is_high:
  assumes "fst (ro_judge R p (rs_judge st)) \<notin> {''SAFE'', ''DANGEROUS'', ''AMBIGUOUS''}"
    and "bg \<or> fst (llama_guard_arbitration E R p threat (rs_breaker st)) = None"
  shows "fst (stage4 E R bg p v threat st) = (''HIGH'', ''judge_failure_fail_closed'')"
  using assms by (auto simp: stage4_def judge_arbitration_def Let_def case_prod_beta split: prod.splits)

theorem judge_failure_is_high_witness:
  "fst (stage4 (sample_env 0 (1/2)) (sample_ops ''JUDGE_OFFLINE'' None) False [] 0 False sample_state) = (''HIGH'', ''judge_failure_fail_closed'')"
  by (rule judge_failure_is_high) (simp_all add: sample_ops_def llama_guard_arbitration_def)



text \<open>The one-way ratchet is not kept by concurrent requests. A request that missed the cache
  before the background confirmation escalated its prompt to HIGH still saves its own verdict when it
  finishes, so the escalated entry is replaced by whatever that request decided.\<close>

theorem late_save_undoes_escalation:
  assumes "fst (lookup_cache cf local_backend False now' p q (rs_cache st)) = Some (''HIGH'', 1)"
    and "ar_risk_level (ou_result (fst (assess_uncached E (at_time (lookup_cache cf local_backend False)
      (\<lambda>now. save_cache_entry cf local_backend False now) now R) bg p t v st))) = risk"
    and "now' - now < cf_ttl cf"
  shows "\<exists>sc. fst (lookup_cache cf local_backend False now' p q (rs_cache (snd (assess_uncached E
      (at_time (lookup_cache cf local_backend False) (\<lambda>now. save_cache_entry cf local_backend False now) now R) bg p t v st))))
    = Some (risk, sc)"
  using local_verdicts.uncached_verdict_is_saved [OF assms(3)] assms(2) by metis

theorem late_save_undoes_escalation_witness:
  "\<exists>sc. fst (lookup_cache sample_cf local_backend False 1 [] 0 (rs_cache (snd (assess_uncached (sample_env 0 0)
      (at_time (lookup_cache sample_cf local_backend False) (\<lambda>now. save_cache_entry sample_cf local_backend False now) 0
        (sample_ops ''SAFE'' (Some ''unsafe''))) True [] [] 0
      (llama_guard_async_confirmation (sample_env 0 0) (sample_ops ''SAFE'' (Some ''unsafe'')) False [] 0 ''LOW'' sample_state)))))
    = Some (''LOW'', sc)"
proof -
  let ?st = "llama_guard_async_confirmation (sample_env 0 0) (sample_ops ''SAFE'' (Some ''unsafe'')) False [] 0 ''LOW'' sample_state"
  have "rs_cache ?st = save_cache_entry sample_cf local_backend False 0 [] 0 ''HIGH'' 1 ''llama_guard_async_escalation''
      (rs_cache sample_state)"
    by (simp add: llama_guard_async_confirmation_def llama_guard_arbitration_def sample_ops_def)
  then have h: "fst (lookup_cache sample_cf local_backend False 1 [] 0 (rs_cache ?st)) = Some (''HIGH'', 1)"
    using local_verdicts.lookup_save [of 1 0 sample_cf "[]" 0] by (simp add: sample_cf_def)
  show ?thesis
    by (rule late_save_undoes_escalation [OF h]) (simp_all add: sample_defs at_time_def sample_cf_def)
qed

end
