(* ===== verification/Tenancy.thy ===== *)
theory Tenancy
  imports Prelude
begin

text \<open>
  core/tenancy.py: the tenant store. \<open>float(s)\<close> and \<open>int(s)\<close> of a string are the parameters
  \<open>parse_float\<close> and \<open>parse_int\<close> (\<open>None\<close> is \<open>ValueError\<close>), collected with the printer of
  \<open>str\<close> in \<open>py_convs\<close>.
\<close>

record py_convs =
  pc_str :: "json \<Rightarrow> string"
  pc_float :: "string \<Rightarrow> real option"
  pc_int :: "string \<Rightarrow> int option"

record tenant_config =
  tc_tenant_id :: string
  tc_display_name :: string
  tc_status :: string
  tc_rate_limit_rpm :: "real option"
  tc_token_quota_daily :: "int option"
  tc_privacy_disabled_patterns :: "string list option"
  tc_privacy_ner_labels :: "string list option"

definition suspended :: "tenant_config \<Rightarrow> bool" where
  "suspended t \<longleftrightarrow> tc_status t = ''suspended''"

definition DEFAULT_TENANT :: tenant_config where
  "DEFAULT_TENANT = \<lparr>tc_tenant_id = ''default'', tc_display_name = ''Default'', tc_status = ''active'',
     tc_rate_limit_rpm = None, tc_token_quota_daily = None, tc_privacy_disabled_patterns = None,
     tc_privacy_ner_labels = None\<rparr>"

record tenant_store =
  ts_tenants :: "(string \<times> tenant_config) list"
  ts_loaded :: bool

definition tenant_store_init :: tenant_store where
  "tenant_store_init = \<lparr>ts_tenants = [], ts_loaded = False\<rparr>"

section \<open>Loading\<close>

text \<open>\<open>float(v)\<close> and \<open>int(v)\<close>; \<open>None\<close> covers \<open>TypeError\<close> and \<open>ValueError\<close>. \<open>int\<close> of a float drops
  the fraction towards zero.\<close>

fun to_float :: "py_convs \<Rightarrow> json \<Rightarrow> real option" where
  "to_float C (JInt i) = Some (of_int i)"
| "to_float C (JBool b) = Some (if b then 1 else 0)"
| "to_float C (JFloat r) = Some r"
| "to_float C (JStr s) = pc_float C s"
| "to_float C _ = None"

fun to_int :: "py_convs \<Rightarrow> json \<Rightarrow> int option" where
  "to_int C (JInt i) = Some i"
| "to_int C (JBool b) = Some (if b then 1 else 0)"
| "to_int C (JFloat r) = Some (if r < 0 then \<lceil>r\<rceil> else \<lfloor>r\<rfloor>)"
| "to_int C (JStr s) = pc_int C s"
| "to_int C _ = None"

definition parse_rpm :: "py_convs \<Rightarrow> json \<Rightarrow> real option" where
  "parse_rpm C v =
     (if v = JNull then None
      else case to_float C v of None \<Rightarrow> None | Some r \<Rightarrow> if r \<le> 0 then None else Some r)"

definition parse_quota :: "py_convs \<Rightarrow> json \<Rightarrow> int option" where
  "parse_quota C v =
     (if v = JNull then None
      else case to_int C v of None \<Rightarrow> None | Some q \<Rightarrow> if q < 0 then None else Some q)"

definition parse_labels :: "py_convs \<Rightarrow> json \<Rightarrow> string list option" where
  "parse_labels C v =
     (case v of
        JList xs \<Rightarrow> Some (map (\<lambda>p. str_upper (py_str (pc_str C) p))
                           (filter (\<lambda>p. str_strip (py_str (pc_str C) p) \<noteq> []) xs))
      | _ \<Rightarrow> None)"

definition parse_tenant :: "py_convs \<Rightarrow> string \<Rightarrow> json \<Rightarrow> tenant_config option" where
  "parse_tenant C tenant_id v =
     (case v of
        JObj grant \<Rightarrow>
          let status = str_lower (py_str (pc_str C) (jget_default grant ''status'' (JStr ''active'')))
          in if status \<notin> {''active'', ''suspended''} then None
             else Some \<lparr>tc_tenant_id = tenant_id,
                        tc_display_name = py_str (pc_str C) (jget_default grant ''display_name'' (JStr tenant_id)),
                        tc_status = status,
                        tc_rate_limit_rpm = parse_rpm C (jget grant ''rate_limit_rpm''),
                        tc_token_quota_daily = parse_quota C (jget grant ''token_quota_daily''),
                        tc_privacy_disabled_patterns = parse_labels C (jget grant ''privacy_disabled_patterns''),
                        tc_privacy_ner_labels = parse_labels C (jget grant ''privacy_ner_labels'')\<rparr>
      | _ \<Rightarrow> None)"

fun parse_tenant_configs ::
  "py_convs \<Rightarrow> (string \<times> json) list \<Rightarrow> (string \<times> tenant_config) list \<Rightarrow> (string \<times> tenant_config) list" where
  "parse_tenant_configs C [] acc = acc"
| "parse_tenant_configs C ((t, v) # es) acc =
     parse_tenant_configs C es (case parse_tenant C t v of None \<Rightarrow> acc | Some tc \<Rightarrow> od_set t tc acc)"

definition tenants_load :: "py_convs \<Rightarrow> bool \<Rightarrow> file_content \<Rightarrow> tenant_store \<Rightarrow> tenant_store" where
  "tenants_load C force file ts =
     (if ts_loaded ts \<and> \<not> force then ts
      else \<lparr>ts_tenants = (case file of Parsed (JObj raw) \<Rightarrow> parse_tenant_configs C raw [] | _ \<Rightarrow> []),
            ts_loaded = True\<rparr>)"

definition resolve_tenant ::
  "py_convs \<Rightarrow> file_content \<Rightarrow> string \<Rightarrow> tenant_store \<Rightarrow> tenant_config \<times> tenant_store" where
  "resolve_tenant C file tenant_id ts =
     (let ts1 = tenants_load C False file ts
      in (case map_of (ts_tenants ts1) tenant_id of None \<Rightarrow> DEFAULT_TENANT | Some t \<Rightarrow> t, ts1))"

definition tenant_store_len :: "py_convs \<Rightarrow> file_content \<Rightarrow> tenant_store \<Rightarrow> nat \<times> tenant_store" where
  "tenant_store_len C file ts = (let ts1 = tenants_load C False file ts in (length (ts_tenants ts1), ts1))"

definition reload_tenants :: "py_convs \<Rightarrow> file_content \<Rightarrow> tenant_store \<Rightarrow> tenant_store" where
  "reload_tenants C file ts = tenants_load C True file ts"

section \<open>Lookup after a load\<close>

lemma parse_tenant_configs_lookup:
  "distinct (map fst es) \<Longrightarrow>
   map_of (parse_tenant_configs C es acc) t =
     (case map_of es t of
        None \<Rightarrow> map_of acc t
      | Some v \<Rightarrow> (case parse_tenant C t v of None \<Rightarrow> map_of acc t | Some tc \<Rightarrow> Some tc))"
proof (induction C es acc rule: parse_tenant_configs.induct)
  case (2 C u v es acc)
  then have "map_of es u = None" by (simp add: map_of_eq_None_iff)
  with 2 show ?case by (auto simp: od_simps split: option.splits)
qed simp

definition valid_config :: "tenant_config \<Rightarrow> bool" where
  "valid_config t \<longleftrightarrow> tc_status t \<in> {''active'', ''suspended''} \<and>
     (case tc_rate_limit_rpm t of None \<Rightarrow> True | Some r \<Rightarrow> 0 < r) \<and>
     (case tc_token_quota_daily t of None \<Rightarrow> True | Some q \<Rightarrow> 0 \<le> q)"

lemma parse_rpm_pos: "parse_rpm C v = Some r \<Longrightarrow> 0 < r"
  by (simp add: parse_rpm_def split: if_splits option.splits)

lemma parse_quota_nonneg: "parse_quota C v = Some q \<Longrightarrow> 0 \<le> q"
  by (simp add: parse_quota_def split: if_splits option.splits)

lemma parse_tenant_valid: "parse_tenant C t v = Some tc \<Longrightarrow> valid_config tc \<and> tc_tenant_id tc = t"
  by (cases v) (auto simp: parse_tenant_def valid_config_def Let_def
      split: if_splits option.split dest: parse_rpm_pos parse_quota_nonneg)

lemma parse_tenant_configs_valid:
  "\<forall>t tc. map_of acc t = Some tc \<longrightarrow> valid_config tc \<and> tc_tenant_id tc = t \<Longrightarrow>
   map_of (parse_tenant_configs C es acc) t = Some tc \<Longrightarrow> valid_config tc \<and> tc_tenant_id tc = t"
proof (induction C es acc rule: parse_tenant_configs.induct)
  case (2 C u v es acc)
  show ?case
  proof (cases "parse_tenant C u v")
    case None
    with 2 show ?thesis by simp
  next
    case (Some uc)
    with "2.prems"(1) parse_tenant_valid [OF Some]
    have "\<forall>t tc. map_of (od_set u uc acc) t = Some tc \<longrightarrow> valid_config tc \<and> tc_tenant_id tc = t"
      by (simp add: map_of_od_set)
    with "2.IH" "2.prems"(2) Some show ?thesis by simp
  qed
qed simp

section \<open>Properties\<close>

text \<open>A suspension written in the file takes effect at the next reload, however its status is
  cased and however malformed the entry's other fields and the other entries are.\<close>

theorem suspension_takes_effect:
  assumes "map_of raw t = Some (JObj grant)" and "distinct (map fst raw)"
    and "map_of grant ''status'' = Some (JStr s)" and "str_lower s = ''suspended''"
  shows "suspended (fst (resolve_tenant C file t (reload_tenants C (Parsed (JObj raw)) ts)))"
  using assms
  by (simp add: resolve_tenant_def reload_tenants_def tenants_load_def parse_tenant_configs_lookup
      parse_tenant_def jget_default_def suspended_def Let_def)

theorem suspension_takes_effect_witness:
  "suspended (fst (resolve_tenant \<lparr>pc_str = \<lambda>_. [], pc_float = \<lambda>_. None, pc_int = \<lambda>_. None\<rparr> Absent ''acme''
     (reload_tenants \<lparr>pc_str = \<lambda>_. [], pc_float = \<lambda>_. None, pc_int = \<lambda>_. None\<rparr>
       (Parsed (JObj [(''x'', JNull), (''acme'', JObj [(''rate_limit_rpm'', JStr ''many''), (''status'', JStr ''Suspended'')])]))
       tenant_store_init)))"
proof -
  have s: "str_lower ''Suspended'' = ''suspended''" by code_simp
  show ?thesis
    by (rule suspension_takes_effect [where s = "''Suspended''" and
        grant = "[(''rate_limit_rpm'', JStr ''many''), (''status'', JStr ''Suspended'')]"])
       (simp_all add: s)
qed

text \<open>Whatever files were loaded, in whatever order, a caller gets a usable configuration: an
  active or suspended status, a positive rate limit or none, a non-negative quota or none, and its
  own tenant id or the default tenant's configuration.\<close>

theorem resolved_tenant_is_valid:
  "let tc = fst (resolve_tenant C file t (tenants_load C False file (fold (reload_tenants C) files tenant_store_init)))
   in valid_config tc \<and> tc_tenant_id tc \<in> {t, ''default''}"
proof -
  define ok :: "tenant_store \<Rightarrow> bool" where
    "ok ts \<longleftrightarrow> (\<forall>t tc. map_of (ts_tenants ts) t = Some tc \<longrightarrow> valid_config tc \<and> tc_tenant_id tc = t)" for ts
  have load: "ok ts \<Longrightarrow> ok (tenants_load C force f ts)" for force f ts
    by (auto simp: ok_def tenants_load_def split: file_content.splits json.splits dest: parse_tenant_configs_valid [rotated])
  have "ok ts \<Longrightarrow> ok (fold (reload_tenants C) files ts)" for ts
    by (induction files arbitrary: ts) (auto simp: reload_tenants_def intro: load)
  moreover have "ok tenant_store_init" by (simp add: ok_def tenant_store_init_def)
  ultimately have "ok (tenants_load C False file (fold (reload_tenants C) files tenant_store_init))"
    by (intro load) blast
  moreover have "valid_config DEFAULT_TENANT" by (simp add: valid_config_def DEFAULT_TENANT_def)
  ultimately show ?thesis
    by (auto simp: resolve_tenant_def ok_def Let_def tenants_load_def DEFAULT_TENANT_def split: option.splits)
qed

text \<open>Reloading an unreadable file re-admits every suspended tenant, although the comment
  at that branch says it fails closed like the key store: every caller, suspended or not, resolves
  to the active default tenant.\<close>

theorem corrupt_reload_unsuspends:
  "\<not> suspended (fst (resolve_tenant C file t (reload_tenants C Unreadable ts)))"
  by (simp add: resolve_tenant_def reload_tenants_def tenants_load_def DEFAULT_TENANT_def suspended_def Let_def)

text \<open>A daily quota written as a fraction below one token is read as zero, which the quota
  tracker takes to mean unlimited.\<close>

theorem fractional_quota_is_unlimited:
  assumes "0 \<le> r" and "r < 1"
  shows "parse_quota C (JFloat r) = Some 0"
  using assms floor_eq_iff [of r 0] by (simp add: parse_quota_def)

theorem fractional_quota_is_unlimited_witness:
  "parse_quota \<lparr>pc_str = \<lambda>_. [], pc_float = \<lambda>_. None, pc_int = \<lambda>_. None\<rparr> (JFloat (1/2)) = Some 0"
  by (rule fractional_quota_is_unlimited) simp_all

end
