(* ===== verification/Output_Guard.thy ===== *)
theory Output_Guard
  imports Semantic_Judge Tenancy
begin

text \<open>
  core/secrets_detection.py, core/privacy.py and core/output_guardrails.py: credential detection,
  PII redaction, the verbatim system-prompt check and the cascade that decides about a response.

  Python's \<open>re\<close> is modelled by a small backtracking matcher: \<open>ends r t i\<close> lists, in the engine's
  order of preference, the positions where a match of \<open>r\<close> starting at \<open>i\<close> can end. Characters are
  8-bit; \<open>\d\<close>, \<open>\s\<close> and \<open>\b\<close> have their ASCII meaning. The spaCy model is a parameter: the entities it
  finds in a text.
\<close>

section \<open>Regular expressions\<close>

datatype rx =
    Cls "char list"
  | Lit string
  | Seq "rx list"
  | Alt "rx list"
  | Opt rx
  | Many nat "nat option" "char list"
  | WordB

definition chars_between :: "nat \<Rightarrow> nat \<Rightarrow> char list" where
  "chars_between a b = map (char_of :: nat \<Rightarrow> char) [a..<Suc b]"

definition digits :: "char list" where "digits = chars_between 48 57"
definition uppers :: "char list" where "uppers = chars_between 65 90"
definition lowers :: "char list" where "lowers = chars_between 97 122"
definition alnum :: "char list" where "alnum = uppers @ lowers @ digits"
definition spaces :: "char list" where "spaces = filter is_space (chars_between 0 255)"

definition is_word :: "char \<Rightarrow> bool" where
  "is_word c \<longleftrightarrow> c \<in> set alnum \<or> c = CHR ''_''"

definition word_at :: "string \<Rightarrow> nat \<Rightarrow> bool" where
  "word_at t i \<longleftrightarrow> i < length t \<and> is_word (t ! i)"

definition boundary :: "string \<Rightarrow> nat \<Rightarrow> bool" where
  "boundary t i \<longleftrightarrow> (0 < i \<and> word_at t (i - 1)) \<noteq> word_at t i"

text \<open>The length of the run of class characters at \<open>i\<close>; a greedy repetition tries the longest first.\<close>

definition run_length :: "char list \<Rightarrow> string \<Rightarrow> nat \<Rightarrow> nat" where
  "run_length cs t i = length (takeWhile (\<lambda>c. c \<in> set cs) (drop i t))"

fun ends :: "rx \<Rightarrow> string \<Rightarrow> nat \<Rightarrow> nat list"
  and ends_seq :: "rx list \<Rightarrow> string \<Rightarrow> nat \<Rightarrow> nat list"
  and ends_alt :: "rx list \<Rightarrow> string \<Rightarrow> nat \<Rightarrow> nat list" where
  "ends (Cls cs) t i = (if i < length t \<and> t ! i \<in> set cs then [Suc i] else [])"
| "ends (Lit s) t i = (if take (length s) (drop i t) = s then [i + length s] else [])"
| "ends (Seq rs) t i = ends_seq rs t i"
| "ends (Alt rs) t i = ends_alt rs t i"
| "ends (Opt r) t i = ends r t i @ [i]"
| "ends (Many lo hi cs) t i =
     (let n = (case hi of None \<Rightarrow> run_length cs t i | Some h \<Rightarrow> min h (run_length cs t i))
      in if lo \<le> n then map (\<lambda>k. i + k) (rev [lo..<Suc n]) else [])"
| "ends WordB t i = (if boundary t i then [i] else [])"
| "ends_seq [] t i = [i]"
| "ends_seq (r # rs) t i = concat (map (ends_seq rs t) (ends r t i))"
| "ends_alt [] t i = []"
| "ends_alt (r # rs) t i = ends r t i @ ends_alt rs t i"

text \<open>\<open>re.findall\<close> for a pattern without capturing groups; \<open>fuel\<close> is the number of positions left.\<close>

fun findall_from :: "nat \<Rightarrow> rx \<Rightarrow> string \<Rightarrow> nat \<Rightarrow> string list" where
  "findall_from 0 r t i = []"
| "findall_from (Suc fuel) r t i =
     (case ends r t i of
        [] \<Rightarrow> findall_from fuel r t (Suc i)
      | j # _ \<Rightarrow> take (j - i) (drop i t) # findall_from fuel r t (if i < j then j else Suc i))"

definition findall :: "rx \<Rightarrow> string \<Rightarrow> string list" where
  "findall r t = findall_from (Suc (length t)) r t 0"

section \<open>Secrets\<close>

definition SECRET_PATTERNS :: "(string \<times> rx) list" where
  "SECRET_PATTERNS = [
     (''AWS_ACCESS_KEY'', Seq [WordB, Alt [Lit ''AKIA'', Lit ''ASIA''], Many 16 (Some 16) (digits @ uppers), WordB]),
     (''GITHUB_TOKEN'', Seq [WordB, Lit ''gh'', Cls ''pousr'', Lit ''_'', Many 36 None alnum, WordB]),
     (''SLACK_TOKEN'', Seq [WordB, Lit ''xox'', Cls ''baprs'', Lit ''-'', Many 10 None (alnum @ ''-''), WordB]),
     (''OPENAI_API_KEY'', Seq [WordB, Lit ''sk-'', Many 20 None alnum, WordB]),
     (''ANTHROPIC_API_KEY'', Seq [WordB, Lit ''sk-ant-'', Many 20 None (alnum @ ''-''), WordB]),
     (''GOOGLE_API_KEY'', Seq [WordB, Lit ''AIza'', Many 35 (Some 35) (alnum @ ''-_''), WordB]),
     (''JWT'', Seq [WordB, Lit ''eyJ'', Many 1 None (alnum @ ''_-''), Lit ''.'', Many 1 None (alnum @ ''_-''),
                    Lit ''.'', Many 1 None (alnum @ ''_-''), WordB]),
     (''PRIVATE_KEY_BLOCK'', Seq [Lit ''-----BEGIN '', Opt (Alt [Lit ''RSA '', Lit ''EC '', Lit ''OPENSSH '', Lit ''DSA '']),
                    Lit ''PRIVATE KEY-----''])]"

definition secret_preview :: "string \<Rightarrow> string" where
  "secret_preview m = (if length m > 6 then take 6 m @ ''...'' else m)"

definition detect_secrets :: "string \<Rightarrow> string list" where
  "detect_secrets t =
     concat (map (\<lambda>(label, r). map (\<lambda>m. label @ '':'' @ secret_preview m) (findall r t)) SECRET_PATTERNS)"

section \<open>PII\<close>

definition REGEX_PATTERNS :: "(string \<times> rx) list" where
  "REGEX_PATTERNS = [
     (''EMAIL'', Seq [WordB, Many 1 None (alnum @ ''._%+-''), Lit ''@'', Many 1 None (alnum @ ''.-''), Lit ''.'',
                      Many 2 None (uppers @ ''|'' @ lowers), WordB]),
     (''PHONE'', Alt [
        Seq [Opt (Seq [Lit ''+91'', Many 0 (Some 1) (''-'' @ spaces)]), Cls (chars_between 54 57), Many 9 (Some 9) digits, WordB],
        Seq [Opt (Seq [Lit ''+1'', Many 0 (Some 1) (''-'' @ spaces)]), Many 0 (Some 1) ''('', Many 3 (Some 3) digits,
             Many 0 (Some 1) '')'', Many 0 (Some 1) (''-'' @ spaces), Many 3 (Some 3) digits,
             Many 0 (Some 1) (''-'' @ spaces), Many 4 (Some 4) digits],
        Seq [WordB, Many 3 (Some 3) digits, Cls (''-'' @ spaces), Many 4 (Some 4) digits, WordB]]),
     (''IP_ADDR'', Seq [WordB, Many 1 (Some 3) digits, Lit ''.'', Many 1 (Some 3) digits, Lit ''.'',
                        Many 1 (Some 3) digits, Lit ''.'', Many 1 (Some 3) digits, WordB]),
     (''AADHAAR'', Seq [WordB, Many 4 (Some 4) digits, Cls spaces, Many 4 (Some 4) digits, Cls spaces,
                        Many 4 (Some 4) digits, WordB])]"

definition NER_LABELS :: "string list" where
  "NER_LABELS = [''PERSON'', ''ORG'', ''GPE'']"

definition pii_mask :: "string \<Rightarrow> string" where
  "pii_mask label = ''[REDACTED:'' @ label @ '']''"

fun mask_matches :: "string \<Rightarrow> string list \<Rightarrow> string \<Rightarrow> string" where
  "mask_matches label [] t = t"
| "mask_matches label (m # ms) t = mask_matches label ms (str_replace m (pii_mask label) t)"

text \<open>Stage 1: the patterns in order, each on the text the previous ones left.\<close>

fun regex_stage :: "string list \<Rightarrow> (string \<times> rx) list \<Rightarrow> string \<Rightarrow> string \<times> string list" where
  "regex_stage disabled [] t = (t, [])"
| "regex_stage disabled ((label, r) # ps) t =
     (if label \<in> set disabled then regex_stage disabled ps t
      else let ms = findall r t;
               (t', items) = regex_stage disabled ps (mask_matches label ms t)
           in (t', map (\<lambda>m. label @ '':'' @ m) ms @ items))"

record entity =
  ent_start :: nat
  ent_end :: nat
  ent_label :: string
  ent_text :: string

text \<open>Stage 2: the entities from the last to the first, so that earlier offsets stay valid.\<close>

fun ner_stage :: "string list \<Rightarrow> entity list \<Rightarrow> string \<Rightarrow> string \<times> string list" where
  "ner_stage labels [] t = (t, [])"
| "ner_stage labels (e # es) t =
     (if ent_label e \<in> set labels
      then let (t', items) = ner_stage labels es (take (ent_start e) t @ pii_mask (ent_label e) @ drop (ent_end e) t)
           in (t', (ent_label e @ '':'' @ ent_text e) # items)
      else ner_stage labels es t)"

record pii_info =
  pi_found :: bool
  pi_source :: string
  pi_items :: "string list"

definition redact_pii :: "(string \<Rightarrow> entity list) option \<Rightarrow> string \<Rightarrow> tenant_config option \<Rightarrow> string \<times> pii_info" where
  "redact_pii nlp text tenant =
     (let disabled = (case tenant of None \<Rightarrow> [] | Some t \<Rightarrow>
                        (case tc_privacy_disabled_patterns t of None \<Rightarrow> [] | Some ps \<Rightarrow> ps));
          labels = (case tenant of None \<Rightarrow> NER_LABELS | Some t \<Rightarrow>
                      (case tc_privacy_ner_labels t of None \<Rightarrow> NER_LABELS | Some ls \<Rightarrow> ls));
          (t1, items1) = regex_stage disabled REGEX_PATTERNS text;
          regex_hit = (items1 \<noteq> []);
          clean = (t1, \<lparr>pi_found = False, pi_source = ''CLEAN'', pi_items = []\<rparr>);
          regex_only = (t1, \<lparr>pi_found = True, pi_source = ''REGEX_FAST'', pi_items = items1\<rparr>)
      in case nlp of
           None \<Rightarrow> if regex_hit then regex_only else clean
         | Some model \<Rightarrow>
             if labels = [] then (if regex_hit then regex_only else clean)
             else
               let (t2, items2) = ner_stage labels (rev (model t1)) t1
               in if items2 \<noteq> []
                  then (t2, \<lparr>pi_found = True, pi_source = (if regex_hit then ''REGEX_FAST+NER_CONTEXT'' else ''NER_CONTEXT''),
                             pi_items = items1 @ items2\<rparr>)
                  else if regex_hit then regex_only else clean)"

section \<open>The output cascade\<close>

definition SYSTEM_PROMPT_LEAK_MIN_RUN :: nat where
  "SYSTEM_PROMPT_LEAK_MIN_RUN = 40"

definition check_system_prompt_leakage :: "string \<Rightarrow> string \<Rightarrow> nat \<Rightarrow> bool" where
  "check_system_prompt_leakage response system_prompt min_run =
     (if system_prompt = [] \<or> length system_prompt < min_run then False
      else list_ex (\<lambda>i. contains (take min_run (drop i system_prompt)) response)
             [0..<length system_prompt - min_run + 1])"

text \<open>\<open>similarity\<close> is the response's similarity to the centroid; \<open>None\<close> when there is no centroid.\<close>

definition check_semantic_grounding :: "(string \<Rightarrow> real) option \<Rightarrow> string \<Rightarrow> bool" where
  "check_semantic_grounding similarity response =
     (case similarity of None \<Rightarrow> True | Some sim \<Rightarrow> \<not> sim response < 15 / 100)"

record output_details =
  od_secrets_detected :: bool
  od_system_prompt_leak :: bool
  od_pii_leakage :: bool
  od_toxicity :: bool
  od_hallucination :: bool
  od_source :: string
  od_clean_response :: "string option"
  od_secret_items :: "string list option"
  od_redacted_items :: "string list option"

record 'b output_env =
  oe_judge :: "string \<Rightarrow> 'b \<Rightarrow> string \<times> 'b"
  oe_nlp :: "(string \<Rightarrow> entity list) option"
  oe_similarity :: "(string \<Rightarrow> real) option"
  oe_hallucination_check :: bool

definition assess_output ::
  "'b output_env \<Rightarrow> string \<Rightarrow> string option \<Rightarrow> tenant_config option \<Rightarrow> 'b \<Rightarrow> (string \<times> output_details) \<times> 'b" where
  "assess_output E response system_prompt tenant b =
     (let d0 = \<lparr>od_secrets_detected = False, od_system_prompt_leak = False, od_pii_leakage = False,
                od_toxicity = False, od_hallucination = False, od_source = ''clean_pass'',
                od_clean_response = None, od_secret_items = None, od_redacted_items = None\<rparr>;
          secrets = detect_secrets response
      in if secrets \<noteq> []
         then ((''BLOCK'', d0\<lparr>od_secrets_detected := True, od_source := ''secret_leakage'', od_secret_items := Some secrets\<rparr>), b)
         else if (case system_prompt of None \<Rightarrow> False | Some sp \<Rightarrow>
                    sp \<noteq> [] \<and> check_system_prompt_leakage response sp SYSTEM_PROMPT_LEAK_MIN_RUN)
         then ((''BLOCK'', d0\<lparr>od_system_prompt_leak := True, od_source := ''system_prompt_leakage''\<rparr>), b)
         else
           let (clean, info) = redact_pii (oe_nlp E) response tenant;
               d1 = (if pi_found info then d0\<lparr>od_pii_leakage := True, od_redacted_items := Some (pi_items info)\<rparr> else d0);
               (verdict, b1) = oe_judge E clean b
           in if verdict = ''DANGEROUS''
              then ((''BLOCK'', d1\<lparr>od_toxicity := True, od_source := ''semantic_judge_output''\<rparr>), b1)
              else if oe_hallucination_check E \<and> \<not> check_semantic_grounding (oe_similarity E) clean
              then ((''BLOCK'', d1\<lparr>od_hallucination := True, od_source := ''semantic_grounding_check''\<rparr>), b1)
              else ((''ALLOW'', (if od_pii_leakage d1 then d1\<lparr>od_source := ''pii_redacted_pass''\<rparr> else d1)
                       \<lparr>od_clean_response := Some clean\<rparr>), b1))"

section \<open>Lemmas\<close>

lemma is_prefix_iff: "is_prefix p s \<longleftrightarrow> (\<exists>r. s = p @ r)"
  by (induction p s rule: is_prefix.induct) auto

lemma contains_iff: "contains p s \<longleftrightarrow> (\<exists>l r. s = l @ p @ r)"
proof (induction s)
  case (Cons c cs)
  have "contains p (c # cs) \<longleftrightarrow> (\<exists>r. c # cs = p @ r) \<or> (\<exists>l r. cs = l @ p @ r)"
    by (simp add: is_prefix_iff Cons)
  also have "\<dots> \<longleftrightarrow> (\<exists>l r. c # cs = l @ p @ r)"
    by (metis append_Cons append_Nil list.distinct(1) list.exhaust list.inject)
  finally show ?case .
qed simp

lemma list_ex_upt: "list_ex P [0..<n] \<longleftrightarrow> (\<exists>i < n. P i)"
  by (auto simp: list_ex_iff)

text \<open>What the reversed masking should amount to: one pass from the left over the entities.\<close>

fun mask_forward :: "nat \<Rightarrow> entity list \<Rightarrow> string \<Rightarrow> string" where
  "mask_forward pos [] t = drop pos t"
| "mask_forward pos (e # es) t =
     drop pos (take (ent_start e) t) @ pii_mask (ent_label e) @ mask_forward (ent_end e) es t"

fun ents_ordered :: "nat \<Rightarrow> entity list \<Rightarrow> string \<Rightarrow> bool" where
  "ents_ordered pos [] t = (pos \<le> length t)"
| "ents_ordered pos (e # es) t = (pos \<le> ent_start e \<and> ent_start e \<le> ent_end e \<and> ents_ordered (ent_end e) es t)"

lemma ents_ordered_le: "ents_ordered pos es t \<Longrightarrow> pos \<le> length t"
  by (induction pos es t rule: ents_ordered.induct) auto

lemma ner_stage_append:
  "fst (ner_stage labels (es @ fs) t) = fst (ner_stage labels fs (fst (ner_stage labels es t)))"
  by (induction es arbitrary: t) (auto simp: Let_def case_prod_beta)

lemma ner_stage_filter: "fst (ner_stage labels es t) = fst (ner_stage labels (filter (\<lambda>e. ent_label e \<in> set labels) es) t)"
  by (induction es arbitrary: t) (auto simp: Let_def case_prod_beta)

lemma ner_reversed_is_forward:
  "ents_ordered pos es t \<Longrightarrow> \<forall>e \<in> set es. ent_label e \<in> set labels \<Longrightarrow>
   fst (ner_stage labels (rev es) t) = take pos t @ mask_forward pos es t"
proof (induction pos es t rule: ents_ordered.induct)
  case (2 pos e es t)
  let ?tail = "mask_forward (ent_end e) es t"
  have le: "pos \<le> ent_start e" "ent_start e \<le> ent_end e" "ent_end e \<le> length t"
    using "2.prems" ents_ordered_le [of "ent_end e" es t] by auto
  have "fst (ner_stage labels (rev (e # es)) t) = fst (ner_stage labels [e] (take (ent_end e) t @ ?tail))"
    using "2.IH" "2.prems" by (simp only: rev.simps ner_stage_append) simp
  also have "\<dots> = take (ent_start e) t @ pii_mask (ent_label e) @ ?tail"
    using "2.prems" le by (simp add: min_def)
  also have "take (ent_start e) t = take pos t @ drop pos (take (ent_start e) t)"
    using le by (metis append_take_drop_id take_take min_absorb1)
  finally show ?case by simp
qed simp

text \<open>Skipping past a match never loses the first one: something is found if and only if the pattern
  matches at some position.\<close>

lemma findall_from_iff: "findall_from fuel r t i \<noteq> [] \<longleftrightarrow> (\<exists>j. i \<le> j \<and> j < i + fuel \<and> ends r t j \<noteq> [])"
proof (induction fuel arbitrary: i)
  case (Suc fuel)
  show ?case
  proof (cases "ends r t i")
    case Nil
    then have "ends r t j \<noteq> [] \<Longrightarrow> i \<le> j \<Longrightarrow> Suc i \<le> j" for j
      by (metis Suc_leI le_neq_implies_less)
    then have "(\<exists>j. i \<le> j \<and> j < i + Suc fuel \<and> ends r t j \<noteq> []) \<longleftrightarrow> (\<exists>j. Suc i \<le> j \<and> j < Suc i + fuel \<and> ends r t j \<noteq> [])"
      using Suc_leD by (intro ex_cong1) auto
    with Nil Suc [of "Suc i"] show ?thesis by simp
  next
    case (Cons j js)
    then show ?thesis by auto
  qed
qed simp

lemma findall_iff: "findall r t \<noteq> [] \<longleftrightarrow> (\<exists>j \<le> length t. ends r t j \<noteq> [])"
  unfolding findall_def findall_from_iff by (auto simp: less_Suc_eq_le)

lemma detect_secrets_iff:
  "detect_secrets t \<noteq> [] \<longleftrightarrow> (\<exists>p \<in> set SECRET_PATTERNS. \<exists>j. j \<le> length t \<and> ends (snd p) t j \<noteq> [])"
  unfolding detect_secrets_def by (auto simp: findall_iff [symmetric] case_prod_beta)

lemma word_char: "c \<in> set (digits @ uppers) \<Longrightarrow> is_word c"
  by (auto simp: is_word_def alnum_def)

lemma run_length_ge:
  assumes "drop i t = key @ post" and "set key \<subseteq> set cs"
  shows "length key \<le> run_length cs t i"
  using assms by (simp add: run_length_def takeWhile_append2 subset_iff)

lemma aws_ends:
  assumes "boundary t i" and "take (length ''AKIA'') (drop i t) = ''AKIA''"
    and "ends (Many 16 (Some 16) (digits @ uppers)) t (i + length ''AKIA'') = [k]" and "boundary t k"
  shows "ends (Seq [WordB, Alt [Lit ''AKIA'', Lit ''ASIA''], Many 16 (Some 16) (digits @ uppers), WordB]) t i \<noteq> []"
  using assms by (simp del: ends.simps(6))

lemma aws_pattern_matches:
  assumes "length key = 16" and "set key \<subseteq> set (digits @ uppers)"
    and "pre = [] \<or> \<not> is_word (last pre)" and "post = [] \<or> \<not> is_word (hd post)"
  shows "ends (Seq [WordB, Alt [Lit ''AKIA'', Lit ''ASIA''], Many 16 (Some 16) (digits @ uppers), WordB])
    (pre @ ''AKIA'' @ key @ post) (length pre) \<noteq> []"
proof -
  let ?t = "pre @ ''AKIA'' @ key @ post" and ?i = "length pre"
  have w: "is_word CHR ''A''" by code_simp
  have b1: "boundary ?t ?i"
    using assms(3) w by (cases pre rule: rev_cases) (auto simp: boundary_def word_at_def nth_append)
  have "16 \<le> run_length (digits @ uppers) ?t (?i + 4)"
    using run_length_ge [of "?i + 4" ?t key post "digits @ uppers"] assms(1,2) by simp
  then have many: "ends (Many 16 (Some 16) (digits @ uppers)) ?t (?i + 4) = [?i + 20]"
    by (simp add: min_absorb1 upt_rec numeral_eq_Suc Let_def)
  have "key \<noteq> []" using assms(1) by auto
  then have "?t ! (?i + 19) = last key"
    using assms(1) by (simp add: nth_append last_conv_nth)
  moreover have "is_word (last key)"
    using assms(1,2) word_char by (metis last_in_set length_0_conv subsetD zero_neq_numeral)
  ultimately have l: "word_at ?t (?i + 19)" using assms(1) by (simp add: word_at_def)
  have "\<not> word_at ?t (?i + 20)"
    using assms(1,4) by (cases post) (auto simp: word_at_def nth_append)
  with l have b2: "boundary ?t (?i + 20)" by (simp add: boundary_def add.commute [of 19])
  have "take (length ''AKIA'') (drop ?i ?t) = ''AKIA''" by simp
  moreover have "?i + length ''AKIA'' = ?i + 4" by simp
  ultimately show ?thesis
    using many by (intro aws_ends [OF b1 _ _ b2]) (simp_all only:)
qed

section \<open>Properties\<close>

text \<open>The leakage check is exact. It reports a leak if and only if the system prompt and the
  response share a contiguous text of at least \<open>min_run\<close> characters.\<close>

theorem leakage_check_exact:
  assumes "0 < min_run"
  shows "check_system_prompt_leakage response sp min_run \<longleftrightarrow>
    (\<exists>run. min_run \<le> length run \<and> contains run sp \<and> contains run response)"
proof
  assume l: "check_system_prompt_leakage response sp min_run"
  then obtain i where i: "i < length sp - min_run + 1" and c: "contains (take min_run (drop i sp)) response"
    and len: "min_run \<le> length sp"
    unfolding check_system_prompt_leakage_def list_ex_upt by (auto split: if_splits)
  have "length (take min_run (drop i sp)) = min_run" using i len by simp
  moreover have "contains (take min_run (drop i sp)) sp"
    unfolding contains_iff by (metis append_take_drop_id)
  ultimately show "\<exists>run. min_run \<le> length run \<and> contains run sp \<and> contains run response"
    using c by (metis order_refl)
next
  assume "\<exists>run. min_run \<le> length run \<and> contains run sp \<and> contains run response"
  then obtain run l r l' r' where run: "min_run \<le> length run" "sp = l @ run @ r" "response = l' @ run @ r'"
    by (auto simp: contains_iff)
  have "take min_run (drop (length l) sp) = take min_run run" using run by simp
  moreover have "response = l' @ take min_run run @ (drop min_run run @ r')"
    using run by (metis append.assoc append_take_drop_id)
  ultimately have "contains (take min_run (drop (length l) sp)) response"
    unfolding contains_iff by metis
  moreover have "length l < length sp - min_run + 1" using run by simp
  moreover have "sp \<noteq> []" "\<not> length sp < min_run" using run assms by auto
  ultimately show "check_system_prompt_leakage response sp min_run"
    unfolding check_system_prompt_leakage_def list_ex_upt by auto
qed

theorem leakage_check_exact_witness:
  "check_system_prompt_leakage ''so: abcd!'' ''xabcdy'' 4"
  using leakage_check_exact [of 4 "''so: abcd!''" "''xabcdy''"]
  by (auto intro!: exI [of _ "''abcd''"])

text \<open>Masking from the last entity to the first is the same as one pass from the left, so no
  offset is used after it has shifted: outside the entities the text is untouched, and each entity of
  a configured label is replaced whole by its mask. Entities are in order and disjoint, as spaCy
  documents.\<close>

theorem ner_masking_is_one_pass:
  assumes "ents_ordered 0 (filter (\<lambda>e. ent_label e \<in> set labels) es) t"
  shows "fst (ner_stage labels (rev es) t) = mask_forward 0 (filter (\<lambda>e. ent_label e \<in> set labels) es) t"
  using ner_reversed_is_forward [OF assms, of labels] by (simp add: ner_stage_filter [of labels "rev es"] rev_filter)

theorem ner_masking_is_one_pass_witness:
  "fst (ner_stage [''PERSON''] (rev [\<lparr>ent_start = 0, ent_end = 3, ent_label = ''PERSON'', ent_text = ''Ann''\<rparr>,
      \<lparr>ent_start = 8, ent_end = 11, ent_label = ''PERSON'', ent_text = ''Bob''\<rparr>]) ''Ann met Bob.'')
   = ''[REDACTED:PERSON] met [REDACTED:PERSON].''"
  using ner_masking_is_one_pass [of "[''PERSON'']" "[\<lparr>ent_start = 0, ent_end = 3, ent_label = ''PERSON'', ent_text = ''Ann''\<rparr>,
      \<lparr>ent_start = 8, ent_end = 11, ent_label = ''PERSON'', ent_text = ''Bob''\<rparr>]" "''Ann met Bob.''"]
  by (simp add: pii_mask_def)

text \<open>Claim C28: what ALLOW means for a response. No credential pattern matched, the supplied system
  prompt did not leak, the judge of the redacted text did not say DANGEROUS, the grounding check, if
  enabled, passed, and what is released is the redacted text; a blocked response releases no text.\<close>

theorem output_allow_means_clean:
  "case assess_output E response system_prompt tenant b of
     ((decision, d), b') \<Rightarrow>
       (if decision = ''ALLOW''
        then detect_secrets response = [] \<and>
             (case system_prompt of None \<Rightarrow> True
              | Some sp \<Rightarrow> \<not> check_system_prompt_leakage response sp SYSTEM_PROMPT_LEAK_MIN_RUN) \<and>
             fst (oe_judge E (fst (redact_pii (oe_nlp E) response tenant)) b) \<noteq> ''DANGEROUS'' \<and>
             (if oe_hallucination_check E
              then check_semantic_grounding (oe_similarity E) (fst (redact_pii (oe_nlp E) response tenant)) else True) \<and>
             od_clean_response d = Some (fst (redact_pii (oe_nlp E) response tenant))
        else decision = ''BLOCK'' \<and> od_clean_response d = None)"
proof -
  have empty: "\<not> check_system_prompt_leakage response [] n" for n
    by (simp add: check_system_prompt_leakage_def)
  show ?thesis
    by (simp add: assess_output_def Let_def case_prod_beta empty split: option.splits)
qed

text \<open>No AWS access key gets out. Wherever a response contains \<open>AKIA\<close> followed by sixteen
  digits or capital letters, with no word character glued to either side, it is blocked.\<close>

theorem aws_key_is_blocked:
  assumes "length key = 16" and "set key \<subseteq> set (digits @ uppers)"
    and "pre = [] \<or> \<not> is_word (last pre)" and "post = [] \<or> \<not> is_word (hd post)"
  shows "fst (fst (assess_output E (pre @ ''AKIA'' @ key @ post) system_prompt tenant b)) = ''BLOCK''"
proof -
  let ?t = "pre @ ''AKIA'' @ key @ post"
  have "detect_secrets ?t \<noteq> []"
    using aws_pattern_matches [OF assms] unfolding detect_secrets_iff
    by (intro bexI [of _ "SECRET_PATTERNS ! 0"] exI [of _ "length pre"]) (auto simp: SECRET_PATTERNS_def)
  then show ?thesis by (simp add: assess_output_def Let_def)
qed

theorem aws_key_is_blocked_witness:
  "fst (fst (assess_output \<lparr>oe_judge = (\<lambda>t b. (''SAFE'', b)), oe_nlp = None, oe_similarity = None, oe_hallucination_check = False\<rparr>
      (''key: '' @ ''AKIA'' @ ''ABCDEFGH01234567'' @ ''.'') None None ())) = ''BLOCK''"
proof (rule aws_key_is_blocked)
  show "set ''ABCDEFGH01234567'' \<subseteq> set (digits @ uppers)" by code_simp
  show "''key: '' = [] \<or> \<not> is_word (last ''key: '')" by code_simp
  show "''.'' = [] \<or> \<not> is_word (hd ''.'')" by code_simp
qed simp

end
