(* ===== verification/Policy.thy ===== *)
theory Policy
  imports Prelude
begin

text \<open>
  core/policy.py: the policy store that decides the enforcement action of every request, its
  loader that drops malformed entries one by one, the strict validator run before a deployment,
  and \<open>policy_decision\<close>. A file's content is an argument (\<open>file_content\<close>) read when the code reads
  it; \<open>shw\<close> prints the JSON values whose text Python's \<open>str\<close> decides. Log lines are not modelled.
\<close>

definition VALID_ACTIONS :: "string list" where
  "VALID_ACTIONS = [''BLOCK'', ''RESTRICT'', ''ALLOW'', ''REVIEW'']"

definition DEFAULT_TENANT_ID :: string where
  "DEFAULT_TENANT_ID = ''default''"

type_synonym risk_map = "(string \<times> string) list"
type_synonym capability_map = "(string \<times> risk_map) list"

record policy_set =
  ps_tenant :: string
  ps_policies :: capability_map

text \<open>\<open>FAIL_SAFE\<close> is recognised by identity, so it is a value of its own.\<close>

datatype resolved_policy = FAIL_SAFE | Resolved policy_set

record policy_store =
  pst_tenants :: "(string \<times> policy_set) list"
  pst_default_action :: string
  pst_usable :: bool
  pst_loaded :: bool

definition policy_store_init :: policy_store where
  "policy_store_init = \<lparr>pst_tenants = [], pst_default_action = ''BLOCK'', pst_usable = False, pst_loaded = False\<rparr>"

section \<open>Loading\<close>

definition normal_action :: "(json \<Rightarrow> string) \<Rightarrow> json \<Rightarrow> string" where
  "normal_action shw a = str_upper (py_str shw a)"

fun clean_risk_map :: "(json \<Rightarrow> string) \<Rightarrow> (string \<times> json) list \<Rightarrow> risk_map" where
  "clean_risk_map shw [] = []"
| "clean_risk_map shw ((risk, a) # rs) =
     (if normal_action shw a \<in> set VALID_ACTIONS
      then (risk, normal_action shw a) # clean_risk_map shw rs else clean_risk_map shw rs)"

fun clean_policies :: "(json \<Rightarrow> string) \<Rightarrow> (string \<times> json) list \<Rightarrow> capability_map" where
  "clean_policies shw [] = []"
| "clean_policies shw ((capability, v) # cs) =
     (case v of
        JObj rs \<Rightarrow> (if clean_risk_map shw rs \<noteq> []
                    then (capability, clean_risk_map shw rs) # clean_policies shw cs
                    else clean_policies shw cs)
      | _ \<Rightarrow> clean_policies shw cs)"

definition parse_tenant_entry :: "(json \<Rightarrow> string) \<Rightarrow> string \<Rightarrow> json \<Rightarrow> policy_set option" where
  "parse_tenant_entry shw tenant_id entry =
     (case entry of
        JObj kvs \<Rightarrow>
          (case jget kvs ''policies'' of
             JObj raw \<Rightarrow> (if raw = [] then None
                         else if clean_policies shw raw = [] then None
                         else Some \<lparr>ps_tenant = tenant_id, ps_policies = clean_policies shw raw\<rparr>)
           | _ \<Rightarrow> None)
      | _ \<Rightarrow> None)"

fun parse_tenants ::
  "(json \<Rightarrow> string) \<Rightarrow> (string \<times> json) list \<Rightarrow> (string \<times> policy_set) list \<Rightarrow> (string \<times> policy_set) list" where
  "parse_tenants shw [] acc = acc"
| "parse_tenants shw ((tenant_id, entry) # es) acc =
     parse_tenants shw es
       (case parse_tenant_entry shw tenant_id entry of None \<Rightarrow> acc | Some ps \<Rightarrow> od_set tenant_id ps acc)"

definition read_default_action :: "(json \<Rightarrow> string) \<Rightarrow> (string \<times> json) list \<Rightarrow> string" where
  "read_default_action shw raw = normal_action shw (jget_default raw ''default_action'' (JStr ''BLOCK''))"

definition policy_load :: "(json \<Rightarrow> string) \<Rightarrow> bool \<Rightarrow> file_content \<Rightarrow> policy_store \<Rightarrow> policy_store" where
  "policy_load shw force file st =
     (if pst_loaded st \<and> \<not> force then st
      else
        let st1 = st\<lparr>pst_tenants := [], pst_usable := False, pst_loaded := True\<rparr>
        in case file of
             Parsed (JObj raw) \<Rightarrow>
               (case map_of raw ''tenants'' of
                  None \<Rightarrow> st1
                | Some tenants \<Rightarrow>
                    let da = read_default_action shw raw;
                        st2 = st1\<lparr>pst_default_action := if da \<in> set VALID_ACTIONS then da else ''BLOCK''\<rparr>
                    in case tenants of
                         JObj es \<Rightarrow>
                           let st3 = st2\<lparr>pst_tenants := parse_tenants shw es []\<rparr>
                           in if map_of (pst_tenants st3) DEFAULT_TENANT_ID = None then st3
                              else st3\<lparr>pst_usable := True\<rparr>
                       | _ \<Rightarrow> st2)
           | _ \<Rightarrow> st1)"

definition policy_get ::
  "(json \<Rightarrow> string) \<Rightarrow> file_content \<Rightarrow> string \<Rightarrow> policy_store \<Rightarrow> resolved_policy \<times> policy_store" where
  "policy_get shw file tenant_id st =
     (let st1 = policy_load shw False file st
      in if \<not> pst_usable st1 then (FAIL_SAFE, st1)
         else (Resolved (case map_of (pst_tenants st1) tenant_id of
                           Some ps \<Rightarrow> ps
                         | None \<Rightarrow> the (map_of (pst_tenants st1) DEFAULT_TENANT_ID)), st1))"

definition default_action :: "(json \<Rightarrow> string) \<Rightarrow> file_content \<Rightarrow> policy_store \<Rightarrow> string \<times> policy_store" where
  "default_action shw file st =
     (let st1 = policy_load shw False file st in (pst_default_action st1, st1))"

definition policy_store_len :: "(json \<Rightarrow> string) \<Rightarrow> file_content \<Rightarrow> policy_store \<Rightarrow> nat \<times> policy_store" where
  "policy_store_len shw file st =
     (let st1 = policy_load shw False file st in (length (pst_tenants st1), st1))"

definition reload_policies :: "(json \<Rightarrow> string) \<Rightarrow> file_content \<Rightarrow> policy_store \<Rightarrow> policy_store" where
  "reload_policies shw file st = policy_load shw True file st"

section \<open>Validating a candidate file\<close>

datatype policy_problem =
    FileNotFound | NotParsable | TopLevelNotObject | MissingTenantsKey
  | BadDefaultAction json | TenantsNotObject | MissingDefaultTenant
  | TenantNotObject string string | PoliciesMissing string
  | CapabilityNotObject string string | BadAction string string string json

definition risk_map_problems ::
  "(json \<Rightarrow> string) \<Rightarrow> string \<Rightarrow> string \<Rightarrow> (string \<times> json) list \<Rightarrow> policy_problem list" where
  "risk_map_problems shw tenant_id capability rs =
     concat (map (\<lambda>(risk, a). if normal_action shw a \<in> set VALID_ACTIONS then []
                              else [BadAction tenant_id capability risk a]) rs)"

definition capability_problems ::
  "(json \<Rightarrow> string) \<Rightarrow> string \<Rightarrow> (string \<times> json) list \<Rightarrow> policy_problem list" where
  "capability_problems shw tenant_id policies =
     concat (map (\<lambda>(capability, v).
               case v of JObj rs \<Rightarrow> (if rs = [] then [CapabilityNotObject tenant_id capability]
                                    else risk_map_problems shw tenant_id capability rs)
                       | _ \<Rightarrow> [CapabilityNotObject tenant_id capability]) policies)"

definition tenant_problems :: "(json \<Rightarrow> string) \<Rightarrow> string \<times> json \<Rightarrow> policy_problem list" where
  "tenant_problems shw te =
     (case snd te of
        JObj kvs \<Rightarrow>
          (case jget kvs ''policies'' of
             JObj policies \<Rightarrow> (if policies = [] then [PoliciesMissing (fst te)]
                              else capability_problems shw (fst te) policies)
           | _ \<Rightarrow> [PoliciesMissing (fst te)])
      | v \<Rightarrow> [TenantNotObject (fst te) (py_type_name v)])"

definition validate_policy_file :: "(json \<Rightarrow> string) \<Rightarrow> file_content \<Rightarrow> policy_problem list" where
  "validate_policy_file shw file =
     (case file of
        Absent \<Rightarrow> [FileNotFound]
      | Unreadable \<Rightarrow> [NotParsable]
      | Parsed (JObj raw) \<Rightarrow>
          (case map_of raw ''tenants'' of
             None \<Rightarrow> [MissingTenantsKey]
           | Some tenants \<Rightarrow>
               let errs = (if read_default_action shw raw \<in> set VALID_ACTIONS then []
                           else [BadDefaultAction (jget raw ''default_action'')])
               in case tenants of
                    JObj es \<Rightarrow>
                      errs @ (if map_of es DEFAULT_TENANT_ID = None then [MissingDefaultTenant] else [])
                           @ concat (map (tenant_problems shw) es)
                  | _ \<Rightarrow> errs @ [TenantsNotObject])
      | Parsed _ \<Rightarrow> [TopLevelNotObject])"

section \<open>Deciding\<close>

text \<open>A store together with the file it reads. \<open>store or _store\<close> asks the given store for its length,
  which loads it; a store without tenants is falsy, so the live store is taken instead.\<close>

type_synonym store_ref = "file_content \<times> policy_store"

definition load_ref :: "(json \<Rightarrow> string) \<Rightarrow> store_ref \<Rightarrow> store_ref" where
  "load_ref shw r = (fst r, policy_load shw False (fst r) (snd r))"

definition active_store ::
  "(json \<Rightarrow> string) \<Rightarrow> store_ref option \<Rightarrow> store_ref \<Rightarrow> store_ref" where
  "active_store shw given live =
     (case given of
        None \<Rightarrow> live
      | Some (file, st) \<Rightarrow>
          if fst (policy_store_len shw file st) > 0 then (file, snd (policy_store_len shw file st)) else live)"

definition resolve_policy_set ::
  "(json \<Rightarrow> string) \<Rightarrow> string \<Rightarrow> store_ref option \<Rightarrow> store_ref \<Rightarrow> resolved_policy" where
  "resolve_policy_set shw tenant_id given live =
     (case active_store shw given live of (file, st) \<Rightarrow> fst (policy_get shw file tenant_id st))"

definition get_default_action :: "(json \<Rightarrow> string) \<Rightarrow> store_ref option \<Rightarrow> store_ref \<Rightarrow> string" where
  "get_default_action shw given live =
     (case active_store shw given live of (file, st) \<Rightarrow> fst (default_action shw file st))"

definition tenant_note :: "string \<Rightarrow> string \<Rightarrow> string" where
  "tenant_note tenant_id resolved =
     (if resolved = tenant_id then resolved else tenant_id @ '' -> '' @ resolved @ '' (fallback)'')"

definition quoted :: "string \<Rightarrow> string" where
  "quoted s = [CHR 0x27] @ s @ [CHR 0x27]"

definition policy_decision ::
  "(json \<Rightarrow> string) \<Rightarrow> string \<Rightarrow> string \<Rightarrow> string \<Rightarrow> store_ref option \<Rightarrow> store_ref \<Rightarrow> string \<times> string" where
  "policy_decision shw capability risk tenant_id given live =
     (let active = active_store shw given live
      in case resolve_policy_set shw tenant_id (Some active) live of
           FAIL_SAFE \<Rightarrow> (''BLOCK'', ''System Error: Policies not loaded'')
         | Resolved ps \<Rightarrow>
             let note = tenant_note tenant_id (ps_tenant ps);
                 backstop = fst (default_action shw (fst active) (snd active))
             in (case map_of (ps_policies ps) capability of
                   None \<Rightarrow> (backstop, ''Role '' @ quoted capability @ '' not defined for tenant '' @ quoted note)
                 | Some rm \<Rightarrow>
                     if rm = [] then (backstop, ''Role '' @ quoted capability @ '' not defined for tenant '' @ quoted note)
                     else (case map_of rm risk of None \<Rightarrow> backstop | Some a \<Rightarrow> a,
                           ''Policy applied for '' @ capability @ '' (Risk: '' @ risk @ '', Tenant: '' @ note @ '')'')))"

text \<open>What a decision does to the stores: the one it consults is loaded, and nothing else changes.\<close>

definition stores_after_decision ::
  "(json \<Rightarrow> string) \<Rightarrow> store_ref option \<Rightarrow> store_ref \<Rightarrow> store_ref option \<times> store_ref" where
  "stores_after_decision shw given live =
     (map_option (load_ref shw) given,
      case given of
        None \<Rightarrow> load_ref shw live
      | Some r \<Rightarrow> if pst_tenants (snd (load_ref shw r)) = [] then load_ref shw live else live)"

section \<open>The store invariant\<close>

definition clean_map :: "capability_map \<Rightarrow> bool" where
  "clean_map cm \<longleftrightarrow> (\<forall>(c, rm) \<in> set cm. rm \<noteq> [] \<and> snd ` set rm \<subseteq> set VALID_ACTIONS)"

definition policy_inv :: "policy_store \<Rightarrow> bool" where
  "policy_inv st \<longleftrightarrow> pst_default_action st \<in> set VALID_ACTIONS \<and>
     (\<forall>t ps. map_of (pst_tenants st) t = Some ps \<longrightarrow> clean_map (ps_policies ps)) \<and>
     (pst_usable st \<longrightarrow> map_of (pst_tenants st) DEFAULT_TENANT_ID \<noteq> None)"

lemma clean_risk_map_valid: "snd ` set (clean_risk_map shw rs) \<subseteq> set VALID_ACTIONS"
  by (induction shw rs rule: clean_risk_map.induct) auto

lemma clean_policies_clean: "clean_map (clean_policies shw cs)"
  unfolding clean_map_def
proof (induction shw cs rule: clean_policies.induct)
  case (2 shw capability v cs)
  then show ?case
    using clean_risk_map_valid [of shw] by (auto split: json.splits)
qed simp

lemma parse_tenant_entry_SomeD:
  "parse_tenant_entry shw t e = Some ps \<Longrightarrow> ps_tenant ps = t \<and> clean_map (ps_policies ps)"
  by (auto simp: parse_tenant_entry_def clean_policies_clean split: json.splits if_splits)

lemma parse_tenants_lookup:
  "distinct (map fst es) \<Longrightarrow>
   map_of (parse_tenants shw es acc) t =
     (case map_of es t of
        None \<Rightarrow> map_of acc t
      | Some e \<Rightarrow> (case parse_tenant_entry shw t e of None \<Rightarrow> map_of acc t | Some ps \<Rightarrow> Some ps))"
proof (induction shw es acc rule: parse_tenants.induct)
  case (2 shw u e es acc)
  then have "map_of es u = None" by (simp add: map_of_eq_None_iff)
  with 2 show ?case by (auto simp: od_simps split: option.splits)
qed simp

lemma parse_tenants_clean:
  "\<forall>t ps. map_of acc t = Some ps \<longrightarrow> clean_map (ps_policies ps) \<Longrightarrow>
   map_of (parse_tenants shw es acc) t = Some ps \<Longrightarrow> clean_map (ps_policies ps)"
proof (induction shw es acc rule: parse_tenants.induct)
  case (2 shw u e es acc)
  show ?case
    by (rule "2.IH") (use 2 in \<open>auto simp: od_simps dest: parse_tenant_entry_SomeD split: option.splits if_splits\<close>)
qed simp

lemma block_valid [simp]: "''BLOCK'' \<in> set VALID_ACTIONS"
  by (simp add: VALID_ACTIONS_def)

lemma policy_inv_init [inv_intros]: "policy_inv policy_store_init"
  by (simp add: policy_inv_def policy_store_init_def)

lemma policy_inv_load [inv_intros]: "policy_inv st \<Longrightarrow> policy_inv (policy_load shw force file st)"
  unfolding policy_inv_def policy_load_def Let_def
  by (auto split: file_content.splits json.splits option.splits dest: parse_tenants_clean [rotated])

lemma policy_inv_reloads: "policy_inv (fold (policy_load shw True) files policy_store_init)"
proof -
  have "policy_inv st \<Longrightarrow> policy_inv (fold (policy_load shw True) files st)" for st
    by (induction files arbitrary: st) (auto intro: inv_intros)
  then show ?thesis by (simp add: policy_inv_init)
qed

lemma policy_load_loaded: "pst_loaded (policy_load shw force file st)"
  by (auto simp: policy_load_def Let_def split: file_content.splits json.splits option.splits)

lemma policy_load_noop [simp]: "pst_loaded st \<Longrightarrow> policy_load shw False file st = st"
  by (simp add: policy_load_def)

text \<open>What a forced load makes of a file.\<close>

lemma reload_usable:
  "pst_usable (policy_load shw True file st) \<longleftrightarrow>
     (\<exists>raw es. file = Parsed (JObj raw) \<and> map_of raw ''tenants'' = Some (JObj es) \<and>
        map_of (parse_tenants shw es []) DEFAULT_TENANT_ID \<noteq> None)"
  by (simp add: policy_load_def Let_def split: file_content.splits json.splits option.splits)

lemma reload_tenants:
  assumes "file = Parsed (JObj raw)" and "map_of raw ''tenants'' = Some (JObj es)"
  shows "pst_tenants (policy_load shw True file st) = parse_tenants shw es []"
    and "pst_default_action (policy_load shw True file st)
      = (if read_default_action shw raw \<in> set VALID_ACTIONS then read_default_action shw raw else ''BLOCK'')"
  using assms by (simp_all add: policy_load_def Let_def)

text \<open>With no candidate store, the decision reads only the loaded live store.\<close>

lemma policy_decision_live:
  "pst_loaded st \<Longrightarrow> policy_decision shw capability risk t None (file, st) =
     (if \<not> pst_usable st then (''BLOCK'', ''System Error: Policies not loaded'')
      else let ps = (case map_of (pst_tenants st) t of Some ps \<Rightarrow> ps
                     | None \<Rightarrow> the (map_of (pst_tenants st) DEFAULT_TENANT_ID));
               note = tenant_note t (ps_tenant ps)
           in case map_of (ps_policies ps) capability of
                None \<Rightarrow> (pst_default_action st, ''Role '' @ quoted capability @ '' not defined for tenant '' @ quoted note)
              | Some rm \<Rightarrow>
                  if rm = [] then (pst_default_action st, ''Role '' @ quoted capability @ '' not defined for tenant '' @ quoted note)
                  else (case map_of rm risk of None \<Rightarrow> pst_default_action st | Some a \<Rightarrow> a,
                        ''Policy applied for '' @ capability @ '' (Risk: '' @ risk @ '', Tenant: '' @ note @ '')''))"
  by (auto simp: policy_decision_def resolve_policy_set_def active_store_def policy_get_def
      default_action_def policy_store_len_def Let_def split: option.splits)

text \<open>A part of a file in which the validator finds nothing is kept whole by the loader.\<close>

lemma risk_map_ok_kept:
  "risk_map_problems shw t c rs = [] \<Longrightarrow>
   clean_risk_map shw rs = map (\<lambda>(risk, a). (risk, normal_action shw a)) rs"
  by (induction shw rs rule: clean_risk_map.induct) (auto simp: risk_map_problems_def split: if_splits)

lemma map_of_normal: "map_of (map (\<lambda>(risk, a). (risk, f a)) rs) r = map_option f (map_of rs r)"
  by (induction rs) auto

lemma capability_ok_kept:
  "capability_problems shw t pols = [] \<Longrightarrow> map_of pols c = Some (JObj rs) \<Longrightarrow>
   map_of (clean_policies shw pols) c = Some (clean_risk_map shw rs) \<and> risk_map_problems shw t c rs = []"
proof (induction shw pols rule: clean_policies.induct)
  case (2 shw c' v cs)
  obtain rs' where v: "v = JObj rs'" "rs' \<noteq> []" "risk_map_problems shw t c' rs' = []"
    using "2.prems"(1) by (auto simp: capability_problems_def split: json.splits if_splits)
  then have "clean_risk_map shw rs' \<noteq> []"
    by (simp add: risk_map_ok_kept)
  with 2 v show ?case
    by (auto simp: capability_problems_def split: if_splits)
qed simp

lemma capability_ok_neq_Nil:
  "capability_problems shw t pols = [] \<Longrightarrow> pols \<noteq> [] \<Longrightarrow> clean_policies shw pols \<noteq> []"
  using risk_map_ok_kept [of shw t]
  by (induction shw pols rule: clean_policies.induct)
     (auto simp: capability_problems_def split: json.splits if_splits)

lemma tenant_ok_parses:
  "tenant_problems shw (t, e) = [] \<Longrightarrow> parse_tenant_entry shw t e \<noteq> None"
  by (auto simp: tenant_problems_def parse_tenant_entry_def capability_ok_neq_Nil split: json.splits if_splits)

section \<open>Properties\<close>

text \<open>Whatever files the store was loaded from, and in whatever order, a decision is one of
  the four valid actions: no typo in a file and no malformed entry ever reaches enforcement.\<close>

theorem policy_decision_valid:
  "fst (policy_decision shw capability risk t None
     (file, policy_load shw False file (fold (policy_load shw True) files policy_store_init))) \<in> set VALID_ACTIONS"
proof -
  define st where "st = policy_load shw False file (fold (policy_load shw True) files policy_store_init)"
  have inv: "policy_inv st" and ld: "pst_loaded st"
    by (simp_all add: st_def policy_inv_load policy_inv_reloads policy_load_loaded)
  have clean: "a \<in> set VALID_ACTIONS"
    if "map_of (pst_tenants st) u = Some ps" "map_of (ps_policies ps) capability = Some rm" "map_of rm risk = Some a"
    for u ps rm a
  proof -
    from inv that(1) have "clean_map (ps_policies ps)" by (simp add: policy_inv_def)
    with map_of_SomeD [OF that(2)] have sub: "snd ` set rm \<subseteq> set VALID_ACTIONS"
      unfolding clean_map_def by blast
    have "snd (risk, a) \<in> snd ` set rm"
      using map_of_SomeD [OF that(3)] by (rule imageI)
    with sub show ?thesis by auto
  qed
  show ?thesis
    unfolding st_def [symmetric] policy_decision_live [OF ld]
    using inv by (auto simp: policy_inv_def Let_def intro: clean split: option.splits)
qed

text \<open>Claim C13: the store fails closed. If the file just loaded is absent, unparsable, not an object,
  has no \<open>tenants\<close>, or has no usable \<open>default\<close> tenant, every decision is BLOCK, whatever was
  loaded before.\<close>

theorem policy_fails_closed:
  assumes "\<forall>raw es e. file = Parsed (JObj raw) \<and> map_of raw ''tenants'' = Some (JObj es) \<and>
      map_of es DEFAULT_TENANT_ID = Some e \<longrightarrow> parse_tenant_entry shw DEFAULT_TENANT_ID e = None"
    and "\<forall>raw es. file = Parsed (JObj raw) \<and> map_of raw ''tenants'' = Some (JObj es) \<longrightarrow> distinct (map fst es)"
  shows "fst (policy_decision shw capability risk t None (file', reload_policies shw file st)) = ''BLOCK''"
proof -
  have ld: "pst_loaded (reload_policies shw file st)"
    by (simp add: reload_policies_def policy_load_loaded)
  have "\<not> pst_usable (reload_policies shw file st)"
  proof
    assume "pst_usable (reload_policies shw file st)"
    then obtain raw es where f: "file = Parsed (JObj raw)" "map_of raw ''tenants'' = Some (JObj es)"
      and d: "map_of (parse_tenants shw es []) DEFAULT_TENANT_ID \<noteq> None"
      by (auto simp: reload_policies_def reload_usable)
    have "distinct (map fst es)" using assms(2) [rule_format, of raw es] f by simp
    with d obtain e where e: "map_of es DEFAULT_TENANT_ID = Some e"
      and p: "parse_tenant_entry shw DEFAULT_TENANT_ID e \<noteq> None"
      by (simp add: parse_tenants_lookup split: option.splits)
    show False using assms(1) [rule_format, of raw es e] f e p by simp
  qed
  with ld show ?thesis by (simp only: policy_decision_live simp_thms if_True fst_conv)
qed

theorem policy_fails_closed_witness:
  "fst (policy_decision (\<lambda>_. []) ''GENERAL'' ''LOW'' ''acme'' None
     (Absent, reload_policies (\<lambda>_. []) (Parsed (JObj [(''tenants'', JObj [(''acme'', JNull)])])) policy_store_init))
   = ''BLOCK''"
  by (rule policy_fails_closed) (auto simp: DEFAULT_TENANT_ID_def)

text \<open>Claim C21: the validator is sound for the loader. When it reports no problem, loading the file
  gives a usable store in which every action the file writes is enforced as written, for every
  tenant, capability and risk level.\<close>

theorem validated_file_is_enforced:
  assumes "validate_policy_file shw (Parsed (JObj raw)) = []"
    and "map_of raw ''tenants'' = Some (JObj es)" and "distinct (map fst es)"
    and "map_of es t = Some (JObj kvs)" and "jget kvs ''policies'' = JObj pols"
    and "map_of pols capability = Some (JObj rs)" and "map_of rs risk = Some a"
  shows "fst (policy_decision shw capability risk t None (file', reload_policies shw (Parsed (JObj raw)) st))
    = normal_action shw a"
proof -
  let ?st = "reload_policies shw (Parsed (JObj raw)) st"
  from assms(1,2) have none: "tenant_problems shw (u, e) = []" if "map_of es u = Some e" for u e
    using map_of_SomeD [OF that] by (auto simp: validate_policy_file_def Let_def split: if_splits)
  from assms(1,2) obtain de where de: "map_of es DEFAULT_TENANT_ID = Some de"
    by (auto simp: validate_policy_file_def Let_def split: if_splits)
  obtain ps where ps: "parse_tenant_entry shw DEFAULT_TENANT_ID de = Some ps"
    using tenant_ok_parses [OF none [OF de]] by auto
  have lookup: "map_of (parse_tenants shw es []) u = parse_tenant_entry shw u e" if "map_of es u = Some e" for u e
    using that assms(3) by (simp add: parse_tenants_lookup split: option.splits)
  have u: "pst_usable ?st"
    using assms(2) lookup [OF de] ps by (auto simp: reload_policies_def reload_usable)
  have clean: "parse_tenant_entry shw t (JObj kvs) = Some \<lparr>ps_tenant = t, ps_policies = clean_policies shw pols\<rparr>"
    using tenant_ok_parses [OF none [OF assms(4)]] assms(5)
    by (auto simp: parse_tenant_entry_def split: if_splits)
  have rm: "map_of (clean_policies shw pols) capability = Some (clean_risk_map shw rs)"
    and a: "map_of (clean_risk_map shw rs) risk = Some (normal_action shw a)"
    using capability_ok_kept [OF _ assms(6), of shw t] none [OF assms(4)] assms(5,6,7)
    by (auto simp: tenant_problems_def risk_map_ok_kept map_of_normal split: if_splits)
  then show ?thesis
    using u clean lookup [OF assms(4)] reload_tenants(1) [OF refl assms(2), of shw st]
    by (auto simp: policy_decision_live policy_load_loaded reload_policies_def Let_def)
qed

theorem validated_file_is_enforced_witness:
  "fst (policy_decision (\<lambda>_. []) ''GENERAL'' ''HIGH'' ''default'' None (Absent, reload_policies (\<lambda>_. [])
     (Parsed (JObj [(''tenants'', JObj [(''default'', JObj [(''policies'',
        JObj [(''GENERAL'', JObj [(''HIGH'', JStr ''block'')])])])])])) policy_store_init)) = ''BLOCK''"
proof -
  have n: "normal_action (\<lambda>_. []) (JStr ''block'') = ''BLOCK''"
    by code_simp
  have d: "normal_action (\<lambda>_. []) (JStr ''BLOCK'') = ''BLOCK''"
    by code_simp
  show ?thesis
    unfolding n [symmetric]
    by (rule validated_file_is_enforced)
       (auto simp: validate_policy_file_def read_default_action_def jget_default_def jget_def d n
          DEFAULT_TENANT_ID_def tenant_problems_def capability_problems_def risk_map_problems_def)
qed

text \<open>A malformed or edited entry never changes another tenant's decisions. Two files that
  give the same entry for the tenant and for \<open>default\<close>, and the same default action, lead to the
  same decision and reason, whatever their other entries are.\<close>

theorem sibling_tenants_are_isolated:
  assumes "map_of raw ''tenants'' = Some (JObj es)" and "map_of raw' ''tenants'' = Some (JObj es')"
    and "distinct (map fst es)" and "distinct (map fst es')"
    and "map_of es t = map_of es' t" and "map_of es DEFAULT_TENANT_ID = map_of es' DEFAULT_TENANT_ID"
    and "map_of raw ''default_action'' = map_of raw' ''default_action''"
  shows "policy_decision shw capability risk t None (file, reload_policies shw (Parsed (JObj raw)) st)
    = policy_decision shw capability risk t None (file', reload_policies shw (Parsed (JObj raw')) st')"
proof -
  let ?st = "policy_load shw True (Parsed (JObj raw)) st"
  let ?st' = "policy_load shw True (Parsed (JObj raw')) st'"
  have same: "map_of (pst_tenants ?st) u = map_of (pst_tenants ?st') u" if "map_of es u = map_of es' u" for u
    using that assms(1-4) by (simp add: reload_tenants(1) parse_tenants_lookup)
  have us: "pst_usable ?st = pst_usable ?st'"
    using same [OF assms(6)] assms(1,2) by (simp add: reload_usable reload_tenants(1))
  have da: "pst_default_action ?st = pst_default_action ?st'"
    using assms(1,2,7) by (simp add: reload_tenants(2) read_default_action_def jget_default_def)
  show ?thesis
    by (simp only: policy_decision_live policy_load_loaded reload_policies_def us da
        same [OF assms(5)] same [OF assms(6)])
qed

theorem sibling_tenants_are_isolated_witness:
  "policy_decision (\<lambda>_. []) ''G'' ''LOW'' ''a'' None
     (Absent, reload_policies (\<lambda>_. []) (Parsed (JObj [(''tenants'', JObj [(''a'', JNull), (''b'', JInt 1)])])) policy_store_init)
   = policy_decision (\<lambda>_. []) ''G'' ''LOW'' ''a'' None
     (Absent, reload_policies (\<lambda>_. []) (Parsed (JObj [(''tenants'', JObj [(''a'', JNull)])])) policy_store_init)"
  by (rule sibling_tenants_are_isolated [where es = "[(''a'', JNull), (''b'', JInt 1)]" and es' = "[(''a'', JNull)]"])
     (simp_all add: DEFAULT_TENANT_ID_def)

text \<open>Simulating a candidate file from which no tenant can be loaded does not simulate it.
  The candidate store is empty, hence falsy, so \<open>store or _store\<close> silently evaluates the live policy
  instead of failing closed.\<close>

theorem empty_candidate_is_ignored:
  assumes "pst_tenants (policy_load shw False cfile cst) = []"
  shows "policy_decision shw capability risk t (Some (cfile, cst)) live = policy_decision shw capability risk t None live"
  using assms by (simp add: policy_decision_def resolve_policy_set_def active_store_def policy_store_len_def Let_def)

theorem empty_candidate_is_ignored_witness:
  "policy_decision (\<lambda>_. []) ''G'' ''LOW'' ''t'' (Some (Unreadable, policy_store_init))
     (Absent, \<lparr>pst_tenants = [(''default'', \<lparr>ps_tenant = ''default'', ps_policies = [(''G'', [(''LOW'', ''ALLOW'')])]\<rparr>)],
       pst_default_action = ''BLOCK'', pst_usable = True, pst_loaded = True\<rparr>)
   = (''ALLOW'', ''Policy applied for G (Risk: LOW, Tenant: t -> default (fallback))'')"
proof -
  let ?live = "(Absent, \<lparr>pst_tenants = [(''default'', \<lparr>ps_tenant = ''default'', ps_policies = [(''G'', [(''LOW'', ''ALLOW'')])]\<rparr>)],
       pst_default_action = ''BLOCK'', pst_usable = True, pst_loaded = True\<rparr>)"
  have "policy_decision (\<lambda>_. []) ''G'' ''LOW'' ''t'' None ?live
     = (''ALLOW'', ''Policy applied for G (Risk: LOW, Tenant: t -> default (fallback))'')"
    by (simp add: policy_decision_live DEFAULT_TENANT_ID_def tenant_note_def)
  then show ?thesis
    using empty_candidate_is_ignored [of "\<lambda>_. []" Unreadable policy_store_init "''G''" "''LOW''" "''t''" ?live]
    by (simp add: policy_load_def policy_store_init_def)
qed

text \<open>After a reload that fails, the default action reported for the settings view is still
  the one of the previous file, while every decision is BLOCK.\<close>

theorem default_action_survives_failed_reload:
  assumes "file \<in> {Absent, Unreadable}"
  shows "get_default_action shw None (file', reload_policies shw file st) = pst_default_action st
    \<and> fst (policy_decision shw capability risk t None (file', reload_policies shw file st)) = ''BLOCK''"
  using assms
  by (auto simp: get_default_action_def active_store_def default_action_def reload_policies_def
      policy_load_def policy_decision_live Let_def)

theorem default_action_survives_failed_reload_witness:
  "get_default_action (\<lambda>_. []) None (Absent, reload_policies (\<lambda>_. []) Absent
     (policy_store_init\<lparr>pst_default_action := ''ALLOW''\<rparr>)) = ''ALLOW''"
  using default_action_survives_failed_reload [of Absent "\<lambda>_. []" Absent "policy_store_init\<lparr>pst_default_action := ''ALLOW''\<rparr>"]
  by simp

end
