(* ===== verification/Review_Queue.thy ===== *)
theory Review_Queue
  imports Prelude
begin

text \<open>
  core/review_queue.py: the human review queue. A process keeps the records in memory
  (\<open>review_queue\<close>) beside the JSON file they are saved to (\<open>review_file\<close>), so that several worker
  processes over one file are several memories over one file. Fresh identifiers and times are
  arguments, and so is whether the write of the file succeeds. The file is taken to hold what \<open>_save\<close>
  writes, or something \<open>json.load\<close> rejects.
\<close>

record review_record =
  rv_id :: string
  rv_status :: string
  rv_reason :: string
  rv_capability :: string
  rv_risk :: string
  rv_tenant :: string
  rv_prompt_hash :: string
  rv_request_id :: string
  rv_created_at :: string
  rv_resolved_at :: "string option"
  rv_reviewer :: "string option"
  rv_final_decision :: "string option"

type_synonym review_records = "(string \<times> review_record) list"

datatype review_file = NoFile | Corrupt | Saved review_records

record review_queue =
  rq_records :: review_records
  rq_loaded :: bool

type_synonym queue_state = "review_file \<times> review_queue"

datatype review_error = KeyError string | AlreadyResolved string "string option" | BadOutcome string | SaveFailed

definition resolution_to_decision :: "string \<Rightarrow> string option" where
  "resolution_to_decision outcome =
     map_of [(''APPROVED'', ''ALLOW''), (''REJECTED'', ''BLOCK'')] outcome"

definition review_queue_init :: review_queue where
  "review_queue_init = \<lparr>rq_records = [], rq_loaded = False\<rparr>"

definition review_load :: "bool \<Rightarrow> queue_state \<Rightarrow> queue_state" where
  "review_load force c =
     (case c of (file, q) \<Rightarrow>
        if rq_loaded q \<and> \<not> force then (file, q)
        else (file, \<lparr>rq_records = (case file of Saved rs \<Rightarrow> rs | NoFile \<Rightarrow> [] | Corrupt \<Rightarrow> []), rq_loaded = True\<rparr>))"

text \<open>The file is replaced atomically, or the write raises and the old file stays.\<close>

definition review_save :: "bool \<Rightarrow> queue_state \<Rightarrow> (review_error, unit) res \<times> queue_state" where
  "review_save write_ok c =
     (if write_ok then (Inr (), (Saved (rq_records (snd c)), snd c)) else (Inl SaveFailed, c))"

definition put_record :: "string \<Rightarrow> review_record \<Rightarrow> queue_state \<Rightarrow> queue_state" where
  "put_record rid r c = (fst c, (snd c)\<lparr>rq_records := od_set rid r (rq_records (snd c))\<rparr>)"

definition enqueue_review ::
  "string \<Rightarrow> string \<Rightarrow> bool \<Rightarrow> string \<Rightarrow> string \<Rightarrow> string \<Rightarrow> string \<Rightarrow> string \<Rightarrow> string \<Rightarrow> queue_state
   \<Rightarrow> (review_error, review_record) res \<times> queue_state" where
  "enqueue_review uuid now write_ok reason capability risk tenant prompt_hash request_id c =
     (let c1 = review_load False c;
          r = \<lparr>rv_id = uuid, rv_status = ''PENDING'', rv_reason = reason, rv_capability = capability,
               rv_risk = risk, rv_tenant = tenant, rv_prompt_hash = prompt_hash, rv_request_id = request_id,
               rv_created_at = now, rv_resolved_at = None, rv_reviewer = None, rv_final_decision = None\<rparr>
      in case review_save write_ok (put_record uuid r c1) of
           (Inl e, c2) \<Rightarrow> (Inl e, c2)
         | (Inr _, c2) \<Rightarrow> (Inr r, c2))"

definition get_review :: "string \<Rightarrow> queue_state \<Rightarrow> review_record option \<times> queue_state" where
  "get_review rid c = (let c1 = review_load False c in (map_of (rq_records (snd c1)) rid, c1))"

definition list_pending_reviews :: "queue_state \<Rightarrow> review_record list \<times> queue_state" where
  "list_pending_reviews c =
     (let c1 = review_load False c
      in (filter (\<lambda>r. rv_status r = ''PENDING'') (map snd (rq_records (snd c1))), c1))"

definition resolve_review ::
  "string \<Rightarrow> bool \<Rightarrow> string \<Rightarrow> string \<Rightarrow> string \<Rightarrow> queue_state \<Rightarrow> (review_error, review_record) res \<times> queue_state" where
  "resolve_review now write_ok rid outcome reviewer c =
     (let c1 = review_load False c
      in case map_of (rq_records (snd c1)) rid of
           None \<Rightarrow> (Inl (KeyError rid), c1)
         | Some r \<Rightarrow>
             if rv_status r \<noteq> ''PENDING'' then (Inl (AlreadyResolved (rv_status r) (rv_reviewer r)), c1)
             else if outcome \<notin> {''APPROVED'', ''REJECTED''} then (Inl (BadOutcome outcome), c1)
             else
               let r' = r\<lparr>rv_status := outcome, rv_reviewer := Some reviewer, rv_resolved_at := Some now,
                          rv_final_decision := resolution_to_decision outcome\<rparr>
               in case review_save write_ok (put_record rid r' c1) of
                    (Inl e, c2) \<Rightarrow> (Inl e, c2)
                  | (Inr _, c2) \<Rightarrow> (Inr r', c2))"

section \<open>Runs of the queue\<close>

datatype review_event =
    Enqueue string string bool string string string string string string
  | Resolve string bool string string string
  | ForceLoad

fun review_apply :: "review_event \<Rightarrow> queue_state \<Rightarrow> queue_state" where
  "review_apply (Enqueue u now ok a b r t h i) c = snd (enqueue_review u now ok a b r t h i c)"
| "review_apply (Resolve now ok rid out who) c = snd (resolve_review now ok rid out who c)"
| "review_apply ForceLoad c = review_load True c"

fun enqueued_id :: "review_event \<Rightarrow> string option" where
  "enqueued_id (Enqueue u now ok a b r t h i) = Some u"
| "enqueued_id _ = None"

lemmas review_defs = enqueue_review_def resolve_review_def review_save_def put_record_def Let_def

text \<open>Decided: the record is in memory and resolved; held in the file too once it has been saved.\<close>

definition decided :: "string \<Rightarrow> review_record \<Rightarrow> queue_state \<Rightarrow> bool" where
  "decided rid r c \<longleftrightarrow> rv_status r \<noteq> ''PENDING'' \<and> rq_loaded (snd c) \<and> map_of (rq_records (snd c)) rid = Some r
     \<and> (\<exists>rs. fst c = Saved rs \<and> map_of rs rid = Some r)"

lemma review_load_loaded [simp]: "rq_loaded (snd c) \<Longrightarrow> review_load False c = c"
  by (auto simp: review_load_def split: prod.splits)

lemma rq_loaded_load [simp]: "rq_loaded (snd (review_load force c))"
  by (auto simp: review_load_def split: prod.splits)

lemma resolve_outcome_not_pending: "outcome \<in> {''APPROVED'', ''REJECTED''} \<Longrightarrow> outcome \<noteq> ''PENDING''"
  by auto

lemma decided_apply [inv_intros]:
  assumes "decided rid r c" and "enqueued_id ev \<noteq> Some rid"
  shows "decided rid r (review_apply ev c)"
proof (cases ev)
  case (Enqueue u now ok a b rk t h i)
  with assms show ?thesis by (auto simp: decided_def review_defs od_simps)
next
  case (Resolve now ok rid' out who)
  with assms show ?thesis
    by (auto simp: decided_def review_defs od_simps split: option.splits)
next
  case ForceLoad
  with assms show ?thesis by (auto simp: decided_def review_load_def split: prod.splits)
qed

lemma decided_run:
  assumes "decided rid r c" and "Some rid \<notin> enqueued_id ` set es"
  shows "decided rid r (fold review_apply es c)"
  using assms
proof (induction es arbitrary: c)
  case (Cons ev es)
  from Cons.prems(2) have "enqueued_id ev \<noteq> Some rid" and "Some rid \<notin> enqueued_id ` set es" by auto
  then show ?case using Cons.IH [OF decided_apply [OF Cons.prems(1)]] by simp
qed simp

section \<open>Properties\<close>

text \<open>A review changes exactly once. After a resolution that was reported as done, no
  sequence of further enqueues, resolutions (with any outcome, by anyone, with the write failing or
  not) and reloads changes the record, in memory or in the file.\<close>

theorem resolved_is_final:
  assumes "resolve_review now True rid outcome reviewer c = (Inr r, c')"
    and "Some rid \<notin> enqueued_id ` set es"
  shows "fst (get_review rid (fold review_apply es c')) = Some r"
proof -
  from assms(1) have "decided rid r c'"
    by (auto simp: decided_def review_defs od_simps split: option.splits if_splits)
  from decided_run [OF this assms(2)] show ?thesis
    by (simp add: decided_def get_review_def)
qed

definition sample_queue :: queue_state where
  "sample_queue = snd (enqueue_review ''r1'' ''t0'' True ''why'' ''GENERAL'' ''MEDIUM'' ''acme'' ''h'' ''q'' (NoFile, review_queue_init))"

theorem resolved_is_final_witness:
  "rv_status (the (fst (get_review ''r1'' (fold review_apply [Resolve ''t2'' True ''r1'' ''REJECTED'' ''eve'', ForceLoad]
      (snd (resolve_review ''t1'' True ''r1'' ''APPROVED'' ''ann'' sample_queue)))))) = ''APPROVED''"
proof -
  obtain r c' where rc: "resolve_review ''t1'' True ''r1'' ''APPROVED'' ''ann'' sample_queue = (Inr r, c')"
    and s: "rv_status r = ''APPROVED''"
    by (auto simp: sample_queue_def review_defs review_load_def review_queue_init_def)
  show ?thesis
    using resolved_is_final [OF rc, of "[Resolve ''t2'' True ''r1'' ''REJECTED'' ''eve'', ForceLoad]"] s rc
    by (simp add: image_iff)
qed

text \<open>What \<open>resolve\<close> does on every branch. It succeeds exactly when the review exists, is
  pending, the outcome is one of the two and the file can be written; APPROVED then means ALLOW and
  REJECTED means BLOCK; an error other than a failed write leaves memory and file as they were.\<close>

theorem resolve_review_cases:
  "case resolve_review now write_ok rid outcome reviewer c of
     (Inr r', c') \<Rightarrow> write_ok \<and> (\<exists>r. fst (get_review rid c) = Some r \<and> rv_status r = ''PENDING'' \<and>
        (outcome = ''APPROVED'' \<and> rv_final_decision r' = Some ''ALLOW'' \<or>
         outcome = ''REJECTED'' \<and> rv_final_decision r' = Some ''BLOCK'') \<and>
        rv_status r' = outcome \<and> rv_reviewer r' = Some reviewer \<and> rv_resolved_at r' = Some now \<and>
        rv_request_id r' = rv_request_id r \<and> rv_prompt_hash r' = rv_prompt_hash r \<and> rv_tenant r' = rv_tenant r) \<and>
        fst c' = Saved (rq_records (snd c'))
   | (Inl (KeyError k), c') \<Rightarrow> k = rid \<and> fst (get_review rid c) = None \<and> c' = review_load False c
   | (Inl (AlreadyResolved st who), c') \<Rightarrow> st \<noteq> ''PENDING'' \<and> c' = review_load False c \<and>
        (\<exists>r. fst (get_review rid c) = Some r \<and> rv_status r = st \<and> rv_reviewer r = who)
   | (Inl (BadOutcome x), c') \<Rightarrow> x = outcome \<and> c' = review_load False c
   | (Inl SaveFailed, c') \<Rightarrow> \<not> write_ok \<and> fst c' = fst c"
  by (auto simp: resolve_review_def get_review_def review_save_def put_record_def resolution_to_decision_def
      Let_def review_load_def split: option.splits prod.splits)

text \<open>When the write fails, the caller is told the resolution failed, yet it stands in
  memory: a second attempt, even with the other outcome, is refused as already resolved.\<close>

theorem failed_save_still_resolves:
  assumes "resolve_review now False rid outcome reviewer c = (Inl SaveFailed, c')"
  shows "fst (resolve_review now' ok rid outcome' reviewer' c') = Inl (AlreadyResolved outcome (Some reviewer))"
proof -
  from assms have "outcome \<in> {''APPROVED'', ''REJECTED''}"
    by (auto simp: review_defs split: option.splits if_splits)
  with assms show ?thesis
    by (auto simp: resolve_review_def review_save_def put_record_def od_simps Let_def
        split: option.splits if_splits)
qed

theorem failed_save_still_resolves_witness:
  "fst (resolve_review ''t2'' True ''r1'' ''REJECTED'' ''bob'' (snd (resolve_review ''t1'' False ''r1'' ''APPROVED'' ''ann'' sample_queue)))
     = Inl (AlreadyResolved ''APPROVED'' (Some ''ann''))"
  by (rule failed_save_still_resolves [of "''t1''" _ _ _ sample_queue])
     (auto simp: sample_queue_def review_defs review_load_def review_queue_init_def)

text \<open>"a race between two reviewers must get a loud error" holds inside one process only.
  Two processes that have both loaded the file with the review pending can both resolve it, and the
  second silently replaces the decision of the first in the file.\<close>

theorem two_processes_both_resolve:
  assumes "rq_loaded q1" and "rq_loaded q2" and "map_of (rq_records q1) rid = Some r" and "rv_status r = ''PENDING''"
    and "map_of (rq_records q2) rid = Some r"
  shows "\<exists>r1 r2 file1 file2. resolve_review n1 True rid ''APPROVED'' w1 (file, q1) = (Inr r1, file1) \<and>
     resolve_review n2 True rid ''REJECTED'' w2 (fst file1, q2) = (Inr r2, file2) \<and>
     (\<exists>rs. fst file2 = Saved rs \<and> map_of rs rid = Some r2) \<and> rv_final_decision r2 = Some ''BLOCK''"
  using assms by (simp add: review_defs od_simps resolution_to_decision_def)

theorem two_processes_both_resolve_witness:
  "\<exists>r1 file1 r2 file2. resolve_review ''t1'' True ''r1'' ''APPROVED'' ''ann'' sample_queue = (Inr r1, file1) \<and>
     resolve_review ''t2'' True ''r1'' ''REJECTED'' ''bob'' (fst file1, snd sample_queue) = (Inr r2, file2)"
proof -
  obtain r where "rq_loaded (snd sample_queue)" "map_of (rq_records (snd sample_queue)) ''r1'' = Some r"
    "rv_status r = ''PENDING''"
    by (auto simp: sample_queue_def review_defs review_load_def review_queue_init_def)
  from two_processes_both_resolve [OF this(1,1,2,3,2), of "''t1''" "''ann''" "fst sample_queue" "''t2''" "''bob''"]
  show ?thesis by auto
qed

text \<open>What a successful operation saved is what a new process loads: the same record under
  the same identifier, pending or decided, and no other record lost.\<close>

theorem review_survives_restart:
  assumes "enqueue_review u now ok reason cap rk t h i c = (Inr r, c')"
  shows "fst (get_review x (fst c', review_queue_init))
      = (if x = u then Some r else fst (get_review x c))
    \<and> rv_status r = ''PENDING'' \<and> r \<in> set (fst (list_pending_reviews c'))"
proof -
  have "map_of (od_set u r rs) u = Some r" for rs by (simp add: od_simps)
  from map_of_SomeD [OF this] have "r \<in> snd ` set (od_set u r rs)" for rs by force
  with assms show ?thesis
    by (auto simp: enqueue_review_def review_save_def put_record_def Let_def get_review_def list_pending_reviews_def
        review_load_def review_queue_init_def od_simps split: if_splits prod.splits)
qed

theorem review_survives_restart_witness:
  "fst (get_review ''r1'' (fst sample_queue, review_queue_init)) \<noteq> None"
proof -
  obtain r c' where "enqueue_review ''r1'' ''t0'' True ''why'' ''GENERAL'' ''MEDIUM'' ''acme'' ''h'' ''q'' (NoFile, review_queue_init) = (Inr r, c')"
    by (auto simp: review_defs)
  from review_survives_restart [OF this, of "''r1''"] this show ?thesis
    by (simp add: sample_queue_def)
qed

end
