(* ===== verification/Auth.thy ===== *)
theory Auth
  imports Prelude
begin

text \<open>
  core/auth.py: the key store and \<open>resolve_principal\<close>, the boundary that turns a credential into a
  capability. SHA-256 is the parameter \<open>sha\<close>. \<open>hmac.compare_digest\<close> raises \<open>TypeError\<close> on a string
  with a non-ASCII character, which is modelled; its running time is not. The lock makes \<open>load\<close>
  atomic, so it is one function of the state.
\<close>

definition CAPABILITY_GENERAL :: string where "CAPABILITY_GENERAL = ''GENERAL''"
definition CAPABILITY_ELEVATED :: string where "CAPABILITY_ELEVATED = ''ELEVATED''"
definition CAPABILITY_INTERNAL :: string where "CAPABILITY_INTERNAL = ''INTERNAL''"

definition VALID_CAPABILITIES :: "string list" where
  "VALID_CAPABILITIES = [CAPABILITY_GENERAL, CAPABILITY_ELEVATED, CAPABILITY_INTERNAL]"

record principal =
  pr_capability :: string
  pr_tenant :: string
  pr_key_id :: string
  pr_authenticated :: bool
  pr_reason :: string

definition anonymous :: "string \<Rightarrow> principal" where
  "anonymous reason = \<lparr>pr_capability = CAPABILITY_GENERAL, pr_tenant = ''default'',
     pr_key_id = ''anonymous'', pr_authenticated = False, pr_reason = reason\<rparr>"

definition to_audit :: "principal \<Rightarrow> (string \<times> json) list" where
  "to_audit p = [(''capability'', JStr (pr_capability p)), (''tenant'', JStr (pr_tenant p)),
     (''key_id'', JStr (pr_key_id p)), (''authenticated'', JBool (pr_authenticated p))]"

section \<open>The key store\<close>

record grant =
  g_capability :: string
  g_tenant :: string
  g_key_id :: string

record key_store =
  ks_keys :: "(string \<times> grant) list"
  ks_loaded :: bool

datatype auth_error = CompareTypeError

definition key_store_init :: key_store where
  "key_store_init = \<lparr>ks_keys = [], ks_loaded = False\<rparr>"

definition parse_grant :: "(json \<Rightarrow> string) \<Rightarrow> string \<Rightarrow> json \<Rightarrow> grant option" where
  "parse_grant shw key_hash v =
     (case v of
        JObj kvs \<Rightarrow>
          let capability = str_upper (py_str shw (jget_default kvs ''capability'' (JStr [])))
          in if capability \<notin> set VALID_CAPABILITIES then None
             else Some \<lparr>g_capability = capability,
                        g_tenant = py_str shw (jget_default kvs ''tenant'' (JStr ''default'')),
                        g_key_id = py_str shw (jget_default kvs ''key_id'' (JStr (''key-'' @ take 8 key_hash)))\<rparr>
      | _ \<Rightarrow> None)"

fun parse_grants :: "(json \<Rightarrow> string) \<Rightarrow> (string \<times> json) list \<Rightarrow> (string \<times> grant) list \<Rightarrow> (string \<times> grant) list" where
  "parse_grants shw [] new_keys = new_keys"
| "parse_grants shw ((key_hash, v) # es) new_keys =
     parse_grants shw es
       (case parse_grant shw key_hash v of None \<Rightarrow> new_keys
                                        | Some g \<Rightarrow> od_set (str_lower key_hash) g new_keys)"

definition keys_load :: "(json \<Rightarrow> string) \<Rightarrow> bool \<Rightarrow> file_content \<Rightarrow> key_store \<Rightarrow> key_store" where
  "keys_load shw force file ks =
     (if ks_loaded ks \<and> \<not> force then ks
      else case file of
             Absent \<Rightarrow> \<lparr>ks_keys = [], ks_loaded = True\<rparr>
           | Unreadable \<Rightarrow> ks\<lparr>ks_loaded := True\<rparr>
           | Parsed (JObj raw) \<Rightarrow> \<lparr>ks_keys = parse_grants shw raw [], ks_loaded = True\<rparr>
           | Parsed _ \<Rightarrow> \<lparr>ks_keys = [], ks_loaded = True\<rparr>)"

definition is_ascii :: "string \<Rightarrow> bool" where
  "is_ascii s = list_all (\<lambda>c. (of_char c :: nat) < 128) s"

definition compare_digest :: "string \<Rightarrow> string \<Rightarrow> (auth_error, bool) res" where
  "compare_digest a b = (if is_ascii a \<and> is_ascii b then Inr (a = b) else Inl CompareTypeError)"

fun find_grant :: "string \<Rightarrow> (string \<times> grant) list \<Rightarrow> (auth_error, grant option) res" where
  "find_grant candidate [] = Inr None"
| "find_grant candidate ((stored, g) # ks) =
     (case compare_digest candidate stored of
        Inl e \<Rightarrow> Inl e
      | Inr same \<Rightarrow> if same then Inr (Some g) else find_grant candidate ks)"

definition keys_lookup ::
  "(json \<Rightarrow> string) \<Rightarrow> (string \<Rightarrow> string) \<Rightarrow> file_content \<Rightarrow> string \<Rightarrow> key_store
   \<Rightarrow> (auth_error, grant option) res \<times> key_store" where
  "keys_lookup shw sha file plaintext ks =
     (let ks1 = keys_load shw False file ks
      in (if plaintext = [] then Inr None else find_grant (sha plaintext) (ks_keys ks1), ks1))"

definition key_store_len :: "(json \<Rightarrow> string) \<Rightarrow> file_content \<Rightarrow> key_store \<Rightarrow> nat \<times> key_store" where
  "key_store_len shw file ks = (let ks1 = keys_load shw False file ks in (length (ks_keys ks1), ks1))"

definition reload_keys :: "(json \<Rightarrow> string) \<Rightarrow> file_content \<Rightarrow> key_store \<Rightarrow> key_store" where
  "reload_keys shw file ks = keys_load shw True file ks"

section \<open>Resolution\<close>

text \<open>\<open>s.strip().split(None, 1)\<close>: the first word and what follows it.\<close>

definition split_word :: "string \<Rightarrow> string list" where
  "split_word s =
     (let s1 = str_strip s;
          w = takeWhile (\<lambda>c. \<not> is_space c) s1;
          rest = str_lstrip (dropWhile (\<lambda>c. \<not> is_space c) s1)
      in if w = [] then [] else if rest = [] then [w] else [w, rest])"

definition extract_bearer :: "string option \<Rightarrow> string" where
  "extract_bearer authorization =
     (case authorization of
        None \<Rightarrow> []
      | Some a \<Rightarrow>
          if a = [] then []
          else (case split_word a of
                  [w, rest] \<Rightarrow> if str_lower w = ''bearer'' then str_strip rest else []
                | _ \<Rightarrow> []))"

definition presented_token :: "string option \<Rightarrow> string option \<Rightarrow> string" where
  "presented_token authorization api_key =
     (case api_key of Some k \<Rightarrow> if k \<noteq> [] then k else extract_bearer authorization
                    | None \<Rightarrow> extract_bearer authorization)"

definition verified :: "grant \<Rightarrow> principal" where
  "verified g = \<lparr>pr_capability = g_capability g, pr_tenant = g_tenant g, pr_key_id = g_key_id g,
     pr_authenticated = True, pr_reason = ''verified api key''\<rparr>"

definition resolve_principal ::
  "(json \<Rightarrow> string) \<Rightarrow> (string \<Rightarrow> string) \<Rightarrow> file_content \<Rightarrow> string option \<Rightarrow> string option \<Rightarrow> key_store
   \<Rightarrow> (auth_error, principal) res \<times> key_store" where
  "resolve_principal shw sha file authorization api_key ks =
     (let token = presented_token authorization api_key
      in if token = [] then (Inr (anonymous ''no credential presented''), ks)
         else case keys_lookup shw sha file token ks of
                (Inl e, ks1) \<Rightarrow> (Inl e, ks1)
              | (Inr None, ks1) \<Rightarrow> (Inr (anonymous ''unrecognised credential''), ks1)
              | (Inr (Some g), ks1) \<Rightarrow>
                  (Inr (verified g), ks1))"

definition auth_required :: "string \<Rightarrow> bool" where
  "auth_required auth_mode \<longleftrightarrow> auth_mode = ''required''"

text \<open>The role selector of the command line demo, after the line it reads.\<close>

definition get_user_role :: "string \<Rightarrow> string" where
  "get_user_role entered =
     (let choice = str_strip entered
      in if choice = ''2'' then CAPABILITY_ELEVATED
         else if choice = ''3'' then CAPABILITY_INTERNAL
         else CAPABILITY_GENERAL)"

section \<open>What the store holds\<close>

text \<open>Every stored grant was written in the file under the same hash.\<close>

definition granted_by :: "(json \<Rightarrow> string) \<Rightarrow> (string \<times> json) list \<Rightarrow> string \<Rightarrow> grant \<Rightarrow> bool" where
  "granted_by shw raw h g \<longleftrightarrow> (\<exists>k v. (k, v) \<in> set raw \<and> str_lower k = h \<and> parse_grant shw k v = Some g)"

lemma parse_grants_granted:
  "(h, g) \<in> set (parse_grants shw es acc) \<Longrightarrow> od_wf acc \<Longrightarrow> (h, g) \<in> set acc \<or> granted_by shw es h g"
proof (induction shw es acc rule: parse_grants.induct)
  case (2 shw k v es acc)
  have set_od: "(h, g) \<in> set (od_set k' g' kvs) \<Longrightarrow> (h, g) = (k', g') \<or> (h, g) \<in> set kvs" for k' g' kvs
    by (induction kvs) (auto split: if_splits)
  show ?case
    using "2.IH" "2.prems"
    by (auto simp: granted_by_def od_wf_od_set split: option.splits dest!: set_od)
qed simp

lemma parse_grants_lookup:
  "distinct (map (str_lower \<circ> fst) es) \<Longrightarrow> (k, v) \<in> set es \<Longrightarrow> parse_grant shw k v = Some g \<Longrightarrow>
   map_of (parse_grants shw es acc) (str_lower k) = Some g"
proof (induction shw es acc rule: parse_grants.induct)
  case (2 shw k' v' es acc)
  have keep: "str_lower k \<notin> set (map (str_lower \<circ> fst) es) \<Longrightarrow>
      map_of (parse_grants shw es acc) (str_lower k) = map_of acc (str_lower k)" for acc es
  proof (induction shw es acc rule: parse_grants.induct)
    case (2 shw k' v' es acc)
    then show ?case by (auto simp: od_simps split: option.splits)
  qed simp
  show ?case
  proof (cases "(k, v) \<in> set es")
    case True
    with 2 show ?thesis by auto
  next
    case False
    with "2.prems" have "k' = k" "v' = v" by auto
    with "2.prems" show ?thesis by (auto simp: keep od_simps)
  qed
qed simp

lemma find_grant_ok:
  "is_ascii c \<Longrightarrow> \<forall>k \<in> fst ` set ks. is_ascii k \<Longrightarrow> find_grant c ks = Inr (map_of ks c)"
  by (induction c ks rule: find_grant.induct) (auto simp: compare_digest_def)

lemma find_grant_in: "find_grant c ks = Inr (Some g) \<Longrightarrow> (c, g) \<in> set ks"
  by (induction c ks rule: find_grant.induct) (auto simp: compare_digest_def split: if_splits)

lemma parse_grant_valid: "parse_grant shw k v = Some g \<Longrightarrow> g_capability g \<in> set VALID_CAPABILITIES"
  by (auto simp: parse_grant_def Let_def split: json.splits if_splits)

lemma resolve_loaded:
  "ks_loaded ks \<Longrightarrow> presented_token auth key \<noteq> [] \<Longrightarrow>
   fst (resolve_principal shw sha file auth key ks) =
     (case find_grant (sha (presented_token auth key)) (ks_keys ks) of
        Inl e \<Rightarrow> Inl e
      | Inr None \<Rightarrow> Inr (anonymous ''unrecognised credential'')
      | Inr (Some g) \<Rightarrow> Inr (verified g))"
  by (auto simp: resolve_principal_def keys_lookup_def keys_load_def Let_def split: sum.splits option.splits)

section \<open>Properties\<close>

text \<open>Claim C14: no privilege without a grant. If the store was last loaded from an object, a request
  is authenticated, or gets more than GENERAL, only if it presented a token whose hash the file
  lists with a well-formed grant of exactly that capability, tenant and key id.\<close>

theorem privilege_comes_from_a_grant:
  assumes "fst (resolve_principal shw sha file auth key (keys_load shw True (Parsed (JObj raw)) ks)) = Inr p"
    and "pr_authenticated p \<or> pr_capability p \<noteq> CAPABILITY_GENERAL"
  shows "presented_token auth key \<noteq> [] \<and>
    granted_by shw raw (sha (presented_token auth key))
      \<lparr>g_capability = pr_capability p, g_tenant = pr_tenant p, g_key_id = pr_key_id p\<rparr> \<and>
    pr_capability p \<in> set VALID_CAPABILITIES"
proof -
  let ?tok = "presented_token auth key"
  have tok: "?tok \<noteq> []"
  proof
    assume "?tok = []"
    with assms(1) have "p = anonymous ''no credential presented''" by (simp add: resolve_principal_def)
    with assms(2) show False by (simp add: anonymous_def)
  qed
  have res: "(case find_grant (sha ?tok) (parse_grants shw raw []) of
       Inl e \<Rightarrow> Inl e | Inr None \<Rightarrow> Inr (anonymous ''unrecognised credential'')
     | Inr (Some g) \<Rightarrow> Inr (verified g)) = Inr p"
    using assms(1) resolve_loaded [OF _ tok, of "keys_load shw True (Parsed (JObj raw)) ks"]
    by (simp add: keys_load_def)
  obtain g where f: "find_grant (sha ?tok) (parse_grants shw raw []) = Inr (Some g)" and pv: "p = verified g"
  proof (cases "find_grant (sha ?tok) (parse_grants shw raw [])")
    case (Inr og)
    show ?thesis
    proof (cases og)
      case None
      with res Inr have "p = anonymous ''unrecognised credential''" by simp
      with assms(2) show ?thesis by (simp add: anonymous_def)
    next
      case (Some g)
      with res Inr show ?thesis by (intro that [of g]) simp_all
    qed
  qed (use res in simp)
  from pv have p: "pr_capability p = g_capability g" "pr_tenant p = g_tenant g" "pr_key_id p = g_key_id g"
    by (simp_all add: verified_def)
  have by_file: "granted_by shw raw (sha ?tok) g"
    using parse_grants_granted [OF find_grant_in [OF f]] by simp
  then have valid: "g_capability g \<in> set VALID_CAPABILITIES"
    unfolding granted_by_def by (blast intro: parse_grant_valid)
  have g: "\<lparr>g_capability = pr_capability p, g_tenant = pr_tenant p, g_key_id = pr_key_id p\<rparr> = g"
    by (simp add: p)
  show ?thesis
    unfolding g using tok by_file valid p(1) by simp
qed

definition sample_keys :: "(string \<times> json) list" where
  "sample_keys = [(''bad'', JNull), (''AB1'', JObj [(''capability'', JStr ''internal''), (''tenant'', JStr ''acme''),
     (''key_id'', JStr ''k1'')])]"

lemma sample_keys_load:
  "keys_load (\<lambda>_. []) True (Parsed (JObj sample_keys)) ks =
     \<lparr>ks_keys = [(''ab1'', \<lparr>g_capability = ''INTERNAL'', g_tenant = ''acme'', g_key_id = ''k1''\<rparr>)], ks_loaded = True\<rparr>"
proof -
  have "parse_grants (\<lambda>_. []) sample_keys [] =
     [(''ab1'', \<lparr>g_capability = ''INTERNAL'', g_tenant = ''acme'', g_key_id = ''k1''\<rparr>)]"
    by code_simp
  then show ?thesis by (simp add: keys_load_def)
qed

theorem privilege_comes_from_a_grant_witness:
  "granted_by (\<lambda>_. []) sample_keys ((\<lambda>_. ''ab1'') (presented_token None (Some ''secret'')))
     \<lparr>g_capability = ''INTERNAL'', g_tenant = ''acme'', g_key_id = ''k1''\<rparr>"
  using privilege_comes_from_a_grant [of "\<lambda>_. []" "\<lambda>_. ''ab1''" Absent None "Some ''secret''" sample_keys key_store_init
      "\<lparr>pr_capability = ''INTERNAL'', pr_tenant = ''acme'', pr_key_id = ''k1'', pr_authenticated = True,
        pr_reason = ''verified api key''\<rparr>"]
  unfolding sample_keys_load
  by (simp add: resolve_principal_def keys_lookup_def keys_load_def presented_token_def Let_def
      compare_digest_def is_ascii_def verified_def)

text \<open>A malformed grant does not void the others. A well-formed grant authenticates its key,
  with its own capability, whatever the other entries of the file are, as long as the file's hashes
  are ASCII and differ up to case.\<close>

theorem wellformed_grant_is_honoured:
  assumes "(k, v) \<in> set raw" and "parse_grant shw k v = Some g" and "str_lower k = sha (presented_token auth key)"
    and "presented_token auth key \<noteq> []" and "distinct (map (str_lower \<circ> fst) raw)"
    and "\<forall>h \<in> fst ` set raw. is_ascii (str_lower h)"
  shows "fst (resolve_principal shw sha file auth key (keys_load shw True (Parsed (JObj raw)) ks))
    = Inr (verified g)"
proof -
  have ascii: "\<forall>h \<in> fst ` set (parse_grants shw raw []). is_ascii h"
    using assms(6) by (force dest!: parse_grants_granted simp: granted_by_def)
  have "is_ascii (sha (presented_token auth key))"
    using assms(1,3,6) by force
  from find_grant_ok [OF this ascii] parse_grants_lookup [OF assms(5,1,2)] assms(3)
  have "find_grant (sha (presented_token auth key)) (parse_grants shw raw []) = Inr (Some g)" by simp
  with assms(4) show ?thesis
    by (simp add: resolve_principal_def keys_lookup_def keys_load_def Let_def)
qed

theorem wellformed_grant_is_honoured_witness:
  "fst (resolve_principal (\<lambda>_. []) (\<lambda>_. ''ab1'') Absent (Some ''Bearer  secret '') None
     (keys_load (\<lambda>_. []) True (Parsed (JObj sample_keys)) key_store_init))
   = Inr \<lparr>pr_capability = ''INTERNAL'', pr_tenant = ''acme'', pr_key_id = ''k1'', pr_authenticated = True,
        pr_reason = ''verified api key''\<rparr>"
proof -
  have t: "presented_token (Some ''Bearer  secret '') None = ''secret''" by code_simp
  have g: "parse_grant (\<lambda>_. []) ''AB1'' (snd (sample_keys ! 1))
      = Some \<lparr>g_capability = ''INTERNAL'', g_tenant = ''acme'', g_key_id = ''k1''\<rparr>" by code_simp
  have l: "str_lower ''AB1'' = ''ab1''" "str_lower ''bad'' = ''bad''" by code_simp+
  show ?thesis
    using wellformed_grant_is_honoured [OF _ g, of sample_keys "\<lambda>_. ''ab1''" "Some ''Bearer  secret ''" None Absent key_store_init] t l
    by (simp add: sample_keys_def is_ascii_def verified_def)
qed

text \<open>An unreadable key file changes nothing, so it neither voids a grant nor restores a
  revoked one; a readable file that no longer lists a hash revokes the key at once.\<close>

theorem revocation_and_corrupt_reload:
  assumes "ks_loaded ks" and "presented_token auth key \<noteq> []"
  shows "resolve_principal shw sha file auth key (reload_keys shw Unreadable ks)
      = resolve_principal shw sha file auth key ks
    \<and> ((\<forall>k v. (k, v) \<in> set raw \<longrightarrow> is_ascii (str_lower k) \<and> str_lower k \<noteq> sha (presented_token auth key)) \<longrightarrow>
       is_ascii (sha (presented_token auth key)) \<longrightarrow>
       fst (resolve_principal shw sha file auth key (reload_keys shw (Parsed (JObj raw)) ks))
         = Inr (anonymous ''unrecognised credential''))"
proof -
  have "fst (resolve_principal shw sha file auth key (reload_keys shw (Parsed (JObj raw)) ks))
         = Inr (anonymous ''unrecognised credential'')"
    if raw: "\<forall>k v. (k, v) \<in> set raw \<longrightarrow> is_ascii (str_lower k) \<and> str_lower k \<noteq> sha (presented_token auth key)"
      and sha: "is_ascii (sha (presented_token auth key))"
  proof -
    let ?ks = "parse_grants shw raw []"
    have "\<forall>h \<in> fst ` set ?ks. is_ascii h"
      using raw by (force dest!: parse_grants_granted simp: granted_by_def)
    moreover have "map_of ?ks (sha (presented_token auth key)) = None"
      using raw by (force simp: map_of_eq_None_iff granted_by_def dest!: parse_grants_granted)
    ultimately show ?thesis
      using assms(2) find_grant_ok [OF sha, of ?ks]
      by (simp add: resolve_principal_def keys_lookup_def keys_load_def reload_keys_def Let_def)
  qed
  moreover have "reload_keys shw Unreadable ks = ks"
    using assms(1) by (simp add: reload_keys_def keys_load_def)
  ultimately show ?thesis by simp
qed

theorem revocation_and_corrupt_reload_witness:
  "fst (resolve_principal (\<lambda>_. []) (\<lambda>_. ''ab1'') Absent None (Some ''s'')
     (reload_keys (\<lambda>_. []) (Parsed (JObj [])) (keys_load (\<lambda>_. []) True (Parsed (JObj sample_keys)) key_store_init)))
   = Inr (anonymous ''unrecognised credential'')"
  using revocation_and_corrupt_reload [of "keys_load (\<lambda>_. []) True (Parsed (JObj sample_keys)) key_store_init" None "Some ''s''"
      "\<lambda>_. []" "\<lambda>_. ''ab1''" Absent "[]"]
  by (simp add: keys_load_def presented_token_def is_ascii_def)

text \<open>One entry can void the others after all. If the first stored hash contains a
  non-ASCII character, every request that presents a credential raises instead of being resolved.\<close>

theorem non_ascii_hash_breaks_lookup:
  assumes "ks_loaded ks" and "ks_keys ks = (h, g) # rest" and "\<not> is_ascii h" and "presented_token auth key \<noteq> []"
  shows "fst (resolve_principal shw sha file auth key ks) = Inl CompareTypeError"
  using assms by (simp add: resolve_principal_def keys_lookup_def keys_load_def compare_digest_def Let_def)

theorem non_ascii_hash_breaks_lookup_witness:
  "fst (resolve_principal (\<lambda>_. []) (\<lambda>_. ''ab1'') Absent None (Some ''s'')
     \<lparr>ks_keys = [([CHR 0xC8], \<lparr>g_capability = ''GENERAL'', g_tenant = ''x'', g_key_id = ''y''\<rparr>),
        (''ab1'', \<lparr>g_capability = ''INTERNAL'', g_tenant = ''acme'', g_key_id = ''k1''\<rparr>)], ks_loaded = True\<rparr>)
   = Inl CompareTypeError"
  by (rule non_ascii_hash_breaks_lookup) (simp_all add: presented_token_def, code_simp)

end
