(* ===== verification/Tools.thy ===== *)
theory Tools
  imports Prelude
begin

text \<open>
  core/tools.py with the tools of core/demo_tools.py and core/real_tools.py: the contract of a tool,
  the decision about one call, the registry and the execution path with its audit events.

  A handler is a function of its arguments and of the world it acts on, which it returns changed
  (\<open>'w\<close>), so that "the handler does not run" is a statement about the world. A reason is a value of
  \<open>tool_reason\<close> rather than the English text built from it.
\<close>

section \<open>Contracts\<close>

record prop_schema =
  ps_type :: "string option"
  ps_enum :: "json list option"
  ps_max_length :: "nat option"

record tool_spec =
  tl_name :: string
  tl_description :: string
  tl_schema_type :: string
  tl_properties :: "(string \<times> prop_schema) list"
  tl_required :: "string list"
  tl_risk :: string
  tl_capability :: string

definition CAPABILITY_RANK :: "(string \<times> nat) list" where
  "CAPABILITY_RANK = [(''GENERAL'', 0), (''ELEVATED'', 1), (''INTERNAL'', 2)]"

text \<open>\<open>__post_init__\<close>: a spec that fails one of these checks cannot be built.\<close>

definition valid_spec :: "tool_spec \<Rightarrow> bool" where
  "valid_spec s \<longleftrightarrow> str_strip (tl_name s) \<noteq> [] \<and> str_strip (tl_description s) \<noteq> [] \<and>
     tl_risk s \<in> {''LOW'', ''MEDIUM'', ''HIGH''} \<and> tl_capability s \<in> {''GENERAL'', ''ELEVATED'', ''INTERNAL''} \<and>
     tl_schema_type s = ''object''"

datatype tool_reason =
    Ok | HighRisk | NotAnObject | MissingArgument string | UnknownArgument string
  | WrongType string string | NotInEnum string | TooLong string
  | UnknownCapability string | NeedsCapability string string | UnknownTool string | NoHandler string

section \<open>Arguments\<close>

fun is_bool :: "json \<Rightarrow> bool" where
  "is_bool (JBool _) = True"
| "is_bool _ = False"

text \<open>\<open>isinstance(v, _JSON_SCHEMA_TYPES[t])\<close>; \<open>None\<close> for a type name the table does not have.\<close>

definition has_type :: "string \<Rightarrow> json \<Rightarrow> bool option" where
  "has_type t v = map_of
     [(''string'', case v of JStr _ \<Rightarrow> True | _ \<Rightarrow> False),
      (''number'', case v of JInt _ \<Rightarrow> True | JFloat _ \<Rightarrow> True | JBool _ \<Rightarrow> True | _ \<Rightarrow> False),
      (''integer'', case v of JInt _ \<Rightarrow> True | JBool _ \<Rightarrow> True | _ \<Rightarrow> False),
      (''boolean'', is_bool v),
      (''array'', case v of JList _ \<Rightarrow> True | _ \<Rightarrow> False),
      (''object'', is_obj v)] t"

text \<open>\<open>==\<close> on JSON values, where numbers and booleans compare by value; used by \<open>in\<close>.\<close>

fun num_of :: "json \<Rightarrow> real option" where
  "num_of (JInt i) = Some (of_int i)"
| "num_of (JFloat r) = Some r"
| "num_of (JBool b) = Some (if b then 1 else 0)"
| "num_of _ = None"

definition py_eq :: "json \<Rightarrow> json \<Rightarrow> bool" where
  "py_eq a b = (case (num_of a, num_of b) of (Some x, Some y) \<Rightarrow> x = y | _ \<Rightarrow> a = b)"

definition check_argument :: "tool_spec \<Rightarrow> string \<times> json \<Rightarrow> tool_reason" where
  "check_argument s kv =
     (case kv of (key, v) \<Rightarrow>
        (case map_of (tl_properties s) key of
           None \<Rightarrow> UnknownArgument key
         | Some p \<Rightarrow>
             let expected = (case ps_type p of None \<Rightarrow> [] | Some t \<Rightarrow> t)
             in if expected \<in> {''integer'', ''number''} \<and> is_bool v then WrongType key expected
                else if has_type expected v = Some False then WrongType key expected
                else if (case ps_enum p of None \<Rightarrow> False | Some es \<Rightarrow> \<not> list_ex (py_eq v) es) then NotInEnum key
                else (case (ps_max_length p, v) of
                        (Some n, JStr str) \<Rightarrow> if length str > n then TooLong key else Ok
                      | _ \<Rightarrow> Ok)))"

fun first_problem :: "tool_reason list \<Rightarrow> tool_reason" where
  "first_problem [] = Ok"
| "first_problem (r # rs) = (if r = Ok then first_problem rs else r)"

definition validate_arguments :: "tool_spec \<Rightarrow> json \<Rightarrow> tool_reason" where
  "validate_arguments s arguments =
     (case arguments of
        JObj kvs \<Rightarrow> first_problem
          (map (\<lambda>f. if map_of kvs f = None then MissingArgument f else Ok) (tl_required s)
           @ map (check_argument s) kvs)
      | _ \<Rightarrow> NotAnObject)"

section \<open>The decision\<close>

definition check_tool_access :: "string \<Rightarrow> tool_spec \<Rightarrow> tool_reason" where
  "check_tool_access capability s =
     (case map_of CAPABILITY_RANK capability of
        None \<Rightarrow> UnknownCapability capability
      | Some caller_rank \<Rightarrow>
          if caller_rank < the (map_of CAPABILITY_RANK (tl_capability s))
          then NeedsCapability (tl_capability s) capability else Ok)"

record tool_result =
  tr_decision :: string
  tr_reason :: tool_reason
  tr_tool :: string
  tr_risk :: "string option"
  tr_error :: "string option"
  tr_output :: "json option"

definition tool_verdict :: "string \<Rightarrow> tool_reason \<Rightarrow> string \<Rightarrow> string option \<Rightarrow> tool_result" where
  "tool_verdict decision reason tool risk =
     \<lparr>tr_decision = decision, tr_reason = reason, tr_tool = tool, tr_risk = risk, tr_error = None, tr_output = None\<rparr>"

definition decide_tool_call :: "string \<Rightarrow> tool_spec \<Rightarrow> json \<Rightarrow> tool_result" where
  "decide_tool_call capability s arguments =
     (let verdict = (\<lambda>d r. tool_verdict d r (tl_name s) (Some (tl_risk s)));
          access = check_tool_access capability s;
          valid = validate_arguments s arguments
      in if access \<noteq> Ok then verdict ''BLOCK'' access
         else if valid \<noteq> Ok then verdict ''BLOCK'' valid
         else if tl_risk s = ''HIGH'' then verdict ''REVIEW'' HighRisk
         else verdict ''ALLOW'' Ok)"

section \<open>Registry and execution\<close>

type_synonym 'w handler = "(string \<times> json) list \<Rightarrow> 'w \<Rightarrow> (string, json) res \<times> 'w"

record 'w registry =
  rg_tools :: "(string \<times> tool_spec) list"
  rg_handlers :: "(string \<times> 'w handler) list"

definition registry_init :: "'w registry" where
  "registry_init = \<lparr>rg_tools = [], rg_handlers = []\<rparr>"

text \<open>\<open>Inl\<close>: the name is already registered (\<open>ValueError\<close>).\<close>

definition register_tool :: "tool_spec \<Rightarrow> 'w handler option \<Rightarrow> 'w registry \<Rightarrow> (string, 'w registry) res" where
  "register_tool s handler reg =
     (if map_of (rg_tools reg) (tl_name s) \<noteq> None then Inl (tl_name s)
      else Inr \<lparr>rg_tools = rg_tools reg @ [(tl_name s, s)],
                rg_handlers = (case handler of None \<Rightarrow> rg_handlers reg | Some h \<Rightarrow> rg_handlers reg @ [(tl_name s, h)])\<rparr>)"

definition list_tools :: "'w registry \<Rightarrow> tool_spec list" where
  "list_tools reg = map snd (rg_tools reg)"

record tool_event =
  te_capability :: string
  te_tool :: string
  te_decision :: string
  te_risk :: "string option"
  te_reason :: tool_reason
  te_arguments :: json
  te_success :: "bool option"
  te_error :: "string option"
  te_tenant :: string
  te_request_id :: string

definition execute_tool ::
  "'w registry \<Rightarrow> string \<Rightarrow> string \<Rightarrow> json \<Rightarrow> string \<Rightarrow> string \<Rightarrow> 'w \<times> tool_event list
   \<Rightarrow> tool_result \<times> 'w \<times> tool_event list" where
  "execute_tool reg capability name arguments tenant request_id c =
     (let (w, evs) = c;
          event = (\<lambda>decision risk reason success error.
            \<lparr>te_capability = capability, te_tool = name, te_decision = decision, te_risk = risk, te_reason = reason,
             te_arguments = arguments, te_success = success, te_error = error, te_tenant = tenant,
             te_request_id = request_id\<rparr>)
      in case map_of (rg_tools reg) name of
           None \<Rightarrow> (tool_verdict ''BLOCK'' (UnknownTool name) name None, w,
                    evs @ [event ''BLOCK'' None (UnknownTool name) None None])
         | Some s \<Rightarrow>
             let result = decide_tool_call capability s arguments
             in if tr_decision result \<noteq> ''ALLOW''
                then (result, w, evs @ [event (tr_decision result) (Some (tl_risk s)) (tr_reason result) None None])
                else case map_of (rg_handlers reg) name of
                       None \<Rightarrow> (tool_verdict ''BLOCK'' (NoHandler name) name (Some (tl_risk s)), w,
                                evs @ [event ''BLOCK'' (Some (tl_risk s)) (NoHandler name) None None])
                     | Some h \<Rightarrow>
                         (case h (obj_items arguments) w of
                            (Inl error, w1) \<Rightarrow>
                              (result\<lparr>tr_error := Some error\<rparr>, w1,
                               evs @ [event ''ALLOW'' (Some (tl_risk s)) (tr_reason result) (Some False) (Some error)])
                          | (Inr output, w1) \<Rightarrow>
                              (result\<lparr>tr_output := Some output\<rparr>, w1,
                               evs @ [event ''ALLOW'' (Some (tl_risk s)) (tr_reason result) (Some True) None])))"

section \<open>The demo tools\<close>

type_synonym demo_db = "(string \<times> json list) list"

definition FAKE_DATABASE :: demo_db where
  "FAKE_DATABASE =
     [(''orders'', [JObj [(''id'', JInt 1), (''customer'', JStr ''acme''), (''total'', JFloat (85/2))],
                    JObj [(''id'', JInt 2), (''customer'', JStr ''globex''), (''total'', JFloat 17)]]),
      (''customers'', [JObj [(''id'', JInt 1), (''name'', JStr ''acme'')],
                       JObj [(''id'', JInt 2), (''name'', JStr ''globex'')]])]"

definition demo_echo :: "demo_db handler" where
  "demo_echo args db = (case jget args ''text'' of JStr t \<Rightarrow> (Inr (JStr t), db) | v \<Rightarrow> (Inr v, db))"

definition demo_add :: "demo_db handler" where
  "demo_add args db =
     (case (jget args ''a'', jget args ''b'') of
        (JInt a, JInt b) \<Rightarrow> (Inr (JInt (a + b)), db)
      | (a, b) \<Rightarrow> (case (num_of a, num_of b) of
                    (Some x, Some y) \<Rightarrow> (Inr (JFloat (x + y)), db) | _ \<Rightarrow> (Inl ''TypeError'', db)))"

text \<open>\<open>rows[:limit]\<close>, where a negative limit counts from the end.\<close>

definition py_take :: "int \<Rightarrow> 'a list \<Rightarrow> 'a list" where
  "py_take n xs = (if n < 0 then take (nat (int (length xs) + n)) xs else take (nat n) xs)"

definition table_rows :: "demo_db \<Rightarrow> json \<Rightarrow> json list" where
  "table_rows db table =
     (case table of JStr t \<Rightarrow> (case map_of db t of None \<Rightarrow> [] | Some rs \<Rightarrow> rs) | _ \<Rightarrow> [])"

definition demo_query :: "demo_db handler" where
  "demo_query args db =
     (case jget_default args ''limit'' (JInt 10) of
        JInt n \<Rightarrow> (Inr (JList (py_take n (table_rows db (jget args ''table'')))), db)
      | _ \<Rightarrow> (Inl ''TypeError'', db))"

definition row_has_id :: "json \<Rightarrow> json \<Rightarrow> bool" where
  "row_has_id rid row = py_eq (jget (obj_items row) ''id'') rid"

definition demo_delete :: "demo_db handler" where
  "demo_delete args db =
     (case jget args ''table'' of
        JStr t \<Rightarrow>
          let rows = table_rows db (JStr t); rid = jget args ''row_id'';
              kept = filter (\<lambda>r. \<not> row_has_id rid r) rows
          in (Inr (JObj [(''table'', JStr t), (''id'', rid), (''deleted'', JInt (int (length rows) - int (length kept)))]),
              od_set t kept db)
      | _ \<Rightarrow> (Inl ''TypeError'', db))"

definition str_prop :: prop_schema where
  "str_prop = \<lparr>ps_type = Some ''string'', ps_enum = None, ps_max_length = None\<rparr>"

definition table_prop :: prop_schema where
  "table_prop = \<lparr>ps_type = Some ''string'', ps_enum = Some [JStr ''orders'', JStr ''customers''], ps_max_length = None\<rparr>"

definition typed_prop :: "string \<Rightarrow> prop_schema" where
  "typed_prop t = \<lparr>ps_type = Some t, ps_enum = None, ps_max_length = None\<rparr>"

definition object_spec ::
  "string \<Rightarrow> string \<Rightarrow> (string \<times> prop_schema) list \<Rightarrow> string list \<Rightarrow> string \<Rightarrow> string \<Rightarrow> tool_spec" where
  "object_spec name desc props required risk capability =
     \<lparr>tl_name = name, tl_description = desc, tl_schema_type = ''object'', tl_properties = props,
      tl_required = required, tl_risk = risk, tl_capability = capability\<rparr>"

definition DEMO_TOOLS :: "(tool_spec \<times> demo_db handler) list" where
  "DEMO_TOOLS =
     [(object_spec ''demo.echo'' ''Returns the text it was given, unchanged.'' [(''text'', str_prop)] [''text''] ''LOW'' ''GENERAL'', demo_echo),
      (object_spec ''demo.calculator.add'' ''Adds two numbers.'' [(''a'', typed_prop ''number''), (''b'', typed_prop ''number'')]
         [''a'', ''b''] ''LOW'' ''GENERAL'', demo_add),
      (object_spec ''demo.database.query'' ''Reads rows from the in-memory demo database.''
         [(''table'', table_prop), (''limit'', typed_prop ''integer'')] [''table''] ''MEDIUM'' ''ELEVATED'', demo_query),
      (object_spec ''demo.database.delete'' ''Deletes a row from the in-memory demo database by id.''
         [(''table'', table_prop), (''row_id'', typed_prop ''integer'')] [''table'', ''row_id''] ''HIGH'' ''INTERNAL'', demo_delete)]"

fun register_all :: "(tool_spec \<times> 'w handler) list \<Rightarrow> 'w registry \<Rightarrow> 'w registry" where
  "register_all [] reg = reg"
| "register_all ((s, h) # ts) reg =
     register_all ts (case register_tool s (Some h) reg of Inl _ \<Rightarrow> reg | Inr reg' \<Rightarrow> reg')"

definition register_demo_tools :: "demo_db registry \<Rightarrow> demo_db registry" where
  "register_demo_tools reg = register_all DEMO_TOOLS reg"

section \<open>The http.get tool\<close>

text \<open>The split URL, the addresses its host resolves to (\<open>None\<close>: resolution failed) with their
  classification, and the body in the chunks it arrives in are what the libraries give.\<close>

record url_parts =
  up_scheme :: string
  up_hostname :: "string option"

datatype address = BadAddress | PublicAddress | NonPublicAddress

datatype http_get_error = BadScheme string | NoHostname | ToolDisabled | NotAllowlisted string | NotPublic string

definition allowed_domains :: "string \<Rightarrow> string list" where
  "allowed_domains setting =
     map (\<lambda>d. str_lower (str_strip d)) (filter (\<lambda>d. str_strip d \<noteq> []) (str_split CHR '','' setting))"

definition addresses_all_public :: "address list option \<Rightarrow> bool" where
  "addresses_all_public addrs =
     (case addrs of None \<Rightarrow> False | Some as \<Rightarrow> list_all (\<lambda>a. a = PublicAddress) as)"

definition MAX_RESPONSE_BYTES :: nat where
  "MAX_RESPONSE_BYTES = 1000000"

fun read_capped :: "nat \<Rightarrow> string list \<Rightarrow> string \<times> bool" where
  "read_capped sofar [] = ([], False)"
| "read_capped sofar (ch # chs) =
     (if sofar + length ch > MAX_RESPONSE_BYTES then ([], True)
      else let (body, truncated) = read_capped (sofar + length ch) chs in (ch @ body, truncated))"

definition http_get ::
  "string \<Rightarrow> (string \<Rightarrow> address list option) \<Rightarrow> url_parts \<Rightarrow> string list \<Rightarrow> (http_get_error, string \<times> bool) res" where
  "http_get setting resolve parts chunks =
     (if up_scheme parts \<notin> {''http'', ''https''} then Inl (BadScheme (up_scheme parts))
      else
        let hostname = (case up_hostname parts of None \<Rightarrow> [] | Some h \<Rightarrow> str_lower h);
            allowed = allowed_domains setting
        in if hostname = [] then Inl NoHostname
           else if allowed = [] then Inl ToolDisabled
           else if hostname \<notin> set allowed then Inl (NotAllowlisted hostname)
           else if \<not> addresses_all_public (resolve hostname) then Inl (NotPublic hostname)
           else Inr (read_capped 0 chunks))"

section \<open>Lemmas\<close>

lemma first_problem_Ok: "first_problem rs = Ok \<longleftrightarrow> (\<forall>r \<in> set rs. r = Ok)"
  by (induction rs) auto

lemma decide_allow_iff:
  "tr_decision (decide_tool_call capability s arguments) = ''ALLOW'' \<longleftrightarrow>
     check_tool_access capability s = Ok \<and> validate_arguments s arguments = Ok \<and> tl_risk s \<noteq> ''HIGH''"
  by (simp add: decide_tool_call_def tool_verdict_def Let_def)

lemma decide_decision: "tr_decision (decide_tool_call capability s arguments) \<in> {''BLOCK'', ''REVIEW'', ''ALLOW''}"
  by (simp add: decide_tool_call_def tool_verdict_def Let_def)

lemma read_capped_bound: "n \<le> MAX_RESPONSE_BYTES \<Longrightarrow> n + length (fst (read_capped n chs)) \<le> MAX_RESPONSE_BYTES"
  by (induction n chs rule: read_capped.induct) (auto simp: Let_def case_prod_beta)

lemma check_argument_Ok:
  assumes "check_argument s (k, v) = Ok"
  shows "\<exists>p. map_of (tl_properties s) k = Some p \<and>
       (ps_type p \<in> {Some ''integer'', Some ''number''} \<longrightarrow> \<not> is_bool v) \<and>
       (\<forall>t. ps_type p = Some t \<longrightarrow> has_type t v \<noteq> Some False) \<and>
       (\<forall>es. ps_enum p = Some es \<longrightarrow> list_ex (py_eq v) es) \<and>
       (\<forall>n str. ps_max_length p = Some n \<and> v = JStr str \<longrightarrow> length str \<le> n)"
proof -
  from assms obtain p where p: "map_of (tl_properties s) k = Some p"
    by (cases "map_of (tl_properties s) k") (simp_all add: check_argument_def)
  let ?e = "case ps_type p of None \<Rightarrow> [] | Some t \<Rightarrow> t"
  have c1: "\<not> (?e \<in> {''integer'', ''number''} \<and> is_bool v)" and c2: "has_type ?e v \<noteq> Some False"
    and c3: "\<not> (case ps_enum p of None \<Rightarrow> False | Some es \<Rightarrow> \<not> list_ex (py_eq v) es)"
    and c4: "(case (ps_max_length p, v) of (Some n, JStr str) \<Rightarrow> if length str > n then TooLong k else Ok | _ \<Rightarrow> Ok) = Ok"
    using assms by (simp_all only: check_argument_def prod.case p option.case Let_def tool_reason.distinct simp_thms split: if_splits)
  have d1: "ps_type p \<in> {Some ''integer'', Some ''number''} \<longrightarrow> \<not> is_bool v"
    using c1 by (cases "ps_type p") auto
  have d2: "\<forall>t. ps_type p = Some t \<longrightarrow> has_type t v \<noteq> Some False"
    using c2 by (cases "ps_type p") simp_all
  have d3: "\<forall>es. ps_enum p = Some es \<longrightarrow> list_ex (py_eq v) es"
    using c3 by (cases "ps_enum p") simp_all
  have d4: "\<forall>n str. ps_max_length p = Some n \<and> v = JStr str \<longrightarrow> length str \<le> n"
  proof (intro allI impI)
    fix n str assume "ps_max_length p = Some n \<and> v = JStr str"
    with c4 have "(if length str > n then TooLong k else Ok) = Ok" by simp
    then show "length str \<le> n" by (cases "length str > n") simp_all
  qed
  from p d1 d2 d3 d4 show ?thesis by blast
qed

text \<open>A call leaves one event, and the world as it was unless the decision is ALLOW.\<close>

lemma execute_tool_event:
  assumes "execute_tool reg capability name arguments tenant rid (w, evs) = (result, w', evs')"
  obtains ev where "evs' = evs @ [ev]" and "te_decision ev = tr_decision result" and "te_request_id ev = rid"
    and "te_tool ev = name" and "tr_decision result \<noteq> ''ALLOW'' \<Longrightarrow> w' = w"
    and "tr_decision result \<in> {''ALLOW'', ''REVIEW'', ''BLOCK''}"
proof -
  have "tr_decision result \<in> {''ALLOW'', ''REVIEW'', ''BLOCK''}"
    using assms decide_decision [of capability "the (map_of (rg_tools reg) name)" arguments]
    by (auto simp: execute_tool_def tool_verdict_def Let_def split: option.splits prod.splits sum.splits if_splits)
  moreover have "\<exists>ev. evs' = evs @ [ev] \<and> te_decision ev = tr_decision result \<and> te_request_id ev = rid \<and> te_tool ev = name
      \<and> (tr_decision result \<noteq> ''ALLOW'' \<longrightarrow> w' = w)"
    using assms by (auto simp: execute_tool_def tool_verdict_def Let_def split: option.splits prod.splits sum.splits if_splits)
  ultimately show ?thesis using that by blast
qed

text \<open>The world changes only behind an ALLOW, that is past the three checks.\<close>

lemma world_change_needs_allow:
  assumes "execute_tool reg capability name arguments tenant rid (w, evs) = (result, w', evs')" and "w' \<noteq> w"
  shows "\<exists>s. map_of (rg_tools reg) name = Some s \<and> tr_decision result = ''ALLOW'' \<and>
    check_tool_access capability s = Ok \<and> validate_arguments s arguments = Ok \<and> tl_risk s \<noteq> ''HIGH''"
proof (cases "map_of (rg_tools reg) name")
  case None
  with assms show ?thesis by (simp add: execute_tool_def Let_def)
next
  case (Some s)
  have a: "tr_decision (decide_tool_call capability s arguments) = ''ALLOW''"
  proof (rule ccontr)
    assume "tr_decision (decide_tool_call capability s arguments) \<noteq> ''ALLOW''"
    with assms Some show False by (simp add: execute_tool_def Let_def)
  qed
  then have "tr_decision result = ''ALLOW''"
    using assms Some
    by (auto simp: execute_tool_def Let_def split: option.splits prod.splits sum.splits)
  with Some a show ?thesis by (simp add: decide_allow_iff)
qed

section \<open>Properties\<close>

text \<open>Claim C15: the handler is reached only through an ALLOW. If a call changes the world at all, the
  tool is registered, the caller's rank reaches the tool's, the arguments satisfy the contract and
  the tool is not HIGH risk; in particular no HIGH risk tool ever runs without a human.\<close>

theorem handler_runs_only_on_allow:
  assumes "execute_tool reg capability name arguments tenant rid (w, evs) = (result, w', evs')" and "w' \<noteq> w"
  shows "\<exists>s. map_of (rg_tools reg) name = Some s \<and> tr_decision result = ''ALLOW'' \<and>
    check_tool_access capability s = Ok \<and> validate_arguments s arguments = Ok \<and> tl_risk s \<noteq> ''HIGH''"
  using assms by (rule world_change_needs_allow)

theorem handler_runs_only_on_allow_witness:
  "tr_decision (fst (execute_tool \<lparr>rg_tools = [(''t'', object_spec ''t'' ''d'' [] [] ''LOW'' ''GENERAL'')],
       rg_handlers = [(''t'', \<lambda>args w. (Inr JNull, Suc w))]\<rparr> ''GENERAL'' ''t'' (JObj []) ''acme'' ''r1'' (0 :: nat, []))) = ''ALLOW''"
proof -
  let ?reg = "\<lparr>rg_tools = [(''t'', object_spec ''t'' ''d'' [] [] ''LOW'' ''GENERAL'')],
       rg_handlers = [(''t'', \<lambda>args w. (Inr JNull, Suc w))]\<rparr> :: nat registry"
  obtain result evs' where e: "execute_tool ?reg ''GENERAL'' ''t'' (JObj []) ''acme'' ''r1'' (0, []) = (result, 1, evs')"
    by (simp add: execute_tool_def object_spec_def decide_tool_call_def check_tool_access_def CAPABILITY_RANK_def
        validate_arguments_def tool_verdict_def)
  from handler_runs_only_on_allow [OF e] e show ?thesis by auto
qed

text \<open>Every call leaves exactly one audit event, for the tool, caller, tenant and request it was
  made with, and the event carries the decision that was returned.\<close>

theorem every_call_is_audited_once:
  "case execute_tool reg capability name arguments tenant rid (w, evs) of
     (result, w', evs') \<Rightarrow> \<exists>ev. evs' = evs @ [ev] \<and> te_decision ev = tr_decision result \<and> te_reason ev = tr_reason result
       \<and> te_risk ev = tr_risk result \<and> te_tool ev = name \<and> te_capability ev = capability \<and> te_tenant ev = tenant
       \<and> te_request_id ev = rid \<and> te_arguments ev = arguments \<and> te_error ev = tr_error result"
proof (cases "map_of (rg_tools reg) name")
  case None
  then show ?thesis by (simp add: execute_tool_def tool_verdict_def Let_def)
next
  case (Some s)
  have d: "tr_risk (decide_tool_call capability s arguments) = Some (tl_risk s)"
    "tr_error (decide_tool_call capability s arguments) = None"
    by (simp_all add: decide_tool_call_def tool_verdict_def Let_def)
  show ?thesis
  proof (cases "tr_decision (decide_tool_call capability s arguments) = ''ALLOW''")
    case False
    with Some d show ?thesis by (simp add: execute_tool_def Let_def)
  next
    case True
    show ?thesis
    proof (cases "map_of (rg_handlers reg) name")
      case None
      with Some True show ?thesis by (simp add: execute_tool_def tool_verdict_def Let_def)
    next
      case h: (Some h)
      obtain r w1 where "h (obj_items arguments) w = (r, w1)" by fastforce
      with Some True h d show ?thesis
        by (cases r) (simp_all add: execute_tool_def Let_def)
    qed
  qed
qed

text \<open>Access follows the rank of the capabilities. A caller the decision lets through has at
  least the required rank, an unrecognised capability is always refused, and raising the caller's
  rank never turns an ALLOW or a REVIEW into a BLOCK.\<close>

theorem access_is_monotone:
  assumes "map_of CAPABILITY_RANK c1 = Some r1" and "map_of CAPABILITY_RANK c2 = Some r2" and "r1 \<le> r2"
    and "tr_decision (decide_tool_call c1 s arguments) \<noteq> ''BLOCK''"
  shows "tr_decision (decide_tool_call c2 s arguments) = tr_decision (decide_tool_call c1 s arguments)
    \<and> the (map_of CAPABILITY_RANK (tl_capability s)) \<le> r1"
proof -
  have a1: "check_tool_access c1 s = Ok"
  proof (rule ccontr)
    assume "check_tool_access c1 s \<noteq> Ok"
    with assms(4) show False by (simp add: decide_tool_call_def tool_verdict_def)
  qed
  then have le: "the (map_of CAPABILITY_RANK (tl_capability s)) \<le> r1"
    using assms(1) by (simp add: check_tool_access_def split: if_splits)
  with assms(2,3) have "check_tool_access c2 s = Ok"
    by (simp add: check_tool_access_def)
  with a1 le show ?thesis by (simp add: decide_tool_call_def tool_verdict_def Let_def)
qed

theorem access_is_monotone_witness:
  "tr_decision (decide_tool_call ''INTERNAL'' (object_spec ''t'' ''d'' [] [] ''HIGH'' ''GENERAL'') (JObj [])) = ''REVIEW''"
proof -
  have r: "tr_decision (decide_tool_call ''GENERAL'' (object_spec ''t'' ''d'' [] [] ''HIGH'' ''GENERAL'') (JObj [])) = ''REVIEW''"
    by (simp add: decide_tool_call_def check_tool_access_def CAPABILITY_RANK_def object_spec_def validate_arguments_def tool_verdict_def)
  have "map_of CAPABILITY_RANK ''GENERAL'' = Some 0" "map_of CAPABILITY_RANK ''INTERNAL'' = Some 2"
    by (simp_all add: CAPABILITY_RANK_def)
  from access_is_monotone [OF this, of "object_spec ''t'' ''d'' [] [] ''HIGH'' ''GENERAL''" "JObj []"] r show ?thesis by simp
qed

text \<open>Claim C37: arguments that pass have the declared shape: every required argument is there, no argument
  is undeclared, a declared integer or number is never a boolean, an enumerated value is one of the
  enumeration, and a string is no longer than its \<open>maxLength\<close>.\<close>

theorem validated_arguments_fit:
  assumes "validate_arguments s arguments = Ok"
  shows "\<exists>kvs. arguments = JObj kvs \<and> (\<forall>f \<in> set (tl_required s). map_of kvs f \<noteq> None) \<and>
    (\<forall>(k, v) \<in> set kvs. \<exists>p. map_of (tl_properties s) k = Some p \<and>
       (ps_type p \<in> {Some ''integer'', Some ''number''} \<longrightarrow> \<not> is_bool v) \<and>
       (\<forall>t. ps_type p = Some t \<longrightarrow> has_type t v \<noteq> Some False) \<and>
       (\<forall>es. ps_enum p = Some es \<longrightarrow> list_ex (py_eq v) es) \<and>
       (\<forall>n str. ps_max_length p = Some n \<and> v = JStr str \<longrightarrow> length str \<le> n))"
proof -
  obtain kvs where kvs: "arguments = JObj kvs"
    using assms by (cases arguments) (simp_all add: validate_arguments_def)
  let ?miss = "\<lambda>f. if map_of kvs f = None then MissingArgument f else Ok"
  have all: "\<forall>r \<in> set (map ?miss (tl_required s) @ map (check_argument s) kvs). r = Ok"
    using assms unfolding kvs validate_arguments_def json.case first_problem_Ok .
  have req: "map_of kvs f \<noteq> None" if "f \<in> set (tl_required s)" for f
  proof
    assume "map_of kvs f = None"
    moreover have "?miss f = Ok" using all that by (simp only: set_append set_map) blast
    ultimately show False by simp
  qed
  have arg: "check_argument s kv = Ok" if "kv \<in> set kvs" for kv
    using all that by (simp only: set_append set_map) blast
  have "\<forall>(k, v) \<in> set kvs. \<exists>p. map_of (tl_properties s) k = Some p \<and>
       (ps_type p \<in> {Some ''integer'', Some ''number''} \<longrightarrow> \<not> is_bool v) \<and>
       (\<forall>t. ps_type p = Some t \<longrightarrow> has_type t v \<noteq> Some False) \<and>
       (\<forall>es. ps_enum p = Some es \<longrightarrow> list_ex (py_eq v) es) \<and>
       (\<forall>n str. ps_max_length p = Some n \<and> v = JStr str \<longrightarrow> length str \<le> n)"
    using check_argument_Ok arg by (simp only: split_paired_Ball_Sigma case_prod_unfold) (metis prod.collapse)
  with kvs req show ?thesis by blast
qed

theorem validated_arguments_fit_witness:
  "\<exists>kvs. JObj [(''a'', JInt 1)] = JObj kvs \<and> (\<forall>(k, v) \<in> set kvs. \<not> is_bool v)"
proof -
  have "validate_arguments (object_spec ''t'' ''d'' [(''a'', typed_prop ''integer'')] [''a''] ''LOW'' ''GENERAL'') (JObj [(''a'', JInt 1)]) = Ok"
    by (simp add: validate_arguments_def object_spec_def typed_prop_def check_argument_def has_type_def)
  from validated_arguments_fit [OF this] show ?thesis
    by (auto simp: object_spec_def typed_prop_def)
qed



end
