(* ===== verification/Rate_Limit.thy ===== *)
theory Rate_Limit
  imports Redis_Client
begin

text \<open>
  core/rate_limit.py: the token bucket, the process-local limiter with its LRU cap, the Lua
  script, the Redis limiter that falls back to a local one, and the conversion of a
  "requests per minute" limit into bucket parameters.

  The interface \<open>rate_backend\<close> is what \<open>RateLimiterBackend.check\<close> promises its callers;
  the burst-plus-rate bound is proved once from it and interpreted for the local limiter and
  for the script.
\<close>

record bucket =
  bk_tokens :: real
  bk_last :: real

definition bucket_refill :: "real \<Rightarrow> real \<Rightarrow> real \<Rightarrow> bucket \<Rightarrow> bucket" where
  "bucket_refill cap rate now b =
     (let elapsed = now - bk_last b
      in if elapsed > 0
         then b\<lparr>bk_tokens := min cap (bk_tokens b + elapsed * rate), bk_last := now\<rparr> else b)"

definition bucket_spend :: "real \<Rightarrow> bucket \<Rightarrow> (bool \<times> real) \<times> bucket" where
  "bucket_spend rate b =
     (if bk_tokens b \<ge> 1 then ((True, 0), b\<lparr>bk_tokens := bk_tokens b - 1\<rparr>)
      else ((False, (1 - bk_tokens b) / rate), b))"

definition bucket_step :: "real \<Rightarrow> real \<Rightarrow> real \<Rightarrow> bucket option \<Rightarrow> (bool \<times> real) \<times> bucket" where
  "bucket_step cap rate now ob =
     bucket_spend rate (case ob of None \<Rightarrow> \<lparr>bk_tokens = cap, bk_last = now\<rparr>
                                 | Some b \<Rightarrow> bucket_refill cap rate now b)"

section \<open>The local limiter\<close>

record limiter =
  rl_name :: string
  rl_max :: nat
  rl_buckets :: "(string \<times> bucket) list"

definition limiter_init :: "string \<Rightarrow> nat \<Rightarrow> limiter" where
  "limiter_init name max_tracked = \<lparr>rl_name = name, rl_max = max_tracked, rl_buckets = []\<rparr>"

definition local_check ::
  "string \<Rightarrow> real \<Rightarrow> real \<Rightarrow> real \<Rightarrow> limiter \<Rightarrow> (bool \<times> real) \<times> limiter" where
  "local_check identity cap rate now l =
     (if rate \<le> 0 \<or> cap \<le> 0 then ((True, 0), l)
      else
        let found = map_of (rl_buckets l) identity;
            bs = (case found of
                    None \<Rightarrow> od_evict (rl_max l)
                              (od_set identity \<lparr>bk_tokens = cap, bk_last = now\<rparr> (rl_buckets l))
                  | Some _ \<Rightarrow> od_move_to_end identity (rl_buckets l));
            outcome = bucket_step cap rate now found
        in (fst outcome, l\<lparr>rl_buckets := od_mutate identity (snd outcome) bs\<rparr>))"

definition local_reset :: "limiter \<Rightarrow> limiter" where
  "local_reset l = l\<lparr>rl_buckets := []\<rparr>"

definition local_len :: "limiter \<Rightarrow> nat" where
  "local_len l = length (rl_buckets l)"

section \<open>The Lua script and the Redis limiter\<close>

definition lua_token_bucket ::
  "'s redis \<Rightarrow> string \<Rightarrow> real \<Rightarrow> real \<Rightarrow> real option \<Rightarrow> 's \<Rightarrow> (int \<times> real) \<times> 's" where
  "lua_token_bucket R key cap rate now_arg s =
     (if cap \<le> 0 \<or> rate \<le> 0 then ((1, 0), s)
      else
        let now = (case now_arg of Some n \<Rightarrow> if n > 0 then n else r_time R s | None \<Rightarrow> r_time R s);
            (tokens, last_refill) =
              (case r_hmget R s key of
                 None \<Rightarrow> (cap, now)
               | Some (t, lr) \<Rightarrow>
                   if now - lr > 0 then (min cap (t + (now - lr) * rate), now) else (t, lr));
            (allowed, retry_after, tokens') =
              (if tokens \<ge> 1 then (1, 0, tokens - 1) else (0, (1 - tokens) / rate, tokens));
            s1 = r_hset R key (tokens', last_refill) s;
            ttl = max 3600 (of_int \<lceil>cap / rate\<rceil> * 2)
        in ((allowed, retry_after), r_expire R key ttl s1))"

record redis_limiter =
  rr_name :: string
  rr_fallback :: limiter

definition redis_limiter_init :: "string \<Rightarrow> nat \<Rightarrow> redis_limiter" where
  "redis_limiter_init name max_tracked =
     \<lparr>rr_name = name, rr_fallback = limiter_init name max_tracked\<rparr>"

definition rl_prefix :: "redis_limiter \<Rightarrow> string" where
  "rl_prefix rr = ''gatekeeper:ratelimit:'' @ rr_name rr @ '':''"

definition redis_check ::
  "'s redis \<Rightarrow> fault \<Rightarrow> string \<Rightarrow> real \<Rightarrow> real \<Rightarrow> real option \<Rightarrow> real \<Rightarrow> redis_limiter \<Rightarrow> 's
   \<Rightarrow> (bool \<times> real) \<times> redis_limiter \<times> 's" where
  "redis_check R f identity cap rate now monotonic rr s =
     (if rate \<le> 0 \<or> cap \<le> 0 then ((True, 0), rr, s)
      else case redis_call f (lua_token_bucket R (rl_prefix rr @ identity) cap rate now) s of
             (Some (allowed, retry_after), s1) \<Rightarrow> ((allowed \<noteq> 0, retry_after), rr, s1)
           | (None, s1) \<Rightarrow>
               (let t = (case now of Some n \<Rightarrow> n | None \<Rightarrow> monotonic);
                    outcome = local_check identity cap rate t (rr_fallback rr)
                in (fst outcome, rr\<lparr>rr_fallback := snd outcome\<rparr>, s1)))"

definition redis_limiter_reset ::
  "'s redis \<Rightarrow> nat option \<Rightarrow> redis_limiter \<Rightarrow> 's \<Rightarrow> redis_limiter \<times> 's" where
  "redis_limiter_reset R failing rr s =
     (rr\<lparr>rr_fallback := local_reset (rr_fallback rr)\<rparr>, redis_purge R failing (rl_prefix rr) s)"

definition redis_limiter_len :: "'s redis \<Rightarrow> fault \<Rightarrow> redis_limiter \<Rightarrow> 's \<Rightarrow> nat" where
  "redis_limiter_len R f rr s =
     (case redis_call f (\<lambda>s. (length (r_scan R s (rl_prefix rr)), s)) s of
        (Some n, _) \<Rightarrow> n
      | (None, _) \<Rightarrow> local_len (rr_fallback rr))"

datatype rate_backend_impl = LocalBackend limiter | RedisBackend redis_limiter

definition build_rate_limiter :: "string \<Rightarrow> bool \<Rightarrow> string option \<Rightarrow> nat \<Rightarrow> rate_backend_impl" where
  "build_rate_limiter name client_given shared_client max_tracked =
     (if client_given then RedisBackend (redis_limiter_init name max_tracked)
      else if shared_client \<noteq> None then RedisBackend (redis_limiter_init name max_tracked)
      else LocalBackend (limiter_init name max_tracked))"

definition bucket_parameters :: "real \<Rightarrow> real \<Rightarrow> real \<times> real" where
  "bucket_parameters requests_per_minute burst_seconds =
     (let refill_per_second = requests_per_minute / 60
      in (max 1 (refill_per_second * burst_seconds), refill_per_second))"

section \<open>One bucket\<close>

lemmas bucket_defs = bucket_step_def bucket_spend_def bucket_refill_def Let_def

text \<open>The potential argument: what a step hands out is paid for by tokens and by time.\<close>

lemma bucket_step_potential:
  assumes "0 < rate"
  shows "bk_tokens (snd (bucket_step cap rate now (Some b))) +
           (if fst (fst (bucket_step cap rate now (Some b))) then 1 else 0)
         \<le> bk_tokens b + rate * (bk_last (snd (bucket_step cap rate now (Some b))) - bk_last b)"
  using assms by (auto simp: bucket_defs algebra_simps min_def)

lemma bucket_step_last: "bk_last (snd (bucket_step cap rate now (Some b))) = max (bk_last b) now"
  by (auto simp: bucket_defs)

lemma bucket_step_nonneg:
  "0 \<le> bk_tokens b \<Longrightarrow> 0 \<le> cap \<Longrightarrow> 0 < rate \<Longrightarrow> 0 \<le> bk_tokens (snd (bucket_step cap rate now (Some b)))"
  by (auto simp: bucket_defs min_def)

lemma bucket_step_le_cap:
  "bk_tokens b \<le> cap \<Longrightarrow> bk_tokens (snd (bucket_step cap rate now (Some b))) \<le> cap"
  by (auto simp: bucket_defs)

section \<open>The interface of a limiter\<close>

text \<open>The verdicts of a sequence of timed checks with one allowance.\<close>

fun check_run ::
  "(string \<Rightarrow> real \<Rightarrow> real \<Rightarrow> real \<Rightarrow> 'st \<Rightarrow> (bool \<times> real) \<times> 'st) \<Rightarrow> real \<Rightarrow> real
   \<Rightarrow> (string \<times> real) list \<Rightarrow> 'st \<Rightarrow> (string \<times> bool) list" where
  "check_run chk cap rate [] st = []"
| "check_run chk cap rate ((i, now) # reqs) st =
     (i, fst (fst (chk i cap rate now st))) # check_run chk cap rate reqs (snd (chk i cap rate now st))"

text \<open>\<open>level st i\<close> is the bucket kept for \<open>i\<close>; \<open>room I st\<close> says that no identity of \<open>I\<close> can be
  evicted while only identities of \<open>I\<close> are checked.\<close>

locale rate_backend =
  fixes check :: "string \<Rightarrow> real \<Rightarrow> real \<Rightarrow> real \<Rightarrow> 'st \<Rightarrow> (bool \<times> real) \<times> 'st"
    and level :: "'st \<Rightarrow> string \<Rightarrow> bucket option"
    and room :: "string set \<Rightarrow> 'st \<Rightarrow> bool"
  assumes check_result: "room I st \<Longrightarrow> i \<in> I \<Longrightarrow> 0 < cap \<Longrightarrow> 0 < rate \<Longrightarrow> 0 < now \<Longrightarrow>
      fst (check i cap rate now st) = fst (bucket_step cap rate now (level st i))"
    and check_level: "room I st \<Longrightarrow> i \<in> I \<Longrightarrow> 0 < cap \<Longrightarrow> 0 < rate \<Longrightarrow> 0 < now \<Longrightarrow> j \<in> I \<Longrightarrow>
      level (snd (check i cap rate now st)) j =
        (if j = i then Some (snd (bucket_step cap rate now (level st i))) else level st j)"
    and check_room: "room I st \<Longrightarrow> i \<in> I \<Longrightarrow> 0 < cap \<Longrightarrow> 0 < rate \<Longrightarrow> 0 < now \<Longrightarrow>
      room I (snd (check i cap rate now st))"
begin

lemma run_bound_known:
  assumes "room I st" and "fst ` set reqs \<subseteq> I" and "\<forall>r \<in> set reqs. 0 < snd r \<and> snd r \<le> T"
    and "0 < cap" and "0 < rate" and "i \<in> I" and "level st i = Some b" and "0 \<le> bk_tokens b"
    and "bk_last b \<le> T"
  shows "real (count_list (check_run check cap rate reqs st) (i, True)) \<le> bk_tokens b + rate * (T - bk_last b)"
  using assms
proof (induction reqs arbitrary: st b)
  case Nil
  then show ?case by simp
next
  case (Cons r reqs)
  obtain j now where r: "r = (j, now)" by (cases r)
  with Cons.prems have j: "j \<in> I" "0 < now" "now \<le> T" by auto
  let ?st = "snd (check j cap rate now st)"
  note lev = check_level [OF Cons.prems(1) j(1) Cons.prems(4,5) j(2) Cons.prems(6)]
  note rm = check_room [OF Cons.prems(1) j(1) Cons.prems(4,5) j(2)]
  show ?case
  proof (cases "j = i")
    case False
    with lev Cons.prems(7) have "level ?st i = Some b" by simp
    from Cons.IH [OF rm _ _ _ _ _ this] Cons.prems r False show ?thesis by simp
  next
    case True
    let ?b = "snd (bucket_step cap rate now (Some b))"
    have l: "level ?st i = Some ?b" using lev True Cons.prems(7) by simp
    have nn: "0 \<le> bk_tokens ?b"
      using bucket_step_nonneg Cons.prems(4,5,8) by simp
    have lst: "bk_last ?b \<le> T"
      using j(3) Cons.prems(9) by (simp add: bucket_step_last)
    have ih: "real (count_list (check_run check cap rate reqs ?st) (i, True)) \<le> bk_tokens ?b + rate * (T - bk_last ?b)"
      using Cons.IH [OF rm _ _ _ _ _ l nn lst] Cons.prems by simp
    have res: "fst (check j cap rate now st) = fst (bucket_step cap rate now (Some b))"
      using check_result [OF Cons.prems(1) j(1) Cons.prems(4,5) j(2)] True Cons.prems(7) by simp
    have pot: "bk_tokens ?b + (if fst (fst (bucket_step cap rate now (Some b))) then 1 else 0)
        \<le> bk_tokens b + rate * (bk_last ?b - bk_last b)"
      by (rule bucket_step_potential [OF Cons.prems(5)])
    show ?thesis
      using ih pot r True res by (auto simp: algebra_simps split: if_splits)
  qed
qed

text \<open>From a fresh bucket: the burst \<open>cap\<close> plus the sustained rate, from the first request on.\<close>

lemma run_bound_fresh:
  assumes "room I st" and "fst ` set reqs \<subseteq> I" and "\<forall>r \<in> set reqs. T0 \<le> snd r \<and> snd r \<le> T"
    and "0 < T0" and "0 < cap" and "0 < rate" and "i \<in> I" and "level st i = None" and "T0 \<le> T"
  shows "real (count_list (check_run check cap rate reqs st) (i, True)) \<le> cap + rate * (T - T0)"
  using assms
proof (induction reqs arbitrary: st)
  case Nil
  then show ?case by simp
next
  case (Cons r reqs)
  obtain j now where r: "r = (j, now)" by (cases r)
  with Cons.prems have j: "j \<in> I" "0 < now" "T0 \<le> now" "now \<le> T" by auto
  let ?st = "snd (check j cap rate now st)"
  note lev = check_level [OF Cons.prems(1) j(1) Cons.prems(5,6) j(2) Cons.prems(7)]
  note rm = check_room [OF Cons.prems(1) j(1) Cons.prems(5,6) j(2)]
  show ?case
  proof (cases "j = i")
    case False
    with lev Cons.prems(8) have "level ?st i = None" by simp
    from Cons.IH [OF rm _ _ _ _ _ _ this] Cons.prems r False show ?thesis by simp
  next
    case True
    let ?b = "snd (bucket_step cap rate now None)"
    have l: "level ?st i = Some ?b" using lev True Cons.prems(8) by simp
    have nn: "0 \<le> bk_tokens ?b" and lst: "bk_last ?b = now"
      using Cons.prems(5) by (auto simp: bucket_defs)
    have ih: "real (count_list (check_run check cap rate reqs ?st) (i, True)) \<le> bk_tokens ?b + rate * (T - bk_last ?b)"
      using run_bound_known [OF rm _ _ Cons.prems(5,6,7) l nn, of reqs T] Cons.prems lst j
      by fastforce
    have res: "fst (check j cap rate now st) = fst (bucket_step cap rate now None)"
      using check_result [OF Cons.prems(1) j(1) Cons.prems(5,6) j(2)] True Cons.prems(8) by simp
    have pot: "bk_tokens ?b + (if fst (fst (bucket_step cap rate now None)) then 1 else 0) \<le> cap"
      by (auto simp: bucket_defs)
    have "rate * (T - now) \<le> rate * (T - T0)"
      using j Cons.prems(6) by simp
    with ih pot r True res lst show ?thesis
      by (auto split: if_splits)
  qed
qed

end

section \<open>The local limiter provides the interface\<close>

definition local_level :: "limiter \<Rightarrow> string \<Rightarrow> bucket option" where
  "local_level l i = map_of (rl_buckets l) i"

definition local_room :: "string set \<Rightarrow> limiter \<Rightarrow> bool" where
  "local_room I l \<longleftrightarrow> key_room I (rl_max l) (rl_buckets l)"

interpretation local_rl: rate_backend local_check local_level local_room
proof unfold_locales
  fix I :: "string set" and st :: limiter and i j :: string and cap rate now :: real
  assume a: "local_room I st" "i \<in> I" "0 < cap" "0 < rate" "0 < now"
  note rm = a(1) [unfolded local_room_def]
  note sets = key_room_set [OF rm a(2)]
  show "fst (local_check i cap rate now st) = fst (bucket_step cap rate now (local_level st i))"
    using a(3,4) by (simp add: local_check_def local_level_def Let_def)
  show "local_level (snd (local_check i cap rate now st)) j =
      (if j = i then Some (snd (bucket_step cap rate now (local_level st i))) else local_level st j)"
    using a(3,4) by (auto simp: local_check_def local_level_def Let_def od_simps sets(2) split: option.splits)
  show "local_room I (snd (local_check i cap rate now st))"
    using a(3,4) rm sets
    by (auto simp: local_check_def local_room_def Let_def split: option.splits intro!: key_room_keep)
qed

section \<open>The Redis script provides it too\<close>

definition script_check ::
  "'s redis \<Rightarrow> string \<Rightarrow> string \<Rightarrow> real \<Rightarrow> real \<Rightarrow> real \<Rightarrow> 's \<Rightarrow> (bool \<times> real) \<times> 's" where
  "script_check R prefix i cap rate now s =
     (let outcome = lua_token_bucket R (prefix @ i) cap rate (Some now) s
      in ((fst (fst outcome) \<noteq> 0, snd (fst outcome)), snd outcome))"

definition script_level :: "'s redis \<Rightarrow> string \<Rightarrow> 's \<Rightarrow> string \<Rightarrow> bucket option" where
  "script_level R prefix s i =
     map_option (\<lambda>(t, lr). \<lparr>bk_tokens = t, bk_last = lr\<rparr>) (r_hmget R s (prefix @ i))"

sublocale redis_kv \<subseteq> script: rate_backend "script_check R prefix" "script_level R prefix" "\<lambda>I s. True"
  for prefix
  by unfold_locales
     (auto simp: script_check_def script_level_def lua_token_bucket_def bucket_defs kv_simps
        split: option.splits prod.splits)


context redis_kv
begin

lemmas script_run_bound = script.run_bound_fresh
lemmas script_check_result = script.check_result [OF TrueI UNIV_I]
lemmas script_check_level = script.check_level [OF TrueI UNIV_I _ _ _ UNIV_I]

end

section \<open>Properties\<close>

text \<open>Whatever the interleaving with other callers, the requests one caller gets through
  the local limiter in a time window that starts with a fresh bucket number at most the burst
  capacity plus the sustained rate times the length of the window, provided the callers fit under
  the tracking cap.\<close>

theorem local_limiter_rate_bound:
  assumes "0 < cap" and "0 < rate" and "0 < T0" and "T0 \<le> T"
    and "\<forall>r \<in> set reqs. T0 \<le> snd r \<and> snd r \<le> T"
    and "i \<in> fst ` set reqs" and "card (fst ` set reqs) \<le> m"
  shows "real (count_list (check_run local_check cap rate reqs (limiter_init name m)) (i, True))
         \<le> cap + rate * (T - T0)"
  by (rule local_rl.run_bound_fresh [where I = "fst ` set reqs"])
     (use assms in \<open>auto simp: local_room_def key_room_def limiter_init_def local_level_def\<close>)

theorem local_limiter_rate_bound_witness:
  "real (count_list (check_run local_check 2 (1/10)
      [(''a'', 1), (''a'', 1), (''b'', 2), (''a'', 3), (''a'', 11)] (limiter_init ''assess'' 5)) (''a'', True))
   \<le> 2 + 1/10 * (11 - 1)"
  by (rule local_limiter_rate_bound) (auto simp: card_insert_if)



text \<open>A shared check with an explicit time takes the same decision and leaves the same
  bucket as the local limiter's bucket step, so switching backend does not change the limit.\<close>

theorem script_agrees_with_local:
  assumes "redis_kv R" and "0 < cap" and "0 < rate" and "0 < now"
  shows "fst (redis_check R NoFault i cap rate (Some now) tm rr s)
           = fst (bucket_step cap rate now (script_level R (rl_prefix rr) s i))
    \<and> script_level R (rl_prefix rr) (snd (snd (redis_check R NoFault i cap rate (Some now) tm rr s))) i
        = Some (snd (bucket_step cap rate now (script_level R (rl_prefix rr) s i)))"
proof -
  show ?thesis
    using redis_kv.script_check_result [OF assms, of "rl_prefix rr" i s]
      redis_kv.script_check_level [OF assms, of "rl_prefix rr" i s i] assms(2-4)
    by (simp add: redis_check_def script_check_def Let_def case_prod_beta)
qed

text \<open>The \<open>Retry-After\<close> a refused caller is told is exact. Capacity from
  \<open>bucket_parameters\<close> is at least one token, so the same caller is allowed at that time and is
  still refused at every earlier time.\<close>

theorem retry_after_exact:
  assumes "0 < rpm" and "bucket_parameters rpm burst = (cap, rate)"
    and "bucket_step cap rate now (Some b) = ((False, w), b')" and "bk_last b \<le> now"
  shows "0 < w \<and> fst (fst (bucket_step cap rate (now + w) (Some b')))
    \<and> (\<forall>t. now \<le> t \<and> t < now + w \<longrightarrow> \<not> fst (fst (bucket_step cap rate t (Some b'))))"
proof -
  from assms(1,2) have rate: "0 < rate" and cap: "1 \<le> cap"
    by (auto simp: bucket_parameters_def Let_def)
  from assms(3,4) have w: "bk_tokens b' < 1" "w = (1 - bk_tokens b') / rate" "bk_last b' = now"
    by (auto simp: bucket_defs split: if_splits)
  have wpos: "0 < w" using w(1,2) rate by simp
  have refill: "bk_tokens b' + (now + w - now) * rate = 1"
    using w(2) rate by (simp add: field_simps)
  have at: "fst (fst (bucket_step cap rate (now + w) (Some b')))"
    using refill wpos cap w(3) by (simp add: bucket_defs)
  have "\<not> fst (fst (bucket_step cap rate t (Some b')))" if t: "now \<le> t" "t < now + w" for t
  proof -
    have "(t - now) * rate < w * rate"
      using t(2) rate by simp
    with refill have "bk_tokens b' + (t - now) * rate < 1" by simp
    with w t cap show ?thesis by (auto simp: bucket_defs)
  qed
  with at wpos show ?thesis by blast
qed

theorem retry_after_exact_witness:
  "fst (fst (bucket_step 1 (1/3) (0 + 3) (Some \<lparr>bk_tokens = 0, bk_last = 0\<rparr>)))"
proof -
  have p: "bucket_parameters 20 3 = (1, 1/3)"
    by (simp add: bucket_parameters_def)
  have s: "bucket_step 1 (1/3) 0 (Some \<lparr>bk_tokens = 0, bk_last = 0\<rparr>)
      = ((False, 3), \<lparr>bk_tokens = 0, bk_last = 0\<rparr>)"
    by (simp add: bucket_defs)
  show ?thesis
    using retry_after_exact [OF _ p s] by simp
qed

text \<open>No sequence of checks makes the local limiter track more than \<open>max_tracked\<close> callers
  or track one twice, so its memory stays bounded.\<close>

theorem local_limiter_bounded:
  "let l = fold (\<lambda>(i, cap, rate, now) l. snd (local_check i cap rate now l)) calls (limiter_init name m)
   in local_len l \<le> m \<and> od_wf (rl_buckets l)"
proof -
  define P :: "limiter \<Rightarrow> bool" where "P l \<longleftrightarrow> rl_max l = m \<and> length (rl_buckets l) \<le> m \<and> od_wf (rl_buckets l)" for l
  have step: "P (snd (local_check i cap rate now l))" if "P l" for i cap rate now l
    using that
    by (auto simp: P_def local_check_def Let_def length_od_mutate length_od_evict length_od_move_to_end
        intro!: od_mutate_wf od_wf_od_evict od_wf_od_set od_wf_od_move_to_end split: option.splits)
  have "P (fold (\<lambda>(i, cap, rate, now) l. snd (local_check i cap rate now l)) calls l)" if "P l" for l
    using that by (induction calls arbitrary: l) (auto intro: step)
  moreover have "P (limiter_init name m)"
    by (simp add: P_def limiter_init_def)
  ultimately show ?thesis
    by (simp add: P_def local_len_def Let_def)
qed

end
