(* ===== verification/Token_Quota.thy ===== *)
theory Token_Quota
  imports Redis_Client
begin

text \<open>
  core/token_quota.py: per-tenant daily token accounting. The tracker can only refuse the call
  after the one that crossed the quota, so the guarantee is a bound on the overshoot; it is
  proved once from the interface \<open>quota_backend\<close>, for any interleaving of calls in flight, and
  interpreted for the local tracker and for the Redis key of the day. \<open>today\<close> is the UTC date
  the code reads, \<open>second_of_day\<close> the UTC time in seconds since midnight.
\<close>

definition seconds_until_utc_midnight :: "real \<Rightarrow> real" where
  "seconds_until_utc_midnight second_of_day = max 0 (86400 - second_of_day)"

record tenant_usage =
  tu_day :: string
  tu_tokens :: real

record quota_tracker =
  tq_max :: nat
  tq_usage :: "(string \<times> tenant_usage) list"

definition tracker_init :: "nat \<Rightarrow> quota_tracker" where
  "tracker_init m = \<lparr>tq_max = m, tq_usage = []\<rparr>"

definition get_current :: "string \<Rightarrow> string \<Rightarrow> quota_tracker \<Rightarrow> tenant_usage \<times> quota_tracker" where
  "get_current tenant today tq =
     (let fresh = \<lparr>tu_day = today, tu_tokens = 0\<rparr>;
          replace = (fresh, tq\<lparr>tq_usage := od_evict (tq_max tq) (od_set tenant fresh (tq_usage tq))\<rparr>)
      in case map_of (tq_usage tq) tenant of
           None \<Rightarrow> replace
         | Some u \<Rightarrow> if tu_day u \<noteq> today then replace
                     else (u, tq\<lparr>tq_usage := od_move_to_end tenant (tq_usage tq)\<rparr>))"

definition would_exceed :: "string \<Rightarrow> int \<Rightarrow> string \<Rightarrow> quota_tracker \<Rightarrow> bool \<times> quota_tracker" where
  "would_exceed tenant quota today tq =
     (if quota \<le> 0 then (False, tq)
      else (let (u, tq1) = get_current tenant today tq in (tu_tokens u \<ge> of_int quota, tq1)))"

definition usage_today :: "string \<Rightarrow> string \<Rightarrow> quota_tracker \<Rightarrow> real \<times> quota_tracker" where
  "usage_today tenant today tq = (let (u, tq1) = get_current tenant today tq in (tu_tokens u, tq1))"

definition quota_record :: "string \<Rightarrow> real \<Rightarrow> string \<Rightarrow> quota_tracker \<Rightarrow> quota_tracker" where
  "quota_record tenant tokens today tq =
     (if tokens \<le> 0 then tq
      else (let (u, tq1) = get_current tenant today tq
            in tq1\<lparr>tq_usage := od_mutate tenant (u\<lparr>tu_tokens := tu_tokens u + tokens\<rparr>) (tq_usage tq1)\<rparr>))"

definition quota_reset :: "quota_tracker \<Rightarrow> quota_tracker" where
  "quota_reset tq = tq\<lparr>tq_usage := []\<rparr>"

section \<open>The Redis tracker\<close>

definition lua_record_quota :: "'s redis \<Rightarrow> string \<Rightarrow> real \<Rightarrow> real \<Rightarrow> 's \<Rightarrow> real \<times> 's" where
  "lua_record_quota R key tokens ttl s =
     (let current = fst (r_incrby R key tokens s); s1 = snd (r_incrby R key tokens s)
      in (current, if current = tokens then r_expire R key ttl s1 else s1))"

definition quota_key :: "string \<Rightarrow> string \<Rightarrow> string" where
  "quota_key tenant today = ''gatekeeper:quota:'' @ tenant @ '':'' @ today"

definition redis_usage :: "'s redis \<Rightarrow> string \<Rightarrow> string \<Rightarrow> 's \<Rightarrow> int" where
  "redis_usage R tenant today s =
     (case r_get R s (quota_key tenant today) of None \<Rightarrow> 0 | Some v \<Rightarrow> \<lfloor>v\<rfloor>)"

definition redis_would_exceed ::
  "'s redis \<Rightarrow> fault \<Rightarrow> string \<Rightarrow> int \<Rightarrow> string \<Rightarrow> quota_tracker \<Rightarrow> 's \<Rightarrow> bool \<times> quota_tracker \<times> 's" where
  "redis_would_exceed R f tenant quota today fallback s =
     (if quota \<le> 0 then (False, fallback, s)
      else case redis_call f (\<lambda>s. (redis_usage R tenant today s, s)) s of
             (Some used, s1) \<Rightarrow> (used \<ge> quota, fallback, s1)
           | (None, s1) \<Rightarrow>
               (let (b, tq) = would_exceed tenant quota today fallback in (b, tq, s1)))"

definition redis_usage_today ::
  "'s redis \<Rightarrow> fault \<Rightarrow> string \<Rightarrow> string \<Rightarrow> quota_tracker \<Rightarrow> 's \<Rightarrow> real \<times> quota_tracker \<times> 's" where
  "redis_usage_today R f tenant today fallback s =
     (case redis_call f (\<lambda>s. (redis_usage R tenant today s, s)) s of
        (Some used, s1) \<Rightarrow> (of_int used, fallback, s1)
      | (None, s1) \<Rightarrow> (let (u, tq) = usage_today tenant today fallback in (u, tq, s1)))"

text \<open>Redis refuses to increment by a number that is not an integer, which raises in the client.\<close>

definition redis_record ::
  "'s redis \<Rightarrow> fault \<Rightarrow> string \<Rightarrow> real \<Rightarrow> string \<Rightarrow> real \<Rightarrow> quota_tracker \<Rightarrow> 's \<Rightarrow> quota_tracker \<times> 's" where
  "redis_record R f tenant tokens today second_of_day fallback s =
     (if tokens \<le> 0 then (fallback, s)
      else
        let ttl = of_int \<lfloor>seconds_until_utc_midnight second_of_day\<rfloor> + 86400;
            f' = (if of_int \<lfloor>tokens\<rfloor> = tokens then f else FaultBefore)
        in case redis_call f' (lua_record_quota R (quota_key tenant today) tokens ttl) s of
             (Some _, s1) \<Rightarrow> (fallback, s1)
           | (None, s1) \<Rightarrow> (quota_record tenant tokens today fallback, s1))"

definition redis_quota_reset ::
  "'s redis \<Rightarrow> nat option \<Rightarrow> quota_tracker \<Rightarrow> 's \<Rightarrow> quota_tracker \<times> 's" where
  "redis_quota_reset R failing fallback s =
     (quota_reset fallback, redis_purge R failing ''gatekeeper:quota:'' s)"

datatype quota_backend_impl = LocalQuota quota_tracker | RedisQuota quota_tracker

definition build_token_quota_tracker :: "bool \<Rightarrow> string option \<Rightarrow> nat \<Rightarrow> quota_backend_impl" where
  "build_token_quota_tracker client_given shared_client m =
     (if client_given then RedisQuota (tracker_init m)
      else if shared_client \<noteq> None then RedisQuota (tracker_init m)
      else LocalQuota (tracker_init m))"

section \<open>Reading the usage a provider reports\<close>

datatype quota_error = TypeError

text \<open>\<open>isinstance(v, int)\<close>: a \<open>bool\<close> is an \<open>int\<close> in Python.\<close>

fun is_int_value :: "json \<Rightarrow> bool" where
  "is_int_value (JInt _) = True"
| "is_int_value (JBool _) = True"
| "is_int_value _ = False"

fun num_value :: "json \<Rightarrow> real option" where
  "num_value (JInt i) = Some (of_int i)"
| "num_value (JBool b) = Some (if b then 1 else 0)"
| "num_value (JFloat r) = Some r"
| "num_value _ = None"

text \<open>\<open>v or 0\<close>, as a summand: a falsy value counts 0, a truthy non-number cannot be added.\<close>

definition or_zero :: "json \<Rightarrow> real option" where
  "or_zero v = (if truthy v then num_value v else Some 0)"

definition extract_total_tokens :: "json \<Rightarrow> (quota_error, real) res" where
  "extract_total_tokens usage =
     (case usage of
        JObj kvs \<Rightarrow>
          (let total = jget kvs ''total_tokens''; i = jget kvs ''input_tokens''; out = jget kvs ''output_tokens''
           in case (is_int_value total, num_value total) of
                (True, Some n) \<Rightarrow> Inr n
              | _ \<Rightarrow>
                  if is_int_value i \<or> is_int_value out
                  then (case (or_zero i, or_zero out) of
                          (Some a, Some b) \<Rightarrow> Inr (a + b) | _ \<Rightarrow> Inl TypeError)
                  else Inr 0)
      | _ \<Rightarrow> Inr 0)"

section \<open>The interface of a quota tracker\<close>

text \<open>A day of gateway traffic of one tenant: a call is admitted by \<open>would_exceed\<close> and, any time
  later, finishes and records what it used. \<open>flight\<close> counts the admitted, unfinished calls.\<close>

datatype quota_event = Admit | Finish real

locale quota_backend =
  fixes exceeds :: "string \<Rightarrow> int \<Rightarrow> string \<Rightarrow> 'st \<Rightarrow> bool \<times> 'st"
    and rec :: "string \<Rightarrow> real \<Rightarrow> string \<Rightarrow> 'st \<Rightarrow> 'st"
    and used :: "'st \<Rightarrow> string \<Rightarrow> string \<Rightarrow> real"
    and room :: "string set \<Rightarrow> 'st \<Rightarrow> bool"
  assumes exceeds_answer: "room I st \<Longrightarrow> t \<in> I \<Longrightarrow>
      fst (exceeds t q d st) \<longleftrightarrow> 0 < q \<and> of_int q \<le> used st t d"
    and exceeds_used: "room I st \<Longrightarrow> t \<in> I \<Longrightarrow> used (snd (exceeds t q d st)) t' d = used st t' d"
    and exceeds_room: "room I st \<Longrightarrow> t \<in> I \<Longrightarrow> room I (snd (exceeds t q d st))"
    and rec_used: "room I st \<Longrightarrow> t \<in> I \<Longrightarrow>
      used (rec t (of_int n) d st) t' d = used st t' d + (if t' = t \<and> 0 < n then of_int n else 0)"
    and rec_room: "room I st \<Longrightarrow> t \<in> I \<Longrightarrow> room I (rec t (of_int n) d st)"

text \<open>The gateway's discipline over a backend; \<open>k\<close> bounds the calls in flight.\<close>

fun quota_run ::
  "(string \<Rightarrow> int \<Rightarrow> string \<Rightarrow> 'st \<Rightarrow> bool \<times> 'st) \<Rightarrow> (string \<Rightarrow> real \<Rightarrow> string \<Rightarrow> 'st \<Rightarrow> 'st)
   \<Rightarrow> string \<Rightarrow> int \<Rightarrow> string \<Rightarrow> nat \<Rightarrow> (string \<times> quota_event) list \<Rightarrow> 'st \<times> nat \<Rightarrow> 'st \<times> nat" where
  "quota_run ex rc t q d k [] c = c"
| "quota_run ex rc t q d k ((t', Admit) # es) (st, flight) =
     quota_run ex rc t q d k es
       (if t' = t then (if flight < k then (snd (ex t q d st), if fst (ex t q d st) then flight else Suc flight)
                        else (st, flight))
        else (snd (ex t' q d st), flight))"
| "quota_run ex rc t q d k ((t', Finish n) # es) (st, flight) =
     quota_run ex rc t q d k es
       (if t' = t then (if 0 < flight then (rc t n d st, flight - 1) else (st, flight))
        else (rc t' n d st, flight))"

context quota_backend
begin

lemma quota_run_overshoot:
  assumes "room I st" and "t \<in> I" and "fst ` set es \<subseteq> I" and "0 < q" and "0 \<le> M"
    and "\<forall>t' e. (t', e) \<in> set es \<longrightarrow> (case e of Admit \<Rightarrow> True | Finish n \<Rightarrow> (\<exists>j. n = of_int j) \<and> n \<le> M)"
    and "used st t d + real flight * M < of_int q + real k * M"
  shows "(let (st', flight') = quota_run exceeds rec t q d k es (st, flight)
          in used st' t d + real flight' * M < of_int q + real k * M)"
  using assms
proof (induction es arbitrary: st flight)
  case (Cons ev es)
  obtain t' e where ev: "ev = (t', e)" by (cases ev)
  with Cons.prems have t': "t' \<in> I" and sub: "fst ` set es \<subseteq> I"
    and rest: "\<forall>t' e. (t', e) \<in> set es \<longrightarrow>
      (case e of Admit \<Rightarrow> True | Finish n \<Rightarrow> (\<exists>j. n = of_int j) \<and> n \<le> M)" by auto
  note IH = Cons.IH [OF _ Cons.prems(2) sub Cons.prems(4,5) rest]
  note ex = exceeds_used [OF Cons.prems(1) t'] exceeds_answer [OF Cons.prems(1) t']
  show ?case
  proof (cases e)
    case Admit
    show ?thesis
    proof (cases "t' = t \<and> flight < k \<and> \<not> fst (exceeds t q d st)")
      case True
      then have "used st t d < of_int q" using ex(2) Cons.prems(4) by force
      moreover have "real (Suc flight) * M \<le> real k * M"
        using True Cons.prems(5) by (intro mult_right_mono) auto
      ultimately show ?thesis
        using IH [OF exceeds_room [OF Cons.prems(1) t']] True ev Admit ex(1)
        by (simp add: algebra_simps)
    next
      case False
      then show ?thesis
        using IH [OF exceeds_room [OF Cons.prems(1) t'], of q d flight] IH [OF Cons.prems(1)] Cons.prems(7) ev Admit ex(1) [of q d t]
        by auto
    qed
  next
    case (Finish n)
    with Cons.prems(6) ev obtain j where n: "n = of_int j" "n \<le> M" by force
    note rc = rec_used [OF Cons.prems(1) t', of j] rec_room [OF Cons.prems(1) t', of j]
    show ?thesis
    proof (cases "t' = t \<and> 0 < flight")
      case True
      then have "real (flight - 1) * M = real flight * M - M"
        by (cases flight) (auto simp: algebra_simps)
      then show ?thesis
        using IH [OF rc(2)] rc(1) Cons.prems(5,7) True ev Finish n by (simp split: if_splits)
    next
      case False
      then show ?thesis
        using IH [OF rc(2), of d flight] IH [OF Cons.prems(1), of flight] rc(1) Cons.prems(7) ev Finish n by auto
    qed
  qed
qed simp

end

section \<open>The local tracker provides the interface\<close>

definition local_used :: "quota_tracker \<Rightarrow> string \<Rightarrow> string \<Rightarrow> real" where
  "local_used tq t d =
     (case map_of (tq_usage tq) t of None \<Rightarrow> 0 | Some u \<Rightarrow> if tu_day u = d then tu_tokens u else 0)"

definition tracker_room :: "string set \<Rightarrow> quota_tracker \<Rightarrow> bool" where
  "tracker_room I tq \<longleftrightarrow> key_room I (tq_max tq) (tq_usage tq)"

lemma get_current_facts:
  assumes "tracker_room I tq" and "t \<in> I"
  shows "tu_tokens (fst (get_current t d tq)) = local_used tq t d"
    and "map_of (tq_usage (snd (get_current t d tq))) t = Some (fst (get_current t d tq))"
    and "tu_day (fst (get_current t d tq)) = d"
    and "local_used (snd (get_current t d tq)) t' d = local_used tq t' d"
    and "tracker_room I (snd (get_current t d tq))"
proof -
  note rm = assms(1) [unfolded tracker_room_def]
  note sets = key_room_set [OF rm assms(2)]
  show "tu_tokens (fst (get_current t d tq)) = local_used tq t d"
    "map_of (tq_usage (snd (get_current t d tq))) t = Some (fst (get_current t d tq))"
    "tu_day (fst (get_current t d tq)) = d"
    "local_used (snd (get_current t d tq)) t' d = local_used tq t' d"
    by (auto simp: get_current_def local_used_def Let_def od_simps sets(2) split: option.splits)
  show "tracker_room I (snd (get_current t d tq))"
    using rm sets by (auto simp: get_current_def tracker_room_def Let_def split: option.splits
        intro!: key_room_keep)
qed

interpretation local_tq: quota_backend would_exceed quota_record local_used tracker_room
proof unfold_locales
  fix I :: "string set" and st :: quota_tracker and t t' d :: string and q n :: int
  assume a: "tracker_room I st" "t \<in> I"
  note gc = get_current_facts [OF a]
  show "fst (would_exceed t q d st) \<longleftrightarrow> 0 < q \<and> of_int q \<le> local_used st t d"
    by (auto simp: would_exceed_def case_prod_beta gc(1))
  show "local_used (snd (would_exceed t q d st)) t' d = local_used st t' d"
    by (auto simp: would_exceed_def case_prod_beta gc(4))
  show "tracker_room I (snd (would_exceed t q d st))"
    using a gc(5) by (auto simp: would_exceed_def case_prod_beta)
  show "local_used (quota_record t (of_int n) d st) t' d
      = local_used st t' d + (if t' = t \<and> 0 < n then of_int n else 0)"
    using gc(1-4) [of d] gc(4) [of d t']
    by (auto simp: quota_record_def case_prod_beta local_used_def od_simps split: option.splits)
  show "tracker_room I (quota_record t (of_int n) d st)"
    using a gc(5) [of d] by (auto simp: quota_record_def case_prod_beta tracker_room_def intro: key_room_keep)
qed

section \<open>So does the Redis key of the day\<close>

definition key_exceeds :: "'s redis \<Rightarrow> string \<Rightarrow> int \<Rightarrow> string \<Rightarrow> 's \<Rightarrow> bool \<times> 's" where
  "key_exceeds R t q d s =
     (let r = redis_would_exceed R NoFault t q d (tracker_init 0) s in (fst r, snd (snd r)))"

definition key_record :: "'s redis \<Rightarrow> string \<Rightarrow> real \<Rightarrow> string \<Rightarrow> 's \<Rightarrow> 's" where
  "key_record R t n d s = snd (redis_record R NoFault t n d 0 (tracker_init 0) s)"

lemma quota_key_inj [simp]: "quota_key t d = quota_key t' d \<longleftrightarrow> t = t'"
  by (simp add: quota_key_def)

sublocale redis_kv \<subseteq> tq: quota_backend "key_exceeds R" "key_record R"
    "\<lambda>s t d. of_int (redis_usage R t d s)" "\<lambda>I s. True"
  by unfold_locales
     (auto simp: key_exceeds_def key_record_def redis_would_exceed_def redis_record_def redis_usage_def
        lua_record_quota_def kv_simps Let_def seconds_until_utc_midnight_def split: option.splits)

context redis_kv
begin

lemmas key_overshoot = tq.quota_run_overshoot [OF TrueI UNIV_I subset_UNIV]

end

section \<open>Properties\<close>

text \<open>A tenant's recorded use on a day stays below its quota plus what the calls still
  in flight may add: with at most \<open>k\<close> calls of the tenant in flight and at most \<open>M\<close> tokens per
  call, the local tracker never shows \<open>quota + k * M\<close> tokens or more, however the calls of this
  and of other tenants interleave.\<close>

theorem local_quota_overshoot:
  assumes "0 < q" and "0 \<le> M" and "card (insert t (fst ` set es)) \<le> m"
    and "\<forall>t' e. (t', e) \<in> set es \<longrightarrow> (case e of Admit \<Rightarrow> True | Finish n \<Rightarrow> (\<exists>j. n = of_int j) \<and> n \<le> M)"
  shows "local_used (fst (quota_run would_exceed quota_record t q d k es (tracker_init m, 0))) t d
    < of_int q + real k * M"
proof -
  have room: "tracker_room (insert t (fst ` set es)) (tracker_init m)"
    using assms(3) by (simp add: tracker_room_def key_room_def tracker_init_def)
  obtain tq fl where run: "quota_run would_exceed quota_record t q d k es (tracker_init m, 0) = (tq, fl)"
    by fastforce
  have "local_used tq t d + real fl * M < of_int q + real k * M"
    using local_tq.quota_run_overshoot [OF room insertI1 subset_insertI assms(1,2,4), of d 0 k] assms(1,2) run
    by (auto simp: local_used_def tracker_init_def add_pos_nonneg)
  moreover have "0 \<le> real fl * M" using assms(2) by simp
  ultimately show ?thesis unfolding run by simp
qed

theorem local_quota_overshoot_witness:
  "local_used (fst (quota_run would_exceed quota_record ''t'' 10 ''d'' 2
      [(''t'', Admit), (''t'', Admit), (''u'', Admit), (''t'', Finish 9), (''t'', Finish 9), (''t'', Admit)]
      (tracker_init 5, 0))) ''t'' ''d'' < of_int 10 + real 2 * 9"
proof (rule local_quota_overshoot)
  show "\<forall>t' e. (t', e) \<in> set [(''t'', Admit), (''t'', Admit), (''u'', Admit), (''t'', Finish 9),
      (''t'', Finish 9), (''t'', Admit)] \<longrightarrow>
      (case e of Admit \<Rightarrow> True | Finish n \<Rightarrow> (\<exists>j. n = of_int j) \<and> n \<le> 9)"
    by (auto intro: exI [of _ 9])
qed (auto simp: card_insert_if)

text \<open>The same bound holds over all replicas together when they share the Redis key of
  the day, because every record is one atomic increment.\<close>

theorem redis_quota_overshoot:
  assumes "redis_kv R" and "0 < q" and "0 \<le> M" and "r_get R s (quota_key t d) = None"
    and "\<forall>t' e. (t', e) \<in> set es \<longrightarrow> (case e of Admit \<Rightarrow> True | Finish n \<Rightarrow> (\<exists>j. n = of_int j) \<and> n \<le> M)"
  shows "of_int (redis_usage R t d (fst (quota_run (key_exceeds R) (key_record R) t q d k es (s, 0))))
    < of_int q + real k * M"
proof -
  obtain s' fl where run: "quota_run (key_exceeds R) (key_record R) t q d k es (s, 0) = (s', fl)"
    by fastforce
  have "of_int (redis_usage R t d s') + real fl * M < of_int q + real k * M"
    using redis_kv.key_overshoot [OF assms(1,2,3,5), where st = s and t = t and d = d and flight = 0 and k = k] assms(2,3,4) run
    by (auto simp: redis_usage_def add_pos_nonneg)
  moreover have "0 \<le> real fl * M" using assms(3) by simp
  ultimately show ?thesis unfolding run by simp
qed

theorem redis_quota_overshoot_witness:
  "of_int (redis_usage ref_redis ''t'' ''d'' (fst (quota_run (key_exceeds ref_redis) (key_record ref_redis)
      ''t'' 10 ''d'' 2 [(''t'', Admit), (''t'', Admit), (''t'', Finish 9), (''t'', Finish 9), (''t'', Admit)]
      (empty_server 0, 0)))) < (of_int 10 + real 2 * 9 :: real)"
proof (rule redis_quota_overshoot [OF ref.redis_kv_axioms])
  show "\<forall>t' e. (t', e) \<in> set [(''t'', Admit), (''t'', Admit), (''t'', Finish 9), (''t'', Finish 9),
      (''t'', Admit)] \<longrightarrow> (case e of Admit \<Rightarrow> True | Finish n \<Rightarrow> (\<exists>j. n = of_int j) \<and> n \<le> 9)"
    by (auto intro: exI [of _ 9])
qed (simp_all add: ref_redis_def empty_server_def)

text \<open>The first look at a tenant on a new UTC day starts from zero whatever was used the
  day before, and the old count cannot come back even if the clock steps back.\<close>

theorem quota_rolls_over:
  assumes "map_of (tq_usage tq) t = Some u" and "tu_day u \<noteq> d" and "0 < q"
    and "tracker_room I tq" and "t \<in> I"
  shows "\<not> fst (would_exceed t q d tq) \<and> local_used (snd (would_exceed t q d tq)) t (tu_day u) = 0"
  using local_tq.exceeds_answer [OF assms(4,5), of q d] get_current_facts(2,3) [OF assms(4,5), of d] assms(1-3)
  by (auto simp: local_used_def would_exceed_def case_prod_beta)

theorem quota_rolls_over_witness:
  "\<not> fst (would_exceed ''t'' 5 ''2024-01-02''
      \<lparr>tq_max = 1, tq_usage = [(''t'', \<lparr>tu_day = ''2024-01-01'', tu_tokens = 50\<rparr>)]\<rparr>)"
  using quota_rolls_over [of "\<lparr>tq_max = 1, tq_usage = [(''t'', \<lparr>tu_day = ''2024-01-01'', tu_tokens = 50\<rparr>)]\<rparr>"
      "''t''" "\<lparr>tu_day = ''2024-01-01'', tu_tokens = 50\<rparr>" "''2024-01-02''" 5 "{''t''}"]
  by (simp add: tracker_room_def key_room_def od_wf_def)

text \<open>Reading a provider's usage report raises in exactly one situation, which its
  docstring says does not exist: no integer total, one side an integer and the other side a
  truthy value that is not a number. Every other report yields a number.\<close>

theorem extract_total_tokens_raises_iff:
  "extract_total_tokens usage = Inl TypeError \<longleftrightarrow>
     is_obj usage \<and> \<not> is_int_value (jget (obj_items usage) ''total_tokens'') \<and>
     (is_int_value (jget (obj_items usage) ''input_tokens'') \<and>
        truthy (jget (obj_items usage) ''output_tokens'') \<and> num_value (jget (obj_items usage) ''output_tokens'') = None \<or>
      is_int_value (jget (obj_items usage) ''output_tokens'') \<and>
        truthy (jget (obj_items usage) ''input_tokens'') \<and> num_value (jget (obj_items usage) ''input_tokens'') = None)"
proof (cases usage)
  case (JObj kvs)
  have num: "is_int_value v \<Longrightarrow> num_value v \<noteq> None" for v
    by (cases v) auto
  show ?thesis
    unfolding JObj
    using num [of "jget kvs ''total_tokens''"] num [of "jget kvs ''input_tokens''"] num [of "jget kvs ''output_tokens''"]
    by (auto simp: extract_total_tokens_def or_zero_def Let_def split: option.splits bool.splits)
qed (simp_all add: extract_total_tokens_def)

end
