(* ===== verification/Audit_Trail.thy ===== *)
theory Audit_Trail
  imports Assess_Result
    "HOL-Library.Char_ord" "HOL-Library.List_Lexorder" "HOL-Library.Product_Lexorder"
begin

text \<open>
  core/logger.py and core/audit_store.py: the four kinds of audit record, the append-only JSONL file
  they are written to, and the SQLite store that mirrors it.

  A record is the dictionary the code builds. The clock, SHA-256 and the text encodings of JSON
  (\<open>json.dumps\<close> and \<open>json.loads\<close>) are arguments. A write to the file is a \<open>logging\<close> call: its handler
  reports an \<open>OSError\<close> on stderr and returns, so a failed write leaves the file as it was and raises
  nothing. A write to the store either inserts the row or raises. A table is the list of its rows in
  the order of their ids.
\<close>

type_synonym log_entry = "(string \<times> json) list"

section \<open>The records\<close>

definition log_event ::
  "string \<Rightarrow> (string \<Rightarrow> string) \<Rightarrow> string \<Rightarrow> string \<Rightarrow> string \<Rightarrow> string \<Rightarrow> (string \<times> json) list \<Rightarrow> log_entry" where
  "log_event now sha capability prompt risk decision metadata =
     [(''timestamp'', JStr now), (''event_type'', JStr ''input_assessment''),
      (''request_id'', jget_default metadata ''request_id'' (JStr ''unset'')),
      (''tenant'', jget_default metadata ''tenant'' (JStr ''unset'')),
      (''capability'', JStr capability), (''risk'', JStr risk), (''decision'', JStr decision),
      (''prompt_hash'', JStr (sha prompt)),
      (''semantic_score'', jget_default metadata ''semantic_score'' (JFloat 0)),
      (''source'', jget_default metadata ''source'' (JStr ''unknown'')),
      (''educational_context'', jget_default metadata ''educational_context'' (JBool False)),
      (''domain_score'', jget_default metadata ''domain_score'' JNull),
      (''symbolic_triggered'', jget_default metadata ''symbolic_triggered'' (JBool False)),
      (''judge_invoked'', jget_default metadata ''judge_invoked'' (JBool False))]"

definition log_output_event ::
  "string \<Rightarrow> (string \<Rightarrow> string) \<Rightarrow> string \<Rightarrow> string \<Rightarrow> string \<Rightarrow> (string \<times> json) list \<Rightarrow> string \<Rightarrow> string \<Rightarrow> log_entry" where
  "log_output_event now sha capability response_text decision metadata tenant request_id =
     [(''timestamp'', JStr now), (''event_type'', JStr ''output_assessment''),
      (''request_id'', JStr request_id), (''tenant'', JStr tenant), (''capability'', JStr capability),
      (''decision'', JStr decision), (''response_hash'', JStr (sha response_text)),
      (''pii_leakage'', jget_default metadata ''pii_leakage'' (JBool False)),
      (''secrets_detected'', jget_default metadata ''secrets_detected'' (JBool False)),
      (''toxicity_detected'', jget_default metadata ''toxicity_detected'' (JBool False)),
      (''hallucination_detected'', jget_default metadata ''hallucination_detected'' (JBool False)),
      (''system_prompt_leak_detected'', jget_default metadata ''system_prompt_leak_detected'' (JBool False)),
      (''source'', jget_default metadata ''source'' (JStr ''unknown''))]"

definition log_gateway_event ::
  "string \<Rightarrow> string \<Rightarrow> string \<Rightarrow> json \<Rightarrow> bool \<Rightarrow> real \<Rightarrow> string \<Rightarrow> json \<Rightarrow> string option \<Rightarrow> string \<Rightarrow> string \<Rightarrow> log_entry" where
  "log_gateway_event now capability provider model success latency_ms decision usage error tenant request_id =
     [(''timestamp'', JStr now), (''event_type'', JStr ''gateway_call''),
      (''request_id'', JStr request_id), (''tenant'', JStr tenant), (''capability'', JStr capability),
      (''provider'', JStr provider), (''model'', model), (''success'', JBool success),
      (''latency_ms'', JFloat latency_ms), (''decision'', JStr decision), (''usage'', usage),
      (''error'', jopt JStr error)]"

text \<open>\<open>canonical\<close>: \<open>json.dumps(arguments, sort_keys=True, default=str)\<close>.\<close>

definition log_tool_event ::
  "string \<Rightarrow> (string \<Rightarrow> string) \<Rightarrow> (json \<Rightarrow> string) \<Rightarrow> string \<Rightarrow> string \<Rightarrow> string \<Rightarrow> string option \<Rightarrow> string
   \<Rightarrow> json option \<Rightarrow> bool option \<Rightarrow> string option \<Rightarrow> string \<Rightarrow> string \<Rightarrow> log_entry" where
  "log_tool_event now sha canonical capability tool_name decision risk_level reason arguments success error tenant request_id =
     [(''timestamp'', JStr now), (''event_type'', JStr ''tool_call''),
      (''request_id'', JStr request_id), (''tenant'', JStr tenant), (''capability'', JStr capability),
      (''tool'', JStr tool_name), (''decision'', JStr decision), (''risk_level'', jopt JStr risk_level),
      (''reason'', JStr reason), (''arguments_hash'', jopt (\<lambda>a. JStr (sha (canonical a))) arguments),
      (''success'', jopt JBool success), (''error'', jopt JStr error)]"

section \<open>The SQLite store\<close>

type_synonym db_row = "(string \<times> json) list"
type_synonym audit_db = "string \<Rightarrow> db_row list"

definition COLUMNS :: "(string \<times> string list) list" where
  "COLUMNS =
     [(''input_assessment'', [''timestamp'', ''request_id'', ''tenant'', ''capability'', ''risk'', ''decision'',
         ''prompt_hash'', ''semantic_score'', ''source'', ''educational_context'', ''domain_score'',
         ''symbolic_triggered'', ''judge_invoked'']),
      (''output_assessment'', [''timestamp'', ''request_id'', ''tenant'', ''capability'', ''decision'',
         ''response_hash'', ''pii_leakage'', ''secrets_detected'', ''toxicity_detected'',
         ''hallucination_detected'', ''system_prompt_leak_detected'', ''source'']),
      (''gateway_call'', [''timestamp'', ''request_id'', ''tenant'', ''capability'', ''provider'', ''model'',
         ''success'', ''latency_ms'', ''decision'', ''usage_json'', ''error'']),
      (''tool_call'', [''timestamp'', ''request_id'', ''tenant'', ''capability'', ''tool'', ''decision'',
         ''risk_level'', ''reason'', ''arguments_hash'', ''success'', ''error''])]"

definition BOOL_COLUMNS :: "string list" where
  "BOOL_COLUMNS = [''educational_context'', ''symbolic_triggered'', ''judge_invoked'', ''pii_leakage'',
     ''secrets_detected'', ''toxicity_detected'', ''hallucination_detected'',
     ''system_prompt_leak_detected'', ''success'']"

definition coerce_cell :: "(json \<Rightarrow> string) \<Rightarrow> log_entry \<Rightarrow> string \<Rightarrow> json" where
  "coerce_cell dumps entry col =
     (if col = ''usage_json''
      then (let usage = jget entry ''usage'' in if usage \<noteq> JNull then JStr (dumps usage) else JNull)
      else if col \<in> set BOOL_COLUMNS
      then (let v = jget entry col in if v = JNull then JNull else JInt (if truthy v then 1 else 0))
      else jget entry col)"

definition coerce_row :: "(json \<Rightarrow> string) \<Rightarrow> string list \<Rightarrow> log_entry \<Rightarrow> db_row" where
  "coerce_row dumps cols entry = map (\<lambda>col. (col, coerce_cell dumps entry col)) cols"

definition db_write :: "(json \<Rightarrow> string) \<Rightarrow> string \<Rightarrow> log_entry \<Rightarrow> audit_db \<Rightarrow> audit_db" where
  "db_write dumps event_type entry db =
     (case map_of COLUMNS event_type of
        Some cols \<Rightarrow> db(event_type := db event_type @ [coerce_row dumps cols entry])
      | None \<Rightarrow> db(''legacy_event'' := db ''legacy_event'' @
          [[(''timestamp'', jget entry ''timestamp''), (''request_id'', jget entry ''request_id''),
            (''tenant'', jget entry ''tenant''), (''raw_json'', JStr (dumps (JObj entry)))]]))"

definition setdefault :: "string \<Rightarrow> json \<Rightarrow> (string \<times> json) list \<Rightarrow> (string \<times> json) list" where
  "setdefault k v kvs = (if map_of kvs k = None then kvs @ [(k, v)] else kvs)"

definition or_else :: "json \<Rightarrow> json \<Rightarrow> json" where
  "or_else v d = (if truthy v then v else d)"

text \<open>The normalisation both readers of the trail apply to a record.\<close>

definition with_defaults :: "json \<Rightarrow> (string \<times> json) list \<Rightarrow> (string \<times> json) list" where
  "with_defaults tenant rec =
     setdefault ''capability'' (JStr ''unset'')
       (setdefault ''tenant'' tenant
         (od_set ''event_type'' (or_else (jget rec ''event_type'') (JStr ''legacy'')) rec))"

definition decode_cell :: "string \<times> json \<Rightarrow> string \<times> json" where
  "decode_cell kv = (case kv of (k, v) \<Rightarrow>
     if k \<in> set BOOL_COLUMNS \<and> v \<noteq> JNull then (k, JBool (truthy v)) else (k, v))"

definition decode_text :: "(string \<Rightarrow> json) \<Rightarrow> json \<Rightarrow> json" where
  "decode_text loads raw = (case raw of JStr s \<Rightarrow> if s = [] then JNull else loads s | _ \<Rightarrow> JNull)"

definition row_to_record :: "(string \<Rightarrow> json) \<Rightarrow> string \<Rightarrow> db_row \<Rightarrow> log_entry" where
  "row_to_record loads event_type row =
     (let rec1 = map decode_cell ((''event_type'', JStr event_type) # row);
          rec2 = (case map_of rec1 ''usage_json'' of
                    None \<Rightarrow> rec1
                  | Some raw \<Rightarrow> od_set ''usage'' (decode_text loads raw) (od_del ''usage_json'' rec1))
      in if jget rec2 ''event_type'' = JStr ''legacy'' \<and> truthy (jget rec2 ''raw_json'')
         then with_defaults (or_else (jget rec2 ''tenant'') (JStr ''unset''))
                (obj_items (decode_text loads (jget rec2 ''raw_json'')))
         else with_defaults (JStr ''unset'') (od_del ''raw_json'' rec2))"

definition sql_match :: "string \<Rightarrow> string option \<Rightarrow> db_row \<Rightarrow> bool" where
  "sql_match col wanted row = (case wanted of None \<Rightarrow> True | Some t \<Rightarrow> jget row col = JStr t)"

text \<open>The default value of the \<open>event_type\<close> column, by table.\<close>

definition TABLES :: "(string \<times> string) list" where
  "TABLES = [(''input_assessment'', ''input_assessment''), (''output_assessment'', ''output_assessment''),
     (''gateway_call'', ''gateway_call''), (''tool_call'', ''tool_call''), (''legacy'', ''legacy_event'')]"

definition text_of :: "json \<Rightarrow> string" where
  "text_of v = (case v of JStr s \<Rightarrow> s | _ \<Rightarrow> [])"

definition record_key :: "log_entry \<Rightarrow> string \<times> string" where
  "record_key r = (text_of (jget r ''timestamp''), text_of (jget r ''event_type''))"

text \<open>\<open>sort(key=..., reverse=True)\<close>, which keeps the order of records with equal keys.\<close>

definition recent ::
  "(string \<Rightarrow> json) \<Rightarrow> int \<Rightarrow> string option \<Rightarrow> string list option \<Rightarrow> audit_db \<Rightarrow> log_entry list" where
  "recent loads limit tenant event_types db =
     (let n = nat (max 1 (min limit 200));
          wanted = (\<lambda>et. case event_types of None \<Rightarrow> True | Some ets \<Rightarrow> ets = [] \<or> et \<in> set ets);
          rows = concat (map (\<lambda>(et, table). if wanted et
                   then map (row_to_record loads et) (take n (rev (filter (sql_match ''tenant'' tenant) (db table))))
                   else []) TABLES)
      in take n (rev (sort_key record_key (rev rows))))"

definition by_request_id ::
  "(string \<Rightarrow> json) \<Rightarrow> string \<Rightarrow> string option \<Rightarrow> audit_db \<Rightarrow> log_entry list" where
  "by_request_id loads request_id tenant db =
     sort_key record_key (concat (map (\<lambda>(et, table).
       map (row_to_record loads et)
         (filter (\<lambda>row. sql_match ''request_id'' (Some request_id) row \<and> sql_match ''tenant'' tenant row) (db table))) TABLES))"

section \<open>Writing a record\<close>

record audit_settings =
  as_sqlite_enabled :: bool
  as_read_from_sqlite :: bool
  as_fails_closed :: bool

record audit_trail =
  at_jsonl :: "log_entry list"
  at_db :: audit_db

text \<open>What the two writes of one record meet: \<open>True\<close> when the medium takes it.\<close>

record write_outcome =
  wo_jsonl :: bool
  wo_sqlite :: bool

datatype audit_error = StoreError

definition mirror_to_sqlite ::
  "audit_settings \<Rightarrow> (json \<Rightarrow> string) \<Rightarrow> write_outcome \<Rightarrow> string \<Rightarrow> log_entry \<Rightarrow> audit_trail
   \<Rightarrow> (audit_error, unit) res \<times> audit_trail" where
  "mirror_to_sqlite S dumps w event_type entry t =
     (if \<not> as_sqlite_enabled S then (Inr (), t)
      else if wo_sqlite w then (Inr (), t\<lparr>at_db := db_write dumps event_type entry (at_db t)\<rparr>)
      else if as_read_from_sqlite S then (Inl StoreError, t)
      else (Inr (), t))"

definition emit_record ::
  "audit_settings \<Rightarrow> (json \<Rightarrow> string) \<Rightarrow> write_outcome \<Rightarrow> log_entry \<Rightarrow> audit_trail
   \<Rightarrow> (audit_error, unit) res \<times> audit_trail" where
  "emit_record S dumps w entry t =
     (let t1 = (if wo_jsonl w then t\<lparr>at_jsonl := at_jsonl t @ [entry]\<rparr> else t)
      in mirror_to_sqlite S dumps w (text_of (jget entry ''event_type'')) entry t1)"

section \<open>A run of writes\<close>

fun emit_run ::
  "audit_settings \<Rightarrow> (json \<Rightarrow> string) \<Rightarrow> (write_outcome \<times> log_entry) list \<Rightarrow> audit_trail \<Rightarrow> audit_trail" where
  "emit_run S dumps [] t = t"
| "emit_run S dumps ((w, e) # es) t = emit_run S dumps es (snd (emit_record S dumps w e t))"

section \<open>The store returns what was written\<close>

text \<open>A value that survives the trip through an \<open>INTEGER\<close> column.\<close>

fun flag_value :: "json \<Rightarrow> bool" where
  "flag_value JNull = True"
| "flag_value (JBool _) = True"
| "flag_value _ = False"

definition flags_ok :: "string list \<Rightarrow> (string \<times> json) list \<Rightarrow> bool" where
  "flags_ok ks metadata \<longleftrightarrow> list_all (\<lambda>k. flag_value (jget metadata k)) ks"

definition mirrored :: "(json \<Rightarrow> string) \<Rightarrow> (string \<Rightarrow> json) \<Rightarrow> log_entry \<Rightarrow> bool" where
  "mirrored dumps loads e \<longleftrightarrow>
     (let et = text_of (jget e ''event_type'')
      in case map_of COLUMNS et of
           None \<Rightarrow> False
         | Some cols \<Rightarrow> map_of (row_to_record loads et (coerce_row dumps cols e)) = map_of e
             \<and> map_of e ''request_id'' \<noteq> None \<and> map_of e ''tenant'' \<noteq> None)"

lemma flag_defaults: "flags_ok ks m \<Longrightarrow> k \<in> set ks \<Longrightarrow> flag_value (jget_default m k (JBool False))"
  by (force simp: flags_ok_def list_all_iff jget_def jget_default_def split: option.splits)

lemma flag_trip:
  "(c \<in> set BOOL_COLUMNS \<longrightarrow> flag_value (jget e c)) \<Longrightarrow> c \<noteq> ''usage_json'' \<Longrightarrow>
   decode_cell (c, coerce_cell dumps e c) = (c, jget e c)"
  by (cases "jget e c") (auto simp: decode_cell_def coerce_cell_def)

lemma map_of_graph: "map_of (map (\<lambda>c. (c, f c)) cs) c = (if c \<in> set cs then Some (f c) else None)"
  by (induction cs) auto

lemma row_to_record_plain:
  assumes "flags_ok (filter (\<lambda>c. c \<in> set BOOL_COLUMNS) cols) e"
    and "{''tenant'', ''capability''} \<subseteq> set cols" and "{''usage_json'', ''raw_json'', ''event_type''} \<inter> set cols = {}"
    and "et \<noteq> []"
  shows "row_to_record loads et (coerce_row dumps cols e) = (''event_type'', JStr et) # map (\<lambda>c. (c, jget e c)) cols"
proof -
  have "map decode_cell (coerce_row dumps cols e) = map (\<lambda>c. (c, jget e c)) cols"
    using assms(1,3) by (auto simp: coerce_row_def flags_ok_def list_all_iff intro!: flag_trip)
  moreover have "decode_cell (''event_type'', JStr et) = (''event_type'', JStr et)"
    by (simp add: decode_cell_def BOOL_COLUMNS_def)
  moreover have "filter (\<lambda>c. c \<noteq> ''raw_json'') cols = cols"
    using assms(3) by (auto simp: filter_id_conv)
  ultimately show ?thesis
    using assms(2-4)
    by (simp add: row_to_record_def Let_def map_of_graph jget_def with_defaults_def setdefault_def od_del_def
        or_else_def filter_map comp_def)
qed

lemma jget_Some: "map_of e k = Some v \<Longrightarrow> jget e k = v"
  by (simp add: jget_def)

text \<open>An entry with exactly the columns of its table comes back unchanged.\<close>

lemma mirrored_plain:
  assumes et: "map_of e ''event_type'' = Some (JStr et)" "map_of COLUMNS et = Some cols"
    and "flags_ok (filter (\<lambda>c. c \<in> set BOOL_COLUMNS) cols) e"
    and "{''request_id'', ''tenant'', ''capability''} \<subseteq> set cols" "{''usage_json'', ''raw_json'', ''event_type''} \<inter> set cols = {}"
    and keys: "fst ` set e = insert ''event_type'' (set cols)"
  shows "mirrored dumps loads e"
proof -
  have "et \<noteq> []" using et(2) by (auto simp: COLUMNS_def)
  with assms have row: "row_to_record loads et (coerce_row dumps cols e) = (''event_type'', JStr et) # map (\<lambda>c. (c, jget e c)) cols"
    by (intro row_to_record_plain) auto
  have "map_of ((''event_type'', JStr et) # map (\<lambda>c. (c, jget e c)) cols) k = map_of e k" for k
  proof -
    have "map_of e k \<noteq> None \<longleftrightarrow> k = ''event_type'' \<or> k \<in> set cols"
      using keys by (simp add: map_of_eq_None_iff)
    then show ?thesis
      using et(1) by (cases "map_of e k") (auto simp: map_of_graph jget_def)
  qed
  moreover have "map_of e ''request_id'' \<noteq> None" "map_of e ''tenant'' \<noteq> None"
    using assms(4) keys by (auto simp: map_of_eq_None_iff)
  ultimately show ?thesis
    using et row by (simp add: mirrored_def Let_def text_of_def jget_def fun_eq_iff)
qed

lemma columns_of:
  "map_of COLUMNS ''input_assessment'' = Some [''timestamp'', ''request_id'', ''tenant'', ''capability'', ''risk'', ''decision'',
         ''prompt_hash'', ''semantic_score'', ''source'', ''educational_context'', ''domain_score'',
         ''symbolic_triggered'', ''judge_invoked'']"
  "map_of COLUMNS ''output_assessment'' = Some [''timestamp'', ''request_id'', ''tenant'', ''capability'', ''decision'',
         ''response_hash'', ''pii_leakage'', ''secrets_detected'', ''toxicity_detected'',
         ''hallucination_detected'', ''system_prompt_leak_detected'', ''source'']"
  "map_of COLUMNS ''gateway_call'' = Some [''timestamp'', ''request_id'', ''tenant'', ''capability'', ''provider'', ''model'',
         ''success'', ''latency_ms'', ''decision'', ''usage_json'', ''error'']"
  "map_of COLUMNS ''tool_call'' = Some [''timestamp'', ''request_id'', ''tenant'', ''capability'', ''tool'', ''decision'',
         ''risk_level'', ''reason'', ''arguments_hash'', ''success'', ''error'']"
  by (simp_all add: COLUMNS_def)

lemma mirrored_tool:
  "mirrored dumps loads (log_tool_event now sha canonical capability tool_name decision risk reason arguments success error tenant request_id)"
  unfolding log_tool_event_def
  by (rule mirrored_plain [OF _ columns_of(4)])
    (simp_all add: BOOL_COLUMNS_def flags_ok_def jget_def jopt_def insert_commute split: option.splits)

lemma mirrored_input:
  assumes "flags_ok [''educational_context'', ''symbolic_triggered'', ''judge_invoked''] metadata"
  shows "mirrored dumps loads (log_event now sha capability prompt risk decision metadata)"
  unfolding log_event_def
  by (rule mirrored_plain [OF _ columns_of(1)])
    (simp_all add: BOOL_COLUMNS_def flags_ok_def jget_def flag_defaults [OF assms] insert_commute)

lemma mirrored_output:
  assumes "flags_ok [''pii_leakage'', ''secrets_detected'', ''toxicity_detected'', ''hallucination_detected'',
     ''system_prompt_leak_detected''] metadata"
  shows "mirrored dumps loads (log_output_event now sha capability text decision metadata tenant request_id)"
  unfolding log_output_event_def
  by (rule mirrored_plain [OF _ columns_of(2)])
    (simp_all add: BOOL_COLUMNS_def flags_ok_def jget_def flag_defaults [OF assms] insert_commute)

lemma mirrored_gateway:
  assumes "usage = JNull \<or> dumps usage \<noteq> [] \<and> loads (dumps usage) = usage"
  shows "mirrored dumps loads
    (log_gateway_event now capability provider model success latency decision usage error tenant request_id)"
proof -
  let ?e = "log_gateway_event now capability provider model success latency decision usage error tenant request_id"
  have "row_to_record loads ''gateway_call'' (coerce_row dumps (the (map_of COLUMNS ''gateway_call'')) ?e) =
     [(''event_type'', JStr ''gateway_call''), (''timestamp'', JStr now), (''request_id'', JStr request_id),
      (''tenant'', JStr tenant), (''capability'', JStr capability), (''provider'', JStr provider),
      (''model'', model), (''success'', JBool success), (''latency_ms'', JFloat latency),
      (''decision'', JStr decision), (''error'', jopt JStr error), (''usage'', usage)]" (is "_ = ?r")
    using assms
    by (auto simp: columns_of log_gateway_event_def row_to_record_def coerce_row_def coerce_cell_def decode_cell_def
        with_defaults_def setdefault_def od_del_def or_else_def decode_text_def BOOL_COLUMNS_def jget_def Let_def)
  moreover have "map_of ?r = map_of ?e"
    by (rule map_of_inject_set [THEN iffD2]) (simp_all add: log_gateway_event_def insert_commute)
  ultimately show ?thesis
    by (simp add: mirrored_def Let_def columns_of) (simp add: log_gateway_event_def columns_of text_of_def jget_def)
qed

section \<open>Properties\<close>



end
