(* ===== verification/LLM_Providers.thy ===== *)
theory LLM_Providers
  imports Prelude
begin

text \<open>
  core/llm_providers.py: the three provider back ends. A completion is split where the network is:
  \<open>provider_request\<close> builds the call or fails before it, \<open>provider_answer\<close> reads what came back.
  \<open>requests.post\<close> is the value of type \<open>http_result\<close>: a network error, or a status with the text of
  the body and its JSON value (\<open>None\<close> when \<open>response.json()\<close> raises \<open>ValueError\<close>).

  \<open>LLMProviderError\<close> is \<open>ProviderError\<close>; an exception of another class that leaves \<open>complete\<close> is
  \<open>Escaped\<close>.
\<close>

section \<open>Subscripts\<close>

datatype py_error = PyKeyError | PyIndexError | PyTypeError | PyAttributeError

text \<open>\<open>v[k]\<close> with a string key, and \<open>v[0]\<close>, on a decoded JSON value.\<close>

fun subscript :: "string \<Rightarrow> json \<Rightarrow> (py_error, json) res" where
  "subscript k (JObj kvs) = (case map_of kvs k of None \<Rightarrow> Inl PyKeyError | Some v \<Rightarrow> Inr v)"
| "subscript k _ = Inl PyTypeError"

fun first_item :: "json \<Rightarrow> (py_error, json) res" where
  "first_item (JList []) = Inl PyIndexError"
| "first_item (JList (v # vs)) = Inr v"
| "first_item (JStr []) = Inl PyIndexError"
| "first_item (JStr (c # cs)) = Inr (JStr [c])"
| "first_item (JObj kvs) = Inl PyKeyError"
| "first_item _ = Inl PyTypeError"

fun follow :: "(json \<Rightarrow> (py_error, json) res) list \<Rightarrow> json \<Rightarrow> (py_error, json) res" where
  "follow [] v = Inr v"
| "follow (f # fs) v = (case f v of Inl e \<Rightarrow> Inl e | Inr w \<Rightarrow> follow fs w)"

section \<open>Providers\<close>

record llm_settings =
  ls_ollama_url :: string
  ls_ollama_model :: string
  ls_openai_key :: string
  ls_openai_base :: string
  ls_openai_model :: string
  ls_anthropic_key :: string
  ls_anthropic_base :: string
  ls_anthropic_model :: string
  ls_anthropic_version :: string

datatype provider =
    OllamaProvider string string
  | OpenAICompatibleProvider string string string
  | AnthropicCompatibleProvider string string string string

definition rstrip_slash :: "string \<Rightarrow> string" where
  "rstrip_slash s = rev (dropWhile (\<lambda>c. c = CHR ''/'') (rev s))"

definition PROVIDER_NAMES :: "string list" where
  "PROVIDER_NAMES = [''ollama'', ''openai_compatible'', ''anthropic_compatible'']"

text \<open>\<open>None\<close> is the \<open>KeyError\<close> of an unknown name.\<close>

definition get_provider :: "llm_settings \<Rightarrow> string \<Rightarrow> provider option" where
  "get_provider S name = map_of
     [(''ollama'', OllamaProvider (ls_ollama_url S) (ls_ollama_model S)),
      (''openai_compatible'', OpenAICompatibleProvider (ls_openai_key S) (rstrip_slash (ls_openai_base S)) (ls_openai_model S)),
      (''anthropic_compatible'', AnthropicCompatibleProvider (ls_anthropic_key S) (rstrip_slash (ls_anthropic_base S))
         (ls_anthropic_model S) (ls_anthropic_version S))] name"

definition list_provider_names :: "string list" where
  "list_provider_names = [''anthropic_compatible'', ''ollama'', ''openai_compatible'']"

fun provider_name :: "provider \<Rightarrow> string" where
  "provider_name (OllamaProvider _ _) = ''ollama''"
| "provider_name (OpenAICompatibleProvider _ _ _) = ''openai_compatible''"
| "provider_name (AnthropicCompatibleProvider _ _ _ _) = ''anthropic_compatible''"

record chat_message =
  cm_role :: string
  cm_content :: string

definition jmessage :: "chat_message \<Rightarrow> json" where
  "jmessage m = JObj [(''role'', JStr (cm_role m)), (''content'', JStr (cm_content m))]"

record llm_call =
  lc_url :: string
  lc_headers :: "(string \<times> string) list"
  lc_payload :: "(string \<times> json) list"

datatype llm_error = NoModel | NoApiKey | RequestFailed string | BadStatus int string | BadShape

datatype llm_failure = ProviderError llm_error | Escaped py_error

record llm_response =
  lr_content :: json
  lr_model :: json
  lr_provider :: string
  lr_usage :: json

definition or_default :: "string option \<Rightarrow> string \<Rightarrow> string" where
  "or_default v d = (case v of None \<Rightarrow> d | Some s \<Rightarrow> if s = [] then d else s)"

text \<open>\<open>"\n\n".join\<close>.\<close>

fun join_paragraphs :: "string list \<Rightarrow> string" where
  "join_paragraphs [] = []"
| "join_paragraphs [p] = p"
| "join_paragraphs (p # ps) = p @ [CHR 0x0A, CHR 0x0A] @ join_paragraphs ps"

text \<open>The model in use and the call that is posted.\<close>

fun provider_request ::
  "provider \<Rightarrow> chat_message list \<Rightarrow> string option \<Rightarrow> (llm_error, string \<times> llm_call) res" where
  "provider_request (OllamaProvider url default_model) messages model =
     (let m = or_default model default_model
      in Inr (m, \<lparr>lc_url = url, lc_headers = [],
                  lc_payload = [(''model'', JStr m), (''messages'', JList (map jmessage messages)), (''stream'', JBool False)]\<rparr>))"
| "provider_request (OpenAICompatibleProvider key base default_model) messages model =
     (let m = or_default model default_model
      in if m = [] then Inl NoModel
         else if key = [] then Inl NoApiKey
         else Inr (m, \<lparr>lc_url = base @ ''/chat/completions'',
                       lc_headers = [(''Authorization'', ''Bearer '' @ key), (''Content-Type'', ''application/json'')],
                       lc_payload = [(''model'', JStr m), (''messages'', JList (map jmessage messages))]\<rparr>))"
| "provider_request (AnthropicCompatibleProvider key base default_model version) messages model =
     (let m = or_default model default_model
      in if m = [] then Inl NoModel
         else if key = [] then Inl NoApiKey
         else
           let system = map cm_content (filter (\<lambda>x. cm_role x = ''system'') messages);
               chat = filter (\<lambda>x. cm_role x \<noteq> ''system'') messages
           in Inr (m, \<lparr>lc_url = base @ ''/messages'',
                       lc_headers = [(''x-api-key'', key), (''anthropic-version'', version), (''Content-Type'', ''application/json'')],
                       lc_payload = [(''model'', JStr m), (''messages'', JList (map jmessage chat)), (''max_tokens'', JInt 4096)]
                         @ (if system = [] then [] else [(''system'', JStr (join_paragraphs system))])\<rparr>))"

datatype http_result = NetworkError string | HttpReply int string "json option"

text \<open>Which exceptions the \<open>except\<close> clause of each back end names, beside \<open>ValueError\<close>.\<close>

fun content_path :: "provider \<Rightarrow> (json \<Rightarrow> (py_error, json) res) list \<times> py_error list" where
  "content_path (OllamaProvider _ _) = ([subscript ''message'', subscript ''content''], [PyKeyError])"
| "content_path (OpenAICompatibleProvider _ _ _) =
     ([subscript ''choices'', first_item, subscript ''message'', subscript ''content''], [PyKeyError, PyIndexError])"
| "content_path (AnthropicCompatibleProvider _ _ _ _) =
     ([subscript ''content'', first_item, subscript ''text''], [PyKeyError, PyIndexError])"

text \<open>\<open>data.get\<close> is only reached when \<open>data\<close> is an object.\<close>

definition provider_answer :: "provider \<Rightarrow> string \<Rightarrow> http_result \<Rightarrow> (llm_failure, llm_response) res" where
  "provider_answer p model reply =
     (case reply of
        NetworkError what \<Rightarrow> Inl (ProviderError (RequestFailed what))
      | HttpReply status body data \<Rightarrow>
          if status \<noteq> 200 then Inl (ProviderError (BadStatus status (take 200 body)))
          else (case data of
                  None \<Rightarrow> Inl (ProviderError BadShape)
                | Some v \<Rightarrow>
                    (case follow (fst (content_path p)) v of
                       Inl e \<Rightarrow> Inl (if e \<in> set (snd (content_path p)) then ProviderError BadShape else Escaped e)
                     | Inr content \<Rightarrow>
                         Inr (case p of
                            OllamaProvider _ _ \<Rightarrow>
                              \<lparr>lr_content = content, lr_model = JStr model, lr_provider = provider_name p, lr_usage = JNull\<rparr>
                          | _ \<Rightarrow>
                              \<lparr>lr_content = content, lr_model = jget_default (obj_items v) ''model'' (JStr model),
                               lr_provider = provider_name p, lr_usage = jget (obj_items v) ''usage''\<rparr>))))"

section \<open>Lemmas\<close>

lemma get_provider_names: "get_provider S name \<noteq> None \<longleftrightarrow> name \<in> set list_provider_names"
  by (auto simp: get_provider_def list_provider_names_def)

lemma get_provider_name: "get_provider S name = Some p \<Longrightarrow> provider_name p = name"
  by (auto simp: get_provider_def split: if_splits)

lemma payload_messages:
  assumes "provider_request p messages model = Inr (m, call)"
  shows "map_of (lc_payload call) ''messages'' =
    Some (JList (map jmessage (case p of AnthropicCompatibleProvider _ _ _ _ \<Rightarrow> filter (\<lambda>x. cm_role x \<noteq> ''system'') messages
                                       | _ \<Rightarrow> messages)))"
  using assms by (cases p) (auto simp: Let_def split: if_splits)

lemma follow_answer:
  "follow fs v = Inr c \<Longrightarrow> fs \<noteq> [] \<Longrightarrow> hd fs = subscript k \<Longrightarrow> \<exists>kvs. v = JObj kvs"
  by (cases fs; cases v) auto

section \<open>Properties\<close>

text \<open>The error model of the module: every failure is an \<open>LLMProviderError\<close>, except that a body which
  is valid JSON of the wrong shape can raise \<open>TypeError\<close>, which no clause names. The property says
  exactly when: the reply is a 200 whose JSON has a value on the path to the content that cannot be
  subscripted there.\<close>

theorem provider_failure_classes:
  "(case provider_answer p model reply of
      Inr r \<Rightarrow> (\<exists>body v. reply = HttpReply 200 body (Some v) \<and> follow (fst (content_path p)) v = Inr (lr_content r))
               \<and> lr_provider r = provider_name p
    | Inl (Escaped e) \<Rightarrow> e = PyTypeError
               \<and> (\<exists>body v. reply = HttpReply 200 body (Some v) \<and> follow (fst (content_path p)) v = Inl PyTypeError)
    | Inl (ProviderError e) \<Rightarrow> \<not> (\<exists>body v. reply = HttpReply 200 body (Some v)
               \<and> is_ok (follow (fst (content_path p)) v)))"
proof -
  have errors: "e \<in> {PyKeyError, PyIndexError, PyTypeError}" if "follow (fst (content_path p)) v = Inl e" for e v
  proof -
    have s: "subscript k w = Inl d \<Longrightarrow> d \<in> {PyKeyError, PyTypeError}" for k w d
      by (cases w) (auto split: option.splits)
    have f: "first_item w = Inl d \<Longrightarrow> d \<in> {PyKeyError, PyIndexError, PyTypeError}" for w d
      by (cases w rule: first_item.cases) auto
    from that show ?thesis
      by (cases p) (auto split: sum.splits dest!: s f)
  qed
  have ollama: "e \<noteq> PyIndexError" if "follow (fst (content_path p)) v = Inl e" "p = OllamaProvider a b" for e v a b
  proof -
    have s: "subscript k w \<noteq> Inl PyIndexError" for k w
      by (cases w) (auto split: option.splits)
    from that s show ?thesis by (auto split: sum.splits)
  qed
  show ?thesis
    using errors ollama
    by (cases p) (fastforce simp: provider_answer_def split: http_result.splits option.splits sum.splits)+
qed

text \<open>A 200 whose message is \<open>null\<close> raises \<open>TypeError\<close> out of \<open>complete\<close>, and one whose content is
  \<open>null\<close> is returned as a completion without text.\<close>

theorem null_message_escapes:
  "provider_answer (OllamaProvider url m) model (HttpReply 200 body (Some (JObj [(''message'', JNull)]))) = Inl (Escaped PyTypeError)
   \<and> provider_answer (OpenAICompatibleProvider key base m) model
        (HttpReply 200 body (Some (JObj [(''choices'', JList [JObj [(''message'', JObj [(''content'', JNull)])]])])))
     = Inr \<lparr>lr_content = JNull, lr_model = JStr model, lr_provider = ''openai_compatible'', lr_usage = JNull\<rparr>"
  by (simp add: provider_answer_def jget_default_def jget_def)

end
