(* ===== verification/Policy_Versioning.thy ===== *)
theory Policy_Versioning
  imports Policy "HOL-Library.Char_ord" "HOL-Library.List_Lexorder"
begin

text \<open>
  core/policy_versioning.py: snapshots of the live policy file, rollback to one of them, and deployment
  of a new file. The disk is the content of the live file and of the files in the versions directory;
  time, SHA-256 and the parser of policy files are arguments. \<open>shutil.copy2\<close> is not atomic: the
  destination is opened for writing, which empties it, and filled from there, so a failing copy leaves
  a prefix of the source (\<open>Breaks\<close>), or fails before it touches the destination (\<open>Refuses\<close>).
\<close>

record policy_disk =
  pd_live :: "string option"
  pd_versions :: "(string \<times> string) list"

datatype copy_outcome = Copies | Breaks nat | Refuses

text \<open>What one operation meets: the time, and the fate of its two copies.\<close>

record disk_chance =
  dc_now :: string
  dc_snapshot :: copy_outcome
  dc_swap :: copy_outcome

datatype version_error = NoSuchVersionFile | OsFailure

section \<open>Paths\<close>

definition basename :: "string \<Rightarrow> string" where
  "basename p = rev (takeWhile (\<lambda>c. c \<noteq> CHR ''/'') (rev p))"

text \<open>\<open>os.path.splitext(p)[1]\<close>: leading dots of the last component do not start an extension.\<close>

definition extension :: "string \<Rightarrow> string" where
  "extension p =
     (let base = dropWhile (\<lambda>c. c = CHR ''.'') (basename p)
      in if CHR ''.'' \<in> set base then CHR ''.'' # rev (takeWhile (\<lambda>c. c \<noteq> CHR ''.'') (rev base)) else [])"

definition policy_suffix :: "string \<Rightarrow> string" where
  "policy_suffix path = (if extension path = [] then ''.json'' else extension path)"

section \<open>Operations\<close>

text \<open>\<open>shutil.copy2\<close>: whether it returned, and the content of the destination afterwards.\<close>

definition copied :: "copy_outcome \<Rightarrow> string \<Rightarrow> string option \<Rightarrow> bool \<times> string option" where
  "copied outcome src dest =
     (case outcome of Copies \<Rightarrow> (True, Some src) | Breaks n \<Rightarrow> (False, Some (take n src)) | Refuses \<Rightarrow> (False, dest))"

definition file_hash :: "(string \<Rightarrow> string) \<Rightarrow> string \<Rightarrow> string" where
  "file_hash sha content = take 12 (sha content)"

definition version_name :: "(string \<Rightarrow> string) \<Rightarrow> string \<Rightarrow> string \<Rightarrow> string \<Rightarrow> string" where
  "version_name sha path now content = now @ ''__'' @ file_hash sha content @ policy_suffix path"

definition snapshot_policy ::
  "(string \<Rightarrow> string) \<Rightarrow> string \<Rightarrow> disk_chance \<Rightarrow> policy_disk \<Rightarrow> (version_error, string option) res \<times> policy_disk" where
  "snapshot_policy sha path d disk =
     (case pd_live disk of
        None \<Rightarrow> (Inr None, disk)
      | Some content \<Rightarrow>
          let name = version_name sha path (dc_now d) content;
              (ok, dest) = copied (dc_snapshot d) content (map_of (pd_versions disk) name);
              disk1 = (case dest of None \<Rightarrow> disk | Some t \<Rightarrow> disk\<lparr>pd_versions := od_set name t (pd_versions disk)\<rparr>)
          in (if ok then Inr (Some name) else Inl OsFailure, disk1))"

definition list_versions :: "policy_disk \<Rightarrow> string list" where
  "list_versions disk = rev (sort (map fst (pd_versions disk)))"

definition live_file :: "(string \<Rightarrow> file_content) \<Rightarrow> policy_disk \<Rightarrow> file_content" where
  "live_file parse disk = (case pd_live disk of None \<Rightarrow> Absent | Some t \<Rightarrow> parse t)"

text \<open>Overwriting the live file and reloading the store of this process.\<close>

definition swap_live ::
  "(json \<Rightarrow> string) \<Rightarrow> (string \<Rightarrow> file_content) \<Rightarrow> disk_chance \<Rightarrow> string \<Rightarrow> policy_disk \<Rightarrow> policy_store
   \<Rightarrow> (version_error, unit) res \<times> policy_disk \<times> policy_store" where
  "swap_live shw parse d content disk st =
     (let (ok, live) = copied (dc_swap d) content (pd_live disk);
          disk1 = disk\<lparr>pd_live := live\<rparr>
      in if ok then (Inr (), disk1, reload_policies shw (live_file parse disk1) st) else (Inl OsFailure, disk1, st))"

text \<open>The names that pass the basename test and exist, but are the directory itself or its parent.\<close>

definition directory_names :: "string list" where
  "directory_names = [[], ''.'', ''..'']"

definition rollback_to ::
  "(json \<Rightarrow> string) \<Rightarrow> (string \<Rightarrow> string) \<Rightarrow> (string \<Rightarrow> file_content) \<Rightarrow> string \<Rightarrow> disk_chance \<Rightarrow> string
   \<Rightarrow> policy_disk \<Rightarrow> policy_store \<Rightarrow> (version_error, unit) res \<times> policy_disk \<times> policy_store" where
  "rollback_to shw sha parse path d version disk st =
     (if basename version \<noteq> version then (Inl NoSuchVersionFile, disk, st)
      else if version \<notin> set directory_names \<and> map_of (pd_versions disk) version = None
      then (Inl NoSuchVersionFile, disk, st)
      else
        let (r, disk1) = snapshot_policy sha path d disk
        in case r of
             Inl e \<Rightarrow> (Inl e, disk1, st)
           | Inr _ \<Rightarrow>
               (if version \<in> set directory_names then (Inl OsFailure, disk1, st)
                else swap_live shw parse d (the (map_of (pd_versions disk1) version)) disk1 st))"

definition deploy_policy ::
  "(json \<Rightarrow> string) \<Rightarrow> (string \<Rightarrow> string) \<Rightarrow> (string \<Rightarrow> file_content) \<Rightarrow> string \<Rightarrow> disk_chance \<Rightarrow> string
   \<Rightarrow> policy_disk \<Rightarrow> policy_store \<Rightarrow> (version_error, string option) res \<times> policy_disk \<times> policy_store" where
  "deploy_policy shw sha parse path d new disk st =
     (let (r, disk1) = snapshot_policy sha path d disk
      in case r of
           Inl e \<Rightarrow> (Inl e, disk1, st)
         | Inr previous \<Rightarrow>
             (case swap_live shw parse d new disk1 st of
                (Inl e, disk2, st2) \<Rightarrow> (Inl e, disk2, st2)
              | (Inr _, disk2, st2) \<Rightarrow> (Inr previous, disk2, st2)))"

section \<open>Lemmas\<close>

lemma snapshot_policy_cases:
  assumes "snapshot_policy sha path d disk = (r, disk')"
  obtains (absent) "pd_live disk = None" "r = Inr None" "disk' = disk"
    | (saved) content where "pd_live disk = Some content" "r = Inr (Some (version_name sha path (dc_now d) content))"
        "disk' = disk\<lparr>pd_versions := od_set (version_name sha path (dc_now d) content) content (pd_versions disk)\<rparr>"
    | (failed) content where "pd_live disk = Some content" "r = Inl OsFailure"
        "disk' = disk \<or> (\<exists>t. disk' = disk\<lparr>pd_versions := od_set (version_name sha path (dc_now d) content) t (pd_versions disk)\<rparr>)"
proof (cases "pd_live disk")
  case None
  with assms have "r = Inr None" and "disk' = disk" by (simp_all add: snapshot_policy_def)
  with None show ?thesis by (rule absent)
next
  case (Some content)
  show ?thesis
  proof (cases "dc_snapshot d = Copies")
    case True
    with assms Some have "r = Inr (Some (version_name sha path (dc_now d) content))"
      and "disk' = disk\<lparr>pd_versions := od_set (version_name sha path (dc_now d) content) content (pd_versions disk)\<rparr>"
      by (simp_all add: snapshot_policy_def copied_def Let_def)
    with Some show ?thesis by (rule saved)
  next
    case False
    have "r = Inl OsFailure"
      using assms Some False by (cases "dc_snapshot d") (auto simp: snapshot_policy_def copied_def Let_def)
    moreover have "disk' = disk \<or> (\<exists>t. disk' = disk\<lparr>pd_versions := od_set (version_name sha path (dc_now d) content) t (pd_versions disk)\<rparr>)"
      using assms Some by (auto simp: snapshot_policy_def Let_def split: prod.splits option.splits)
    ultimately show ?thesis by (rule failed [OF Some])
  qed
qed

lemma snapshot_live: "snapshot_policy sha path d disk = (r, disk') \<Longrightarrow> pd_live disk' = pd_live disk"
  by (erule snapshot_policy_cases) auto

lemma snapshot_keeps:
  assumes "snapshot_policy sha path d disk = (r, disk')"
  shows "fst ` set (pd_versions disk) \<subseteq> fst ` set (pd_versions disk')"
    and "pd_live disk = Some c \<Longrightarrow> name \<noteq> version_name sha path (dc_now d) c
         \<Longrightarrow> map_of (pd_versions disk') name = map_of (pd_versions disk) name"
proof -
  show "fst ` set (pd_versions disk) \<subseteq> fst ` set (pd_versions disk')"
    using assms by (cases rule: snapshot_policy_cases) (force simp: keys_od_set)+
  show "map_of (pd_versions disk') name = map_of (pd_versions disk) name"
    if "pd_live disk = Some c" "name \<noteq> version_name sha path (dc_now d) c"
    using assms that by (cases rule: snapshot_policy_cases) (auto simp: map_of_od_set)
qed

lemma swap_versions: "swap_live shw parse d c disk st = (r, disk', st') \<Longrightarrow> pd_versions disk' = pd_versions disk"
  by (auto simp: swap_live_def Let_def split: prod.splits if_splits)

lemma swap_live_cases:
  assumes "swap_live shw parse d c disk st = (r, disk', st')"
  obtains (swapped) "r = Inr ()" "disk' = disk\<lparr>pd_live := Some c\<rparr>" "st' = reload_policies shw (parse c) st"
    | (failed) "r = Inl OsFailure" "st' = st" "pd_versions disk' = pd_versions disk"
        "pd_live disk' = pd_live disk \<or> (\<exists>n. pd_live disk' = Some (take n c))"
proof (cases "dc_swap d = Copies")
  case True
  with assms have "r = Inr ()" "disk' = disk\<lparr>pd_live := Some c\<rparr>" "st' = reload_policies shw (parse c) st"
    by (simp_all add: swap_live_def copied_def live_file_def Let_def)
  then show ?thesis by (rule swapped)
next
  case False
  with assms have "r = Inl OsFailure" "st' = st" "pd_versions disk' = pd_versions disk"
    "pd_live disk' = pd_live disk \<or> (\<exists>n. pd_live disk' = Some (take n c))"
    by (cases "dc_swap d"; auto simp: swap_live_def copied_def Let_def)+
  then show ?thesis by (rule failed)
qed

lemma basename_id: "basename p = p \<longleftrightarrow> CHR ''/'' \<notin> set p"
proof
  assume "basename p = p"
  then show "CHR ''/'' \<notin> set p"
    unfolding basename_def by (metis (mono_tags, lifting) set_rev set_takeWhileD)
next
  assume "CHR ''/'' \<notin> set p"
  then have "takeWhile (\<lambda>c. c \<noteq> CHR ''/'') (rev p) = rev p"
    by (intro takeWhile_eq_all_conv [THEN iffD2]) auto
  then have "basename p = rev (rev p)" unfolding basename_def by (rule arg_cong)
  then show "basename p = p" by simp
qed

text \<open>The three ways a rollback goes.\<close>

lemma rollback_to_cases:
  assumes "rollback_to shw sha parse path d v disk st = (r, disk', st')"
  obtains (missing) "r = Inl NoSuchVersionFile" "disk' = disk" "st' = st"
    | (stopped) x where "r = Inl OsFailure" "snapshot_policy sha path d disk = (x, disk')" "st' = st"
    | (copied) old disk1 c where "CHR ''/'' \<notin> set v" "v \<notin> set directory_names" "map_of (pd_versions disk) v \<noteq> None"
        "snapshot_policy sha path d disk = (Inr old, disk1)" "map_of (pd_versions disk1) v = Some c"
        "swap_live shw parse d c disk1 st = (r, disk', st')"
proof -
  obtain x disk1 where s: "snapshot_policy sha path d disk = (x, disk1)" by fastforce
  have oserr: "e = OsFailure" if "x = Inl e" for e
    using s that by (auto elim!: snapshot_policy_cases)
  have run: "(if basename v \<noteq> v then (Inl NoSuchVersionFile, disk, st)
      else if v \<notin> set directory_names \<and> map_of (pd_versions disk) v = None then (Inl NoSuchVersionFile, disk, st)
      else (case x of
           Inl e \<Rightarrow> (Inl e, disk1, st)
         | Inr _ \<Rightarrow> (if v \<in> set directory_names then (Inl OsFailure, disk1, st)
                    else swap_live shw parse d (the (map_of (pd_versions disk1) v)) disk1 st))) = (r, disk', st')"
    using assms unfolding rollback_to_def s Let_def prod.case .
  show ?thesis
  proof (cases "basename v \<noteq> v \<or> v \<notin> set directory_names \<and> map_of (pd_versions disk) v = None")
    case True
    with run have "r = Inl NoSuchVersionFile \<and> disk' = disk \<and> st' = st" by (metis prod.inject)
    with missing show ?thesis by blast
  next
    case ok: False
    then have run2: "(case x of
           Inl e \<Rightarrow> (Inl e, disk1, st)
         | Inr _ \<Rightarrow> (if v \<in> set directory_names then (Inl OsFailure, disk1, st)
                    else swap_live shw parse d (the (map_of (pd_versions disk1) v)) disk1 st)) = (r, disk', st')"
      using run by argo
    show ?thesis
    proof (cases x)
      case (Inl e)
      with run2 oserr have "r = Inl OsFailure" "disk' = disk1" "st' = st" by auto
      with s stopped show ?thesis by blast
    next
      case (Inr old)
      show ?thesis
      proof (cases "v \<in> set directory_names")
        case True
        with run2 Inr have "r = Inl OsFailure" "disk' = disk1" "st' = st" by auto
        with s stopped show ?thesis by blast
      next
        case False
        with ok have v: "CHR ''/'' \<notin> set v" "v \<notin> set directory_names" "map_of (pd_versions disk) v \<noteq> None"
          by (auto simp: basename_id)
        then have "v \<in> fst ` set (pd_versions disk1)"
          using snapshot_keeps(1) [OF s] by (auto simp: map_of_eq_None_iff)
        then obtain c where c: "map_of (pd_versions disk1) v = Some c"
          using map_of_eq_None_iff [of "pd_versions disk1" v] by auto
        have "swap_live shw parse d c disk1 st = (r, disk', st')"
          using run2 Inr False c by simp
        with v s Inr c copied show ?thesis by blast
      qed
    qed
  qed
qed

section \<open>A run of operations\<close>

datatype disk_op = Snapshot disk_chance | Deploy disk_chance string | Rollback disk_chance string

fun disk_step ::
  "(json \<Rightarrow> string) \<Rightarrow> (string \<Rightarrow> string) \<Rightarrow> (string \<Rightarrow> file_content) \<Rightarrow> string \<Rightarrow> disk_op
   \<Rightarrow> policy_disk \<times> policy_store \<Rightarrow> policy_disk \<times> policy_store" where
  "disk_step shw sha parse path (Snapshot d) (disk, st) = (snd (snapshot_policy sha path d disk), st)"
| "disk_step shw sha parse path (Deploy d new) (disk, st) = snd (deploy_policy shw sha parse path d new disk st)"
| "disk_step shw sha parse path (Rollback d v) (disk, st) = snd (rollback_to shw sha parse path d v disk st)"

definition version_names :: "policy_disk \<Rightarrow> string set" where
  "version_names disk = fst ` set (pd_versions disk)"

lemma deploy_names:
  assumes "deploy_policy shw sha parse path d new disk st = (r, disk', st')"
  shows "version_names disk \<subseteq> version_names disk'"
proof -
  obtain x disk1 where s: "snapshot_policy sha path d disk = (x, disk1)" by fastforce
  note k = snapshot_keeps(1) [OF s]
  have "version_names disk' = version_names disk1"
    using assms s swap_versions unfolding deploy_policy_def version_names_def
    by (fastforce simp: Let_def split: sum.splits prod.splits)
  with k show ?thesis by (simp add: version_names_def)
qed

lemma rollback_names:
  assumes "rollback_to shw sha parse path d v disk st = (r, disk', st')"
  shows "version_names disk \<subseteq> version_names disk'"
  using assms
proof (cases rule: rollback_to_cases)
  case (stopped x)
  with snapshot_keeps(1) show ?thesis unfolding version_names_def by blast
next
  case (copied old disk1 c)
  with snapshot_keeps(1) [OF copied(4)] swap_versions [OF copied(6)] show ?thesis by (simp add: version_names_def)
qed simp

lemma disk_step_names: "version_names (fst s) \<subseteq> version_names (fst (disk_step shw sha parse path a s))"
proof (cases s)
  case (Pair disk st)
  show ?thesis
  proof (cases a)
    case (Snapshot d)
    then show ?thesis
      using snapshot_keeps(1) [of sha path d disk "fst (snapshot_policy sha path d disk)" "snd (snapshot_policy sha path d disk)"] Pair
      by (simp add: version_names_def)
  next
    case (Deploy d new)
    obtain r disk' st' where "deploy_policy shw sha parse path d new disk st = (r, disk', st')" by (metis surj_pair)
    with deploy_names [OF this] Deploy Pair show ?thesis by simp
  next
    case (Rollback d v)
    obtain r disk' st' where "rollback_to shw sha parse path d v disk st = (r, disk', st')" by (metis surj_pair)
    with rollback_names [OF this] Rollback Pair show ?thesis by simp
  qed
qed

section \<open>Properties\<close>

text \<open>No sequence of snapshots, deployments and rollbacks, with whatever copies failing halfway, makes a version
  disappear from the listing.\<close>

theorem versions_are_never_lost:
  "version_names (fst s) \<subseteq> version_names (fst (fold (disk_step shw sha parse path) ops s))"
proof (induction ops arbitrary: s)
  case (Cons a ops)
  from disk_step_names [of s shw sha parse path a] Cons.IH [of "disk_step shw sha parse path a s"]
  show ?case by (simp only: fold.simps comp_apply)
qed simp

text \<open>A deployment that returns a version number is undone by rolling back to it: the live file holds the old
  text again and the store of this process is reloaded from it. The rollback's own snapshot must get
  another name, which it does unless it falls into the same second and collides in 48 bits of the hash.
  No number means there was no file before; an error means the store is as it was.\<close>

theorem rollback_undoes_deploy:
  "case deploy_policy shw sha parse path d1 new disk st of
     (Inr (Some v), disk1, st1) \<Rightarrow>
        (case pd_live disk of
           None \<Rightarrow> False
         | Some old \<Rightarrow> pd_live disk1 = Some new \<and> v = version_name sha path (dc_now d1) old \<and>
            (if dc_snapshot d2 = Copies \<and> dc_swap d2 = Copies \<and> CHR ''/'' \<notin> set v
                \<and> version_name sha path (dc_now d2) new \<noteq> v
             then (case rollback_to shw sha parse path d2 v disk1 st1 of
                     (Inr _, disk2, st2) \<Rightarrow> pd_live disk2 = Some old \<and> st2 = reload_policies shw (parse old) st1
                   | (Inl _, _) \<Rightarrow> False)
             else True))
   | (Inr None, disk1, st1) \<Rightarrow> pd_live disk = None \<and> pd_live disk1 = Some new
   | (Inl e, disk1, st1) \<Rightarrow> st1 = st"
proof (cases "deploy_policy shw sha parse path d1 new disk st")
  case (fields r disk1 st1)
  obtain x disk0 where s: "snapshot_policy sha path d1 disk = (x, disk0)" by fastforce
  from s show ?thesis
  proof (cases rule: snapshot_policy_cases)
    case absent
    then show ?thesis
      using s by (auto simp: deploy_policy_def Let_def split: prod.splits sum.splits elim!: swap_live_cases)
  next
    case (failed content)
    with s show ?thesis by (simp add: deploy_policy_def)
  next
    case (saved content)
    let ?v = "version_name sha path (dc_now d1) content"
    obtain y disk1' st1' where w: "swap_live shw parse d1 new disk0 st = (y, disk1', st1')" by (metis surj_pair)
    from w show ?thesis
    proof (cases rule: swap_live_cases)
      case failed
      with saved s w show ?thesis by (simp add: deploy_policy_def)
    next
      case swapped
      have d: "deploy_policy shw sha parse path d1 new disk st = (Inr (Some ?v), disk1', st1')"
        using saved s w swapped by (simp add: deploy_policy_def)
      have "(case rollback_to shw sha parse path d2 ?v disk1' st1' of
               (Inr _, disk2, st2) \<Rightarrow> pd_live disk2 = Some content \<and> st2 = reload_policies shw (parse content) st1'
             | (Inl _, _) \<Rightarrow> False)"
        if c: "dc_snapshot d2 = Copies" "dc_swap d2 = Copies" "CHR ''/'' \<notin> set ?v" "version_name sha path (dc_now d2) new \<noteq> ?v"
      proof -
        have live1: "pd_live disk1' = Some new" and ver1: "map_of (pd_versions disk1') ?v = Some content"
          using swapped saved by (simp_all add: map_of_od_set)
        have base: "basename ?v = ?v"
          using c(3) by (simp add: basename_id)
        have dir: "?v \<notin> set directory_names"
          by (auto simp: version_name_def directory_names_def append_eq_Cons_conv)
        have s2: "snapshot_policy sha path d2 disk1' = (Inr (Some (version_name sha path (dc_now d2) new)),
            disk1'\<lparr>pd_versions := od_set (version_name sha path (dc_now d2) new) new (pd_versions disk1')\<rparr>)"
          using live1 c(1) by (simp add: snapshot_policy_def copied_def Let_def)
        show ?thesis
          using base dir ver1 s2 c(2,4)
          by (simp add: rollback_to_def swap_live_def copied_def live_file_def map_of_od_set Let_def)
      qed
      moreover have "pd_live disk1' = Some new" using swapped by simp
      ultimately show ?thesis using d saved(1) by simp
    qed
  qed
qed

text \<open>A rollback only ever restores a file of the versions directory: success implies a plain name from the
  listing, and the live file afterwards is that version (or, when the name is the one the rollback's own
  snapshot takes, the file that was live); the overwritten policy is in the listing. A version that does
  not exist changes nothing, and after any error the store of the process is as it was.\<close>

theorem rollback_stays_in_the_directory:
  "case rollback_to shw sha parse path d version disk st of
     (Inr _, disk', st') \<Rightarrow>
        CHR ''/'' \<notin> set version \<and> version \<notin> {[], ''.'', ''..''} \<and> version \<in> set (list_versions disk)
        \<and> (case pd_live disk of
             None \<Rightarrow> pd_live disk' = map_of (pd_versions disk) version
           | Some old \<Rightarrow> pd_live disk' = (if version = version_name sha path (dc_now d) old then Some old
                                        else map_of (pd_versions disk) version)
               \<and> version_name sha path (dc_now d) old \<in> set (list_versions disk'))
   | (Inl NoSuchVersionFile, disk', st') \<Rightarrow> disk' = disk \<and> st' = st
   | (Inl OsFailure, disk', st') \<Rightarrow> st' = st"
proof (cases "rollback_to shw sha parse path d version disk st")
  case (fields r disk' st')
  then show ?thesis
  proof (cases rule: rollback_to_cases)
    case (copied old disk1 c)
    have listed: "v \<in> set (list_versions dk) \<longleftrightarrow> map_of (pd_versions dk) v \<noteq> None" for v dk
      by (auto simp: list_versions_def map_of_eq_None_iff)
    from copied(6) show ?thesis
    proof (cases rule: swap_live_cases)
      case failed
      with fields show ?thesis by simp
    next
      case swapped
      from copied(4) show ?thesis
      proof (cases rule: snapshot_policy_cases)
        case absent
        with fields swapped copied show ?thesis by (auto simp: listed directory_names_def)
      next
        case (saved content)
        with fields swapped copied show ?thesis by (auto simp: listed directory_names_def map_of_od_set split: if_splits)
      qed simp
    qed
  qed (use fields in simp_all)
qed

text \<open>The names \<open>.\<close> and \<open>..\<close> pass the test for a plain file name and exist, so the rollback gets as far as the
  copy, which raises on a directory: not the announced \<open>FileNotFoundError\<close>, and one more snapshot is left.\<close>

theorem directory_name_is_not_refused:
  "if dc_snapshot d = Copies \<and> version \<in> {''.'', ''..''} then
     (case rollback_to shw sha parse path d version disk st of
        (r, disk', st') \<Rightarrow> r = Inl OsFailure \<and> pd_live disk' = pd_live disk
          \<and> (case pd_live disk of None \<Rightarrow> True
             | Some old \<Rightarrow> map_of (pd_versions disk') (version_name sha path (dc_now d) old) = Some old))
   else True"
  by (auto simp: rollback_to_def basename_def directory_names_def snapshot_policy_def copied_def map_of_od_set Let_def
      split: option.splits)

lemma fresh_store_blocks: "fst (policy_decision shw capability risk tenant None (Unreadable, policy_store_init)) = ''BLOCK''"
  by (simp add: policy_decision_def active_store_def resolve_policy_set_def policy_get_def policy_store_len_def
      policy_load_def policy_store_init_def default_action_def Let_def)

text \<open>The live file is overwritten in place. A deployment whose copy breaks off raises, this process goes on
  with the old policy, and the live file is a prefix of the new one; if that does not parse, every
  process that loads it from now on blocks every request. The old policy is still among the versions.\<close>

theorem interrupted_deploy_leaves_half_a_policy:
  "if dc_snapshot d = Copies \<and> dc_swap d = Breaks n \<and> parse (take n new) = Unreadable then
     (case deploy_policy shw sha parse path d new disk st of
        (r, disk', st') \<Rightarrow> r = Inl OsFailure \<and> st' = st \<and> pd_live disk' = Some (take n new)
          \<and> (case pd_live disk of None \<Rightarrow> True
             | Some old \<Rightarrow> map_of (pd_versions disk') (version_name sha path (dc_now d) old) = Some old)
          \<and> fst (policy_decision shw capability risk tenant None (live_file parse disk', policy_store_init)) = ''BLOCK'')
   else True"
  using fresh_store_blocks [of shw capability risk tenant]
  by (auto simp: deploy_policy_def snapshot_policy_def swap_live_def copied_def live_file_def map_of_od_set Let_def
      split: option.splits)

text \<open>A second process over the same files: its store is loaded, so a deployment or rollback elsewhere has no
  effect on its decisions until it reloads, whatever is in the file by then.\<close>

theorem other_worker_keeps_the_old_policy:
  "if pst_loaded other
   then policy_decision shw capability risk tenant None (live_file parse (fst (snd (deploy_policy shw sha parse path d new disk st))), other)
      = policy_decision shw capability risk tenant None (live_file parse disk, other)
   else True"
  by (simp add: policy_decision_def active_store_def resolve_policy_set_def policy_get_def policy_store_len_def policy_load_def
      default_action_def Let_def)

end
