(* ===== verification/Api_Gate.thy ===== *)
theory Api_Gate
  imports Risk Output_Guard Policy Review_Queue Auth Tenancy Tools Rate_Limit Token_Quota Audit_Trail LLM_Providers Policy_Versioning
begin

text \<open>
  The boundary of api/main.py: what every endpoint runs before its own work. The settings it reads
  (core/config.py with their validators), the request as the handlers see it, the correlation id, and
  the gate: who is calling, is the tenant suspended, is there a token in the bucket.

  \<open>services\<close> is what does not change while a request runs: settings, files, models and the operations
  of the pluggable back ends. \<open>gateway\<close> is the state of the process. \<open>chance\<close> is what one request
  meets: clocks, fresh identifiers, timeouts, failing writes, the replies of providers.
\<close>

section \<open>Settings\<close>

record api_settings =
  se_auth_mode :: string
  se_rate_enabled :: bool
  se_authenticated_rpm :: real
  se_anonymous_rpm :: real
  se_burst_seconds :: real
  se_trust_forwarded_for :: bool
  se_assess_concurrency :: int
  se_assess_timeout :: real
  se_gateway_concurrency :: int
  se_gateway_timeout :: real
  se_default_provider :: string
  se_fallback_providers :: string
  se_quota_enabled :: bool
  se_quota_default :: int
  se_request_id_max :: nat
  se_audit :: audit_settings
  se_llm :: llm_settings

text \<open>The field validators; \<open>AUTH_MODE\<close> is the one that also changes its value.\<close>

definition validate_auth_mode :: "string \<Rightarrow> string option" where
  "validate_auth_mode v =
     (let normalized = str_lower (str_strip v)
      in if normalized \<in> {''optional'', ''required''} then Some normalized else None)"

definition validate_settings :: "api_settings \<Rightarrow> api_settings option" where
  "validate_settings s =
     (if se_authenticated_rpm s \<le> 0 \<or> se_anonymous_rpm s \<le> 0 then None
      else if se_assess_concurrency s < 1 then None
      else if se_assess_timeout s \<le> 0 then None
      else if se_gateway_concurrency s < 1 then None
      else if se_gateway_timeout s \<le> 0 then None
      else if se_quota_default s < 0 then None
      else (case validate_auth_mode (se_auth_mode s) of
              None \<Rightarrow> None | Some mode \<Rightarrow> Some (s\<lparr>se_auth_mode := mode\<rparr>)))"

section \<open>Services, state, chance\<close>

record ('v, 'c, 'l, 'j, 'w, 'r, 'q) services =
  sx_settings :: api_settings
  sx_shw :: "json \<Rightarrow> string"
  sx_sha :: "string \<Rightarrow> string"
  sx_dumps :: "json \<Rightarrow> string"
  sx_canonical :: "json \<Rightarrow> string"
  sx_reason_text :: "tool_reason \<Rightarrow> string"
  sx_error_text :: "llm_error \<Rightarrow> string"
  sx_convs :: py_convs
  sx_key_file :: file_content
  sx_tenant_file :: file_content
  sx_check_rate :: "string \<Rightarrow> real \<Rightarrow> real \<Rightarrow> real \<Rightarrow> 'r \<Rightarrow> (bool \<times> real) \<times> 'r"
  sx_would_exceed :: "string \<Rightarrow> int \<Rightarrow> string \<Rightarrow> 'q \<Rightarrow> bool \<times> 'q"
  sx_record_tokens :: "string \<Rightarrow> real \<Rightarrow> string \<Rightarrow> 'q \<Rightarrow> 'q"
  sx_risk_env :: "'v risk_env"
  sx_risk_ops :: "('v, 'c, 'l, 'j) risk_ops"
  sx_output_env :: "'j output_env"
  sx_registry :: "'w registry"
  sx_policy_path :: string
  sx_parse_policy :: "string \<Rightarrow> file_content"
  sx_flush :: "'c \<Rightarrow> 'c"
  sx_format :: "log_entry \<Rightarrow> string"
  sx_loads :: "string \<Rightarrow> json option"
  sx_loads_cell :: "string \<Rightarrow> json"

text \<open>\<open>gw_calls\<close> is the trace of calls that left for a provider, newest last.\<close>

record ('c, 'l, 'j, 'w, 'r, 'q) gateway =
  gw_keys :: key_store
  gw_tenants :: tenant_store
  gw_limiter :: 'r
  gw_quota :: 'q
  gw_risk :: "('c, 'l, 'j) risk_state"
  gw_policy :: store_ref
  gw_disk :: policy_disk
  gw_reviews :: queue_state
  gw_world :: 'w
  gw_trail :: audit_trail
  gw_calls :: "(string \<times> llm_call) list"

text \<open>A call on a bounded pool: it finishes, or the deadline passes. On a timeout the caller stops
  waiting; a worker that has started goes on (\<open>TimesOut True\<close>), a queued one never runs.\<close>

datatype bounded = Finishes | TimesOut bool

text \<open>The same for one call of a provider: the deadline passes, with or without the request having left,
  or the reply arrives in time.\<close>

datatype llm_outcome = LlmTimesOut bool | LlmAnswers http_result

record chance =
  ch_uuid :: string
  ch_review_uuid :: string
  ch_iso_now :: string
  ch_monotonic :: real
  ch_day :: string
  ch_second_of_day :: real
  ch_assess :: bounded
  ch_output :: bounded
  ch_review_saved :: bool
  ch_audit :: "log_entry \<Rightarrow> write_outcome"
  ch_llm :: "nat \<Rightarrow> llm_outcome"
  ch_latency :: "nat \<Rightarrow> real"
  ch_disk :: disk_chance
  ch_store_read :: bool

record http_request =
  hr_authorization :: "string option"
  hr_request_id :: string
  hr_forwarded_for :: string
  hr_peer :: "string option"

section \<open>Errors\<close>

datatype api_error =
    Unauthorized
  | TenantSuspended string
  | InternalRequired
  | RateLimited real int
  | QuotaExhausted string int int
  | AssessmentTimeout
  | OutputTimeout
  | AuditUnavailable
  | UnknownProvider string
  | ProviderTimeout
  | ProviderFailed llm_error
  | NoSuchReview string
  | ReviewConflict review_error
  | PolicyRejected "policy_problem list"
  | NoSuchVersion string
  | Unhandled string

fun status_code :: "api_error \<Rightarrow> nat" where
  "status_code Unauthorized = 401"
| "status_code (TenantSuspended _) = 403"
| "status_code InternalRequired = 403"
| "status_code (RateLimited _ _) = 429"
| "status_code (QuotaExhausted _ _ _) = 429"
| "status_code AssessmentTimeout = 503"
| "status_code OutputTimeout = 503"
| "status_code AuditUnavailable = 503"
| "status_code (UnknownProvider _) = 422"
| "status_code ProviderTimeout = 503"
| "status_code (ProviderFailed _) = 502"
| "status_code (NoSuchReview _) = 404"
| "status_code (ReviewConflict _) = 409"
| "status_code (PolicyRejected _) = 422"
| "status_code (NoSuchVersion _) = 404"
| "status_code (Unhandled _) = 500"

text \<open>A handler either raises, which ends the request, or goes on with a value.\<close>

definition and_then :: "('e, 'a) res \<times> 's \<Rightarrow> ('a \<Rightarrow> 's \<Rightarrow> ('e, 'b) res \<times> 's) \<Rightarrow> ('e, 'b) res \<times> 's" where
  "and_then m f = (case m of (Inl e, s) \<Rightarrow> (Inl e, s) | (Inr a, s) \<Rightarrow> f a s)"

definition run_bounded :: "bounded \<Rightarrow> ('s \<Rightarrow> 'a \<times> 's) \<Rightarrow> 's \<Rightarrow> 'a option \<times> 's" where
  "run_bounded b f s =
     (case b of
        Finishes \<Rightarrow> (Some (fst (f s)), snd (f s))
      | TimesOut started \<Rightarrow> (None, if started then snd (f s) else s))"

section \<open>Correlation id\<close>

definition request_id_char :: "char \<Rightarrow> bool" where
  "request_id_char c \<longleftrightarrow> (let n = (of_char c :: nat) in
     (65 \<le> n \<and> n \<le> 90) \<or> (97 \<le> n \<and> n \<le> 122) \<or> (48 \<le> n \<and> n \<le> 57)) \<or> c \<in> {CHR ''.'', CHR ''_'', CHR '':'', CHR ''-''}"

definition resolve_request_id :: "nat \<Rightarrow> string \<Rightarrow> string \<Rightarrow> string" where
  "resolve_request_id max_length header fresh =
     (let supplied = str_strip header
      in if supplied \<noteq> [] \<and> length supplied \<le> max_length \<and> list_all request_id_char supplied
         then supplied else fresh)"

section \<open>Who is calling\<close>

definition client_address :: "bool \<Rightarrow> http_request \<Rightarrow> string" where
  "client_address trust req =
     (let hops = filter (\<lambda>h. h \<noteq> []) (map str_strip (str_split CHR '','' (hr_forwarded_for req)));
          peer = (case hr_peer req of Some host \<Rightarrow> host | None \<Rightarrow> ''unknown'')
      in if trust \<and> hops \<noteq> [] then last hops else peer)"

definition rate_identity :: "api_settings \<Rightarrow> http_request \<Rightarrow> tenant_config \<Rightarrow> principal \<Rightarrow> string \<times> real" where
  "rate_identity S req tc p =
     (if pr_authenticated p
      then (''key:'' @ pr_key_id p,
            case tc_rate_limit_rpm tc of Some rpm \<Rightarrow> rpm | None \<Rightarrow> se_authenticated_rpm S)
      else (''ip:'' @ client_address (se_trust_forwarded_for S) req, se_anonymous_rpm S))"

definition enforce_rate_limit ::
  "('v, 'c, 'l, 'j, 'w, 'r, 'q) services \<Rightarrow> chance \<Rightarrow> http_request \<Rightarrow> tenant_config \<Rightarrow> principal
   \<Rightarrow> ('c, 'l, 'j, 'w, 'r, 'q) gateway \<Rightarrow> (api_error, unit) res \<times> ('c, 'l, 'j, 'w, 'r, 'q) gateway" where
  "enforce_rate_limit X h req tc p g =
     (if \<not> se_rate_enabled (sx_settings X) then (Inr (), g)
      else
        let (identity, rpm) = rate_identity (sx_settings X) req tc p;
            (cap, refill) = bucket_parameters rpm (se_burst_seconds (sx_settings X));
            ((allowed, retry_after), l) = sx_check_rate X identity cap refill (ch_monotonic h) (gw_limiter g)
        in (if allowed then Inr () else Inl (RateLimited rpm (max 1 (py_int (retry_after + 999 / 1000)))),
            g\<lparr>gw_limiter := l\<rparr>))"

definition authenticate ::
  "('v, 'c, 'l, 'j, 'w, 'r, 'q) services \<Rightarrow> http_request
   \<Rightarrow> ('c, 'l, 'j, 'w, 'r, 'q) gateway \<Rightarrow> (api_error, principal) res \<times> ('c, 'l, 'j, 'w, 'r, 'q) gateway" where
  "authenticate X req g =
     (case resolve_principal (sx_shw X) (sx_sha X) (sx_key_file X) (hr_authorization req) None (gw_keys g) of
        (Inl CompareTypeError, ks) \<Rightarrow> (Inl (Unhandled ''TypeError''), g\<lparr>gw_keys := ks\<rparr>)
      | (Inr p, ks) \<Rightarrow> (Inr p, g\<lparr>gw_keys := ks\<rparr>))"

definition reject_suspended_and_rate_limit ::
  "('v, 'c, 'l, 'j, 'w, 'r, 'q) services \<Rightarrow> chance \<Rightarrow> http_request \<Rightarrow> principal
   \<Rightarrow> ('c, 'l, 'j, 'w, 'r, 'q) gateway \<Rightarrow> (api_error, tenant_config) res \<times> ('c, 'l, 'j, 'w, 'r, 'q) gateway" where
  "reject_suspended_and_rate_limit X h req p g =
     (let (tc, ts) = resolve_tenant (sx_convs X) (sx_tenant_file X) (pr_tenant p) (gw_tenants g);
          g1 = g\<lparr>gw_tenants := ts\<rparr>
      in if suspended tc then (Inl (TenantSuspended (pr_tenant p)), g1)
         else and_then (enforce_rate_limit X h req tc p g1) (\<lambda>_ g2. (Inr tc, g2)))"

text \<open>The prefix of \<open>/assess\<close>, \<open>/assess_output\<close>, \<open>/gateway/chat\<close>, \<open>/tools/call\<close> and of the endpoints open
  to every caller.\<close>

definition admit ::
  "('v, 'c, 'l, 'j, 'w, 'r, 'q) services \<Rightarrow> chance \<Rightarrow> http_request
   \<Rightarrow> ('c, 'l, 'j, 'w, 'r, 'q) gateway \<Rightarrow> (api_error, principal \<times> tenant_config) res \<times> ('c, 'l, 'j, 'w, 'r, 'q) gateway" where
  "admit X h req g =
     and_then (authenticate X req g) (\<lambda>p g1.
       if auth_required (se_auth_mode (sx_settings X)) \<and> \<not> pr_authenticated p then (Inl Unauthorized, g1)
       else and_then (reject_suspended_and_rate_limit X h req p g1) (\<lambda>tc g2. (Inr (p, tc), g2)))"

text \<open>The prefix of the operator endpoints.\<close>

definition require_internal ::
  "('v, 'c, 'l, 'j, 'w, 'r, 'q) services \<Rightarrow> chance \<Rightarrow> http_request
   \<Rightarrow> ('c, 'l, 'j, 'w, 'r, 'q) gateway \<Rightarrow> (api_error, principal) res \<times> ('c, 'l, 'j, 'w, 'r, 'q) gateway" where
  "require_internal X h req g =
     and_then (authenticate X req g) (\<lambda>p g1.
       if pr_capability p \<noteq> CAPABILITY_INTERNAL then (Inl InternalRequired, g1)
       else and_then (reject_suspended_and_rate_limit X h req p g1) (\<lambda>tc g2. (Inr p, g2)))"

section \<open>Audit or fail\<close>

definition write_record ::
  "('v, 'c, 'l, 'j, 'w, 'r, 'q) services \<Rightarrow> chance \<Rightarrow> log_entry
   \<Rightarrow> ('c, 'l, 'j, 'w, 'r, 'q) gateway \<Rightarrow> (audit_error, unit) res \<times> ('c, 'l, 'j, 'w, 'r, 'q) gateway" where
  "write_record X h entry g =
     (let (r, t) = emit_record (se_audit (sx_settings X)) (sx_dumps X) (ch_audit h entry)
                     entry (gw_trail g)
      in (r, g\<lparr>gw_trail := t\<rparr>))"

definition write_audit_or_fail ::
  "('v, 'c, 'l, 'j, 'w, 'r, 'q) services \<Rightarrow> chance \<Rightarrow> log_entry
   \<Rightarrow> ('c, 'l, 'j, 'w, 'r, 'q) gateway \<Rightarrow> (api_error, unit) res \<times> ('c, 'l, 'j, 'w, 'r, 'q) gateway" where
  "write_audit_or_fail X h entry g =
     (case write_record X h entry g of
        (Inr _, g1) \<Rightarrow> (Inr (), g1)
      | (Inl _, g1) \<Rightarrow> (if as_fails_closed (se_audit (sx_settings X)) then Inl AuditUnavailable else Inr (), g1))"

text \<open>An audit write outside the helper: an exception ends the request.\<close>

definition write_audit_bare ::
  "('v, 'c, 'l, 'j, 'w, 'r, 'q) services \<Rightarrow> chance \<Rightarrow> log_entry
   \<Rightarrow> ('c, 'l, 'j, 'w, 'r, 'q) gateway \<Rightarrow> (api_error, unit) res \<times> ('c, 'l, 'j, 'w, 'r, 'q) gateway" where
  "write_audit_bare X h entry g =
     (case write_record X h entry g of
        (Inr _, g1) \<Rightarrow> (Inr (), g1)
      | (Inl StoreError, g1) \<Rightarrow> (Inl (Unhandled ''sqlite3.Error''), g1))"

section \<open>Lemmas\<close>

lemma and_then_Inr [simp]:
  "and_then m f = (Inr b, s') \<longleftrightarrow> (\<exists>a s1. m = (Inr a, s1) \<and> f a s1 = (Inr b, s'))"
  by (auto simp: and_then_def split: prod.splits sum.splits)

lemma and_then_Inl [simp]:
  "and_then m f = (Inl e, s') \<longleftrightarrow> m = (Inl e, s') \<or> (\<exists>a s1. m = (Inr a, s1) \<and> f a s1 = (Inl e, s'))"
  by (auto simp: and_then_def split: prod.splits sum.splits)

lemma and_then_eqs: "and_then (Inl e, s) f = (Inl e, s)" "and_then (Inr a, s) f = f a s"
  by (simp_all add: and_then_def)

lemma and_then_cases:
  assumes "and_then m f = (r, s')"
  obtains (raised) e where "m = (Inl e, s')" "r = Inl e"
    | (continued) a s1 where "m = (Inr a, s1)" "f a s1 = (r, s')"
  using assms by (auto simp: and_then_def split: prod.splits sum.splits)

lemma run_bounded_cases:
  assumes "run_bounded b f s = (out, s')"
  obtains (finished) a where "out = Some a" "f s = (a, s')"
    | (late) "out = None" "s' = s \<or> s' = snd (f s)"
  using assms by (cases b) (auto simp: run_bounded_def split: if_splits)

text \<open>An interface of the endpoints: a gate that may raise, and a part of the state it never touches.\<close>

locale request_gate =
  fixes gate :: "'s \<Rightarrow> ('e, 'p) res \<times> 's" and view :: "'s \<Rightarrow> 'x"
  assumes keeps_view: "gate s = (r, s') \<Longrightarrow> view s' = view s"
begin

lemma refused:
  assumes "gate s = (Inl e, s')"
  shows "and_then (gate s) body = (Inl e, s')" and "view s' = view s"
  using assms keeps_view [OF assms] by (simp_all add: and_then_def)

lemma effect_needs_admission:
  assumes "and_then (gate s) body = (r, s')" and "view s' \<noteq> view s"
  obtains p s1 where "gate s = (Inr p, s1)" and "view s1 = view s" and "body p s1 = (r, s')"
proof (use assms(1) in \<open>cases rule: and_then_cases\<close>)
  case (raised e)
  with keeps_view assms(2) show ?thesis by blast
next
  case (continued p s1)
  with keeps_view that show ?thesis by blast
qed

end

definition protected ::
  "('c, 'l, 'j, 'w, 'r, 'q) gateway \<Rightarrow> 'q \<times> ('c, 'l, 'j) risk_state \<times> store_ref \<times> policy_disk \<times> queue_state \<times> 'w
   \<times> audit_trail \<times> (string \<times> llm_call) list" where
  "protected g = (gw_quota g, gw_risk g, gw_policy g, gw_disk g, gw_reviews g, gw_world g, gw_trail g, gw_calls g)"

named_theorems gate_frame \<open>what the steps of the gate leave alone\<close>

lemma authenticate_frame [gate_frame]:
  assumes "authenticate X req g = (r, g')"
  shows "protected g' = protected g \<and> gw_limiter g' = gw_limiter g \<and> gw_tenants g' = gw_tenants g"
  using assms by (auto simp: authenticate_def protected_def split: prod.splits sum.splits auth_error.splits)

lemma enforce_rate_limit_frame [gate_frame]:
  assumes "enforce_rate_limit X h req tc p g = (r, g')"
  shows "protected g' = protected g"
  using assms by (auto simp: enforce_rate_limit_def protected_def Let_def split: prod.splits if_splits)

lemma reject_frame [gate_frame]:
  assumes "reject_suspended_and_rate_limit X h req p g = (r, g')"
  shows "protected g' = protected g"
proof -
  obtain tc ts where t: "resolve_tenant (sx_convs X) (sx_tenant_file X) (pr_tenant p) (gw_tenants g) = (tc, ts)"
    by fastforce
  have g: "protected (g\<lparr>gw_tenants := ts\<rparr>) = protected g" by (simp add: protected_def)
  show ?thesis
  proof (cases "suspended tc")
    case False
    with assms t have "and_then (enforce_rate_limit X h req tc p (g\<lparr>gw_tenants := ts\<rparr>)) (\<lambda>_ g2. (Inr tc, g2)) = (r, g')"
      by (simp add: reject_suspended_and_rate_limit_def)
    then show ?thesis
      by (cases rule: and_then_cases) (use g in \<open>auto dest: enforce_rate_limit_frame\<close>)
  qed (use assms t g in \<open>auto simp: reject_suspended_and_rate_limit_def\<close>)
qed

lemma admit_frame [gate_frame]:
  assumes "admit X h req g = (r, g')"
  shows "protected g' = protected g"
  using assms unfolding admit_def
  by (cases rule: and_then_cases)
     (auto simp: and_then_def split: if_splits prod.splits sum.splits dest!: authenticate_frame reject_frame)

lemma require_internal_frame [gate_frame]:
  assumes "require_internal X h req g = (r, g')"
  shows "protected g' = protected g"
  using assms unfolding require_internal_def
  by (cases rule: and_then_cases)
     (auto simp: and_then_def split: if_splits prod.splits sum.splits dest!: authenticate_frame reject_frame)

interpretation caller_gate: request_gate "admit X h req" protected for X h req
  by unfold_locales (rule admit_frame)

interpretation operator_gate: request_gate "require_internal X h req" protected for X h req
  by unfold_locales (rule require_internal_frame)

lemma admit_Inr:
  assumes "admit X h req g = (Inr (p, tc), g')"
  shows "auth_required (se_auth_mode (sx_settings X)) \<Longrightarrow> pr_authenticated p" and "\<not> suspended tc"
    and "\<exists>ks. resolve_principal (sx_shw X) (sx_sha X) (sx_key_file X) (hr_authorization req) None (gw_keys g) = (Inr p, ks)"
proof -
  from assms obtain g1 where a: "authenticate X req g = (Inr p, g1)"
    and n: "\<not> (auth_required (se_auth_mode (sx_settings X)) \<and> \<not> pr_authenticated p)"
    and r: "reject_suspended_and_rate_limit X h req p g1 = (Inr tc, g')"
    unfolding admit_def by (auto split: if_splits)
  from n show "auth_required (se_auth_mode (sx_settings X)) \<Longrightarrow> pr_authenticated p" by blast
  from r show "\<not> suspended tc"
    unfolding reject_suspended_and_rate_limit_def Let_def by (auto split: prod.splits if_splits)
  from a show "\<exists>ks. resolve_principal (sx_shw X) (sx_sha X) (sx_key_file X) (hr_authorization req) None (gw_keys g) = (Inr p, ks)"
    unfolding authenticate_def by (auto split: prod.splits sum.splits auth_error.splits)
qed

lemma require_internal_Inr:
  assumes "require_internal X h req g = (Inr p, g')"
  shows "pr_capability p = CAPABILITY_INTERNAL"
    and "\<exists>ks. resolve_principal (sx_shw X) (sx_sha X) (sx_key_file X) (hr_authorization req) None (gw_keys g) = (Inr p, ks)"
proof -
  from assms obtain g1 where a: "authenticate X req g = (Inr p, g1)" and n: "pr_capability p = CAPABILITY_INTERNAL"
    unfolding require_internal_def by (auto split: if_splits)
  show "pr_capability p = CAPABILITY_INTERNAL" by (rule n)
  from a show "\<exists>ks. resolve_principal (sx_shw X) (sx_sha X) (sx_key_file X) (hr_authorization req) None (gw_keys g) = (Inr p, ks)"
    unfolding authenticate_def by (auto split: prod.splits sum.splits auth_error.splits)
qed

section \<open>Properties\<close>

text \<open>A caller of a suspended tenant is refused with 403 (or 401 where a key is required and missing)
  before the rate limiter is asked: no token is spent, and nothing behind the gate changes.\<close>

theorem suspended_tenant_stops_at_the_gate:
  "case authenticate X req g of
     (Inr p, _) \<Rightarrow>
       if suspended (fst (resolve_tenant (sx_convs X) (sx_tenant_file X) (pr_tenant p) (gw_tenants g)))
       then (case admit X h req g of
               (Inl e, g') \<Rightarrow> status_code e \<in> {401, 403} \<and> gw_limiter g' = gw_limiter g \<and> protected g' = protected g
             | (Inr _, g') \<Rightarrow> False)
       else True
   | (Inl _, _) \<Rightarrow> True"
proof (cases "authenticate X req g")
  case (Pair r g1)
  note f = authenticate_frame [OF Pair]
  show ?thesis
    using Pair f
    by (auto simp: admit_def and_then_eqs reject_suspended_and_rate_limit_def protected_def split: prod.splits sum.splits)
qed

text \<open>Without trust in \<open>X-Forwarded-For\<close> the header has no influence on the gate at all. With trust, the
  address appended by the proxy is the one that counts, whatever the client claimed in front of it.\<close>

theorem forwarded_header_is_ignored_unless_trusted:
  "if se_trust_forwarded_for (sx_settings X)
   then (if address \<noteq> [] \<and> CHR '','' \<notin> set address \<and> str_strip address = address
         then client_address True (req\<lparr>hr_forwarded_for := claimed @ '','' @ address\<rparr>) = address else True)
   else admit X h (req\<lparr>hr_forwarded_for := claimed\<rparr>) g = admit X h req g"
proof (cases "se_trust_forwarded_for (sx_settings X)")
  case True
  have split: "str_split CHR '','' (claimed @ '','' @ address) = str_split CHR '','' claimed @ [address]"
    if "CHR '','' \<notin> set address"
  proof (induction claimed)
    case Nil
    show ?case using that by (simp add: str_split_no_sep)
  next
    case (Cons c cs)
    then show ?case by (cases "str_split CHR '','' cs") auto
  qed
  have "client_address True (req\<lparr>hr_forwarded_for := claimed @ '','' @ address\<rparr>) = address"
    if "address \<noteq> []" "CHR '','' \<notin> set address" "str_strip address = address"
    using that by (simp add: client_address_def split [simplified])
  with True show ?thesis by simp
next
  case False
  let ?req = "req\<lparr>hr_forwarded_for := claimed\<rparr>"
  have identity: "rate_identity (sx_settings X) ?req tc p = rate_identity (sx_settings X) req tc p" for tc p
    using False by (simp add: rate_identity_def client_address_def)
  have limit: "enforce_rate_limit X h ?req tc p g = enforce_rate_limit X h req tc p g" for tc p g
    unfolding enforce_rate_limit_def identity ..
  have reject: "reject_suspended_and_rate_limit X h ?req = reject_suspended_and_rate_limit X h req"
    by (intro ext) (unfold reject_suspended_and_rate_limit_def limit, rule refl)
  have auth: "authenticate X ?req = authenticate X req"
    by (simp add: fun_eq_iff authenticate_def)
  have "admit X h ?req g = admit X h req g"
    unfolding admit_def reject auth ..
  with False show ?thesis by simp
qed

text \<open>The correlation id that reaches the audit log is the fresh one or a non-empty header of at most the
  allowed length over letters, digits and \<open>. _ : -\<close>; so it holds neither a newline nor a quote, and a
  well-formed header is honoured.\<close>

theorem correlation_id_is_clean:
  "let i = resolve_request_id n header fresh
   in (if i = fresh then True else i \<noteq> [] \<and> length i \<le> n \<and> list_all request_id_char i)
    \<and> (if list_all request_id_char fresh then CHR 0x0A \<notin> set i \<and> CHR 0x22 \<notin> set i else True)
    \<and> (if header \<noteq> [] \<and> length header \<le> n \<and> list_all request_id_char header then i = header else True)"
proof -
  have ctrl: "\<not> request_id_char CHR 0x0A" "\<not> request_id_char CHR 0x22"
    by (simp_all add: request_id_char_def)
  have space: "\<not> is_space c" if "request_id_char c" for c
    using that by (auto simp: request_id_char_def is_space_def Let_def)
  have strip: "str_strip header = header" if "list_all request_id_char header"
    using that by (intro str_strip_id) (auto simp: list_all_iff space)
  show ?thesis
    using ctrl strip by (auto simp: resolve_request_id_def Let_def list_all_iff)
qed
end
