(* ===== verification/Api_Assess.thy ===== *)
theory Api_Assess
  imports Api_Gate
begin

text \<open>
  The assessment endpoints of api/main.py, \<open>POST /api/v1/assess\<close> and \<open>POST /api/v1/assess_output\<close>, with
  the request and response models of api/schemas.py. A response carries the background task the
  scheduler got; FastAPI runs it after a response was returned and drops it when the handler raised.
\<close>

section \<open>Requests and responses\<close>

record assess_request =
  aq_prompt :: string
  aq_response_text :: "string option"
  aq_system_prompt :: "string option"

record 'v assess_response =
  rsp_decision :: string
  rsp_risk_level :: string
  rsp_topicality :: string
  rsp_capability :: string
  rsp_authenticated :: bool
  rsp_details :: "(string \<times> json) list"
  rsp_clean_prompt :: string
  rsp_redacted_items :: "string list"
  rsp_output_decision :: "string option"
  rsp_output_details :: "output_details option"
  rsp_clean_response :: "string option"
  rsp_review_id :: "string option"
  rsp_task :: "'v confirmation_task option"

record assess_output_response =
  aor_decision :: string
  aor_details :: output_details
  aor_clean_response :: "string option"

text \<open>The length limits of the request models; a request outside them is a 422 before the handler.\<close>

definition valid_assess_request :: "assess_request \<Rightarrow> bool" where
  "valid_assess_request q \<longleftrightarrow> aq_prompt q \<noteq> [] \<and> length (aq_prompt q) \<le> 50000
     \<and> (case aq_response_text q of None \<Rightarrow> True | Some t \<Rightarrow> t \<noteq> [] \<and> length t \<le> 50000)
     \<and> (case aq_system_prompt q of None \<Rightarrow> True | Some s \<Rightarrow> length s \<le> 20000)"

definition output_dict :: "output_details \<Rightarrow> (string \<times> json) list" where
  "output_dict d =
     [(''secrets_detected'', JBool (od_secrets_detected d)),
      (''system_prompt_leak_detected'', JBool (od_system_prompt_leak d)),
      (''pii_leakage'', JBool (od_pii_leakage d)), (''toxicity_detected'', JBool (od_toxicity d)),
      (''hallucination_detected'', JBool (od_hallucination d)), (''source'', JStr (od_source d)),
      (''clean_response'', jopt JStr (od_clean_response d))]
     @ (case od_secret_items d of None \<Rightarrow> [] | Some items \<Rightarrow> [(''secret_items'', JList (map JStr items))])
     @ (case od_redacted_items d of None \<Rightarrow> [] | Some items \<Rightarrow> [(''redacted_items'', JList (map JStr items))])"

section \<open>Severity\<close>

definition SEVERITY :: "(string \<times> nat) list" where
  "SEVERITY = [(''ALLOW'', 0), (''RESTRICT'', 1), (''REVIEW'', 2), (''BLOCK'', 3)]"

definition severity :: "nat \<Rightarrow> string \<Rightarrow> nat" where
  "severity missing d = (case map_of SEVERITY d of None \<Rightarrow> missing | Some n \<Rightarrow> n)"

definition combine_decisions :: "string \<Rightarrow> string \<Rightarrow> string" where
  "combine_decisions decision output_decision =
     (if severity 3 output_decision > severity 0 decision then output_decision else decision)"

section \<open>Steps shared with the chat endpoint\<close>

text \<open>Redaction, the risk pipeline on the bounded pool, and the policy.\<close>

record 'v verdict =
  ve_clean :: string
  ve_redacted :: "string list"
  ve_risk :: string
  ve_details :: "(string \<times> json) list"
  ve_decision :: string
  ve_reason :: string
  ve_task :: "'v confirmation_task option"

definition decide_input ::
  "('v, 'c, 'l, 'j, 'w, 'r, 'q) services \<Rightarrow> chance \<Rightarrow> principal \<Rightarrow> tenant_config \<Rightarrow> string
   \<Rightarrow> ('c, 'l, 'j, 'w, 'r, 'q) gateway \<Rightarrow> (api_error, 'v verdict) res \<times> ('c, 'l, 'j, 'w, 'r, 'q) gateway" where
  "decide_input X h p tc prompt g =
     (let (clean, info) = redact_pii (oe_nlp (sx_output_env X)) prompt (Some tc);
          (outcome, rk) = run_bounded (ch_assess h)
             (assess_risk (sx_risk_env X) (sx_risk_ops X) True clean (Some prompt)) (gw_risk g);
          g1 = g\<lparr>gw_risk := rk\<rparr>
      in case outcome of
           None \<Rightarrow> (Inl AssessmentTimeout, g1)
         | Some out \<Rightarrow>
             let (risk, details) = as_return (ou_result out);
                 (decision, reason) = policy_decision (sx_shw X) (pr_capability p) risk (pr_tenant p) None (gw_policy g1)
             in (Inr \<lparr>ve_clean = clean, ve_redacted = pi_items info, ve_risk = risk, ve_details = details,
                      ve_decision = decision, ve_reason = reason, ve_task = ou_task out\<rparr>,
                 g1\<lparr>gw_policy := snd (stores_after_decision (sx_shw X) None (gw_policy g1))\<rparr>))"

definition identity_details ::
  "principal \<Rightarrow> string \<Rightarrow> string \<Rightarrow> (string \<times> json) list \<Rightarrow> (string \<times> json) list" where
  "identity_details p reason request_id details =
     od_set ''tenant'' (JStr (pr_tenant p))
       (od_set ''request_id'' (JStr request_id)
         (od_set ''principal'' (JObj (to_audit p))
           (od_set ''policy_reason'' (JStr reason) details)))"

text \<open>\<open>None\<close> unless the decision is \<open>REVIEW\<close>; a failing save raises \<open>OSError\<close>.\<close>

definition queue_for_review ::
  "('v, 'c, 'l, 'j, 'w, 'r, 'q) services \<Rightarrow> chance \<Rightarrow> principal \<Rightarrow> string \<Rightarrow> string \<Rightarrow> string \<Rightarrow> string \<Rightarrow> string
   \<Rightarrow> ('c, 'l, 'j, 'w, 'r, 'q) gateway \<Rightarrow> (api_error, string option) res \<times> ('c, 'l, 'j, 'w, 'r, 'q) gateway" where
  "queue_for_review X h p request_id decision reason risk content_hash g =
     (if decision \<noteq> ''REVIEW'' then (Inr None, g)
      else case enqueue_review (ch_review_uuid h) (ch_iso_now h) (ch_review_saved h) reason (pr_capability p) risk
                  (pr_tenant p) content_hash request_id (gw_reviews g) of
             (Inl e, q) \<Rightarrow> (Inl (Unhandled ''OSError''), g\<lparr>gw_reviews := q\<rparr>)
           | (Inr r, q) \<Rightarrow> (Inr (Some (rv_id r)), g\<lparr>gw_reviews := q\<rparr>))"

definition guard_output ::
  "('v, 'c, 'l, 'j, 'w, 'r, 'q) services \<Rightarrow> chance \<Rightarrow> string \<Rightarrow> string option \<Rightarrow> tenant_config option
   \<Rightarrow> ('c, 'l, 'j, 'w, 'r, 'q) gateway \<Rightarrow> (api_error, string \<times> output_details) res \<times> ('c, 'l, 'j, 'w, 'r, 'q) gateway" where
  "guard_output X h text system_prompt tc g =
     (let (outcome, j) = run_bounded (ch_output h) (assess_output (sx_output_env X) text system_prompt tc) (rs_judge (gw_risk g));
          g1 = g\<lparr>gw_risk := (gw_risk g)\<lparr>rs_judge := j\<rparr>\<rparr>
      in case outcome of None \<Rightarrow> (Inl OutputTimeout, g1) | Some r \<Rightarrow> (Inr r, g1))"

section \<open>The endpoints\<close>

text \<open>The response is only checked when the input was let through, and without the tenant's settings.\<close>

definition combined_output ::
  "('v, 'c, 'l, 'j, 'w, 'r, 'q) services \<Rightarrow> chance \<Rightarrow> assess_request \<Rightarrow> string
   \<Rightarrow> ('c, 'l, 'j, 'w, 'r, 'q) gateway
   \<Rightarrow> (api_error, (string \<times> string \<times> output_details) option) res \<times> ('c, 'l, 'j, 'w, 'r, 'q) gateway" where
  "combined_output X h q decision g =
     (case aq_response_text q of
        Some text \<Rightarrow>
          if decision \<notin> {''BLOCK'', ''REVIEW''}
          then and_then (guard_output X h text (aq_system_prompt q) None g)
                 (\<lambda>od g1. (Inr (Some (text, fst od, snd od)), g1))
          else (Inr None, g)
      | None \<Rightarrow> (Inr None, g))"

definition final_decision :: "string \<Rightarrow> (string \<times> string \<times> output_details) option \<Rightarrow> string" where
  "final_decision decision out = (case out of None \<Rightarrow> decision | Some (_, od, _) \<Rightarrow> combine_decisions decision od)"

definition final_details ::
  "(string \<times> json) list \<Rightarrow> (string \<times> string \<times> output_details) option \<Rightarrow> string option \<Rightarrow> (string \<times> json) list" where
  "final_details details out review_id =
     (let d1 = (case out of None \<Rightarrow> details
                 | Some (_, _, dets) \<Rightarrow> od_set ''output_assessment'' (JObj (output_dict dets)) details)
      in case review_id of None \<Rightarrow> d1 | Some r \<Rightarrow> od_set ''review_id'' (JStr r) d1)"

definition output_record ::
  "('v, 'c, 'l, 'j, 'w, 'r, 'q) services \<Rightarrow> chance \<Rightarrow> principal \<Rightarrow> string \<Rightarrow> string \<times> string \<times> output_details \<Rightarrow> log_entry" where
  "output_record X h p request_id out =
     (case out of (text, od, dets) \<Rightarrow>
        log_output_event (ch_iso_now h) (sx_sha X) (pr_capability p) text od (output_dict dets) (pr_tenant p) request_id)"

text \<open>Steps 4 and 4b: the record of the final decision, and one of its own for the output.\<close>

definition record_assessment ::
  "('v, 'c, 'l, 'j, 'w, 'r, 'q) services \<Rightarrow> chance \<Rightarrow> principal \<Rightarrow> string \<Rightarrow> log_entry
   \<Rightarrow> (string \<times> string \<times> output_details) option
   \<Rightarrow> ('c, 'l, 'j, 'w, 'r, 'q) gateway \<Rightarrow> (api_error, unit) res \<times> ('c, 'l, 'j, 'w, 'r, 'q) gateway" where
  "record_assessment X h p request_id entry out g =
     and_then (write_audit_or_fail X h entry g) (\<lambda>_ g1.
       case out of None \<Rightarrow> (Inr (), g1) | Some od \<Rightarrow> write_audit_or_fail X h (output_record X h p request_id od) g1)"

definition assess_prompt ::
  "('v, 'c, 'l, 'j, 'w, 'r, 'q) services \<Rightarrow> chance \<Rightarrow> http_request \<Rightarrow> assess_request
   \<Rightarrow> ('c, 'l, 'j, 'w, 'r, 'q) gateway \<Rightarrow> (api_error, 'v assess_response) res \<times> ('c, 'l, 'j, 'w, 'r, 'q) gateway" where
  "assess_prompt X h req q g =
     (let request_id = resolve_request_id (se_request_id_max (sx_settings X)) (hr_request_id req) (ch_uuid h)
      in and_then (admit X h req g) (\<lambda>(p, tc) g1.
         and_then (decide_input X h p tc (aq_prompt q) g1) (\<lambda>v g2.
         and_then (combined_output X h q (ve_decision v) g2) (\<lambda>out g3.
         let decision = final_decision (ve_decision v) out
         in and_then (queue_for_review X h p request_id decision (ve_reason v) (ve_risk v) (sx_sha X (ve_clean v)) g3) (\<lambda>rid g4.
         let details = final_details (identity_details p (ve_reason v) request_id (ve_details v)) out rid
         in and_then (record_assessment X h p request_id
                (log_event (ch_iso_now h) (sx_sha X) (pr_capability p) (ve_clean v) (ve_risk v) decision details) out g4) (\<lambda>_ g5.
            (Inr \<lparr>rsp_decision = decision, rsp_risk_level = ve_risk v,
                  rsp_topicality = text_of (jget_default details ''topicality'' (JStr ''UNKNOWN'')),
                  rsp_capability = pr_capability p, rsp_authenticated = pr_authenticated p, rsp_details = details,
                  rsp_clean_prompt = ve_clean v, rsp_redacted_items = ve_redacted v,
                  rsp_output_decision = map_option (\<lambda>(_, od, _). od) out,
                  rsp_output_details = map_option (\<lambda>(_, _, dets). dets) out,
                  rsp_clean_response = (case out of None \<Rightarrow> None | Some (_, _, dets) \<Rightarrow> od_clean_response dets),
                  rsp_review_id = rid, rsp_task = ve_task v\<rparr>, g5)))))))"

definition assess_output_endpoint ::
  "('v, 'c, 'l, 'j, 'w, 'r, 'q) services \<Rightarrow> chance \<Rightarrow> http_request \<Rightarrow> string \<Rightarrow> string option
   \<Rightarrow> ('c, 'l, 'j, 'w, 'r, 'q) gateway \<Rightarrow> (api_error, assess_output_response) res \<times> ('c, 'l, 'j, 'w, 'r, 'q) gateway" where
  "assess_output_endpoint X h req text system_prompt g =
     (let request_id = resolve_request_id (se_request_id_max (sx_settings X)) (hr_request_id req) (ch_uuid h)
      in and_then (admit X h req g) (\<lambda>(p, tc) g1.
         and_then (guard_output X h text system_prompt (Some tc) g1) (\<lambda>(decision, dets) g2.
         and_then (write_audit_or_fail X h
             (log_output_event (ch_iso_now h) (sx_sha X) (pr_capability p) text decision (output_dict dets)
                (pr_tenant p) request_id) g2) (\<lambda>_ g3.
         (Inr \<lparr>aor_decision = decision, aor_details = dets, aor_clean_response = od_clean_response dets\<rparr>, g3)))))"

text \<open>After the response: the confirmation by the slower judge, when one was scheduled.\<close>

definition run_background ::
  "('v, 'c, 'l, 'j, 'w, 'r, 'q) services \<Rightarrow> bool \<Rightarrow> 'v confirmation_task option
   \<Rightarrow> ('c, 'l, 'j, 'w, 'r, 'q) gateway \<Rightarrow> ('c, 'l, 'j, 'w, 'r, 'q) gateway" where
  "run_background X save_raises task g =
     (case task of
        None \<Rightarrow> g
      | Some t \<Rightarrow> g\<lparr>gw_risk := llama_guard_async_confirmation (sx_risk_env X) (sx_risk_ops X) save_raises
                      (ct_prompt t) (ct_vec t) (ct_risk t) (gw_risk g)\<rparr>)"


section \<open>Lemmas\<close>

lemma decide_input_Inr:
  assumes "decide_input X h p tc prompt g = (Inr v, g')"
  shows "(ve_decision v, ve_reason v) = policy_decision (sx_shw X) (pr_capability p) (ve_risk v) (pr_tenant p) None (gw_policy g)"
    and "ve_clean v = fst (redact_pii (oe_nlp (sx_output_env X)) prompt (Some tc))"
    and "gw_trail g' = gw_trail g" and "gw_reviews g' = gw_reviews g" and "gw_quota g' = gw_quota g"
    and "gw_calls g' = gw_calls g" and "gw_world g' = gw_world g"
  using assms by (auto simp: decide_input_def Let_def split: prod.splits option.splits)

lemma decide_input_Inl:
  assumes "decide_input X h p tc prompt g = (Inl e, g')"
  shows "e = AssessmentTimeout" and "gw_trail g' = gw_trail g" and "gw_reviews g' = gw_reviews g"
    and "gw_quota g' = gw_quota g" and "gw_calls g' = gw_calls g" and "gw_world g' = gw_world g" and "gw_policy g' = gw_policy g"
  using assms by (auto simp: decide_input_def Let_def split: prod.splits option.splits)

lemma guard_output_frame:
  assumes "guard_output X h text sp tc g = (r, g')"
  shows "gw_trail g' = gw_trail g" and "gw_reviews g' = gw_reviews g" and "gw_quota g' = gw_quota g"
    and "gw_calls g' = gw_calls g" and "gw_world g' = gw_world g" and "gw_policy g' = gw_policy g"
  using assms by (auto simp: guard_output_def Let_def split: prod.splits option.splits)

lemma guard_output_Inr:
  assumes "guard_output X h text sp tc g = (Inr r, g')"
  shows "r = fst (assess_output (sx_output_env X) text sp tc (rs_judge (gw_risk g)))"
  using assms by (auto simp: guard_output_def run_bounded_def Let_def split: prod.splits option.splits bounded.splits)

lemma guard_output_Inl: "guard_output X h text sp tc g = (Inl e, g') \<Longrightarrow> e = OutputTimeout"
  by (auto simp: guard_output_def Let_def split: prod.splits option.splits)

lemma combined_output_frame:
  assumes "combined_output X h q d g = (r, g')"
  shows "gw_trail g' = gw_trail g" and "gw_reviews g' = gw_reviews g" and "gw_quota g' = gw_quota g"
    and "gw_calls g' = gw_calls g" and "gw_world g' = gw_world g" and "gw_policy g' = gw_policy g"
proof -
  have "gw_trail g' = gw_trail g \<and> gw_reviews g' = gw_reviews g \<and> gw_quota g' = gw_quota g \<and>
    gw_calls g' = gw_calls g \<and> gw_world g' = gw_world g \<and> gw_policy g' = gw_policy g"
  proof (cases "\<exists>text. aq_response_text q = Some text \<and> d \<notin> {''BLOCK'', ''REVIEW''}")
    case True
    then obtain msg where "and_then (guard_output X h msg (aq_system_prompt q) None g)
        (\<lambda>od g1. (Inr (Some (msg, fst od, snd od)), g1)) = (r, g')"
      using assms by (auto simp: combined_output_def)
    then show ?thesis
      by (cases rule: and_then_cases) (auto dest: guard_output_frame)
  qed (use assms in \<open>auto simp: combined_output_def split: option.splits if_splits\<close>)
  then show "gw_trail g' = gw_trail g" "gw_reviews g' = gw_reviews g" "gw_quota g' = gw_quota g"
    "gw_calls g' = gw_calls g" "gw_world g' = gw_world g" "gw_policy g' = gw_policy g" by blast+
qed

lemma combined_output_Inr:
  assumes "combined_output X h q d g = (Inr out, g')"
  shows "(if d \<in> {''BLOCK'', ''REVIEW''} \<or> aq_response_text q = None then out = None
          else \<exists>text. aq_response_text q = Some text \<and> out = Some (text,
                 fst (assess_output (sx_output_env X) text (aq_system_prompt q) None (rs_judge (gw_risk g)))))"
  using assms by (auto simp: combined_output_def dest!: guard_output_Inr split: option.splits if_splits)

lemma queue_for_review_frame:
  assumes "queue_for_review X h p i d reason risk hash g = (r, g')"
  shows "gw_trail g' = gw_trail g" and "gw_calls g' = gw_calls g" and "gw_quota g' = gw_quota g"
    and "gw_policy g' = gw_policy g" and "gw_risk g' = gw_risk g" and "gw_world g' = gw_world g"
    and "d \<noteq> ''REVIEW'' \<Longrightarrow> g' = g \<and> r = Inr None"
  using assms by (auto simp: queue_for_review_def split: if_splits prod.splits sum.splits)

lemma write_audit_frame:
  assumes "write_audit_or_fail X h e g = (r, g')"
  shows "\<exists>t. g' = g\<lparr>gw_trail := t\<rparr>"
  using assms by (auto simp: write_audit_or_fail_def write_record_def split: prod.splits sum.splits if_splits)

lemma record_assessment_frame:
  assumes "record_assessment X h p i e out g = (r, g')"
  shows "\<exists>t. g' = g\<lparr>gw_trail := t\<rparr>"
  using assms unfolding record_assessment_def
  by (cases rule: and_then_cases) (auto dest!: write_audit_frame split: option.splits)

lemma assess_prompt_Inr:
  assumes "assess_prompt X h req q g = (Inr r, g')"
  obtains p tc g1 v g2 out g3 g4 where
    "admit X h req g = (Inr (p, tc), g1)" and "decide_input X h p tc (aq_prompt q) g1 = (Inr v, g2)"
    and "combined_output X h q (ve_decision v) g2 = (Inr out, g3)"
    and "queue_for_review X h p (resolve_request_id (se_request_id_max (sx_settings X)) (hr_request_id req) (ch_uuid h))
           (rsp_decision r) (ve_reason v) (ve_risk v) (sx_sha X (ve_clean v)) g3 = (Inr (rsp_review_id r), g4)"
    and "record_assessment X h p (resolve_request_id (se_request_id_max (sx_settings X)) (hr_request_id req) (ch_uuid h))
           (log_event (ch_iso_now h) (sx_sha X) (pr_capability p) (ve_clean v) (ve_risk v) (rsp_decision r) (rsp_details r))
           out g4 = (Inr (), g')"
    and "rsp_decision r = final_decision (ve_decision v) out" and "rsp_risk_level r = ve_risk v"
    and "rsp_details r = final_details (identity_details p (ve_reason v)
           (resolve_request_id (se_request_id_max (sx_settings X)) (hr_request_id req) (ch_uuid h)) (ve_details v)) out (rsp_review_id r)"
    and "rsp_output_decision r = map_option (\<lambda>(_, od, _). od) out" and "rsp_capability r = pr_capability p"
    and "rsp_clean_response r = (case out of None \<Rightarrow> None | Some (_, _, dets) \<Rightarrow> od_clean_response dets)"
    and "rsp_clean_prompt r = ve_clean v"
  using assms unfolding assess_prompt_def Let_def
  by (auto split: prod.splits)


lemma assess_output_decision: "fst (fst (assess_output E text sp tc b)) \<in> {''ALLOW'', ''BLOCK''}"
  by (auto simp: assess_output_def Let_def split: prod.splits)

lemma severity_simps [simp]:
  "severity n ''ALLOW'' = 0" "severity n ''RESTRICT'' = 1" "severity n ''REVIEW'' = 2" "severity n ''BLOCK'' = 3"
  by (simp_all add: severity_def SEVERITY_def)

lemma combine_severity:
  assumes "od \<in> {''ALLOW'', ''BLOCK''}"
  shows "severity 0 (combine_decisions d od) = max (severity 0 d) (severity 3 od)"
  using assms by (auto simp: combine_decisions_def)

lemma admit_protected:
  assumes "admit X h req g = (r, g')"
  shows "gw_policy g' = gw_policy g" and "gw_trail g' = gw_trail g" and "gw_reviews g' = gw_reviews g"
    and "gw_quota g' = gw_quota g" and "gw_calls g' = gw_calls g" and "gw_risk g' = gw_risk g" and "gw_world g' = gw_world g"
  using admit_frame [OF assms] by (simp_all add: protected_def)

lemma admit_principal:
  assumes "admit X h req g = (Inr (p, tc), g')"
  shows "fst (authenticate X req g) = Inr p"
proof -
  from assms obtain g1 where "authenticate X req g = (Inr p, g1)"
    unfolding admit_def by (auto split: if_splits)
  then show ?thesis by simp
qed

lemma admit_status:
  assumes "admit X h req g = (Inl e, g')"
  shows "status_code e \<in> {401, 403, 429, 500}"
  using assms unfolding admit_def
  by (auto simp: authenticate_def reject_suspended_and_rate_limit_def enforce_rate_limit_def Let_def
      split: prod.splits sum.splits if_splits auth_error.splits)

lemma queue_status: "queue_for_review X h p i d reason risk hash g = (Inl e, g') \<Longrightarrow> status_code e = 500"
  by (auto simp: queue_for_review_def split: if_splits prod.splits sum.splits)

lemma write_audit_status: "write_audit_or_fail X h e g = (Inl err, g') \<Longrightarrow> err = AuditUnavailable"
  by (auto simp: write_audit_or_fail_def split: prod.splits sum.splits if_splits)

lemma record_assessment_status: "record_assessment X h p i e out g = (Inl err, g') \<Longrightarrow> err = AuditUnavailable"
  by (auto simp: record_assessment_def dest!: write_audit_status split: option.splits)

lemma combined_output_Inl: "combined_output X h q d g = (Inl e, g') \<Longrightarrow> e = OutputTimeout"
  by (auto simp: combined_output_def dest!: guard_output_Inl split: option.splits if_splits)

lemma assess_prompt_status:
  assumes "assess_prompt X h req q g = (Inl e, g')"
  shows "status_code e \<in> {401, 403, 429, 500, 503}"
  using assms unfolding assess_prompt_def Let_def
  by (auto split: prod.splits option.splits
      dest!: admit_status decide_input_Inl(1) combined_output_Inl queue_status record_assessment_status)

lemma combined_output_decision:
  assumes "combined_output X h q d g = (Inr (Some (reply, od, dets)), g')"
  shows "od \<in> {''ALLOW'', ''BLOCK''}"
proof -
  from combined_output_Inr [OF assms] obtain msg where
    "Some (reply, od, dets) = Some (msg, fst (assess_output (sx_output_env X) msg (aq_system_prompt q) None (rs_judge (gw_risk g))))"
    by (auto split: if_splits)
  then have "od = fst (fst (assess_output (sx_output_env X) msg (aq_system_prompt q) None (rs_judge (gw_risk g))))"
    by (metis Pair_inject fst_conv option.inject)
  then show ?thesis using assess_output_decision by simp
qed

lemma enqueue_review_Inr:
  assumes "enqueue_review u now ok reason cap risk tenant hash rid c = (Inr r, c')"
  shows "fst (get_review u c') = Some r" and "rv_id r = u" and "\<exists>recs. fst c' = Saved recs \<and> map_of recs u = Some r"
    and "rv_status r = ''PENDING''" and "rv_final_decision r = None" and "rv_risk r = risk" and "rv_prompt_hash r = hash"
    and "rv_capability r = cap" and "rv_tenant r = tenant"
  using assms
  by (auto simp: enqueue_review_def get_review_def review_load_def review_save_def put_record_def map_of_od_set Let_def
      split: prod.splits if_splits)

lemma queue_for_review_Some:
  assumes "queue_for_review X h p i d reason risk hash g = (Inr (Some rid), g')"
  obtains rec where "d = ''REVIEW''" and "fst (get_review rid (gw_reviews g')) = Some rec" and "rv_status rec = ''PENDING''"
    and "rv_final_decision rec = None" and "rv_risk rec = risk" and "rv_prompt_hash rec = hash"
    and "rv_capability rec = pr_capability p" and "\<exists>recs. fst (gw_reviews g') = Saved recs \<and> map_of recs rid \<noteq> None"
proof -
  from assms obtain r c' where d: "d = ''REVIEW''" and e: "enqueue_review (ch_review_uuid h) (ch_iso_now h) (ch_review_saved h)
      reason (pr_capability p) risk (pr_tenant p) hash i (gw_reviews g) = (Inr r, c')"
    and "rid = rv_id r" and "gw_reviews g' = c'"
    by (auto simp: queue_for_review_def split: if_splits prod.splits sum.splits)
  with enqueue_review_Inr [OF e] show ?thesis by (intro that [of r]) auto
qed

section \<open>Properties\<close>

text \<open>Claim C5: the answer of \<open>/assess\<close> carries the capability of the caller's key, and its decision is exactly as severe
  as the more severe of two verdicts: the policy's on the input risk for that capability and tenant, and
  the output guard's on the submitted response. The response is checked exactly when the caller sent one
  and the policy neither blocked nor withheld the prompt. Whatever stops the request is a 401, 403, 429,
  500 or 503.\<close>

theorem assess_takes_the_more_severe:
  "case fst (assess_prompt X h req q g) of
     Inr r \<Rightarrow> \<exists>p. fst (authenticate X req g) = Inr p \<and> rsp_capability r = pr_capability p
       \<and> (let d = fst (policy_decision (sx_shw X) (pr_capability p) (rsp_risk_level r) (pr_tenant p) None (gw_policy g))
          in severity 0 (rsp_decision r)
               = max (severity 0 d) (case rsp_output_decision r of None \<Rightarrow> 0 | Some od \<Rightarrow> severity 3 od)
             \<and> (rsp_output_decision r = None \<longleftrightarrow> d \<in> {''BLOCK'', ''REVIEW''} \<or> aq_response_text q = None))
   | Inl e \<Rightarrow> status_code e \<in> {401, 403, 429, 500, 503}"
proof (cases "assess_prompt X h req q g")
  case (Pair res g')
  show ?thesis
  proof (cases res)
    case (Inl e)
    with Pair assess_prompt_status show ?thesis by force
  next
    case (Inr r)
    with Pair have "assess_prompt X h req q g = (Inr r, g')" by simp
    then obtain p tc g1 v g2 out g3 where a: "admit X h req g = (Inr (p, tc), g1)"
      and d: "decide_input X h p tc (aq_prompt q) g1 = (Inr v, g2)"
      and c: "combined_output X h q (ve_decision v) g2 = (Inr out, g3)"
      and r: "rsp_decision r = final_decision (ve_decision v) out" "rsp_risk_level r = ve_risk v"
        "rsp_output_decision r = map_option (\<lambda>(_, od, _). od) out" "rsp_capability r = pr_capability p"
      by (rule assess_prompt_Inr)
    have pd: "ve_decision v = fst (policy_decision (sx_shw X) (pr_capability p) (ve_risk v) (pr_tenant p) None (gw_policy g))"
      using decide_input_Inr(1) [OF d] admit_protected(1) [OF a] by (metis fst_conv)
    have "severity 0 (rsp_decision r) = max (severity 0 (ve_decision v))
        (case rsp_output_decision r of None \<Rightarrow> 0 | Some od \<Rightarrow> severity 3 od)
      \<and> (rsp_output_decision r = None \<longleftrightarrow> ve_decision v \<in> {''BLOCK'', ''REVIEW''} \<or> aq_response_text q = None)"
    proof (cases out)
      case None
      with combined_output_Inr [OF c] r show ?thesis by (auto simp: final_decision_def split: if_splits)
    next
      case (Some o3)
      obtain msg od dets where o3: "o3 = (msg, od, dets)" by (cases o3)
      have "od \<in> {''ALLOW'', ''BLOCK''}"
        by (rule combined_output_decision) (use c Some o3 in simp)
      with combined_output_Inr [OF c] r Some o3 show ?thesis
        by (auto simp: final_decision_def combine_severity split: if_splits)
    qed
    with pd r admit_principal [OF a] Inr Pair show ?thesis
      by (auto simp: Let_def)
  qed
qed

text \<open>An answer names a review exactly when its decision is \<open>REVIEW\<close>, and then a reviewer looking the number
  up finds a pending record, saved to the file, of this risk, this caller's capability and the hash of the
  redacted prompt; without one the queue is untouched.\<close>

theorem review_reply_is_queued:
  "case assess_prompt X h req q g of
     (Inr r, g') \<Rightarrow> (case rsp_review_id r of
        None \<Rightarrow> rsp_decision r \<noteq> ''REVIEW'' \<and> gw_reviews g' = gw_reviews g
      | Some rid \<Rightarrow> rsp_decision r = ''REVIEW'' \<and>
          (case fst (get_review rid (gw_reviews g')) of
             None \<Rightarrow> False
           | Some rec \<Rightarrow> rv_status rec = ''PENDING'' \<and> rv_final_decision rec = None \<and> rv_risk rec = rsp_risk_level r
                \<and> rv_prompt_hash rec = sx_sha X (rsp_clean_prompt r) \<and> rv_capability rec = rsp_capability r)
          \<and> (\<exists>recs. fst (gw_reviews g') = Saved recs \<and> map_of recs rid \<noteq> None))
   | (Inl e, g') \<Rightarrow> True"
proof (cases "assess_prompt X h req q g")
  case (Pair res g')
  show ?thesis
  proof (cases res)
    case (Inr r)
    with Pair have "assess_prompt X h req q g = (Inr r, g')" by simp
    then obtain p tc g1 v g2 out g3 g4 i where a: "admit X h req g = (Inr (p, tc), g1)"
      and d: "decide_input X h p tc (aq_prompt q) g1 = (Inr v, g2)"
      and c: "combined_output X h q (ve_decision v) g2 = (Inr out, g3)"
      and rev: "queue_for_review X h p i (rsp_decision r) (ve_reason v) (ve_risk v) (sx_sha X (ve_clean v)) g3
                  = (Inr (rsp_review_id r), g4)"
      and w: "record_assessment X h p i (log_event (ch_iso_now h) (sx_sha X) (pr_capability p) (ve_clean v) (ve_risk v)
           (rsp_decision r) (rsp_details r)) out g4 = (Inr (), g')"
      and r: "rsp_risk_level r = ve_risk v" "rsp_capability r = pr_capability p" "rsp_clean_prompt r = ve_clean v"
      by (rule assess_prompt_Inr)
    have q3: "gw_reviews g3 = gw_reviews g"
      using admit_protected(3) [OF a] decide_input_Inr(4) [OF d] combined_output_frame(2) [OF c] by simp
    have q': "gw_reviews g' = gw_reviews g4"
      using record_assessment_frame [OF w] by auto
    show ?thesis
    proof (cases "rsp_review_id r")
      case None
      with rev have "rsp_decision r \<noteq> ''REVIEW''"
        by (auto simp: queue_for_review_def split: prod.splits sum.splits)
      with queue_for_review_frame(7) [OF rev this] q3 q' None Pair Inr show ?thesis by auto
    next
      case (Some rid)
      with rev have "queue_for_review X h p i (rsp_decision r) (ve_reason v) (ve_risk v) (sx_sha X (ve_clean v)) g3 = (Inr (Some rid), g4)"
        by simp
      from queue_for_review_Some [OF this] obtain rec where "rsp_decision r = ''REVIEW''" "fst (get_review rid (gw_reviews g4)) = Some rec"
        "rv_status rec = ''PENDING''" "rv_final_decision rec = None" "rv_risk rec = ve_risk v" "rv_prompt_hash rec = sx_sha X (ve_clean v)"
        "rv_capability rec = pr_capability p" "\<exists>recs. fst (gw_reviews g4) = Saved recs \<and> map_of recs rid \<noteq> None"
        by blast
      with Some q' r Pair Inr show ?thesis by simp
    qed
  qed (use Pair in simp)
qed

lemma write_audit_strict:
  assumes "as_sqlite_enabled (se_audit (sx_settings X))" and "as_read_from_sqlite (se_audit (sx_settings X))"
    and "as_fails_closed (se_audit (sx_settings X))" and "write_audit_or_fail X h e g = (Inr (), g')"
  shows "at_db (gw_trail g') = db_write (sx_dumps X) (text_of (jget e ''event_type'')) e (at_db (gw_trail g))"
  using assms
  by (auto simp: write_audit_or_fail_def write_record_def emit_record_def mirror_to_sqlite_def Let_def
      split: prod.splits sum.splits if_splits)

lemma log_event_simps:
  "text_of (jget (log_event now sha cap prompt risk d meta) ''event_type'') = ''input_assessment''"
  "jget (log_event now sha cap prompt risk d meta) ''decision'' = JStr d"
  "jget (log_event now sha cap prompt risk d meta) ''risk'' = JStr risk"
  "jget (log_event now sha cap prompt risk d meta) ''capability'' = JStr cap"
  "jget (log_event now sha cap prompt risk d meta) ''prompt_hash'' = JStr (sha prompt)"
  "jget (log_event now sha cap prompt risk d meta) ''request_id'' = jget_default meta ''request_id'' (JStr ''unset'')"
  "jget (log_event now sha cap prompt risk d meta) ''tenant'' = jget_default meta ''tenant'' (JStr ''unset'')"
  by (simp_all add: log_event_def jget_def text_of_def)

lemma output_record_simps:
  "text_of (jget (output_record X h p i (msg, od, dets)) ''event_type'') = ''output_assessment''"
  "jget (output_record X h p i (msg, od, dets)) ''decision'' = JStr od"
  "jget (output_record X h p i (msg, od, dets)) ''request_id'' = JStr i"
  by (simp_all add: output_record_def log_output_event_def jget_def text_of_def)

lemma row_cells:
  assumes "map_of COLUMNS et = Some cols" and "c \<in> set cols" and "c \<noteq> ''usage_json''" and "c \<notin> set BOOL_COLUMNS"
  shows "jget (coerce_row dumps cols e) c = jget e c"
  using assms by (simp add: coerce_row_def map_of_graph coerce_cell_def jget_def)

lemma final_details_identity:
  "jget_default (final_details (identity_details p reason i ds) out rid) ''request_id'' d = JStr i"
  "jget_default (final_details (identity_details p reason i ds) out rid) ''tenant'' d = JStr (pr_tenant p)"
  by (auto simp: final_details_def identity_details_def jget_default_def map_of_od_set Let_def split: option.splits prod.splits)

text \<open>What the records of one assessment leave in a database that refuses nothing.\<close>

lemma record_assessment_rows:
  fixes X :: "('v, 'c, 'l, 'j, 'w, 'r, 'q) services"
  assumes strict: "as_sqlite_enabled (se_audit (sx_settings X)) \<and> as_read_from_sqlite (se_audit (sx_settings X))"
      "as_fails_closed (se_audit (sx_settings X))"
    and e: "e = log_event now (sx_sha X) cap clean risk decision details"
    and rec: "record_assessment X h p i e out g = (Inr (), g')"
  obtains row where "at_db (gw_trail g') ''input_assessment'' = at_db (gw_trail g) ''input_assessment'' @ [row]"
      "\<And>c. c \<in> {''decision'', ''risk'', ''capability'', ''request_id'', ''prompt_hash''} \<Longrightarrow> jget row c = jget e c"
      "case out of
         None \<Rightarrow> at_db (gw_trail g') ''output_assessment'' = at_db (gw_trail g) ''output_assessment''
       | Some (msg, od, dets) \<Rightarrow> \<exists>row. at_db (gw_trail g') ''output_assessment'' = at_db (gw_trail g) ''output_assessment'' @ [row]
           \<and> jget row ''decision'' = JStr od \<and> jget row ''request_id'' = JStr i"
proof -
  from rec obtain g5 where w: "write_audit_or_fail X h e g = (Inr (), g5)"
    and w2: "(case out of None \<Rightarrow> (Inr (), g5) | Some od \<Rightarrow> write_audit_or_fail X h (output_record X h p i od) g5) = (Inr (), g')"
    unfolding record_assessment_def by auto
  let ?row = "coerce_row (sx_dumps X) (the (map_of COLUMNS ''input_assessment'')) e"
  note db5 = write_audit_strict [OF strict(1)[THEN conjunct1] _ _ w [unfolded e], unfolded log_event_simps]
  have in5: "at_db (gw_trail g5) ''input_assessment'' = at_db (gw_trail g) ''input_assessment'' @ [?row]"
    and out5: "at_db (gw_trail g5) ''output_assessment'' = at_db (gw_trail g) ''output_assessment''"
    using db5 strict by (simp_all add: e db_write_def columns_of)
  have row: "jget ?row c = jget e c" if "c \<in> {''decision'', ''risk'', ''capability'', ''request_id'', ''prompt_hash''}" for c
    using that by (intro row_cells [of "''input_assessment''"]) (auto simp: columns_of BOOL_COLUMNS_def)
  show thesis
  proof (cases out)
    case None
    with w2 have "g5 = g'" by simp
    with in5 out5 row None show ?thesis by (intro that [of ?row]) simp_all
  next
    case (Some o3)
    obtain msg od dets where o3: "o3 = (msg, od, dets)" by (cases o3)
    let ?o = "output_record X h p i (msg, od, dets)"
    from w2 Some o3 have w2': "write_audit_or_fail X h ?o g5 = (Inr (), g')" by simp
    note db' = write_audit_strict [OF strict(1)[THEN conjunct1] _ _ w2', unfolded output_record_simps]
    have "jget (coerce_row (sx_dumps X) (the (map_of COLUMNS ''output_assessment'')) ?o) c = jget ?o c"
      if "c \<in> {''decision'', ''request_id''}" for c
      using that by (intro row_cells [of "''output_assessment''"]) (auto simp: columns_of BOOL_COLUMNS_def)
    then show ?thesis
      using db' strict in5 out5 Some o3 row by (intro that [of ?row]) (simp_all add: db_write_def columns_of output_record_simps)
  qed
qed

text \<open>Claim C2: with the audit database switched on, read from and failing closed, no decision leaves the service
  unrecorded: an answer implies exactly one new row in the table of input assessments with the decision,
  risk, capability, correlation id and prompt hash of the answer, and one new row in the table of output
  assessments exactly when the response was checked, with its verdict and the same id.\<close>

theorem served_decision_is_on_record:
  "if as_sqlite_enabled (se_audit (sx_settings X)) \<and> as_read_from_sqlite (se_audit (sx_settings X))
      \<and> as_fails_closed (se_audit (sx_settings X))
   then (case assess_prompt X h req q g of
       (Inr r, g') \<Rightarrow>
         let i = resolve_request_id (se_request_id_max (sx_settings X)) (hr_request_id req) (ch_uuid h);
             db = at_db (gw_trail g); db' = at_db (gw_trail g')
         in (\<exists>row. db' ''input_assessment'' = db ''input_assessment'' @ [row]
               \<and> jget row ''decision'' = JStr (rsp_decision r) \<and> jget row ''risk'' = JStr (rsp_risk_level r)
               \<and> jget row ''capability'' = JStr (rsp_capability r) \<and> jget row ''request_id'' = JStr i
               \<and> jget row ''prompt_hash'' = JStr (sx_sha X (rsp_clean_prompt r)))
            \<and> (case rsp_output_decision r of
                 None \<Rightarrow> db' ''output_assessment'' = db ''output_assessment''
               | Some od \<Rightarrow> \<exists>row. db' ''output_assessment'' = db ''output_assessment'' @ [row]
                   \<and> jget row ''decision'' = JStr od \<and> jget row ''request_id'' = JStr i)
     | (Inl e, g') \<Rightarrow> True)
   else True"
proof (cases "as_sqlite_enabled (se_audit (sx_settings X)) \<and> as_read_from_sqlite (se_audit (sx_settings X))
      \<and> as_fails_closed (se_audit (sx_settings X))")
  case strict: True
  let ?i = "resolve_request_id (se_request_id_max (sx_settings X)) (hr_request_id req) (ch_uuid h)"
  show ?thesis
  proof (cases "assess_prompt X h req q g")
    case (Pair res g')
    show ?thesis
    proof (cases res)
      case (Inr r)
      with Pair have "assess_prompt X h req q g = (Inr r, g')" by simp
      then show ?thesis
      proof (cases rule: assess_prompt_Inr)
        case (1 p tc g1 v g2 out g3 g4)
        have "gw_trail g4 = gw_trail g"
          using admit_protected(2) [OF 1(1)] decide_input_Inr(3) [OF 1(2)] combined_output_frame(1) [OF 1(3)]
            queue_for_review_frame(1) [OF 1(4)] by simp
        moreover from strict 1(5) obtain row where
          "at_db (gw_trail g') ''input_assessment'' = at_db (gw_trail g4) ''input_assessment'' @ [row]"
          and row: "\<And>c. c \<in> {''decision'', ''risk'', ''capability'', ''request_id'', ''prompt_hash''} \<Longrightarrow>
            jget row c = jget (log_event (ch_iso_now h) (sx_sha X) (pr_capability p) (ve_clean v) (ve_risk v) (rsp_decision r) (rsp_details r)) c"
          and "case out of None \<Rightarrow> at_db (gw_trail g') ''output_assessment'' = at_db (gw_trail g4) ''output_assessment''
            | Some (msg, od, dets) \<Rightarrow> \<exists>row. at_db (gw_trail g') ''output_assessment'' = at_db (gw_trail g4) ''output_assessment'' @ [row]
                \<and> jget row ''decision'' = JStr od \<and> jget row ''request_id'' = JStr ?i"
          by (elim record_assessment_rows [OF _ _ refl, rotated 2]) simp_all
        ultimately show ?thesis
          using strict Inr Pair 1(7-12) row by (auto simp: Let_def log_event_simps final_details_identity(1) split: option.splits)
      qed
    qed (use Pair in simp)
  qed
next
  case False
  then show ?thesis by (simp only: if_False)
qed

lemma and_then_fst_cong:
  "(\<And>a s. fst (f a s) = fst (f' a s)) \<Longrightarrow> fst (and_then m f) = fst (and_then m f')"
  by (auto simp: and_then_def split: prod.splits sum.splits)

text \<open>Nothing before the audit depends on whether the audit will succeed.\<close>

lemma audit_outcome_unused [simp]:
  "admit X (h\<lparr>ch_audit := w\<rparr>) req g = admit X h req g"
  "decide_input X (h\<lparr>ch_audit := w\<rparr>) p tc prompt g = decide_input X h p tc prompt g"
  "combined_output X (h\<lparr>ch_audit := w\<rparr>) q d g = combined_output X h q d g"
  "queue_for_review X (h\<lparr>ch_audit := w\<rparr>) p i d reason risk hash g = queue_for_review X h p i d reason risk hash g"
  "output_record X (h\<lparr>ch_audit := w\<rparr>) p i out = output_record X h p i out"
proof -
  let ?h = "h\<lparr>ch_audit := w\<rparr>"
  have limit: "enforce_rate_limit X ?h req tc p g = enforce_rate_limit X h req tc p g" for tc p g
    by (simp add: enforce_rate_limit_def)
  have reject: "reject_suspended_and_rate_limit X ?h req = reject_suspended_and_rate_limit X h req"
    by (intro ext) (unfold reject_suspended_and_rate_limit_def limit, rule refl)
  show "admit X ?h req g = admit X h req g"
    unfolding admit_def reject ..
  have guard: "guard_output X ?h msg sp tc g = guard_output X h msg sp tc g" for msg sp tc g
    by (simp add: guard_output_def)
  show "combined_output X ?h q d g = combined_output X h q d g"
    unfolding combined_output_def guard ..
qed (simp_all add: decide_input_def queue_for_review_def output_record_def)

lemma write_audit_lenient:
  assumes "\<not> as_read_from_sqlite (se_audit (sx_settings X))"
  shows "\<exists>t. write_audit_or_fail X h e g = (Inr (), g\<lparr>gw_trail := t\<rparr>)"
proof -
  have same: "\<exists>t. g = g\<lparr>gw_trail := t\<rparr>" by (rule exI [of _ "gw_trail g"]) simp
  show ?thesis
    using assms same
    by (auto simp: write_audit_or_fail_def write_record_def emit_record_def mirror_to_sqlite_def Let_def
        split: prod.splits sum.splits)
qed

lemma write_audit_lost:
  assumes "\<not> as_read_from_sqlite (se_audit (sx_settings X))"
  shows "write_audit_or_fail X (h\<lparr>ch_audit := \<lambda>_. \<lparr>wo_jsonl = False, wo_sqlite = False\<rparr>\<rparr>) e g = (Inr (), g)"
  using assms
  by (simp add: write_audit_or_fail_def write_record_def emit_record_def mirror_to_sqlite_def Let_def)

lemma record_lenient:
  assumes "\<not> as_read_from_sqlite (se_audit (sx_settings X))"
  shows "fst (record_assessment X h p i e out g) = Inr ()"
    and "record_assessment X (h\<lparr>ch_audit := \<lambda>_. \<lparr>wo_jsonl = False, wo_sqlite = False\<rparr>\<rparr>) p i e out g = (Inr (), g)"
proof -
  obtain t where t: "write_audit_or_fail X h e g = (Inr (), g\<lparr>gw_trail := t\<rparr>)"
    using write_audit_lenient [OF assms] by blast
  have "fst (write_audit_or_fail X h (output_record X h p i od) g1) = Inr ()" for od g1
    using write_audit_lenient [OF assms, of h "output_record X h p i od" g1] by auto
  then show "fst (record_assessment X h p i e out g) = Inr ()"
    using t by (simp add: record_assessment_def and_then_eqs split: option.splits)
  show "record_assessment X (h\<lparr>ch_audit := \<lambda>_. \<lparr>wo_jsonl = False, wo_sqlite = False\<rparr>\<rparr>) p i e out g = (Inr (), g)"
    by (simp add: record_assessment_def write_audit_lost [OF assms] and_then_eqs split: option.splits)
qed

lemma and_then_value: "fst m = Inr u \<Longrightarrow> fst (and_then m (\<lambda>_ s. (Inr b, s))) = Inr b"
  by (cases m) (simp add: and_then_eqs)

text \<open>As long as the database is not the source that is read from, losing the audit has no effect on the
  caller: if neither the log file nor the database can be written, the answer is the same as if both had
  been, and nothing is recorded. \<open>AUDIT_WRITE_FAILS_CLOSED\<close> does not see it, because the logging handler
  swallows its own write errors.\<close>

theorem lost_audit_is_not_noticed:
  "if as_read_from_sqlite (se_audit (sx_settings X)) then True
   else let lost = h\<lparr>ch_audit := \<lambda>_. \<lparr>wo_jsonl = False, wo_sqlite = False\<rparr>\<rparr>
        in fst (assess_prompt X lost req q g) = fst (assess_prompt X h req q g)
           \<and> (case assess_prompt X lost req q g of (Inr r, g') \<Rightarrow> gw_trail g' = gw_trail g | (Inl e, g') \<Rightarrow> True)"
proof (cases "as_read_from_sqlite (se_audit (sx_settings X))")
  case False
  let ?lost = "h\<lparr>ch_audit := \<lambda>_. \<lparr>wo_jsonl = False, wo_sqlite = False\<rparr>\<rparr>"
  have sel: "ch_uuid ?lost = ch_uuid h" "ch_iso_now ?lost = ch_iso_now h" by simp_all
  have same: "fst (assess_prompt X ?lost req q g) = fst (assess_prompt X h req q g)"
    unfolding assess_prompt_def Let_def audit_outcome_unused case_prod_beta sel
    by (intro and_then_fst_cong) (simp only: and_then_value [OF record_lenient(1) [OF False]])
  have "gw_trail g' = gw_trail g" if "assess_prompt X ?lost req q g = (Inr r, g')" for r g'
  proof -
    from that obtain p tc g1 v g2 out g3 g4 i e where a: "admit X ?lost req g = (Inr (p, tc), g1)"
      and d: "decide_input X ?lost p tc (aq_prompt q) g1 = (Inr v, g2)"
      and c: "combined_output X ?lost q (ve_decision v) g2 = (Inr out, g3)"
      and rev: "queue_for_review X ?lost p i (rsp_decision r) (ve_reason v) (ve_risk v) (sx_sha X (ve_clean v)) g3
                  = (Inr (rsp_review_id r), g4)"
      and w: "record_assessment X ?lost p i e out g4 = (Inr (), g')"
      by (rule assess_prompt_Inr)
    then show ?thesis
      using admit_protected(2) [OF a] decide_input_Inr(3) [OF d] combined_output_frame(1) [OF c]
        queue_for_review_frame(1) [OF rev] w record_lenient(2) [OF False] by simp
  qed
  with same False show ?thesis by (auto simp: Let_def split: prod.splits sum.splits)
qed simp

lemma record_strict_lost:
  assumes "as_sqlite_enabled (se_audit (sx_settings X))" and "as_read_from_sqlite (se_audit (sx_settings X))"
    and "as_fails_closed (se_audit (sx_settings X))"
  shows "record_assessment X (h\<lparr>ch_audit := \<lambda>_. \<lparr>wo_jsonl = False, wo_sqlite = False\<rparr>\<rparr>) p i e out g = (Inl AuditUnavailable, g)"
  using assms
  by (simp add: record_assessment_def write_audit_or_fail_def write_record_def emit_record_def mirror_to_sqlite_def
      and_then_eqs Let_def)

text \<open>A request that would be answered with a review number, on a day the strict audit fails: the caller gets
  503 and no number, nothing is recorded, but the pending review is in the queue all the same.\<close>

theorem refused_request_stays_in_the_queue:
  "case assess_prompt X h req q g of
     (Inr r, _) \<Rightarrow> (case rsp_review_id r of
        Some rid \<Rightarrow>
          if as_sqlite_enabled (se_audit (sx_settings X)) \<and> as_read_from_sqlite (se_audit (sx_settings X))
             \<and> as_fails_closed (se_audit (sx_settings X))
          then (case assess_prompt X (h\<lparr>ch_audit := \<lambda>_. \<lparr>wo_jsonl = False, wo_sqlite = False\<rparr>\<rparr>) req q g of
                  (Inl e, g') \<Rightarrow> e = AuditUnavailable \<and> gw_trail g' = gw_trail g
                      \<and> (case fst (get_review rid (gw_reviews g')) of None \<Rightarrow> False | Some rec \<Rightarrow> rv_status rec = ''PENDING'')
                | (Inr _, _) \<Rightarrow> False)
          else True
      | None \<Rightarrow> True)
   | (Inl e, _) \<Rightarrow> True"
proof (cases "assess_prompt X h req q g")
  case (Pair res g')
  show ?thesis
  proof (cases res)
    case (Inr r)
    show ?thesis
    proof (cases "rsp_review_id r")
      case (Some rid)
      show ?thesis
      proof (cases "as_sqlite_enabled (se_audit (sx_settings X)) \<and> as_read_from_sqlite (se_audit (sx_settings X))
             \<and> as_fails_closed (se_audit (sx_settings X))")
        case strict: True
        let ?i = "resolve_request_id (se_request_id_max (sx_settings X)) (hr_request_id req) (ch_uuid h)"
        from Pair Inr have "assess_prompt X h req q g = (Inr r, g')" by simp
        then obtain p tc g1 v g2 out g3 g4 where a: "admit X h req g = (Inr (p, tc), g1)"
          and d: "decide_input X h p tc (aq_prompt q) g1 = (Inr v, g2)"
          and c: "combined_output X h q (ve_decision v) g2 = (Inr out, g3)"
          and rev: "queue_for_review X h p ?i (rsp_decision r) (ve_reason v) (ve_risk v) (sx_sha X (ve_clean v)) g3
                  = (Inr (rsp_review_id r), g4)"
          and dec: "rsp_decision r = final_decision (ve_decision v) out"
          by (rule assess_prompt_Inr)
        from rev Some have "queue_for_review X h p ?i (rsp_decision r) (ve_reason v) (ve_risk v) (sx_sha X (ve_clean v)) g3 = (Inr (Some rid), g4)"
          by simp
        from queue_for_review_Some [OF this] obtain rec where "fst (get_review rid (gw_reviews g4)) = Some rec" "rv_status rec = ''PENDING''"
          by blast
        moreover have "assess_prompt X (h\<lparr>ch_audit := \<lambda>_. \<lparr>wo_jsonl = False, wo_sqlite = False\<rparr>\<rparr>) req q g = (Inl AuditUnavailable, g4)"
          unfolding assess_prompt_def Let_def audit_outcome_unused
          using strict a d c rev dec by (simp add: and_then_eqs record_strict_lost)
        moreover have "gw_trail g4 = gw_trail g"
          using admit_protected(2) [OF a] decide_input_Inr(3) [OF d] combined_output_frame(1) [OF c]
            queue_for_review_frame(1) [OF rev] by simp
        ultimately show ?thesis using Pair Inr Some by simp
      next
        case False
        with Pair Inr Some show ?thesis by (simp only: prod.case sum.case option.case if_False)
      qed
    qed (use Pair Inr in simp)
  qed (use Pair in simp)
qed

section \<open>The output endpoint\<close>

lemma assess_output_endpoint_Inr:
  assumes "assess_output_endpoint X h req reply sp g = (Inr r, g')"
  obtains p tc g1 g2 where "admit X h req g = (Inr (p, tc), g1)"
    and "guard_output X h reply sp (Some tc) g1 = (Inr (aor_decision r, aor_details r), g2)"
    and "aor_clean_response r = od_clean_response (aor_details r)"
  using assms unfolding assess_output_endpoint_def Let_def by (auto split: prod.splits)

lemma assess_output_clean:
  "od_clean_response (snd (fst (assess_output E reply sp t b))) \<noteq> None
     \<longleftrightarrow> fst (fst (assess_output E reply sp t b)) = ''ALLOW''"
  by (auto simp: assess_output_def Let_def split: prod.splits if_splits)

text \<open>\<open>/assess_output\<close> answers \<open>ALLOW\<close> or \<open>BLOCK\<close>, with the output guard's verdict under the settings of an
  unsuspended tenant, and hands text back exactly when it answers \<open>ALLOW\<close>. Everything else is a 401, 403,
  429, 500 or 503.\<close>

theorem output_endpoint_verdict:
  "case assess_output_endpoint X h req reply sp g of
     (Inr r, g') \<Rightarrow> aor_decision r \<in> {''ALLOW'', ''BLOCK''}
        \<and> (aor_clean_response r \<noteq> None \<longleftrightarrow> aor_decision r = ''ALLOW'')
        \<and> (\<exists>tc. \<not> suspended tc
             \<and> fst (assess_output (sx_output_env X) reply sp (Some tc) (rs_judge (gw_risk g))) = (aor_decision r, aor_details r))
   | (Inl e, g') \<Rightarrow> status_code e \<in> {401, 403, 429, 500, 503}"
proof (cases "assess_output_endpoint X h req reply sp g")
  case (Pair res g')
  show ?thesis
  proof (cases res)
    case (Inl e)
    with Pair have "assess_output_endpoint X h req reply sp g = (Inl e, g')" by simp
    then have "status_code e \<in> {401, 403, 429, 500, 503}"
      unfolding assess_output_endpoint_def Let_def
      by (auto split: prod.splits dest!: admit_status guard_output_Inl write_audit_status)
    with Pair Inl show ?thesis by simp
  next
    case (Inr r)
    with Pair have "assess_output_endpoint X h req reply sp g = (Inr r, g')" by simp
    then obtain p tc g1 g2 where a: "admit X h req g = (Inr (p, tc), g1)"
      and o: "guard_output X h reply sp (Some tc) g1 = (Inr (aor_decision r, aor_details r), g2)"
      and c: "aor_clean_response r = od_clean_response (aor_details r)"
      by (rule assess_output_endpoint_Inr)
    have out: "fst (assess_output (sx_output_env X) reply sp (Some tc) (rs_judge (gw_risk g))) = (aor_decision r, aor_details r)"
      using guard_output_Inr [OF o] admit_protected(6) [OF a] by simp
    from assess_output_clean [of "sx_output_env X" reply sp "Some tc" "rs_judge (gw_risk g)"]
      assess_output_decision [of "sx_output_env X" reply sp "Some tc" "rs_judge (gw_risk g)"]
    show ?thesis
      using Pair Inr out c admit_Inr(2) [OF a] by auto
  qed
qed
end
