(* ===== verification/Api_Chat.thy ===== *)
theory Api_Chat
  imports Api_Assess
begin

text \<open>
  \<open>POST /api/v1/gateway/chat\<close> of api/main.py: the prompt is guarded, the provider is called with
  fallbacks, and its completion is guarded before it is returned. The completion of a provider is the
  \<open>ch_llm\<close> of the attempt, counted from 0 for the primary.
\<close>

section \<open>Requests and responses\<close>

record chat_request =
  cr_prompt :: string
  cr_system_prompt :: "string option"
  cr_provider :: "string option"
  cr_model :: "string option"

record 'v chat_response =
  gc_decision :: string
  gc_content :: "string option"
  gc_provider :: "string option"
  gc_model :: json
  gc_usage :: json
  gc_review_id :: "string option"
  gc_details :: "(string \<times> json) list"
  gc_task :: "'v confirmation_task option"

definition valid_chat_request :: "chat_request \<Rightarrow> bool" where
  "valid_chat_request q \<longleftrightarrow> cr_prompt q \<noteq> [] \<and> length (cr_prompt q) \<le> 50000
     \<and> (case cr_system_prompt q of None \<Rightarrow> True | Some s \<Rightarrow> length s \<le> 20000)
     \<and> (case cr_provider q of None \<Rightarrow> True | Some s \<Rightarrow> length s \<le> 100)
     \<and> (case cr_model q of None \<Rightarrow> True | Some s \<Rightarrow> length s \<le> 200)"

section \<open>Before the call\<close>

text \<open>The quota is checked against what earlier calls recorded.\<close>

definition check_quota ::
  "('v, 'c, 'l, 'j, 'w, 'r, 'q) services \<Rightarrow> chance \<Rightarrow> principal \<Rightarrow> tenant_config
   \<Rightarrow> ('c, 'l, 'j, 'w, 'r, 'q) gateway \<Rightarrow> (api_error, unit) res \<times> ('c, 'l, 'j, 'w, 'r, 'q) gateway" where
  "check_quota X h p tc g =
     (if \<not> se_quota_enabled (sx_settings X) then (Inr (), g)
      else
        let quota = (case tc_token_quota_daily tc of Some n \<Rightarrow> n | None \<Rightarrow> se_quota_default (sx_settings X));
            (over, q) = sx_would_exceed X (pr_tenant p) quota (ch_day h) (gw_quota g)
        in (if over then Inl (QuotaExhausted (pr_tenant p) quota (py_int (seconds_until_utc_midnight (ch_second_of_day h))))
            else Inr (),
            g\<lparr>gw_quota := q\<rparr>))"

text \<open>The verdict on the prompt with its record; the review number and the details as they stand then.\<close>

definition guard_prompt ::
  "('v, 'c, 'l, 'j, 'w, 'r, 'q) services \<Rightarrow> chance \<Rightarrow> principal \<Rightarrow> tenant_config \<Rightarrow> string \<Rightarrow> string
   \<Rightarrow> ('c, 'l, 'j, 'w, 'r, 'q) gateway
   \<Rightarrow> (api_error, 'v verdict \<times> string option \<times> (string \<times> json) list) res \<times> ('c, 'l, 'j, 'w, 'r, 'q) gateway" where
  "guard_prompt X h p tc i prompt g =
     and_then (decide_input X h p tc prompt g) (\<lambda>v g1.
     and_then (queue_for_review X h p i (ve_decision v) (ve_reason v) (ve_risk v) (sx_sha X (ve_clean v)) g1) (\<lambda>rid g2.
       let details = final_details (identity_details p (ve_reason v) i (ve_details v)) None rid
       in and_then (write_audit_or_fail X h
              (log_event (ch_iso_now h) (sx_sha X) (pr_capability p) (ve_clean v) (ve_risk v) (ve_decision v) details) g2)
            (\<lambda>_ g3. (Inr (v, rid, details), g3))))"

section \<open>The call\<close>

definition chosen_provider :: "api_settings \<Rightarrow> chat_request \<Rightarrow> string" where
  "chosen_provider S q = or_default (cr_provider q) (se_default_provider S)"

definition attempt_names :: "api_settings \<Rightarrow> chat_request \<Rightarrow> string list" where
  "attempt_names S q =
     chosen_provider S q #
     (if cr_provider q = None \<and> se_fallback_providers S \<noteq> []
      then filter (\<lambda>n. n \<noteq> [] \<and> n \<noteq> chosen_provider S q) (map str_strip (str_split CHR '','' (se_fallback_providers S)))
      else [])"

definition chat_messages :: "string option \<Rightarrow> string \<Rightarrow> chat_message list" where
  "chat_messages system_prompt clean =
     (case system_prompt of
        None \<Rightarrow> []
      | Some s \<Rightarrow> if s = [] then [] else [\<lparr>cm_role = ''system'', cm_content = s\<rparr>])
     @ [\<lparr>cm_role = ''user'', cm_content = clean\<rparr>]"

datatype attempt = Answered llm_response | FailedWith llm_failure | TimedOut

text \<open>\<open>provider.complete\<close> on the gateway pool: what the caller sees, and whether a call left.\<close>

definition attempt_result :: "chance \<Rightarrow> nat \<Rightarrow> provider \<Rightarrow> chat_message list \<Rightarrow> string option \<Rightarrow> attempt" where
  "attempt_result h k prov messages model =
     (case ch_llm h k of
        LlmTimesOut _ \<Rightarrow> TimedOut
      | LlmAnswers reply \<Rightarrow>
          (case provider_request prov messages model of
             Inl e \<Rightarrow> FailedWith (ProviderError e)
           | Inr (m, call) \<Rightarrow> (case provider_answer prov m reply of Inl f \<Rightarrow> FailedWith f | Inr r \<Rightarrow> Answered r)))"

definition call_provider ::
  "chance \<Rightarrow> nat \<Rightarrow> provider \<Rightarrow> chat_message list \<Rightarrow> string option
   \<Rightarrow> ('c, 'l, 'j, 'w, 'r, 'q) gateway \<Rightarrow> attempt \<times> ('c, 'l, 'j, 'w, 'r, 'q) gateway" where
  "call_provider h k prov messages model g =
     (attempt_result h k prov messages model,
      case provider_request prov messages model of
        Inl e \<Rightarrow> g
      | Inr (m, call) \<Rightarrow>
          if ch_llm h k = LlmTimesOut False then g
          else g\<lparr>gw_calls := gw_calls g @ [(provider_name prov, call)]\<rparr>)"

definition failure_record ::
  "('v, 'c, 'l, 'j, 'w, 'r, 'q) services \<Rightarrow> chance \<Rightarrow> principal \<Rightarrow> string \<Rightarrow> string \<Rightarrow> string option \<Rightarrow> nat \<Rightarrow> string \<Rightarrow> log_entry" where
  "failure_record X h p i name model k what =
     log_gateway_event (ch_iso_now h) (pr_capability p) name (jopt JStr model) False (ch_latency h k) ''BLOCK'' JNull
       (Some what) (pr_tenant p) i"

text \<open>The loop over the attempts; \<open>last_error\<close> is what the variables of that name hold. An exception of
  another class ends the request.\<close>

fun try_providers ::
  "('v, 'c, 'l, 'j, 'w, 'r, 'q) services \<Rightarrow> chance \<Rightarrow> principal \<Rightarrow> string \<Rightarrow> string option \<Rightarrow> chat_message list
   \<Rightarrow> nat \<Rightarrow> string list \<Rightarrow> api_error option \<Rightarrow> ('c, 'l, 'j, 'w, 'r, 'q) gateway
   \<Rightarrow> (api_error, string \<times> llm_response \<times> real) res \<times> ('c, 'l, 'j, 'w, 'r, 'q) gateway" where
  "try_providers X h p i model messages k [] last_error g =
     (Inl (case last_error of Some e \<Rightarrow> e | None \<Rightarrow> Unhandled ''ValueError''), g)"
| "try_providers X h p i model messages k (name # names) last_error g =
     (case get_provider (se_llm (sx_settings X)) name of
        None \<Rightarrow>
          (if k = 0 then (Inl (UnknownProvider name), g)
           else try_providers X h p i model messages (Suc k) names last_error g)
      | Some prov \<Rightarrow>
          (let attempt_model = (if k = 0 then model else None)
           in case call_provider h k prov messages attempt_model g of
                (Answered r, g1) \<Rightarrow> (Inr (name, r, ch_latency h k), g1)
              | (TimedOut, g1) \<Rightarrow>
                  and_then (write_audit_bare X h (failure_record X h p i name attempt_model k ''timeout'') g1)
                    (\<lambda>_ g2. try_providers X h p i model messages (Suc k) names (Some ProviderTimeout) g2)
              | (FailedWith (ProviderError e), g1) \<Rightarrow>
                  and_then (write_audit_bare X h (failure_record X h p i name attempt_model k (sx_error_text X e)) g1)
                    (\<lambda>_ g2. try_providers X h p i model messages (Suc k) names (Some (ProviderFailed e)) g2)
              | (FailedWith (Escaped e), g1) \<Rightarrow> (Inl (Unhandled ''TypeError''), g1)))"

section \<open>After the call\<close>

text \<open>A completion that is not a string makes the first regular expression raise.\<close>

definition guard_completion ::
  "('v, 'c, 'l, 'j, 'w, 'r, 'q) services \<Rightarrow> chance \<Rightarrow> json \<Rightarrow> string option \<Rightarrow> tenant_config
   \<Rightarrow> ('c, 'l, 'j, 'w, 'r, 'q) gateway
   \<Rightarrow> (api_error, string \<times> string \<times> output_details) res \<times> ('c, 'l, 'j, 'w, 'r, 'q) gateway" where
  "guard_completion X h content system_prompt tc g =
     (case content of
        JStr reply \<Rightarrow> and_then (guard_output X h reply system_prompt (Some tc) g) (\<lambda>od g1. (Inr (reply, od), g1))
      | _ \<Rightarrow> (Inl (case ch_output h of Finishes \<Rightarrow> Unhandled ''TypeError'' | TimesOut _ \<Rightarrow> OutputTimeout), g))"

definition fallback_details :: "api_settings \<Rightarrow> chat_request \<Rightarrow> string \<Rightarrow> (string \<times> json) list \<Rightarrow> (string \<times> json) list" where
  "fallback_details S q used details =
     (if used = chosen_provider S q then details
      else od_set ''gateway_fallback_from'' (JStr (chosen_provider S q))
             (od_set ''gateway_fallback_used'' (JBool True) details))"

definition account_tokens ::
  "('v, 'c, 'l, 'j, 'w, 'r, 'q) services \<Rightarrow> chance \<Rightarrow> string \<Rightarrow> json
   \<Rightarrow> ('c, 'l, 'j, 'w, 'r, 'q) gateway \<Rightarrow> (api_error, unit) res \<times> ('c, 'l, 'j, 'w, 'r, 'q) gateway" where
  "account_tokens X h tenant usage g =
     (case extract_total_tokens usage of
        Inl TypeError \<Rightarrow> (Inl (Unhandled ''TypeError''), g)
      | Inr n \<Rightarrow> (Inr (), if n > 0 then g\<lparr>gw_quota := sx_record_tokens X tenant n (ch_day h) (gw_quota g)\<rparr> else g))"

text \<open>Both records of a completed call, then its cost.\<close>

definition record_call ::
  "('v, 'c, 'l, 'j, 'w, 'r, 'q) services \<Rightarrow> chance \<Rightarrow> principal \<Rightarrow> string \<Rightarrow> string \<Rightarrow> llm_response \<Rightarrow> real
   \<Rightarrow> string \<times> string \<times> output_details \<Rightarrow> string
   \<Rightarrow> ('c, 'l, 'j, 'w, 'r, 'q) gateway \<Rightarrow> (api_error, unit) res \<times> ('c, 'l, 'j, 'w, 'r, 'q) gateway" where
  "record_call X h p i used r latency out decision g =
     and_then (write_audit_or_fail X h (output_record X h p i out) g) (\<lambda>_ g1.
     and_then (write_audit_bare X h
         (log_gateway_event (ch_iso_now h) (pr_capability p) used (lr_model r) True latency decision (lr_usage r) None
            (pr_tenant p) i) g1) (\<lambda>_ g2.
     account_tokens X h (pr_tenant p) (lr_usage r) g2))"

text \<open>The response model admits a string or nothing as the model name, an object or nothing as the usage.\<close>

fun optional_str :: "json \<Rightarrow> bool" where
  "optional_str JNull = True"
| "optional_str (JStr s) = True"
| "optional_str _ = False"

fun optional_obj :: "json \<Rightarrow> bool" where
  "optional_obj JNull = True"
| "optional_obj (JObj kvs) = True"
| "optional_obj _ = False"

definition complete_call ::
  "('v, 'c, 'l, 'j, 'w, 'r, 'q) services \<Rightarrow> chance \<Rightarrow> principal \<Rightarrow> tenant_config \<Rightarrow> string \<Rightarrow> chat_request
   \<Rightarrow> 'v verdict \<Rightarrow> (string \<times> json) list \<Rightarrow> string \<times> llm_response \<times> real
   \<Rightarrow> ('c, 'l, 'j, 'w, 'r, 'q) gateway \<Rightarrow> (api_error, 'v chat_response) res \<times> ('c, 'l, 'j, 'w, 'r, 'q) gateway" where
  "complete_call X h p tc i q v details call g =
     (case call of (used, r, latency) \<Rightarrow>
        and_then (guard_completion X h (lr_content r) (cr_system_prompt q) tc g) (\<lambda>out g1.
          let decision = combine_decisions (ve_decision v) (fst (snd out))
          in and_then (record_call X h p i used r latency out decision g1) (\<lambda>_ g2.
               if optional_str (lr_model r) \<and> optional_obj (lr_usage r)
               then (Inr \<lparr>gc_decision = decision,
                          gc_content = (if decision \<noteq> ''BLOCK'' then od_clean_response (snd (snd out)) else None),
                          gc_provider = Some (lr_provider r), gc_model = lr_model r, gc_usage = lr_usage r, gc_review_id = None,
                          gc_details = od_set ''output_assessment'' (JObj (output_dict (snd (snd out))))
                                         (fallback_details (sx_settings X) q used details),
                          gc_task = ve_task v\<rparr>, g2)
               else (Inl (Unhandled ''ValidationError''), g2))))"

section \<open>The endpoint\<close>

definition gateway_chat ::
  "('v, 'c, 'l, 'j, 'w, 'r, 'q) services \<Rightarrow> chance \<Rightarrow> http_request \<Rightarrow> chat_request
   \<Rightarrow> ('c, 'l, 'j, 'w, 'r, 'q) gateway \<Rightarrow> (api_error, 'v chat_response) res \<times> ('c, 'l, 'j, 'w, 'r, 'q) gateway" where
  "gateway_chat X h req q g =
     (let i = resolve_request_id (se_request_id_max (sx_settings X)) (hr_request_id req) (ch_uuid h)
      in and_then (admit X h req g) (\<lambda>(p, tc) g1.
         and_then (check_quota X h p tc g1) (\<lambda>_ g2.
         and_then (guard_prompt X h p tc i (cr_prompt q) g2) (\<lambda>(v, rid, details) g3.
           if ve_decision v \<in> {''BLOCK'', ''REVIEW''}
           then (Inr \<lparr>gc_decision = ve_decision v, gc_content = None, gc_provider = None, gc_model = JNull, gc_usage = JNull,
                      gc_review_id = rid, gc_details = details, gc_task = ve_task v\<rparr>, g3)
           else
             and_then (try_providers X h p i (cr_model q) (chat_messages (cr_system_prompt q) (ve_clean v)) 0
                         (attempt_names (sx_settings X) q) None g3) (\<lambda>call g4.
             complete_call X h p tc i q v details call g4)))))"


section \<open>Lemmas\<close>

lemma check_quota_frame:
  assumes "check_quota X h p tc g = (r, g')"
  shows "\<exists>q. g' = g\<lparr>gw_quota := q\<rparr>"
proof -
  have same: "\<exists>q. g = g\<lparr>gw_quota := q\<rparr>" by (rule exI [of _ "gw_quota g"]) simp
  show ?thesis using assms same by (auto simp: check_quota_def Let_def split: if_splits prod.splits)
qed

lemma write_audit_bare_frame:
  assumes "write_audit_bare X h e g = (r, g')"
  shows "\<exists>t. g' = g\<lparr>gw_trail := t\<rparr>"
    and "et \<noteq> text_of (jget e ''event_type'') \<Longrightarrow> et \<noteq> ''legacy_event'' \<Longrightarrow> at_db (gw_trail g') et = at_db (gw_trail g) et"
  using assms
  by (auto simp: write_audit_bare_def write_record_def emit_record_def mirror_to_sqlite_def db_write_def Let_def
      split: prod.splits sum.splits audit_error.splits if_splits option.splits)

lemma gateway_event_type:
  "text_of (jget (log_gateway_event now cap prov m ok lat d u err tenant i) ''event_type'') = ''gateway_call''"
  by (simp add: log_gateway_event_def jget_def text_of_def)

text \<open>What the attempts may change: gateway records in the trail, and at most one call for each name.\<close>

definition forwarded ::
  "chat_message list \<Rightarrow> string list \<Rightarrow> ('c, 'l, 'j, 'w, 'r, 'q) gateway \<Rightarrow> ('c, 'l, 'j, 'w, 'r, 'q) gateway \<Rightarrow> bool" where
  "forwarded messages names g g' \<longleftrightarrow>
     (\<exists>t cs. g' = g\<lparr>gw_trail := t, gw_calls := gw_calls g @ cs\<rparr> \<and> length cs \<le> length names
        \<and> (\<forall>(n, c) \<in> set cs. n \<in> set names \<and> (\<exists>prov m mo. provider_request prov messages mo = Inr (m, c)))
        \<and> (\<forall>et \<in> {''input_assessment'', ''output_assessment''}. at_db t et = at_db (gw_trail g) et))"

lemma forwarded_refl [simp]: "forwarded messages names g g"
  unfolding forwarded_def by (rule exI [of _ "gw_trail g"], rule exI [of _ "[]"]) simp

lemma forwarded_call:
  assumes "get_provider S name = Some prov"
  shows "forwarded messages [name] g (snd (call_provider h k prov messages model g))"
proof (cases "provider_request prov messages model")
  case (Inr mc)
  obtain m call where mc: "mc = (m, call)" by (cases mc)
  show ?thesis
  proof (cases "ch_llm h k = LlmTimesOut False")
    case False
    with Inr mc get_provider_name [OF assms] show ?thesis
      unfolding forwarded_def call_provider_def
      by (intro exI [of _ "gw_trail g"] exI [of _ "[(name, call)]"]) auto
  qed (use Inr mc in \<open>simp add: call_provider_def\<close>)
qed (simp add: call_provider_def)

lemma forwarded_record:
  assumes "write_audit_bare X h (failure_record X h p i name model k what) g = (r, g')"
  shows "forwarded messages [] g g'"
proof -
  obtain t where g': "g' = g\<lparr>gw_trail := t\<rparr>" using write_audit_bare_frame(1) [OF assms] by blast
  have "at_db (gw_trail g') et = at_db (gw_trail g) et" if "et \<in> {''input_assessment'', ''output_assessment''}" for et
    using that by (intro write_audit_bare_frame(2) [OF assms]) (auto simp: failure_record_def gateway_event_type)
  with g' show ?thesis unfolding forwarded_def by (intro exI [of _ t] exI [of _ "[]"]) auto
qed

lemma forwarded_trans:
  assumes "forwarded messages xs g g1" and "forwarded messages ys g1 g2"
  shows "forwarded messages (xs @ ys) g g2"
proof -
  obtain t cs where 1: "g1 = g\<lparr>gw_trail := t, gw_calls := gw_calls g @ cs\<rparr>" "length cs \<le> length xs"
    "\<forall>(n, c) \<in> set cs. n \<in> set xs \<and> (\<exists>prov m mo. provider_request prov messages mo = Inr (m, c))"
    "\<forall>et \<in> {''input_assessment'', ''output_assessment''}. at_db t et = at_db (gw_trail g) et"
    using assms(1) unfolding forwarded_def by blast
  obtain t2 ds where 2: "g2 = g1\<lparr>gw_trail := t2, gw_calls := gw_calls g1 @ ds\<rparr>" "length ds \<le> length ys"
    "\<forall>(n, c) \<in> set ds. n \<in> set ys \<and> (\<exists>prov m mo. provider_request prov messages mo = Inr (m, c))"
    "\<forall>et \<in> {''input_assessment'', ''output_assessment''}. at_db t2 et = at_db (gw_trail g1) et"
    using assms(2) unfolding forwarded_def by blast
  show ?thesis
    unfolding forwarded_def
    by (rule exI [of _ t2], rule exI [of _ "cs @ ds"]) (use 1 2 in auto)
qed

lemma forwarded_mono: "forwarded messages xs g g' \<Longrightarrow> forwarded messages (name # xs) g g'"
  unfolding forwarded_def by fastforce

lemma try_providers_frame:
  "try_providers X h p i model messages k names e g = (r, g') \<Longrightarrow> forwarded messages names g g'"
proof (induction names arbitrary: k e g)
  case (Cons name names)
  show ?case
  proof (cases "get_provider (se_llm (sx_settings X)) name")
    case None
    with Cons show ?thesis by (auto intro: forwarded_mono split: if_splits)
  next
    case (Some prov)
    let ?m = "if k = 0 then model else None"
    obtain a g1 where c: "call_provider h k prov messages ?m g = (a, g1)" by fastforce
    have f1: "forwarded messages [name] g g1"
      using forwarded_call [OF Some, of messages g h k ?m] c by simp
    have step: "forwarded messages (name # names) g g'"
      if w: "and_then (write_audit_bare X h (failure_record X h p i name ?m k what) g1)
               (\<lambda>_ g2. try_providers X h p i model messages (Suc k) names e' g2) = (r, g')" for what e'
      using w
    proof (cases rule: and_then_cases)
      case (raised err)
      with forwarded_trans [OF f1 forwarded_record] show ?thesis
        by (metis append_Nil2 forwarded_trans forwarded_refl append_Cons append_Nil)
    next
      case (continued u g2)
      from forwarded_trans [OF forwarded_trans [OF f1 forwarded_record [OF continued(1)]] Cons.IH [OF continued(2)]]
      show ?thesis by simp
    qed
    show ?thesis
    proof (cases a)
      case (Answered x)
      with Cons.prems Some c f1 have "g' = g1" by (simp add: Let_def)
      with forwarded_trans [OF f1 forwarded_refl, of names] show ?thesis by simp
    next
      case (FailedWith f)
      show ?thesis
      proof (cases f)
        case (Escaped pe)
        with FailedWith Cons.prems Some c have "g' = g1" by (simp add: Let_def)
        with forwarded_trans [OF f1 forwarded_refl, of names] show ?thesis by simp
      next
        case (ProviderError pe)
        with FailedWith Cons.prems Some c step show ?thesis by (simp add: Let_def)
      qed
    next
      case TimedOut
      with Cons.prems Some c step show ?thesis by (simp add: Let_def)
    qed
  qed
qed auto

lemma guard_prompt_frame:
  assumes "guard_prompt X h p tc i prompt g = (r, g')"
  shows "gw_calls g' = gw_calls g" and "gw_quota g' = gw_quota g" and "gw_world g' = gw_world g"
proof -
  have "gw_calls g' = gw_calls g \<and> gw_quota g' = gw_quota g \<and> gw_world g' = gw_world g"
    using assms unfolding guard_prompt_def
  proof (cases rule: and_then_cases)
    case (raised e)
    show ?thesis by (simp add: decide_input_Inl [OF raised(1)])
  next
    case (continued v g1)
    note d = decide_input_Inr [OF continued(1)]
    from continued(2) show ?thesis
    proof (cases rule: and_then_cases)
      case (raised e)
      show ?thesis by (simp add: queue_for_review_frame [OF raised(1)] d)
    next
      case (continued rid g2)
      note q = queue_for_review_frame [OF continued(1)]
      from continued(2) show ?thesis
        unfolding Let_def by (cases rule: and_then_cases) (use d q in \<open>auto dest!: write_audit_frame\<close>)
    qed
  qed
  then show "gw_calls g' = gw_calls g" "gw_quota g' = gw_quota g" "gw_world g' = gw_world g" by simp_all
qed

lemma guard_prompt_Inr:
  assumes "guard_prompt X h p tc i prompt g = (Inr (v, rid, details), g')"
  shows "ve_decision v = fst (policy_decision (sx_shw X) (pr_capability p) (ve_risk v) (pr_tenant p) None (gw_policy g))"
    and "ve_clean v = fst (redact_pii (oe_nlp (sx_output_env X)) prompt (Some tc))"
    and "\<exists>g1. gw_trail g1 = gw_trail g \<and> write_audit_or_fail X h
           (log_event (ch_iso_now h) (sx_sha X) (pr_capability p) (ve_clean v) (ve_risk v) (ve_decision v) details) g1 = (Inr (), g')"
    and "details = final_details (identity_details p (ve_reason v) i (ve_details v)) None rid"
proof -
  from assms obtain g1 g2 where d: "decide_input X h p tc prompt g = (Inr v, g1)"
    and q: "queue_for_review X h p i (ve_decision v) (ve_reason v) (ve_risk v) (sx_sha X (ve_clean v)) g1 = (Inr rid, g2)"
    and w: "write_audit_or_fail X h
           (log_event (ch_iso_now h) (sx_sha X) (pr_capability p) (ve_clean v) (ve_risk v) (ve_decision v) details) g2 = (Inr (), g')"
    and de: "details = final_details (identity_details p (ve_reason v) i (ve_details v)) None rid"
    unfolding guard_prompt_def Let_def by auto
  show "ve_decision v = fst (policy_decision (sx_shw X) (pr_capability p) (ve_risk v) (pr_tenant p) None (gw_policy g))"
    using decide_input_Inr(1) [OF d] by (metis fst_conv)
  show "ve_clean v = fst (redact_pii (oe_nlp (sx_output_env X)) prompt (Some tc))"
    using decide_input_Inr(2) [OF d] .
  show "\<exists>g1. gw_trail g1 = gw_trail g \<and> write_audit_or_fail X h
           (log_event (ch_iso_now h) (sx_sha X) (pr_capability p) (ve_clean v) (ve_risk v) (ve_decision v) details) g1 = (Inr (), g')"
    using w queue_for_review_frame(1) [OF q] decide_input_Inr(3) [OF d] by auto
  show "details = final_details (identity_details p (ve_reason v) i (ve_details v)) None rid" by (rule de)
qed

lemma guard_completion_frame:
  assumes "guard_completion X h content sp tc g = (r, g')"
  shows "gw_trail g' = gw_trail g" and "gw_quota g' = gw_quota g" and "gw_calls g' = gw_calls g"
proof -
  have "gw_trail g' = gw_trail g \<and> gw_quota g' = gw_quota g \<and> gw_calls g' = gw_calls g"
  proof (cases content)
    case (JStr reply)
    with assms have "and_then (guard_output X h reply sp (Some tc) g) (\<lambda>od g1. (Inr (reply, od), g1)) = (r, g')"
      by (simp add: guard_completion_def)
    then show ?thesis by (cases rule: and_then_cases) (auto dest: guard_output_frame)
  qed (use assms in \<open>auto simp: guard_completion_def\<close>)
  then show "gw_trail g' = gw_trail g" "gw_quota g' = gw_quota g" "gw_calls g' = gw_calls g" by simp_all
qed

lemma guard_completion_Inr:
  assumes "guard_completion X h content sp tc g = (Inr out, g')"
  shows "\<exists>reply b. content = JStr reply \<and> out = (reply, fst (assess_output (sx_output_env X) reply sp (Some tc) b))"
  using assms by (cases content) (auto simp: guard_completion_def dest!: guard_output_Inr)

text \<open>The only step after the call that touches the quota is the last.\<close>

definition charged ::
  "('v, 'c, 'l, 'j, 'w, 'r, 'q) services \<Rightarrow> chance \<Rightarrow> string \<Rightarrow> json \<Rightarrow> 'q \<Rightarrow> 'q" where
  "charged X h tenant usage q =
     (case extract_total_tokens usage of
        Inl _ \<Rightarrow> q
      | Inr n \<Rightarrow> if n > 0 then sx_record_tokens X tenant n (ch_day h) q else q)"

lemma account_tokens_cases:
  assumes "account_tokens X h tenant usage g = (r, g')"
  shows "g' = g\<lparr>gw_quota := charged X h tenant usage (gw_quota g)\<rparr>"
  using assms by (auto simp: account_tokens_def charged_def split: sum.splits quota_error.splits)

lemma record_call_frame:
  assumes "record_call X h p i used r lat out d g = (res, g')"
  shows "gw_calls g' = gw_calls g"
    and "gw_quota g' = (case res of Inr _ \<Rightarrow> charged X h (pr_tenant p) (lr_usage r) (gw_quota g) | Inl _ \<Rightarrow> gw_quota g)"
proof -
  have "gw_calls g' = gw_calls g \<and>
    gw_quota g' = (case res of Inr _ \<Rightarrow> charged X h (pr_tenant p) (lr_usage r) (gw_quota g) | Inl _ \<Rightarrow> gw_quota g)"
    using assms unfolding record_call_def
  proof (cases rule: and_then_cases)
    case (raised e)
    then show ?thesis by (auto dest!: write_audit_frame)
  next
    case (continued u g1)
    from continued(1) obtain t where g1: "g1 = g\<lparr>gw_trail := t\<rparr>" using write_audit_frame by blast
    from continued(2) show ?thesis
    proof (cases rule: and_then_cases)
      case (raised e)
      with g1 show ?thesis by (auto dest!: write_audit_bare_frame(1))
    next
      case (continued u g2)
      from continued(1) obtain t2 where g2: "g2 = g1\<lparr>gw_trail := t2\<rparr>" using write_audit_bare_frame(1) by blast
      from continued(2) g1 g2 show ?thesis
        by (auto simp: account_tokens_def charged_def split: sum.splits quota_error.splits)
    qed
  qed
  then show "gw_calls g' = gw_calls g"
    "gw_quota g' = (case res of Inr _ \<Rightarrow> charged X h (pr_tenant p) (lr_usage r) (gw_quota g) | Inl _ \<Rightarrow> gw_quota g)"
    by simp_all
qed

lemma complete_call_frame:
  assumes "complete_call X h p tc i q v details call g = (res, g')"
  shows "gw_calls g' = gw_calls g"
  using assms unfolding complete_call_def
  apply (cases call)
  apply (simp only: prod.case)
  apply (erule and_then_cases)
   apply (auto dest: guard_completion_frame)[1]
  apply (unfold Let_def)
  apply (erule and_then_cases)
  apply (auto dest!: guard_completion_frame(3) record_call_frame(1) split: if_splits)
  done

definition chat_id :: "('v, 'c, 'l, 'j, 'w, 'r, 'q) services \<Rightarrow> chance \<Rightarrow> http_request \<Rightarrow> string" where
  "chat_id X h req = resolve_request_id (se_request_id_max (sx_settings X)) (hr_request_id req) (ch_uuid h)"

definition forward ::
  "('v, 'c, 'l, 'j, 'w, 'r, 'q) services \<Rightarrow> chance \<Rightarrow> http_request \<Rightarrow> chat_request \<Rightarrow> principal \<Rightarrow> string
   \<Rightarrow> ('c, 'l, 'j, 'w, 'r, 'q) gateway
   \<Rightarrow> (api_error, string \<times> llm_response \<times> real) res \<times> ('c, 'l, 'j, 'w, 'r, 'q) gateway" where
  "forward X h req q p clean g =
     try_providers X h p (chat_id X h req) (cr_model q) (chat_messages (cr_system_prompt q) clean) 0
       (attempt_names (sx_settings X) q) None g"

lemma gateway_chat_cases:
  assumes "gateway_chat X h req q g = (res, g')"
  obtains (refused) e where "admit X h req g = (Inl e, g')" "res = Inl e"
    | (exhausted) p tc g1 e where "admit X h req g = (Inr (p, tc), g1)" "check_quota X h p tc g1 = (Inl e, g')" "res = Inl e"
    | (unguarded) p tc g1 g2 e where "admit X h req g = (Inr (p, tc), g1)" "check_quota X h p tc g1 = (Inr (), g2)"
        "guard_prompt X h p tc (chat_id X h req) (cr_prompt q) g2 = (Inl e, g')" "res = Inl e"
    | (stopped) p tc g1 g2 v rid details where "admit X h req g = (Inr (p, tc), g1)" "check_quota X h p tc g1 = (Inr (), g2)"
        "guard_prompt X h p tc (chat_id X h req) (cr_prompt q) g2 = (Inr (v, rid, details), g')"
        "ve_decision v \<in> {''BLOCK'', ''REVIEW''}"
        "res = Inr \<lparr>gc_decision = ve_decision v, gc_content = None, gc_provider = None, gc_model = JNull, gc_usage = JNull,
                      gc_review_id = rid, gc_details = details, gc_task = ve_task v\<rparr>"
    | (failed) p tc g1 g2 v rid details g3 e where "admit X h req g = (Inr (p, tc), g1)" "check_quota X h p tc g1 = (Inr (), g2)"
        "guard_prompt X h p tc (chat_id X h req) (cr_prompt q) g2 = (Inr (v, rid, details), g3)"
        "ve_decision v \<notin> {''BLOCK'', ''REVIEW''}" "forward X h req q p (ve_clean v) g3 = (Inl e, g')" "res = Inl e"
    | (called) p tc g1 g2 v rid details g3 call g4 where "admit X h req g = (Inr (p, tc), g1)" "check_quota X h p tc g1 = (Inr (), g2)"
        "guard_prompt X h p tc (chat_id X h req) (cr_prompt q) g2 = (Inr (v, rid, details), g3)"
        "ve_decision v \<notin> {''BLOCK'', ''REVIEW''}" "forward X h req q p (ve_clean v) g3 = (Inr call, g4)"
        "complete_call X h p tc (chat_id X h req) q v details call g4 = (res, g')"
proof -
  from assms [unfolded gateway_chat_def Let_def, folded chat_id_def] show ?thesis
  proof (cases rule: and_then_cases)
    case (raised e)
    then show ?thesis by (rule refused)
  next
    case (continued ptc g1)
    obtain p tc where a: "admit X h req g = (Inr (p, tc), g1)" and ptc: "ptc = (p, tc)"
      using continued(1) by (cases ptc) simp
    from continued(2) show ?thesis
      unfolding ptc prod.case
    proof (cases rule: and_then_cases)
      case (raised e)
      with a show ?thesis by (rule exhausted)
    next
      case (continued u g2)
      then have c: "check_quota X h p tc g1 = (Inr (), g2)" by simp
      from continued(2) show ?thesis
      proof (cases rule: and_then_cases)
        case (raised e)
        with a c show ?thesis by (rule unguarded)
      next
        case (continued w g3)
        obtain v rid details where w: "w = (v, rid, details)" by (cases w)
        note gp = continued(1) [unfolded w]
        show ?thesis
        proof (cases "ve_decision v \<in> {''BLOCK'', ''REVIEW''}")
          case True
          with continued(2) w have g3: "g3 = g'" and "res = Inr \<lparr>gc_decision = ve_decision v, gc_content = None, gc_provider = None,
            gc_model = JNull, gc_usage = JNull, gc_review_id = rid, gc_details = details, gc_task = ve_task v\<rparr>"
            by (simp_all del: insert_iff)
          from a c gp [unfolded g3] True this(2) show ?thesis by (rule stopped)
        next
          case False
          with continued(2) w have "and_then (forward X h req q p (ve_clean v) g3)
              (\<lambda>call g4. complete_call X h p tc (chat_id X h req) q v details call g4) = (res, g')"
            by (simp del: insert_iff add: forward_def)
          then show ?thesis
          proof (cases rule: and_then_cases)
            case (raised e)
            with a c gp False show ?thesis by (rule failed)
          next
            case (continued call g4)
            with a c gp False show ?thesis by (rule called)
          qed
        qed
      qed
    qed
  qed
qed

lemma forward_frame:
  "forward X h req q p clean g = (r, g')
   \<Longrightarrow> forwarded (chat_messages (cr_system_prompt q) clean) (attempt_names (sx_settings X) q) g g'"
  unfolding forward_def by (rule try_providers_frame)

lemma forwarded_keeps:
  assumes "forwarded messages names g g'"
  shows "gw_quota g' = gw_quota g" and "gw_policy g' = gw_policy g" and "gw_risk g' = gw_risk g"
  using assms by (auto simp: forwarded_def)

lemma chat_payload:
  assumes "provider_request prov (chat_messages sp clean) mo = Inr (m, call)"
  shows "map_of (lc_payload call) ''messages'' \<in>
    {Some (JList (map jmessage (chat_messages sp clean))), Some (JList [JObj [(''role'', JStr ''user''), (''content'', JStr clean)]])}"
proof -
  have "filter (\<lambda>x. cm_role x \<noteq> ''system'') (chat_messages sp clean) = [\<lparr>cm_role = ''user'', cm_content = clean\<rparr>]"
    by (auto simp: chat_messages_def split: option.splits)
  with payload_messages [OF assms] show ?thesis by (cases prov) (simp_all add: jmessage_def)
qed

section \<open>Properties\<close>

lemma provider_calls:
  assumes "gateway_chat X h req q g = (res, g')"
  shows "\<exists>cs. gw_calls g' = gw_calls g @ cs \<and> length cs \<le> length (attempt_names (sx_settings X) q)
        \<and> (if cs = [] then True else
             \<exists>p tc risk. fst (admit X h req g) = Inr (p, tc) \<and> \<not> suspended tc
               \<and> fst (policy_decision (sx_shw X) (pr_capability p) risk (pr_tenant p) None (gw_policy g)) \<notin> {''BLOCK'', ''REVIEW''}
               \<and> (let clean = fst (redact_pii (oe_nlp (sx_output_env X)) (cr_prompt q) (Some tc))
                  in list_all (\<lambda>(name, call). name \<in> set (attempt_names (sx_settings X) q)
                       \<and> map_of (lc_payload call) ''messages'' \<in>
                           {Some (JList (map jmessage (chat_messages (cr_system_prompt q) clean))),
                            Some (JList [JObj [(''role'', JStr ''user''), (''content'', JStr clean)]])}) cs))"
proof -
  have unchanged: ?thesis if "gw_calls g' = gw_calls g"
    using that by (auto intro!: exI [of _ "[]"])

  have calls: ?thesis if a: "admit X h req g = (Inr (p, tc), g1)" and c: "check_quota X h p tc g1 = (Inr (), g2)"
    and gp: "guard_prompt X h p tc (chat_id X h req) (cr_prompt q) g2 = (Inr (v, rid, details), g3)"
    and d: "ve_decision v \<notin> {''BLOCK'', ''REVIEW''}"
    and f: "forwarded (chat_messages (cr_system_prompt q) (ve_clean v)) (attempt_names (sx_settings X) q) g3 g4"
    and g': "gw_calls g' = gw_calls g4" for p tc g1 g2 v rid details g3 g4
  proof -
    from f obtain t cs where cs: "gw_calls g4 = gw_calls g3 @ cs" "length cs \<le> length (attempt_names (sx_settings X) q)"
      "\<forall>(n, c) \<in> set cs. n \<in> set (attempt_names (sx_settings X) q)
         \<and> (\<exists>prov m mo. provider_request prov (chat_messages (cr_system_prompt q) (ve_clean v)) mo = Inr (m, c))"
      unfolding forwarded_def by auto
    obtain qt where g2: "g2 = g1\<lparr>gw_quota := qt\<rparr>" using check_quota_frame [OF c] by blast
    have same: "gw_calls g3 = gw_calls g" "gw_policy g2 = gw_policy g"
      using guard_prompt_frame(1) [OF gp] g2 admit_protected [OF a] by simp_all
    have pd: "fst (policy_decision (sx_shw X) (pr_capability p) (ve_risk v) (pr_tenant p) None (gw_policy g)) \<notin> {''BLOCK'', ''REVIEW''}"
      using guard_prompt_Inr(1) [OF gp] d same by simp
    have clean: "ve_clean v = fst (redact_pii (oe_nlp (sx_output_env X)) (cr_prompt q) (Some tc))"
      by (rule guard_prompt_Inr(2) [OF gp])
    have "list_all (\<lambda>(name, call). name \<in> set (attempt_names (sx_settings X) q)
       \<and> map_of (lc_payload call) ''messages'' \<in>
           {Some (JList (map jmessage (chat_messages (cr_system_prompt q) (ve_clean v)))),
            Some (JList [JObj [(''role'', JStr ''user''), (''content'', JStr (ve_clean v))]])}) cs"
      using cs(3) by (fastforce simp: list_all_iff dest: chat_payload)
    with cs(1,2) same(1) g' pd a admit_Inr(2) [OF a] show ?thesis
      unfolding Let_def clean
      by (intro exI [of _ cs] conjI) (auto intro!: exI [of _ "ve_risk v"])
  qed
  from assms show ?thesis
  proof (cases rule: gateway_chat_cases)
    case (refused e)
    have "gw_calls g' = gw_calls g" by (rule admit_protected(5) [OF refused(1)])
    then show ?thesis by (rule unchanged)
  next
    case (exhausted p tc g1 e)
    have "gw_calls g' = gw_calls g"
      using admit_protected(5) [OF exhausted(1)] check_quota_frame [OF exhausted(2)] by auto
    then show ?thesis by (rule unchanged)
  next
    case (unguarded p tc g1 g2 e)
    have "gw_calls g' = gw_calls g"
      using admit_protected(5) [OF unguarded(1)] check_quota_frame [OF unguarded(2)] guard_prompt_frame(1) [OF unguarded(3)] by auto
    then show ?thesis by (rule unchanged)
  next
    case (stopped p tc g1 g2 v rid details)
    have "gw_calls g' = gw_calls g"
      using admit_protected(5) [OF stopped(1)] check_quota_frame [OF stopped(2)] guard_prompt_frame(1) [OF stopped(3)] by auto
    then show ?thesis by (rule unchanged)
  next
    case (failed p tc g1 g2 v rid details g3 e)
    from calls [OF failed(1-4) forward_frame [OF failed(5)] refl] show ?thesis .
  next
    case (called p tc g1 g2 v rid details g3 call g4)
    from calls [OF called(1-4) forward_frame [OF called(5)] complete_call_frame [OF called(6)]] show ?thesis .
  qed
qed


lemma forward_answer:
  assumes "try_providers X h p i model messages k names e g = (Inr (used, r, lat), g')"
  shows "\<exists>j prov mo. used \<in> set names \<and> get_provider (se_llm (sx_settings X)) used = Some prov
           \<and> attempt_result h j prov messages mo = Answered r"
  using assms
proof (induction names arbitrary: k e g)
  case (Cons name names)
  show ?case
  proof (cases "get_provider (se_llm (sx_settings X)) name")
    case None
    with Cons show ?thesis by (auto split: if_splits)
  next
    case (Some prov)
    let ?m = "if k = 0 then model else None"
    obtain a g1 where c: "call_provider h k prov messages ?m g = (a, g1)" by fastforce
    have a: "a = attempt_result h k prov messages ?m" using c by (simp add: call_provider_def)
    show ?thesis
    proof (cases a)
      case (Answered x)
      with Cons.prems Some c have "x = r" "used = name" by (simp_all add: Let_def)
      with Answered a Some show ?thesis by (metis list.set_intros(1))
    next
      case (FailedWith f)
      with Cons.prems Some c obtain e' k' g2 where "try_providers X h p i model messages k' names e' g2 = (Inr (used, r, lat), g')"
        by (cases f) (auto simp: Let_def)
      from Cons.IH [OF this] show ?thesis by auto
    next
      case TimedOut
      with Cons.prems Some c obtain e' k' g2 where "try_providers X h p i model messages k' names e' g2 = (Inr (used, r, lat), g')"
        by (auto simp: Let_def)
      from Cons.IH [OF this] show ?thesis by auto
    qed
  qed
qed simp

lemma complete_call_Inr:
  assumes "complete_call X h p tc i q v details (used, r, lat) g = (Inr resp, g')"
  obtains reply od dets b g1 where "lr_content r = JStr reply"
    and "fst (assess_output (sx_output_env X) reply (cr_system_prompt q) (Some tc) b) = (od, dets)"
    and "gc_decision resp = combine_decisions (ve_decision v) od"
    and "gc_content resp = (if gc_decision resp \<noteq> ''BLOCK'' then od_clean_response dets else None)"
    and "gc_provider resp = Some (lr_provider r)" and "gc_usage resp = lr_usage r"
    and "gw_quota g1 = gw_quota g" and "record_call X h p i used r lat (reply, od, dets) (gc_decision resp) g1 = (Inr (), g')"
proof -
  from assms obtain out g1 u g2 where gc: "guard_completion X h (lr_content r) (cr_system_prompt q) tc g = (Inr out, g1)"
    and rec: "record_call X h p i used r lat out (combine_decisions (ve_decision v) (fst (snd out))) g1 = (Inr u, g2)"
    and fin: "(if optional_str (lr_model r) \<and> optional_obj (lr_usage r)
               then (Inr \<lparr>gc_decision = combine_decisions (ve_decision v) (fst (snd out)),
                          gc_content = (if combine_decisions (ve_decision v) (fst (snd out)) \<noteq> ''BLOCK''
                                        then od_clean_response (snd (snd out)) else None),
                          gc_provider = Some (lr_provider r), gc_model = lr_model r, gc_usage = lr_usage r, gc_review_id = None,
                          gc_details = od_set ''output_assessment'' (JObj (output_dict (snd (snd out))))
                                         (fallback_details (sx_settings X) q used details),
                          gc_task = ve_task v\<rparr>, g2)
               else (Inl (Unhandled ''ValidationError''), g2)) = (Inr resp, g')"
    unfolding complete_call_def Let_def prod.case and_then_Inr by blast
  from fin have resp: "gc_decision resp = combine_decisions (ve_decision v) (fst (snd out))"
      "gc_content resp = (if gc_decision resp \<noteq> ''BLOCK'' then od_clean_response (snd (snd out)) else None)"
      "gc_provider resp = Some (lr_provider r)" "gc_usage resp = lr_usage r" and "g2 = g'"
    by (auto split: if_splits)
  with rec have rc: "record_call X h p i used r lat out (gc_decision resp) g1 = (Inr (), g')" by simp
  from guard_completion_Inr [OF gc] obtain reply b where o: "lr_content r = JStr reply"
    "out = (reply, fst (assess_output (sx_output_env X) reply (cr_system_prompt q) (Some tc) b))" by blast
  obtain od dets where od: "fst (assess_output (sx_output_env X) reply (cr_system_prompt q) (Some tc) b) = (od, dets)" by fastforce
  show ?thesis
    by (rule that [of reply b od dets g1]) (use o od resp rc guard_completion_frame(2) [OF gc] in auto)
qed

lemma answer_names_provider: "attempt_result h j prov messages mo = Answered answer \<Longrightarrow> lr_provider answer = provider_name prov"
  by (auto simp: attempt_result_def provider_answer_def split: llm_outcome.splits sum.splits prod.splits
      http_result.splits option.splits provider.splits if_splits)

text \<open>What the caller sees of a reply, once the check of it is combined with the decision on the prompt.\<close>

lemma released_after_check:
  assumes "fst (assess_output E reply sp tc b) = (od, dets)" and "d \<notin> {''BLOCK'', ''REVIEW''}"
    and "decision = combine_decisions d od" and "content = (if decision \<noteq> ''BLOCK'' then od_clean_response dets else None)"
  shows "case content of None \<Rightarrow> decision = ''BLOCK''
    | Some shown \<Rightarrow> decision \<notin> {''BLOCK'', ''REVIEW''} \<and> od = ''ALLOW'' \<and> od_clean_response dets = Some shown"
proof -
  have od: "od \<in> {''ALLOW'', ''BLOCK''}" and clean: "od_clean_response dets \<noteq> None \<longleftrightarrow> od = ''ALLOW''"
    using assess_output_decision [of E reply sp tc b] assess_output_clean [of E reply sp tc b] assms(1) by simp_all
  show ?thesis
  proof (cases "od = ''ALLOW''")
    case True
    then have "decision = d" using assms(3) by (simp add: combine_decisions_def)
    with assms(2,4) clean True show ?thesis by auto
  next
    case False
    with od have "od = ''BLOCK''" by simp
    moreover have "severity 0 d \<le> 1 \<or> d = ''BLOCK'' \<or> d = ''REVIEW''" by (auto simp: severity_def SEVERITY_def)
    ultimately have "decision = ''BLOCK''" using assms(2,3) by (auto simp: combine_decisions_def)
    with assms(4) show ?thesis by simp
  qed
qed

text \<open>Claim C6: what the caller reads has been assessed. An answer with content is neither \<open>BLOCK\<close> nor \<open>REVIEW\<close>, and the
  content is the cleaned text the output guard handed back with \<open>ALLOW\<close> for a completion that a provider
  of the chain returned; an answer without content says \<open>BLOCK\<close> or \<open>REVIEW\<close>.\<close>

theorem chat_releases_assessed_text_only:
  "case gateway_chat X h req q g of
     (Inr r, _) \<Rightarrow>
       (case gc_content r of
          None \<Rightarrow> gc_decision r \<in> {''BLOCK'', ''REVIEW''}
        | Some shown \<Rightarrow> gc_decision r \<notin> {''BLOCK'', ''REVIEW''} \<and>
            (\<exists>reply tc b dets prov j messages mo answer.
               attempt_result h j prov messages mo = Answered answer \<and> lr_content answer = JStr reply
               \<and> gc_provider r = Some (provider_name prov) \<and> provider_name prov \<in> set (attempt_names (sx_settings X) q)
               \<and> fst (assess_output (sx_output_env X) reply (cr_system_prompt q) (Some tc) b) = (''ALLOW'', dets)
               \<and> od_clean_response dets = Some shown))
   | (Inl e, _) \<Rightarrow> True"
proof (cases "gateway_chat X h req q g")
  case (Pair res g')
  show ?thesis
  proof (cases res)
    case (Inr r)
    with Pair have "gateway_chat X h req q g = (Inr r, g')" by simp
    then show ?thesis
    proof (cases rule: gateway_chat_cases)
      case (stopped p tc g1 g2 v rid details)
      with Pair Inr show ?thesis by auto
    next
      case (called p tc g1 g2 v rid details g3 call g4)
      obtain used answer lat where call: "call = (used, answer, lat)" by (cases call)
      from called(6) [unfolded call] obtain reply od dets b where c: "lr_content answer = JStr reply"
        "fst (assess_output (sx_output_env X) reply (cr_system_prompt q) (Some tc) b) = (od, dets)"
        "gc_decision r = combine_decisions (ve_decision v) od"
        "gc_content r = (if gc_decision r \<noteq> ''BLOCK'' then od_clean_response dets else None)"
        "gc_provider r = Some (lr_provider answer)"
        by (rule complete_call_Inr)
      from forward_answer [OF called(5) [unfolded forward_def call]] obtain j prov mo where
        f: "used \<in> set (attempt_names (sx_settings X) q)" "get_provider (se_llm (sx_settings X)) used = Some prov"
        "attempt_result h j prov (chat_messages (cr_system_prompt q) (ve_clean v)) mo = Answered answer" by blast
      have "provider_name prov \<in> set (attempt_names (sx_settings X) q)" using f(1) get_provider_name [OF f(2)] by simp
      with released_after_check [OF c(2) called(4) c(3,4)] c(1,2,5) f(3) answer_names_provider [OF f(3)] Pair Inr
      show ?thesis by (cases "gc_content r") (simp_all, blast)
    qed simp_all
  qed (use Pair in simp)
qed

text \<open>A tenant whose quota is used up gets 429 before anything is assessed: no provider is called, nothing is
  recorded, and neither the risk pipeline nor the review queue is touched.\<close>

theorem exhausted_quota_stops_the_call:
  "case admit X h req g of
     (Inr (p, tc), _) \<Rightarrow>
       (let quota = (case tc_token_quota_daily tc of Some n \<Rightarrow> n | None \<Rightarrow> se_quota_default (sx_settings X))
        in if se_quota_enabled (sx_settings X) \<and> fst (sx_would_exceed X (pr_tenant p) quota (ch_day h) (gw_quota g))
           then (case gateway_chat X h req q g of
                   (Inl e, g') \<Rightarrow> status_code e = 429 \<and> gw_calls g' = gw_calls g \<and> gw_trail g' = gw_trail g
                      \<and> gw_risk g' = gw_risk g \<and> gw_reviews g' = gw_reviews g
                 | (Inr _, _) \<Rightarrow> False)
           else True)
   | (Inl e, _) \<Rightarrow> True"
proof (cases "admit X h req g")
  case (Pair r g1)
  show ?thesis
  proof (cases r)
    case (Inr ptc)
    obtain p tc where ptc: "ptc = (p, tc)" by (cases ptc)
    note a = admit_protected [OF Pair]
    show ?thesis
      unfolding gateway_chat_def Let_def Pair Inr ptc
      by (simp add: and_then_eqs check_quota_def a Let_def case_prod_beta)
  qed (use Pair in simp)
qed

lemma try_providers_errors:
  "try_providers X h p i model messages k names e g = (Inl err, g') \<Longrightarrow>
     (case e of None \<Rightarrow> True | Some e' \<Rightarrow> status_code e' \<in> {502, 503}) \<Longrightarrow> (k = 0 \<or> e \<noteq> None) \<Longrightarrow> (k = 0 \<longrightarrow> names \<noteq> [])
   \<Longrightarrow> status_code err \<in> {422, 500, 502, 503} \<and> err \<noteq> Unhandled ''ValueError''"
proof (induction names arbitrary: k e g)
  case Nil
  then show ?case by (cases e) auto
next
  case (Cons name names)
  show ?case
  proof (cases "get_provider (se_llm (sx_settings X)) name")
    case None
    with Cons show ?thesis by (auto split: if_splits)
  next
    case (Some prov)
    let ?m = "if k = 0 then model else None"
    obtain a g1 where c: "call_provider h k prov messages ?m g = (a, g1)" by fastforce
    have step: ?thesis
      if w: "and_then (write_audit_bare X h (failure_record X h p i name ?m k what) g1)
               (\<lambda>_ g2. try_providers X h p i model messages (Suc k) names (Some e') g2) = (Inl err, g')"
        and e': "status_code e' \<in> {502, 503}" for what e'
      using w
    proof (cases rule: and_then_cases)
      case (raised err')
      then show ?thesis
        by (auto simp: write_audit_bare_def split: prod.splits sum.splits audit_error.splits)
    next
      case (continued u g2)
      with Cons.IH [OF continued(2)] e' show ?thesis by simp
    qed
    show ?thesis
    proof (cases a)
      case (FailedWith f)
      show ?thesis
      proof (cases f)
        case (ProviderError pe)
        with FailedWith Cons.prems(1) Some c show ?thesis by (intro step) (auto simp: Let_def)
      qed (use FailedWith Cons.prems(1) Some c in \<open>auto simp: Let_def\<close>)
    next
      case TimedOut
      with Cons.prems(1) Some c show ?thesis by (intro step) (auto simp: Let_def)
    qed (use Cons.prems(1) Some c in \<open>auto simp: Let_def\<close>)
  qed
qed

text \<open>The state of the quota after its check.\<close>

definition after_check ::
  "('v, 'c, 'l, 'j, 'w, 'r, 'q) services \<Rightarrow> chance \<Rightarrow> principal \<Rightarrow> tenant_config \<Rightarrow> 'q \<Rightarrow> 'q" where
  "after_check X h p tc q =
     (if se_quota_enabled (sx_settings X)
      then snd (sx_would_exceed X (pr_tenant p)
             (case tc_token_quota_daily tc of Some n \<Rightarrow> n | None \<Rightarrow> se_quota_default (sx_settings X)) (ch_day h) q)
      else q)"

lemma check_quota_state: "check_quota X h p tc g = (r, g') \<Longrightarrow> gw_quota g' = after_check X h p tc (gw_quota g)"
  by (auto simp: check_quota_def after_check_def Let_def split: if_splits prod.splits)

lemma charged_nothing [simp]: "charged X h tenant JNull q = q"
  by (simp add: charged_def extract_total_tokens_def)

lemma complete_call_quota:
  assumes "complete_call X h p tc i q v details call g = (res, g')"
  shows "case res of
      Inr r \<Rightarrow> gw_quota g' = charged X h (pr_tenant p) (gc_usage r) (gw_quota g)
    | Inl e \<Rightarrow> e \<noteq> Unhandled ''ValidationError'' \<longrightarrow> gw_quota g' = gw_quota g"
proof -
  obtain used r lat where call: "call = (used, r, lat)" by (cases call)
  from assms [unfolded complete_call_def call prod.case Let_def] show ?thesis
  proof (cases rule: and_then_cases)
    case (raised e)
    then show ?thesis using guard_completion_frame(2) by auto
  next
    case (continued out g1)
    have q1: "gw_quota g1 = gw_quota g" by (rule guard_completion_frame(2) [OF continued(1)])
    from continued(2) show ?thesis
    proof (cases rule: and_then_cases)
      case (raised e)
      then show ?thesis using record_call_frame(2) [OF raised(1)] q1 by simp
    next
      case (continued u g2)
      then show ?thesis using record_call_frame(2) [OF continued(1)] q1 by (auto split: if_splits)
    qed
  qed
qed

text \<open>Accounting: an answered request charges the tenant the usage the provider reported, once, on top of the
  quota check; every failing request leaves the tracker as the check left it, with the one exception of
  an answer that does not fit the response model, which fails after it was charged.\<close>

theorem tokens_are_charged_to_answers_only:
  "case gateway_chat X h req q g of
     (Inr r, g') \<Rightarrow> \<exists>p tc. fst (admit X h req g) = Inr (p, tc)
        \<and> gw_quota g' = charged X h (pr_tenant p) (gc_usage r) (after_check X h p tc (gw_quota g))
   | (Inl e, g') \<Rightarrow>
        if e = Unhandled ''ValidationError'' then True
        else (case fst (admit X h req g) of
                Inl _ \<Rightarrow> gw_quota g' = gw_quota g
              | Inr (p, tc) \<Rightarrow> gw_quota g' = after_check X h p tc (gw_quota g))"
proof (cases "gateway_chat X h req q g")
  case (Pair res g')
  have checked: "gw_quota g3 = after_check X h p tc (gw_quota g)"
    if "admit X h req g = (Inr (p, tc), g1)" "check_quota X h p tc g1 = (Inr (), g2)"
      "guard_prompt X h p tc i prompt g2 = (r, g3)" for p tc g1 g2 i prompt r g3
    using guard_prompt_frame(2) [OF that(3)] check_quota_state [OF that(2)] admit_protected(4) [OF that(1)] by simp
  from Pair show ?thesis
  proof (cases rule: gateway_chat_cases)
    case (refused e)
    with Pair admit_protected(4) [OF refused(1)] show ?thesis by simp
  next
    case (exhausted p tc g1 e)
    with Pair check_quota_state [OF exhausted(2)] admit_protected(4) [OF exhausted(1)] show ?thesis by simp
  next
    case (unguarded p tc g1 g2 e)
    with Pair checked [OF unguarded(1-3)] show ?thesis by simp
  next
    case (stopped p tc g1 g2 v rid details)
    with Pair checked [OF stopped(1-3)] show ?thesis by simp
  next
    case (failed p tc g1 g2 v rid details g3 e)
    with Pair checked [OF failed(1-3)] forwarded_keeps(1) [OF forward_frame [OF failed(5)]] show ?thesis by simp
  next
    case (called p tc g1 g2 v rid details g3 call g4)
    with Pair checked [OF called(1-3)] forwarded_keeps(1) [OF forward_frame [OF called(5)]] complete_call_quota [OF called(6)]
    show ?thesis by (cases res) auto
  qed
qed

lemma forward_errors:
  assumes "forward X h req q p clean g = (Inl e, g')"
  shows "status_code e \<in> {422, 500, 502, 503} \<and> e \<noteq> Unhandled ''ValueError''"
  using assms unfolding forward_def by (rule try_providers_errors) (simp_all add: attempt_names_def)

lemma queue_errors: "queue_for_review X h p i d reason risk hash g = (Inl e, g') \<Longrightarrow> e = Unhandled ''OSError''"
  by (auto simp: queue_for_review_def split: if_splits prod.splits sum.splits)

lemma guard_prompt_errors:
  assumes "guard_prompt X h p tc i prompt g = (Inl e, g')"
  shows "status_code e \<in> {500, 503} \<and> e \<noteq> Unhandled ''ValueError''"
  using assms unfolding guard_prompt_def Let_def
  by (auto dest!: decide_input_Inl(1) write_audit_status queue_errors)

lemma guard_completion_errors:
  assumes "guard_completion X h content sp tc g = (Inl e, g')"
  shows "status_code e \<in> {500, 503} \<and> e \<noteq> Unhandled ''ValueError''"
  using assms by (cases content) (auto simp: guard_completion_def dest!: guard_output_Inl split: bounded.splits)

lemma audit_bare_errors: "write_audit_bare X h e g = (Inl err, g') \<Longrightarrow> err = Unhandled ''sqlite3.Error''"
  by (auto simp: write_audit_bare_def split: prod.splits sum.splits audit_error.splits)

lemma account_errors: "account_tokens X h tenant usage g = (Inl err, g') \<Longrightarrow> err = Unhandled ''TypeError''"
  by (auto simp: account_tokens_def split: sum.splits quota_error.splits)

lemma record_call_errors:
  assumes "record_call X h p i used r lat out d g = (Inl e, g')"
  shows "status_code e \<in> {500, 503} \<and> e \<noteq> Unhandled ''ValueError''"
  using assms unfolding record_call_def
  by (auto dest!: write_audit_status audit_bare_errors account_errors)

lemma complete_call_errors:
  assumes "complete_call X h p tc i q v details call g = (Inl e, g')"
  shows "status_code e \<in> {500, 503} \<and> e \<noteq> Unhandled ''ValueError''"
proof -
  obtain used r lat where call: "call = (used, r, lat)" by (cases call)
  from assms [unfolded complete_call_def call prod.case Let_def] show ?thesis
  proof (cases rule: and_then_cases)
    case (raised e')
    with guard_completion_errors show ?thesis by blast
  next
    case (continued out g1)
    from continued(2) show ?thesis
      by (cases rule: and_then_cases) (auto dest!: record_call_errors split: if_splits)
  qed
qed

text \<open>Every refusal is a 401, 403, 422, 429, 500, 502 or 503. The error of the last attempt is always set when
  the chain is exhausted, so the branch with no error to report (a \<open>ValueError\<close> in the framework) is never
  reached. A 401, 403 or 429 comes before any call and any record.\<close>

theorem chat_error_classes:
  "case gateway_chat X h req q g of
     (Inl e, g') \<Rightarrow> status_code e \<in> {401, 403, 422, 429, 500, 502, 503} \<and> e \<noteq> Unhandled ''ValueError''
        \<and> (if status_code e \<in> {401, 403, 429} then gw_calls g' = gw_calls g \<and> gw_trail g' = gw_trail g else True)
   | (Inr r, _) \<Rightarrow> True"
proof (cases "gateway_chat X h req q g")
  case (Pair res g')
  from Pair show ?thesis
  proof (cases rule: gateway_chat_cases)
    case (refused e)
    have "e \<noteq> Unhandled ''ValueError''"
      using refused(1) unfolding admit_def
      by (auto simp: authenticate_def reject_suspended_and_rate_limit_def enforce_rate_limit_def Let_def
          split: prod.splits sum.splits if_splits auth_error.splits)
    with Pair refused admit_status [OF refused(1)] admit_protected(2,5) [OF refused(1)] show ?thesis by auto
  next
    case (exhausted p tc g1 e)
    then have "status_code e = 429 \<and> e \<noteq> Unhandled ''ValueError''"
      by (auto simp: check_quota_def Let_def split: if_splits prod.splits)
    with Pair exhausted check_quota_frame [OF exhausted(2)] admit_protected(2,5) [OF exhausted(1)] show ?thesis by auto
  next
    case (unguarded p tc g1 g2 e)
    with Pair guard_prompt_errors [OF unguarded(3)] show ?thesis by auto
  next
    case (failed p tc g1 g2 v rid details g3 e)
    with Pair forward_errors [OF failed(5)] show ?thesis by auto
  next
    case (called p tc g1 g2 v rid details g3 call g4)
    show ?thesis
    proof (cases res)
      case (Inl e)
      with called(6) complete_call_errors have "status_code e \<in> {500, 503} \<and> e \<noteq> Unhandled ''ValueError''" by blast
      with Pair Inl show ?thesis by auto
    qed (use Pair in simp)
  qed (use Pair in simp)
qed

lemma audit_bare_lenient:
  assumes "\<not> as_read_from_sqlite (se_audit (sx_settings X))"
  shows "\<exists>g'. write_audit_bare X h e g = (Inr (), g')"
  using assms
  by (auto simp: write_audit_bare_def write_record_def emit_record_def mirror_to_sqlite_def Let_def
      split: prod.splits sum.splits)

text \<open>One attempt, seen from outside: \<open>None\<close> when the name is unknown.\<close>

definition attempt_of ::
  "('v, 'c, 'l, 'j, 'w, 'r, 'q) services \<Rightarrow> chance \<Rightarrow> string option \<Rightarrow> chat_message list \<Rightarrow> nat \<Rightarrow> string \<Rightarrow> attempt option" where
  "attempt_of X h model messages k name =
     map_option (\<lambda>prov. attempt_result h k prov messages (if k = 0 then model else None))
       (get_provider (se_llm (sx_settings X)) name)"

definition passes_on :: "nat \<Rightarrow> attempt option \<Rightarrow> bool" where
  "passes_on k a =
     (case a of
        None \<Rightarrow> k \<noteq> 0
      | Some (FailedWith (ProviderError _)) \<Rightarrow> True
      | Some TimedOut \<Rightarrow> True
      | _ \<Rightarrow> False)"

lemma try_providers_reaches:
  assumes "\<not> as_read_from_sqlite (se_audit (sx_settings X))"
    and "list_all (\<lambda>(j, n). passes_on j (attempt_of X h model messages j n)) (enumerate k pre)"
    and "attempt_of X h model messages (k + length pre) name = Some (Answered r)"
  shows "fst (try_providers X h p i model messages k (pre @ name # post) e g) = Inr (name, r, ch_latency h (k + length pre))"
  using assms(2,3)
proof (induction pre arbitrary: k e g)
  case Nil
  then show ?case by (auto simp: attempt_of_def call_provider_def Let_def)
next
  case (Cons n pre)
  have rest: "list_all (\<lambda>(j, n). passes_on j (attempt_of X h model messages j n)) (enumerate (Suc k) pre)"
    "attempt_of X h model messages (Suc k + length pre) name = Some (Answered r)"
    using Cons.prems by simp_all
  note IH = Cons.IH [OF rest]
  have first: "passes_on k (attempt_of X h model messages k n)" using Cons.prems(1) by simp
  show ?case
  proof (cases "get_provider (se_llm (sx_settings X)) n")
    case None
    with first IH show ?thesis by (simp add: attempt_of_def passes_on_def)
  next
    case (Some prov)
    let ?m = "if k = 0 then model else None"
    obtain a g1 where c: "call_provider h k prov messages ?m g = (a, g1)" by fastforce
    then have a: "attempt_of X h model messages k n = Some a" using Some by (simp add: attempt_of_def call_provider_def)
    have next_one: "fst (and_then (write_audit_bare X h (failure_record X h p i n ?m k what) g1)
        (\<lambda>_ g2. try_providers X h p i model messages (Suc k) (pre @ name # post) e' g2))
      = Inr (name, r, ch_latency h (k + length (n # pre)))" for what e'
    proof -
      obtain g2 where "write_audit_bare X h (failure_record X h p i n ?m k what) g1 = (Inr (), g2)"
        using audit_bare_lenient [OF assms(1)] by blast
      with IH [of e' g2] show ?thesis by (simp add: and_then_eqs)
    qed
    show ?thesis
    proof (cases a)
      case (Answered x)
      with first a show ?thesis by (simp add: passes_on_def)
    next
      case (FailedWith f)
      with first a obtain pe where "f = ProviderError pe" by (cases f) (auto simp: passes_on_def)
      with FailedWith Some c next_one [of "sx_error_text X pe" "Some (ProviderFailed pe)"] show ?thesis by (simp add: Let_def)
    next
      case TimedOut
      with Some c next_one [of "''timeout''" "Some ProviderTimeout"] show ?thesis by (simp add: Let_def)
    qed
  qed
qed

text \<open>Claim C26: fallback: if every name before some provider fails in a way the loop passes over (a provider error, a
  timeout, an unknown name that is not the first) and that provider answers, the loop returns its answer,
  whatever stands behind it in the chain. The audit must not raise, which it does only when the database
  is the source that is read from.\<close>

theorem working_fallback_is_reached:
  "if \<not> as_read_from_sqlite (se_audit (sx_settings X))
      \<and> list_all (\<lambda>(j, n). passes_on j (attempt_of X h model messages j n)) (enumerate 0 pre)
      \<and> attempt_of X h model messages (length pre) name = Some (Answered r)
   then fst (try_providers X h p i model messages 0 (pre @ name # post) None g) = Inr (name, r, ch_latency h (length pre))
   else True"
  using try_providers_reaches [of X h model messages 0 pre name r p i post None g] by simp

lemma write_audit_appends:
  assumes "as_sqlite_enabled (se_audit (sx_settings X))" and "as_read_from_sqlite (se_audit (sx_settings X))"
    and "as_fails_closed (se_audit (sx_settings X))"
    and "write_audit_or_fail X h (log_event now sha cap prompt risk d meta) g = (Inr (), g')"
  shows "\<exists>row. at_db (gw_trail g') ''input_assessment'' = at_db (gw_trail g) ''input_assessment'' @ [row]
     \<and> jget row ''decision'' = JStr d \<and> jget row ''prompt_hash'' = JStr (sha prompt)"
  using write_audit_strict [OF assms] row_cells [of "''input_assessment''"]
  by (simp add: log_event_simps db_write_def columns_of BOOL_COLUMNS_def)

lemma write_audit_other_rows:
  assumes "write_audit_or_fail X h e g = (r, g')" and "et \<noteq> text_of (jget e ''event_type'')" and "et \<noteq> ''legacy_event''"
  shows "at_db (gw_trail g') et = at_db (gw_trail g) et"
  using assms
  by (auto simp: write_audit_or_fail_def write_record_def emit_record_def mirror_to_sqlite_def db_write_def Let_def
      split: prod.splits sum.splits if_splits option.splits)

lemma complete_call_rows:
  assumes "complete_call X h p tc i q v details call g = (res, g')"
  shows "at_db (gw_trail g') ''input_assessment'' = at_db (gw_trail g) ''input_assessment''"
proof -
  obtain used r lat where call: "call = (used, r, lat)" by (cases call)
  have recorded: "at_db (gw_trail g2) ''input_assessment'' = at_db (gw_trail g1) ''input_assessment''"
    if "record_call X h p i used r lat out d g1 = (x, g2)" for out d g1 x g2
    using that unfolding record_call_def
  proof (cases rule: and_then_cases)
    case (raised e)
    obtain m od dets where "out = (m, od, dets)" by (cases out)
    with raised show ?thesis by (auto dest!: write_audit_other_rows [where et = "''input_assessment''"] simp: output_record_simps)
  next
    case (continued u s1)
    obtain m od dets where "out = (m, od, dets)" by (cases out)
    with continued(1) have 1: "at_db (gw_trail s1) ''input_assessment'' = at_db (gw_trail g1) ''input_assessment''"
      by (auto dest!: write_audit_other_rows [where et = "''input_assessment''"] simp: output_record_simps)
    from continued(2) show ?thesis
    proof (cases rule: and_then_cases)
      case (raised e)
      with 1 show ?thesis by (auto dest!: write_audit_bare_frame(2) [where et = "''input_assessment''"] simp: gateway_event_type)
    next
      case (continued u s2)
      with 1 show ?thesis
        by (auto dest!: write_audit_bare_frame(2) [where et = "''input_assessment''"] account_tokens_cases simp: gateway_event_type)
    qed
  qed
  from assms [unfolded complete_call_def call prod.case Let_def] show ?thesis
  proof (cases rule: and_then_cases)
    case (raised e)
    show ?thesis by (simp add: guard_completion_frame(1) [OF raised(1)])
  next
    case (continued out g1)
    note 1 = guard_completion_frame(1) [OF continued(1)]
    from continued(2) show ?thesis
      by (cases rule: and_then_cases) (use 1 in \<open>auto dest!: recorded split: if_splits\<close>)
  qed
qed

text \<open>With the strict audit, a call leaves only after its input assessment is in the database: one new row,
  with a decision that is neither \<open>BLOCK\<close> nor \<open>REVIEW\<close> and the hash of the redacted prompt.\<close>

theorem forwarded_prompt_is_on_record:
  "if as_sqlite_enabled (se_audit (sx_settings X)) \<and> as_read_from_sqlite (se_audit (sx_settings X))
      \<and> as_fails_closed (se_audit (sx_settings X))
   then (case gateway_chat X h req q g of (_, g') \<Rightarrow>
           if gw_calls g' = gw_calls g then True
           else \<exists>row tc d. at_db (gw_trail g') ''input_assessment'' = at_db (gw_trail g) ''input_assessment'' @ [row]
             \<and> jget row ''decision'' = JStr d \<and> d \<notin> {''BLOCK'', ''REVIEW''}
             \<and> jget row ''prompt_hash'' = JStr (sx_sha X (fst (redact_pii (oe_nlp (sx_output_env X)) (cr_prompt q) (Some tc)))))
   else True"
proof (cases "as_sqlite_enabled (se_audit (sx_settings X)) \<and> as_read_from_sqlite (se_audit (sx_settings X))
      \<and> as_fails_closed (se_audit (sx_settings X))")
  case strict: True
  show ?thesis
  proof (cases "gateway_chat X h req q g")
    case (Pair res g')
    have silent: ?thesis if "gw_calls g' = gw_calls g"
      using Pair that by simp
    have recorded: ?thesis if a: "admit X h req g = (Inr (p, tc), g1)" and c: "check_quota X h p tc g1 = (Inr (), g2)"
      and gp: "guard_prompt X h p tc (chat_id X h req) (cr_prompt q) g2 = (Inr (v, rid, details), g3)"
      and d: "ve_decision v \<notin> {''BLOCK'', ''REVIEW''}"
      and rows: "at_db (gw_trail g') ''input_assessment'' = at_db (gw_trail g3) ''input_assessment''" for p tc g1 g2 v rid details g3
    proof -
      from guard_prompt_Inr(3) [OF gp] obtain g0 where g0: "gw_trail g0 = gw_trail g2"
        and w: "write_audit_or_fail X h (log_event (ch_iso_now h) (sx_sha X) (pr_capability p) (ve_clean v) (ve_risk v)
                  (ve_decision v) details) g0 = (Inr (), g3)" by blast
      obtain row where row: "at_db (gw_trail g3) ''input_assessment'' = at_db (gw_trail g0) ''input_assessment'' @ [row]"
        "jget row ''decision'' = JStr (ve_decision v)" "jget row ''prompt_hash'' = JStr (sx_sha X (ve_clean v))"
        using write_audit_appends [OF _ _ _ w] strict by blast
      have t: "gw_trail g2 = gw_trail g"
        using check_quota_frame [OF c] admit_protected(2) [OF a] by auto
      have "at_db (gw_trail g') ''input_assessment'' = at_db (gw_trail g) ''input_assessment'' @ [row]"
        using rows row(1) g0 t by simp
      moreover have "jget row ''prompt_hash'' = JStr (sx_sha X (fst (redact_pii (oe_nlp (sx_output_env X)) (cr_prompt q) (Some tc))))"
        using row(3) guard_prompt_Inr(2) [OF gp] by simp
      ultimately show ?thesis using strict Pair row(2) d by auto
    qed
    have fwd: "at_db (gw_trail g4) ''input_assessment'' = at_db (gw_trail g3) ''input_assessment''"
      if "forwarded ms ns g3 g4" for ms ns and g3 g4 :: "('b, 'c, 'd, 'e, 'f, 'g) gateway"
      using that by (auto simp: forwarded_def)
    from Pair show ?thesis
    proof (cases rule: gateway_chat_cases)
      case (refused e)
      show ?thesis by (rule silent) (rule admit_protected(5) [OF refused(1)])
    next
      case (exhausted p tc g1 e)
      show ?thesis
        by (rule silent) (use admit_protected(5) [OF exhausted(1)] check_quota_frame [OF exhausted(2)] in auto)
    next
      case (unguarded p tc g1 g2 e)
      show ?thesis
        by (rule silent) (use admit_protected(5) [OF unguarded(1)] check_quota_frame [OF unguarded(2)]
            guard_prompt_frame(1) [OF unguarded(3)] in auto)
    next
      case (stopped p tc g1 g2 v rid details)
      show ?thesis
        by (rule silent) (use admit_protected(5) [OF stopped(1)] check_quota_frame [OF stopped(2)]
            guard_prompt_frame(1) [OF stopped(3)] in auto)
    next
      case (failed p tc g1 g2 v rid details g3 e)
      show ?thesis by (rule recorded [OF failed(1-4) fwd [OF forward_frame [OF failed(5)]]])
    next
      case (called p tc g1 g2 v rid details g3 call g4)
      show ?thesis
        by (rule recorded [OF called(1-4)])
           (simp add: complete_call_rows [OF called(6)] fwd [OF forward_frame [OF called(5)]])
    qed
  qed
next
  case False
  then show ?thesis by (simp only: if_False)
qed

lemma output_outcome_unused:
  "admit X (h\<lparr>ch_output := b\<rparr>) req g = admit X h req g"
  "check_quota X (h\<lparr>ch_output := b\<rparr>) p tc g = check_quota X h p tc g"
  "guard_prompt X (h\<lparr>ch_output := b\<rparr>) p tc i prompt g = guard_prompt X h p tc i prompt g"
  "forward X (h\<lparr>ch_output := b\<rparr>) req q p clean g = forward X h req q p clean g"
proof -
  let ?h = "h\<lparr>ch_output := b\<rparr>"
  have limit: "enforce_rate_limit X ?h req tc p g = enforce_rate_limit X h req tc p g" for tc p g
    by (simp add: enforce_rate_limit_def)
  have reject: "reject_suspended_and_rate_limit X ?h req = reject_suspended_and_rate_limit X h req"
    by (intro ext) (unfold reject_suspended_and_rate_limit_def limit, rule refl)
  show "admit X ?h req g = admit X h req g"
    unfolding admit_def reject ..
  have writes: "write_audit_or_fail X ?h e g = write_audit_or_fail X h e g" "write_audit_bare X ?h e g = write_audit_bare X h e g" for e g
    by (simp_all add: write_audit_or_fail_def write_audit_bare_def write_record_def)
  have decide: "decide_input X ?h p tc prompt g = decide_input X h p tc prompt g" for prompt g
    by (simp add: decide_input_def)
  have queue: "queue_for_review X ?h p i d reason risk hash g = queue_for_review X h p i d reason risk hash g" for i d reason risk hash g
    by (simp add: queue_for_review_def)
  have now: "ch_iso_now ?h = ch_iso_now h" by simp
  show "guard_prompt X ?h p tc i prompt g = guard_prompt X h p tc i prompt g"
    unfolding guard_prompt_def decide queue writes now ..
  have llm: "ch_llm ?h = ch_llm h" by simp
  have call: "call_provider ?h k prov ms mo g = call_provider h k prov ms mo g" for k prov ms mo g
    unfolding call_provider_def attempt_result_def llm ..
  have failure: "failure_record X ?h p i n mo k what = failure_record X h p i n mo k what" for n mo k what i
    by (simp add: failure_record_def)
  have lat: "ch_latency ?h = ch_latency h" by simp
  have "try_providers X ?h p i mo ms k ns e = try_providers X h p i mo ms k ns e" for i mo ms k ns e
  proof (induction ns arbitrary: k e)
    case (Cons n ns)
    show ?case by (intro ext) (simp only: try_providers.simps call failure writes lat Let_def Cons.IH)
  qed (simp add: fun_eq_iff)
  then show "forward X ?h req q p clean g = forward X h req q p clean g"
    by (simp add: forward_def chat_id_def)
  show "check_quota X ?h p tc g = check_quota X h p tc g"
    by (simp add: check_quota_def Let_def cong: if_cong prod.case_cong)
qed

lemma late_completion:
  assumes "complete_call X h p tc i q v details call g = (Inr r, g')"
  shows "fst (complete_call X (h\<lparr>ch_output := TimesOut s\<rparr>) p tc i q v details call g) = Inl OutputTimeout"
    and "gw_calls (snd (complete_call X (h\<lparr>ch_output := TimesOut s\<rparr>) p tc i q v details call g)) = gw_calls g'"
    and "gw_quota (snd (complete_call X (h\<lparr>ch_output := TimesOut s\<rparr>) p tc i q v details call g)) = gw_quota g"
proof -
  obtain used a lat where call: "call = (used, a, lat)" by (cases call)
  from assms [unfolded call] obtain reply where reply: "lr_content a = JStr reply" by (rule complete_call_Inr)
  obtain g1 where late: "guard_output X (h\<lparr>ch_output := TimesOut s\<rparr>) reply (cr_system_prompt q) (Some tc) g = (Inl OutputTimeout, g1)"
    by (simp add: guard_output_def run_bounded_def)
  then have "complete_call X (h\<lparr>ch_output := TimesOut s\<rparr>) p tc i q v details call g = (Inl OutputTimeout, g1)"
    by (simp add: complete_call_def call guard_completion_def reply and_then_eqs)
  then show "fst (complete_call X (h\<lparr>ch_output := TimesOut s\<rparr>) p tc i q v details call g) = Inl OutputTimeout"
    "gw_calls (snd (complete_call X (h\<lparr>ch_output := TimesOut s\<rparr>) p tc i q v details call g)) = gw_calls g'"
    "gw_quota (snd (complete_call X (h\<lparr>ch_output := TimesOut s\<rparr>) p tc i q v details call g)) = gw_quota g"
    using guard_output_frame(3,4) [OF late] complete_call_frame [OF assms] by simp_all
qed

text \<open>Every answered request, had the output check missed its deadline: the same calls leave, the caller gets
  503, and the usage the provider reported, which the answered request charges, is not charged.\<close>

theorem late_output_check_is_not_charged:
  "case gateway_chat X h req q g of
     (Inr r, g') \<Rightarrow>
       if gc_provider r = None then True
       else (case gateway_chat X (h\<lparr>ch_output := TimesOut s\<rparr>) req q g of
               (Inl e, g'') \<Rightarrow> e = OutputTimeout \<and> gw_calls g'' = gw_calls g'
                 \<and> (\<exists>p tc. fst (admit X h req g) = Inr (p, tc) \<and> gw_quota g'' = after_check X h p tc (gw_quota g)
                      \<and> gw_quota g' = charged X h (pr_tenant p) (gc_usage r) (gw_quota g''))
             | (Inr _, _) \<Rightarrow> False)
   | (Inl e, _) \<Rightarrow> True"
proof (cases "gateway_chat X h req q g")
  case (Pair res g')
  show ?thesis
  proof (cases res)
    case (Inr r)
    show ?thesis
    proof (cases "gc_provider r")
      case (Some prov)
      let ?h = "h\<lparr>ch_output := TimesOut s\<rparr>"
      from Pair Inr have "gateway_chat X h req q g = (Inr r, g')" by simp
      then show ?thesis
      proof (cases rule: gateway_chat_cases)
        case (called p tc g1 g2 v rid details g3 call g4)
        note late = late_completion [OF called(6), of s]
        have id: "chat_id X ?h req = chat_id X h req" by (simp add: chat_id_def)
        have fwd: "try_providers X ?h p (chat_id X h req) (cr_model q) (chat_messages (cr_system_prompt q) (ve_clean v)) 0
            (attempt_names (sx_settings X) q) None g3 = (Inr call, g4)"
          using called(5) output_outcome_unused(4) [of X "TimesOut s" h req q p "ve_clean v" g3] by (simp add: forward_def id)
        have run: "gateway_chat X ?h req q g = complete_call X ?h p tc (chat_id X h req) q v details call g4"
          using called(1-4)
          by (simp add: gateway_chat_def Let_def chat_id_def [symmetric] id output_outcome_unused and_then_eqs fwd)
        have q4: "gw_quota g4 = after_check X h p tc (gw_quota g)"
          using forwarded_keeps(1) [OF forward_frame [OF called(5)]] guard_prompt_frame(2) [OF called(3)]
            check_quota_state [OF called(2)] admit_protected(4) [OF called(1)] by simp
        obtain e g'' where lt: "complete_call X ?h p tc (chat_id X h req) q v details call g4 = (Inl e, g'')"
          using late(1) by (cases "complete_call X ?h p tc (chat_id X h req) q v details call g4") simp
        have "gw_quota g' = charged X h (pr_tenant p) (gc_usage r) (gw_quota g4)"
          using complete_call_quota [OF called(6)] by simp
        with late lt run Pair Inr Some q4 called(1) show ?thesis by simp
      qed (use Some in auto)
    qed (use Pair Inr in simp)
  qed (use Pair in simp)
qed

end
