(* ===== verification/Activity.thy ===== *)
theory Activity
  imports Audit_Trail "HOL-Library.Multiset"
begin

text \<open>
  core/activity.py: the read side of the audit trail. \<open>tail_raw_lines\<close> reads the file backward in
  chunks, \<open>get_recent_activity\<close> and \<open>find_by_request_id\<close> filter what it finds.

  The file is the string of its bytes. \<open>needed = None\<close> is \<open>float("inf")\<close>. The reader of one line
  (\<open>json.loads\<close>, \<open>None\<close> when it raises a decoding error) is an argument; a line that decodes to
  something else than an object makes \<open>record.get\<close> raise, which is \<open>Inl NotARecord\<close>.
\<close>

definition CHUNK_SIZE :: nat where "CHUNK_SIZE = 65536"
definition MAX_BYTES_SCANNED :: nat where "MAX_BYTES_SCANNED = 20000000"
definition MAX_LIMIT :: int where "MAX_LIMIT = 200"

section \<open>The backward reader\<close>

text \<open>\<open>raw.strip()\<close> on bytes strips ASCII white space only.\<close>

definition byte_space :: "char \<Rightarrow> bool" where
  "byte_space c \<longleftrightarrow> (of_char c :: nat) \<in> {9, 10, 11, 12, 13, 32}"

definition nonblank :: "string \<Rightarrow> bool" where
  "nonblank raw \<longleftrightarrow> \<not> list_all byte_space raw"

definition below :: "nat \<Rightarrow> nat option \<Rightarrow> bool" where
  "below n needed = (case needed of None \<Rightarrow> True | Some m \<Rightarrow> n < m)"

text \<open>The inner loop, with its break once enough lines are held.\<close>

fun collect_lines :: "nat option \<Rightarrow> string list \<Rightarrow> string list \<Rightarrow> string list" where
  "collect_lines needed held [] = held"
| "collect_lines needed held (raw # rest) =
     (if nonblank raw
      then (if below (Suc (length held)) needed then collect_lines needed (held @ [raw]) rest else held @ [raw])
      else collect_lines needed held rest)"

definition newline :: char where "newline = CHR 0x0A"

lemma read_less: "0 < pos \<Longrightarrow> s < m \<Longrightarrow> pos - min CHUNK_SIZE (min pos (m - s)) < pos"
  by (simp add: CHUNK_SIZE_def)

function tail_loop ::
  "string \<Rightarrow> nat option \<Rightarrow> nat \<Rightarrow> string list \<Rightarrow> nat \<Rightarrow> string \<Rightarrow> nat \<Rightarrow> string list \<times> nat \<times> string \<times> nat" where
  "tail_loop file needed max_bytes held pos carry scanned =
     (if 0 < pos \<and> below (length held) needed \<and> scanned < max_bytes
      then let read_size = min CHUNK_SIZE (min pos (max_bytes - scanned));
               pos1 = pos - read_size;
               chunk = take read_size (drop pos1 file);
               parts = str_split newline (chunk @ carry)
           in if 0 < pos1
              then tail_loop file needed max_bytes (collect_lines needed held (rev (tl parts))) pos1 (hd parts)
                     (scanned + read_size)
              else tail_loop file needed max_bytes (collect_lines needed held (rev parts)) pos1 [] (scanned + read_size)
      else (held, pos, carry, scanned))"
  by pat_completeness auto
termination
  by (relation "measure (\<lambda>x. fst (snd (snd (snd (snd x)))))")
     (rule wf_measure, (elim conjE, hypsubst, simp only: in_measure fst_conv snd_conv read_less)+)

declare tail_loop.simps [simp del]

record tail_state =
  ta_lines :: "string list"
  ta_truncated :: bool
  ta_exhausted :: bool
  ta_pos :: nat
  ta_carry :: string

text \<open>\<open>file = None\<close>: no such path.\<close>

definition tail_raw_lines ::
  "string option \<Rightarrow> nat option \<Rightarrow> nat \<Rightarrow> nat option \<Rightarrow> string \<Rightarrow> tail_state" where
  "tail_raw_lines file needed max_bytes start_pos carry =
     (let none = \<lparr>ta_lines = [], ta_truncated = False, ta_exhausted = True, ta_pos = 0, ta_carry = []\<rparr>
      in case file of
           None \<Rightarrow> none
         | Some bytes \<Rightarrow>
             if length bytes = 0 then none
             else
               let pos = (case start_pos of None \<Rightarrow> length bytes | Some p \<Rightarrow> p)
               in if pos = 0 then none\<lparr>ta_carry := carry\<rparr>
                  else
                    let (held, pos1, carry1, scanned) = tail_loop bytes needed max_bytes [] pos carry 0
                    in \<lparr>ta_lines = held,
                        ta_truncated = (pos1 \<noteq> 0 \<and> below (length held) needed \<and> max_bytes \<le> scanned),
                        ta_exhausted = (pos1 = 0), ta_pos = pos1, ta_carry = carry1\<rparr>)"

section \<open>The activity feed\<close>

datatype activity_error = NotARecord

record activity =
  ac_events :: "log_entry list"
  ac_truncated :: bool

definition normalise :: "(string \<times> json) list \<Rightarrow> log_entry" where
  "normalise record = with_defaults (JStr ''unset'') record"

definition tenant_matches :: "string option \<Rightarrow> log_entry \<Rightarrow> bool" where
  "tenant_matches tenant r = (case tenant of None \<Rightarrow> True | Some t \<Rightarrow> jget r ''tenant'' = JStr t)"

definition type_matches :: "string list option \<Rightarrow> log_entry \<Rightarrow> bool" where
  "type_matches event_types r =
     (case event_types of None \<Rightarrow> True
      | Some ets \<Rightarrow> ets = [] \<or> jget r ''event_type'' \<in> set (map JStr ets))"

text \<open>\<open>stop = Some n\<close>: break once \<open>n\<close> events are held (the second pass).\<close>

fun scan_lines ::
  "(string \<Rightarrow> json option) \<Rightarrow> (log_entry \<Rightarrow> bool) \<Rightarrow> nat option \<Rightarrow> log_entry list \<Rightarrow> string list
   \<Rightarrow> (activity_error, log_entry list) res" where
  "scan_lines loads keep stop events [] = Inr events"
| "scan_lines loads keep stop events (raw # rest) =
     (case loads raw of
        None \<Rightarrow> scan_lines loads keep stop events rest
      | Some (JObj kvs) \<Rightarrow>
          let r = normalise kvs
          in if \<not> keep r then scan_lines loads keep stop events rest
             else if below (Suc (length events)) stop then scan_lines loads keep stop (events @ [r]) rest
             else Inr (events @ [r])
      | Some _ \<Rightarrow> Inl NotARecord)"

definition scan_feed ::
  "(string \<Rightarrow> json option) \<Rightarrow> string option \<Rightarrow> nat \<Rightarrow> string option \<Rightarrow> string list option
   \<Rightarrow> (activity_error, activity) res" where
  "scan_feed loads file limit tenant event_types =
     (let keep = (\<lambda>r. tenant_matches tenant r \<and> type_matches event_types r);
          p1 = tail_raw_lines file (Some limit) MAX_BYTES_SCANNED None []
      in case scan_lines loads keep None [] (ta_lines p1) of
           Inl e \<Rightarrow> Inl e
         | Inr events \<Rightarrow>
             if length events < limit \<and> \<not> ta_truncated p1 \<and> \<not> ta_exhausted p1 \<and> 0 < ta_pos p1
             then let p2 = tail_raw_lines file None MAX_BYTES_SCANNED (Some (ta_pos p1)) (ta_carry p1)
                  in case scan_lines loads keep (Some limit) events (ta_lines p2) of
                       Inl e \<Rightarrow> Inl e
                     | Inr events' \<Rightarrow> Inr \<lparr>ac_events = take limit events', ac_truncated = ta_truncated p2\<rparr>
             else Inr \<lparr>ac_events = take limit events, ac_truncated = ta_truncated p1\<rparr>)"

text \<open>\<open>store = None\<close>: the store is not the read authority, or reading it raises and the scan answers.\<close>

definition get_recent_activity ::
  "(string \<Rightarrow> json option) \<Rightarrow> (string \<Rightarrow> json) \<Rightarrow> audit_db option \<Rightarrow> string option \<Rightarrow> int \<Rightarrow> string option
   \<Rightarrow> string list option \<Rightarrow> (activity_error, activity) res" where
  "get_recent_activity loads loads_cell store file limit tenant event_types =
     (let n = max 1 (min limit MAX_LIMIT)
      in case store of
           Some db \<Rightarrow> Inr \<lparr>ac_events = recent loads_cell n tenant event_types db, ac_truncated = False\<rparr>
         | None \<Rightarrow> scan_feed loads file (nat n) tenant event_types)"

text \<open>The trace tests the correlation id before it normalises the record.\<close>

fun scan_trace ::
  "(string \<Rightarrow> json option) \<Rightarrow> string \<Rightarrow> string option \<Rightarrow> string list \<Rightarrow> (activity_error, log_entry list) res" where
  "scan_trace loads request_id tenant [] = Inr []"
| "scan_trace loads request_id tenant (raw # rest) =
     (case loads raw of
        None \<Rightarrow> scan_trace loads request_id tenant rest
      | Some (JObj kvs) \<Rightarrow>
          if jget kvs ''request_id'' \<noteq> JStr request_id \<or> \<not> tenant_matches tenant (normalise kvs)
          then scan_trace loads request_id tenant rest
          else (case scan_trace loads request_id tenant rest of
                  Inl e \<Rightarrow> Inl e | Inr rs \<Rightarrow> Inr (normalise kvs # rs))
      | Some _ \<Rightarrow> Inl NotARecord)"

definition find_by_request_id ::
  "(string \<Rightarrow> json option) \<Rightarrow> (string \<Rightarrow> json) \<Rightarrow> audit_db option \<Rightarrow> string option \<Rightarrow> string \<Rightarrow> string option
   \<Rightarrow> (activity_error, activity) res" where
  "find_by_request_id loads loads_cell store file request_id tenant =
     (case store of
        Some db \<Rightarrow> Inr \<lparr>ac_events = by_request_id loads_cell request_id tenant db, ac_truncated = False\<rparr>
      | None \<Rightarrow>
          let t = tail_raw_lines file None MAX_BYTES_SCANNED None []
          in case scan_trace loads request_id tenant (ta_lines t) of
               Inl e \<Rightarrow> Inl e
             | Inr matches \<Rightarrow> Inr \<lparr>ac_events = rev matches, ac_truncated = ta_truncated t\<rparr>)"

section \<open>What the backward reader returns\<close>

lemma split_append:
  "str_split sep (a @ b) = butlast (str_split sep a) @ [last (str_split sep a) @ hd (str_split sep b)] @ tl (str_split sep b)"
proof (induction a)
  case Nil
  then show ?case by simp
next
  case (Cons c cs)
  then show ?case
    by (cases "str_split sep cs") (auto split: list.splits simp: neq_Nil_conv)
qed

lemma hd_split_no_sep: "str_split sep (hd (str_split sep s)) = [hd (str_split sep s)]"
proof (induction s)
  case (Cons c cs)
  then show ?case by (cases "str_split sep cs") auto
qed simp

text \<open>Splitting in front of an incomplete line finds the same lines as splitting the whole.\<close>

lemma split_carry:
  assumes "s = str_split sep b"
  shows "str_split sep (a @ hd s) @ tl s = str_split sep (a @ b)"
  using assms split_append [of sep a b] split_append [of sep a "hd s"] by (simp add: hd_split_no_sep)

definition lines_from :: "string \<Rightarrow> string list" where
  "lines_from b = filter nonblank (rev (tl (str_split newline b)))"

lemma collect_lines_all: "collect_lines None held raws = held @ filter nonblank raws"
  by (induction raws arbitrary: held) (auto simp: below_def)

lemma collect_lines_some:
  "length held < n \<Longrightarrow> collect_lines (Some n) held raws = take n (held @ filter nonblank raws)"
proof (induction raws arbitrary: held)
  case (Cons raw raws)
  then show ?case
    by (cases "Suc (length held) < n") (auto simp: below_def take_Cons' dest: less_antisym)
qed simp

definition upto_needed :: "nat option \<Rightarrow> 'a list \<Rightarrow> 'a list" where
  "upto_needed needed xs = (case needed of None \<Rightarrow> xs | Some n \<Rightarrow> take n xs)"

lemma collect_lines_eq:
  "below (length held) needed \<Longrightarrow> collect_lines needed held raws = upto_needed needed (held @ filter nonblank raws)"
  by (cases needed) (simp_all add: collect_lines_all collect_lines_some upto_needed_def below_def)

definition all_lines :: "string \<Rightarrow> string list" where
  "all_lines file = filter nonblank (rev (str_split newline file))"

definition tail_inv :: "string \<Rightarrow> nat option \<Rightarrow> string list \<Rightarrow> nat \<Rightarrow> string \<Rightarrow> bool" where
  "tail_inv file needed held pos carry \<longleftrightarrow> pos \<le> length file \<and>
     (if 0 < pos then carry = hd (str_split newline (drop pos file)) \<and> held = upto_needed needed (lines_from (drop pos file))
      else held = upto_needed needed (all_lines file))"

lemma upto_needed_append:
  "below (length (upto_needed needed xs)) needed \<Longrightarrow> upto_needed needed (upto_needed needed xs @ ys) = upto_needed needed (xs @ ys)"
  by (auto simp: upto_needed_def below_def split: option.splits)

lemma take_drop_join: "r \<le> p \<Longrightarrow> p \<le> length file \<Longrightarrow> take r (drop (p - r) file) @ drop p file = drop (p - r) file"
  by (metis append_take_drop_id drop_drop le_add_diff_inverse2 add.commute)

lemma tail_inv_step:
  assumes inv: "tail_inv file needed held pos carry" and pos: "0 < pos" "below (length held) needed" and r: "r \<le> pos"
  defines "parts \<equiv> str_split newline (take r (drop (pos - r) file) @ carry)"
  shows "0 < pos - r \<Longrightarrow> tail_inv file needed (collect_lines needed held (rev (tl parts))) (pos - r) (hd parts)"
    and "pos - r = 0 \<Longrightarrow> tail_inv file needed (collect_lines needed held (rev parts)) 0 []"
proof -
  let ?s = "str_split newline (drop pos file)"
  from inv pos have le: "pos \<le> length file" and carry: "carry = hd ?s"
    and held: "held = upto_needed needed (lines_from (drop pos file))"
    by (auto simp: tail_inv_def)
  have all: "parts @ tl ?s = str_split newline (drop (pos - r) file)"
    unfolding parts_def carry using split_carry [OF refl, of newline _ "drop pos file"] take_drop_join [OF r le] by metis
  have col: "collect_lines needed held raws = upto_needed needed (lines_from (drop pos file) @ filter nonblank raws)" for raws
    using pos(2) by (simp add: collect_lines_eq held upto_needed_append)
  { assume "0 < pos - r"
    have "hd parts = hd (str_split newline (drop (pos - r) file))" and "tl (str_split newline (drop (pos - r) file)) = tl parts @ tl ?s"
      unfolding all [symmetric] by (simp_all add: parts_def)
    then show "tail_inv file needed (collect_lines needed held (rev (tl parts))) (pos - r) (hd parts)"
      using \<open>0 < pos - r\<close> le by (simp add: tail_inv_def col lines_from_def) }
  { assume "pos - r = 0"
    with all have "str_split newline file = parts @ tl ?s" by simp
    then show "tail_inv file needed (collect_lines needed held (rev parts)) 0 []"
      by (simp add: tail_inv_def col lines_from_def all_lines_def) }
qed

lemma tail_loop_stop:
  "\<not> (0 < pos \<and> below (length held) needed \<and> scanned < m) \<Longrightarrow>
   tail_loop bytes needed m held pos carry scanned = (held, pos, carry, scanned)"
  by (subst tail_loop.simps) (simp only: if_False)

lemma tail_loop_step:
  assumes "0 < pos \<and> below (length held) needed \<and> scanned < m"
    and "r = min CHUNK_SIZE (min pos (m - scanned))"
    and "parts = str_split newline (take r (drop (pos - r) bytes) @ carry)"
  shows "tail_loop bytes needed m held pos carry scanned =
    (if 0 < pos - r then tail_loop bytes needed m (collect_lines needed held (rev (tl parts))) (pos - r) (hd parts) (scanned + r)
     else tail_loop bytes needed m (collect_lines needed held (rev parts)) (pos - r) [] (scanned + r))"
  unfolding assms(2,3) using assms(1) by (subst tail_loop.simps) (simp only: if_True Let_def simp_thms)

lemma read_size_bounds: "0 < pos \<Longrightarrow> scanned < m \<Longrightarrow> r = min CHUNK_SIZE (min pos (m - scanned)) \<Longrightarrow> 0 < r \<and> r \<le> pos"
  by (simp add: CHUNK_SIZE_def)

lemma tail_loop_inv:
  "tail_inv bytes needed held pos carry \<Longrightarrow> tail_loop bytes needed m held pos carry scanned = (held', pos', carry', sc') \<Longrightarrow>
   tail_inv bytes needed held' pos' carry' \<and> pos' \<le> pos \<and> sc' = scanned + (pos - pos')
   \<and> (pos' = 0 \<or> \<not> below (length held') needed \<or> m \<le> sc')"
proof (induction pos arbitrary: held carry scanned rule: less_induct)
  case (less pos)
  show ?case
  proof (cases "0 < pos \<and> below (length held) needed \<and> scanned < m")
    case False
    from less.prems(2) tail_loop_stop [OF False]
    have "held' = held" "pos' = pos" "carry' = carry" "sc' = scanned" by simp_all
    with less.prems(1) False show ?thesis by auto
  next
    case True
    obtain r where r: "r = min CHUNK_SIZE (min pos (m - scanned))" by blast
    obtain parts where parts: "parts = str_split newline (take r (drop (pos - r) bytes) @ carry)" by blast
    from True read_size_bounds [OF _ _ r] have b: "0 < r" "r \<le> pos" by blast+
    note step = tail_inv_step [OF less.prems(1) _ _ b(2), folded parts]
    have smaller: "pos - r < pos" using b True by linarith
    show ?thesis
    proof (cases "0 < pos - r")
      case more: True
      with less.prems(2) tail_loop_step [OF True r parts]
      have "tail_loop bytes needed m (collect_lines needed held (rev (tl parts))) (pos - r) (hd parts) (scanned + r)
             = (held', pos', carry', sc')" by simp
      from less.IH [OF smaller _ this] step(1) [OF _ _ more] True b
      show ?thesis by fastforce
    next
      case last: False
      with less.prems(2) tail_loop_step [OF True r parts]
      have "tail_loop bytes needed m (collect_lines needed held (rev parts)) (pos - r) [] (scanned + r)
             = (held', pos', carry', sc')" by simp
      moreover have "pos - r = 0" using last by simp
      ultimately show ?thesis
        using less.IH [OF smaller, of _ "[]" "scanned + r"] step(2) True b by fastforce
    qed
  qed
qed

lemma lines_from_prefix: "\<exists>rest. all_lines (take p bytes @ drop p bytes) = lines_from (drop p bytes) @ rest"
  unfolding all_lines_def lines_from_def split_append [of newline "take p bytes" "drop p bytes"]
  by simp

lemma upto_needed_full:
  "\<not> below (length (upto_needed needed xs)) needed \<Longrightarrow> upto_needed needed (xs @ ys) = upto_needed needed xs"
  by (auto simp: upto_needed_def below_def split: option.splits)

lemma tail_raw_lines_exact:
  assumes "length bytes \<le> m"
  shows "ta_lines (tail_raw_lines (Some bytes) needed m None []) = upto_needed needed (all_lines bytes)"
    and "\<not> ta_truncated (tail_raw_lines (Some bytes) needed m None [])"
    and "ta_exhausted (tail_raw_lines (Some bytes) needed m None []) \<or>
         \<not> below (length (ta_lines (tail_raw_lines (Some bytes) needed m None []))) needed"
proof -
  let ?t = "tail_raw_lines (Some bytes) needed m None []"
  have empty: "all_lines [] = []" "upto_needed needed [] = ([] :: string list)"
    by (simp_all add: all_lines_def nonblank_def upto_needed_def split: option.splits)
  have "ta_lines ?t = upto_needed needed (all_lines bytes) \<and> \<not> ta_truncated ?t \<and>
        (ta_exhausted ?t \<or> \<not> below (length (ta_lines ?t)) needed)"
  proof (cases "bytes = []")
    case True
    then show ?thesis by (simp add: tail_raw_lines_def Let_def empty)
  next
    case False
    obtain held pos carry sc where loop: "tail_loop bytes needed m [] (length bytes) [] 0 = (held, pos, carry, sc)"
      by (metis surj_pair)
    have "tail_inv bytes needed [] (length bytes) []"
      using False by (simp add: tail_inv_def lines_from_def empty)
    from tail_loop_inv [OF this loop]
    have inv: "tail_inv bytes needed held pos carry" and sc: "sc = length bytes - pos"
      and stop: "pos = 0 \<or> \<not> below (length held) needed \<or> m \<le> sc" and pos: "pos \<le> length bytes"
      by auto
    have stop': "pos = 0 \<or> \<not> below (length held) needed"
      using stop sc assms pos False by (cases pos) auto
    have "held = upto_needed needed (all_lines bytes)"
    proof (cases "pos = 0")
      case False
      with inv have h: "held = upto_needed needed (lines_from (drop pos bytes))" by (simp add: tail_inv_def)
      from lines_from_prefix [of pos bytes] obtain rest where "all_lines bytes = lines_from (drop pos bytes) @ rest"
        by auto
      with h stop' False show ?thesis by (simp add: upto_needed_full)
    qed (use inv in \<open>simp add: tail_inv_def\<close>)
    with stop' loop False show ?thesis
      by (auto simp: tail_raw_lines_def)
  qed
  then show "ta_lines ?t = upto_needed needed (all_lines bytes)" "\<not> ta_truncated ?t"
    "ta_exhausted ?t \<or> \<not> below (length (ta_lines ?t)) needed" by blast+
qed

section \<open>What the readers return\<close>

lemma scan_lines_records:
  assumes "\<And>raw. raw \<in> set raws \<Longrightarrow> loads raw = Some (JObj (decoded raw))"
  shows "scan_lines loads keep None events raws = Inr (events @ filter keep (map (\<lambda>raw. normalise (decoded raw)) raws))"
  using assms by (induction raws arbitrary: events) (simp_all add: below_def Let_def)

lemma scan_lines_keeps:
  "scan_lines loads keep stop events raws = Inr out \<Longrightarrow> list_all keep events \<Longrightarrow> list_all keep out"
  by (induction loads keep stop events raws rule: scan_lines.induct)
     (auto split: option.splits json.splits if_splits simp: Let_def)

lemma scan_trace_records:
  assumes "\<And>raw. raw \<in> set raws \<Longrightarrow> loads raw = Some (JObj (decoded raw))"
  shows "scan_trace loads rid tenant raws =
    Inr (map (\<lambda>raw. normalise (decoded raw))
          (filter (\<lambda>raw. jget (decoded raw) ''request_id'' = JStr rid \<and> tenant_matches tenant (normalise (decoded raw))) raws))"
  using assms by (induction raws) simp_all

lemma scan_trace_tenant:
  "scan_trace loads rid tenant raws = Inr out \<Longrightarrow> list_all (tenant_matches tenant) out"
  by (induction raws arbitrary: out)
     (auto split: option.splits json.splits if_splits sum.splits)


text \<open>Claim C25: an unfiltered query over a log of at most 20 MB whose lines are all records returns the newest
  records, newest first, as many as the clamped limit asks for and the log has: reading backward in
  chunks is the same as splitting the whole file.\<close>

theorem feed_returns_newest:
  assumes "\<And>raw. raw \<in> set (all_lines bytes) \<Longrightarrow> loads raw = Some (JObj (decoded raw))"
    and "length bytes \<le> MAX_BYTES_SCANNED"
  shows "get_recent_activity loads cell None (Some bytes) limit None None =
    Inr \<lparr>ac_events = take (nat (max 1 (min limit 200))) (map (\<lambda>raw. normalise (decoded raw)) (all_lines bytes)),
         ac_truncated = False\<rparr>"
proof -
  let ?n = "nat (max 1 (min limit MAX_LIMIT))"
  let ?t = "tail_raw_lines (Some bytes) (Some ?n) MAX_BYTES_SCANNED None []"
  note exact = tail_raw_lines_exact [OF assms(2), of "Some ?n"]
  have lines: "ta_lines ?t = take ?n (all_lines bytes)" using exact(1) by (simp add: upto_needed_def)
  have keep: "(\<lambda>r. tenant_matches None r \<and> type_matches None r) = (\<lambda>_. True)"
    by (simp add: tenant_matches_def type_matches_def)
  have scan: "scan_lines loads (\<lambda>_. True) None [] (ta_lines ?t) =
    Inr (map (\<lambda>raw. normalise (decoded raw)) (take ?n (all_lines bytes)))"
    unfolding lines using scan_lines_records [of "take ?n (all_lines bytes)" loads decoded "\<lambda>_. True" "[]"] assms(1)
    by (auto dest: in_set_takeD)
  have "ta_exhausted ?t \<or> \<not> length (ta_lines ?t) < ?n" using exact(3) by (simp add: below_def)
  then have "\<not> (length (map (\<lambda>raw. normalise (decoded raw)) (take ?n (all_lines bytes))) < ?n
       \<and> \<not> ta_truncated ?t \<and> \<not> ta_exhausted ?t \<and> 0 < ta_pos ?t)"
    unfolding lines length_map by blast
  then show ?thesis
    using exact(2)
    by (simp only: get_recent_activity_def scan_feed_def Let_def option.case keep scan sum.case if_False take_map [symmetric])
       (simp add: take_map MAX_LIMIT_def)
qed

lemma trace_is_exact:
  assumes "\<And>raw. raw \<in> set (all_lines bytes) \<Longrightarrow> loads raw = Some (JObj (decoded raw))"
    and "length bytes \<le> MAX_BYTES_SCANNED"
  shows "find_by_request_id loads cell None (Some bytes) request_id tenant =
    Inr \<lparr>ac_events = map (\<lambda>raw. normalise (decoded raw))
          (filter (\<lambda>raw. jget (decoded raw) ''request_id'' = JStr request_id
                        \<and> tenant_matches tenant (normalise (decoded raw)))
            (filter nonblank (str_split newline bytes))), ac_truncated = False\<rparr>"
proof -
  note exact = tail_raw_lines_exact [OF assms(2), of None]
  have lines: "ta_lines (tail_raw_lines (Some bytes) None MAX_BYTES_SCANNED None []) = all_lines bytes"
    using exact(1) by (simp add: upto_needed_def)
  show ?thesis
    using exact(2) scan_trace_records [of "all_lines bytes" loads decoded request_id tenant] assms(1)
    by (simp add: find_by_request_id_def lines rev_map rev_filter all_lines_def)
qed

text \<open>With a tenant filter, every event the feed or the trace reads from the log carries that tenant, for
  any file content.\<close>

theorem readers_stay_in_tenant:
  "(case get_recent_activity loads cell None bytes limit (Some t) event_types of
      Inl _ \<Rightarrow> True | Inr a \<Rightarrow> list_all (\<lambda>r. jget r ''tenant'' = JStr t) (ac_events a))
   \<and> (case find_by_request_id loads cell None bytes request_id (Some t) of
      Inl _ \<Rightarrow> True | Inr a \<Rightarrow> list_all (\<lambda>r. jget r ''tenant'' = JStr t) (ac_events a))"
proof
  let ?keep = "\<lambda>r. tenant_matches (Some t) r \<and> type_matches event_types r"
  have scan: "list_all ?keep out" if "scan_lines loads ?keep stop events raws = Inr out" "list_all ?keep events"
    for stop events raws out using scan_lines_keeps [OF that] .
  have sub: "list_all ?keep xs \<Longrightarrow> list_all (\<lambda>r. jget r ''tenant'' = JStr t) (take k xs)" for xs k
    by (auto simp: list_all_iff tenant_matches_def dest: in_set_takeD)
  show "case get_recent_activity loads cell None bytes limit (Some t) event_types of
      Inl _ \<Rightarrow> True | Inr a \<Rightarrow> list_all (\<lambda>r. jget r ''tenant'' = JStr t) (ac_events a)"
    unfolding get_recent_activity_def scan_feed_def Let_def option.case
    by (auto split: sum.splits intro!: sub dest!: scan)
  show "case find_by_request_id loads cell None bytes request_id (Some t) of
      Inl _ \<Rightarrow> True | Inr a \<Rightarrow> list_all (\<lambda>r. jget r ''tenant'' = JStr t) (ac_events a)"
    unfolding find_by_request_id_def Let_def option.case
    by (auto split: sum.splits dest!: scan_trace_tenant simp: tenant_matches_def list_all_iff)
qed

lemma small_file_exhausted:
  assumes "bytes \<noteq> []" and "length bytes \<le> CHUNK_SIZE" and "below 0 needed"
  shows "ta_exhausted (tail_raw_lines (Some bytes) needed MAX_BYTES_SCANNED None [])"
proof -
  let ?n = "length bytes"
  have r: "?n = min CHUNK_SIZE (min ?n (MAX_BYTES_SCANNED - 0))"
    using assms(2) by (simp add: CHUNK_SIZE_def MAX_BYTES_SCANNED_def)
  have c: "0 < ?n \<and> below (length ([] :: string list)) needed \<and> 0 < MAX_BYTES_SCANNED"
    using assms by (simp add: MAX_BYTES_SCANNED_def)
  have "fst (snd (tail_loop bytes needed MAX_BYTES_SCANNED [] ?n [] 0)) = 0"
    unfolding tail_loop_step [OF c r refl] by (simp add: tail_loop_stop)
  then show ?thesis
    using assms(1) by (auto simp: tail_raw_lines_def Let_def split: prod.splits)
qed

text \<open>On a log of at most one chunk (64 KiB) a filtered query only looks at the newest \<open>limit\<close> lines and
  reports a complete scan: the first pass stops at \<open>limit\<close> lines before it filters, and because it has
  read the whole file the second pass, which would look further, does not run. An older matching event
  is not returned although the limit has room for it (second part of the witness).\<close>

theorem small_log_filter_is_partial:
  assumes "\<And>raw. raw \<in> set (all_lines bytes) \<Longrightarrow> loads raw = Some (JObj (decoded raw))"
    and "bytes \<noteq> []" and "length bytes \<le> CHUNK_SIZE"
  shows "get_recent_activity loads cell None (Some bytes) limit tenant event_types =
    Inr \<lparr>ac_events = filter (\<lambda>r. tenant_matches tenant r \<and> type_matches event_types r)
           (map (\<lambda>raw. normalise (decoded raw)) (take (nat (max 1 (min limit 200))) (all_lines bytes))),
         ac_truncated = False\<rparr>"
proof -
  let ?n = "nat (max 1 (min limit MAX_LIMIT))"
  let ?keep = "\<lambda>r. tenant_matches tenant r \<and> type_matches event_types r"
  let ?t = "tail_raw_lines (Some bytes) (Some ?n) MAX_BYTES_SCANNED None []"
  have "length bytes \<le> MAX_BYTES_SCANNED"
    using assms(3) by (simp add: CHUNK_SIZE_def MAX_BYTES_SCANNED_def)
  note exact = tail_raw_lines_exact [OF this, of "Some ?n"]
  have lines: "ta_lines ?t = take ?n (all_lines bytes)" using exact(1) by (simp add: upto_needed_def)
  have fin: "ta_exhausted ?t" using assms(2,3) by (intro small_file_exhausted) (auto simp: below_def)
  have scan: "scan_lines loads ?keep None [] (ta_lines ?t) =
    Inr (filter ?keep (map (\<lambda>raw. normalise (decoded raw)) (take ?n (all_lines bytes))))"
    unfolding lines using scan_lines_records [of "take ?n (all_lines bytes)" loads decoded ?keep "[]"] assms(1)
    by (auto dest: in_set_takeD)
  have "length (filter ?keep (map (\<lambda>raw. normalise (decoded raw)) (take ?n (all_lines bytes)))) \<le> ?n"
    by (rule order.trans [OF length_filter_le]) simp
  then show ?thesis
    using exact(2) fin
    by (simp only: get_recent_activity_def scan_feed_def Let_def option.case scan sum.case simp_thms if_False take_all)
       (simp add: MAX_LIMIT_def)
qed

definition two_tenants :: "string \<Rightarrow> (string \<times> json) list" where
  "two_tenants raw = [(''event_type'', JStr ''tool_call''), (''request_id'', JStr ''r''), (''capability'', JStr ''GENERAL''),
     (''tenant'', JStr (if raw = ''a'' then ''acme'' else ''beta''))]"

theorem small_log_filter_is_partial_witness:
  "let loads = (\<lambda>raw. Some (JObj (two_tenants raw)));
       bytes = ''b'' @ [newline] @ ''a'' @ [newline];
       feed = (\<lambda>n. get_recent_activity loads (\<lambda>_. JNull) None (Some bytes) n (Some ''beta'') None)
   in feed 1 = Inr \<lparr>ac_events = [], ac_truncated = False\<rparr>
    \<and> feed 2 = Inr \<lparr>ac_events = [two_tenants ''b''], ac_truncated = False\<rparr>"
proof -
  let ?bytes = "''b'' @ [newline] @ ''a'' @ [newline]"
  have lines: "all_lines ?bytes = [''a'', ''b'']"
    by (simp add: all_lines_def newline_def nonblank_def byte_space_def)
  have feed: "get_recent_activity (\<lambda>raw. Some (JObj (two_tenants raw))) (\<lambda>_. JNull) None (Some ?bytes) n (Some ''beta'') None
    = Inr \<lparr>ac_events = filter (\<lambda>r. tenant_matches (Some ''beta'') r \<and> type_matches None r)
           (map (\<lambda>raw. normalise (two_tenants raw)) (take (nat (max 1 (min n 200))) [''a'', ''b''])), ac_truncated = False\<rparr>" for n
    using small_log_filter_is_partial [of ?bytes "\<lambda>raw. Some (JObj (two_tenants raw))" two_tenants, OF refl]
    unfolding lines by (simp add: CHUNK_SIZE_def)
  show ?thesis
    unfolding Let_def feed
    by (simp add: tenant_matches_def type_matches_def normalise_def with_defaults_def two_tenants_def setdefault_def
        or_else_def jget_def take_Cons')
qed

lemma sample_lines: "all_lines (''b'' @ [newline] @ ''a'' @ [newline]) = [''a'', ''b'']"
  by (simp_all add: all_lines_def newline_def nonblank_def byte_space_def)

lemma normalise_sample: "normalise (two_tenants raw) = two_tenants raw"
  by (simp add: normalise_def with_defaults_def two_tenants_def setdefault_def or_else_def jget_def)

theorem feed_returns_newest_witness:
  "get_recent_activity (\<lambda>raw. Some (JObj (two_tenants raw))) (\<lambda>_. JNull) None
     (Some (''b'' @ [newline] @ ''a'' @ [newline])) 1 None None
   = Inr \<lparr>ac_events = [two_tenants ''a''], ac_truncated = False\<rparr>"
  using feed_returns_newest [of "''b'' @ [newline] @ ''a'' @ [newline]" "\<lambda>raw. Some (JObj (two_tenants raw))" two_tenants
      "\<lambda>_. JNull" 1, OF refl]
  unfolding sample_lines by (simp add: MAX_BYTES_SCANNED_def normalise_sample)

section \<open>The two stores agree\<close>

definition etype :: "log_entry \<Rightarrow> string" where
  "etype e = text_of (jget e ''event_type'')"

definition both_stores :: write_outcome where
  "both_stores = \<lparr>wo_jsonl = True, wo_sqlite = True\<rparr>"

definition empty_trail :: audit_trail where
  "empty_trail = \<lparr>at_jsonl = [], at_db = (\<lambda>_. [])\<rparr>"

definition row_of :: "(json \<Rightarrow> string) \<Rightarrow> log_entry \<Rightarrow> db_row" where
  "row_of dumps e = coerce_row dumps (the (map_of COLUMNS (etype e))) e"

lemma emit_run_stores:
  assumes "as_sqlite_enabled S"
  shows "(\<And>e. e \<in> set es \<Longrightarrow> mirrored dumps loads e) \<Longrightarrow>
    let t' = emit_run S dumps (map (Pair both_stores) es) t
    in at_jsonl t' = at_jsonl t @ es
       \<and> at_db t' tb = at_db t tb @ map (row_of dumps) (filter (\<lambda>e. etype e = tb) es)"
proof (induction es arbitrary: t)
  case (Cons e es)
  obtain cols where cols: "map_of COLUMNS (etype e) = Some cols"
    using Cons.prems [of e] by (auto simp: mirrored_def etype_def Let_def split: option.splits)
  let ?t1 = "snd (emit_record S dumps both_stores e t)"
  have "at_jsonl ?t1 = at_jsonl t @ [e]"
    and "at_db ?t1 tb = at_db t tb @ (if etype e = tb then [row_of dumps e] else [])"
    using assms cols by (auto simp: emit_record_def mirror_to_sqlite_def both_stores_def db_write_def row_of_def etype_def)
  with Cons.IH [of ?t1] Cons.prems show ?case
    by (simp add: Let_def)
qed simp

lemma sort_key_unique:
  assumes "mset xs = mset ys" and "sorted (map f ys)" and "distinct (map f ys)"
  shows "sort_key f xs = ys"
proof (rule properties_for_sort_key)
  fix k assume k: "k \<in> set ys"
  have one: "filter (\<lambda>x. f k = f x) ys = [k]"
    using k assms(3)
  proof (induction ys)
    case (Cons y ys)
    then show ?case
      by (cases "k = y") (auto simp: filter_empty_conv image_iff)
  qed simp
  have "mset (filter (\<lambda>x. f k = f x) xs) = mset (filter (\<lambda>x. f k = f x) ys)"
    by (simp add: assms(1))
  then show "filter (\<lambda>x. f k = f x) ys = filter (\<lambda>x. f k = f x) xs"
    unfolding one by (simp del: mset_filter)
qed (use assms in auto)

lemma mset_partition:
  "distinct ts \<Longrightarrow> mset (concat (map (\<lambda>t. filter (\<lambda>e. f e = t) xs) ts)) = mset (filter (\<lambda>e. f e \<in> set ts) xs)"
proof (induction ts)
  case (Cons t ts)
  have "mset (filter (\<lambda>e. f e = t \<or> f e \<in> set ts) xs) = mset (filter (\<lambda>e. f e = t) xs) + mset (filter (\<lambda>e. f e \<in> set ts) xs)"
    using Cons.prems by (induction xs) auto
  with Cons show ?case by simp
qed simp

lemma map_of_with_defaults:
  "map_of (with_defaults d r) k =
     (if k = ''event_type'' then Some (or_else (jget r ''event_type'') (JStr ''legacy''))
      else case map_of r k of Some v \<Rightarrow> Some v
           | None \<Rightarrow> if k = ''tenant'' then Some d else if k = ''capability'' then Some (JStr ''unset'') else None)"
  unfolding with_defaults_def setdefault_def
  by (auto simp: map_of_od_set map_of_append_new split: option.splits simp del: map_of_append)

lemma known_types:
  "map_of COLUMNS et = Some cols \<Longrightarrow> et \<in> set (map fst COLUMNS) \<and> {''request_id'', ''tenant'', ''timestamp''} \<subseteq> set cols"
  unfolding COLUMNS_def by (auto split: if_splits)

lemma row_key:
  assumes "map_of COLUMNS et = Some cols" and "k \<in> {''request_id'', ''tenant'', ''timestamp''}"
  shows "jget (coerce_row dumps cols e) k = jget e k"
  using known_types [OF assms(1)] assms(2)
  by (auto simp: coerce_row_def map_of_graph coerce_cell_def BOOL_COLUMNS_def jget_def)

definition stored :: "(json \<Rightarrow> string) \<Rightarrow> (string \<Rightarrow> json) \<Rightarrow> log_entry \<Rightarrow> log_entry" where
  "stored dumps cell e = row_to_record cell (etype e) (row_of dumps e)"

lemma mirrored_facts:
  assumes "mirrored dumps cell e"
  shows "map_of (stored dumps cell e) = map_of e" and "etype e \<in> set (map fst COLUMNS)"
    and "map_of e ''request_id'' \<noteq> None" and "map_of e ''tenant'' \<noteq> None"
    and "k \<in> {''request_id'', ''tenant''} \<Longrightarrow> jget (row_of dumps e) k = jget e k"
proof -
  from assms obtain cols where cols: "map_of COLUMNS (etype e) = Some cols"
    and same: "map_of (row_to_record cell (etype e) (coerce_row dumps cols e)) = map_of e"
    and keys: "map_of e ''request_id'' \<noteq> None" "map_of e ''tenant'' \<noteq> None"
    unfolding mirrored_def Let_def etype_def by (auto split: option.splits)
  show "map_of (stored dumps cell e) = map_of e" using cols same by (simp add: stored_def row_of_def)
  show "etype e \<in> set (map fst COLUMNS)" using known_types [OF cols] by blast
  show "map_of e ''request_id'' \<noteq> None" "map_of e ''tenant'' \<noteq> None" by (rule keys)+
  show "k \<in> {''request_id'', ''tenant''} \<Longrightarrow> jget (row_of dumps e) k = jget e k"
    using row_key [OF cols] cols by (auto simp: row_of_def)
qed

definition trace_hit :: "string \<Rightarrow> string option \<Rightarrow> log_entry \<Rightarrow> bool" where
  "trace_hit rid tenant e \<longleftrightarrow> sql_match ''request_id'' (Some rid) e \<and> sql_match ''tenant'' tenant e"

text \<open>The rows of the store that a trace selects, as records, in table order.\<close>

lemma trace_rows:
  assumes "\<And>e. e \<in> set es \<Longrightarrow> mirrored dumps cell e"
    and db: "\<And>tb. db tb = map (row_of dumps) (filter (\<lambda>e. etype e = tb) es)"
  shows "mset (concat (map (\<lambda>(et, table). map (row_to_record cell et) (filter (trace_hit rid tenant) (db table))) TABLES))
       = mset (map (stored dumps cell) (filter (trace_hit rid tenant) es))"
proof -
  have hit: "trace_hit rid tenant (row_of dumps e) = trace_hit rid tenant e" if "e \<in> set es" for e
    using mirrored_facts(5) [OF assms(1) [OF that]] by (cases tenant) (auto simp: trace_hit_def sql_match_def)
  have part: "map (row_to_record cell et) (filter (trace_hit rid tenant) (db et)) =
      map (stored dumps cell) (filter (\<lambda>e. etype e = et) (filter (trace_hit rid tenant) es))" for et
    unfolding db filter_map filter_filter comp_def map_map
    by (auto simp: stored_def hit cong: conj_cong intro!: map_cong filter_cong)
  have legacy: "db ''legacy_event'' = []"
    using mirrored_facts(2) [OF assms(1)] by (force simp: db filter_empty_conv COLUMNS_def)
  let ?ts = "map fst COLUMNS"
  have "concat (map (\<lambda>(et, table). map (row_to_record cell et) (filter (trace_hit rid tenant) (db table))) TABLES) =
      map (stored dumps cell) (concat (map (\<lambda>t. filter (\<lambda>e. etype e = t) (filter (trace_hit rid tenant) es)) ?ts))"
    by (simp add: TABLES_def COLUMNS_def part legacy)
  also have "mset \<dots> = image_mset (stored dumps cell) (mset (filter (\<lambda>e. etype e \<in> set ?ts) (filter (trace_hit rid tenant) es)))"
    by (subst mset_map, subst mset_partition) (simp_all add: COLUMNS_def)
  also have "filter (\<lambda>e. etype e \<in> set ?ts) (filter (trace_hit rid tenant) es) = filter (trace_hit rid tenant) es"
    using mirrored_facts(2) [OF assms(1)] by (intro filter_True) auto
  finally show ?thesis by simp
qed

lemma record_key_cong: "map_of a = map_of b \<Longrightarrow> record_key a = record_key b"
  by (simp add: record_key_def jget_def)

lemma store_trace:
  assumes "\<And>e. e \<in> set es \<Longrightarrow> mirrored dumps cell e"
    and "\<And>tb. db tb = map (row_of dumps) (filter (\<lambda>e. etype e = tb) es)"
    and "sorted (map record_key es)" and "distinct (map record_key es)"
  shows "by_request_id cell rid tenant db = map (stored dumps cell)
    (filter (trace_hit rid tenant) es)"
  unfolding by_request_id_def trace_hit_def [symmetric]
proof (rule sort_key_unique [OF trace_rows [OF assms(1,2)]])
  let ?f = "filter (trace_hit rid tenant) es"
  have keys: "map record_key (map (stored dumps cell) ?f) = map record_key ?f"
    using mirrored_facts(1) [OF assms(1)] by (auto intro!: record_key_cong)
  show "sorted (map record_key (map (stored dumps cell) ?f))"
    unfolding keys by (rule sorted_filter [OF assms(3)])
  show "distinct (map record_key (map (stored dumps cell) ?f))"
    unfolding keys by (rule distinct_map_filter [OF assms(4)])
qed

text \<open>The file the records were written to, one line each; the logging formatter may add fields.\<close>

definition jsonl_bytes :: "(log_entry \<Rightarrow> string) \<Rightarrow> log_entry list \<Rightarrow> string" where
  "jsonl_bytes line es = concat (map (\<lambda>e. line e @ [newline]) es)"

definition formats :: "(log_entry \<Rightarrow> string) \<Rightarrow> (string \<Rightarrow> json option) \<Rightarrow> (string \<Rightarrow> log_entry) \<Rightarrow> log_entry \<Rightarrow> bool" where
  "formats line loads decoded e \<longleftrightarrow> newline \<notin> set (line e) \<and> nonblank (line e) \<and>
     loads (line e) = Some (JObj (decoded (line e))) \<and> map_of e \<subseteq>\<^sub>m map_of (decoded (line e))"

lemma split_line: "newline \<notin> set l \<Longrightarrow> str_split newline (l @ newline # rest) = l # str_split newline rest"
  by (induction l) auto

lemma lines_of_jsonl:
  "list_all (formats line loads decoded) es \<Longrightarrow> filter nonblank (str_split newline (jsonl_bytes line es)) = map line es"
  by (induction es) (simp_all add: jsonl_bytes_def split_line formats_def nonblank_def)

lemma normalise_extends:
  assumes "mirrored dumps cell e" and "map_of e \<subseteq>\<^sub>m map_of r"
  shows "map_of e \<subseteq>\<^sub>m map_of (normalise r)"
proof (unfold map_le_def, intro ballI)
  fix k assume k: "k \<in> dom (map_of e)"
  with assms(2) have r: "map_of r k = map_of e k" by (auto simp: map_le_def dom_def)
  show "map_of e k = map_of (normalise r) k"
  proof (cases "k = ''event_type''")
    case True
    have "etype e \<noteq> []" using mirrored_facts(2) [OF assms(1)] by (auto simp: COLUMNS_def)
    then obtain v where "map_of e k = Some (JStr v)" and "v \<noteq> []"
      using True by (auto simp: etype_def text_of_def jget_def split: option.splits json.splits)
    with r True show ?thesis by (simp add: normalise_def map_of_with_defaults jget_def or_else_def)
  next
    case False
    with r k show ?thesis by (auto simp: normalise_def map_of_with_defaults dom_def)
  qed
qed

lemma trace_hit_line:
  assumes "mirrored dumps cell e" and "formats line loads decoded e"
  shows "jget (decoded (line e)) ''request_id'' = JStr rid \<and> tenant_matches tenant (normalise (decoded (line e)))
       \<longleftrightarrow> trace_hit rid tenant e"
proof -
  from assms(2) have le: "map_of e \<subseteq>\<^sub>m map_of (decoded (line e))" by (simp add: formats_def)
  note le' = normalise_extends [OF assms(1) le]
  have "map_of (decoded (line e)) ''request_id'' = map_of e ''request_id''"
    "map_of (normalise (decoded (line e))) ''tenant'' = map_of e ''tenant''"
    using le le' mirrored_facts(3,4) [OF assms(1)] by (auto simp: map_le_def dom_def)
  then show ?thesis
    by (cases tenant) (simp_all add: trace_hit_def sql_match_def tenant_matches_def jget_def)
qed


definition sample_tool_event :: log_entry where
  "sample_tool_event = log_tool_event ''t1'' id (\<lambda>_. ''args'') ''GENERAL'' ''demo.echo'' ''ALLOW'' (Some ''LOW'') ''ok''
     None (Some True) None ''acme'' ''r''"

definition sample_gateway_event :: log_entry where
  "sample_gateway_event = log_gateway_event ''t2'' ''GENERAL'' ''ollama'' JNull True 1 ''ALLOW'' JNull None ''acme'' ''r''"


end
