(* ===== verification/Api_Admin.thy ===== *)
theory Api_Admin
  imports Api_Chat Activity
begin

text \<open>
  The remaining endpoints of api/main.py: tool calls, the cache, identity and settings, the audit
  readers, the policy editor, the review queue, the catalogues and the health check.
\<close>

section \<open>Tool calls\<close>

record tool_request =
  tq_name :: string
  tq_arguments :: "(string \<times> json) list"

record tool_response =
  tv_decision :: string
  tv_tool :: string
  tv_reason :: string
  tv_output :: "json option"
  tv_error :: "string option"
  tv_review_id :: "string option"

definition valid_tool_request :: "(json \<Rightarrow> string) \<Rightarrow> tool_request \<Rightarrow> bool" where
  "valid_tool_request dumps q \<longleftrightarrow> tq_name q \<noteq> [] \<and> length (tq_name q) \<le> 200
     \<and> length (dumps (JObj (tq_arguments q))) \<le> 100000"

text \<open>\<open>log_tool_event\<close> is called from inside \<open>execute_tool\<close>, after the handler, and what it raises leaves
  both.\<close>

definition tool_record ::
  "('v, 'c, 'l, 'j, 'w, 'r, 'q) services \<Rightarrow> chance \<Rightarrow> tool_event \<Rightarrow> log_entry" where
  "tool_record X h ev =
     log_tool_event (ch_iso_now h) (sx_sha X) (sx_canonical X) (te_capability ev) (te_tool ev) (te_decision ev) (te_risk ev)
       (sx_reason_text X (te_reason ev)) (Some (te_arguments ev)) (te_success ev) (te_error ev) (te_tenant ev) (te_request_id ev)"

fun record_tool_events ::
  "('v, 'c, 'l, 'j, 'w, 'r, 'q) services \<Rightarrow> chance \<Rightarrow> tool_event list
   \<Rightarrow> ('c, 'l, 'j, 'w, 'r, 'q) gateway \<Rightarrow> (api_error, unit) res \<times> ('c, 'l, 'j, 'w, 'r, 'q) gateway" where
  "record_tool_events X h [] g = (Inr (), g)"
| "record_tool_events X h (ev # evs) g =
     and_then (write_audit_bare X h (tool_record X h ev) g) (\<lambda>_ g1. record_tool_events X h evs g1)"

definition run_tool ::
  "('v, 'c, 'l, 'j, 'w, 'r, 'q) services \<Rightarrow> chance \<Rightarrow> string \<Rightarrow> string \<Rightarrow> json \<Rightarrow> string \<Rightarrow> string
   \<Rightarrow> ('c, 'l, 'j, 'w, 'r, 'q) gateway \<Rightarrow> (api_error, tool_result) res \<times> ('c, 'l, 'j, 'w, 'r, 'q) gateway" where
  "run_tool X h capability name arguments tenant request_id g =
     (let (result, w, evs) = execute_tool (sx_registry X) capability name arguments tenant request_id (gw_world g, [])
      in and_then (record_tool_events X h evs (g\<lparr>gw_world := w\<rparr>)) (\<lambda>_ g1. (Inr result, g1)))"

definition call_hash :: "('v, 'c, 'l, 'j, 'w, 'r, 'q) services \<Rightarrow> tool_request \<Rightarrow> string" where
  "call_hash X q = sx_sha X (sx_canonical X (JObj [(''tool'', JStr (tq_name q)), (''arguments'', JObj (tq_arguments q))]))"

definition tools_call ::
  "('v, 'c, 'l, 'j, 'w, 'r, 'q) services \<Rightarrow> chance \<Rightarrow> http_request \<Rightarrow> tool_request
   \<Rightarrow> ('c, 'l, 'j, 'w, 'r, 'q) gateway \<Rightarrow> (api_error, tool_response) res \<times> ('c, 'l, 'j, 'w, 'r, 'q) gateway" where
  "tools_call X h req q g =
     (let i = resolve_request_id (se_request_id_max (sx_settings X)) (hr_request_id req) (ch_uuid h)
      in and_then (admit X h req g) (\<lambda>(p, tc) g1.
         and_then (run_tool X h (pr_capability p) (tq_name q) (JObj (tq_arguments q)) (pr_tenant p) i g1) (\<lambda>result g2.
         and_then (queue_for_review X h p i (tr_decision result) (sx_reason_text X (tr_reason result))
                     (or_default (tr_risk result) ''HIGH'') (call_hash X q) g2) (\<lambda>rid g3.
           (Inr \<lparr>tv_decision = tr_decision result, tv_tool = tr_tool result, tv_reason = sx_reason_text X (tr_reason result),
                 tv_output = tr_output result, tv_error = tr_error result, tv_review_id = rid\<rparr>, g3)))))"

section \<open>Identity and settings\<close>

definition whoami ::
  "('v, 'c, 'l, 'j, 'w, 'r, 'q) services \<Rightarrow> chance \<Rightarrow> http_request
   \<Rightarrow> ('c, 'l, 'j, 'w, 'r, 'q) gateway \<Rightarrow> (api_error, string \<times> string \<times> string) res \<times> ('c, 'l, 'j, 'w, 'r, 'q) gateway" where
  "whoami X h req g =
     and_then (authenticate X req g) (\<lambda>p g1.
       if \<not> pr_authenticated p then (Inl Unauthorized, g1)
       else and_then (reject_suspended_and_rate_limit X h req p g1) (\<lambda>_ g2.
         (Inr (pr_capability p, pr_tenant p, pr_key_id p), g2)))"

record privacy_view =
  pv_tenant :: string
  pv_regex_categories :: "string list"
  pv_ner_labels :: "string list"
  pv_disabled :: "string list"

definition privacy_of :: "tenant_config \<Rightarrow> privacy_view" where
  "privacy_of tc =
     (let disabled = (case tc_privacy_disabled_patterns tc of None \<Rightarrow> [] | Some ps \<Rightarrow> ps)
      in \<lparr>pv_tenant = tc_tenant_id tc,
          pv_regex_categories = sort (filter (\<lambda>k. k \<notin> set disabled) (map fst REGEX_PATTERNS)),
          pv_ner_labels = sort (case tc_privacy_ner_labels tc of None \<Rightarrow> NER_LABELS | Some ls \<Rightarrow> ls),
          pv_disabled = sort (remdups disabled)\<rparr>)"

definition privacy_settings ::
  "('v, 'c, 'l, 'j, 'w, 'r, 'q) services \<Rightarrow> chance \<Rightarrow> http_request \<Rightarrow> string option
   \<Rightarrow> ('c, 'l, 'j, 'w, 'r, 'q) gateway \<Rightarrow> (api_error, privacy_view) res \<times> ('c, 'l, 'j, 'w, 'r, 'q) gateway" where
  "privacy_settings X h req tenant g =
     and_then (admit X h req g) (\<lambda>(p, _) g1.
       if tenant \<noteq> None \<and> pr_capability p \<noteq> CAPABILITY_INTERNAL then (Inl InternalRequired, g1)
       else
         let (tc, ts) = resolve_tenant (sx_convs X) (sx_tenant_file X)
                          (case tenant of None \<Rightarrow> pr_tenant p | Some t \<Rightarrow> t) (gw_tenants g1)
         in (Inr (privacy_of tc), g1\<lparr>gw_tenants := ts\<rparr>))"

record protection_view =
  pw_tenant_id :: string
  pw_display_name :: string
  pw_status :: string
  pw_rate_limit_rpm :: "real option"
  pw_token_quota_daily :: "int option"
  pw_capability :: string
  pw_risk_to_action :: risk_map
  pw_default_action :: string

definition protection_settings ::
  "('v, 'c, 'l, 'j, 'w, 'r, 'q) services \<Rightarrow> chance \<Rightarrow> http_request \<Rightarrow> string option
   \<Rightarrow> ('c, 'l, 'j, 'w, 'r, 'q) gateway \<Rightarrow> (api_error, protection_view) res \<times> ('c, 'l, 'j, 'w, 'r, 'q) gateway" where
  "protection_settings X h req tenant g =
     and_then (admit X h req g) (\<lambda>(p, _) g1.
       let tid = (case tenant of
                    Some t \<Rightarrow> if pr_capability p = CAPABILITY_INTERNAL \<and> t \<noteq> [] then t else pr_tenant p
                  | None \<Rightarrow> pr_tenant p);
           (tc, ts) = resolve_tenant (sx_convs X) (sx_tenant_file X) tid (gw_tenants g1);
           actions = (case resolve_policy_set (sx_shw X) tid None (gw_policy g1) of
                        FAIL_SAFE \<Rightarrow> []
                      | Resolved ps \<Rightarrow> (case map_of (ps_policies ps) (pr_capability p) of None \<Rightarrow> [] | Some rm \<Rightarrow> rm))
       in (Inr \<lparr>pw_tenant_id = tc_tenant_id tc, pw_display_name = tc_display_name tc, pw_status = tc_status tc,
                pw_rate_limit_rpm = tc_rate_limit_rpm tc, pw_token_quota_daily = tc_token_quota_daily tc,
                pw_capability = pr_capability p, pw_risk_to_action = actions,
                pw_default_action = get_default_action (sx_shw X) None (gw_policy g1)\<rparr>,
           g1\<lparr>gw_tenants := ts, gw_policy := load_ref (sx_shw X) (gw_policy g1)\<rparr>))"

section \<open>The audit readers\<close>

text \<open>\<open>None\<close>: no tenant filter.\<close>

definition activity_scope :: "principal \<Rightarrow> string option \<Rightarrow> string option" where
  "activity_scope p requested =
     (case requested of
        Some t \<Rightarrow>
          if pr_capability p = CAPABILITY_INTERNAL \<and> t \<noteq> []
          then (if t = ''__all__'' then None else Some t)
          else Some (pr_tenant p)
      | None \<Rightarrow> Some (pr_tenant p))"

definition event_filter :: "string option \<Rightarrow> string list option" where
  "event_filter event_type =
     (case event_type of
        None \<Rightarrow> None
      | Some s \<Rightarrow> if s = [] then None else Some (map str_strip (str_split CHR '','' s)))"

text \<open>The log file holds the records written so far, one line each.\<close>

definition audit_file :: "('v, 'c, 'l, 'j, 'w, 'r, 'q) services \<Rightarrow> ('c, 'l, 'j, 'w, 'r, 'q) gateway \<Rightarrow> string option" where
  "audit_file X g = Some (jsonl_bytes (sx_format X) (at_jsonl (gw_trail g)))"

definition audit_source ::
  "('v, 'c, 'l, 'j, 'w, 'r, 'q) services \<Rightarrow> chance \<Rightarrow> ('c, 'l, 'j, 'w, 'r, 'q) gateway \<Rightarrow> audit_db option" where
  "audit_source X h g =
     (if as_read_from_sqlite (se_audit (sx_settings X)) \<and> ch_store_read h then Some (at_db (gw_trail g)) else None)"

definition served :: "(activity_error, activity) res \<Rightarrow> (api_error, activity) res" where
  "served r = (case r of Inl NotARecord \<Rightarrow> Inl (Unhandled ''AttributeError'') | Inr a \<Rightarrow> Inr a)"

definition activity_feed ::
  "('v, 'c, 'l, 'j, 'w, 'r, 'q) services \<Rightarrow> chance \<Rightarrow> http_request \<Rightarrow> string option \<Rightarrow> int \<Rightarrow> string option
   \<Rightarrow> ('c, 'l, 'j, 'w, 'r, 'q) gateway \<Rightarrow> (api_error, activity) res \<times> ('c, 'l, 'j, 'w, 'r, 'q) gateway" where
  "activity_feed X h req tenant limit event_type g =
     and_then (admit X h req g) (\<lambda>(p, _) g1.
       (served (get_recent_activity (sx_loads X) (sx_loads_cell X) (audit_source X h g1) (audit_file X g1) limit
          (activity_scope p tenant) (event_filter event_type)), g1))"

definition activity_trace ::
  "('v, 'c, 'l, 'j, 'w, 'r, 'q) services \<Rightarrow> chance \<Rightarrow> http_request \<Rightarrow> string option \<Rightarrow> string
   \<Rightarrow> ('c, 'l, 'j, 'w, 'r, 'q) gateway \<Rightarrow> (api_error, activity) res \<times> ('c, 'l, 'j, 'w, 'r, 'q) gateway" where
  "activity_trace X h req tenant request_id g =
     and_then (admit X h req g) (\<lambda>(p, _) g1.
       (served (find_by_request_id (sx_loads X) (sx_loads_cell X) (audit_source X h g1) (audit_file X g1) request_id
          (activity_scope p tenant)), g1))"

definition raw_logs ::
  "('v, 'c, 'l, 'j, 'w, 'r, 'q) services \<Rightarrow> chance \<Rightarrow> http_request \<Rightarrow> string option \<Rightarrow> int \<Rightarrow> string option
   \<Rightarrow> ('c, 'l, 'j, 'w, 'r, 'q) gateway \<Rightarrow> (api_error, activity) res \<times> ('c, 'l, 'j, 'w, 'r, 'q) gateway" where
  "raw_logs X h req tenant limit event_type g =
     and_then (require_internal X h req g) (\<lambda>_ g1.
       (served (get_recent_activity (sx_loads X) (sx_loads_cell X) (audit_source X h g1) (audit_file X g1) limit
          (case tenant of None \<Rightarrow> None | Some t \<Rightarrow> if t = [] \<or> t = ''__all__'' then None else Some t)
          (event_filter event_type)), g1))"

section \<open>Operators\<close>

definition gateway_providers ::
  "('v, 'c, 'l, 'j, 'w, 'r, 'q) services \<Rightarrow> chance \<Rightarrow> http_request
   \<Rightarrow> ('c, 'l, 'j, 'w, 'r, 'q) gateway \<Rightarrow> (api_error, string list \<times> string) res \<times> ('c, 'l, 'j, 'w, 'r, 'q) gateway" where
  "gateway_providers X h req g =
     and_then (require_internal X h req g) (\<lambda>_ g1. (Inr (list_provider_names, se_default_provider (sx_settings X)), g1))"

definition tool_catalogue ::
  "('v, 'c, 'l, 'j, 'w, 'r, 'q) services \<Rightarrow> chance \<Rightarrow> http_request
   \<Rightarrow> ('c, 'l, 'j, 'w, 'r, 'q) gateway \<Rightarrow> (api_error, tool_spec list) res \<times> ('c, 'l, 'j, 'w, 'r, 'q) gateway" where
  "tool_catalogue X h req g = and_then (require_internal X h req g) (\<lambda>_ g1. (Inr (list_tools (sx_registry X)), g1))"

definition flush_semantic_cache ::
  "('v, 'c, 'l, 'j, 'w, 'r, 'q) services \<Rightarrow> chance \<Rightarrow> http_request
   \<Rightarrow> ('c, 'l, 'j, 'w, 'r, 'q) gateway \<Rightarrow> (api_error, unit) res \<times> ('c, 'l, 'j, 'w, 'r, 'q) gateway" where
  "flush_semantic_cache X h req g =
     and_then (require_internal X h req g) (\<lambda>_ g1.
       (Inr (), g1\<lparr>gw_risk := (gw_risk g1)\<lparr>rs_cache := sx_flush X (rs_cache (gw_risk g1))\<rparr>\<rparr>))"

record policy_view =
  py_raw_text :: "string option"
  py_content :: "json option"
  py_versions :: "string list"

definition get_policy ::
  "('v, 'c, 'l, 'j, 'w, 'r, 'q) services \<Rightarrow> chance \<Rightarrow> http_request
   \<Rightarrow> ('c, 'l, 'j, 'w, 'r, 'q) gateway \<Rightarrow> (api_error, policy_view) res \<times> ('c, 'l, 'j, 'w, 'r, 'q) gateway" where
  "get_policy X h req g =
     and_then (require_internal X h req g) (\<lambda>_ g1.
       (case pd_live (gw_disk g1) of
          None \<Rightarrow> Inr \<lparr>py_raw_text = None, py_content = None, py_versions = list_versions (gw_disk g1)\<rparr>
        | Some raw \<Rightarrow>
            (case sx_parse_policy X raw of
               Parsed v \<Rightarrow> Inr \<lparr>py_raw_text = Some raw, py_content = Some v, py_versions = list_versions (gw_disk g1)\<rparr>
             | _ \<Rightarrow> Inl (Unhandled ''Live policy file is unreadable'')), g1))"

definition validate_policy ::
  "('v, 'c, 'l, 'j, 'w, 'r, 'q) services \<Rightarrow> chance \<Rightarrow> http_request \<Rightarrow> string
   \<Rightarrow> ('c, 'l, 'j, 'w, 'r, 'q) gateway
   \<Rightarrow> (api_error, bool \<times> policy_problem list) res \<times> ('c, 'l, 'j, 'w, 'r, 'q) gateway" where
  "validate_policy X h req content g =
     and_then (require_internal X h req g) (\<lambda>_ g1.
       (let errors = validate_policy_file (sx_shw X) (sx_parse_policy X content) in Inr (errors = [], errors), g1))"

text \<open>The store of this process reads the live file, whatever the operation left there.\<close>

definition with_disk ::
  "('v, 'c, 'l, 'j, 'w, 'r, 'q) services \<Rightarrow> policy_disk \<times> policy_store
   \<Rightarrow> ('c, 'l, 'j, 'w, 'r, 'q) gateway \<Rightarrow> ('c, 'l, 'j, 'w, 'r, 'q) gateway" where
  "with_disk X ds g = g\<lparr>gw_disk := fst ds, gw_policy := (live_file (sx_parse_policy X) (fst ds), snd ds)\<rparr>"

definition deploy_policy_endpoint ::
  "('v, 'c, 'l, 'j, 'w, 'r, 'q) services \<Rightarrow> chance \<Rightarrow> http_request \<Rightarrow> string
   \<Rightarrow> ('c, 'l, 'j, 'w, 'r, 'q) gateway \<Rightarrow> (api_error, string option) res \<times> ('c, 'l, 'j, 'w, 'r, 'q) gateway" where
  "deploy_policy_endpoint X h req content g =
     and_then (require_internal X h req g) (\<lambda>_ g1.
       let errors = validate_policy_file (sx_shw X) (sx_parse_policy X content)
       in if errors \<noteq> [] then (Inl (PolicyRejected errors), g1)
          else
            let (r, ds) = deploy_policy (sx_shw X) (sx_sha X) (sx_parse_policy X) (sx_policy_path X) (ch_disk h) content
                            (gw_disk g1) (snd (gw_policy g1))
            in (case r of Inl _ \<Rightarrow> Inl (Unhandled ''OSError'') | Inr previous \<Rightarrow> Inr previous, with_disk X ds g1))"

definition rollback_policy_endpoint ::
  "('v, 'c, 'l, 'j, 'w, 'r, 'q) services \<Rightarrow> chance \<Rightarrow> http_request \<Rightarrow> string
   \<Rightarrow> ('c, 'l, 'j, 'w, 'r, 'q) gateway \<Rightarrow> (api_error, string) res \<times> ('c, 'l, 'j, 'w, 'r, 'q) gateway" where
  "rollback_policy_endpoint X h req version g =
     and_then (require_internal X h req g) (\<lambda>_ g1.
       let (r, ds) = rollback_to (sx_shw X) (sx_sha X) (sx_parse_policy X) (sx_policy_path X) (ch_disk h) version
                       (gw_disk g1) (snd (gw_policy g1))
       in (case r of
             Inl NoSuchVersionFile \<Rightarrow> Inl (NoSuchVersion version)
           | Inl OsFailure \<Rightarrow> Inl (Unhandled ''OSError'')
           | Inr _ \<Rightarrow> Inr version, with_disk X ds g1))"

section \<open>Reviews\<close>

definition get_review_status ::
  "('v, 'c, 'l, 'j, 'w, 'r, 'q) services \<Rightarrow> chance \<Rightarrow> http_request \<Rightarrow> string
   \<Rightarrow> ('c, 'l, 'j, 'w, 'r, 'q) gateway \<Rightarrow> (api_error, review_record) res \<times> ('c, 'l, 'j, 'w, 'r, 'q) gateway" where
  "get_review_status X h req rid g =
     and_then (admit X h req g) (\<lambda>_ g1.
       let (r, q) = get_review rid (gw_reviews g1)
       in (case r of None \<Rightarrow> Inl (NoSuchReview rid) | Some rec \<Rightarrow> Inr rec, g1\<lparr>gw_reviews := q\<rparr>))"

definition list_reviews ::
  "('v, 'c, 'l, 'j, 'w, 'r, 'q) services \<Rightarrow> chance \<Rightarrow> http_request
   \<Rightarrow> ('c, 'l, 'j, 'w, 'r, 'q) gateway \<Rightarrow> (api_error, review_record list) res \<times> ('c, 'l, 'j, 'w, 'r, 'q) gateway" where
  "list_reviews X h req g =
     and_then (require_internal X h req g) (\<lambda>_ g1.
       let (rs, q) = list_pending_reviews (gw_reviews g1) in (Inr rs, g1\<lparr>gw_reviews := q\<rparr>))"

text \<open>The request model only admits the two outcomes.\<close>

definition resolve_review_endpoint ::
  "('v, 'c, 'l, 'j, 'w, 'r, 'q) services \<Rightarrow> chance \<Rightarrow> http_request \<Rightarrow> string \<Rightarrow> string
   \<Rightarrow> ('c, 'l, 'j, 'w, 'r, 'q) gateway \<Rightarrow> (api_error, review_record) res \<times> ('c, 'l, 'j, 'w, 'r, 'q) gateway" where
  "resolve_review_endpoint X h req rid outcome g =
     and_then (require_internal X h req g) (\<lambda>p g1.
       let (r, q) = resolve_review (ch_iso_now h) (ch_review_saved h) rid outcome (pr_key_id p) (gw_reviews g1)
       in (case r of
             Inl (KeyError _) \<Rightarrow> Inl (NoSuchReview rid)
           | Inl SaveFailed \<Rightarrow> Inl (Unhandled ''OSError'')
           | Inl e \<Rightarrow> Inl (ReviewConflict e)
           | Inr rec \<Rightarrow> Inr rec, g1\<lparr>gw_reviews := q\<rparr>))"

section \<open>Health\<close>

text \<open>The cached answer of the last probe with its time. Two clock readings, before and after the call.\<close>

type_synonym probe_cache = "bool option \<times> real"

definition probe_judge_backend :: "real \<Rightarrow> real \<Rightarrow> real \<Rightarrow> bool \<Rightarrow> probe_cache \<Rightarrow> bool \<times> probe_cache" where
  "probe_judge_backend ttl now later answered_200 c =
     (case c of
        (Some ok, taken) \<Rightarrow> if now - taken < ttl then (ok, c) else (answered_200, (Some answered_200, later))
      | (None, taken) \<Rightarrow> (answered_200, (Some answered_200, later)))"

record health =
  he_status :: string
  he_policy_files :: bool
  he_spacy_model :: bool
  he_embedding_model :: bool
  he_semantic_judge :: bool

text \<open>\<open>embedding\<close>: \<open>None\<close> when loading raises, \<open>Some False\<close> when it returns \<open>None\<close>.\<close>

definition health_check ::
  "bool \<Rightarrow> bool \<Rightarrow> bool option \<Rightarrow> bool \<Rightarrow> real \<Rightarrow> real \<Rightarrow> real \<Rightarrow> bool \<Rightarrow> probe_cache \<Rightarrow> health \<times> probe_cache" where
  "health_check policy_files spacy embedding breaker_open ttl now later answered_200 c =
     (let (judge, c1) = (if breaker_open then (False, c) else probe_judge_backend ttl now later answered_200 c)
      in (\<lparr>he_status = (if policy_files \<and> spacy \<and> embedding \<noteq> None \<and> judge then ''healthy'' else ''degraded''),
           he_policy_files = policy_files, he_spacy_model = spacy, he_embedding_model = (embedding = Some True),
           he_semantic_judge = judge\<rparr>, c1))"

section \<open>Lemmas\<close>

lemma internal_has_key:
  assumes "resolve_principal shw sha keys authorization api_key ks = (Inr p, ks')" and "pr_capability p = CAPABILITY_INTERNAL"
  shows "pr_authenticated p" and "presented_token authorization api_key \<noteq> []"
  using assms
  by (auto simp: resolve_principal_def anonymous_def verified_def CAPABILITY_INTERNAL_def CAPABILITY_GENERAL_def Let_def
      split: if_splits prod.splits sum.splits option.splits)

text \<open>What an operator can ask for, and the state it leaves.\<close>

datatype operator_request =
    AskProviders | AskTools | FlushCache | AskPolicy | TryPolicy string | DeployPolicy string | RollbackPolicy string
  | AskReviews | ResolveReview string string | AskLogs "string option" int "string option"

definition raised :: "('e, 'a) res \<Rightarrow> 'e option" where
  "raised r = (case r of Inl e \<Rightarrow> Some e | Inr _ \<Rightarrow> None)"

fun operator_state ::
  "('v, 'c, 'l, 'j, 'w, 'r, 'q) services \<Rightarrow> chance \<Rightarrow> http_request \<Rightarrow> operator_request
   \<Rightarrow> ('c, 'l, 'j, 'w, 'r, 'q) gateway \<Rightarrow> api_error option \<times> ('c, 'l, 'j, 'w, 'r, 'q) gateway" where
  "operator_state X h req AskProviders g = map_prod raised id (gateway_providers X h req g)"
| "operator_state X h req AskTools g = map_prod raised id (tool_catalogue X h req g)"
| "operator_state X h req FlushCache g = map_prod raised id (flush_semantic_cache X h req g)"
| "operator_state X h req AskPolicy g = map_prod raised id (get_policy X h req g)"
| "operator_state X h req (TryPolicy c) g = map_prod raised id (validate_policy X h req c g)"
| "operator_state X h req (DeployPolicy c) g = map_prod raised id (deploy_policy_endpoint X h req c g)"
| "operator_state X h req (RollbackPolicy v) g = map_prod raised id (rollback_policy_endpoint X h req v g)"
| "operator_state X h req AskReviews g = map_prod raised id (list_reviews X h req g)"
| "operator_state X h req (ResolveReview i v) g = map_prod raised id (resolve_review_endpoint X h req i v g)"
| "operator_state X h req (AskLogs t n e) g = map_prod raised id (raw_logs X h req t n e g)"


definition stopped_unless_internal ::
  "('v, 'c, 'l, 'j, 'w, 'r, 'q) services \<Rightarrow> http_request \<Rightarrow> ('c, 'l, 'j, 'w, 'r, 'q) gateway
   \<Rightarrow> api_error option \<Rightarrow> ('c, 'l, 'j, 'w, 'r, 'q) gateway \<Rightarrow> bool" where
  "stopped_unless_internal X req g e g' =
     (case resolve_principal (sx_shw X) (sx_sha X) (sx_key_file X) (hr_authorization req) None (gw_keys g) of
        (Inr p, _) \<Rightarrow>
          if pr_capability p = CAPABILITY_INTERNAL
          then pr_authenticated p \<and> presented_token (hr_authorization req) None \<noteq> []
          else e = Some InternalRequired \<and> protected g' = protected g
      | (Inl _, _) \<Rightarrow> e = Some (Unhandled ''TypeError'') \<and> protected g' = protected g)"

lemma behind_operator_gate:
  "stopped_unless_internal X req g (raised (fst (and_then (require_internal X h req g) body)))
     (snd (and_then (require_internal X h req g) body))"
proof (cases "resolve_principal (sx_shw X) (sx_sha X) (sx_key_file X) (hr_authorization req) None (gw_keys g)")
  case (Pair r ks)
  have frame: "protected (g\<lparr>gw_keys := ks\<rparr>) = protected g" by (simp add: protected_def)
  show ?thesis
  proof (cases r)
    case (Inl x)
    then show ?thesis
      using Pair frame
      by (cases x) (simp add: stopped_unless_internal_def require_internal_def authenticate_def and_then_eqs raised_def)
  next
    case (Inr p)
    show ?thesis
    proof (cases "pr_capability p = CAPABILITY_INTERNAL")
      case True
      with Pair Inr internal_has_key show ?thesis by (force simp: stopped_unless_internal_def)
    next
      case False
      with Pair Inr frame show ?thesis
        by (simp add: stopped_unless_internal_def require_internal_def authenticate_def and_then_eqs raised_def)
    qed
  qed
qed

lemmas operator_defs =
  gateway_providers_def tool_catalogue_def flush_semantic_cache_def get_policy_def validate_policy_def
  deploy_policy_endpoint_def rollback_policy_endpoint_def list_reviews_def resolve_review_endpoint_def raw_logs_def

lemma require_internal_status: "require_internal X h req g = (Inl e, g') \<Longrightarrow> status_code e \<in> {403, 429, 500}"
  by (auto simp: require_internal_def authenticate_def reject_suspended_and_rate_limit_def enforce_rate_limit_def Let_def
      split: prod.splits sum.splits auth_error.splits if_splits)

lemma deploy_policy_outcome:
  assumes "deploy_policy shw sha parse path d new disk st = (r, disk', st')"
  shows "case r of
     Inl _ \<Rightarrow> st' = st
   | Inr previous \<Rightarrow> pd_live disk' = Some new \<and> st' = reload_policies shw (parse new) st \<and>
       (case pd_live disk of None \<Rightarrow> previous = None
        | Some old \<Rightarrow> (case previous of None \<Rightarrow> False | Some v \<Rightarrow> map_of (pd_versions disk') v = Some old))"
proof -
  obtain x disk1 where s: "snapshot_policy sha path d disk = (x, disk1)" by fastforce
  obtain y disk2 st2 where w: "swap_live shw parse d new disk1 st = (y, disk2, st2)" by (metis surj_pair)
  show ?thesis
  proof (cases x)
    case (Inl e)
    with assms s show ?thesis by (auto simp: deploy_policy_def)
  next
    case (Inr previous)
    with assms s w have run: "(case y of Inl e \<Rightarrow> (Inl e, disk2, st2) | Inr _ \<Rightarrow> (Inr previous, disk2, st2)) = (r, disk', st')"
      by (simp add: deploy_policy_def split: sum.splits)
    from w show ?thesis
    proof (cases rule: swap_live_cases)
      case swapped
      with run have "r = Inr previous" "disk' = disk1\<lparr>pd_live := Some new\<rparr>" "st' = reload_policies shw (parse new) st" by auto
      with s Inr show ?thesis by (auto elim!: snapshot_policy_cases simp: map_of_od_set)
    next
      case failed
      with run show ?thesis by auto
    qed
  qed
qed

text \<open>What the tenant filter guarantees of one event: it names the tenant, or it is what a legacy row of that
  tenant decodes to.\<close>

definition belongs_to :: "(string \<Rightarrow> json) \<Rightarrow> string \<Rightarrow> log_entry \<Rightarrow> bool" where
  "belongs_to cell t r \<longleftrightarrow> jget r ''tenant'' = JStr t
     \<or> (\<exists>row. jget row ''tenant'' = JStr t \<and> r = row_to_record cell ''legacy'' row)"

lemma tenant_with_defaults: "map_of r ''tenant'' = Some v \<Longrightarrow> jget (with_defaults d r) ''tenant'' = v"
  by (simp add: with_defaults_def setdefault_def jget_def map_of_od_set)

lemma row_tenant:
  assumes "jget row ''tenant'' = JStr t" and "et \<noteq> ''legacy''" and "et \<noteq> []"
  shows "jget (row_to_record cell et row) ''tenant'' = JStr t"
proof -
  let ?rec1 = "map decode_cell ((''event_type'', JStr et) # row)"
  let ?rec2 = "case map_of ?rec1 ''usage_json'' of None \<Rightarrow> ?rec1
     | Some raw \<Rightarrow> od_set ''usage'' (decode_text cell raw) (od_del ''usage_json'' ?rec1)"
  have m: "map_of row ''tenant'' = Some (JStr t)" using assms(1) by (simp add: jget_def split: option.splits)
  have event: "decode_cell (''event_type'', JStr et) = (''event_type'', JStr et)"
    by (simp add: decode_cell_def BOOL_COLUMNS_def)
  have "map_of (map decode_cell row) ''tenant'' = Some (JStr t)"
    using m by (induction row) (auto simp: decode_cell_def BOOL_COLUMNS_def split: if_splits)
  then have one: "map_of ?rec1 ''tenant'' = Some (JStr t)" and et1: "map_of ?rec1 ''event_type'' = Some (JStr et)"
    by (simp_all add: event)
  have two: "map_of ?rec2 ''tenant'' = Some (JStr t)" and et2: "jget ?rec2 ''event_type'' = JStr et"
    using one et1 by (cases "map_of ?rec1 ''usage_json''"; simp only: option.case map_of_od_set map_of_od_del jget_def; simp)+
  from two have "map_of (od_del ''raw_json'' ?rec2) ''tenant'' = Some (JStr t)" by (simp add: map_of_od_del)
  note tenant_with_defaults [OF this]
  moreover have "row_to_record cell et row = with_defaults (JStr ''unset'') (od_del ''raw_json'' ?rec2)"
    unfolding row_to_record_def Let_def using et2 assms(2) by (simp only: json.inject if_False simp_thms)
  ultimately show ?thesis by (simp only:)
qed

lemma row_belongs:
  assumes "sql_match ''tenant'' (Some t) row" and "(et, table) \<in> set TABLES"
  shows "belongs_to cell t (row_to_record cell et row)"
proof (cases "et = ''legacy''")
  case True
  with assms(1) show ?thesis by (auto simp: belongs_to_def sql_match_def)
next
  case False
  moreover have "et \<noteq> []" using assms(2) by (auto simp: TABLES_def)
  ultimately show ?thesis using assms(1) row_tenant by (simp add: belongs_to_def sql_match_def)
qed

lemma store_readers_stay_in_tenant:
  "list_all (belongs_to cell t) (recent cell limit (Some t) event_types db)"
  "list_all (belongs_to cell t) (by_request_id cell request_id (Some t) db)"
  by (auto simp: list_all_iff recent_def by_request_id_def Let_def row_belongs dest!: in_set_takeD split: if_splits)

lemma plain_belongs: "list_all (\<lambda>r. jget r ''tenant'' = JStr t) rs \<Longrightarrow> list_all (belongs_to cell t) rs"
  by (auto simp: list_all_iff belongs_to_def)

lemma feed_in_tenant:
  assumes "get_recent_activity loads cell store bytes limit (Some t) event_types = Inr a"
  shows "list_all (belongs_to cell t) (ac_events a)"
proof (cases store)
  case None
  with assms readers_stay_in_tenant [where loads = loads and bytes = bytes and limit = limit and t = t and cell = cell and event_types = event_types, THEN conjunct1] show ?thesis
    by (intro plain_belongs) simp
next
  case (Some db)
  with assms have "a = \<lparr>ac_events = recent cell (max 1 (min limit MAX_LIMIT)) (Some t) event_types db, ac_truncated = False\<rparr>"
    by (simp add: get_recent_activity_def Let_def)
  then show ?thesis by (simp add: store_readers_stay_in_tenant)
qed

lemma trace_in_tenant:
  assumes "find_by_request_id loads cell store bytes request_id (Some t) = Inr a"
  shows "list_all (belongs_to cell t) (ac_events a)"
proof (cases store)
  case None
  with assms readers_stay_in_tenant [where loads = loads and request_id = request_id and t = t and bytes = bytes and cell = cell, THEN conjunct2]
  show ?thesis by (intro plain_belongs) simp
next
  case (Some db)
  with assms have "a = \<lparr>ac_events = by_request_id cell request_id (Some t) db, ac_truncated = False\<rparr>"
    by (simp add: find_by_request_id_def)
  then show ?thesis by (simp add: store_readers_stay_in_tenant)
qed

lemma served_Inr: "served r = Inr a \<Longrightarrow> r = Inr a"
  by (auto simp: served_def split: sum.splits activity_error.splits)

lemma write_bare_frame:
  "write_audit_bare X h e g = (r, g') \<Longrightarrow> gw_world g' = gw_world g \<and> gw_reviews g' = gw_reviews g"
  by (auto simp: write_audit_bare_def write_record_def Let_def split: prod.splits sum.splits audit_error.splits)

lemma write_bare_status: "write_audit_bare X h e g = (Inl err, g') \<Longrightarrow> status_code err = 500"
  by (auto simp: write_audit_bare_def write_record_def Let_def split: prod.splits sum.splits audit_error.splits)

lemma write_bare_strict:
  assumes "as_sqlite_enabled (se_audit (sx_settings X))" and "as_read_from_sqlite (se_audit (sx_settings X))"
    and "write_audit_bare X h e g = (Inr u, g')"
  shows "at_db (gw_trail g') = db_write (sx_dumps X) (text_of (jget e ''event_type'')) e (at_db (gw_trail g))"
  using assms
  by (auto simp: write_audit_bare_def write_record_def emit_record_def mirror_to_sqlite_def Let_def
      split: prod.splits sum.splits if_splits audit_error.splits)

lemma write_bare_lost:
  assumes "as_sqlite_enabled (se_audit (sx_settings X))" and "as_read_from_sqlite (se_audit (sx_settings X))"
    and "ch_audit h e = \<lparr>wo_jsonl = False, wo_sqlite = False\<rparr>"
  shows "write_audit_bare X h e g = (Inl (Unhandled ''sqlite3.Error''), g)"
  using assms by (simp add: write_audit_bare_def write_record_def emit_record_def mirror_to_sqlite_def Let_def)

lemma tool_record_cells:
  "text_of (jget (tool_record X h ev) ''event_type'') = ''tool_call''"
  "jget (tool_record X h ev) ''decision'' = JStr (te_decision ev)"
  "jget (tool_record X h ev) ''tool'' = JStr (te_tool ev)"
  "jget (tool_record X h ev) ''request_id'' = JStr (te_request_id ev)"
  by (simp_all add: tool_record_def log_tool_event_def jget_def text_of_def)

lemma tool_row:
  assumes "c \<in> {''decision'', ''tool'', ''request_id''}"
  shows "jget (coerce_row dumps (the (map_of COLUMNS ''tool_call'')) e) c = jget e c"
  using assms by (intro row_cells [of "''tool_call''"]) (auto simp: columns_of BOOL_COLUMNS_def)

text \<open>The run of a tool behind the endpoint.\<close>

lemma run_tool_run:
  assumes "run_tool X h capability name arguments tenant rid g = (r, g')"
  obtains ev result w where "execute_tool (sx_registry X) capability name arguments tenant rid (gw_world g, []) = (result, w, [ev])"
    and "te_decision ev = tr_decision result" and "te_request_id ev = rid" and "te_tool ev = name"
    and "tr_decision result \<noteq> ''ALLOW'' \<Longrightarrow> w = gw_world g" and "tr_decision result \<in> {''ALLOW'', ''REVIEW'', ''BLOCK''}"
    and "and_then (write_audit_bare X h (tool_record X h ev) (g\<lparr>gw_world := w\<rparr>)) (\<lambda>_ g1. (Inr result, g1)) = (r, g')"
proof -
  obtain result w evs where e: "execute_tool (sx_registry X) capability name arguments tenant rid (gw_world g, []) = (result, w, evs)"
    by (metis surj_pair)
  from execute_tool_event [OF this] obtain ev where ev: "evs = [ev]" "te_decision ev = tr_decision result"
    "te_request_id ev = rid" "te_tool ev = name" "tr_decision result \<noteq> ''ALLOW'' \<Longrightarrow> w = gw_world g"
    "tr_decision result \<in> {''ALLOW'', ''REVIEW'', ''BLOCK''}" by auto
  have "and_then (write_audit_bare X h (tool_record X h ev) (g\<lparr>gw_world := w\<rparr>)) (\<lambda>_ g1. (Inr result, g1)) = (r, g')"
    using assms e ev(1) by (auto simp: run_tool_def and_then_def split: prod.splits sum.splits)
  with e ev that show ?thesis by metis
qed

section \<open>Properties\<close>

text \<open>Claim C8: whatever an operator request asks for, it is answered only for a verified key with the INTERNAL
  capability. Any other caller, whatever AUTH_MODE says, is refused with 403 and neither the policy nor its
  versions, the caches, the reviews, the tools' world or the audit log change.\<close>

theorem operator_requests_need_internal:
  "case operator_state X h req a g of (e, g') \<Rightarrow> stopped_unless_internal X req g e g'"
  by (cases a) (simp_all add: operator_defs map_prod_def split_beta behind_operator_gate)

text \<open>A deployment that succeeds validated the text, made it the live file, stored the old text under the
  returned version, and reloaded this process from the new text. A rejected text changes nothing, and after
  any other error the policy in force is the one before.\<close>

theorem deploy_endpoint_outcome:
  "case deploy_policy_endpoint X h req content g of
     (Inr previous, g') \<Rightarrow>
       validate_policy_file (sx_shw X) (sx_parse_policy X content) = []
       \<and> pd_live (gw_disk g') = Some content
       \<and> gw_policy g' = (sx_parse_policy X content, reload_policies (sx_shw X) (sx_parse_policy X content) (snd (gw_policy g)))
       \<and> (case pd_live (gw_disk g) of
            None \<Rightarrow> previous = None
          | Some old \<Rightarrow> (case previous of None \<Rightarrow> False
                        | Some v \<Rightarrow> map_of (pd_versions (gw_disk g')) v = Some old \<and> v \<in> set (list_versions (gw_disk g'))))
   | (Inl e, g') \<Rightarrow>
       snd (gw_policy g') = snd (gw_policy g)
       \<and> (if status_code e = 422 then validate_policy_file (sx_shw X) (sx_parse_policy X content) \<noteq> []
              \<and> protected g' = protected g else True)"
proof (cases "deploy_policy_endpoint X h req content g")
  case (Pair r g')
  let ?errors = "validate_policy_file (sx_shw X) (sx_parse_policy X content)"
  have kept: "snd (gw_policy g1) = snd (gw_policy g) \<and> gw_disk g1 = gw_disk g" if "protected g1 = protected g"
    for g1 using that by (simp add: protected_def)
  note run = Pair [unfolded deploy_policy_endpoint_def]
  show ?thesis
  proof (use run in \<open>cases rule: and_then_cases\<close>)
    case (raised e)
    from require_internal_frame [OF raised(1)] kept have "snd (gw_policy g') = snd (gw_policy g)" by blast
    moreover from require_internal_status [OF raised(1)] have "status_code e \<noteq> 422" by auto
    ultimately show ?thesis using Pair raised(2) by simp
  next
    case (continued p g1)
    note frame = require_internal_frame [OF continued(1)]
    note same = kept [OF frame]
    show ?thesis
    proof (cases "?errors = []")
      case False
      with continued(2) have "r = Inl (PolicyRejected ?errors)" "g' = g1" by simp_all
      with Pair False frame same show ?thesis by simp
    next
      case True
      obtain x disk' st' where d: "deploy_policy (sx_shw X) (sx_sha X) (sx_parse_policy X) (sx_policy_path X) (ch_disk h)
          content (gw_disk g1) (snd (gw_policy g1)) = (x, disk', st')" by (metis surj_pair)
      with continued(2) True have r: "r = (case x of Inl _ \<Rightarrow> Inl (Unhandled ''OSError'') | Inr previous \<Rightarrow> Inr previous)"
        and g': "g' = with_disk X (disk', st') g1" by simp_all
      from deploy_policy_outcome [OF d] Pair r g' True same show ?thesis
        by (cases x) (auto simp: with_disk_def live_file_def list_versions_def dest: map_of_SomeD intro: rev_image_eqI
            split: option.splits)
    qed
  qed
qed


text \<open>A tool call that is answered: what the run of the tool recorded, and what the queue was given.\<close>

lemma tools_call_Inr:
  fixes X :: "('v, 'c, 'l, 'j, 'w, 'r, 'q) services"
  assumes "tools_call X h req q g = (Inr r, g')"
  obtains p tc g1 w risk g2 and ev :: tool_event and result :: tool_result where "admit X h req g = (Inr (p, tc), g1)"
    "te_decision ev = tr_decision result" "te_tool ev = tq_name q"
    "te_request_id ev = resolve_request_id (se_request_id_max (sx_settings X)) (hr_request_id req) (ch_uuid h)"
    "tr_decision result \<noteq> ''ALLOW'' \<Longrightarrow> w = gw_world g1" "tr_decision result \<in> {''ALLOW'', ''REVIEW'', ''BLOCK''}"
    "write_audit_bare X h (tool_record X h ev) (g1\<lparr>gw_world := w\<rparr>) = (Inr (), g2)"
    "queue_for_review X h p (resolve_request_id (se_request_id_max (sx_settings X)) (hr_request_id req) (ch_uuid h))
       (tr_decision result) (sx_reason_text X (tr_reason result)) risk (call_hash X q) g2 = (Inr (tv_review_id r), g')"
    "tv_decision r = tr_decision result"
proof -
  let ?i = "resolve_request_id (se_request_id_max (sx_settings X)) (hr_request_id req) (ch_uuid h)"
  from assms obtain p tc g1 result g2 where a: "admit X h req g = (Inr (p, tc), g1)"
    and t: "run_tool X h (pr_capability p) (tq_name q) (JObj (tq_arguments q)) (pr_tenant p) ?i g1 = (Inr result, g2)"
    and rest: "queue_for_review X h p ?i (tr_decision result) (sx_reason_text X (tr_reason result))
        (or_default (tr_risk result) ''HIGH'') (call_hash X q) g2 = (Inr (tv_review_id r), g')"
      "tv_decision r = tr_decision result"
    unfolding tools_call_def Let_def by (auto simp: and_then_def split: prod.splits sum.splits)
  from t show thesis
  proof (cases rule: run_tool_run)
    case (1 ev result' w)
    from 1(7) have "result' = result" "write_audit_bare X h (tool_record X h ev) (g1\<lparr>gw_world := w\<rparr>) = (Inr (), g2)"
      by (auto simp: and_then_def split: prod.splits sum.splits)
    with 1 a rest show ?thesis by (intro that [of p tc g1 ev result w g2 "or_default (tr_risk result) ''HIGH''"]) simp_all
  qed
qed

text \<open>A tool call that is refused.\<close>

lemma tools_call_Inl: "tools_call X h req q g = (Inl e, g') \<Longrightarrow> status_code e \<in> {401, 403, 429, 500}"
proof -
  assume "tools_call X h req q g = (Inl e, g')"
  note run = this [unfolded tools_call_def Let_def]
  show ?thesis
  proof (use run in \<open>cases rule: and_then_cases\<close>)
    case (raised e)
    with admit_status run show ?thesis by fastforce
  next
    case (continued pt g1)
    note run2 = continued(2) [unfolded case_prod_beta]
    show ?thesis
    proof (use run2 in \<open>cases rule: and_then_cases\<close>)
      case (raised e')
      from raised(1) show ?thesis
      proof (cases rule: run_tool_run)
        case (1 ev result w)
        from 1(7) raised(2) show ?thesis by (auto dest!: write_bare_status)
      qed
    next
      case t: (continued result g2)
      show ?thesis
      proof (use t(2) in \<open>cases rule: and_then_cases\<close>)
        case (raised e)
        with queue_status show ?thesis by force
      qed simp
    qed
  qed
qed

text \<open>The answer of \<open>/tools/call\<close>. Unless it says ALLOW the tool did not run. It says REVIEW exactly when it names a
  review, which is pending and holds the hash of the call. With the audit database read from, the table
  of tool calls has exactly one new row, with the decision of the answer and its correlation id.\<close>

theorem tool_endpoint_outcome:
  "case tools_call X h req q g of
     (Inr r, g') \<Rightarrow>
       tv_decision r \<in> {''ALLOW'', ''REVIEW'', ''BLOCK''}
       \<and> (if tv_decision r = ''ALLOW'' then True else gw_world g' = gw_world g)
       \<and> (case tv_review_id r of
            None \<Rightarrow> tv_decision r \<noteq> ''REVIEW''
          | Some rid \<Rightarrow> tv_decision r = ''REVIEW'' \<and>
              (case fst (get_review rid (gw_reviews g')) of
                 None \<Rightarrow> False
               | Some rec \<Rightarrow> rv_status rec = ''PENDING'' \<and> rv_final_decision rec = None \<and> rv_prompt_hash rec = call_hash X q))
       \<and> (if as_sqlite_enabled (se_audit (sx_settings X)) \<and> as_read_from_sqlite (se_audit (sx_settings X))
          then \<exists>row. at_db (gw_trail g') ''tool_call'' = at_db (gw_trail g) ''tool_call'' @ [row]
             \<and> jget row ''decision'' = JStr (tv_decision r) \<and> jget row ''tool'' = JStr (tq_name q)
             \<and> jget row ''request_id'' = JStr (resolve_request_id (se_request_id_max (sx_settings X)) (hr_request_id req) (ch_uuid h))
          else True)
   | (Inl e, g') \<Rightarrow> status_code e \<in> {401, 403, 429, 500}"
proof (cases "tools_call X h req q g")
  case (Pair res g')
  show ?thesis
  proof (cases res)
    case (Inl e)
    with tools_call_Inl Pair show ?thesis by simp
  next
    case (Inr r)
    from Pair [unfolded Inr] show ?thesis
    proof (cases rule: tools_call_Inr)
      case (1 p tc g1 w risk g2 ev result)
      note same = admit_protected [OF 1(1)] and frame = write_bare_frame [OF 1(7)] and queue = queue_for_review_frame [OF 1(8)]
      have world: "gw_world g' = gw_world g" if "tr_decision result \<noteq> ''ALLOW''"
        using queue frame 1(5) [OF that] same by simp
      have review: "case tv_review_id r of None \<Rightarrow> tr_decision result \<noteq> ''REVIEW''
        | Some rid \<Rightarrow> tr_decision result = ''REVIEW'' \<and> (case fst (get_review rid (gw_reviews g')) of None \<Rightarrow> False
            | Some rec \<Rightarrow> rv_status rec = ''PENDING'' \<and> rv_final_decision rec = None \<and> rv_prompt_hash rec = call_hash X q)"
      proof (cases "tv_review_id r")
        case None
        with 1(8) show ?thesis by (auto simp: queue_for_review_def split: if_splits prod.splits sum.splits)
      next
        case (Some i)
        with 1(8) show ?thesis by (auto elim: queue_for_review_Some)
      qed
      have row: "\<exists>row. at_db (gw_trail g') ''tool_call'' = at_db (gw_trail g) ''tool_call'' @ [row]
           \<and> jget row ''decision'' = JStr (tr_decision result) \<and> jget row ''tool'' = JStr (tq_name q)
           \<and> jget row ''request_id'' = JStr (resolve_request_id (se_request_id_max (sx_settings X)) (hr_request_id req) (ch_uuid h))"
        if "as_sqlite_enabled (se_audit (sx_settings X)) \<and> as_read_from_sqlite (se_audit (sx_settings X))"
        using write_bare_strict [OF that [THEN conjunct1] that [THEN conjunct2] 1(7), unfolded tool_record_cells] queue same 1(2-4)
        by (simp add: db_write_def columns_of tool_row [simplified columns_of option.sel] tool_record_cells)
      show ?thesis
        using world review row 1(6) unfolding Pair Inr prod.case sum.case 1(9) by (simp only: if_splits) simp
    qed
  qed
qed

text \<open>The tool runs before its record is written, and the write is not wrapped: when the audit database refuses it
  the caller gets a 500, but what the tool did stays, and nothing says so. The JSONL line is lost here as
  well.\<close>

theorem tool_effect_without_record:
  "case admit X h req g of
     (Inr (p, tc), g1) \<Rightarrow>
       (case execute_tool (sx_registry X) (pr_capability p) (tq_name q) (JObj (tq_arguments q)) (pr_tenant p)
               (resolve_request_id (se_request_id_max (sx_settings X)) (hr_request_id req) (ch_uuid h)) (gw_world g1, []) of
          (result, w, evs) \<Rightarrow>
            if as_sqlite_enabled (se_audit (sx_settings X)) \<and> as_read_from_sqlite (se_audit (sx_settings X))
               \<and> ch_audit h = (\<lambda>_. \<lparr>wo_jsonl = False, wo_sqlite = False\<rparr>)
            then (case tools_call X h req q g of
                    (Inl e, g') \<Rightarrow> status_code e = 500 \<and> gw_world g' = w \<and> gw_trail g' = gw_trail g
                  | (Inr _, _) \<Rightarrow> False)
            else True)
   | (Inl _, _) \<Rightarrow> True"
proof (cases "admit X h req g")
  case (Pair a g1)
  show ?thesis
  proof (cases a)
    case (Inr pt)
    obtain p tc where pt: "pt = (p, tc)" by fastforce
    let ?i = "resolve_request_id (se_request_id_max (sx_settings X)) (hr_request_id req) (ch_uuid h)"
    let ?run = "execute_tool (sx_registry X) (pr_capability p) (tq_name q) (JObj (tq_arguments q)) (pr_tenant p) ?i (gw_world g1, [])"
    obtain result w evs where e: "?run = (result, w, evs)" by (metis surj_pair)
    from execute_tool_event [OF this] obtain ev where ev: "evs = [ev]" by auto
    note same = admit_protected [OF Pair]
    show ?thesis
    proof (cases "as_sqlite_enabled (se_audit (sx_settings X)) \<and> as_read_from_sqlite (se_audit (sx_settings X))
               \<and> ch_audit h = (\<lambda>_. \<lparr>wo_jsonl = False, wo_sqlite = False\<rparr>)")
      case True
      then have w: "write_audit_bare X h (tool_record X h ev) g2 = (Inl (Unhandled ''sqlite3.Error''), g2)" for g2
        by (intro write_bare_lost) auto
      have "run_tool X h (pr_capability p) (tq_name q) (JObj (tq_arguments q)) (pr_tenant p) ?i g1 =
          (Inl (Unhandled ''sqlite3.Error''), g1\<lparr>gw_world := w\<rparr>)"
        by (simp add: run_tool_def e ev w and_then_eqs)
      then have "tools_call X h req q g = (Inl (Unhandled ''sqlite3.Error''), g1\<lparr>gw_world := w\<rparr>)"
        using Pair Inr pt by (simp add: tools_call_def Let_def and_then_eqs)
      with Pair Inr pt e same show ?thesis by simp
    next
      case False
      with Pair Inr pt e show ?thesis by auto
    qed
  qed (use Pair in simp)
qed

end
