(* ===== verification/Metrics.thy ===== *)
theory Metrics
  imports Risk
begin

text \<open>
  core/metrics.py: the counters of the Prometheus exposition and the two functions that write them. A counter
  is the list of its series, one per combination of label values, with its count; a histogram is what was
  observed. Buckets, help texts and the registry of the client library are not modelled.
\<close>

definition KNOWN_SOURCES :: "string list" where
  "KNOWN_SOURCES =
     [''cache'', ''cache_locked_high'', ''clean_pass'', ''domain_guardrail'', ''educational_safe_harbor'',
      ''fusion_clean_pass'', ''fusion_educational_safe_harbor'', ''fusion_judge_pending'', ''fusion_threat_critical'',
      ''judge_failure_fail_closed'', ''judge_pending'', ''llama_guard_arbitration'', ''llama_guard_async_escalation'',
      ''llama_guard_override'', ''llama_guard_override_capped'', ''llama_guard_override_restricted'', ''semantic_judge'',
      ''semantic_judge_ambiguous'', ''semantic_judge_override'', ''semantic_judge_override_capped'',
      ''semantic_judge_override_restricted'', ''semantic_meta_intent'', ''fast_path_meta_intent'',
      ''fast_path_anchor_critical'', ''symbolic_rule'', ''vector_threat_critical'', ''mock'', ''unknown'']"

definition STAGE_KEYS :: "(string \<times> string) list" where
  "STAGE_KEYS = [(''meta_intent_ms'', ''meta_intent''), (''faiss_threat_search_ms'', ''faiss_threat_search''),
     (''domain_alignment_ms'', ''domain_alignment''), (''fusion_ms'', ''fusion'')]"

type_synonym series = "(string list \<times> nat) list"

record metrics =
  mt_assessments :: series
  mt_tenants :: series
  mt_stages :: "(string \<times> real list) list"
  mt_judge_invocations :: nat
  mt_unknown_sources :: series

definition fresh_metrics :: metrics where
  "fresh_metrics = \<lparr>mt_assessments = [], mt_tenants = [], mt_stages = [], mt_judge_invocations = 0, mt_unknown_sources = []\<rparr>"

text \<open>\<open>counter.labels(...).inc()\<close>: a combination that was never seen becomes a new series.\<close>

definition increment :: "string list \<Rightarrow> series \<Rightarrow> series" where
  "increment labels s = od_set labels (case map_of s labels of None \<Rightarrow> 1 | Some n \<Rightarrow> Suc n) s"

definition truncate :: "nat \<Rightarrow> string \<Rightarrow> string" where
  "truncate limit value = (if length value \<le> limit then value else take limit value)"

text \<open>\<open>source in KNOWN_SOURCES\<close> hashes the value: a list or a dictionary raises \<open>TypeError\<close> (\<open>None\<close>).\<close>

definition safe_source :: "(json \<Rightarrow> string) \<Rightarrow> json \<Rightarrow> metrics \<Rightarrow> string option \<times> metrics" where
  "safe_source shw source m =
     (let other = (Some ''other'', m\<lparr>mt_unknown_sources := increment [truncate 40 (py_str shw source)] (mt_unknown_sources m)\<rparr>)
      in case source of
           JList _ \<Rightarrow> (None, m)
         | JObj _ \<Rightarrow> (None, m)
         | JStr s \<Rightarrow> if s \<in> set KNOWN_SOURCES then (Some s, m) else other
         | _ \<Rightarrow> other)"

text \<open>\<open>isinstance(value, (int, float))\<close>, which a bool passes.\<close>

definition numeric :: "json option \<Rightarrow> real option" where
  "numeric v =
     (case v of
        Some (JInt i) \<Rightarrow> Some (real_of_int i)
      | Some (JFloat x) \<Rightarrow> Some x
      | Some (JBool b) \<Rightarrow> Some (if b then 1 else 0)
      | _ \<Rightarrow> None)"

fun observe_stages :: "(string \<times> string) list \<Rightarrow> (string \<times> json) list \<Rightarrow> (string \<times> real list) list \<Rightarrow> (string \<times> real list) list" where
  "observe_stages [] details h = h"
| "observe_stages ((key, stage) # ks) details h =
     observe_stages ks details
       (case numeric (map_of details key) of
          None \<Rightarrow> h
        | Some x \<Rightarrow>
            if x \<ge> 0 then od_set stage ((case map_of h stage of None \<Rightarrow> [] | Some xs \<Rightarrow> xs) @ [x / 1000]) h else h)"

text \<open>\<open>record_assessment\<close>: whether it returned, and the counters afterwards.\<close>

definition metrics_record_assessment ::
  "(json \<Rightarrow> string) \<Rightarrow> string \<Rightarrow> string \<Rightarrow> (string \<times> json) list \<Rightarrow> string \<Rightarrow> metrics \<Rightarrow> bool \<times> metrics" where
  "metrics_record_assessment shw decision risk_level details tenant m =
     (case safe_source shw (jget_default details ''source'' (JStr ''unknown'')) m of
        (None, m1) \<Rightarrow> (False, m1)
      | (Some source, m1) \<Rightarrow>
          (True, m1\<lparr>mt_assessments := increment [decision, risk_level, source] (mt_assessments m1),
                    mt_tenants := increment [tenant, decision] (mt_tenants m1),
                    mt_stages := observe_stages STAGE_KEYS details (mt_stages m1),
                    mt_judge_invocations := mt_judge_invocations m1
                      + (if truthy (jget details ''judge_invoked'') then 1 else 0)\<rparr>))"

text \<open>\<open>refresh_circuit_breaker_gauges\<close>: one gauge per breaker, read through the view that changes no flag.\<close>

definition breaker_gauge :: "'s redis \<Rightarrow> fault \<Rightarrow> breaker \<Rightarrow> 's \<Rightarrow> nat \<times> breaker \<times> 's" where
  "breaker_gauge R flt b s =
     (case opened_at_view R flt b s of (v, b1, s1) \<Rightarrow> (if v \<noteq> None then 1 else 0, b1, s1))"

definition refresh_circuit_breaker_gauges ::
  "'s redis \<Rightarrow> fault \<Rightarrow> fault \<Rightarrow> breaker \<times> breaker \<Rightarrow> 's \<Rightarrow> (nat \<times> nat) \<times> (breaker \<times> breaker) \<times> 's" where
  "refresh_circuit_breaker_gauges R f1 f2 bs s =
     (let (judge, b1, s1) = breaker_gauge R f1 (fst bs) s;
          (guard, b2, s2) = breaker_gauge R f2 (snd bs) s1
      in ((judge, guard), (b1, b2), s2))"

section \<open>Lemmas\<close>

lemma known_sources [simp]: "''cache'' \<in> set KNOWN_SOURCES" "''cache_locked_high'' \<in> set KNOWN_SOURCES"
  "''symbolic_rule'' \<in> set KNOWN_SOURCES"
  by code_simp+

lemma safe_known: "s \<in> set KNOWN_SOURCES \<Longrightarrow> safe_source shw (JStr s) m = (Some s, m)"
  by (simp add: safe_source_def Let_def)

lemma safe_source_range: "safe_source shw v m = (Some s, m1) \<Longrightarrow> s \<in> insert ''other'' (set KNOWN_SOURCES)"
  by (auto simp: safe_source_def Let_def split: json.splits if_splits)

lemma safe_source_frame:
  "mt_assessments (snd (safe_source shw v m)) = mt_assessments m" "mt_tenants (snd (safe_source shw v m)) = mt_tenants m"
  by (auto simp: safe_source_def Let_def split: json.splits)

lemma result_source: "ar_context r \<in> {''cache'', ''cache_locked_high'', ''symbolic'', ''fast_path'', ''deep_path''} \<Longrightarrow>
  map_of (to_dict r) ''source'' = Some (JStr (ar_source r))"
  by (auto simp: to_dict_def map_of_keyed result_keys_def result_attrs_def)

lemma fast_sources: "fast_path_decision E f = Some (r, s) \<Longrightarrow> s \<in> set KNOWN_SOURCES"
  by (auto simp: fast_path_decision_def KNOWN_SOURCES_def split: if_splits)

lemma fuse_sources: "fst (snd (fuse_signals E s)) \<in> set KNOWN_SOURCES"
  unfolding fuse_signals_def Let_def KNOWN_SOURCES_def by (auto simp: case_prod_beta)

lemma judge_sources: "snd (fst (judge_arbitration E R p t j)) \<in> set KNOWN_SOURCES"
  unfolding judge_arbitration_def Let_def KNOWN_SOURCES_def by (auto simp: case_prod_beta)

lemma guard_sources: "fst (llama_guard_arbitration E R p t l) = Some rs \<Longrightarrow> snd rs \<in> set KNOWN_SOURCES"
  unfolding llama_guard_arbitration_def Let_def KNOWN_SOURCES_def
  by (auto simp: case_prod_beta split: if_splits option.splits)

lemma stage4_sources: "snd (fst (stage4 E R bg p v t st)) \<in> set KNOWN_SOURCES"
proof (cases bg)
  case True
  then show ?thesis by (simp add: stage4_def Let_def case_prod_beta judge_sources)
next
  case False
  then show ?thesis
    using judge_sources [of E R p t "rs_judge st"] guard_sources [of E R p t "rs_breaker st"]
    by (cases "fst (llama_guard_arbitration E R p t (rs_breaker st))") (auto simp: stage4_def Let_def case_prod_beta)
qed

lemma uncached_source: "ar_source (ou_result (fst (assess_uncached E R bg p t v st))) \<in> set KNOWN_SOURCES"
proof (cases "hard_ban_triggered E t")
  case None
  let ?fast = "fast_path_signals E v"
  show ?thesis
  proof (cases "fast_path_decision E ?fast")
    case none: None
    with None show ?thesis by (simp add: assess_uncached_def Let_def case_prod_beta stage4_sources fuse_sources)
  next
    case (Some rs)
    with None show ?thesis
      using fast_sources [of E ?fast "fst rs" "snd rs"] by (simp add: assess_uncached_def Let_def case_prod_beta)
  qed
qed (simp add: assess_uncached_def)

lemma uncached_context: "ar_context (ou_result (fst (assess_uncached E R bg p t v st))) \<in> {''symbolic'', ''fast_path'', ''deep_path''}"
  unfolding assess_uncached_def Let_def by (auto simp: case_prod_beta split: option.split)

lemma cache_hit_fields:
  "ar_source (cache_hit r sc lk) \<in> {''cache'', ''cache_locked_high''}" "ar_context (cache_hit r sc lk) = ar_source (cache_hit r sc lk)"
  by (simp_all add: cache_hit_def base_result_def Let_def)

lemma assess_source:
  "ar_source (ou_result (fst (assess_risk E R bg p raw st))) \<in> set KNOWN_SOURCES
   \<and> ar_context (ou_result (fst (assess_risk E R bg p raw st))) \<in> {''cache'', ''cache_locked_high'', ''symbolic'', ''fast_path'', ''deep_path''}"
proof -
  have hit: "ar_source (cache_hit r sc lk) \<in> set KNOWN_SOURCES
     \<and> ar_context (cache_hit r sc lk) \<in> {''cache'', ''cache_locked_high'', ''symbolic'', ''fast_path'', ''deep_path''}" for r sc lk
    using cache_hit_fields [of r sc lk] by auto
  have miss: "ar_source (ou_result (fst (assess_uncached E R bg p t v st))) \<in> set KNOWN_SOURCES
     \<and> ar_context (ou_result (fst (assess_uncached E R bg p t v st))) \<in> {''cache'', ''cache_locked_high'', ''symbolic'', ''fast_path'', ''deep_path''}"
    for t v st using uncached_source [of E R bg p t v st] uncached_context [of E R bg p t v st] by auto
  show ?thesis
    unfolding assess_risk_def Let_def case_prod_beta
    by (auto simp only: hit miss fst_conv risk_outcome.select_convs split: option.split if_split)
qed

lemma increment_keys [simp]: "fst ` set (increment labels s) = insert labels (fst ` set s)"
  by (simp add: increment_def keys_od_set)

lemma increment_wf: "od_wf s \<Longrightarrow> od_wf (increment labels s)"
  by (simp add: increment_def od_wf_od_set)

text \<open>Every series of the main counter is a decision, a risk and a known source.\<close>

definition bounded_series :: "string list \<Rightarrow> string list \<Rightarrow> metrics \<Rightarrow> bool" where
  "bounded_series decisions risks m \<longleftrightarrow>
     od_wf (mt_assessments m) \<and>
     fst ` set (mt_assessments m) \<subseteq> (\<lambda>(d, r, s). [d, r, s]) ` (set decisions \<times> set risks \<times> insert ''other'' (set KNOWN_SOURCES))"

lemma record_bounded:
  assumes "bounded_series decisions risks m" "d \<in> set decisions" "r \<in> set risks"
  shows "bounded_series decisions risks (snd (metrics_record_assessment shw d r details tenant m))"
proof (cases "safe_source shw (jget_default details ''source'' (JStr ''unknown'')) m")
  case (Pair source m1)
  then have m1: "mt_assessments m1 = mt_assessments m" using safe_source_frame(1) by (metis snd_conv)
  show ?thesis
  proof (cases source)
    case None
    with Pair m1 assms(1) show ?thesis by (simp add: metrics_record_assessment_def bounded_series_def)
  next
    case (Some s)
    with Pair have "s \<in> insert ''other'' (set KNOWN_SOURCES)" by (intro safe_source_range) simp
    with assms have "[d, r, s] \<in> (\<lambda>(d, r, s). [d, r, s]) ` (set decisions \<times> set risks \<times> insert ''other'' (set KNOWN_SOURCES))"
      by (intro image_eqI [of _ _ "(d, r, s)"]) simp_all
    with Pair Some m1 assms(1) show ?thesis
      by (simp add: metrics_record_assessment_def bounded_series_def increment_wf)
  qed
qed

lemma bounded_length:
  assumes "bounded_series decisions risks m"
  shows "length (mt_assessments m) \<le> length decisions * length risks * Suc (length KNOWN_SOURCES)"
proof -
  let ?S = "insert ''other'' (set KNOWN_SOURCES)"
  have "distinct (map fst (mt_assessments m))" using assms by (simp add: bounded_series_def od_wf_def)
  from distinct_card [OF this] have "length (mt_assessments m) = card (fst ` set (mt_assessments m))" by simp
  also have "\<dots> \<le> card ((\<lambda>(d, r, s). [d, r, s]) ` (set decisions \<times> set risks \<times> ?S))"
    using assms by (intro card_mono) (simp_all add: bounded_series_def)
  also have "\<dots> \<le> card (set decisions \<times> set risks \<times> ?S)" by (intro card_image_le) simp
  also have "\<dots> = card (set decisions) * (card (set risks) * card ?S)" by (simp only: card_cartesian_product)
  also have "\<dots> \<le> length decisions * (length risks * Suc (length KNOWN_SOURCES))"
    using card_length [of KNOWN_SOURCES] by (intro mult_le_mono card_length) (simp add: card_insert_if)
  finally show ?thesis by (simp only: mult.assoc)
qed

definition record_all ::
  "(json \<Rightarrow> string) \<Rightarrow> (string \<times> string \<times> (string \<times> json) list \<times> string) list \<Rightarrow> metrics \<Rightarrow> metrics" where
  "record_all shw rs m = fold (\<lambda>(d, r, details, tenant) m. snd (metrics_record_assessment shw d r details tenant m)) rs m"

section \<open>Properties\<close>

text \<open>The closed set of sources is complete: recording a verdict of the risk pipeline, from the cache or computed,
  returns, counts it under its own source, and never reaches the counter of unknown sources.\<close>

theorem verdicts_have_known_sources:
  "let result = ou_result (fst (assess_risk E R bg prompt raw st));
       (risk, details) = as_return result
   in case metrics_record_assessment shw decision risk details tenant m of
        (returned, m1) \<Rightarrow> returned \<and> ar_source result \<in> set KNOWN_SOURCES
          \<and> mt_assessments m1 = increment [decision, risk, ar_source result] (mt_assessments m)
          \<and> mt_unknown_sources m1 = mt_unknown_sources m"
proof -
  let ?r = "ou_result (fst (assess_risk E R bg prompt raw st))"
  have "ar_source ?r \<in> set KNOWN_SOURCES" "map_of (to_dict ?r) ''source'' = Some (JStr (ar_source ?r))"
    using assess_source [of E R bg prompt raw st] by (auto intro: result_source)
  then show ?thesis
    by (simp add: as_return_def metrics_record_assessment_def jget_default_def safe_known Let_def)
qed

text \<open>Claim C23: however many assessments are recorded and whatever their details say, the main counter has at most one series
  per decision, risk and known source.\<close>

theorem series_stay_bounded:
  "if list_all (\<lambda>(d, r, _). d \<in> set decisions \<and> r \<in> set risks) rs
   then length (mt_assessments (record_all shw rs fresh_metrics)) \<le> length decisions * length risks * Suc (length KNOWN_SOURCES)
   else True"
proof -
  have "bounded_series decisions risks (record_all shw rs m)"
    if "bounded_series decisions risks m" "list_all (\<lambda>(d, r, _). d \<in> set decisions \<and> r \<in> set risks) rs" for m
    using that unfolding record_all_def
    by (induction rs arbitrary: m) (auto simp: record_bounded split: prod.splits)
  moreover have "bounded_series decisions risks fresh_metrics" by (simp add: bounded_series_def fresh_metrics_def)
  ultimately have "length (mt_assessments (record_all shw rs fresh_metrics)) \<le> length decisions * length risks * Suc (length KNOWN_SOURCES)"
    if "list_all (\<lambda>(d, r, _). d \<in> set decisions \<and> r \<in> set risks) rs"
    using that by (intro bounded_length) simp
  then show ?thesis
    by (cases "list_all (\<lambda>(d, r, _). d \<in> set decisions \<and> r \<in> set risks) rs") (simp_all only: if_True if_False)
qed

text \<open>The counter that reports unknown sources is labelled with the source itself, so what the closed set keeps out of
  the main counter makes series there: as many as there are different values.\<close>

theorem unknown_sources_make_series:
  "let rs = map (\<lambda>s. (''ALLOW'', ''LOW'', [(''source'', JStr s)], ''default'')) ss
   in if distinct ss \<and> list_all (\<lambda>s. length s \<le> 40 \<and> s \<notin> set KNOWN_SOURCES) ss
      then length (mt_unknown_sources (record_all shw rs fresh_metrics)) = length ss else True"
proof -
  let ?rec = "\<lambda>m s. snd (metrics_record_assessment shw ''ALLOW'' ''LOW'' [(''source'', JStr s)] ''default'' m)"
  have step: "mt_unknown_sources (?rec m s) = increment [s] (mt_unknown_sources m)"
    if "length s \<le> 40" "s \<notin> set KNOWN_SOURCES" for m s
    using that by (simp add: metrics_record_assessment_def jget_default_def safe_source_def truncate_def Let_def)
  have "length (mt_unknown_sources (fold (\<lambda>s m. ?rec m s) ss m)) = length (mt_unknown_sources m) + length ss"
    if "distinct ss" "list_all (\<lambda>s. length s \<le> 40 \<and> s \<notin> set KNOWN_SOURCES) ss" "\<forall>s\<in>set ss. [s] \<notin> fst ` set (mt_unknown_sources m)" for m
    using that
  proof (induction ss arbitrary: m)
    case (Cons s ss)
    have "length (increment [s] (mt_unknown_sources m)) = Suc (length (mt_unknown_sources m))"
      using Cons.prems by (simp add: increment_def length_od_set)
    moreover have "\<forall>t\<in>set ss. [t] \<notin> fst ` set (mt_unknown_sources (?rec m s))"
      using Cons.prems by (auto simp: step)
    ultimately show ?case using Cons.IH [of "?rec m s"] Cons.prems by (simp add: step)
  qed simp
  from this [of fresh_metrics] show ?thesis
    by (auto simp: record_all_def fold_map comp_def fresh_metrics_def)
qed

text \<open>The counter of arbitrations "that actually reached a judge backend" also counts those where no judge was
  reached: both judges are down, the verdict is the fail-closed one, and the counter goes up.\<close>

theorem unreached_judge_is_counted:
  "let fast = fast_path_signals E v;
       result = ou_result (fst (assess_uncached E R bg prompt t v st))
   in if hard_ban_triggered E t = None \<and> fast_path_decision E fast = None
         \<and> fst (snd (snd (fuse_signals E (collect_semantic_signals E t v (Some fast)))))
         \<and> \<not> ro_guard_available R \<and> fst (ro_judge R prompt (rs_judge st)) = ''JUDGE_OFFLINE''
      then ar_source result = ''judge_failure_fail_closed''
        \<and> mt_judge_invocations (snd (metrics_record_assessment shw decision risk (to_dict result) tenant m))
            = Suc (mt_judge_invocations m)
      else True"
proof -
  let ?s = "collect_semantic_signals E t v (Some (fast_path_signals E v))"
  let ?r = "ou_result (fst (assess_uncached E R bg prompt t v st))"
  have "ar_source ?r = ''judge_failure_fail_closed'' \<and> ar_judge_invoked ?r \<and> ar_context ?r = ''deep_path''"
    if "hard_ban_triggered E t = None" "fast_path_decision E (fast_path_signals E v) = None" "fst (snd (snd (fuse_signals E ?s)))"
       "\<not> ro_guard_available R" "fst (ro_judge R prompt (rs_judge st)) = ''JUDGE_OFFLINE''"
    using that
    by (simp add: assess_uncached_def stage4_def llama_guard_arbitration_def judge_arbitration_def Let_def case_prod_beta
        deep_path_def base_result_def)
  moreover have "map_of (to_dict r) ''judge_invoked'' = Some (JBool (ar_judge_invoked r))" if "ar_context r = ''deep_path''" for r
    using that by (simp add: to_dict_def map_of_keyed result_keys_def result_attrs_def)
  moreover have "safe_source shw (jget_default (to_dict ?r) ''source'' (JStr ''unknown'')) m = (Some (ar_source ?r), m)"
    using uncached_source [of E R bg prompt t v st] uncached_context [of E R bg prompt t v st]
    by (subst jget_default_def) (auto simp: result_source safe_known)
  ultimately show ?thesis by (simp add: metrics_record_assessment_def jget_def Let_def)
qed
end
