(* ===== verification/Semantics.thy ===== *)
theory Semantics
  imports Risk
begin

text \<open>
  What the pipeline knows before a request: core/policy_loader.py (rule files), core/vector_store.py and
  core/embeddings.py (anchor stores), core/threat_centroid.py and core/domain_classifier.py (centroids),
  core/torch_threads.py. The encoder, FAISS and the cosine of sentence-transformers are parameters; lazy
  values are state. The vectors of one encoder have one length, so stacking them does not raise.
\<close>

section \<open>Rule files\<close>

text \<open>The module's variables. A rule list that is \<open>JNull\<close> makes the pipeline fail closed.\<close>

record rule_state =
  ru_domain_anchors :: json
  ru_suspicious :: json
  ru_jailbreak :: json
  ru_override :: json
  ru_hard_ban :: json

text \<open>\<open>_load_json_file\<close>: \<open>None\<close> for a missing or unreadable file, and also for a file that holds \<open>null\<close>.\<close>

definition load_json_file :: "file_content \<Rightarrow> json option" where
  "load_json_file file = (case file of Parsed JNull \<Rightarrow> None | Parsed v \<Rightarrow> Some v | _ \<Rightarrow> None)"

definition init_domain_anchors :: "json option \<Rightarrow> json option" where
  "init_domain_anchors data =
     (case data of
        None \<Rightarrow> Some (JList [])
      | Some (JObj d) \<Rightarrow> Some (jget_default d ''domains'' (JList []))
      | Some _ \<Rightarrow> None)"

text \<open>\<open>_init_policies\<close>, run by the import; \<open>None\<close> is an \<open>AttributeError\<close> that leaves it.\<close>

definition init_policies :: "file_content \<Rightarrow> file_content \<Rightarrow> rule_state option" where
  "init_policies domain_file rules_file =
     (case init_domain_anchors (load_json_file domain_file) of
        None \<Rightarrow> None
      | Some anchors \<Rightarrow>
          (case load_json_file rules_file of
             None \<Rightarrow> Some \<lparr>ru_domain_anchors = anchors, ru_suspicious = JList [], ru_jailbreak = JNull, ru_override = JNull,
                           ru_hard_ban = JNull\<rparr>
           | Some (JObj d) \<Rightarrow>
               Some \<lparr>ru_domain_anchors = anchors, ru_suspicious = jget_default d ''suspicious_phrases'' (JList []),
                     ru_jailbreak = jget_default d ''jailbreak_patterns'' (JList []),
                     ru_override = jget_default d ''instruction_override_patterns'' (JList []),
                     ru_hard_ban = jget_default d ''hard_ban_keywords'' (JList [])\<rparr>
           | Some _ \<Rightarrow> None))"

text \<open>The lists as core/risk.py iterates over them; an entry that is no string raises there and is outside the model.\<close>

fun rule_strings :: "json \<Rightarrow> string list option" where
  "rule_strings JNull = None"
| "rule_strings (JList xs) = Some (List.map_filter (\<lambda>x. case x of JStr s \<Rightarrow> Some s | _ \<Rightarrow> None) xs)"
| "rule_strings (JStr s) = Some (map (\<lambda>c. [c]) s)"
| "rule_strings (JObj kvs) = Some (map fst kvs)"
| "rule_strings _ = Some []"

definition with_rules :: "(string \<Rightarrow> string \<Rightarrow> bool) \<Rightarrow> rule_state \<Rightarrow> 'v risk_env \<Rightarrow> 'v risk_env" where
  "with_rules search R E =
     E\<lparr>re_jailbreak := map_option (map search) (rule_strings (ru_jailbreak R)),
       re_override := map_option (map search) (rule_strings (ru_override R)),
       re_hard_ban := rule_strings (ru_hard_ban R)\<rparr>"

section \<open>Embeddings and the anchor stores\<close>

type_synonym vec = "real list"

datatype embedding = Vector vec | NoVector | EncoderRaises

text \<open>FAISS: a new index, adding rows, the number of rows, the best score of a search, \<open>normalize_L2\<close>.\<close>

record 'x faiss =
  fx_new :: 'x
  fx_add :: "vec list \<Rightarrow> 'x \<Rightarrow> 'x"
  fx_total :: "'x \<Rightarrow> nat"
  fx_search :: "'x \<Rightarrow> vec \<Rightarrow> real"
  fx_normalize :: "vec \<Rightarrow> vec"

record 'x vector_store =
  vs_texts :: "string list"
  vs_index :: "'x option"

definition fresh_store :: "'x vector_store" where
  "fresh_store = \<lparr>vs_texts = [], vs_index = None\<rparr>"

definition store_index :: "'x faiss \<Rightarrow> 'x vector_store \<Rightarrow> 'x" where
  "store_index F st = (case vs_index st of None \<Rightarrow> fx_new F | Some x \<Rightarrow> x)"

text \<open>The vectors of the texts in order; \<open>None\<close> when the encoder raised, or returned nothing to convert.\<close>

fun encode_all :: "(string \<Rightarrow> embedding) \<Rightarrow> string list \<Rightarrow> vec list option" where
  "encode_all encode [] = Some []"
| "encode_all encode (t # ts) =
     (case encode t of Vector v \<Rightarrow> map_option ((#) v) (encode_all encode ts) | _ \<Rightarrow> None)"

definition add_texts :: "'x faiss \<Rightarrow> (string \<Rightarrow> embedding) \<Rightarrow> string list \<Rightarrow> 'x vector_store \<Rightarrow> bool \<times> 'x vector_store" where
  "add_texts F encode texts st =
     (if texts = [] then (True, st)
      else case encode_all encode texts of
             None \<Rightarrow> (False, st)
           | Some vectors \<Rightarrow>
               (True, st\<lparr>vs_index := Some (fx_add F (map (fx_normalize F) vectors) (store_index F st)),
                         vs_texts := vs_texts st @ texts\<rparr>))"

definition get_max_similarity :: "'x faiss \<Rightarrow> vec \<Rightarrow> 'x vector_store \<Rightarrow> real \<times> 'x vector_store" where
  "get_max_similarity F q st =
     (let index = store_index F st; st1 = st\<lparr>vs_index := Some index\<rparr>
      in if fx_total F index = 0 then (0, st1) else (fx_search F index (fx_normalize F q), st1))"

text \<open>\<open>_ensure_faiss_initialized\<close> of core/risk.py: the flag is set after both stores were filled.\<close>

record 'x anchor_stores =
  as_threat :: "'x vector_store"
  as_educational :: "'x vector_store"
  as_initialized :: bool

definition ensure_faiss_initialized ::
  "'x faiss \<Rightarrow> (string \<Rightarrow> embedding) \<Rightarrow> string list \<Rightarrow> string list \<Rightarrow> 'x anchor_stores \<Rightarrow> bool \<times> 'x anchor_stores" where
  "ensure_faiss_initialized F encode threats educational st =
     (if as_initialized st then (True, st)
      else case add_texts F encode threats (as_threat st) of
             (False, t) \<Rightarrow> (False, st\<lparr>as_threat := t\<rparr>)
           | (True, t) \<Rightarrow>
               (case add_texts F encode educational (as_educational st) of
                  (False, e) \<Rightarrow> (False, st\<lparr>as_threat := t, as_educational := e\<rparr>)
                | (True, e) \<Rightarrow> (True, \<lparr>as_threat = t, as_educational = e, as_initialized = True\<rparr>)))"

section \<open>Centroids\<close>

datatype centroid_error = CentroidEncoder | ShortVector | NotIterable

text \<open>The entries a \<open>for\<close> visits; numbers and \<open>null\<close> are not iterable.\<close>

fun iterate :: "json \<Rightarrow> json list option" where
  "iterate (JList xs) = Some xs"
| "iterate (JStr s) = Some (map (\<lambda>c. JStr [c]) s)"
| "iterate (JObj kvs) = Some (map (\<lambda>kv. JStr (fst kv)) kvs)"
| "iterate _ = None"

fun embed_all :: "(json \<Rightarrow> embedding) \<Rightarrow> json list \<Rightarrow> (centroid_error, vec list) res" where
  "embed_all encode [] = Inr []"
| "embed_all encode (d # ds) =
     (case encode d of
        EncoderRaises \<Rightarrow> Inl CentroidEncoder
      | NoVector \<Rightarrow> embed_all encode ds
      | Vector v \<Rightarrow> (case embed_all encode ds of Inl e \<Rightarrow> Inl e | Inr vs \<Rightarrow> Inr (v # vs)))"

text \<open>\<open>for i in range(dim): centroid[i] += vec[i]\<close>\<close>

fun accumulate :: "vec \<Rightarrow> vec list \<Rightarrow> (centroid_error, vec) res" where
  "accumulate c [] = Inr c"
| "accumulate c (v # vs) =
     (if length v < length c then Inl ShortVector else accumulate (map2 (+) c v) vs)"

definition compute_centroid :: "(json \<Rightarrow> embedding) \<Rightarrow> json \<Rightarrow> (centroid_error, vec option) res" where
  "compute_centroid encode documents =
     (if \<not> truthy documents then Inr None
      else case iterate documents of
             None \<Rightarrow> Inl NotIterable
           | Some ds \<Rightarrow>
               (case embed_all encode ds of
                  Inl e \<Rightarrow> Inl e
                | Inr [] \<Rightarrow> Inr None
                | Inr (v # vs) \<Rightarrow>
                    (case accumulate (replicate (length v) 0) (v # vs) of
                       Inl e \<Rightarrow> Inl e
                     | Inr acc \<Rightarrow> Inr (Some (map (\<lambda>x. x / real (length (v # vs))) acc)))))"

text \<open>The centroid of a store, of length one; the outer \<open>None\<close> is an exception.\<close>

definition get_centroid :: "'x faiss \<Rightarrow> (string \<Rightarrow> embedding) \<Rightarrow> 'x vector_store \<Rightarrow> vec option option" where
  "get_centroid F encode st =
     (if vs_texts st = [] then Some None
      else case encode_all encode (vs_texts st) of
             None \<Rightarrow> None
           | Some [] \<Rightarrow> Some None
           | Some (v # vs) \<Rightarrow>
               (case accumulate (replicate (length v) 0) (v # vs) of
                  Inl _ \<Rightarrow> None
                | Inr acc \<Rightarrow> Some (Some (fx_normalize F (map (\<lambda>x. x / real (length (v # vs))) acc)))))"

text \<open>\<open>_load_domain_corpus\<close> and \<open>load_threat_anchors\<close>: whatever goes wrong gives no documents.\<close>

definition load_domain_corpus :: "file_content \<Rightarrow> json" where
  "load_domain_corpus file =
     (case file of Parsed (JObj d) \<Rightarrow> jget_default d ''documents'' (JList []) | _ \<Rightarrow> JList [])"

definition flatten_classes :: "(string \<times> json) list \<Rightarrow> json option" where
  "flatten_classes groups =
     (if list_all (\<lambda>g. iterate (snd g) \<noteq> None) groups
      then Some (JList (concat (map (\<lambda>g. the (iterate (snd g))) groups))) else None)"

definition load_threat_anchors :: "file_content \<Rightarrow> json" where
  "load_threat_anchors file =
     (case file of
        Parsed (JObj d) \<Rightarrow>
          let classes = jget d ''threat_anchor_classes'';
              anchors = (if truthy classes
                         then (case classes of JObj groups \<Rightarrow> flatten_classes groups | _ \<Rightarrow> None)
                         else Some (jget_default d ''threat_anchors'' (JList [])))
          in (case anchors of
                None \<Rightarrow> JList []
              | Some v \<Rightarrow> if iterate v = None then JList [] else v)
      | _ \<Rightarrow> JList [])"

text \<open>Computed by the first call that does not raise.\<close>

record lazy_centroid =
  lc_value :: "vec option"
  lc_initialized :: bool

definition fresh_centroid :: lazy_centroid where
  "fresh_centroid = \<lparr>lc_value = None, lc_initialized = False\<rparr>"

definition get_centroid_once :: "(json \<Rightarrow> embedding) \<Rightarrow> json \<Rightarrow> lazy_centroid \<Rightarrow> (centroid_error, vec option) res \<times> lazy_centroid" where
  "get_centroid_once encode documents st =
     (if lc_initialized st then (Inr (lc_value st), st)
      else case compute_centroid encode documents of
             Inl e \<Rightarrow> (Inl e, st)
           | Inr c \<Rightarrow> (Inr c, \<lparr>lc_value = c, lc_initialized = True\<rparr>))"

definition is_domain_aligned ::
  "(json \<Rightarrow> embedding) \<Rightarrow> (vec \<Rightarrow> vec \<Rightarrow> real) \<Rightarrow> real \<Rightarrow> file_content \<Rightarrow> string \<Rightarrow> lazy_centroid
   \<Rightarrow> (centroid_error, bool \<times> real) res \<times> lazy_centroid" where
  "is_domain_aligned encode cosine threshold file prompt st =
     (case get_centroid_once encode (load_domain_corpus file) st of
        (Inl e, st1) \<Rightarrow> (Inl e, st1)
      | (Inr None, st1) \<Rightarrow> (Inr (True, 1), st1)
      | (Inr (Some c), st1) \<Rightarrow>
          (case encode (JStr prompt) of
             EncoderRaises \<Rightarrow> (Inl CentroidEncoder, st1)
           | NoVector \<Rightarrow> (Inr (True, 1), st1)
           | Vector v \<Rightarrow> let score = cosine v c in (Inr (score \<ge> threshold, score), st1)))"

text \<open>\<open>_get_malicious_centroid\<close>: \<open>build_malicious_centroid\<close> is the loop of \<open>_compute_centroid\<close> over the anchors.\<close>

definition get_malicious_centroid :: "(json \<Rightarrow> embedding) \<Rightarrow> file_content \<Rightarrow> lazy_centroid \<Rightarrow> (centroid_error, vec option) res \<times> lazy_centroid" where
  "get_malicious_centroid encode file st = get_centroid_once encode (load_threat_anchors file) st"

definition compute_centroid_similarity ::
  "(json \<Rightarrow> embedding) \<Rightarrow> (vec \<Rightarrow> vec \<Rightarrow> real) \<Rightarrow> file_content \<Rightarrow> vec option \<Rightarrow> lazy_centroid
   \<Rightarrow> (centroid_error, real) res \<times> lazy_centroid" where
  "compute_centroid_similarity encode cosine file v st =
     (case get_malicious_centroid encode file st of
        (Inl e, st1) \<Rightarrow> (Inl e, st1)
      | (Inr c, st1) \<Rightarrow>
          (case (c, v) of (Some m, Some x) \<Rightarrow> (Inr (cosine x m), st1) | _ \<Rightarrow> (Inr 0, st1)))"

text \<open>\<open>_load_meta_intent_vectors\<close>: an exception anywhere gives no anchors.\<close>

definition load_meta_intent_vectors :: "(json \<Rightarrow> embedding) \<Rightarrow> file_content \<Rightarrow> vec list" where
  "load_meta_intent_vectors encode file =
     (case file of
        Parsed (JObj d) \<Rightarrow>
          (case iterate (jget_default d ''meta_attack_intents'' (JList [])) of
             None \<Rightarrow> []
           | Some ds \<Rightarrow> (case embed_all encode ds of Inl _ \<Rightarrow> [] | Inr vs \<Rightarrow> vs))
      | _ \<Rightarrow> [])"

section \<open>Threads\<close>

datatype torch = TorchMissing | TorchRaises | TorchOk

text \<open>Done at most once, whatever comes of it: the flag is set first.\<close>

definition configure_torch_threads :: "torch \<Rightarrow> nat \<times> nat \<Rightarrow> bool \<times> (nat \<times> nat) option \<Rightarrow> bool \<times> (nat \<times> nat) option" where
  "configure_torch_threads torch wanted st =
     (if fst st then st
      else case torch of TorchOk \<Rightarrow> (True, Some wanted) | _ \<Rightarrow> (True, snd st))"

section \<open>Lemmas\<close>

text \<open>What a flat index of FAISS is documented to do: it holds the rows that were added, and a search returns the
  greatest inner product. \<open>rows\<close> is its content.\<close>

definition inner :: "vec \<Rightarrow> vec \<Rightarrow> real" where
  "inner v w = sum_list (map2 (*) v w)"

definition flat_index :: "'x faiss \<Rightarrow> ('x \<Rightarrow> vec list) \<Rightarrow> bool" where
  "flat_index F rows \<longleftrightarrow> rows (fx_new F) = [] \<and> (\<forall>vs x. rows (fx_add F vs x) = rows x @ vs) \<and> (\<forall>x. fx_total F x = length (rows x))
     \<and> (\<forall>x q. rows x \<noteq> [] \<longrightarrow> fx_search F x q = Max ((\<lambda>r. inner q r) ` set (rows x)))"

text \<open>The index holds the normalized vectors of the texts, in order.\<close>

definition aligned_store :: "'x faiss \<Rightarrow> ('x \<Rightarrow> vec list) \<Rightarrow> (string \<Rightarrow> embedding) \<Rightarrow> 'x vector_store \<Rightarrow> bool" where
  "aligned_store F rows encode st \<longleftrightarrow>
     (case encode_all encode (vs_texts st) of
        None \<Rightarrow> False
      | Some vs \<Rightarrow> rows (store_index F st) = map (fx_normalize F) vs)"

lemma encode_all_append:
  "encode_all encode (xs @ ys) =
    (case (encode_all encode xs, encode_all encode ys) of (Some vs, Some ws) \<Rightarrow> Some (vs @ ws) | _ \<Rightarrow> None)"
  by (induction xs) (auto split: embedding.splits option.splits)

lemma encode_all_vectors: "encode_all encode ts = Some vs \<Longrightarrow> set vs = {v. \<exists>t\<in>set ts. encode t = Vector v}"
  by (induction ts arbitrary: vs) (auto split: embedding.splits)

lemma encode_all_empty: "encode_all encode ts = Some vs \<Longrightarrow> vs = [] \<longleftrightarrow> ts = []"
  by (cases ts) (auto split: embedding.splits)

lemma fresh_aligned: "flat_index F rows \<Longrightarrow> aligned_store F rows encode fresh_store"
  by (simp add: aligned_store_def fresh_store_def store_index_def flat_index_def)

lemma add_texts_aligned:
  assumes "flat_index F rows" and "aligned_store F rows encode st" and "add_texts F encode texts st = (ok, st')"
  shows "aligned_store F rows encode st'" and "vs_texts st' = (if ok then vs_texts st @ texts else vs_texts st)"
  using assms
  by (auto simp: add_texts_def aligned_store_def encode_all_append store_index_def flat_index_def split: if_splits option.splits)

lemma similarity_aligned:
  assumes "flat_index F rows" and "aligned_store F rows encode st"
  shows "aligned_store F rows encode (snd (get_max_similarity F q st))"
    and "fst (get_max_similarity F q st) =
      (if vs_texts st = [] then 0
       else Max {inner (fx_normalize F q) (fx_normalize F v) |v. \<exists>t\<in>set (vs_texts st). encode t = Vector v})"
proof -
  from assms(2) obtain vs where vs: "encode_all encode (vs_texts st) = Some vs" "rows (store_index F st) = map (fx_normalize F) vs"
    by (auto simp: aligned_store_def split: option.splits)
  show "aligned_store F rows encode (snd (get_max_similarity F q st))"
  proof -
    have "snd (get_max_similarity F q st) = st\<lparr>vs_index := Some (store_index F st)\<rparr>"
      by (simp add: get_max_similarity_def Let_def)
    then have "store_index F (snd (get_max_similarity F q st)) = store_index F st"
      "vs_texts (snd (get_max_similarity F q st)) = vs_texts st" by (simp_all add: store_index_def)
    then show ?thesis using assms(2) by (cases "encode_all encode (vs_texts st)") (simp_all add: aligned_store_def)
  qed
  have "(\<lambda>r. inner (fx_normalize F q) r) ` set (rows (store_index F st))
      = {inner (fx_normalize F q) (fx_normalize F v) |v. \<exists>t\<in>set (vs_texts st). encode t = Vector v}"
    unfolding vs(2) using encode_all_vectors [OF vs(1)] by auto
  moreover have "vs = [] \<longleftrightarrow> vs_texts st = []" by (rule encode_all_empty [OF vs(1)])
  ultimately show "fst (get_max_similarity F q st) =
      (if vs_texts st = [] then 0
       else Max {inner (fx_normalize F q) (fx_normalize F v) |v. \<exists>t\<in>set (vs_texts st). encode t = Vector v})"
    using assms(1) vs(2) by (auto simp: get_max_similarity_def Let_def flat_index_def)
qed

lemma accumulate_sum:
  "accumulate c vs = Inr r \<Longrightarrow> length r = length c \<and> list_all (\<lambda>v. length c \<le> length v) vs
    \<and> (\<forall>i<length c. r ! i = c ! i + sum_list (map (\<lambda>v. v ! i) vs))"
proof (induction c vs rule: accumulate.induct)
  case (2 c v vs)
  then have len: "length c \<le> length v" and rest: "accumulate (map2 (+) c v) vs = Inr r" by (simp_all split: if_splits)
  have l: "length (map2 (+) c v) = length c" using len by simp
  have n: "map2 (+) c v ! i = c ! i + v ! i" if "i < length c" for i using that len by simp
  from "2.IH" [OF _ rest] len show ?case by (simp add: l n add.assoc)
qed simp

section \<open>Properties\<close>

text \<open>The threat and the educational store answer with the best of their texts: filled from nothing, a store that took
  its texts returns the greatest inner product of the normalized query with a normalized text vector,
  every time it is asked, and zero when it has no text. A failed filling leaves the store as it was.\<close>

theorem store_answers_with_best_text:
  "if flat_index F rows
   then (case add_texts F encode texts fresh_store of
           (False, st) \<Rightarrow> st = fresh_store
         | (True, st) \<Rightarrow>
             (case get_max_similarity F q1 st of
                (_, st1) \<Rightarrow>
                  fst (get_max_similarity F q st1) =
                    (if texts = [] then 0
                     else Max {inner (fx_normalize F q) (fx_normalize F v) |v. \<exists>t. t \<in> set texts \<and> encode t = Vector v})))
   else True"
proof (cases "flat_index F rows")
  case True
  obtain ok st where a: "add_texts F encode texts fresh_store = (ok, st)" by force
  show ?thesis
  proof (cases ok)
    case False
    with a have "st = fresh_store" by (auto simp: add_texts_def split: if_splits option.splits)
    with a False show ?thesis by simp
  next
    case ok: True
    note st = add_texts_aligned [OF True fresh_aligned [OF True] a]
    let ?st1 = "snd (get_max_similarity F q1 st)"
    have "aligned_store F rows encode ?st1" by (rule similarity_aligned(1) [OF True st(1)])
    from similarity_aligned(2) [OF True this, of q]
    have "fst (get_max_similarity F q ?st1) =
        (if vs_texts ?st1 = [] then 0
         else Max {inner (fx_normalize F q) (fx_normalize F v) |v. \<exists>t\<in>set (vs_texts ?st1). encode t = Vector v})" .
    moreover have "vs_texts ?st1 = texts"
      using st(2) ok by (simp add: get_max_similarity_def Let_def fresh_store_def)
    ultimately show ?thesis using a ok True by (simp add: case_prod_beta Bex_def)
  qed
qed simp

text \<open>A centroid is the mean of the document vectors, coordinate by coordinate, over the length of the first; it exists
  only when some document has a vector, and a shorter vector raises.\<close>

theorem centroid_is_the_mean:
  "case compute_centroid encode documents of
     Inl _ \<Rightarrow> True
   | Inr None \<Rightarrow> \<not> truthy documents \<or> (case iterate documents of None \<Rightarrow> False | Some ds \<Rightarrow> embed_all encode ds = Inr [])
   | Inr (Some c) \<Rightarrow>
       (case iterate documents of
          None \<Rightarrow> False
        | Some ds \<Rightarrow>
            (case embed_all encode ds of
               Inl _ \<Rightarrow> False
             | Inr vs \<Rightarrow> vs \<noteq> [] \<and> c = map (\<lambda>i. sum_list (map (\<lambda>v. v ! i) vs) / real (length vs)) [0..<length (hd vs)]
                 \<and> list_all (\<lambda>v. length (hd vs) \<le> length v) vs))"
proof (cases "truthy documents")
  case True
  show ?thesis
  proof (cases "iterate documents")
    case (Some ds)
    show ?thesis
    proof (cases "embed_all encode ds")
      case (Inr vs)
      show ?thesis
      proof (cases vs)
        case Nil
        with True Some Inr show ?thesis by (simp add: compute_centroid_def)
      next
        case (Cons w ws)
        show ?thesis
        proof (cases "accumulate (replicate (length w) 0) vs")
          case e: (Inl e)
          with True Some Inr Cons show ?thesis by (simp add: compute_centroid_def del: accumulate.simps)
        next
          case r: (Inr r)
          from accumulate_sum [OF r] have l: "length r = length w" "list_all (\<lambda>v. length w \<le> length v) vs"
            and n: "\<And>i. i < length w \<Longrightarrow> r ! i = sum_list (map (\<lambda>v. v ! i) vs)" by simp_all
          have "map (\<lambda>x. x / real (length vs)) r = map (\<lambda>i. sum_list (map (\<lambda>v. v ! i) vs) / real (length vs)) [0..<length w]"
            by (rule nth_equalityI) (simp_all add: l n)
          then have "compute_centroid encode documents
              = Inr (Some (map (\<lambda>i. sum_list (map (\<lambda>v. v ! i) vs) / real (length vs)) [0..<length w]))"
            using True Some Inr r unfolding Cons by (simp add: compute_centroid_def del: accumulate.simps)
          with Some Inr l(2) Cons show ?thesis by simp
        qed
      qed
    qed (use True Some in \<open>simp add: compute_centroid_def\<close>)
  qed (use True in \<open>simp add: compute_centroid_def\<close>)
qed (simp add: compute_centroid_def)

text \<open>A lazy centroid is computed once: after a call that returned, later calls return the same value, whatever the file
  holds by then and whether or not the encoder works; a call that raised is repeated.\<close>

theorem centroid_is_computed_once:
  "case get_centroid_once encode documents st of
     (Inr c, st1) \<Rightarrow> get_centroid_once encode' documents' st1 = (Inr c, st1)
   | (Inl _, st1) \<Rightarrow> st1 = st"
  by (auto simp: get_centroid_once_def split: sum.splits)

text \<open>The centroid of a store is the normalized centroid that the guardrails compute from the same texts.\<close>

lemma embed_texts: "encode_all encode ts = Some vs \<Longrightarrow>
    embed_all (\<lambda>j. case j of JStr t \<Rightarrow> encode t | _ \<Rightarrow> NoVector) (map JStr ts) = Inr vs"
  by (induction ts arbitrary: vs) (auto split: embedding.splits)

theorem store_centroid_is_the_guardrail_centroid:
  "case encode_all encode (vs_texts st) of
     None \<Rightarrow> get_centroid F encode st = None
   | Some vs \<Rightarrow>
       get_centroid F encode st =
         (case compute_centroid (\<lambda>j. case j of JStr t \<Rightarrow> encode t | _ \<Rightarrow> NoVector) (JList (map JStr (vs_texts st))) of
            Inl _ \<Rightarrow> None | Inr c \<Rightarrow> Some (map_option (fx_normalize F) c))"
proof (cases "encode_all encode (vs_texts st)")
  case None
  then have "vs_texts st \<noteq> []" by auto
  with None show ?thesis by (simp add: get_centroid_def)
next
  case (Some vs)
  note embed = embed_texts [OF this]
  show ?thesis
  proof (cases "vs_texts st")
    case Nil
    with Some show ?thesis by (simp add: get_centroid_def compute_centroid_def)
  next
    case (Cons t ts)
    then have "truthy (JList (map JStr (vs_texts st)))" by simp
    with Some embed Cons show ?thesis
      unfolding get_centroid_def compute_centroid_def by (auto split: list.splits sum.splits)
  qed
qed

text \<open>Without its rule file, missing or unreadable, the symbolic layer fails closed: every prompt is vetoed.\<close>

theorem missing_rules_veto_everything:
  "case init_policies domain_file rules_file of
     None \<Rightarrow> True
   | Some R \<Rightarrow>
       if rules_file \<in> {Absent, Unreadable}
       then hard_ban_triggered (with_rules search R E) prompt = Some ''SYMBOLIC_POLICY_MISSING'' else True"
  by (auto simp: init_policies_def load_json_file_def with_rules_def hard_ban_triggered_def check_symbolic_violations_def
      split: option.splits json.splits)

text \<open>A rule file that is an object without the rule lists, an empty one for example, disables the veto instead: no
  prompt is refused. A file that holds another JSON value makes the import itself raise.\<close>

theorem empty_rules_veto_nothing:
  "case init_policies Absent (Parsed (JObj [])) of
     None \<Rightarrow> False
   | Some R \<Rightarrow> hard_ban_triggered (with_rules search R E) prompt = None \<and> init_policies Absent (Parsed (JList [])) = None"
  by (simp_all add: init_policies_def init_domain_anchors_def load_json_file_def jget_default_def with_rules_def
      hard_ban_triggered_def check_symbolic_violations_def map_filter_simps Let_def)

end
