(* ===== verification/Api_Ops.thy ===== *)
theory Api_Ops
  imports Api_Admin Metrics Semantics "HOL-Library.Multiset"
begin

text \<open>
  The rest of api/main.py: what happens at start-up and around every request, the metrics endpoint and the list of
  benchmark runs of core/benchmarks.py, with the http.get handler of core/real_tools.py that start-up registers. The
  web framework, the network and the models are arguments.
\<close>

section \<open>A setting\<close>

definition validate_domain_mode :: "string \<Rightarrow> string option" where
  "validate_domain_mode v =
     (let normalized = str_lower (str_strip v)
      in if normalized \<in> {''off'', ''advisory'', ''enforcing''} then Some normalized else None)"

section \<open>The http.get handler\<close>

definition HTTP_GET_SPEC :: tool_spec where
  "HTTP_GET_SPEC =
     object_spec ''http.get''
       (''Fetches a URL via HTTP GET, restricted to an operator-configured domain allowlist ''
        @ ''(TOOL_HTTP_GET_ALLOWED_DOMAINS). The first REAL, non-sandboxed tool -- makes an actual outbound network call.'')
       [(''url'', \<lparr>ps_type = Some ''string'', ps_enum = None, ps_max_length = Some 2048\<rparr>)] [''url''] ''MEDIUM'' ''ELEVATED''"

text \<open>The network. \<open>wb_resolve n\<close> is the answer to the \<open>n\<close>-th lookup of a call: the handler makes the first, the HTTP
  client makes its own when it connects, and \<open>wb_fetch\<close> depends on that answer.\<close>

record web_reply =
  wr_status :: int
  wr_chunks :: "string list"
  wr_content_type :: "string option"

record web =
  wb_split :: "string \<Rightarrow> url_parts option"
  wb_resolve :: "nat \<Rightarrow> string \<Rightarrow> address list option"
  wb_fetch :: "string \<Rightarrow> address list option \<Rightarrow> web_reply option"
  wb_decode :: "string \<Rightarrow> string"
  wb_say :: "http_get_error \<Rightarrow> string"

definition url_host :: "url_parts \<Rightarrow> string" where
  "url_host parts = (case up_hostname parts of None \<Rightarrow> [] | Some h \<Rightarrow> str_lower h)"

definition http_get_handler :: "string \<Rightarrow> web \<Rightarrow> 'w handler" where
  "http_get_handler setting W args w =
     (case map_of args ''url'' of
        Some (JStr url) \<Rightarrow>
          (case wb_split W url of
             None \<Rightarrow> (Inl ''ValueError'', w)
           | Some parts \<Rightarrow>
               (case http_get setting (wb_resolve W 0) parts [] of
                  Inl e \<Rightarrow> (Inl (wb_say W e), w)
                | Inr _ \<Rightarrow>
                    (case wb_fetch W url (wb_resolve W 1 (url_host parts)) of
                       None \<Rightarrow> (Inl ''RequestException'', w)
                     | Some r \<Rightarrow>
                         let (body, truncated) = read_capped 0 (wr_chunks r)
                         in (Inr (JObj [(''status_code'', JInt (wr_status r)), (''url'', JStr url),
                                        (''content'', JStr (wb_decode W body)), (''truncated'', JBool truncated),
                                        (''content_type'', case wr_content_type r of None \<Rightarrow> JNull | Some t \<Rightarrow> JStr t)]), w))))
      | _ \<Rightarrow> (Inl ''TypeError'', w))"

definition register_real_tools :: "string \<Rightarrow> web \<Rightarrow> 'w registry \<Rightarrow> 'w registry" where
  "register_real_tools setting W reg =
     (case register_tool HTTP_GET_SPEC (Some (http_get_handler setting W)) reg of Inl _ \<Rightarrow> reg | Inr reg' \<Rightarrow> reg')"

section \<open>Start-up\<close>

record startup_settings =
  su_warm_models :: bool
  su_demo_tools :: bool
  su_real_tools :: bool
  su_allowed_domains :: string

record models =
  md_encoder :: bool
  md_centroid :: lazy_centroid
  md_fusion :: fusion_state

text \<open>\<open>_warm\<close>: the encoder, the centroid of the anchors, the fusion detectors. \<open>None\<close>: one of them raised.\<close>

definition warm ::
  "bool \<Rightarrow> (json \<Rightarrow> embedding) \<Rightarrow> file_content \<Rightarrow> artifact \<Rightarrow> (string \<Rightarrow> bool) \<Rightarrow> models \<Rightarrow> bool option \<times> models" where
  "warm encoder_loads encode anchors file load_ok m =
     (if \<not> md_encoder m \<and> \<not> encoder_loads then (None, m)
      else
        case get_malicious_centroid encode anchors (md_centroid m) of
          (Inl _, c) \<Rightarrow> (None, m\<lparr>md_encoder := True, md_centroid := c\<rparr>)
        | (Inr _, c) \<Rightarrow>
            (case warm_up file load_ok (md_fusion m) of
               (warmed, f) \<Rightarrow> (Some warmed, \<lparr>md_encoder = True, md_centroid = c, md_fusion = f\<rparr>)))"

definition warm_models ::
  "startup_settings \<Rightarrow> web \<Rightarrow> (models \<Rightarrow> bool option \<times> models) \<Rightarrow> demo_db registry \<times> models \<Rightarrow> demo_db registry \<times> models" where
  "warm_models S W warm_now st =
     (let (reg, m) = st;
          m1 = (if su_warm_models S then snd (warm_now m) else m);
          reg1 = (if su_demo_tools S then register_demo_tools reg else reg);
          reg2 = (if su_real_tools S then register_real_tools (su_allowed_domains S) W reg1 else reg1)
      in (reg2, m1))"

section \<open>Cross-origin requests\<close>

definition cors_origins :: "string \<Rightarrow> string list" where
  "cors_origins setting = filter (\<lambda>s. s \<noteq> []) (map str_strip (str_split CHR '','' setting))"

definition allow_credentials :: "string \<Rightarrow> bool" where
  "allow_credentials setting \<longleftrightarrow> ''*'' \<notin> set (cors_origins setting)"

section \<open>Around a request\<close>

text \<open>What the routes behind the middleware do: answer, with a status and headers under their lower-case names (an
  \<open>HTTPException\<close> is an answer), or raise.\<close>

datatype app_outcome = Answers nat "(string \<times> string) list" | Raises

type_synonym duration_series = "((string \<times> string \<times> nat) \<times> real list) list"

record http_settings =
  hs_id_header :: string
  hs_id_max :: nat
  hs_metrics :: bool

text \<open>What the server hands over: the method of the request line, the correlation header, the path template of the
  route that matched, if any.\<close>

record http_call =
  hc_method :: string
  hc_id :: string
  hc_route :: "string option"

definition route_template :: "http_call \<Rightarrow> string" where
  "route_template c = (case hc_route c of None \<Rightarrow> ''unmatched'' | Some p \<Rightarrow> if p = [] then ''unmatched'' else p)"

definition observe_duration :: "string \<times> string \<times> nat \<Rightarrow> real \<Rightarrow> duration_series \<Rightarrow> duration_series" where
  "observe_duration labels x ds = od_set labels ((case map_of ds labels of None \<Rightarrow> [] | Some xs \<Rightarrow> xs) @ [x]) ds"

definition add_process_time_header ::
  "http_settings \<Rightarrow> (real \<Rightarrow> string) \<Rightarrow> string \<Rightarrow> real \<Rightarrow> (string \<Rightarrow> http_call \<Rightarrow> 's \<Rightarrow> app_outcome \<times> 's)
   \<Rightarrow> http_call \<Rightarrow> 's \<times> duration_series \<Rightarrow> app_outcome \<times> 's \<times> duration_series" where
  "add_process_time_header S shw fresh elapsed app c st =
     (let (s, ds) = st;
          request_id = resolve_request_id (hs_id_max S) (hc_id c) fresh
      in case app request_id c s of
           (Raises, s1) \<Rightarrow> (Raises, s1, ds)
         | (Answers status hs, s1) \<Rightarrow>
             (Answers status (od_set (str_lower (hs_id_header S)) request_id (od_set ''x-process-time'' (shw elapsed) hs)), s1,
              if hs_metrics S then observe_duration (route_template c, hc_method c, status) elapsed ds else ds))"

section \<open>The metrics endpoint\<close>

datatype metrics_error = MetricsDisabled | MetricsUnauthorized | MetricsError api_error

text \<open>The state: the process, its two breakers, the shared server.\<close>

definition metrics_endpoint ::
  "('v, 'c, 'l, 'j, 'w, 'r, 'q) services \<Rightarrow> bool \<Rightarrow> bool \<Rightarrow> 's redis \<Rightarrow> fault \<Rightarrow> fault \<Rightarrow> http_request
   \<Rightarrow> ('c, 'l, 'j, 'w, 'r, 'q) gateway \<times> (breaker \<times> breaker) \<times> 's
   \<Rightarrow> (metrics_error, nat \<times> nat) res \<times> ('c, 'l, 'j, 'w, 'r, 'q) gateway \<times> (breaker \<times> breaker) \<times> 's" where
  "metrics_endpoint X enabled require_auth R f1 f2 req st =
     (let (g, bs, s) = st
      in if \<not> enabled then (Inl MetricsDisabled, g, bs, s)
         else
           case (if require_auth
                 then (case authenticate X req g of
                         (Inl e, g1) \<Rightarrow> (Some (MetricsError e), g1)
                       | (Inr p, g1) \<Rightarrow> (if pr_authenticated p then None else Some MetricsUnauthorized, g1))
                 else (None, g)) of
             (Some e, g1) \<Rightarrow> (Inl e, g1, bs, s)
           | (None, g1) \<Rightarrow>
               (case refresh_circuit_breaker_gauges R f1 f2 bs s of
                  (gauges, bs1, s1) \<Rightarrow> (Inr gauges, g1, bs1, s1)))"

section \<open>Benchmark runs\<close>

text \<open>A file of the evidence directory. \<open>BadFile\<close>: reading or parsing raises one of the errors the reader catches, with
  its text; \<open>OtherError\<close>: it raises another one (\<open>RecursionError\<close> on deep nesting, \<open>ValueError\<close> on a number of too many
  digits). \<open>ev_mtime\<close> is \<open>None\<close> when the file is gone by the time it is asked for.\<close>

datatype parse_result = BadFile string | OtherError | Holds json

record evidence =
  ev_name :: string
  ev_content :: parse_result
  ev_mtime :: "real option"

definition matches_pattern :: "string \<Rightarrow> bool" where
  "matches_pattern name \<longleftrightarrow>
     take 18 name = ''benchmark_results_'' \<and> drop (length name - 5) name = ''.json'' \<and> 23 \<le> length name"

type_synonym bench_run = "(string \<times> json) list"

definition read_run :: "(real \<Rightarrow> string) \<Rightarrow> evidence \<Rightarrow> ((string \<times> string) + (real \<times> bench_run)) option" where
  "read_run fmt f =
     (case ev_content f of
        BadFile e \<Rightarrow> Some (Inl (ev_name f, e))
      | OtherError \<Rightarrow> None
      | Holds (JObj content) \<Rightarrow>
          map_option (\<lambda>t. Inr (t, od_set ''_mtime'' (JStr (fmt t)) (od_set ''_filename'' (JStr (ev_name f)) content))) (ev_mtime f)
      | Holds _ \<Rightarrow> Some (Inl (ev_name f, ''expected a JSON object at the top level'')))"

fun read_runs ::
  "(real \<Rightarrow> string) \<Rightarrow> evidence list \<Rightarrow> ((string \<times> string) list \<times> (real \<times> bench_run) list) option" where
  "read_runs fmt [] = Some ([], [])"
| "read_runs fmt (f # fs) =
     (case read_run fmt f of
        None \<Rightarrow> None
      | Some r \<Rightarrow>
          (case read_runs fmt fs of
             None \<Rightarrow> None
           | Some (errors, runs) \<Rightarrow>
               Some (case r of Inl e \<Rightarrow> (e # errors, runs) | Inr run \<Rightarrow> (errors, run # runs))))"

text \<open>\<open>list_benchmark_runs\<close>: runs and errors, or \<open>None\<close> when it raises; a missing directory gives nothing.\<close>

definition list_benchmark_runs :: "(real \<Rightarrow> string) \<Rightarrow> evidence list option \<Rightarrow> (bench_run list \<times> (string \<times> string) list) option" where
  "list_benchmark_runs fmt directory =
     (case directory of
        None \<Rightarrow> Some ([], [])
      | Some fs \<Rightarrow>
          map_option (\<lambda>(errors, runs). (map snd (sort_key (\<lambda>(t, _). - t) runs), errors))
            (read_runs fmt (sort_key ev_name (filter (\<lambda>f. matches_pattern (ev_name f)) fs))))"

definition benchmarks ::
  "('v, 'c, 'l, 'j, 'w, 'r, 'q) services \<Rightarrow> chance \<Rightarrow> (real \<Rightarrow> string) \<Rightarrow> evidence list option \<Rightarrow> http_request
   \<Rightarrow> ('c, 'l, 'j, 'w, 'r, 'q) gateway
   \<Rightarrow> (api_error, bench_run list \<times> (string \<times> string) list) res \<times> ('c, 'l, 'j, 'w, 'r, 'q) gateway" where
  "benchmarks X h fmt directory req g =
     and_then (require_internal X h req g) (\<lambda>_ g1.
       (case list_benchmark_runs fmt directory of None \<Rightarrow> Inl (Unhandled ''list_benchmark_runs'') | Some r \<Rightarrow> Inr r, g1))"

section \<open>Lemmas\<close>

text \<open>The names in a registry, in order; registering what is registered changes nothing.\<close>

definition tool_names :: "'w registry \<Rightarrow> string list" where
  "tool_names reg = map fst (rg_tools reg)"

definition add_name :: "string \<Rightarrow> string list \<Rightarrow> string list" where
  "add_name n ns = (if n \<in> set ns then ns else ns @ [n])"

lemma names_register_tool:
  "tool_names (case register_tool s h reg of Inl _ \<Rightarrow> reg | Inr reg' \<Rightarrow> reg') = add_name (tl_name s) (tool_names reg)"
  by (auto simp: tool_names_def add_name_def register_tool_def map_of_eq_None_iff)

lemma names_register_all: "tool_names (register_all ts reg) = fold (\<lambda>t. add_name (tl_name (fst t))) ts (tool_names reg)"
  by (induction ts reg rule: register_all.induct) (simp_all add: names_register_tool)

lemma register_known: "tl_name s \<in> set (tool_names reg) \<Longrightarrow> register_tool s h reg = Inl (tl_name s)"
  by (auto simp: tool_names_def register_tool_def map_of_eq_None_iff)

lemma register_all_known: "\<forall>t \<in> set ts. tl_name (fst t) \<in> set (tool_names reg) \<Longrightarrow> register_all ts reg = reg"
  by (induction ts reg rule: register_all.induct) (simp_all add: register_known)

definition demo_list :: "string list" where
  "demo_list = [''demo.echo'', ''demo.calculator.add'', ''demo.database.query'', ''demo.database.delete'']"

lemma demo_names: "map (\<lambda>t. tl_name (fst t)) DEMO_TOOLS = demo_list"
  by (simp add: DEMO_TOOLS_def object_spec_def demo_list_def)

lemma names_demo: "tool_names (register_demo_tools reg) = fold add_name demo_list (tool_names reg)"
  unfolding register_demo_tools_def names_register_all demo_names [symmetric] by (simp only: fold_map comp_def)

lemma http_get_name [simp]: "tl_name HTTP_GET_SPEC = ''http.get''"
  unfolding HTTP_GET_SPEC_def object_spec_def by (simp only: tool_spec.select_convs)

lemma names_real: "tool_names (register_real_tools setting W reg) = add_name ''http.get'' (tool_names reg)"
  unfolding register_real_tools_def names_register_tool http_get_name ..

lemma demo_known:
  assumes "set demo_list \<subseteq> set (tool_names reg)"
  shows "register_demo_tools reg = reg"
proof -
  have "set demo_list = (\<lambda>t. tl_name (fst t)) ` set DEMO_TOOLS" unfolding demo_names [symmetric] by simp
  with assms show ?thesis unfolding register_demo_tools_def by (intro register_all_known) auto
qed

lemma real_known: "''http.get'' \<in> set (tool_names reg) \<Longrightarrow> register_real_tools setting W reg = reg"
  by (simp add: register_real_tools_def register_known)

text \<open>Reading the files one by one.\<close>

definition run_name :: "bench_run \<Rightarrow> json option" where
  "run_name r = map_of r ''_filename''"

lemma read_run_Some:
  assumes "read_run fmt f = Some x"
  shows "case x of Inl (n, e) \<Rightarrow> n = ev_name f
    | Inr (t, r) \<Rightarrow> run_name r = Some (JStr (ev_name f)) \<and> map_of r ''_mtime'' = Some (JStr (fmt t)) \<and> ev_mtime f = Some t"
  using assms by (auto simp: read_run_def run_name_def map_of_od_set split: parse_result.splits json.splits)

lemma read_runs_None: "read_runs fmt fs = None \<longleftrightarrow> list_ex (\<lambda>f. read_run fmt f = None) fs"
  by (induction fs) (auto split: option.splits)

lemma read_runs_cases:
  assumes "read_runs fmt (f # fs) = Some (errors, runs)"
  obtains e errors' where "read_run fmt f = Some (Inl e)" "read_runs fmt fs = Some (errors', runs)" "errors = e # errors'"
  | t r runs' where "read_run fmt f = Some (Inr (t, r))" "read_runs fmt fs = Some (errors, runs')" "runs = (t, r) # runs'"
  using assms by (auto split: option.splits sum.splits)

lemma read_runs_Some:
  assumes "read_runs fmt fs = Some (errors, runs)"
  shows "mset (map (run_name \<circ> snd) runs) + mset (map (Some \<circ> JStr \<circ> fst) errors) = mset (map (Some \<circ> JStr \<circ> ev_name) fs)
    \<and> list_all (\<lambda>(t, r). map_of r ''_mtime'' = Some (JStr (fmt t))) runs"
  using assms
proof (induction fs arbitrary: errors runs)
  case (Cons f fs)
  from Cons.prems show ?case
  proof (cases rule: read_runs_cases)
    case (1 e errors')
    from read_run_Some [OF 1(1)] have "fst e = ev_name f" by (simp add: case_prod_beta)
    with Cons.IH [OF 1(2)] 1(3) show ?thesis by simp
  next
    case (2 t r runs')
    from read_run_Some [OF 2(1)] have "run_name r = Some (JStr (ev_name f)) \<and> map_of r ''_mtime'' = Some (JStr (fmt t))" by simp
    with Cons.IH [OF 2(2)] 2(3) show ?thesis by simp
  qed
qed simp

text \<open>The series of the duration histogram.\<close>

lemma observe_duration_keys: "fst ` set (observe_duration l x ds) = insert l (fst ` set ds)"
  by (simp add: observe_duration_def keys_od_set)

lemma observe_duration_length: "l \<notin> fst ` set ds \<Longrightarrow> length (observe_duration l x ds) = Suc (length ds)"
  by (simp add: observe_duration_def length_od_set)

definition handle_all ::
  "http_settings \<Rightarrow> (real \<Rightarrow> string) \<Rightarrow> string \<Rightarrow> (string \<Rightarrow> http_call \<Rightarrow> 's \<Rightarrow> app_outcome \<times> 's) \<Rightarrow> (real \<times> http_call) list
   \<Rightarrow> 's \<times> duration_series \<Rightarrow> 's \<times> duration_series" where
  "handle_all S shw fresh app cs st = fold (\<lambda>(elapsed, c) st. snd (add_process_time_header S shw fresh elapsed app c st)) cs st"

lemma add_process_time_answers:
  assumes "app (resolve_request_id (hs_id_max S) (hc_id c) fresh) c s = (Answers status hs, s1)" and "hs_metrics S"
  shows "snd (add_process_time_header S shw fresh elapsed app c (s, ds))
    = (s1, observe_duration (route_template c, hc_method c, status) elapsed ds)"
  using assms by (simp add: add_process_time_header_def Let_def)

section \<open>Properties\<close>

text \<open>A setting that is accepted is one of the three modes, and is accepted as it is when it is read back.\<close>

theorem domain_mode_is_settled:
  "case validate_domain_mode v of
     None \<Rightarrow> True | Some m \<Rightarrow> m \<in> {''off'', ''advisory'', ''enforcing''} \<and> validate_domain_mode m = Some m"
proof -
  have "validate_domain_mode ''off'' = Some ''off''" "validate_domain_mode ''advisory'' = Some ''advisory''"
    "validate_domain_mode ''enforcing'' = Some ''enforcing''" by code_simp+
  then show ?thesis by (auto simp: validate_domain_mode_def [of v] Let_def)
qed

text \<open>Start-up registers the tools its settings name, and no others, whatever becomes of the models: warm-up disabled,
  failed, or incomplete. Running it again changes nothing.\<close>

theorem startup_registers_its_tools:
  "case warm_models S W warm_now (registry_init, m) of
     (reg, m') \<Rightarrow>
       tool_names reg =
         (if su_demo_tools S then [''demo.echo'', ''demo.calculator.add'', ''demo.database.query'', ''demo.database.delete''] else [])
         @ (if su_real_tools S then [''http.get''] else [])
       \<and> fst (warm_models S W' warm_now' (reg, m'')) = reg"
proof -
  have init: "tool_names registry_init = []" by (simp add: tool_names_def registry_init_def)
  show ?thesis
    by (cases "su_demo_tools S"; cases "su_real_tools S")
       (simp_all add: warm_models_def Let_def names_demo names_real demo_known real_known add_name_def init demo_list_def)
qed

text \<open>Every file of the pattern is accounted for: it is a run or an error, once, under its own name, and the runs come newest
  first.\<close>

theorem benchmark_runs_account_for_every_file:
  "case list_benchmark_runs fmt (Some fs) of
     None \<Rightarrow> list_ex (\<lambda>f. matches_pattern (ev_name f) \<and> read_run fmt f = None) fs
   | Some (runs, errors) \<Rightarrow>
       mset (map run_name runs) + mset (map (Some \<circ> JStr \<circ> fst) errors)
         = mset (map (Some \<circ> JStr \<circ> ev_name) (filter (\<lambda>f. matches_pattern (ev_name f)) fs))
       \<and> (\<exists>ts. sorted_wrt (\<ge>) ts \<and> map (\<lambda>r. map_of r ''_mtime'') runs = map (Some \<circ> JStr \<circ> fmt) ts)"
proof -
  let ?fs = "filter (\<lambda>f. matches_pattern (ev_name f)) fs"
  show ?thesis
  proof (cases "read_runs fmt (sort_key ev_name ?fs)")
    case None
    then have "list_ex (\<lambda>f. matches_pattern (ev_name f) \<and> read_run fmt f = None) fs"
      unfolding read_runs_None by (auto simp: list_ex_iff)
    with None show ?thesis by (simp add: list_benchmark_runs_def)
  next
    case (Some er)
    obtain errors rs where er: "er = (errors, rs)" by (cases er)
    let ?sorted = "sort_key (\<lambda>(t, _). - t) rs"
    note facts = read_runs_Some [OF Some [unfolded er]]
    have names: "mset (map run_name (map snd ?sorted)) = mset (map (run_name \<circ> snd) rs)" by (simp add: comp_def)
    have "sorted (map (\<lambda>(t, _). - t) ?sorted)" by (rule sorted_sort_key)
    then have sorted: "sorted_wrt (\<ge>) (map fst ?sorted)"
      by (simp add: sorted_wrt_map case_prod_beta')
    have "list_all (\<lambda>(t, r). map_of r ''_mtime'' = Some (JStr (fmt t))) ?sorted" using facts by (simp add: list_all_iff)
    then have times: "map (\<lambda>r. map_of r ''_mtime'') (map snd ?sorted) = map (Some \<circ> JStr \<circ> fmt) (map fst ?sorted)"
      by (auto simp: list_all_iff)
    show ?thesis using Some er facts names sorted times by (auto simp: list_benchmark_runs_def multiset.map_comp)
  qed
qed

text \<open>One file that raises something other than a decoding error or an \<open>OSError\<close> takes the whole list away, with its
  other runs and the names of the corrupt files.\<close>

theorem one_file_hides_the_list:
  "if list_ex (\<lambda>f. matches_pattern (ev_name f) \<and> ev_content f = OtherError) fs
   then list_benchmark_runs fmt (Some fs) = None else True"
proof -
  have "read_run fmt f = None" if "ev_content f = OtherError" for f using that by (simp add: read_run_def)
  then show ?thesis by (auto simp: list_benchmark_runs_def read_runs_None list_ex_iff)
qed

text \<open>A scrape of the metrics changes nothing behind the gate and nothing on the shared server, and where a key is
  required it is answered to authenticated callers only.\<close>

theorem scrape_is_read_only:
  "case metrics_endpoint X enabled require_auth R f1 f2 req (g, bs, s) of
     (r, g', bs', s') \<Rightarrow>
       protected g' = protected g \<and> s' = s
       \<and> (case r of
            Inl _ \<Rightarrow> bs' = bs
          | Inr _ \<Rightarrow> enabled \<and>
              (if require_auth then (case authenticate X req g of (Inr p, _) \<Rightarrow> pr_authenticated p | _ \<Rightarrow> False) else True))"
proof -
  have "snd (snd (refresh_circuit_breaker_gauges R f1 f2 bs s)) = s"
    by (cases f1; cases f2) (auto simp: refresh_circuit_breaker_gauges_def breaker_gauge_def opened_at_view_def Let_def split: prod.splits option.splits)
  then show ?thesis
    by (auto simp: metrics_endpoint_def split: prod.splits sum.splits dest: authenticate_frame)
qed

text \<open>The caller's method is a label as it stands in the request line, so each new method makes a series of its own: the
  number of series is the number of methods sent.\<close>

theorem methods_make_series:
  assumes "\<forall>i c s. app i c s = (Answers 405 [], s)" and "hs_metrics S"
    and "distinct (map (\<lambda>(_, c). (route_template c, hc_method c)) cs)"
  shows "length (snd (handle_all S shw fresh app cs (s, []))) = length cs"
proof -
  let ?label = "\<lambda>(_ :: real, c). (route_template c, hc_method c, 405 :: nat)"
  have "\<exists>ds. handle_all S shw fresh app cs (s, []) = (s, ds) \<and> fst ` set ds = ?label ` set cs \<and> length ds = length cs"
    using assms(3)
  proof (induction cs rule: rev_induct)
    case (snoc ec cs)
    obtain elapsed c where ec: "ec = (elapsed, c)" by (cases ec)
    from snoc.prems have "distinct (map (\<lambda>(_, c). (route_template c, hc_method c)) cs)" by simp
    from snoc.IH [OF this] obtain ds where ds: "handle_all S shw fresh app cs (s, []) = (s, ds)"
      "fst ` set ds = ?label ` set cs" "length ds = length cs" by blast
    have step: "handle_all S shw fresh app (cs @ [ec]) (s, []) = (s, observe_duration (?label ec) elapsed ds)"
      using ds(1) assms(1,2) add_process_time_answers [of app S c fresh s 405 "[]" s shw elapsed ds] by (simp add: handle_all_def ec)
    have "?label ec \<notin> ?label ` set cs" using snoc.prems by (force simp: ec)
    with ds(2,3) have "length (observe_duration (?label ec) elapsed ds) = length (cs @ [ec])"
      by (simp add: observe_duration_length)
    with step ds(2) show ?case by (simp add: observe_duration_keys)
  qed (simp add: handle_all_def)
  then show ?thesis by auto
qed

text \<open>A request whose handler raises is neither measured nor answered with its correlation id.\<close>

theorem unhandled_error_is_not_measured:
  "case app (resolve_request_id (hs_id_max S) (hc_id c) fresh) c s of
     (Raises, s1) \<Rightarrow> add_process_time_header S shw fresh elapsed app c (s, ds) = (Raises, s1, ds)
   | (Answers status hs, s1) \<Rightarrow>
       (case add_process_time_header S shw fresh elapsed app c (s, ds) of
          (Answers status' hs', _) \<Rightarrow>
            status' = status \<and> map_of hs' (str_lower (hs_id_header S)) = Some (resolve_request_id (hs_id_max S) (hc_id c) fresh)
        | _ \<Rightarrow> False)"
  by (auto simp: add_process_time_header_def map_of_od_set Let_def split: prod.splits app_outcome.splits)

text \<open>The address that is checked is not the address that is fetched: when the name resolves to a public address for the
  handler and to another one for the HTTP client, the call succeeds with the reply of the second.\<close>

theorem rebinding_between_check_and_fetch:
  assumes "wb_split W url = Some parts" and "http_get setting (wb_resolve W 0) parts [] = Inr r"
    and "wb_resolve W 1 (url_host parts) = Some [NonPublicAddress]"
    and "wb_fetch W url (Some [NonPublicAddress]) = Some reply"
  shows "case http_get_handler setting W [(''url'', JStr url)] w of
     (Inr out, w') \<Rightarrow> map_of (obj_items out) ''content'' = Some (JStr (wb_decode W (fst (read_capped 0 (wr_chunks reply))))) \<and> w' = w
   | _ \<Rightarrow> False"
  using assms by (simp add: http_get_handler_def case_prod_beta Let_def)

end
