(* ===== verification/Gateway_Run.thy ===== *)
theory Gateway_Run
  imports Api_Ops "HOL-Library.Sublist"
begin

text \<open>
  The service as a whole: what arrives, the step relation of a process that serves it, and the runs of such a process.
  An arrival is a request for one of the endpoints of api/main.py or the confirmation task an assessment left behind.
  The request models of api/schemas.py are applied first: what they refuse is answered with 422 and reaches no handler.

  A run is a sequence of whole requests. Handlers of one worker interleave at their awaits in the program; what is shown
  here of every state between two requests does not speak about the states inside one.
\<close>

section \<open>Arrivals and answers\<close>

datatype demand =
    AssessPrompt assess_request
  | AssessReply string "string option"
  | ChatThrough chat_request
  | CallTool tool_request
  | AskIdentity
  | AskPrivacy "string option"
  | AskProtection "string option"
  | AskFeed "string option" int "string option"
  | AskTrace "string option" string
  | AskReview string
  | AskBenchmarks "real \<Rightarrow> string" "evidence list option"
  | Operate operator_request

datatype 'v arrival = Arrives chance http_request demand | Confirms bool "'v confirmation_task"

datatype 'v answer =
    Assessed "'v assess_response"
  | ReplyChecked assess_output_response
  | Chatted "'v chat_response"
  | ToolAnswered tool_response
  | Informed
  | Unprocessable

section \<open>The request models\<close>

definition valid_output_request :: "string \<Rightarrow> string option \<Rightarrow> bool" where
  "valid_output_request reply system_prompt \<longleftrightarrow> reply \<noteq> [] \<and> length reply \<le> 50000
     \<and> (case system_prompt of None \<Rightarrow> True | Some s \<Rightarrow> length s \<le> 20000)"

definition valid_policy_content :: "string \<Rightarrow> bool" where
  "valid_policy_content content \<longleftrightarrow> content \<noteq> [] \<and> length content \<le> 1000000"

definition valid_rollback_request :: "string \<Rightarrow> bool" where
  "valid_rollback_request version \<longleftrightarrow> version \<noteq> [] \<and> length version \<le> 255"

definition valid_resolve_request :: "string \<Rightarrow> bool" where
  "valid_resolve_request outcome \<longleftrightarrow> outcome = ''APPROVED'' \<or> outcome = ''REJECTED''"

fun valid_demand :: "(json \<Rightarrow> string) \<Rightarrow> demand \<Rightarrow> bool" where
  "valid_demand dumps (AssessPrompt q) = valid_assess_request q"
| "valid_demand dumps (AssessReply reply sp) = valid_output_request reply sp"
| "valid_demand dumps (ChatThrough q) = valid_chat_request q"
| "valid_demand dumps (CallTool q) = valid_tool_request dumps q"
| "valid_demand dumps (Operate (TryPolicy c)) = valid_policy_content c"
| "valid_demand dumps (Operate (DeployPolicy c)) = valid_policy_content c"
| "valid_demand dumps (Operate (RollbackPolicy v)) = valid_rollback_request v"
| "valid_demand dumps (Operate (ResolveReview i v)) = valid_resolve_request v"
| "valid_demand dumps _ = True"

section \<open>The step relation\<close>

definition informed :: "('e, 'a) res \<times> 's \<Rightarrow> ('e, 'v answer) res \<times> 's" where
  "informed m = map_prod (map_sum id (\<lambda>_. Informed)) id m"

inductive api_step ::
  "('v, 'c, 'l, 'j, 'w, 'r, 'q) services \<Rightarrow> ('c, 'l, 'j, 'w, 'r, 'q) gateway \<Rightarrow> 'v arrival
   \<Rightarrow> (api_error, 'v answer) res \<Rightarrow> ('c, 'l, 'j, 'w, 'r, 'q) gateway \<Rightarrow> bool"
  for X :: "('v, 'c, 'l, 'j, 'w, 'r, 'q) services" where
  invalid: "\<not> valid_demand (sx_dumps X) d \<Longrightarrow> api_step X g (Arrives h req d) (Inr Unprocessable) g"
| assess: "valid_assess_request q \<Longrightarrow> assess_prompt X h req q g = (r, g')
    \<Longrightarrow> api_step X g (Arrives h req (AssessPrompt q)) (map_sum id Assessed r) g'"
| check: "valid_output_request reply sp \<Longrightarrow> assess_output_endpoint X h req reply sp g = (r, g')
    \<Longrightarrow> api_step X g (Arrives h req (AssessReply reply sp)) (map_sum id ReplyChecked r) g'"
| chat: "valid_chat_request q \<Longrightarrow> gateway_chat X h req q g = (r, g')
    \<Longrightarrow> api_step X g (Arrives h req (ChatThrough q)) (map_sum id Chatted r) g'"
| tool: "valid_tool_request (sx_dumps X) q \<Longrightarrow> tools_call X h req q g = (r, g')
    \<Longrightarrow> api_step X g (Arrives h req (CallTool q)) (map_sum id ToolAnswered r) g'"
| identity: "informed (whoami X h req g) = (r, g') \<Longrightarrow> api_step X g (Arrives h req AskIdentity) r g'"
| privacy: "informed (privacy_settings X h req t g) = (r, g') \<Longrightarrow> api_step X g (Arrives h req (AskPrivacy t)) r g'"
| protection: "informed (protection_settings X h req t g) = (r, g') \<Longrightarrow> api_step X g (Arrives h req (AskProtection t)) r g'"
| feed: "informed (activity_feed X h req t n e g) = (r, g') \<Longrightarrow> api_step X g (Arrives h req (AskFeed t n e)) r g'"
| trace: "informed (activity_trace X h req t i g) = (r, g') \<Longrightarrow> api_step X g (Arrives h req (AskTrace t i)) r g'"
| review: "informed (get_review_status X h req i g) = (r, g') \<Longrightarrow> api_step X g (Arrives h req (AskReview i)) r g'"
| benchmark: "informed (benchmarks X h fmt fs req g) = (r, g') \<Longrightarrow> api_step X g (Arrives h req (AskBenchmarks fmt fs)) r g'"
| operate: "valid_demand (sx_dumps X) (Operate o') \<Longrightarrow> operator_state X h req o' g = (e, g')
    \<Longrightarrow> api_step X g (Arrives h req (Operate o')) (case e of None \<Rightarrow> Inr Informed | Some err \<Rightarrow> Inl err) g'"
| confirm: "api_step X g (Confirms b t) (Inr Informed) (run_background X b (Some t) g)"

inductive_cases confirm_step [elim!]: "api_step X g (Confirms b t) r g'"
inductive_cases arrival_step: "api_step X g (Arrives h req d) r g'"

text \<open>The same step computed.\<close>

fun serve ::
  "('v, 'c, 'l, 'j, 'w, 'r, 'q) services \<Rightarrow> 'v arrival \<Rightarrow> ('c, 'l, 'j, 'w, 'r, 'q) gateway
   \<Rightarrow> (api_error, 'v answer) res \<times> ('c, 'l, 'j, 'w, 'r, 'q) gateway" where
  "serve X (Confirms b t) g = (Inr Informed, run_background X b (Some t) g)"
| "serve X (Arrives h req d) g =
     (if \<not> valid_demand (sx_dumps X) d then (Inr Unprocessable, g)
      else case d of
        AssessPrompt q \<Rightarrow> map_prod (map_sum id Assessed) id (assess_prompt X h req q g)
      | AssessReply reply sp \<Rightarrow> map_prod (map_sum id ReplyChecked) id (assess_output_endpoint X h req reply sp g)
      | ChatThrough q \<Rightarrow> map_prod (map_sum id Chatted) id (gateway_chat X h req q g)
      | CallTool q \<Rightarrow> map_prod (map_sum id ToolAnswered) id (tools_call X h req q g)
      | AskIdentity \<Rightarrow> informed (whoami X h req g)
      | AskPrivacy t \<Rightarrow> informed (privacy_settings X h req t g)
      | AskProtection t \<Rightarrow> informed (protection_settings X h req t g)
      | AskFeed t n e \<Rightarrow> informed (activity_feed X h req t n e g)
      | AskTrace t i \<Rightarrow> informed (activity_trace X h req t i g)
      | AskReview i \<Rightarrow> informed (get_review_status X h req i g)
      | AskBenchmarks fmt fs \<Rightarrow> informed (benchmarks X h fmt fs req g)
      | Operate o' \<Rightarrow> map_prod (\<lambda>e. case e of None \<Rightarrow> Inr Informed | Some err \<Rightarrow> Inl err) id (operator_state X h req o' g))"

text \<open>A history: each arrival with its answer, oldest first.\<close>

type_synonym 'v history = "('v arrival \<times> (api_error, 'v answer) res) list"

inductive api_run ::
  "('v, 'c, 'l, 'j, 'w, 'r, 'q) services \<Rightarrow> ('c, 'l, 'j, 'w, 'r, 'q) gateway \<Rightarrow> 'v history
   \<Rightarrow> ('c, 'l, 'j, 'w, 'r, 'q) gateway \<Rightarrow> bool"
  for X :: "('v, 'c, 'l, 'j, 'w, 'r, 'q) services" where
  nothing_yet: "api_run X g [] g"
| one_more: "api_run X g hist g1 \<Longrightarrow> api_step X g1 a r g2 \<Longrightarrow> api_run X g (hist @ [(a, r)]) g2"

fun serve_all ::
  "('v, 'c, 'l, 'j, 'w, 'r, 'q) services \<Rightarrow> 'v arrival list \<Rightarrow> ('c, 'l, 'j, 'w, 'r, 'q) gateway
   \<Rightarrow> 'v history \<times> ('c, 'l, 'j, 'w, 'r, 'q) gateway" where
  "serve_all X [] g = ([], g)"
| "serve_all X (a # as) g =
     (let (r, g1) = serve X a g; (hist, g2) = serve_all X as g1 in ((a, r) # hist, g2))"

section \<open>The relation and the function\<close>

lemma api_step_serve: "api_step X g a r g' \<longleftrightarrow> serve X a g = (r, g')"
proof
  assume "api_step X g a r g'"
  then show "serve X a g = (r, g')" by cases (simp_all add: map_prod_def)
next
  assume s: "serve X a g = (r, g')"
  show "api_step X g a r g'"
  proof (cases a)
    case (Confirms b t)
    with s show ?thesis by (auto intro: api_step.confirm)
  next
    case (Arrives h req d)
    show ?thesis
    proof (cases "valid_demand (sx_dumps X) d")
      case False
      with s Arrives show ?thesis by (auto intro: api_step.invalid)
    next
      case True
      with s Arrives show ?thesis
        by (cases d) (auto simp: map_prod_def intro: api_step.intros split: prod.splits)
    qed
  qed
qed

lemma api_step_total: "\<exists>r g'. api_step X g a r g'"
  unfolding api_step_serve by (cases "serve X a g") blast

lemma api_run_append:
  assumes "api_run X g1 hist' g2" and "api_run X g hist g1"
  shows "api_run X g (hist @ hist') g2"
  using assms
proof (induction arbitrary: hist)
  case (one_more g1 hist' g2 a r g3)
  from one_more.IH [OF one_more.prems] one_more.hyps(2) show ?case
    unfolding append_assoc [symmetric] by (rule api_run.one_more)
qed simp

lemma serve_all_append:
  "serve_all X (as @ bs) g =
     (let (hist, g1) = serve_all X as g; (hist', g2) = serve_all X bs g1 in (hist @ hist', g2))"
  by (induction as arbitrary: g) (simp_all add: Let_def split_beta)

lemma serve_all_arrivals: "map fst (fst (serve_all X as g)) = as"
  by (induction as arbitrary: g) (simp_all add: Let_def split_beta)

text \<open>A run is what \<open>serve_all\<close> computes, so every invariant of the runs holds of it.\<close>

lemma api_run_serve_all: "api_run X g hist g' \<longleftrightarrow> serve_all X (map fst hist) g = (hist, g')"
proof
  assume "api_run X g hist g'"
  then show "serve_all X (map fst hist) g = (hist, g')"
    by induction (simp_all add: serve_all_append api_step_serve)
next
  have "serve_all X as g = (hist, g') \<Longrightarrow> api_run X g hist g'" for as
  proof (induction as arbitrary: g hist)
    case (Cons a as)
    obtain r g1 where s: "serve X a g = (r, g1)" by fastforce
    obtain hist1 g2 where "serve_all X as g1 = (hist1, g2)" by fastforce
    with Cons.prems s have h: "hist = [(a, r)] @ hist1" "serve_all X as g1 = (hist1, g')" by auto
    have "api_run X g [(a, r)] g1"
      using api_run.one_more [OF api_run.nothing_yet [of X g], of a r g1] s by (simp add: api_step_serve)
    with Cons.IH [OF h(2)] show ?case unfolding h(1) by (intro api_run_append)
  qed (auto intro: api_run.nothing_yet)
  then show "serve_all X (map fst hist) g = (hist, g') \<Longrightarrow> api_run X g hist g'" .
qed

lemma serve_all_run: "api_run X g (fst (serve_all X as g)) (snd (serve_all X as g))"
  by (simp add: api_run_serve_all serve_all_arrivals)

section \<open>What a step leaves alone\<close>

text \<open>An order on the states that every step moves up; a handler moves up when its parts do.\<close>

locale state_order =
  fixes le :: "'s \<Rightarrow> 's \<Rightarrow> bool"
  assumes le_refl: "le s s" and le_trans: "le s t \<Longrightarrow> le t u \<Longrightarrow> le s u"
begin

lemma le_and_then:
  assumes "le s (snd m)" and "\<And>a t. m = (Inr a, t) \<Longrightarrow> le t (snd (f a t))"
  shows "le s (snd (and_then m f))"
proof (cases m)
  case (Pair r t)
  with assms show ?thesis by (cases r) (auto simp: and_then_eqs intro: le_trans)
qed

lemma le_after: "le s t \<Longrightarrow> t = t' \<Longrightarrow> le s t'"
  by simp

end

text \<open>Who a token belongs to, the tenants, the policy that is enforced and the reviews that are resolved, once loaded.\<close>

definition settled_keys ::
  "('v, 'c, 'l, 'j, 'w, 'r, 'q) services \<Rightarrow> ('c, 'l, 'j, 'w, 'r, 'q) gateway \<Rightarrow> key_store" where
  "settled_keys X g = keys_load (sx_shw X) False (sx_key_file X) (gw_keys g)"

definition settled_tenants ::
  "('v, 'c, 'l, 'j, 'w, 'r, 'q) services \<Rightarrow> ('c, 'l, 'j, 'w, 'r, 'q) gateway \<Rightarrow> tenant_store" where
  "settled_tenants X g = tenants_load (sx_convs X) False (sx_tenant_file X) (gw_tenants g)"

definition enforced_policy ::
  "('v, 'c, 'l, 'j, 'w, 'r, 'q) services \<Rightarrow> ('c, 'l, 'j, 'w, 'r, 'q) gateway \<Rightarrow> store_ref" where
  "enforced_policy X g = load_ref (sx_shw X) (gw_policy g)"

definition resolution :: "queue_state \<Rightarrow> string \<Rightarrow> review_record option" where
  "resolution q rid =
     (case map_of (rq_records (snd (review_load False q))) rid of
        None \<Rightarrow> None | Some r \<Rightarrow> if rv_status r = ''PENDING'' then None else Some r)"

text \<open>\<open>ordinary X tools calls g g'\<close>: the trail has grown at its end; keys, tenants, policy and versions are what they were; no
  review was resolved; without \<open>tools\<close> the tools' world is untouched, and without \<open>calls\<close> nothing left for a
  provider and nothing was charged.\<close>

definition ordinary ::
  "('v, 'c, 'l, 'j, 'w, 'r, 'q) services \<Rightarrow> bool \<Rightarrow> bool \<Rightarrow> ('c, 'l, 'j, 'w, 'r, 'q) gateway
   \<Rightarrow> ('c, 'l, 'j, 'w, 'r, 'q) gateway \<Rightarrow> bool" where
  "ordinary X tools calls g g' \<longleftrightarrow>
     (\<forall>et. prefix (at_db (gw_trail g) et) (at_db (gw_trail g') et))
   \<and> prefix (at_jsonl (gw_trail g)) (at_jsonl (gw_trail g'))
   \<and> prefix (gw_calls g) (gw_calls g')
   \<and> settled_keys X g' = settled_keys X g \<and> settled_tenants X g' = settled_tenants X g
   \<and> enforced_policy X g' = enforced_policy X g \<and> gw_disk g' = gw_disk g
   \<and> resolution (gw_reviews g') \<subseteq>\<^sub>m resolution (gw_reviews g)
   \<and> (tools \<or> gw_world g' = gw_world g)
   \<and> (calls \<or> gw_calls g' = gw_calls g \<and> gw_quota g' = gw_quota g)"

interpretation ord: state_order "ordinary X tools calls" for X tools calls
  by unfold_locales (auto simp: ordinary_def intro: prefix_order.trans map_le_trans)

named_theorems ord_intros \<open>steps that move up\<close>

lemmas [ord_intros] = ord.le_refl ord.le_and_then

text \<open>A step that touches neither of these parts.\<close>

lemma ord_same:
  assumes "gw_trail g' = gw_trail g" "gw_calls g' = gw_calls g" "gw_keys g' = gw_keys g" "gw_policy g' = gw_policy g"
    "gw_disk g' = gw_disk g" "gw_reviews g' = gw_reviews g" "gw_world g' = gw_world g" "gw_quota g' = gw_quota g"
    "gw_tenants g' = gw_tenants g"
  shows "ordinary X tools calls g g'"
  using assms by (simp add: ordinary_def settled_keys_def settled_tenants_def enforced_policy_def)

lemma keys_load_idem [simp]: "keys_load shw False file (keys_load shw False file ks) = keys_load shw False file ks"
  by (auto simp: keys_load_def split: file_content.splits json.splits)

lemma tenants_load_idem [simp]: "tenants_load C False file (tenants_load C False file ts) = tenants_load C False file ts"
  by (simp add: tenants_load_def)

lemma load_ref_idem [simp]: "load_ref shw (load_ref shw r) = load_ref shw r"
  by (simp add: load_ref_def policy_load_loaded)

text \<open>Looking a tenant up loads the tenants and changes nothing else.\<close>

lemma ord_tenants:
  assumes "resolve_tenant (sx_convs X) (sx_tenant_file X) t (gw_tenants g) = (tc, ts)"
  shows "ordinary X tools calls g (g\<lparr>gw_tenants := ts\<rparr>)"
    and "ordinary X tools calls g (g\<lparr>gw_tenants := ts, gw_policy := load_ref (sx_shw X) (gw_policy g)\<rparr>)"
  using assms
  by (auto simp: ordinary_def settled_keys_def settled_tenants_def enforced_policy_def resolve_tenant_def Let_def)

lemma resolve_principal_settles:
  "keys_load shw False file (snd (resolve_principal shw sha file auth key ks)) = keys_load shw False file ks"
  by (auto simp: resolve_principal_def keys_lookup_def Let_def split: sum.splits option.splits)

lemma ord_authenticate [ord_intros]: "ordinary X tools calls g (snd (authenticate X req g))"
proof -
  let ?r = "resolve_principal (sx_shw X) (sx_sha X) (sx_key_file X) (hr_authorization req) None (gw_keys g)"
  have "snd (authenticate X req g) = g\<lparr>gw_keys := snd ?r\<rparr>"
    by (auto simp: authenticate_def split: prod.splits sum.splits auth_error.splits)
  then show ?thesis
    by (simp add: ordinary_def settled_keys_def settled_tenants_def enforced_policy_def resolve_principal_settles)
qed

lemma ord_rate [ord_intros]: "ordinary X tools calls g (snd (enforce_rate_limit X h req tc p g))"
  by (rule ord_same) (auto simp: enforce_rate_limit_def Let_def split: prod.splits)

lemma ord_reject [ord_intros]: "ordinary X tools calls g (snd (reject_suspended_and_rate_limit X h req p g))"
proof -
  obtain tc ts where t: "resolve_tenant (sx_convs X) (sx_tenant_file X) (pr_tenant p) (gw_tenants g) = (tc, ts)"
    by fastforce
  have "ordinary X tools calls g (g\<lparr>gw_tenants := ts\<rparr>)" by (rule ord_tenants(1) [OF t])
  then show ?thesis
    unfolding reject_suspended_and_rate_limit_def t Let_def prod.case
    by (auto intro!: ord_intros intro: ord.le_trans [OF _ ord_rate] split: if_split)
qed

lemma ord_admit [ord_intros]: "ordinary X tools calls g (snd (admit X h req g))"
  unfolding admit_def by (auto intro!: ord_intros split: if_split)

lemma ord_internal [ord_intros]: "ordinary X tools calls g (snd (require_internal X h req g))"
  unfolding require_internal_def by (auto intro!: ord_intros split: if_split)

lemma db_write_grows: "prefix (db et) (db_write dumps e entry db et)"
  by (auto simp: db_write_def split: option.splits)

lemma emit_record_grows:
  "prefix (at_db t et) (at_db (snd (emit_record S dumps w entry t)) et)"
  "prefix (at_jsonl t) (at_jsonl (snd (emit_record S dumps w entry t)))"
  by (auto simp: emit_record_def mirror_to_sqlite_def Let_def db_write_grows)

lemma ord_write [ord_intros]: "ordinary X tools calls g (snd (write_record X h e g))"
  by (auto simp: ordinary_def write_record_def settled_keys_def settled_tenants_def enforced_policy_def emit_record_grows split: prod.splits)
     (metis emit_record_grows snd_conv)+

lemma snd_write_audit:
  "snd (write_audit_or_fail X h e g) = snd (write_record X h e g)"
  "snd (write_audit_bare X h e g) = snd (write_record X h e g)"
  by (auto simp: write_audit_or_fail_def write_audit_bare_def split: prod.splits sum.splits audit_error.splits)

lemma ord_audit [ord_intros]:
  "ordinary X tools calls g (snd (write_audit_or_fail X h e g))"
  "ordinary X tools calls g (snd (write_audit_bare X h e g))"
  by (simp_all add: snd_write_audit ord_write)

lemma ord_decide [ord_intros]: "ordinary X tools calls g (snd (decide_input X h p tc prompt g))"
  by (auto simp: ordinary_def decide_input_def settled_keys_def settled_tenants_def enforced_policy_def stores_after_decision_def Let_def
      split: prod.splits option.splits)

lemma ord_guard [ord_intros]: "ordinary X tools calls g (snd (guard_output X h reply sp tc g))"
  by (rule ord_same) (auto simp: guard_output_def Let_def split: prod.splits option.splits)

lemma ord_combined [ord_intros]: "ordinary X tools calls g (snd (combined_output X h q d g))"
  unfolding combined_output_def by (auto intro!: ord_intros split: option.split if_split)

lemma ord_record [ord_intros]: "ordinary X tools calls g (snd (record_assessment X h p i e out g))"
  unfolding record_assessment_def by (auto intro!: ord_intros split: option.split)

lemma review_load_idem [simp]: "review_load False (review_load False q) = review_load False q"
  by simp

lemma enqueue_resolution:
  "resolution (snd (enqueue_review u now ok reason cap risk tenant hash i q)) \<subseteq>\<^sub>m resolution q"
  by (auto simp: enqueue_review_def review_save_def put_record_def resolution_def map_le_def map_of_od_set Let_def
      split: option.splits if_splits)

lemma ord_reviews:
  assumes "resolution q \<subseteq>\<^sub>m resolution (gw_reviews g)"
  shows "ordinary X tools calls g (g\<lparr>gw_reviews := q\<rparr>)"
  using assms by (simp add: ordinary_def settled_keys_def settled_tenants_def enforced_policy_def)

lemma ord_queue [ord_intros]: "ordinary X tools calls g (snd (queue_for_review X h p i d reason risk hash g))"
proof -
  let ?q = "enqueue_review (ch_review_uuid h) (ch_iso_now h) (ch_review_saved h) reason (pr_capability p) risk
     (pr_tenant p) hash i (gw_reviews g)"
  have "snd (queue_for_review X h p i d reason risk hash g) = (if d \<noteq> ''REVIEW'' then g else g\<lparr>gw_reviews := snd ?q\<rparr>)"
    by (auto simp: queue_for_review_def split: prod.splits sum.splits)
  then show ?thesis
    using ord_reviews [OF enqueue_resolution] by (auto intro: ord.le_refl)
qed

lemma ord_quota [ord_intros]: "ordinary X tools True g (snd (check_quota X h p tc g))"
  by (auto simp: ordinary_def check_quota_def settled_keys_def settled_tenants_def enforced_policy_def Let_def split: prod.splits)

lemma ord_guard_prompt [ord_intros]: "ordinary X tools calls g (snd (guard_prompt X h p tc i prompt g))"
  unfolding guard_prompt_def Let_def by (auto intro!: ord_intros)

lemma ord_call [ord_intros]: "ordinary X tools True g (snd (call_provider h k prov messages model g))"
  by (auto simp: ordinary_def call_provider_def settled_keys_def settled_tenants_def enforced_policy_def split: sum.splits)

lemma ord_try_providers [ord_intros]:
  "ordinary X tools True g (snd (try_providers X h p i model messages k names e g))"
proof (induction names arbitrary: k e g)
  case Nil
  show ?case by (simp add: ord.le_refl)
next
  case (Cons name names)
  show ?case
  proof (cases "get_provider (se_llm (sx_settings X)) name")
    case None
    then show ?thesis by (simp add: ord.le_refl Cons.IH)
  next
    case (Some prov)
    let ?m = "if k = 0 then model else None"
    obtain a g1 where c: "call_provider h k prov messages ?m g = (a, g1)" by fastforce
    have called: "ordinary X tools True g g1" using ord_call [of X tools g h k prov messages ?m] c by simp
    have rest: "ordinary X tools True g (snd (and_then (write_audit_bare X h entry g1)
        (\<lambda>_ g2. try_providers X h p i model messages k' names e' g2)))" for entry k' e'
      by (rule ord.le_trans [OF called]) (auto intro!: ord_intros Cons.IH)
    show ?thesis
      by (simp add: Some c Let_def called rest split: attempt.split llm_failure.split)
  qed
qed

lemma ord_guard_completion [ord_intros]: "ordinary X tools calls g (snd (guard_completion X h content sp tc g))"
  unfolding guard_completion_def by (auto intro!: ord_intros split: json.split)

lemma ord_account [ord_intros]: "ordinary X tools True g (snd (account_tokens X h tenant usage g))"
  by (auto simp: ordinary_def account_tokens_def settled_keys_def settled_tenants_def enforced_policy_def split: sum.splits quota_error.splits)

lemma ord_record_call [ord_intros]: "ordinary X tools True g (snd (record_call X h p i used r lat out d g))"
  unfolding record_call_def by (auto intro!: ord_intros)

lemma ord_complete [ord_intros]: "ordinary X tools True g (snd (complete_call X h p tc i q v details call g))"
  unfolding complete_call_def Let_def by (auto intro!: ord_intros split: prod.split if_split)

lemma ord_assess: "ordinary X tools calls g (snd (assess_prompt X h req q g))"
  unfolding assess_prompt_def Let_def by (auto intro!: ord_intros split: prod.split)

lemma ord_assess_output: "ordinary X tools calls g (snd (assess_output_endpoint X h req reply sp g))"
  unfolding assess_output_endpoint_def Let_def by (auto intro!: ord_intros split: prod.split)

lemma ord_chat: "ordinary X tools True g (snd (gateway_chat X h req q g))"
  unfolding gateway_chat_def Let_def by (auto intro!: ord_intros split: prod.split if_split)

lemma ord_tool_events [ord_intros]: "ordinary X tools calls g (snd (record_tool_events X h evs g))"
proof (induction evs arbitrary: g)
  case (Cons ev evs)
  show ?case by (auto intro!: ord_intros Cons.IH)
qed (simp add: ord.le_refl)

lemma ord_run_tool [ord_intros]: "ordinary X True calls g (snd (run_tool X h cap name args tenant i g))"
proof -
  obtain result w evs where e: "execute_tool (sx_registry X) cap name args tenant i (gw_world g, []) = (result, w, evs)"
    by (metis surj_pair)
  have "ordinary X True calls g (g\<lparr>gw_world := w\<rparr>)"
    by (simp add: ordinary_def settled_keys_def settled_tenants_def enforced_policy_def)
  then show ?thesis
    unfolding run_tool_def e Let_def prod.case by (rule ord.le_trans) (auto intro!: ord_intros)
qed

lemma ord_tools_call: "ordinary X True calls g (snd (tools_call X h req q g))"
  unfolding tools_call_def Let_def by (auto intro!: ord_intros split: prod.split)

lemma snd_informed [simp]: "snd (informed m) = snd m"
  by (simp add: informed_def)

lemma ord_loaded_reviews: "ordinary X tools calls g (g\<lparr>gw_reviews := review_load False (gw_reviews g)\<rparr>)"
  by (rule ord_reviews) (simp add: map_le_def resolution_def)

lemma ord_whoami: "ordinary X tools calls g (snd (whoami X h req g))"
  unfolding whoami_def by (auto intro!: ord_intros split: if_split)

lemma ord_privacy: "ordinary X tools calls g (snd (privacy_settings X h req t g))"
  unfolding privacy_settings_def by (auto intro!: ord_intros ord_tenants(1) split: prod.split if_split)

lemma ord_protection: "ordinary X tools calls g (snd (protection_settings X h req t g))"
  unfolding protection_settings_def Let_def by (auto intro!: ord_intros ord_tenants(2) split: prod.split)

lemma ord_readers:
  "ordinary X tools calls g (snd (activity_feed X h req t n e g))"
  "ordinary X tools calls g (snd (activity_trace X h req t i g))"
  "ordinary X tools calls g (snd (benchmarks X h fmt fs req g))"
  unfolding activity_feed_def activity_trace_def benchmarks_def by (auto intro!: ord_intros split: prod.split)

lemma ord_review_status: "ordinary X tools calls g (snd (get_review_status X h req i g))"
  unfolding get_review_status_def get_review_def Let_def by (auto intro!: ord_intros ord_loaded_reviews)

lemma ord_background: "ordinary X tools calls g (run_background X b t g)"
  by (rule ord_same) (auto simp: run_background_def split: option.split)

text \<open>An operator's request is an ordinary step unless it deploys, rolls back or resolves.\<close>

fun administers :: "operator_request \<Rightarrow> bool" where
  "administers (DeployPolicy c) = True"
| "administers (RollbackPolicy v) = True"
| "administers (ResolveReview i v) = True"
| "administers _ = False"

lemma ord_flush [ord_intros]: "ordinary X tools calls g (g\<lparr>gw_risk := rk\<rparr>)"
  by (rule ord_same) simp_all

lemma ord_operator:
  assumes "\<not> administers d"
  shows "ordinary X tools calls g (snd (operator_state X h req d g))"
  using assms
  by (cases d)
     (auto simp: operator_defs list_pending_reviews_def Let_def intro!: ord_intros ord_loaded_reviews split: prod.split)


section \<open>Who a caller is\<close>

definition caller ::
  "('v, 'c, 'l, 'j, 'w, 'r, 'q) services \<Rightarrow> ('c, 'l, 'j, 'w, 'r, 'q) gateway \<Rightarrow> http_request \<Rightarrow> principal option" where
  "caller X g req = (case fst (authenticate X req g) of Inl _ \<Rightarrow> None | Inr p \<Rightarrow> Some p)"

lemma resolve_principal_settled:
  "fst (resolve_principal shw sha file auth key (keys_load shw False file ks)) = fst (resolve_principal shw sha file auth key ks)"
  by (simp add: resolve_principal_def keys_lookup_def Let_def split: sum.splits option.splits)

lemma caller_settled: "settled_keys X g' = settled_keys X g \<Longrightarrow> caller X g' req = caller X g req"
proof -
  assume s: "settled_keys X g' = settled_keys X g"
  have by_keys: "fst (authenticate X req g1) = (case fst (resolve_principal (sx_shw X) (sx_sha X) (sx_key_file X) (hr_authorization req)
      None (settled_keys X g1)) of Inl CompareTypeError \<Rightarrow> Inl (Unhandled ''TypeError'') | Inr p \<Rightarrow> Inr p)"
    for g1 :: "('b, 'c, 'd, 'e, 'f, 'g) gateway"
    unfolding settled_keys_def resolve_principal_settled
    by (simp add: authenticate_def split: prod.splits sum.splits auth_error.splits)
  show ?thesis unfolding caller_def by_keys s ..
qed

lemma require_internal_caller:
  "require_internal X h req g = (Inr p, g1) \<Longrightarrow> caller X g req = Some p \<and> pr_capability p = CAPABILITY_INTERNAL"
  unfolding require_internal_def caller_def by (auto split: if_splits)

section \<open>What every step does\<close>

text \<open>\<open>lasting\<close>: what holds of every step, an operator's too.\<close>

definition lasting ::
  "('v, 'c, 'l, 'j, 'w, 'r, 'q) services \<Rightarrow> ('c, 'l, 'j, 'w, 'r, 'q) gateway \<Rightarrow> ('c, 'l, 'j, 'w, 'r, 'q) gateway \<Rightarrow> bool" where
  "lasting X g g' \<longleftrightarrow>
     (\<forall>et. prefix (at_db (gw_trail g) et) (at_db (gw_trail g') et))
   \<and> prefix (at_jsonl (gw_trail g)) (at_jsonl (gw_trail g'))
   \<and> prefix (gw_calls g) (gw_calls g')
   \<and> settled_keys X g' = settled_keys X g \<and> settled_tenants X g' = settled_tenants X g
   \<and> version_names (gw_disk g) \<subseteq> version_names (gw_disk g')"

interpretation lst: state_order "lasting X" for X
  by unfold_locales (auto simp: lasting_def intro: prefix_order.trans)

lemma ordinary_lasting: "ordinary X tools calls g g' \<Longrightarrow> lasting X g g'"
  by (simp add: ordinary_def lasting_def)

text \<open>The three requests of an operator that change what others meet: the part of the state they write, and
  nothing of it for another caller.\<close>

definition operator_gap ::
  "('c, 'l, 'j, 'w, 'r, 'q) gateway \<Rightarrow> ('c, 'l, 'j, 'w, 'r, 'q) gateway \<Rightarrow> ('c, 'l, 'j, 'w, 'r, 'q) gateway" where
  "operator_gap g g' = g'\<lparr>gw_disk := gw_disk g, gw_policy := gw_policy g\<rparr>"

text \<open>Behind the operators' gate.\<close>

lemma internal_cases:
  assumes "and_then (require_internal X h req g) body = (r, g')"
  obtains (refused) "ordinary X False False g g'"
    | (admitted) p g1 where "caller X g req = Some p" "pr_capability p = CAPABILITY_INTERNAL" "ordinary X False False g g1"
        "body p g1 = (r, g')"
  using assms
proof (cases rule: and_then_cases)
  case (raised e)
  with ord_internal [of X False False g h req] show ?thesis by (intro refused) simp
next
  case (continued p g1)
  with ord_internal [of X False False g h req] require_internal_caller [OF continued(1)] show ?thesis
    by (intro admitted) auto
qed

text \<open>The two requests that write the live policy.\<close>

definition policy_written ::
  "('v, 'c, 'l, 'j, 'w, 'r, 'q) services \<Rightarrow> ('c, 'l, 'j, 'w, 'r, 'q) gateway \<Rightarrow> ('c, 'l, 'j, 'w, 'r, 'q) gateway \<Rightarrow> bool" where
  "policy_written X g g' \<longleftrightarrow>
     lasting X g g' \<and> resolution (gw_reviews g') \<subseteq>\<^sub>m resolution (gw_reviews g) \<and> gw_world g' = gw_world g
     \<and> gw_calls g' = gw_calls g \<and> gw_quota g' = gw_quota g"

lemma with_disk_written:
  assumes "ordinary X False False g g1" and "version_names (gw_disk g1) \<subseteq> version_names (fst ds)"
  shows "policy_written X g (with_disk X ds g1)"
proof -
  have "lasting X g1 (with_disk X ds g1)"
    using assms(2) by (simp add: with_disk_def lasting_def settled_keys_def settled_tenants_def)
  with lst.le_trans [OF ordinary_lasting [OF assms(1)]] assms(1) show ?thesis
    by (simp add: policy_written_def with_disk_def ordinary_def)
qed

lemma deploy_step:
  assumes "deploy_policy_endpoint X h req c g = (r, g')"
  obtains "ordinary X False False g g'"
    | p where "caller X g req = Some p" "pr_capability p = CAPABILITY_INTERNAL" "policy_written X g g'"
  using assms [unfolded deploy_policy_endpoint_def]
proof (cases rule: internal_cases)
  case (admitted p g1)
  obtain x disk' st' where d: "deploy_policy (sx_shw X) (sx_sha X) (sx_parse_policy X) (sx_policy_path X) (ch_disk h)
      c (gw_disk g1) (snd (gw_policy g1)) = (x, disk', st')" by (metis surj_pair)
  with admitted(4) have "g' = g1 \<or> g' = with_disk X (disk', st') g1" by (auto simp: Let_def split: if_splits)
  with with_disk_written [OF admitted(3)] deploy_names [OF d] admitted(1-3) that show ?thesis by force
qed

lemma rollback_step:
  assumes "rollback_policy_endpoint X h req v g = (r, g')"
  obtains "ordinary X False False g g'"
    | p where "caller X g req = Some p" "pr_capability p = CAPABILITY_INTERNAL" "policy_written X g g'"
  using assms [unfolded rollback_policy_endpoint_def]
proof (cases rule: internal_cases)
  case (admitted p g1)
  obtain x disk' st' where d: "rollback_to (sx_shw X) (sx_sha X) (sx_parse_policy X) (sx_policy_path X) (ch_disk h)
      v (gw_disk g1) (snd (gw_policy g1)) = (x, disk', st')" by (metis surj_pair)
  with admitted(4) have "g' = with_disk X (disk', st') g1" by (auto simp: Let_def)
  with with_disk_written [OF admitted(3)] rollback_names [OF d] admitted(1,2) that(2) show ?thesis by force
qed

text \<open>A resolution that was not there before is the one this request asked for, in the name of its caller.\<close>

definition resolved_by :: "chance \<Rightarrow> principal \<Rightarrow> string \<Rightarrow> review_record \<Rightarrow> bool" where
  "resolved_by h p outcome r \<longleftrightarrow> rv_status r = outcome \<and> rv_reviewer r = Some (pr_key_id p)
     \<and> rv_resolved_at r = Some (ch_iso_now h) \<and> rv_final_decision r = resolution_to_decision outcome"

lemma resolve_resolution:
  assumes "resolution (snd (resolve_review (ch_iso_now h) ok rid outcome (pr_key_id p) q)) i = Some r"
    and "resolution q i \<noteq> Some r"
  shows "i = rid \<and> resolved_by h p outcome r"
  using assms
  by (auto simp: resolve_review_def review_save_def put_record_def resolution_def resolved_by_def map_of_od_set Let_def
      split: option.splits if_splits)

lemma resolve_step:
  assumes "resolve_review_endpoint X h req rid outcome g = (r, g')"
  obtains "ordinary X False False g g'"
    | p g1 q where "caller X g req = Some p" "pr_capability p = CAPABILITY_INTERNAL" "ordinary X False False g g1"
        "g' = g1\<lparr>gw_reviews := q\<rparr>"
        "\<And>i rec. resolution q i = Some rec \<Longrightarrow> resolution (gw_reviews g) i \<noteq> Some rec \<Longrightarrow> i = rid \<and> resolved_by h p outcome rec"
  using assms [unfolded resolve_review_endpoint_def]
proof (cases rule: internal_cases)
  case (admitted p g1)
  let ?q = "snd (resolve_review (ch_iso_now h) (ch_review_saved h) rid outcome (pr_key_id p) (gw_reviews g1))"
  have "g' = g1\<lparr>gw_reviews := ?q\<rparr>"
    using admitted(4) by (auto simp: Let_def split: prod.splits)
  moreover have "i = rid \<and> resolved_by h p outcome rec"
    if "resolution ?q i = Some rec" "resolution (gw_reviews g) i \<noteq> Some rec" for i rec
  proof -
    have "resolution (gw_reviews g1) i \<noteq> Some rec"
      using admitted(3) that(2) by (auto simp: ordinary_def map_le_def dom_def)
    with resolve_resolution that(1) show ?thesis by blast
  qed
  ultimately show ?thesis using admitted(1-3) that(2) by blast
qed

text \<open>Every step, once and for all.\<close>

lemma map_prod_eq: "map_prod f id m = (r, s) \<longleftrightarrow> (\<exists>a. m = (a, s) \<and> r = f a)"
  by (cases m) auto

lemma ord_of: "m = (r, g') \<Longrightarrow> ordinary X tools calls g (snd m) \<Longrightarrow> ordinary X tools calls g g'"
  by simp

lemma informed_of: "informed m = (r, g') \<Longrightarrow> ordinary X tools calls g (snd m) \<Longrightarrow> ordinary X tools calls g g'"
  by (auto simp: informed_def map_prod_eq)

definition writes_policy :: "'v arrival \<Rightarrow> bool" where
  "writes_policy a \<longleftrightarrow> (case a of
     Arrives h req (Operate (DeployPolicy c)) \<Rightarrow> True
   | Arrives h req (Operate (RollbackPolicy v)) \<Rightarrow> True
   | _ \<Rightarrow> False)"

definition by_operator ::
  "('v, 'c, 'l, 'j, 'w, 'r, 'q) services \<Rightarrow> ('c, 'l, 'j, 'w, 'r, 'q) gateway \<Rightarrow> 'v arrival \<Rightarrow> bool" where
  "by_operator X g a \<longleftrightarrow> (case a of
     Arrives h req d \<Rightarrow> (case caller X g req of None \<Rightarrow> False | Some p \<Rightarrow> pr_capability p = CAPABILITY_INTERNAL)
   | Confirms b t \<Rightarrow> False)"

definition resolves ::
  "('v, 'c, 'l, 'j, 'w, 'r, 'q) services \<Rightarrow> ('c, 'l, 'j, 'w, 'r, 'q) gateway \<Rightarrow> string \<Rightarrow> review_record \<Rightarrow> 'v arrival \<Rightarrow> bool" where
  "resolves X g rid rec a \<longleftrightarrow> (case a of
     Arrives h req (Operate (ResolveReview i outcome)) \<Rightarrow>
       i = rid \<and> (case caller X g req of None \<Rightarrow> False | Some p \<Rightarrow> pr_capability p = CAPABILITY_INTERNAL \<and> resolved_by h p outcome rec)
   | _ \<Rightarrow> False)"

definition asks_tool :: "'v arrival \<Rightarrow> bool" where
  "asks_tool a \<longleftrightarrow> (case a of Arrives h req (CallTool q) \<Rightarrow> True | _ \<Rightarrow> False)"

definition asks_chat :: "'v arrival \<Rightarrow> bool" where
  "asks_chat a \<longleftrightarrow> (case a of Arrives h req (ChatThrough q) \<Rightarrow> True | _ \<Rightarrow> False)"

lemmas arrival_defs = writes_policy_def by_operator_def resolves_def asks_tool_def asks_chat_def

text \<open>\<open>ordinary\<close> with what the arrival allows, or a policy written, or a review resolved.\<close>

lemma api_step_cases:
  assumes "api_step X g a r g'"
  obtains (plain) "ordinary X (asks_tool a) (asks_chat a) g g'"
    | (policy) "writes_policy a" "by_operator X g a" "policy_written X g g'"
    | (review) g1 q where "ordinary X False False g g1" "g' = g1\<lparr>gw_reviews := q\<rparr>"
        "\<And>i rec. resolution q i = Some rec \<Longrightarrow> resolution (gw_reviews g) i \<noteq> Some rec \<Longrightarrow> resolves X g i rec a"
proof (use assms in \<open>cases rule: api_step.cases\<close>)
  case (operate d h req e)
  show ?thesis
  proof (cases "administers d")
    case False
    from ord_operator [OF this, of X False False g h req] operate show ?thesis
      by (intro plain) (simp add: arrival_defs)
  next
    case True
    then show ?thesis
    proof (cases d)
      case (DeployPolicy c)
      with operate obtain r0 where "deploy_policy_endpoint X h req c g = (r0, g')" by (auto simp: map_prod_eq)
      then show ?thesis
        by (cases rule: deploy_step) (use operate DeployPolicy in \<open>auto simp: arrival_defs intro: plain policy\<close>)
    next
      case (RollbackPolicy v)
      with operate obtain r0 where "rollback_policy_endpoint X h req v g = (r0, g')" by (auto simp: map_prod_eq)
      then show ?thesis
        by (cases rule: rollback_step) (use operate RollbackPolicy in \<open>auto simp: arrival_defs intro: plain policy\<close>)
    next
      case (ResolveReview i v)
      with operate obtain r0 where "resolve_review_endpoint X h req i v g = (r0, g')" by (auto simp: map_prod_eq)
      then show ?thesis
      proof (cases rule: resolve_step)
        case 1
        with operate ResolveReview show ?thesis by (intro plain) (simp add: arrival_defs)
      next
        case (2 p g1 q)
        show ?thesis
          by (rule review [OF 2(3,4)]) (use 2(1,2,5) operate ResolveReview in \<open>auto simp: arrival_defs\<close>)
      qed
    qed simp_all
  qed
next
  case (confirm b t)
  with ord_background [of X False False g b "Some t"] show ?thesis by (intro plain) (simp add: arrival_defs)
qed (auto simp: arrival_defs intro!: plain intro: ord.le_refl
      elim: ord_of [OF _ ord_assess] ord_of [OF _ ord_assess_output] ord_of [OF _ ord_chat] ord_of [OF _ ord_tools_call]
        informed_of [OF _ ord_whoami] informed_of [OF _ ord_privacy] informed_of [OF _ ord_protection]
        informed_of [OF _ ord_readers(1)] informed_of [OF _ ord_readers(2)] informed_of [OF _ ord_readers(3)]
        informed_of [OF _ ord_review_status])

section \<open>Runs\<close>

lemma step_lasting: "api_step X g a r g' \<Longrightarrow> lasting X g g'"
proof (erule api_step_cases)
  fix g1 q assume "ordinary X False False g g1" "g' = g1\<lparr>gw_reviews := q\<rparr>"
  then show "lasting X g g'" by (auto simp: ordinary_def lasting_def settled_keys_def settled_tenants_def)
qed (auto simp: policy_written_def intro: ordinary_lasting)

lemma run_lasting: "api_run X g hist g' \<Longrightarrow> lasting X g g'"
  by (induction rule: api_run.induct) (auto intro: lst.le_refl lst.le_trans step_lasting)

lemma run_caller: "api_run X g hist g' \<Longrightarrow> caller X g' req = caller X g req"
  by (rule caller_settled) (drule run_lasting, simp add: lasting_def)

lemma by_operator_run: "api_run X g hist g' \<Longrightarrow> by_operator X g' a = by_operator X g a"
  by (simp add: by_operator_def run_caller split: arrival.split)

lemma resolves_run: "api_run X g hist g' \<Longrightarrow> resolves X g' rid rec a = resolves X g rid rec a"
  by (simp add: resolves_def run_caller split: arrival.split demand.split operator_request.split)

lemma run_policy:
  assumes "api_run X g hist g'" and "\<not> list_ex (\<lambda>(a, r). writes_policy a \<and> by_operator X g a) hist"
  shows "enforced_policy X g' = enforced_policy X g \<and> gw_disk g' = gw_disk g"
  using assms
proof (induction rule: api_run.induct)
  case (one_more g hist g1 a r g2)
  have no: "\<not> (writes_policy a \<and> by_operator X g1 a)"
    using one_more.prems by_operator_run [OF one_more.hyps(1)] by auto
  have "enforced_policy X g2 = enforced_policy X g1 \<and> gw_disk g2 = gw_disk g1"
    using one_more.hyps(2)
  proof (cases rule: api_step_cases)
    case (review g3 q)
    then show ?thesis by (simp add: ordinary_def enforced_policy_def)
  qed (use no in \<open>auto simp: ordinary_def\<close>)
  with one_more show ?case by simp
qed simp

lemma run_resolution:
  assumes "api_run X g hist g'" and "resolution (gw_reviews g') rid = Some rec" and "resolution (gw_reviews g) rid \<noteq> Some rec"
  shows "list_ex (\<lambda>(a, r). resolves X g rid rec a) hist"
  using assms
proof (induction rule: api_run.induct)
  case (one_more g hist g1 a r g2)
  show ?case
  proof (cases "resolution (gw_reviews g1) rid = Some rec")
    case True
    with one_more show ?thesis by simp
  next
    case False
    from one_more.hyps(2) have "resolves X g1 rid rec a"
    proof (cases rule: api_step_cases)
      case (review g3 q)
      with one_more.prems(1) False show ?thesis by simp
    qed (use one_more.prems(1) False in \<open>auto simp: ordinary_def policy_written_def map_le_def dom_def\<close>)
    with resolves_run [OF one_more.hyps(1)] show ?thesis by simp
  qed
qed simp

lemma run_calls:
  assumes "api_run X g hist g'" and "\<not> list_ex (\<lambda>(a, r). asks_chat a) hist"
  shows "gw_calls g' = gw_calls g \<and> gw_quota g' = gw_quota g"
  using assms
proof (induction rule: api_run.induct)
  case (one_more g hist g1 a r g2)
  from one_more.hyps(2) have "gw_calls g2 = gw_calls g1 \<and> gw_quota g2 = gw_quota g1"
    by (cases rule: api_step_cases) (use one_more.prems in \<open>auto simp: ordinary_def policy_written_def\<close>)
  with one_more show ?case by simp
qed simp

lemma arrivals_of:
  assumes "serve_all X as g = (hist, g')"
  shows "list_ex (\<lambda>(a, r). P a) hist \<longleftrightarrow> list_ex P as"
proof -
  have "as = map fst hist" using serve_all_arrivals [of X as g] assms by simp
  then show ?thesis by (induction hist arbitrary: as) auto
qed

text \<open>The answers after which a tool may have run: ALLOW, and the 500 of a call whose record or review was refused.\<close>

definition may_have_run :: "'v arrival \<times> (api_error, 'v answer) res \<Rightarrow> bool" where
  "may_have_run e \<longleftrightarrow> (case e of
     (Arrives h req (CallTool q), r) \<Rightarrow>
       (case r of Inl err \<Rightarrow> status_code err = 500
                | Inr (ToolAnswered v) \<Rightarrow> tv_decision v = ''ALLOW''
                | Inr _ \<Rightarrow> False)
   | _ \<Rightarrow> False)"

lemma refused_tool_world:
  assumes "tools_call X h req q g = (Inl e, g')" and "gw_world g' \<noteq> gw_world g"
  shows "status_code e = 500"
  using assms(1) [unfolded tools_call_def Let_def]
proof (cases rule: and_then_cases)
  case (raised e')
  with admit_protected(7) [OF raised(1)] assms(2) show ?thesis by simp
next
  case (continued pt g1)
  from continued(2) [unfolded case_prod_beta] show ?thesis
  proof (cases rule: and_then_cases)
    case (raised e')
    from raised(1) show ?thesis
    proof (cases rule: run_tool_run)
      case (1 ev result w)
      with raised(2) show ?thesis by (auto dest!: write_bare_status)
    qed
  next
    case t: (continued result g2)
    from t(2) show ?thesis by (cases rule: and_then_cases) (auto dest!: queue_status)
  qed
qed

lemma answered_tool_world:
  assumes "tools_call X h req q g = (Inr v, g')" and "tv_decision v \<noteq> ''ALLOW''"
  shows "gw_world g' = gw_world g"
  using assms(1)
proof (cases rule: tools_call_Inr)
  case (1 p tc g1 w risk g2 ev result)
  with assms(2) have "w = gw_world g1" by simp
  with queue_for_review_frame(6) [OF 1(8)] write_bare_frame [OF 1(7)] admit_protected(7) [OF 1(1)] show ?thesis by simp
qed

lemma step_world:
  assumes "api_step X g a r g'" and "\<not> may_have_run (a, r)"
  shows "gw_world g' = gw_world g"
proof (cases "asks_tool a")
  case False
  from assms(1) show ?thesis
    by (cases rule: api_step_cases) (use False in \<open>auto simp: ordinary_def policy_written_def\<close>)
next
  case True
  from assms(1) show ?thesis
  proof cases
    case (tool q h req r')
    with assms(2) show ?thesis
      by (cases r') (auto simp: may_have_run_def dest: refused_tool_world answered_tool_world)
  qed (use True in \<open>simp_all add: asks_tool_def\<close>)
qed

lemma run_world:
  assumes "api_run X g hist g'" and "\<not> list_ex may_have_run hist"
  shows "gw_world g' = gw_world g"
  using assms
proof (induction rule: api_run.induct)
  case (one_more g hist g1 a r g2)
  then show ?case using step_world [of X g1 a r g2] by simp
qed simp

section \<open>Properties\<close>

text \<open>Claim C10: whatever is asked of the service, and whoever asks: no row of the audit database and no line of the log is changed
  or lost, no version of the policy disappears, no call that left is forgotten, and every credential goes on standing for
  the same principal, until the process ends.\<close>

theorem history_is_never_rewritten:
  "case serve_all X as g of
     (hist, g') \<Rightarrow>
       prefix (at_db (gw_trail g) table) (at_db (gw_trail g') table)
     \<and> prefix (at_jsonl (gw_trail g)) (at_jsonl (gw_trail g'))
     \<and> prefix (gw_calls g) (gw_calls g')
     \<and> version_names (gw_disk g) \<subseteq> version_names (gw_disk g')
     \<and> caller X g' req = caller X g req"
proof (cases "serve_all X as g")
  case (Pair hist g')
  with serve_all_run [of X g as] have run: "api_run X g hist g'" by simp
  from run_lasting [OF run] run_caller [OF run] Pair show ?thesis by (simp add: lasting_def)
qed

text \<open>Claim C9: the policy that decides, and its versions on the disk, are at the end of a run what they were at its start unless
  one of the requests was a deployment or a rollback by a caller with the INTERNAL capability. A review is resolved at
  the end that was not before only if a caller with that capability asked for this outcome of this review, and the
  record carries the outcome, the key of that caller and the time of that request.\<close>

theorem changes_have_an_operator:
  "case serve_all X as g of
     (hist, g') \<Rightarrow>
       (if list_ex (\<lambda>a. writes_policy a \<and> by_operator X g a) as then True
        else enforced_policy X g' = enforced_policy X g \<and> gw_disk g' = gw_disk g)
     \<and> (case resolution (gw_reviews g') rid of
          None \<Rightarrow> True
        | Some rec \<Rightarrow>
            if resolution (gw_reviews g) rid = Some rec then True else list_ex (resolves X g rid rec) as)"
proof (cases "serve_all X as g")
  case (Pair hist g')
  with serve_all_run [of X g as] have run: "api_run X g hist g'" by simp
  from run_policy [OF run] run_resolution [OF run] show ?thesis
    unfolding Pair prod.case by (auto simp: arrivals_of [OF Pair] split: option.split)
qed

text \<open>The state of the tools changes over a run only if a call of a tool was answered ALLOW, or with the 500 that stands for
  a record or a review that could not be written; a request leaves for a provider and the token quota is charged only
  if a chat was asked for.\<close>

theorem effects_have_a_request:
  "case serve_all X as g of
     (hist, g') \<Rightarrow>
       (if list_ex may_have_run hist then True else gw_world g' = gw_world g)
     \<and> (if list_ex asks_chat as then True else gw_calls g' = gw_calls g \<and> gw_quota g' = gw_quota g)"
proof (cases "serve_all X as g")
  case (Pair hist g')
  with serve_all_run [of X g as] have run: "api_run X g hist g'" by simp
  from run_world [OF run] run_calls [OF run] arrivals_of [OF Pair] show ?thesis
    unfolding Pair prod.case by auto
qed

end
