(* ===== verification/Run_Record.thy ===== *)
theory Run_Record
  imports Gateway_Run
begin

text \<open>
  The audit database at the end of a run against the answers the callers got: which table an answer belongs to, which
  decision it carries, and that every answered request has its row, in the order of the answers.
\<close>

section \<open>What an answer claims, and where it is found\<close>

definition strict_audit :: "('v, 'c, 'l, 'j, 'w, 'r, 'q) services \<Rightarrow> bool" where
  "strict_audit X \<longleftrightarrow> as_sqlite_enabled (se_audit (sx_settings X)) \<and> as_read_from_sqlite (se_audit (sx_settings X))
     \<and> as_fails_closed (se_audit (sx_settings X))"

text \<open>The table an answer belongs to, and the decision it carries. A chat that was stopped before a call is an input
  assessment; one that called a provider is a gateway call.\<close>

fun decisions :: "'v answer \<Rightarrow> (string \<times> string) list" where
  "decisions (Assessed r) =
     (''input_assessment'', rsp_decision r)
     # (case rsp_output_decision r of None \<Rightarrow> [] | Some od \<Rightarrow> [(''output_assessment'', od)])"
| "decisions (ReplyChecked r) = [(''output_assessment'', aor_decision r)]"
| "decisions (Chatted r) =
     [(case gc_provider r of None \<Rightarrow> ''input_assessment'' | Some _ \<Rightarrow> ''gateway_call'', gc_decision r)]"
| "decisions (ToolAnswered r) = [(''tool_call'', tv_decision r)]"
| "decisions _ = []"

definition claimed ::
  "('v, 'c, 'l, 'j, 'w, 'r, 'q) services \<Rightarrow> string \<Rightarrow> 'v arrival \<times> (api_error, 'v answer) res \<Rightarrow> (json \<times> json) list" where
  "claimed X table e =
     (case e of
        (Arrives h req d, Inr answer) \<Rightarrow>
          map (\<lambda>(t, decision). (JStr decision, JStr (chat_id X h req))) (filter (\<lambda>(t, decision). t = table) (decisions answer))
      | _ \<Rightarrow> [])"

definition recorded :: "db_row list \<Rightarrow> (json \<times> json) list" where
  "recorded rows = map (\<lambda>row. (jget row ''decision'', jget row ''request_id'')) rows"

text \<open>Rows were added to a table, one of them with these two cells.\<close>

definition on_record ::
  "('c, 'l, 'j, 'w, 'r, 'q) gateway \<Rightarrow> ('c, 'l, 'j, 'w, 'r, 'q) gateway \<Rightarrow> string \<Rightarrow> string \<Rightarrow> string \<Rightarrow> bool" where
  "on_record g g' table d i \<longleftrightarrow>
     (\<exists>rows. at_db (gw_trail g') table = at_db (gw_trail g) table @ rows \<and> (JStr d, JStr i) \<in> set (recorded rows))"

lemma on_record_right:
  assumes "on_record g g1 table d i" and "lasting X g1 g2"
  shows "on_record g g2 table d i"
proof -
  from assms(2) obtain more' where "at_db (gw_trail g2) table = at_db (gw_trail g1) table @ more'"
    unfolding lasting_def prefix_def by blast
  with assms(1) show ?thesis by (fastforce simp: on_record_def recorded_def)
qed

lemma on_record_left:
  assumes "lasting X g g1" and "on_record g1 g2 table d i"
  shows "on_record g g2 table d i"
proof -
  from assms(1) obtain more' where "at_db (gw_trail g1) table = at_db (gw_trail g) table @ more'"
    unfolding lasting_def prefix_def by blast
  with assms(2) show ?thesis by (fastforce simp: on_record_def recorded_def)
qed

lemma on_record_row:
  assumes "at_db (gw_trail g') table = at_db (gw_trail g) table @ [row]"
    and "jget row ''decision'' = JStr d" and "jget row ''request_id'' = JStr i"
  shows "on_record g g' table d i"
  using assms by (auto simp: on_record_def recorded_def)

text \<open>A strict write of a record of one of the four tables.\<close>

lemma write_on_record:
  assumes "at_db (gw_trail g') = db_write dumps table e (at_db (gw_trail g))"
    and "table \<in> set [''input_assessment'', ''output_assessment'', ''gateway_call'', ''tool_call'']"
    and "jget e ''decision'' = JStr d" and "jget e ''request_id'' = JStr i"
  shows "on_record g g' table d i"
proof -
  obtain cols where cols: "map_of COLUMNS table = Some cols" "''decision'' \<in> set cols" "''request_id'' \<in> set cols"
    using assms(2) by (auto simp: columns_of)
  have "jget (coerce_row dumps cols e) ''decision'' = JStr d" "jget (coerce_row dumps cols e) ''request_id'' = JStr i"
    using row_cells [OF cols(1,2)] row_cells [OF cols(1,3)] assms(3,4) by (simp_all add: BOOL_COLUMNS_def)
  moreover have "at_db (gw_trail g') table = at_db (gw_trail g) table @ [coerce_row dumps cols e]"
    using assms(1) cols(1) by (simp add: db_write_def)
  ultimately show ?thesis by (blast intro: on_record_row)
qed

lemma audit_on_record:
  assumes "strict_audit X" and "write_audit_or_fail X h e g = (Inr u, g')"
    and "text_of (jget e ''event_type'') \<in> set [''input_assessment'', ''output_assessment'', ''gateway_call'', ''tool_call'']"
    and "jget e ''decision'' = JStr d" and "jget e ''request_id'' = JStr i"
  shows "on_record g g' (text_of (jget e ''event_type'')) d i"
  using write_on_record [OF write_audit_strict [of X h e g g'] assms(3-5)] assms(1,2) by (simp add: strict_audit_def)

lemma bare_on_record:
  assumes "strict_audit X" and "write_audit_bare X h e g = (Inr u, g')"
    and "text_of (jget e ''event_type'') \<in> set [''input_assessment'', ''output_assessment'', ''gateway_call'', ''tool_call'']"
    and "jget e ''decision'' = JStr d" and "jget e ''request_id'' = JStr i"
  shows "on_record g g' (text_of (jget e ''event_type'')) d i"
  using write_on_record [OF write_bare_strict [of X h e g u g'] assms(3-5)] assms(1,2) by (simp add: strict_audit_def)

lemma lasting_of: "m = (r, g') \<Longrightarrow> ordinary X tools calls g (snd m) \<Longrightarrow> lasting X g g'"
  by (auto dest: ordinary_lasting)

lemma assess_claims:
  assumes "strict_audit X" and "assess_prompt X h req q g = (Inr r, g')" and "(table, d) \<in> set (decisions (Assessed r))"
  shows "on_record g g' table d (chat_id X h req)"
  using assms(2)
proof (cases rule: assess_prompt_Inr)
  case (1 p tc g1 v g2 out g3 g4)
  let ?e = "log_event (ch_iso_now h) (sx_sha X) (pr_capability p) (ve_clean v) (ve_risk v) (rsp_decision r) (rsp_details r)"
  have "gw_trail g4 = gw_trail g"
    using admit_protected(2) [OF 1(1)] decide_input_Inr(3) [OF 1(2)] combined_output_frame(1) [OF 1(3)]
      queue_for_review_frame(1) [OF 1(4)] by simp
  note same = this
  have id: "jget ?e ''request_id'' = JStr (chat_id X h req)"
    using 1(8) by (simp add: log_event_simps final_details_identity chat_id_def)
  have s: "as_sqlite_enabled (se_audit (sx_settings X)) \<and> as_read_from_sqlite (se_audit (sx_settings X))"
      "as_fails_closed (se_audit (sx_settings X))"
    using assms(1) by (simp_all add: strict_audit_def)
  from assms(3) 1(9) consider (asked) "table = ''input_assessment''" "d = rsp_decision r"
    | (replied) msg dets where "table = ''output_assessment''" "out = Some (msg, d, dets)"
    by (auto split: option.splits)
  then show ?thesis
  proof cases
    case asked
    show ?thesis
    proof (rule record_assessment_rows [OF s refl 1(5)])
      fix row
      assume "at_db (gw_trail g') ''input_assessment'' = at_db (gw_trail g4) ''input_assessment'' @ [row]"
        and "\<And>c. c \<in> {''decision'', ''risk'', ''capability'', ''request_id'', ''prompt_hash''} \<Longrightarrow> jget row c = jget ?e c"
      then show ?thesis
        using asked same id by (intro on_record_row [of _ _ _ row]) (simp_all add: log_event_simps)
    qed
  next
    case replied
    show ?thesis
    proof (rule record_assessment_rows [OF s refl 1(5)])
      assume "case out of None \<Rightarrow> at_db (gw_trail g') ''output_assessment'' = at_db (gw_trail g4) ''output_assessment''
        | Some (msg, od, dets) \<Rightarrow> \<exists>row. at_db (gw_trail g') ''output_assessment'' = at_db (gw_trail g4) ''output_assessment'' @ [row]
          \<and> jget row ''decision'' = JStr od \<and> jget row ''request_id'' = JStr (resolve_request_id
             (se_request_id_max (sx_settings X)) (hr_request_id req) (ch_uuid h))"
      with replied same show ?thesis by (auto simp: chat_id_def intro: on_record_row)
    qed
  qed
qed

lemma output_claims:
  assumes "strict_audit X" and "assess_output_endpoint X h req reply sp g = (Inr r, g')"
  shows "on_record g g' ''output_assessment'' (aor_decision r) (chat_id X h req)"
proof -
  from assms(2) obtain p tc g1 g2 where a: "admit X h req g = (Inr (p, tc), g1)"
    and o: "guard_output X h reply sp (Some tc) g1 = (Inr (aor_decision r, aor_details r), g2)"
    and w: "write_audit_or_fail X h (log_output_event (ch_iso_now h) (sx_sha X) (pr_capability p) reply (aor_decision r)
        (output_dict (aor_details r)) (pr_tenant p) (chat_id X h req)) g2 = (Inr (), g')"
    unfolding assess_output_endpoint_def Let_def chat_id_def by (auto split: prod.splits)
  from audit_on_record [OF assms(1) w] have "on_record g2 g' ''output_assessment'' (aor_decision r) (chat_id X h req)"
    by (simp add: log_output_event_def jget_def text_of_def)
  then show ?thesis
    by (rule on_record_left [OF lst.le_trans [OF lasting_of [OF a ord_admit] lasting_of [OF o ord_guard]]])
qed

lemma tool_claims:
  assumes "strict_audit X" and "tools_call X h req q g = (Inr r, g')"
  shows "on_record g g' ''tool_call'' (tv_decision r) (chat_id X h req)"
  using assms(2)
proof (cases rule: tools_call_Inr)
  case (1 p tc g1 w risk g2 ev result)
  have "on_record (g1\<lparr>gw_world := w\<rparr>) g2 ''tool_call'' (tv_decision r) (chat_id X h req)"
    using bare_on_record [OF assms(1) 1(7)] 1(2,4,9) by (simp add: tool_record_cells chat_id_def)
  then have "on_record g1 g2 ''tool_call'' (tv_decision r) (chat_id X h req)"
    by (simp add: on_record_def)
  then show ?thesis
    by (rule on_record_left [OF lasting_of [OF 1(1) ord_admit] on_record_right [OF _ lasting_of [OF 1(8) ord_queue]]])
qed

lemma complete_claims:
  assumes "strict_audit X" and "complete_call X h p tc i q v details call g = (Inr r, g')"
  shows "on_record g g' ''gateway_call'' (gc_decision r) i" and "gc_provider r \<noteq> None"
proof -
  obtain used a lat where call: "call = (used, a, lat)" by (cases call)
  from assms(2) obtain out g1 g2 u where gc: "guard_completion X h (lr_content a) (cr_system_prompt q) tc g = (Inr out, g1)"
    and rec: "record_call X h p i used a lat out (gc_decision r) g1 = (Inr u, g2)" and g': "g2 = g'" and prov: "gc_provider r \<noteq> None"
    unfolding complete_call_def call prod.case Let_def by (auto split: if_splits)
  from rec obtain g3 g4 u3 u4 where o: "write_audit_or_fail X h (output_record X h p i out) g1 = (Inr u3, g3)"
    and w: "write_audit_bare X h (log_gateway_event (ch_iso_now h) (pr_capability p) used (lr_model a) True lat (gc_decision r)
        (lr_usage a) None (pr_tenant p) i) g3 = (Inr u4, g4)"
    and t: "account_tokens X h (pr_tenant p) (lr_usage a) g4 = (Inr u, g2)"
    unfolding record_call_def by auto
  from bare_on_record [OF assms(1) w] have "on_record g3 g4 ''gateway_call'' (gc_decision r) i"
    by (simp add: log_gateway_event_def jget_def text_of_def)
  then show "on_record g g' ''gateway_call'' (gc_decision r) i"
    using on_record_left [OF lst.le_trans [OF lasting_of [OF gc ord_guard_completion] lasting_of [OF o ord_audit(1)]]
        on_record_right [OF _ lasting_of [OF t ord_account]]] g' by blast
  show "gc_provider r \<noteq> None" by (rule prov)
qed

lemma chat_claims:
  assumes "strict_audit X" and "gateway_chat X h req q g = (Inr r, g')"
  shows "on_record g g' (case gc_provider r of None \<Rightarrow> ''input_assessment'' | Some _ \<Rightarrow> ''gateway_call'') (gc_decision r) (chat_id X h req)"
  using assms(2)
proof (cases rule: gateway_chat_cases)
  case (stopped p tc g1 g2 v rid details)
  from guard_prompt_Inr(3,4) [OF stopped(3)] obtain g3 where t: "gw_trail g3 = gw_trail g2"
    and w: "write_audit_or_fail X h (log_event (ch_iso_now h) (sx_sha X) (pr_capability p) (ve_clean v) (ve_risk v)
        (ve_decision v) details) g3 = (Inr (), g')"
    and de: "details = final_details (identity_details p (ve_reason v) (chat_id X h req) (ve_details v)) None rid" by blast
  from audit_on_record [OF assms(1) w] de have "on_record g3 g' ''input_assessment'' (ve_decision v) (chat_id X h req)"
    by (simp add: log_event_simps final_details_identity)
  with t have "on_record g2 g' ''input_assessment'' (ve_decision v) (chat_id X h req)" by (simp add: on_record_def)
  then have "on_record g g' ''input_assessment'' (ve_decision v) (chat_id X h req)"
    by (rule on_record_left [OF lst.le_trans [OF lasting_of [OF stopped(1) ord_admit] lasting_of [OF stopped(2) ord_quota]]])
  with stopped(5) show ?thesis by simp
next
  case (called p tc g1 g2 v rid details g3 call g4)
  have "lasting X g g4"
    using lasting_of [OF called(1) ord_admit] lasting_of [OF called(2) ord_quota] lasting_of [OF called(3) ord_guard_prompt]
      lasting_of [OF called(5) [unfolded forward_def] ord_try_providers] by (blast intro: lst.le_trans)
  from on_record_left [OF this complete_claims(1) [OF assms(1) called(6)]] complete_claims(2) [OF assms(1) called(6)]
  show ?thesis by auto
qed simp_all

lemma informed_answer: "informed m = (Inr answer, s) \<Longrightarrow> answer = Informed"
  by (cases m; cases "fst m") (auto simp: informed_def)

lemma answer_claims:
  assumes "strict_audit X" and "api_step X g (Arrives h req d) (Inr answer) g'" and "(table, x) \<in> set (decisions answer)"
  shows "on_record g g' table x (chat_id X h req)"
proof (use assms(2) in \<open>cases rule: api_step.cases\<close>)
  case (assess q r)
  then obtain v where v: "r = Inr v" "answer = Assessed v" by (cases r) simp_all
  show ?thesis by (rule assess_claims [OF assms(1)]) (use assess v assms(3) in simp_all)
next
  case (check reply sp r)
  then obtain v where v: "r = Inr v" "answer = ReplyChecked v" by (cases r) simp_all
  with assms(3) have "table = ''output_assessment''" "x = aor_decision v" by simp_all
  with output_claims [OF assms(1)] check v show ?thesis by simp
next
  case (chat q r)
  then obtain v where v: "r = Inr v" "answer = Chatted v" by (cases r) simp_all
  with assms(3) have "table = (case gc_provider v of None \<Rightarrow> ''input_assessment'' | Some _ \<Rightarrow> ''gateway_call'')" "x = gc_decision v"
    by simp_all
  with chat_claims [OF assms(1)] chat v show ?thesis by simp
next
  case (tool q r)
  then obtain v where v: "r = Inr v" "answer = ToolAnswered v" by (cases r) simp_all
  with assms(3) have "table = ''tool_call''" "x = tv_decision v" by simp_all
  with tool_claims [OF assms(1)] tool v show ?thesis by simp
qed (use assms(3) in \<open>auto dest!: informed_answer split: option.splits\<close>)

lemma claimed_cases:
  obtains "claimed X table e = []"
    | h req d answer x where "e = (Arrives h req d, Inr answer)" "(table, x) \<in> set (decisions answer)"
        "claimed X table e = [(JStr x, JStr (chat_id X h req))]"
proof -
  obtain a r where e: "e = (a, r)" by fastforce
  show thesis
  proof (cases "claimed X table e = []")
    case False
    then obtain h req d answer where a: "a = Arrives h req d" "r = Inr answer"
      by (cases a; cases r) (auto simp: claimed_def e)
    with False e that(2) show ?thesis
      by (cases answer) (auto simp: claimed_def split: if_splits option.splits)
  qed (rule that(1))
qed

lemma step_claims:
  assumes "strict_audit X" and "api_step X g a r g'"
  shows "\<exists>rows. at_db (gw_trail g') table = at_db (gw_trail g) table @ rows \<and> subseq (claimed X table (a, r)) (recorded rows)"
proof (cases rule: claimed_cases [of X table "(a, r)"])
  case 1
  with step_lasting [OF assms(2)] show ?thesis by (auto simp: lasting_def prefix_def)
next
  case (2 h req d answer x)
  with answer_claims [OF assms(1), of g h req d answer g' table x] assms(2) show ?thesis
    by (auto simp: on_record_def subseq_singleton_left)
qed

lemma run_claims:
  assumes "api_run X g hist g'" and "strict_audit X"
  shows "\<exists>rows. at_db (gw_trail g') table = at_db (gw_trail g) table @ rows
    \<and> subseq (concat (map (claimed X table) hist)) (recorded rows)"
  using assms
proof (induction rule: api_run.induct)
  case (one_more g hist g1 a r g2)
  from one_more obtain rows rows' where "at_db (gw_trail g1) table = at_db (gw_trail g) table @ rows"
    "subseq (concat (map (claimed X table) hist)) (recorded rows)" "at_db (gw_trail g2) table = at_db (gw_trail g1) table @ rows'"
    "subseq (claimed X table (a, r)) (recorded rows')"
    using step_claims [of X g1 a r g2 table] by auto
  then show ?case
    by (intro exI [of _ "rows @ rows'"]) (auto simp: recorded_def intro: list_emb_append_mono)
qed simp

section \<open>Properties\<close>


end
