(* ===== verification/Mcp_Server.thy ===== *)
theory Mcp_Server
  imports Api_Gate Activity "HOL-Library.While_Combinator"
begin

text \<open>
  The MCP servers: core/mcp_compat.py (the shapes of the protocol), core/mcp_server.py (dispatch and the
  stdio loop) and core/mcp_http_server.py (HTTP and SSE). The loop is a \<open>while_option\<close> over the stream
  that is left, the sessions of the SSE transport are the queues of their undelivered messages.
\<close>

section \<open>Shapes\<close>

text \<open>What the servers are given: the registry, the schema a tool was registered with, the texts of Python
  (\<open>str\<close>, \<open>repr\<close>, the message of a decision), the n-th fresh identifier, and whether writing an audit event
  raises, with the text of the exception.\<close>

record 'w mcp_env =
  me_registry :: "'w registry"
  me_schema :: "tool_spec \<Rightarrow> json"
  me_reason_text :: "tool_reason \<Rightarrow> string"
  me_str :: "json \<Rightarrow> string"
  me_repr :: "string \<Rightarrow> string"
  me_fresh :: "nat \<Rightarrow> string"
  me_audit :: "tool_event \<Rightarrow> string option"

text \<open>\<open>mc_events\<close>: the events that were written. \<open>mc_calls\<close>: how many identifiers were drawn.\<close>

record 'w mcp_state =
  mc_world :: 'w
  mc_events :: "tool_event list"
  mc_calls :: nat

definition tool_spec_to_mcp :: "(tool_spec \<Rightarrow> json) \<Rightarrow> tool_spec \<Rightarrow> json" where
  "tool_spec_to_mcp schema s =
     JObj [(''name'', JStr (tl_name s)), (''description'', JStr (tl_description s)), (''inputSchema'', schema s)]"

definition list_mcp_tools :: "'w mcp_env \<Rightarrow> json" where
  "list_mcp_tools E = JList (map (tool_spec_to_mcp (me_schema E)) (list_tools (me_registry E)))"

definition call_tool_result :: "string \<Rightarrow> bool \<Rightarrow> json" where
  "call_tool_result message is_error =
     JObj [(''content'', JList [JObj [(''type'', JStr ''text''), (''text'', JStr message)]]), (''isError'', JBool is_error)]"

definition reshape :: "'w mcp_env \<Rightarrow> tool_result \<Rightarrow> json" where
  "reshape E result =
     (if tr_decision result \<in> {''BLOCK'', ''REVIEW''}
      then call_tool_result (tr_decision result @ '': '' @ me_reason_text E (tr_reason result)) True
      else case tr_error result of
             Some e \<Rightarrow> call_tool_result (''Tool execution failed: '' @ e) True
           | None \<Rightarrow> call_tool_result (me_str E (case tr_output result of None \<Rightarrow> JNull | Some v \<Rightarrow> v)) False)"

fun write_events :: "(tool_event \<Rightarrow> string option) \<Rightarrow> tool_event list \<Rightarrow> tool_event list \<Rightarrow> string option \<times> tool_event list" where
  "write_events audit [] written = (None, written)"
| "write_events audit (ev # evs) written =
     (case audit ev of Some e \<Rightarrow> (Some e, written) | None \<Rightarrow> write_events audit evs (written @ [ev]))"

definition handle_mcp_tool_call ::
  "'w mcp_env \<Rightarrow> string \<Rightarrow> string \<Rightarrow> (string \<times> json) list \<Rightarrow> string \<Rightarrow> string \<Rightarrow> 'w mcp_state
   \<Rightarrow> (string, json) res \<times> 'w mcp_state" where
  "handle_mcp_tool_call E capability name arguments tenant request_id st =
     (let (result, w, evs) = execute_tool (me_registry E) capability name (JObj arguments) tenant request_id (mc_world st, []);
          (failed, written) = write_events (me_audit E) evs (mc_events st)
      in (case failed of Some e \<Rightarrow> Inl e | None \<Rightarrow> Inr (reshape E result), st\<lparr>mc_world := w, mc_events := written\<rparr>))"

section \<open>Dispatch\<close>

definition PARSE_ERROR :: int where "PARSE_ERROR = -32700"
definition INVALID_REQUEST :: int where "INVALID_REQUEST = -32600"
definition METHOD_NOT_FOUND :: int where "METHOD_NOT_FOUND = -32601"
definition INVALID_PARAMS :: int where "INVALID_PARAMS = -32602"
definition INTERNAL_ERROR :: int where "INTERNAL_ERROR = -32603"

definition error_response :: "json \<Rightarrow> int \<Rightarrow> string \<Rightarrow> json" where
  "error_response msg_id code message =
     JObj [(''jsonrpc'', JStr ''2.0''), (''id'', msg_id),
       (''error'', JObj [(''code'', JInt code), (''message'', JStr message)])]"

definition result_response :: "json \<Rightarrow> json \<Rightarrow> json" where
  "result_response msg_id result = JObj [(''jsonrpc'', JStr ''2.0''), (''id'', msg_id), (''result'', result)]"

definition initialize_result :: json where
  "initialize_result =
     JObj [(''protocolVersion'', JStr ''2024-11-05''), (''capabilities'', JObj [(''tools'', JObj [])]),
       (''serverInfo'', JObj [(''name'', JStr ''gatekeeper''), (''version'', JStr ''1.0.0'')])]"

fun type_name :: "json \<Rightarrow> string" where
  "type_name JNull = ''NoneType''"
| "type_name (JBool _) = ''bool''"
| "type_name (JInt _) = ''int''"
| "type_name (JFloat _) = ''float''"
| "type_name (JStr _) = ''str''"
| "type_name (JList _) = ''list''"
| "type_name (JObj _) = ''dict''"

text \<open>\<open>params.get\<close> on something else than an object.\<close>

definition no_get :: "json \<Rightarrow> string" where
  "no_get v = ''AttributeError: '' @ [CHR 0x27] @ type_name v @ [CHR 0x27] @ '' object has no attribute '' @ [CHR 0x27] @ ''get'' @ [CHR 0x27]"

text \<open>\<open>Inl\<close>: an exception leaves the function.\<close>

definition call_tool_method ::
  "'w mcp_env \<Rightarrow> string \<Rightarrow> string \<Rightarrow> bool \<Rightarrow> json \<Rightarrow> json \<Rightarrow> 'w mcp_state
   \<Rightarrow> (string, json option) res \<times> 'w mcp_state" where
  "call_tool_method E capability tenant has_id msg_id params st =
     (let refuse = (\<lambda>message. (Inr (if has_id then Some (error_response msg_id INVALID_PARAMS message) else None), st))
      in case params of
           JObj ps \<Rightarrow>
             (case jget ps ''name'' of
                JStr name \<Rightarrow>
                  if name = [] then refuse (CHR 0x27 # ''params.name'' @ [CHR 0x27] @ '' must be a non-empty string.'')
                  else
                    (case or_else (jget ps ''arguments'') (JObj []) of
                       JObj arguments \<Rightarrow>
                         and_then (handle_mcp_tool_call E capability name arguments tenant (me_fresh E (mc_calls st))
                                     (st\<lparr>mc_calls := Suc (mc_calls st)\<rparr>))
                           (\<lambda>result st1. (Inr (if has_id then Some (result_response msg_id result) else None), st1))
                     | _ \<Rightarrow> refuse (CHR 0x27 # ''params.arguments'' @ [CHR 0x27] @ '' must be an object.''))
              | _ \<Rightarrow> refuse (CHR 0x27 # ''params.name'' @ [CHR 0x27] @ '' must be a non-empty string.''))
         | v \<Rightarrow> (Inl (no_get v), st))"

definition handle_request ::
  "'w mcp_env \<Rightarrow> string \<Rightarrow> string \<Rightarrow> (string \<times> json) list \<Rightarrow> 'w mcp_state
   \<Rightarrow> (string, json option) res \<times> 'w mcp_state" where
  "handle_request E capability tenant msg st =
     (let has_id = (map_of msg ''id'' \<noteq> None);
          msg_id = jget msg ''id'';
          params = or_else (jget msg ''params'') (JObj [])
      in case jget msg ''method'' of
           JStr m \<Rightarrow>
             if m = ''initialize'' then (Inr (Some (result_response msg_id initialize_result)), st)
             else if m = ''notifications/initialized'' then (Inr None, st)
             else if m = ''tools/list'' then (Inr (Some (result_response msg_id (JObj [(''tools'', list_mcp_tools E)]))), st)
             else if m = ''tools/call'' then call_tool_method E capability tenant has_id msg_id params st
             else (Inr (if has_id then Some (error_response msg_id METHOD_NOT_FOUND (''Unknown method: '' @ me_repr E m)) else None), st)
         | _ \<Rightarrow> (Inr (if has_id
                     then Some (error_response msg_id INVALID_REQUEST
                            (''Request must have a string '' @ [CHR 0x27] @ ''method'' @ [CHR 0x27] @ ''.''))
                     else None), st))"

section \<open>The stdio loop\<close>

definition MAX_LINE_BYTES :: nat where "MAX_LINE_BYTES = 1000000"

text \<open>\<open>readline(n)\<close> on the text that is left: up to \<open>n\<close> characters, not past the first newline.\<close>

definition first_line :: "string \<Rightarrow> string" where
  "first_line s = (let l = takeWhile (\<lambda>c. c \<noteq> newline) s in if length l < length s then l @ [newline] else l)"

definition readline :: "nat \<Rightarrow> string \<Rightarrow> string \<times> string" where
  "readline n s = (let raw = take n (first_line s) in (raw, drop (length raw) s))"

definition ends_line :: "string \<Rightarrow> bool" where
  "ends_line raw \<longleftrightarrow> raw \<noteq> [] \<and> last raw = newline"

lemma first_line_nonempty: "s \<noteq> [] \<Longrightarrow> first_line s \<noteq> []"
  by (cases s) (auto simp: first_line_def Let_def)

lemma first_line_le: "length (first_line s) \<le> length s"
  using length_takeWhile_le [of "\<lambda>c. c \<noteq> newline" s] by (simp add: first_line_def Let_def)

lemma readline_shrinks: "readline (Suc n) s = (raw, rest) \<Longrightarrow> raw \<noteq> [] \<Longrightarrow> length rest < length s"
  using first_line_nonempty [of s] by (cases "s = []") (auto simp: readline_def Let_def first_line_def)

lemma readline_measure:
  "readline (Suc n) s = (raw, rest) \<Longrightarrow> 2 * length rest + (if raw = [] then 0 else 1) < 2 * length s + 1"
  by (cases "raw = []") (use readline_shrinks [of n s raw rest] in \<open>auto simp: readline_def Let_def\<close>)

text \<open>The rest of an oversized line is read and thrown away.\<close>

function skip_line :: "string \<Rightarrow> string \<Rightarrow> string" where
  "skip_line raw rest =
     (if \<not> ends_line raw \<and> raw \<noteq> []
      then (case readline (Suc MAX_LINE_BYTES) rest of (raw1, rest1) \<Rightarrow> skip_line raw1 rest1)
      else rest)"
  by pat_completeness auto
termination
  by (relation "measure (\<lambda>(raw, rest). 2 * length rest + (if raw = [] then 0 else 1))")
     (use readline_measure in \<open>force split: prod.splits\<close>)+

declare skip_line.simps [simp del]

text \<open>\<open>json.loads\<close>: a value, a decoding error, or another exception (nesting too deep, too many digits).\<close>

datatype decoded = Decoded json | NotJson string | Raises string

text \<open>What one line within the bound makes the server write.\<close>

definition serve_line ::
  "'w mcp_env \<Rightarrow> (string \<Rightarrow> decoded) \<Rightarrow> string \<Rightarrow> string \<Rightarrow> string \<Rightarrow> 'w mcp_state \<Rightarrow> (string, json list) res \<times> 'w mcp_state" where
  "serve_line E loads capability tenant raw st =
     (let line = str_strip raw
      in if line = [] then (Inr [], st)
         else case loads line of
                Raises e \<Rightarrow> (Inl e, st)
              | NotJson m \<Rightarrow> (Inr [error_response JNull PARSE_ERROR (''Invalid JSON: '' @ m)], st)
              | Decoded (JObj msg) \<Rightarrow>
                  (case handle_request E capability tenant msg st of
                     (Inl e, st1) \<Rightarrow>
                       (Inr (if map_of msg ''id'' \<noteq> None then [error_response (jget msg ''id'') INTERNAL_ERROR e] else []), st1)
                   | (Inr None, st1) \<Rightarrow> (Inr [], st1)
                   | (Inr (Some r), st1) \<Rightarrow> (Inr [r], st1))
              | Decoded _ \<Rightarrow> (Inr [error_response JNull INVALID_REQUEST ''Request must be a JSON object.''], st))"

definition oversized :: json where
  "oversized = error_response JNull PARSE_ERROR ''Line exceeds 1000000 byte limit.''"

datatype ending = EndOfInput | Died string

record 'w stdio =
  sd_input :: string
  sd_output :: "json list"
  sd_state :: "'w mcp_state"
  sd_ended :: "ending option"

definition stdio_step ::
  "'w mcp_env \<Rightarrow> (string \<Rightarrow> decoded) \<Rightarrow> string \<Rightarrow> string \<Rightarrow> 'w stdio \<Rightarrow> 'w stdio" where
  "stdio_step E loads capability tenant s =
     (let (raw, rest) = readline (Suc MAX_LINE_BYTES) (sd_input s)
      in if raw = [] then s\<lparr>sd_ended := Some EndOfInput\<rparr>
         else if length raw > MAX_LINE_BYTES \<and> \<not> ends_line raw
         then s\<lparr>sd_input := skip_line raw rest, sd_output := sd_output s @ [oversized]\<rparr>
         else case serve_line E loads capability tenant raw (sd_state s) of
                (Inl e, st) \<Rightarrow> s\<lparr>sd_input := rest, sd_state := st, sd_ended := Some (Died e)\<rparr>
              | (Inr replies, st) \<Rightarrow> s\<lparr>sd_input := rest, sd_output := sd_output s @ replies, sd_state := st\<rparr>)"

definition run_stdio_server ::
  "'w mcp_env \<Rightarrow> (string \<Rightarrow> decoded) \<Rightarrow> string \<Rightarrow> string \<Rightarrow> string \<Rightarrow> 'w mcp_state \<Rightarrow> 'w stdio option" where
  "run_stdio_server E loads capability tenant input st =
     while_option (\<lambda>s. sd_ended s = None) (stdio_step E loads capability tenant)
       \<lparr>sd_input = input, sd_output = [], sd_state = st, sd_ended = None\<rparr>"

section \<open>The HTTP and SSE server\<close>

definition MAX_PAYLOAD_BYTES :: nat where "MAX_PAYLOAD_BYTES = 102400"
definition MAX_SESSION_LIFETIME_SECONDS :: real where "MAX_SESSION_LIFETIME_SECONDS = 600"

text \<open>\<open>mx_loads\<close>: decoding and parsing the body, \<open>None\<close> for every exception.\<close>

record ('r, 'w) mcp_services =
  mx_env :: "'w mcp_env"
  mx_settings :: api_settings
  mx_shw :: "json \<Rightarrow> string"
  mx_sha :: "string \<Rightarrow> string"
  mx_key_file :: file_content
  mx_tenant_file :: file_content
  mx_convs :: py_convs
  mx_check_rate :: "string \<Rightarrow> real \<Rightarrow> real \<Rightarrow> real \<Rightarrow> 'r \<Rightarrow> (bool \<times> real) \<times> 'r"
  mx_loads :: "string \<Rightarrow> json option"

record ('r, 'w) mcp_app =
  ma_keys :: key_store
  ma_tenants :: tenant_store
  ma_limiter :: 'r
  ma_sessions :: "(string \<times> json list) list"
  ma_tools :: "'w mcp_state"

record mcp_post =
  mq_authorization :: "string option"
  mq_api_key :: "string option"
  mq_peer :: "string option"
  mq_body :: string

datatype mcp_refusal = Refused api_error | UnknownSession string

fun mcp_status :: "mcp_refusal \<Rightarrow> nat" where
  "mcp_status (Refused e) = status_code e"
| "mcp_status (UnknownSession _) = 404"

definition read_and_validate_body :: "('r, 'w) mcp_services \<Rightarrow> string \<Rightarrow> (nat \<times> json, (string \<times> json) list) res" where
  "read_and_validate_body X body =
     (if length body > MAX_PAYLOAD_BYTES
      then Inl (413, error_response JNull (-32000) ''Request payload exceeds maximum size of 102400 bytes.'')
      else case mx_loads X body of
             None \<Rightarrow> Inl (400, error_response JNull (-32700) ''Parse error: malformed JSON payload.'')
           | Some (JObj msg) \<Rightarrow> Inr msg
           | Some _ \<Rightarrow> Inl (400, error_response JNull (-32600)
                           ''Invalid Request: top-level JSON-RPC payload must be a JSON object.''))"

definition auth_header :: "mcp_post \<Rightarrow> string option" where
  "auth_header q =
     (case (mq_authorization q, mq_api_key q) of
        (Some h, k) \<Rightarrow> if h = [] then (case k of Some key \<Rightarrow> if key = [] then Some h else Some (''Bearer '' @ key) | None \<Rightarrow> Some h)
                       else Some h
      | (None, Some key) \<Rightarrow> if key = [] then None else Some (''Bearer '' @ key)
      | (None, None) \<Rightarrow> None)"

definition mcp_rate_limit ::
  "('r, 'w) mcp_services \<Rightarrow> real \<Rightarrow> mcp_post \<Rightarrow> tenant_config \<Rightarrow> principal \<Rightarrow> ('r, 'w) mcp_app
   \<Rightarrow> (api_error, unit) res \<times> ('r, 'w) mcp_app" where
  "mcp_rate_limit X now q tc p a =
     (if \<not> se_rate_enabled (mx_settings X) then (Inr (), a)
      else
        let (identity, rpm) =
              (if pr_authenticated p
               then (''key:'' @ pr_key_id p,
                     case tc_rate_limit_rpm tc of Some rpm \<Rightarrow> rpm | None \<Rightarrow> se_authenticated_rpm (mx_settings X))
               else (''ip:'' @ (case mq_peer q of Some host \<Rightarrow> host | None \<Rightarrow> ''unknown''), se_anonymous_rpm (mx_settings X)));
            (cap, refill) = bucket_parameters rpm (se_burst_seconds (mx_settings X));
            ((allowed, retry_after), l) = mx_check_rate X identity cap refill now (ma_limiter a)
        in (if allowed then Inr () else Inl (RateLimited rpm (py_int retry_after + 1)), a\<lparr>ma_limiter := l\<rparr>))"

definition dispatch_rpc ::
  "('r, 'w) mcp_services \<Rightarrow> real \<Rightarrow> mcp_post \<Rightarrow> (string \<times> json) list \<Rightarrow> ('r, 'w) mcp_app
   \<Rightarrow> (mcp_refusal, json option) res \<times> ('r, 'w) mcp_app" where
  "dispatch_rpc X now q msg a =
     (case resolve_principal (mx_shw X) (mx_sha X) (mx_key_file X) (auth_header q) None (ma_keys a) of
        (Inl CompareTypeError, ks) \<Rightarrow> (Inl (Refused (Unhandled ''TypeError'')), a\<lparr>ma_keys := ks\<rparr>)
      | (Inr p, ks) \<Rightarrow>
          let a1 = a\<lparr>ma_keys := ks\<rparr>
          in if auth_required (se_auth_mode (mx_settings X)) \<and> \<not> pr_authenticated p then (Inl (Refused Unauthorized), a1)
             else
               let (tc, ts) = resolve_tenant (mx_convs X) (mx_tenant_file X) (pr_tenant p) (ma_tenants a1);
                   a2 = a1\<lparr>ma_tenants := ts\<rparr>
               in if suspended tc then (Inl (Refused (TenantSuspended (pr_tenant p))), a2)
                  else
                    (case mcp_rate_limit X now q tc p a2 of
                       (Inl e, a3) \<Rightarrow> (Inl (Refused e), a3)
                     | (Inr _, a3) \<Rightarrow>
                         (case handle_request (mx_env X) (pr_capability p) (pr_tenant p) msg (ma_tools a3) of
                            (Inl e, st) \<Rightarrow> (Inl (Refused (Unhandled e)), a3\<lparr>ma_tools := st\<rparr>)
                          | (Inr r, st) \<Rightarrow> (Inr r, a3\<lparr>ma_tools := st\<rparr>))))"

definition direct_reply :: "json option \<Rightarrow> nat \<times> json" where
  "direct_reply r = (case r of None \<Rightarrow> (202, JObj []) | Some v \<Rightarrow> (200, v))"

definition mcp_jsonrpc ::
  "('r, 'w) mcp_services \<Rightarrow> real \<Rightarrow> mcp_post \<Rightarrow> ('r, 'w) mcp_app \<Rightarrow> (mcp_refusal, nat \<times> json) res \<times> ('r, 'w) mcp_app" where
  "mcp_jsonrpc X now q a =
     (case read_and_validate_body X (mq_body q) of
        Inl reply \<Rightarrow> (Inr reply, a)
      | Inr msg \<Rightarrow> and_then (dispatch_rpc X now q msg a) (\<lambda>r a1. (Inr (direct_reply r), a1)))"

definition mcp_messages ::
  "('r, 'w) mcp_services \<Rightarrow> real \<Rightarrow> mcp_post \<Rightarrow> string option \<Rightarrow> ('r, 'w) mcp_app
   \<Rightarrow> (mcp_refusal, nat \<times> json) res \<times> ('r, 'w) mcp_app" where
  "mcp_messages X now q session a =
     (case read_and_validate_body X (mq_body q) of
        Inl reply \<Rightarrow> (Inr reply, a)
      | Inr msg \<Rightarrow>
          (case session of
             None \<Rightarrow> and_then (dispatch_rpc X now q msg a) (\<lambda>r a1. (Inr (direct_reply r), a1))
           | Some sid \<Rightarrow>
               (case map_of (ma_sessions a) sid of
                  None \<Rightarrow> (Inl (UnknownSession sid), a)
                | Some waiting \<Rightarrow>
                    and_then (dispatch_rpc X now q msg a) (\<lambda>r a1.
                      (Inr (202, JObj [(''status'', JStr ''accepted'')]),
                       case r of None \<Rightarrow> a1
                       | Some v \<Rightarrow> a1\<lparr>ma_sessions := od_set sid (waiting @ [v]) (ma_sessions a1)\<rparr>)))))"

text \<open>The stream of a session: opening it, and one turn of its generator.\<close>

datatype sse_event = Endpoint string | Relays json | Ping | Closed

definition mcp_sse :: "string \<Rightarrow> ('r, 'w) mcp_app \<Rightarrow> sse_event \<times> ('r, 'w) mcp_app" where
  "mcp_sse sid a = (Endpoint (''/mcp/messages?sessionId='' @ sid), a\<lparr>ma_sessions := od_set sid [] (ma_sessions a)\<rparr>)"

definition sse_turn :: "real \<Rightarrow> bool \<Rightarrow> bool \<Rightarrow> string \<Rightarrow> ('r, 'w) mcp_app \<Rightarrow> sse_event \<times> ('r, 'w) mcp_app" where
  "sse_turn elapsed disconnected once sid a =
     (let close = (Closed, a\<lparr>ma_sessions := od_del sid (ma_sessions a)\<rparr>)
      in if elapsed > MAX_SESSION_LIFETIME_SECONDS \<or> disconnected then close
         else case map_of (ma_sessions a) sid of
                Some (v # waiting) \<Rightarrow> (Relays v, a\<lparr>ma_sessions := od_set sid waiting (ma_sessions a)\<rparr>)
              | _ \<Rightarrow> if once then close else (Ping, a))"

section \<open>Lines\<close>

text \<open>The reference reading of a stream: its lines with their newlines, the last one perhaps without.\<close>

definition stream_lines :: "string \<Rightarrow> string list" where
  "stream_lines s =
     (let ls = str_split newline s in map (\<lambda>l. l @ [newline]) (butlast ls) @ (if last ls = [] then [] else [last ls]))"

definition too_long :: "string \<Rightarrow> bool" where
  "too_long l \<longleftrightarrow> length (if ends_line l then butlast l else l) > MAX_LINE_BYTES"

text \<open>The reference server: line by line, until one of them is fatal.\<close>

fun serve_lines ::
  "'w mcp_env \<Rightarrow> (string \<Rightarrow> decoded) \<Rightarrow> string \<Rightarrow> string \<Rightarrow> string list \<Rightarrow> json list \<Rightarrow> 'w mcp_state
   \<Rightarrow> ending \<times> json list \<times> 'w mcp_state" where
  "serve_lines E loads capability tenant [] out st = (EndOfInput, out, st)"
| "serve_lines E loads capability tenant (l # ls) out st =
     (if too_long l then serve_lines E loads capability tenant ls (out @ [oversized]) st
      else case serve_line E loads capability tenant l st of
             (Inl e, st1) \<Rightarrow> (Died e, out, st1)
           | (Inr replies, st1) \<Rightarrow> serve_lines E loads capability tenant ls (out @ replies) st1)"

lemma split_no_newline: "newline \<notin> set l \<Longrightarrow> str_split newline l = [l]"
  by (rule str_split_no_sep)

lemma stream_lines_cons:
  assumes "newline \<notin> set l"
  shows "stream_lines (l @ newline # rest) = (l @ [newline]) # stream_lines rest"
proof -
  have "str_split newline rest \<noteq> []" by (cases rest) (auto split: list.splits)
  then show ?thesis by (simp add: stream_lines_def split_line [OF assms] Let_def)
qed

lemma stream_lines_last: "newline \<notin> set l \<Longrightarrow> l \<noteq> [] \<Longrightarrow> stream_lines l = [l]"
  by (simp add: stream_lines_def split_no_newline)

lemma stream_cases:
  obtains (whole) l rest where "s = l @ newline # rest" "newline \<notin> set l"
    | (partial) "newline \<notin> set s"
  using split_list_first [of newline s] by blast

lemma first_line_whole: "newline \<notin> set l \<Longrightarrow> first_line (l @ newline # rest) = l @ [newline]"
proof -
  assume "newline \<notin> set l"
  then have "takeWhile (\<lambda>c. c \<noteq> newline) (l @ newline # rest) = l"
    by (subst takeWhile_append2) auto
  then show ?thesis by (simp add: first_line_def)
qed

lemma first_line_partial: "newline \<notin> set s \<Longrightarrow> first_line s = s"
proof -
  assume "newline \<notin> set s"
  then have all: "takeWhile (\<lambda>c. c \<noteq> newline) s = s" by (intro takeWhile_eq_all_conv [THEN iffD2]) auto
  show ?thesis unfolding first_line_def Let_def all by simp
qed

lemma not_ends_line: "newline \<notin> set raw \<Longrightarrow> \<not> ends_line raw"
  by (metis ends_line_def last_in_set)

text \<open>Skipping stops right after the next newline, or at the end of the input.\<close>

lemma skip_line_ends: "ends_line raw \<or> raw = [] \<Longrightarrow> skip_line raw rest = rest"
  by (subst skip_line.simps) auto

lemma skip_line_whole:
  assumes "newline \<notin> set l" and "newline \<notin> set raw" and "raw \<noteq> []"
  shows "skip_line raw (l @ newline # rest) = rest"
  using assms
proof (induction "length l" arbitrary: l raw rule: less_induct)
  case less
  let ?n = "Suc MAX_LINE_BYTES"
  have go: "skip_line raw (l @ newline # rest) =
      (case readline ?n (l @ newline # rest) of (raw1, rest1) \<Rightarrow> skip_line raw1 rest1)"
    using less.prems by (subst skip_line.simps) (simp add: not_ends_line)
  show ?case
  proof (cases "length l < ?n")
    case True
    then have "readline ?n (l @ newline # rest) = (l @ [newline], rest)"
      by (simp add: readline_def first_line_whole less.prems(1) Let_def)
    with go show ?thesis by (simp add: skip_line_ends ends_line_def)
  next
    case False
    then have r: "readline ?n (l @ newline # rest) = (take ?n l, drop ?n l @ newline # rest)"
      by (simp add: readline_def first_line_whole less.prems(1) Let_def min_def)
    have "skip_line (take ?n l) (drop ?n l @ newline # rest) = rest"
      using False less.prems(1) by (intro less.hyps) (auto dest: in_set_dropD in_set_takeD)
    with go r show ?thesis by simp
  qed
qed

lemma skip_line_partial:
  assumes "newline \<notin> set s" and "newline \<notin> set raw" and "raw \<noteq> []"
  shows "skip_line raw s = []"
  using assms
proof (induction "length s" arbitrary: s raw rule: less_induct)
  case less
  let ?n = "Suc MAX_LINE_BYTES"
  have r: "readline ?n s = (take ?n s, drop ?n s)"
    by (auto simp: readline_def first_line_partial less.prems(1) Let_def min_def)
  have go: "skip_line raw s = skip_line (take ?n s) (drop ?n s)"
    using less.prems by (subst skip_line.simps) (simp add: not_ends_line r)
  show ?case
  proof (cases "s = []")
    case True
    with go show ?thesis by (simp add: skip_line_ends)
  next
    case False
    then have "skip_line (take ?n s) (drop ?n s) = []"
      using less.prems(1) by (intro less.hyps) (auto dest: in_set_dropD in_set_takeD)
    with go show ?thesis by simp
  qed
qed

text \<open>One turn of the loop is one line of the stream.\<close>

lemma stdio_step_line:
  assumes "s \<noteq> []"
  obtains l rest where "stream_lines s = l # stream_lines rest" and "length rest < length s"
    and "\<And>out st. stdio_step E loads capability tenant \<lparr>sd_input = s, sd_output = out, sd_state = st, sd_ended = None\<rparr> =
      (if too_long l then \<lparr>sd_input = rest, sd_output = out @ [oversized], sd_state = st, sd_ended = None\<rparr>
       else case serve_line E loads capability tenant l st of
              (Inl e, st1) \<Rightarrow> \<lparr>sd_input = rest, sd_output = out, sd_state = st1, sd_ended = Some (Died e)\<rparr>
            | (Inr replies, st1) \<Rightarrow> \<lparr>sd_input = rest, sd_output = out @ replies, sd_state = st1, sd_ended = None\<rparr>)"
proof (cases rule: stream_cases [of s])
  case (whole l rest)
  let ?n = "Suc MAX_LINE_BYTES"
  have long: "too_long (l @ [newline]) \<longleftrightarrow> length l > MAX_LINE_BYTES" by (simp add: too_long_def ends_line_def)
  have lines: "stream_lines s = (l @ [newline]) # stream_lines rest" using whole by (simp add: stream_lines_cons)
  show ?thesis
  proof (cases "length l > MAX_LINE_BYTES")
    case True
    then have r: "readline ?n s = (take ?n l, drop ?n l @ newline # rest)"
      by (simp add: whole readline_def first_line_whole Let_def)
    have raw: "take ?n l \<noteq> []" "newline \<notin> set (take ?n l)" "newline \<notin> set (drop ?n l)" "length (take ?n l) > MAX_LINE_BYTES"
      using True whole(2) by (auto dest: in_set_takeD in_set_dropD)
    show ?thesis
      by (rule that [OF lines]) (use True raw in \<open>simp_all add: whole(1) stdio_step_def r [unfolded whole(1)] long not_ends_line skip_line_whole\<close>)
  next
    case False
    then have r: "readline ?n s = (l @ [newline], rest)"
      by (simp add: whole readline_def first_line_whole Let_def)
    have e: "ends_line (l @ [newline])" by (simp add: ends_line_def)
    show ?thesis
      by (rule that [OF lines]) (use False e in \<open>simp_all add: whole(1) stdio_step_def r [unfolded whole(1)] long split: prod.splits sum.splits\<close>)
  qed
next
  case partial
  let ?n = "Suc MAX_LINE_BYTES"
  have long: "too_long s \<longleftrightarrow> length s > MAX_LINE_BYTES" by (simp add: too_long_def not_ends_line partial)
  have lines: "stream_lines s = s # stream_lines []" using partial assms by (simp add: stream_lines_last) (simp add: stream_lines_def)
  have r: "readline ?n s = (take ?n s, drop ?n s)"
    by (auto simp: readline_def first_line_partial partial Let_def min_def)
  show ?thesis
  proof (cases "length s > MAX_LINE_BYTES")
    case True
    then have raw: "take ?n s \<noteq> []" "newline \<notin> set (take ?n s)" "newline \<notin> set (drop ?n s)" "length (take ?n s) > MAX_LINE_BYTES"
      using partial by (auto dest: in_set_takeD in_set_dropD)
    show ?thesis
      by (rule that [OF lines]) (use assms True raw in \<open>simp_all add: stdio_step_def r long not_ends_line skip_line_partial\<close>)
  next
    case False
    show ?thesis
      by (rule that [OF lines]) (use assms False in \<open>simp_all add: stdio_step_def r long split: prod.splits sum.splits\<close>)
  qed
qed

lemma stdio_run:
  "\<exists>rest. while_option (\<lambda>s. sd_ended s = None) (stdio_step E loads capability tenant)
       \<lparr>sd_input = s, sd_output = out, sd_state = st, sd_ended = None\<rparr> =
     (case serve_lines E loads capability tenant (stream_lines s) out st of
        (e, out', st') \<Rightarrow> Some \<lparr>sd_input = rest, sd_output = out', sd_state = st', sd_ended = Some e\<rparr>)"
proof (induction "length s" arbitrary: s out st rule: less_induct)
  case less
  let ?run = "while_option (\<lambda>s :: 'a stdio. sd_ended s = None) (stdio_step E loads capability tenant)"
  show ?case
  proof (cases "s = []")
    case True
    then show ?thesis
      by (simp add: while_option_unfold stdio_step_def readline_def first_line_def stream_lines_def)
  next
    case False
    have "\<exists>l rest. stream_lines s = l # stream_lines rest \<and> length rest < length s \<and>
      (\<forall>out st. stdio_step E loads capability tenant \<lparr>sd_input = s, sd_output = out, sd_state = st, sd_ended = None\<rparr> =
      (if too_long l then \<lparr>sd_input = rest, sd_output = out @ [oversized], sd_state = st, sd_ended = None\<rparr>
       else case serve_line E loads capability tenant l st of
              (Inl e, st1) \<Rightarrow> \<lparr>sd_input = rest, sd_output = out, sd_state = st1, sd_ended = Some (Died e)\<rparr>
            | (Inr replies, st1) \<Rightarrow> \<lparr>sd_input = rest, sd_output = out @ replies, sd_state = st1, sd_ended = None\<rparr>))"
      by (rule stdio_step_line [where E = E and loads = loads and capability = capability and tenant = tenant, OF False])
         (intro exI conjI allI, assumption, assumption, assumption)
    then obtain l rest where l: "stream_lines s = l # stream_lines rest" "length rest < length s"
      and step: "\<And>out st. stdio_step E loads capability tenant \<lparr>sd_input = s, sd_output = out, sd_state = st, sd_ended = None\<rparr> =
      (if too_long l then \<lparr>sd_input = rest, sd_output = out @ [oversized], sd_state = st, sd_ended = None\<rparr>
       else case serve_line E loads capability tenant l st of
              (Inl e, st1) \<Rightarrow> \<lparr>sd_input = rest, sd_output = out, sd_state = st1, sd_ended = Some (Died e)\<rparr>
            | (Inr replies, st1) \<Rightarrow> \<lparr>sd_input = rest, sd_output = out @ replies, sd_state = st1, sd_ended = None\<rparr>)"
      by blast
    note IH = less.hyps [OF l(2)]
    have unfold: "?run \<lparr>sd_input = s, sd_output = out, sd_state = st, sd_ended = None\<rparr> =
        ?run (stdio_step E loads capability tenant \<lparr>sd_input = s, sd_output = out, sd_state = st, sd_ended = None\<rparr>)"
      by (subst while_option_unfold) simp
    show ?thesis
    proof (cases "too_long l")
      case True
      then show ?thesis unfolding unfold using IH by (simp add: step l(1))
    next
      case short: False
      obtain x st1 where x: "serve_line E loads capability tenant l st = (x, st1)" by fastforce
      show ?thesis
      proof (cases x)
        case (Inl e)
        with x short show ?thesis unfolding unfold by (simp add: step l(1)) (subst while_option_unfold, simp)
      next
        case (Inr replies)
        with x short IH show ?thesis unfolding unfold by (simp add: step l(1))
      qed
    qed
  qed
qed

section \<open>Lemmas on dispatch\<close>

lemma write_events_one: "write_events audit [ev] written = (case audit ev of Some e \<Rightarrow> (Some e, written) | None \<Rightarrow> (None, written @ [ev]))"
  by (simp split: option.split)

text \<open>What a caller may do to the world: run a tool of its rank, with arguments that fit, that is not HIGH risk.\<close>

definition may_run :: "'w registry \<Rightarrow> string \<Rightarrow> string \<Rightarrow> (string \<times> json) list \<Rightarrow> bool" where
  "may_run reg capability name arguments \<longleftrightarrow>
     (case map_of (rg_tools reg) name of
        None \<Rightarrow> False
      | Some s \<Rightarrow> check_tool_access capability s = Ok \<and> validate_arguments s (JObj arguments) = Ok \<and> tl_risk s \<noteq> ''HIGH'')"

lemma tool_call_world:
  assumes "handle_mcp_tool_call E capability name arguments tenant rid st = (r, st')" and "mc_world st' \<noteq> mc_world st"
  shows "may_run (me_registry E) capability name arguments"
proof -
  obtain result w evs where e: "execute_tool (me_registry E) capability name (JObj arguments) tenant rid (mc_world st, []) = (result, w, evs)"
    by (metis surj_pair)
  with assms have "w \<noteq> mc_world st" by (auto simp: handle_mcp_tool_call_def split: prod.splits)
  from world_change_needs_allow [OF e this] show ?thesis by (auto simp: may_run_def)
qed

lemma call_tool_world:
  assumes "call_tool_method E capability tenant has_id msg_id params st = (r, st')" and "mc_world st' \<noteq> mc_world st"
  shows "\<exists>ps name arguments. params = JObj ps \<and> jget ps ''name'' = JStr name \<and> may_run (me_registry E) capability name arguments"
proof -
  from assms obtain ps where ps: "params = JObj ps" by (cases params) (auto simp: call_tool_method_def Let_def)
  with assms obtain name where name: "jget ps ''name'' = JStr name" "name \<noteq> []"
    by (cases "jget ps ''name''") (auto simp: call_tool_method_def Let_def split: if_splits)
  with assms ps obtain arguments where a: "or_else (jget ps ''arguments'') (JObj []) = JObj arguments"
    by (cases "or_else (jget ps ''arguments'') (JObj [])") (auto simp: call_tool_method_def Let_def)
  let ?st = "st\<lparr>mc_calls := Suc (mc_calls st)\<rparr>"
  obtain x st1 where h: "handle_mcp_tool_call E capability name arguments tenant (me_fresh E (mc_calls st)) ?st = (x, st1)" by fastforce
  with assms(1) ps name a have "st' = st1"
    by (cases x) (auto simp: call_tool_method_def Let_def and_then_eqs)
  with assms(2) have "mc_world st1 \<noteq> mc_world ?st" by simp
  from tool_call_world [OF h this] ps name show ?thesis by blast
qed

text \<open>The world changes only for a \<open>tools/call\<close> the capability may make.\<close>

definition governed :: "'w mcp_env \<Rightarrow> string \<Rightarrow> (string \<times> json) list \<Rightarrow> 'w mcp_state \<Rightarrow> 'w mcp_state \<Rightarrow> bool" where
  "governed E capability msg st st' \<longleftrightarrow>
     (if mc_world st' = mc_world st then True
      else jget msg ''method'' = JStr ''tools/call'' \<and> (\<exists>name arguments. may_run (me_registry E) capability name arguments))"

lemma handle_request_governed:
  assumes "handle_request E capability tenant msg st = (r, st')"
  shows "governed E capability msg st st'"
proof (cases "mc_world st' = mc_world st")
  case False
  with assms obtain m where m: "jget msg ''method'' = JStr m"
    by (cases "jget msg ''method''") (auto simp: handle_request_def Let_def)
  with assms False have "m = ''tools/call''"
    by (auto simp: handle_request_def Let_def split: if_splits)
  with assms m have "call_tool_method E capability tenant (map_of msg ''id'' \<noteq> None) (jget msg ''id'') (or_else (jget msg ''params'') (JObj [])) st = (r, st')"
    by (simp add: handle_request_def Let_def)
  from call_tool_world [OF this False] m \<open>m = ''tools/call''\<close> show ?thesis by (auto simp: governed_def)
qed (simp add: governed_def)

text \<open>A reply answers its request: the envelope of JSON-RPC 2.0 around the id of the message, with a result or with
  an error of the table.\<close>

definition answers :: "(string \<times> json) list \<Rightarrow> json \<Rightarrow> bool" where
  "answers msg r \<longleftrightarrow> (\<exists>v. r = result_response (jget msg ''id'') v)
     \<or> (\<exists>code m. r = error_response (jget msg ''id'') code m \<and> code \<in> {INVALID_REQUEST, METHOD_NOT_FOUND, INVALID_PARAMS})"

lemma call_tool_answers:
  assumes "call_tool_method E capability tenant has_id (jget msg ''id'') params st = (Inr (Some r), st')"
  shows "has_id \<and> answers msg r"
  using assms
  by (auto simp: call_tool_method_def Let_def answers_def split: json.splits if_splits)

lemma call_tool_unanswered:
  assumes "call_tool_method E capability tenant has_id msg_id params st = (Inr None, st')"
  shows "\<not> has_id"
  using assms
  by (auto simp: call_tool_method_def Let_def split: json.splits if_splits)

lemma handle_request_answers:
  assumes "handle_request E capability tenant msg st = (Inr (Some r), st')"
  shows "answers msg r \<and> (map_of msg ''id'' \<noteq> None \<or> jget msg ''method'' \<in> {JStr ''initialize'', JStr ''tools/list''})"
proof (cases "jget msg ''method''")
  case (JStr m)
  show ?thesis
  proof (cases "m = ''tools/call''")
    case True
    with assms JStr have "call_tool_method E capability tenant (map_of msg ''id'' \<noteq> None) (jget msg ''id'') (or_else (jget msg ''params'') (JObj [])) st = (Inr (Some r), st')"
      by (simp add: handle_request_def Let_def)
    from call_tool_answers [OF this] show ?thesis by blast
  next
    case False
    with assms JStr show ?thesis by (auto simp: handle_request_def Let_def answers_def split: if_splits)
  qed
qed (use assms in \<open>auto simp: handle_request_def Let_def answers_def split: if_splits\<close>)

lemma handle_request_call:
  "jget msg ''method'' = JStr ''tools/call'' \<Longrightarrow> handle_request E capability tenant msg st =
     call_tool_method E capability tenant (map_of msg ''id'' \<noteq> None) (jget msg ''id'') (or_else (jget msg ''params'') (JObj [])) st"
  by (simp add: handle_request_def Let_def)

lemma handle_request_raises:
  assumes "handle_request E capability tenant msg st = (Inl e, st')"
  shows "jget msg ''method'' = JStr ''tools/call''"
  using assms
  by (cases "jget msg ''method''") (simp_all add: handle_request_def Let_def split: if_splits)

lemma handle_request_unanswered:
  assumes "handle_request E capability tenant msg st = (Inr None, st')"
  shows "map_of msg ''id'' = None \<or> jget msg ''method'' = JStr ''notifications/initialized''"
proof (cases "jget msg ''method'' = JStr ''tools/call''")
  case True
  from call_tool_unanswered [OF assms [unfolded handle_request_call [OF True]]] show ?thesis by simp
next
  case False
  with assms show ?thesis
    by (cases "jget msg ''method''") (simp_all add: handle_request_def Let_def split: if_splits)
qed

text \<open>The HTTP gate in front of the dispatch.\<close>

lemma mcp_rate_limit_frame:
  assumes "mcp_rate_limit X now q tc p a = (r, a')"
  shows "ma_tools a' = ma_tools a \<and> ma_sessions a' = ma_sessions a \<and> (\<forall>e. r = Inl e \<longrightarrow> status_code e = 429)"
  using assms by (auto simp: mcp_rate_limit_def Let_def split: prod.splits if_splits)

lemma dispatch_rpc_cases:
  assumes "dispatch_rpc X now q msg a = (r, a')"
  obtains (stopped) e where "r = Inl e" "mcp_status e \<in> {401, 403, 429, 500}" "ma_tools a' = ma_tools a"
      "ma_sessions a' = ma_sessions a"
    | (ran) p ks x where
        "resolve_principal (mx_shw X) (mx_sha X) (mx_key_file X) (auth_header q) None (ma_keys a) = (Inr p, ks)"
        "auth_required (se_auth_mode (mx_settings X)) \<Longrightarrow> pr_authenticated p"
        "\<not> suspended (fst (resolve_tenant (mx_convs X) (mx_tenant_file X) (pr_tenant p) (ma_tenants a)))"
        "handle_request (mx_env X) (pr_capability p) (pr_tenant p) msg (ma_tools a) = (x, ma_tools a')"
        "ma_sessions a' = ma_sessions a" "r = (case x of Inl e \<Rightarrow> Inl (Refused (Unhandled e)) | Inr v \<Rightarrow> Inr v)"
proof -
  obtain y ks where k: "resolve_principal (mx_shw X) (mx_sha X) (mx_key_file X) (auth_header q) None (ma_keys a) = (y, ks)"
    by fastforce
  show ?thesis
  proof (cases y)
    case (Inl z)
    with assms k have "r = Inl (Refused (Unhandled ''TypeError''))" "a' = a\<lparr>ma_keys := ks\<rparr>"
      by (cases z; simp add: dispatch_rpc_def)+
    then show ?thesis by (intro stopped [of "Refused (Unhandled ''TypeError'')"]) simp_all
  next
    case (Inr p)
    let ?a1 = "a\<lparr>ma_keys := ks\<rparr>"
    obtain tc ts where t: "resolve_tenant (mx_convs X) (mx_tenant_file X) (pr_tenant p) (ma_tenants a) = (tc, ts)" by fastforce
    let ?a2 = "?a1\<lparr>ma_tenants := ts\<rparr>"
    obtain l a3 where rl: "mcp_rate_limit X now q tc p ?a2 = (l, a3)" by fastforce
    note frame = mcp_rate_limit_frame [OF rl]
    obtain x st where h: "handle_request (mx_env X) (pr_capability p) (pr_tenant p) msg (ma_tools a3) = (x, st)" by fastforce
    have run: "(r, a') =
      (if auth_required (se_auth_mode (mx_settings X)) \<and> \<not> pr_authenticated p then (Inl (Refused Unauthorized), ?a1)
       else if suspended tc then (Inl (Refused (TenantSuspended (pr_tenant p))), ?a2)
       else case l of Inl e \<Rightarrow> (Inl (Refused e), a3)
            | Inr _ \<Rightarrow> (case x of Inl e \<Rightarrow> (Inl (Refused (Unhandled e)), a3\<lparr>ma_tools := st\<rparr>) | Inr v \<Rightarrow> (Inr v, a3\<lparr>ma_tools := st\<rparr>)))"
      using assms [symmetric] by (simp add: dispatch_rpc_def k Inr t rl h Let_def cong: if_cong) (cases l; simp add: h; cases x; simp)?
    show ?thesis
    proof (cases "auth_required (se_auth_mode (mx_settings X)) \<and> \<not> pr_authenticated p \<or> suspended tc")
      case True
      with run have "r = Inl (Refused Unauthorized) \<or> r = Inl (Refused (TenantSuspended (pr_tenant p)))"
        "ma_tools a' = ma_tools a" "ma_sessions a' = ma_sessions a"
        by (auto split: if_splits)
      then show ?thesis
        by (elim disjE) (intro stopped [of "Refused Unauthorized"] stopped [of "Refused (TenantSuspended (pr_tenant p))"]; simp)+
    next
      case False
      show ?thesis
      proof (cases l)
        case (Inl e)
        with run False have "r = Inl (Refused e)" "a' = a3" by (simp_all split: if_splits)
        with Inl frame show ?thesis by (intro stopped [of "Refused e"]) simp_all
      next
        case (Inr u)
        with run False have "r = (case x of Inl e \<Rightarrow> Inl (Refused (Unhandled e)) | Inr v \<Rightarrow> Inr v)" "a' = a3\<lparr>ma_tools := st\<rparr>"
          by (simp_all split: sum.splits if_splits)
        moreover from False have "auth_required (se_auth_mode (mx_settings X)) \<Longrightarrow> pr_authenticated p" "\<not> suspended tc" by auto
        ultimately show ?thesis using frame k \<open>y = Inr p\<close> t h by (intro ran [of p ks x]) simp_all
      qed
    qed
  qed
qed

text \<open>What a message that was let in leaves.\<close>

lemma read_body_Inr:
  "read_and_validate_body X body = Inr msg \<Longrightarrow> length body \<le> MAX_PAYLOAD_BYTES \<and> mx_loads X body = Some (JObj msg)"
  by (auto simp: read_and_validate_body_def split: if_splits option.splits json.splits)

lemma read_body_Inl:
  "read_and_validate_body X body = Inl (code, reply) \<Longrightarrow> code \<in> {400, 413} \<and> (\<exists>c m. reply = error_response JNull c m)"
  by (auto simp: read_and_validate_body_def split: if_splits option.splits json.splits)

lemma mcp_messages_cases:
  assumes "mcp_messages X now q session a = (r, a')"
  obtains (bad) reply where "read_and_validate_body X (mq_body q) = Inl reply" "r = Inr reply" "a' = a"
    | (lost) sid where "session = Some sid" "map_of (ma_sessions a) sid = None" "r = Inl (UnknownSession sid)" "a' = a"
    | (raised) msg e where "read_and_validate_body X (mq_body q) = Inr msg" "dispatch_rpc X now q msg a = (Inl e, a')" "r = Inl e"
    | (direct) msg v where "read_and_validate_body X (mq_body q) = Inr msg" "dispatch_rpc X now q msg a = (Inr v, a')"
        "session = None" "r = Inr (direct_reply v)"
    | (relayed) msg v a1 sid waiting where "read_and_validate_body X (mq_body q) = Inr msg"
        "dispatch_rpc X now q msg a = (Inr v, a1)" "session = Some sid" "map_of (ma_sessions a) sid = Some waiting"
        "r = Inr (202, JObj [(''status'', JStr ''accepted'')])"
        "a' = (case v of None \<Rightarrow> a1 | Some w \<Rightarrow> a1\<lparr>ma_sessions := od_set sid (waiting @ [w]) (ma_sessions a1)\<rparr>)"
proof (cases "read_and_validate_body X (mq_body q)")
  case (Inl reply)
  with assms show ?thesis by (intro bad [of reply]) (auto simp: mcp_messages_def)
next
  case (Inr msg)
  obtain d a1 where d: "dispatch_rpc X now q msg a = (d, a1)" by fastforce
  show ?thesis
  proof (cases session)
    case None
    with assms Inr d show ?thesis
      by (cases d) (auto simp: mcp_messages_def and_then_eqs intro: raised direct)
  next
    case (Some sid)
    show ?thesis
    proof (cases "map_of (ma_sessions a) sid")
      case None
      with assms Inr Some show ?thesis by (intro lost [of sid]) (auto simp: mcp_messages_def)
    next
      case w: (Some waiting)
      with assms Inr Some d show ?thesis
        by (cases d) (auto simp: mcp_messages_def and_then_eqs intro: raised relayed)
    qed
  qed
qed

lemma dispatch_governed:
  assumes "dispatch_rpc X now q msg a = (r, a')" and "mc_world (ma_tools a') \<noteq> mc_world (ma_tools a)"
  shows "case fst (resolve_principal (mx_shw X) (mx_sha X) (mx_key_file X) (auth_header q) None (ma_keys a)) of
      Inr p \<Rightarrow> (if auth_required (se_auth_mode (mx_settings X)) then pr_authenticated p else True)
        \<and> \<not> suspended (fst (resolve_tenant (mx_convs X) (mx_tenant_file X) (pr_tenant p) (ma_tenants a)))
        \<and> governed (mx_env X) (pr_capability p) msg (ma_tools a) (ma_tools a')
    | Inl _ \<Rightarrow> False"
  using assms(1)
proof (cases rule: dispatch_rpc_cases)
  case (ran p ks x)
  with handle_request_governed [OF ran(4)] show ?thesis by simp
qed (use assms(2) in simp)

section \<open>Properties\<close>



text \<open>The answers of the message endpoint. A body that is too large or no JSON object gets 413 or 400 with a JSON-RPC
  error and no id, and nothing happens. Inside a session an accepted message appends at most one reply to
  the queue of that session and touches no other. A refusal is a 401, 403, 404, 429 or 500, and only a
  500 can have run anything.\<close>

theorem mcp_post_outcome:
  "case mcp_messages X now q session a of
     (Inr (code, body), a') \<Rightarrow>
       code \<in> {200, 202, 400, 413}
       \<and> (if code \<in> {400, 413} then a' = a \<and> (\<exists>c m. body = error_response JNull c m)
          else case session of
                 None \<Rightarrow> ma_sessions a' = ma_sessions a
               | Some sid \<Rightarrow> code = 202 \<and>
                   (case map_of (ma_sessions a) sid of
                      None \<Rightarrow> False
                    | Some waiting \<Rightarrow> \<exists>new. length new \<le> 1 \<and> map_of (ma_sessions a') = (map_of (ma_sessions a))(sid \<mapsto> waiting @ new)))
   | (Inl e, a') \<Rightarrow>
       mcp_status e \<in> {401, 403, 404, 429, 500} \<and> ma_sessions a' = ma_sessions a
       \<and> (if mcp_status e = 500 then True else ma_tools a' = ma_tools a)"
proof (cases "mcp_messages X now q session a")
  case (Pair r a')
  then show ?thesis
  proof (cases rule: mcp_messages_cases)
    case (bad reply)
    obtain code body where "reply = (code, body)" by fastforce
    with bad Pair read_body_Inl show ?thesis by auto
  next
    case (lost sid)
    with Pair show ?thesis by simp
  next
    case (raised msg e)
    from raised(2) show ?thesis
    proof (cases rule: dispatch_rpc_cases)
      case (stopped e')
      with Pair raised(3) show ?thesis by auto
    next
      case (ran p ks x)
      then have "mcp_status e = 500" by (cases x) auto
      with Pair raised(3) ran(5) show ?thesis by simp
    qed
  next
    case (direct msg v)
    from direct(2) have "ma_sessions a' = ma_sessions a" by (cases rule: dispatch_rpc_cases) auto
    with Pair direct(3,4) show ?thesis by (cases v) (simp_all add: direct_reply_def)
  next
    case (relayed msg v a1 sid waiting)
    from relayed(2) have same: "ma_sessions a1 = ma_sessions a" by (cases rule: dispatch_rpc_cases) auto
    have "\<exists>new. length new \<le> 1 \<and> map_of (ma_sessions a') = (map_of (ma_sessions a))(sid \<mapsto> waiting @ new)"
    proof (cases v)
      case None
      with relayed(4,6) same show ?thesis by (intro exI [of _ "[]"]) (auto simp: fun_eq_iff)
    next
      case (Some w)
      with relayed(6) same show ?thesis by (intro exI [of _ "[w]"]) (auto simp: fun_eq_iff map_of_od_set)
    qed
    with Pair relayed(3,4,5) show ?thesis by simp
  qed
qed

text \<open>Every message with an id is answered once, under that id, with a result or with one of the errors of JSON-RPC; only
  the acknowledgement \<open>notifications/initialized\<close> is dropped whatever it carries.\<close>

theorem requests_are_answered:
  "case fst (handle_request E capability tenant msg st) of
     Inr (Some r) \<Rightarrow> answers msg r
   | Inr None \<Rightarrow> map_of msg ''id'' = None \<or> jget msg ''method'' = JStr ''notifications/initialized''
   | Inl _ \<Rightarrow> jget msg ''method'' = JStr ''tools/call''"
proof (cases "handle_request E capability tenant msg st")
  case (Pair x st')
  show ?thesis
  proof (cases x)
    case (Inl e)
    with handle_request_raises Pair show ?thesis by simp
  next
    case (Inr v)
    with handle_request_unanswered [of E capability tenant msg st st'] handle_request_answers [of E capability tenant msg st _ st'] Pair
    show ?thesis by (cases v) auto
  qed
qed

text \<open>The documentation forbids replying to a notification; two methods reply to one, with a null id.\<close>

theorem notification_is_answered:
  "handle_request E capability tenant [(''method'', JStr ''initialize'')] st =
     (Inr (Some (result_response JNull initialize_result)), st)
   \<and> handle_request E capability tenant [(''method'', JStr ''tools/list'')] st =
     (Inr (Some (result_response JNull (JObj [(''tools'', list_mcp_tools E)]))), st)"
  by (simp add: handle_request_def jget_def Let_def)

lemma serve_line_dies: "serve_line E loads capability tenant l st = (Inl e, st') \<Longrightarrow> loads (str_strip l) = Raises e"
  by (auto simp: serve_line_def Let_def split: if_splits decoded.splits json.splits prod.splits sum.splits option.splits)

lemma serve_lines_dies:
  "serve_lines E loads capability tenant ls out st = (Died e, out', st') \<Longrightarrow> \<exists>l \<in> set ls. \<not> too_long l \<and> loads (str_strip l) = Raises e"
  by (induction E loads capability tenant ls out st rule: serve_lines.induct)
     (auto split: if_splits prod.splits sum.splits dest: serve_line_dies)

text \<open>No message brings the stdio server down: if it stops before the end of its input, some line made the JSON decoder
  raise something else than a decoding error. Exceptions of the handlers and of the audit log do not.\<close>

theorem only_the_decoder_stops_the_server:
  "case run_stdio_server E loads capability tenant input st of
     None \<Rightarrow> False
   | Some s \<Rightarrow> (case sd_ended s of
        Some (Died e) \<Rightarrow> \<exists>l. l \<in> set (stream_lines input) \<and> \<not> too_long l \<and> loads (str_strip l) = Raises e
      | Some EndOfInput \<Rightarrow> True
      | None \<Rightarrow> False)"
proof -
  obtain e out st' where s: "serve_lines E loads capability tenant (stream_lines input) [] st = (e, out, st')" by (metis surj_pair)
  with stdio_run [of E loads capability tenant input "[]" st] obtain rest where
    "run_stdio_server E loads capability tenant input st = Some \<lparr>sd_input = rest, sd_output = out, sd_state = st', sd_ended = Some e\<rparr>"
    by (auto simp: run_stdio_server_def)
  with s show ?thesis by (cases e) (auto dest!: serve_lines_dies)
qed

text \<open>And such a line does: nothing after it is served.\<close>

theorem undecodable_line_stops_the_server:
  "if newline \<notin> set l \<and> length l \<le> MAX_LINE_BYTES \<and> str_strip (l @ [newline]) \<noteq> [] \<and> loads (str_strip (l @ [newline])) = Raises e
   then map_option (\<lambda>s. (sd_ended s, sd_output s, sd_state s)) (run_stdio_server E loads capability tenant (l @ newline # rest) st)
          = Some (Some (Died e), [], st)
   else True"
proof (cases "newline \<notin> set l \<and> length l \<le> MAX_LINE_BYTES \<and> str_strip (l @ [newline]) \<noteq> [] \<and> loads (str_strip (l @ [newline])) = Raises e")
  case True
  then have "\<not> too_long (l @ [newline])" by (simp add: too_long_def ends_line_def)
  moreover have "serve_line E loads capability tenant (l @ [newline]) st = (Inl e, st)"
    using True by (simp add: serve_line_def Let_def)
  ultimately have "serve_lines E loads capability tenant (stream_lines (l @ newline # rest)) [] st = (Died e, [], st)"
    using True by (simp add: stream_lines_cons)
  with stdio_run [of E loads capability tenant "l @ newline # rest" "[]" st]
  have "map_option (\<lambda>s. (sd_ended s, sd_output s, sd_state s)) (run_stdio_server E loads capability tenant (l @ newline # rest) st)
          = Some (Some (Died e), [], st)"
    by (auto simp: run_stdio_server_def)
  with True show ?thesis by simp
next
  case False
  then show ?thesis by (simp only: if_False)
qed

end
