(* ===== verification/Mcp_Probes.thy ===== *)
theory Mcp_Probes
  imports Live_Pentest Mcp_Server
begin

text \<open>
  The last section of scripts/live_pentest.py against the modelled HTTP transport of core/mcp_http_server.py.
\<close>

section \<open>The server as a client\<close>

definition mcp_reply :: "(mcp_refusal, nat \<times> json) res \<Rightarrow> nat \<times> json option" where
  "mcp_reply r = (case r of Inl e \<Rightarrow> (mcp_status e, None) | Inr (code, v) \<Rightarrow> (code, Some v))"

definition messages_path :: string where "messages_path = ''/mcp/messages?sessionId=''"

definition mcp_send ::
  "('r, 'w) mcp_services \<Rightarrow> (nat \<Rightarrow> real) \<Rightarrow> string \<Rightarrow> string option \<Rightarrow> string \<Rightarrow> ('r, 'w) mcp_app \<times> nat
   \<Rightarrow> (nat \<times> json option) option \<times> ('r, 'w) mcp_app \<times> nat" where
  "mcp_send X now path header body s =
     (let q = \<lparr>mq_authorization = header, mq_api_key = None, mq_peer = Some ''127.0.0.1'', mq_body = body\<rparr>;
          (r, a) = (if path = ''/mcp/jsonrpc'' then map_prod mcp_reply id (mcp_jsonrpc X (now (snd s)) q (fst s))
                    else if is_prefix messages_path path
                    then map_prod mcp_reply id (mcp_messages X (now (snd s)) q (Some (drop (length messages_path) path)) (fst s))
                    else ((404, None), fst s))
      in (Some r, (a, Suc (snd s))))"

definition mcp_server_client ::
  "('r, 'w) mcp_services \<Rightarrow> (nat \<Rightarrow> real) \<Rightarrow> string \<Rightarrow> (('r, 'w) mcp_app \<times> nat) mcp_client" where
  "mcp_server_client X now sid =
     \<lparr>mt_health = (\<lambda>s. (Some 200, s)),
      mt_post = mcp_send X now,
      mt_listen = (\<lambda>header s. (case mcp_sse sid (fst s) of
                                 (Endpoint path, a) \<Rightarrow> (Some path, (a, snd s)) | (_, a) \<Rightarrow> (None, (a, snd s))))\<rparr>"

section \<open>What the probes rely on\<close>

definition mcp_caller :: "('r, 'w) mcp_services \<Rightarrow> ('r, 'w) mcp_app \<Rightarrow> string option \<Rightarrow> principal option" where
  "mcp_caller X a header =
     (case fst (resolve_principal (mx_shw X) (mx_sha X) (mx_key_file X) header None (ma_keys a)) of Inl _ \<Rightarrow> None | Inr p \<Rightarrow> Some p)"

definition mcp_tenant :: "('r, 'w) mcp_services \<Rightarrow> ('r, 'w) mcp_app \<Rightarrow> string \<Rightarrow> tenant_config" where
  "mcp_tenant X a t = fst (resolve_tenant (mx_convs X) (mx_tenant_file X) t (ma_tenants a))"

definition mcp_known :: "('r, 'w) mcp_services \<Rightarrow> ('r, 'w) mcp_app \<Rightarrow> string \<Rightarrow> bool \<Rightarrow> bool" where
  "mcp_known X a key active \<longleftrightarrow>
     (case mcp_caller X a (hdr (Some key)) of
        None \<Rightarrow> False | Some p \<Rightarrow> pr_authenticated p \<and> suspended (mcp_tenant X a (pr_tenant p)) = (\<not> active))"

definition fits :: "('r, 'w) mcp_services \<Rightarrow> (json \<Rightarrow> string) \<Rightarrow> json \<Rightarrow> bool" where
  "fits X dumps v \<longleftrightarrow> length (dumps v) \<le> MAX_PAYLOAD_BYTES \<and> mx_loads X (dumps v) = Some v"

definition mcp_deployed :: "('r, 'w) mcp_services \<Rightarrow> (json \<Rightarrow> string) \<Rightarrow> ('r, 'w) mcp_app \<Rightarrow> bool" where
  "mcp_deployed X dumps a \<longleftrightarrow>
     mcp_known X a GENERAL_KEY True \<and> mcp_known X a SUSPENDED_KEY False
     \<and> map_of (ma_sessions a) ''non-existent-session-id'' = None
     \<and> list_all (\<lambda>i. fits X dumps (rpc i ''tools/list'' [])) [2, 3, 4, 5] \<and> fits X dumps (JList [JInt 1, JInt 2, JInt 3])
     \<and> mx_loads X ''{bad-json'' = None"

section \<open>Lemmas\<close>

text \<open>A request leaves the keys, the tenants and, at this endpoint, the sessions as they are.\<close>

definition mcp_same :: "('r, 'w) mcp_services \<Rightarrow> ('r, 'w) mcp_app \<Rightarrow> ('r, 'w) mcp_app \<Rightarrow> bool" where
  "mcp_same X a a' \<longleftrightarrow> mcp_caller X a' = mcp_caller X a \<and> mcp_tenant X a' = mcp_tenant X a \<and> ma_sessions a' = ma_sessions a"

lemma resolve_principal_again:
  "fst (resolve_principal shw sha f auth key (snd (resolve_principal shw sha f auth' key' ks))) = fst (resolve_principal shw sha f auth key ks)"
  using resolve_principal_settled [of shw sha f auth key "snd (resolve_principal shw sha f auth' key' ks)"]
  by (simp add: resolve_principal_settles resolve_principal_settled)

lemma resolve_tenant_again:
  "fst (resolve_tenant C f t (snd (resolve_tenant C f t' ts))) = fst (resolve_tenant C f t ts)"
  by (simp add: resolve_tenant_def Let_def)

lemma mcp_limit_frame:
  "mcp_rate_limit X now q tc p a = (r, a') \<Longrightarrow> ma_keys a' = ma_keys a \<and> ma_tenants a' = ma_tenants a \<and> ma_sessions a' = ma_sessions a
     \<and> ((\<exists>x y. r = Inl (RateLimited x y)) \<or> r = Inr ())"
  by (auto simp: mcp_rate_limit_def Let_def split: prod.splits if_splits)

text \<open>The gate, for a caller that is known.\<close>

lemma dispatch_known:
  assumes "mcp_caller X a (auth_header q) = Some p" and "pr_authenticated p" and "dispatch_rpc X now q msg a = (r, a')"
  shows "mcp_same X a a' \<and>
    (if suspended (mcp_tenant X a (pr_tenant p)) then r = Inl (Refused (TenantSuspended (pr_tenant p)))
     else (\<exists>x y. r = Inl (Refused (RateLimited x y)))
       \<or> (\<exists>st st' v. handle_request (mx_env X) (pr_capability p) (pr_tenant p) msg st = (v, st')
            \<and> r = (case v of Inl e \<Rightarrow> Inl (Refused (Unhandled e)) | Inr u \<Rightarrow> Inr u)))"
proof -
  let ?k = "resolve_principal (mx_shw X) (mx_sha X) (mx_key_file X) (auth_header q) None (ma_keys a)"
  obtain ks where k: "?k = (Inr p, ks)"
    using assms(1) by (cases ?k) (auto simp: mcp_caller_def split: sum.splits)
  let ?t = "resolve_tenant (mx_convs X) (mx_tenant_file X) (pr_tenant p) (ma_tenants a)"
  obtain tc ts where t: "?t = (tc, ts)" by fastforce
  then have tc: "mcp_tenant X a (pr_tenant p) = tc" by (simp add: mcp_tenant_def)
  let ?a2 = "a\<lparr>ma_keys := ks, ma_tenants := ts\<rparr>"
  have same: "mcp_same X a b" if "ma_keys b = ks" "ma_tenants b = ts" "ma_sessions b = ma_sessions a" for b :: "('a, 'b) mcp_app"
    using that resolve_principal_again [where auth' = "auth_header q" and key' = None and ks = "ma_keys a"] k
      resolve_tenant_again [where t' = "pr_tenant p" and ts = "ma_tenants a"] t
    by (auto simp: mcp_same_def mcp_caller_def mcp_tenant_def fun_eq_iff) (metis snd_conv)+
  show ?thesis
  proof (cases "suspended tc")
    case True
    with assms(2,3) k t have "r = Inl (Refused (TenantSuspended (pr_tenant p)))" "a' = ?a2"
      by (simp_all add: dispatch_rpc_def)
    with True tc same [of ?a2] show ?thesis by simp
  next
    case False
    obtain l a3 where l: "mcp_rate_limit X now q tc p ?a2 = (l, a3)" by fastforce
    note frame = mcp_limit_frame [OF l]
    obtain v st where h: "handle_request (mx_env X) (pr_capability p) (pr_tenant p) msg (ma_tools a3) = (v, st)" by fastforce
    show ?thesis
    proof (cases l)
      case (Inl e)
      with assms(2,3) k t l False have "r = Inl (Refused e)" "a' = a3" by (simp_all add: dispatch_rpc_def)
      with Inl frame same [of a3] tc False show ?thesis by auto
    next
      case (Inr u)
      with assms(2,3) k t l h False have r: "r = (case v of Inl e \<Rightarrow> Inl (Refused (Unhandled e)) | Inr u \<Rightarrow> Inr u)"
          "a' = a3\<lparr>ma_tools := st\<rparr>"
        by (auto simp: dispatch_rpc_def split: sum.splits)
      moreover from r(2) frame same [of a'] have "mcp_same X a a'" by simp
      ultimately show ?thesis using tc False h by (simp, blast)
    qed
  qed
qed

lemma mcp_known_same: "mcp_same X a a' \<Longrightarrow> mcp_known X a' key active = mcp_known X a key active"
  by (simp add: mcp_same_def mcp_known_def cong: option.case_cong)

lemma mcp_deployed_same: "mcp_same X a a' \<Longrightarrow> mcp_deployed X dumps a' = mcp_deployed X dumps a"
  unfolding mcp_deployed_def by (simp add: mcp_known_same) (simp add: mcp_same_def)

lemma tools_list_answer:
  "handle_request E capability tenant
     [(''jsonrpc'', JStr ''2.0''), (''id'', JInt i), (''method'', JStr ''tools/list''), (''params'', JObj [])] st =
     (Inr (Some (result_response (JInt i) (JObj [(''tools'', list_mcp_tools E)]))), st)"
  by (simp add: handle_request_def jget_def or_else_def Let_def)

lemma length_105K: "MAX_PAYLOAD_BYTES < length (long_text (105 * 1024) c)"
  by (simp add: MAX_PAYLOAD_BYTES_def)

text \<open>What a check comes to against the server.\<close>

lemma mcp_check_jsonrpc:
  assumes "mcp_jsonrpc X (now n) \<lparr>mq_authorization = header, mq_api_key = None, mq_peer = Some ''127.0.0.1'', mq_body = body\<rparr> a = (r, a')"
  shows "mcp_check (mcp_server_client X now sid) name ''/mcp/jsonrpc'' header body judge (a, n) =
    (map_option (\<lambda>passed. [mcp_verdict name passed (Some (fst (mcp_reply r)))]) (judge (mcp_reply r)), (a', Suc n))"
  using assms by (simp add: mcp_check_def mcp_server_client_def mcp_send_def)

lemma header_used: "header \<noteq> Some [] \<Longrightarrow>
    auth_header \<lparr>mq_authorization = header, mq_api_key = None, mq_peer = peer, mq_body = body\<rparr> = header"
  by (cases header) (auto simp: auth_header_def)

text \<open>One promise per request: the verdict is there, positive or excused by the rate limit, and the deployment is kept.\<close>

definition keeps_promise ::
  "('r, 'w) mcp_services \<Rightarrow> (json \<Rightarrow> string) \<Rightarrow> (('r, 'w) mcp_app \<times> nat \<Rightarrow> verdict list option \<times> ('r, 'w) mcp_app \<times> nat) \<Rightarrow> bool" where
  "keeps_promise X dumps f \<longleftrightarrow>
     (\<forall>a n. mcp_deployed X dumps a \<longrightarrow>
        (case f (a, n) of
           (None, s) \<Rightarrow> False
         | (Some vs, s) \<Rightarrow> list_all (\<lambda>v. pt_passed v \<or> pt_code v = Some 429) vs \<and> mcp_deployed X dumps (fst s)))"

lemma bad_body_promise:
  assumes "\<And>a. mcp_deployed X dumps a \<Longrightarrow> read_and_validate_body X body = Inl (code, reply a)"
  shows "keeps_promise X dumps (mcp_check (mcp_server_client X now sid) name ''/mcp/jsonrpc'' header body (code_is code))"
proof -
  have "mcp_jsonrpc X t \<lparr>mq_authorization = header, mq_api_key = None, mq_peer = Some ''127.0.0.1'', mq_body = body\<rparr> a = (Inr (code, reply a), a)"
    if "mcp_deployed X dumps a" for a t using assms [OF that] by (simp add: mcp_jsonrpc_def)
  then show ?thesis
    by (simp add: keeps_promise_def mcp_check_jsonrpc code_is_def mcp_reply_def mcp_verdict_def)
qed

lemma known_caller:
  assumes "mcp_known X a key active"
  obtains p where "mcp_caller X a (hdr (Some key)) = Some p" "pr_authenticated p" "suspended (mcp_tenant X a (pr_tenant p)) = (\<not> active)"
  using assms by (auto simp: mcp_known_def split: option.splits)

lemma hdr_not_empty: "hdr (Some key) \<noteq> Some []"
  by (simp add: hdr_def)

lemma rpc_read: "fits X dumps (rpc i m params) \<Longrightarrow> read_and_validate_body X (dumps (rpc i m params)) =
    Inr [(''jsonrpc'', JStr ''2.0''), (''id'', JInt i), (''method'', JStr m), (''params'', JObj params)]"
  by (simp add: fits_def read_and_validate_body_def rpc_def)

lemma suspended_promise:
  "keeps_promise X dumps (mcp_check (mcp_server_client X now sid) name ''/mcp/jsonrpc'' (hdr (Some SUSPENDED_KEY))
     (dumps (rpc 2 ''tools/list'' [])) (code_is 403))"
  unfolding keeps_promise_def
proof (intro allI impI)
  fix a n assume d: "mcp_deployed X dumps a"
  let ?q = "\<lparr>mq_authorization = hdr (Some SUSPENDED_KEY), mq_api_key = None, mq_peer = Some ''127.0.0.1'',
    mq_body = dumps (rpc 2 ''tools/list'' [])\<rparr>"
  from d have "mcp_known X a SUSPENDED_KEY False" "fits X dumps (rpc 2 ''tools/list'' [])" by (simp_all add: mcp_deployed_def)
  then obtain p where p: "mcp_caller X a (hdr (Some SUSPENDED_KEY)) = Some p" "pr_authenticated p"
      "suspended (mcp_tenant X a (pr_tenant p))" by (auto elim: known_caller)
  let ?msg = "[(''jsonrpc'', JStr ''2.0''), (''id'', JInt 2), (''method'', JStr ''tools/list''), (''params'', JObj [])]"
  obtain r a' where r: "dispatch_rpc X (now n) ?q ?msg a = (r, a')" by fastforce
  from dispatch_known [OF _ p(2) r] p(1,3) have "mcp_same X a a'" "r = Inl (Refused (TenantSuspended (pr_tenant p)))"
    by (simp_all add: header_used hdr_not_empty)
  moreover from this r have "mcp_jsonrpc X (now n) ?q a = (Inl (Refused (TenantSuspended (pr_tenant p))), a')"
    using rpc_read [OF \<open>fits X dumps (rpc 2 ''tools/list'' [])\<close>] by (simp add: mcp_jsonrpc_def and_then_eqs)
  ultimately show "case mcp_check (mcp_server_client X now sid) name ''/mcp/jsonrpc'' (hdr (Some SUSPENDED_KEY))
      (dumps (rpc 2 ''tools/list'' [])) (code_is 403) (a, n) of
         (None, s) \<Rightarrow> False
       | (Some vs, s) \<Rightarrow> list_all (\<lambda>v. pt_passed v \<or> pt_code v = Some 429) vs \<and> mcp_deployed X dumps (fst s)"
    using d by (simp add: mcp_check_jsonrpc code_is_def mcp_reply_def mcp_verdict_def mcp_deployed_same)
qed

text \<open>A caller that is let in gets its list, or is told to slow down.\<close>

lemma list_dispatch:
  assumes "mcp_known X a GENERAL_KEY True" and "auth_header q = hdr (Some GENERAL_KEY)"
    and "dispatch_rpc X t q [(''jsonrpc'', JStr ''2.0''), (''id'', JInt i), (''method'', JStr ''tools/list''), (''params'', JObj [])] a = (r, a')"
  shows "mcp_same X a a' \<and> ((\<exists>x y. r = Inl (Refused (RateLimited x y)))
    \<or> r = Inr (Some (result_response (JInt i) (JObj [(''tools'', list_mcp_tools (mx_env X))]))))"
proof -
  from assms(1) obtain p where p: "mcp_caller X a (hdr (Some GENERAL_KEY)) = Some p" "pr_authenticated p"
      "\<not> suspended (mcp_tenant X a (pr_tenant p))" by (auto elim: known_caller)
  from dispatch_known [OF _ p(2) assms(3)] p(1,3) assms(2) show ?thesis by (auto simp: tools_list_answer)
qed

lemma tools_promise:
  "keeps_promise X dumps (mcp_check (mcp_server_client X now sid) name ''/mcp/jsonrpc'' (hdr (Some GENERAL_KEY))
     (dumps (rpc 4 ''tools/list'' [])) has_tools)"
  unfolding keeps_promise_def
proof (intro allI impI)
  fix a n assume d: "mcp_deployed X dumps a"
  let ?q = "\<lparr>mq_authorization = hdr (Some GENERAL_KEY), mq_api_key = None, mq_peer = Some ''127.0.0.1'',
    mq_body = dumps (rpc 4 ''tools/list'' [])\<rparr>"
  let ?msg = "[(''jsonrpc'', JStr ''2.0''), (''id'', JInt 4), (''method'', JStr ''tools/list''), (''params'', JObj [])]"
  from d have k: "mcp_known X a GENERAL_KEY True" and f: "fits X dumps (rpc 4 ''tools/list'' [])" by (simp_all add: mcp_deployed_def)
  obtain r a' where r: "dispatch_rpc X (now n) ?q ?msg a = (r, a')" by fastforce
  have answer: "mcp_same X a a' \<and> ((\<exists>x y. r = Inl (Refused (RateLimited x y)))
      \<or> r = Inr (Some (result_response (JInt 4) (JObj [(''tools'', list_mcp_tools (mx_env X))]))))"
    using list_dispatch [OF k _ r] by (simp add: header_used hdr_not_empty)
  then have same: "mcp_same X a a'" ..
  from answer show "case mcp_check (mcp_server_client X now sid) name ''/mcp/jsonrpc'' (hdr (Some GENERAL_KEY))
      (dumps (rpc 4 ''tools/list'' [])) has_tools (a, n) of
         (None, s) \<Rightarrow> False
       | (Some vs, s) \<Rightarrow> list_all (\<lambda>v. pt_passed v \<or> pt_code v = Some 429) vs \<and> mcp_deployed X dumps (fst s)"
  proof (elim conjE disjE exE)
    fix x y assume "r = Inl (Refused (RateLimited x y))"
    with r have "mcp_jsonrpc X (now n) ?q a = (Inl (Refused (RateLimited x y)), a')"
      using rpc_read [OF f] by (simp add: mcp_jsonrpc_def and_then_eqs)
    then show ?thesis
      using d same by (simp add: mcp_check_jsonrpc has_tools_def mcp_reply_def mcp_verdict_def mcp_deployed_same)
  next
    assume "r = Inr (Some (result_response (JInt 4) (JObj [(''tools'', list_mcp_tools (mx_env X))])))"
    with r have "mcp_jsonrpc X (now n) ?q a =
        (Inr (200, result_response (JInt 4) (JObj [(''tools'', list_mcp_tools (mx_env X))])), a')"
      using rpc_read [OF f] by (simp add: mcp_jsonrpc_def and_then_eqs direct_reply_def)
    then show ?thesis
      using d same by (simp add: mcp_check_jsonrpc has_tools_def mcp_reply_def mcp_verdict_def mcp_deployed_same result_response_def)
  qed
qed

text \<open>The path with a session in it.\<close>

lemma messages_send:
  assumes "mcp_messages X (now n) \<lparr>mq_authorization = header, mq_api_key = None, mq_peer = Some ''127.0.0.1'', mq_body = body\<rparr> (Some sid) a = (r, a')"
  shows "mcp_send X now (messages_path @ sid) header body (a, n) = (Some (mcp_reply r), (a', Suc n))"
proof -
  have "messages_path @ sid \<noteq> ''/mcp/jsonrpc''" by (simp add: messages_path_def)
  moreover have "is_prefix messages_path (messages_path @ sid)" by (auto simp: is_prefix_iff)
  ultimately show ?thesis using assms by (simp add: mcp_send_def)
qed

lemma lost_session_promise:
  "keeps_promise X dumps (mcp_check (mcp_server_client X now sid) name ''/mcp/messages?sessionId=non-existent-session-id''
     (hdr (Some GENERAL_KEY)) (dumps (rpc 3 ''tools/list'' [])) (code_is 404))"
proof -
  have path: "''/mcp/messages?sessionId=non-existent-session-id'' = messages_path @ ''non-existent-session-id''"
    by (simp add: messages_path_def)
  have "mcp_messages X t \<lparr>mq_authorization = header, mq_api_key = None, mq_peer = Some ''127.0.0.1'', mq_body = dumps (rpc 3 ''tools/list'' [])\<rparr>
      (Some ''non-existent-session-id'') a = (Inl (UnknownSession ''non-existent-session-id''), a)"
    if "mcp_deployed X dumps a" for a header t
  proof -
    from that have "map_of (ma_sessions a) ''non-existent-session-id'' = None" "fits X dumps (rpc 3 ''tools/list'' [])"
      by (simp_all add: mcp_deployed_def)
    then show ?thesis by (simp add: mcp_messages_def rpc_read)
  qed
  then show ?thesis
    unfolding path keeps_promise_def mcp_check_def mcp_server_client_def
    by (simp add: messages_send code_is_def mcp_reply_def mcp_verdict_def)
qed

lemma stream_promise:
  assumes "mcp_deployed X dumps a"
  shows "case stream_section dumps (mcp_server_client X now sid) (a, n) of
      (None, s) \<Rightarrow> False | (Some vs, s) \<Rightarrow> list_all (\<lambda>v. pt_passed v \<or> pt_code v = Some 429) vs"
proof -
  let ?a1 = "a\<lparr>ma_sessions := od_set sid [] (ma_sessions a)\<rparr>"
  let ?q = "\<lparr>mq_authorization = hdr (Some GENERAL_KEY), mq_api_key = None, mq_peer = Some ''127.0.0.1'',
    mq_body = dumps (rpc 5 ''tools/list'' [])\<rparr>"
  let ?msg = "[(''jsonrpc'', JStr ''2.0''), (''id'', JInt 5), (''method'', JStr ''tools/list''), (''params'', JObj [])]"
  from assms have k: "mcp_known X ?a1 GENERAL_KEY True" and f: "fits X dumps (rpc 5 ''tools/list'' [])"
    by (simp_all add: mcp_deployed_def mcp_known_def mcp_caller_def mcp_tenant_def cong: option.case_cong)
  have session: "map_of (ma_sessions ?a1) sid = Some []" by (simp add: map_of_od_set)
  obtain r a' where r: "dispatch_rpc X (now n) ?q ?msg ?a1 = (r, a')" by fastforce
  from list_dispatch [OF k _ r] have "(\<exists>x y. r = Inl (Refused (RateLimited x y)))
      \<or> r = Inr (Some (result_response (JInt 5) (JObj [(''tools'', list_mcp_tools (mx_env X))])))"
    by (simp add: header_used hdr_not_empty)
  moreover obtain v a2 where m: "mcp_messages X (now n) ?q (Some sid) ?a1 = (v, a2)" by fastforce
  ultimately have "fst (mcp_reply v) \<in> {202, 429}"
    using r session rpc_read [OF f] by (auto simp: mcp_messages_def and_then_eqs mcp_reply_def)
  moreover have "stream_section dumps (mcp_server_client X now sid) (a, n) =
      (Some [mcp_verdict ''mcp_sse_handshake_and_endpoint_discovery'' True None,
             mcp_verdict ''mcp_session_post_returns_202_accepted'' (fst (mcp_reply v) = 202) (Some (fst (mcp_reply v)))], (a2, Suc n))"
    using messages_send [of X now n, OF m]
    by (simp add: stream_section_def mcp_server_client_def mcp_sse_def messages_path_def)
  ultimately show ?thesis by (auto simp: mcp_verdict_def)
qed

section \<open>Properties\<close>

text \<open>Claim C16: the HTTP transport stands the probes too. After the call with the forged key, every other request of the section gets
  what the script asks for: a suspended tenant is refused, an oversized, malformed or non-object body is rejected before
  anything is dispatched, a session that does not exist is not found, and a caller that is let in gets its list of tools
  and may post to the session it was given, or is told to slow down.\<close>

theorem mcp_server_stands_the_probes:
  "if mcp_deployed X dumps a
   then case foldl then_section (Some [], (a, n)) (drop 1 (mcp_requests dumps shw (mcp_server_client X now sid))) of
          (None, s) \<Rightarrow> False
        | (Some vs, s) \<Rightarrow> list_all (\<lambda>v. pt_passed v \<or> pt_code v = Some 429) vs
   else True"
proof (cases "mcp_deployed X dumps a")
  case True
  let ?c = "mcp_server_client X now sid"
  have each: "\<forall>f \<in> set (butlast (drop 1 (mcp_requests dumps shw ?c))). keeps_promise X dumps f"
  proof -
    have "keeps_promise X dumps (mcp_check ?c name ''/mcp/jsonrpc'' header (long_text (105 * 1024) (CHR ''x'')) (code_is 413))"
      for name header
      using length_105K by (intro bad_body_promise [where reply = "\<lambda>a. error_response JNull (-32000) ''Request payload exceeds maximum size of 102400 bytes.''"])
        (simp add: read_and_validate_body_def)
    moreover have "keeps_promise X dumps (mcp_check ?c name ''/mcp/jsonrpc'' header ''{bad-json'' (code_is 400))" for name header
      by (intro bad_body_promise [where reply = "\<lambda>a. error_response JNull (-32700) ''Parse error: malformed JSON payload.''"])
        (simp add: read_and_validate_body_def mcp_deployed_def MAX_PAYLOAD_BYTES_def)
    moreover have "keeps_promise X dumps (mcp_check ?c name ''/mcp/jsonrpc'' header (dumps (JList [JInt 1, JInt 2, JInt 3])) (code_is 400))"
      for name header
      by (intro bad_body_promise [where reply = "\<lambda>a. error_response JNull (-32600) ''Invalid Request: top-level JSON-RPC payload must be a JSON object.''"])
        (simp add: read_and_validate_body_def mcp_deployed_def fits_def)
    ultimately show ?thesis
      by (simp add: mcp_requests_def suspended_promise tools_promise lost_session_promise Let_def)
  qed
  have run: "case foldl then_section (Some us, (b, m)) fs of
      (None, s) \<Rightarrow> False
    | (Some vs, s) \<Rightarrow> list_all (\<lambda>v. pt_passed v \<or> pt_code v = Some 429) vs \<and> mcp_deployed X dumps (fst s)"
    if "\<forall>f \<in> set fs. keeps_promise X dumps f" "mcp_deployed X dumps b" "list_all (\<lambda>v. pt_passed v \<or> pt_code v = Some 429) us"
    for fs us b m
    using that
  proof (induction fs arbitrary: us b m)
    case (Cons f fs)
    then have "keeps_promise X dumps f" by simp
    with Cons.prems(2) obtain vs b1 m1 where f: "f (b, m) = (Some vs, (b1, m1))" "list_all (\<lambda>v. pt_passed v \<or> pt_code v = Some 429) vs"
        "mcp_deployed X dumps b1"
      unfolding keeps_promise_def by (auto split: prod.splits option.splits) (metis fst_conv surj_pair)
    then show ?case
      using Cons.IH [of b1 "us @ vs" m1] Cons.prems by (simp add: then_section_def)
  qed simp
  have shape: "drop 1 (mcp_requests dumps shw ?c) = butlast (drop 1 (mcp_requests dumps shw ?c)) @ [stream_section dumps ?c]"
    by (simp add: mcp_requests_def Let_def)
  from run [OF each True, of "[]" n] obtain vs b m where
    front: "foldl then_section (Some [], (a, n)) (butlast (drop 1 (mcp_requests dumps shw ?c))) = (Some vs, (b, m))"
      "list_all (\<lambda>v. pt_passed v \<or> pt_code v = Some 429) vs" "mcp_deployed X dumps b"
    by (auto split: prod.splits option.splits)
  from stream_promise [OF front(3), of now sid m] have
    "case then_section (Some vs, (b, m)) (stream_section dumps ?c) of
       (None, s) \<Rightarrow> False | (Some vs, s) \<Rightarrow> list_all (\<lambda>v. pt_passed v \<or> pt_code v = Some 429) vs"
    using front(2) by (auto simp: then_section_def split: prod.splits option.splits)
  then show ?thesis by (subst shape) (simp only: True if_True foldl_append foldl.simps front(1))
qed simp

section \<open>Such a server\<close>

text \<open>The keys of the other deployment, and a stand-in for the two halves of the JSON library that knows the bodies of the
  script.\<close>

definition demo_dumps :: "json \<Rightarrow> string" where
  "demo_dumps v =
     (if v = rpc 2 ''tools/list'' [] then ''2'' else if v = rpc 3 ''tools/list'' [] then ''3''
      else if v = rpc 4 ''tools/list'' [] then ''4'' else if v = rpc 5 ''tools/list'' [] then ''5'' else ''[]'')"

definition demo_loads :: "string \<Rightarrow> json option" where
  "demo_loads s =
     (if s = ''2'' then Some (rpc 2 ''tools/list'' []) else if s = ''3'' then Some (rpc 3 ''tools/list'' [])
      else if s = ''4'' then Some (rpc 4 ''tools/list'' []) else if s = ''5'' then Some (rpc 5 ''tools/list'' [])
      else if s = ''[]'' then Some (JList [JInt 1, JInt 2, JInt 3]) else None)"

definition demo_mcp_services :: "('r, 'w) mcp_services \<Rightarrow> ('r, 'w) mcp_services" where
  "demo_mcp_services X = X\<lparr>mx_sha := demo_sha, mx_loads := demo_loads\<rparr>"

definition demo_mcp_app :: "('r, 'w) mcp_app \<Rightarrow> ('r, 'w) mcp_app" where
  "demo_mcp_app a = a\<lparr>ma_keys := demo_keys, ma_tenants := demo_tenants, ma_sessions := []\<rparr>"

lemma demo_mcp_deployed: "mcp_deployed (demo_mcp_services X) demo_dumps (demo_mcp_app a)"
proof -
  have loaded: "keys_load shw False content demo_keys = demo_keys" for shw content by (simp add: keys_load_def demo_keys_def)
  have keys: "GENERAL_KEY \<noteq> []" "SUSPENDED_KEY \<noteq> []" using keys_have_underscores by auto
  have "mcp_known (demo_mcp_services X) (demo_mcp_app a) GENERAL_KEY True"
    "mcp_known (demo_mcp_services X) (demo_mcp_app a) SUSPENDED_KEY False"
    by (simp_all add: mcp_known_def mcp_caller_def mcp_tenant_def resolve_principal_def keys_lookup_def loaded demo_mcp_services_def
        demo_mcp_app_def demo_tokens demo_grants keys verified_def resolve_tenant_def tenants_load_def demo_tenants_def
        suspended_def DEFAULT_TENANT_def Let_def)
  then show ?thesis
    by (simp add: mcp_deployed_def fits_def demo_mcp_services_def demo_mcp_app_def demo_loads_def demo_dumps_def rpc_def
        MAX_PAYLOAD_BYTES_def)
qed

theorem mcp_server_stands_the_probes_witness:
  "\<forall>X a n now sid shw. \<exists>vs s.
     foldl then_section (Some [], (demo_mcp_app a, n)) (drop 1 (mcp_requests demo_dumps shw (mcp_server_client (demo_mcp_services X) now sid)))
       = (Some vs, s)
     \<and> list_all (\<lambda>v. pt_passed v \<or> pt_code v = Some 429) vs"
proof (intro allI)
  fix X :: "('r, 'w) mcp_services" and a n now sid shw
  show "\<exists>vs s. foldl then_section (Some [], (demo_mcp_app a, n))
      (drop 1 (mcp_requests demo_dumps shw (mcp_server_client (demo_mcp_services X) now sid))) = (Some vs, s)
     \<and> list_all (\<lambda>v. pt_passed v \<or> pt_code v = Some 429) vs"
    using mcp_server_stands_the_probes [of "demo_mcp_services X" demo_dumps "demo_mcp_app a" n shw now sid]
    unfolding if_P [OF demo_mcp_deployed [of X a]] by (auto split: prod.splits option.splits)
qed

end
