(* ===== verification/Detectors.thy ===== *)
theory Detectors
  imports Fusion Output_Guard Tools "HOL-Library.List_Lexorder" "HOL-Library.Char_ord"
begin

text \<open>
  core/detectors.py without the networks: the check of the weights against the manifest, lazy loading
  with its memory of a failure, what the scores are computed from, the registry. A network is a
  function from a batch of texts to rows of logits (or an embedding, or a signed score), the libraries
  that fetch it are their result. The interface of the lazy loaders is a locale, interpreted for each of
  the four classes.
\<close>

section \<open>Integrity of the weights\<close>

text \<open>All but the last are raised as \<open>ModelIntegrityError\<close>; the last stands for \<open>TypeError\<close> and
  \<open>AttributeError\<close> on a manifest of another shape.\<close>

datatype verify_error =
    NoManifest | UnreadableManifest | NotInManifest | RevisionMismatch | UnresolvedWeights | NoWeights | HashMismatch
  | OddManifest

text \<open>The files of the hub's cache by name: what the index finds, what a local download finds, and whether the
  library raises.\<close>

record hub =
  hb_cached :: "string \<Rightarrow> string option"
  hb_local :: "string \<Rightarrow> string option"
  hb_raises :: bool

fun first_some :: "('a \<Rightarrow> 'b option) \<Rightarrow> 'a list \<Rightarrow> 'b option" where
  "first_some f [] = None"
| "first_some f (x # xs) = (case f x of Some v \<Rightarrow> Some v | None \<Rightarrow> first_some f xs)"

definition locate_weights :: "hub \<Rightarrow> string list \<Rightarrow> string option" where
  "locate_weights hub names =
     (case first_some (hb_cached hub) names of Some c \<Rightarrow> Some c | None \<Rightarrow> first_some (hb_local hub) names)"

definition check_entry ::
  "(string \<Rightarrow> string) \<Rightarrow> hub \<Rightarrow> string option \<Rightarrow> (string \<times> json) list \<Rightarrow> (verify_error, unit) res" where
  "check_entry sha hub revision entry =
     (let expected_rev = jget entry ''revision'';
          expected = jget entry ''sha256'';
          names = (case jget entry ''filename'' of
                     JStr f \<Rightarrow> if f = [] then Some [''model.safetensors'', ''pytorch_model.bin''] else Some [f]
                   | v \<Rightarrow> if truthy v then None else Some [''model.safetensors'', ''pytorch_model.bin''])
      in if truthy expected_rev \<and> (case revision of None \<Rightarrow> False | Some r \<Rightarrow> r \<noteq> [] \<and> expected_rev \<noteq> JStr r)
         then Inl RevisionMismatch
         else if \<not> truthy expected then Inr ()
         else if hb_raises hub \<or> names = None then Inl UnresolvedWeights
         else case locate_weights hub (the names) of
                None \<Rightarrow> Inl NoWeights
              | Some content \<Rightarrow> if expected = JStr (sha content) then Inr () else Inl HashMismatch)"

definition verify_detector_integrity ::
  "(string \<Rightarrow> string) \<Rightarrow> hub \<Rightarrow> file_content \<Rightarrow> string \<Rightarrow> string option \<Rightarrow> (verify_error, unit) res" where
  "verify_detector_integrity sha hub manifest name revision =
     (case manifest of
        Absent \<Rightarrow> Inl NoManifest
      | Unreadable \<Rightarrow> Inl UnreadableManifest
      | Parsed (JObj m) \<Rightarrow>
          (case map_of m name of
             None \<Rightarrow> Inl NotInManifest
           | Some (JObj entry) \<Rightarrow> check_entry sha hub revision entry
           | Some _ \<Rightarrow> Inl OddManifest)
      | Parsed (JList xs) \<Rightarrow> Inl (if JStr name \<in> set xs then OddManifest else NotInManifest)
      | Parsed (JStr s) \<Rightarrow> Inl (if contains name s then OddManifest else NotInManifest)
      | Parsed _ \<Rightarrow> Inl OddManifest)"

section \<open>Lazy loading\<close>

datatype load_problem =
    LibraryRaised string | NoPositiveLabel | NotEnoughMemory | NoVerdictTokens | SharedVerdictToken
  | NoHeadArtifact | HeadFieldsMissing | HeadLengthMismatch | ManifestRaised

text \<open>\<open>_model\<close> (or \<open>_encoder\<close>, \<open>_classifier\<close>) and \<open>_load_error\<close>.\<close>

record 'm loader =
  ld_model :: "'m option"
  ld_error :: "load_problem option"

definition fresh_loader :: "'m loader" where
  "fresh_loader = \<lparr>ld_model = None, ld_error = None\<rparr>"

definition settled :: "'m loader \<Rightarrow> bool" where
  "settled l \<longleftrightarrow> ld_model l \<noteq> None \<or> ld_error l \<noteq> None"

text \<open>What the libraries give: the network, or an exception.\<close>

datatype 'm fetched = Fetched 'm | FetchRaises string

text \<open>The end of every \<open>_load\<close>: the model is stored, then checked when \<open>DETECTOR_VERIFY_HASHES\<close> is set. An
  integrity error leaves the method; any other exception is remembered.\<close>

definition store_and_verify ::
  "bool \<Rightarrow> (verify_error, unit) res \<Rightarrow> 'm \<Rightarrow> 'm loader \<Rightarrow> (verify_error, unit) res \<times> 'm loader" where
  "store_and_verify verify outcome m l =
     (let l1 = l\<lparr>ld_model := Some m\<rparr>
      in if \<not> verify then (Inr (), l1)
         else case outcome of
                Inr _ \<Rightarrow> (Inr (), l1)
              | Inl OddManifest \<Rightarrow> (Inr (), l1\<lparr>ld_error := Some ManifestRaised\<rparr>)
              | Inl e \<Rightarrow> (Inl e, l1))"

definition positive_ids :: "string list \<Rightarrow> (nat \<times> string) list \<Rightarrow> nat list" where
  "positive_ids labels id2label =
     map fst (filter (\<lambda>(i, label). str_lower label \<in> set (map str_lower labels)) id2label)"

definition transformer_load ::
  "string list \<Rightarrow> ('m \<times> (nat \<times> string) list) fetched \<Rightarrow> bool \<Rightarrow> (verify_error, unit) res
   \<Rightarrow> ('m \<times> nat list) loader \<Rightarrow> (verify_error, unit) res \<times> ('m \<times> nat list) loader" where
  "transformer_load labels fetched verify outcome l =
     (if settled l then (Inr (), l)
      else case fetched of
             FetchRaises e \<Rightarrow> (Inr (), l\<lparr>ld_error := Some (LibraryRaised e)\<rparr>)
           | Fetched (m, id2label) \<Rightarrow>
               let ids = positive_ids labels id2label
               in if ids = [] then (Inr (), l\<lparr>ld_model := None, ld_error := Some NoPositiveLabel\<rparr>)
                  else store_and_verify verify outcome (m, ids) l)"

text \<open>The multilingual head: an artifact of numbers over an encoder. \<open>json_len\<close> is \<open>len\<close>, which raises on numbers.\<close>

record head =
  hd_mean :: json
  hd_scale :: json
  hd_coefficients :: json
  hd_intercept :: json

fun json_len :: "json \<Rightarrow> nat option" where
  "json_len (JList xs) = Some (length xs)"
| "json_len (JStr s) = Some (length s)"
| "json_len (JObj kvs) = Some (length kvs)"
| "json_len _ = None"

definition HEAD_FIELDS :: "string list" where
  "HEAD_FIELDS = [''model_id'', ''scaler_mean'', ''scaler_scale'', ''coefficients'', ''intercept'']"

definition read_head :: "file_content \<Rightarrow> (load_problem, head) res" where
  "read_head file =
     (case file of
        Absent \<Rightarrow> Inl NoHeadArtifact
      | Unreadable \<Rightarrow> Inl (LibraryRaised ''JSONDecodeError'')
      | Parsed (JObj a) \<Rightarrow>
          if list_ex (\<lambda>f. map_of a f = None) HEAD_FIELDS then Inl HeadFieldsMissing
          else (case (json_len (jget a ''scaler_mean''), json_len (jget a ''scaler_scale''), json_len (jget a ''coefficients'')) of
                  (Some n, Some s, Some c) \<Rightarrow>
                    if s = c \<and> c = n
                    then Inr \<lparr>hd_mean = jget a ''scaler_mean'', hd_scale = jget a ''scaler_scale'',
                              hd_coefficients = jget a ''coefficients'', hd_intercept = jget a ''intercept''\<rparr>
                    else Inl HeadLengthMismatch
                | _ \<Rightarrow> Inl (LibraryRaised ''TypeError''))
      | Parsed (JList xs) \<Rightarrow>
          if list_ex (\<lambda>x. case x of JList _ \<Rightarrow> True | JObj _ \<Rightarrow> True | _ \<Rightarrow> False) xs
             \<or> list_all (\<lambda>f. JStr f \<in> set xs) HEAD_FIELDS then Inl (LibraryRaised ''TypeError'') else Inl HeadFieldsMissing
      | Parsed (JStr _) \<Rightarrow> Inl HeadFieldsMissing
      | Parsed _ \<Rightarrow> Inl (LibraryRaised ''TypeError''))"

definition head_load ::
  "file_content \<Rightarrow> 'm fetched \<Rightarrow> bool \<Rightarrow> (verify_error, unit) res
   \<Rightarrow> ('m \<times> head) loader \<Rightarrow> (verify_error, unit) res \<times> ('m \<times> head) loader" where
  "head_load file fetched verify outcome l =
     (if settled l then (Inr (), l)
      else case read_head file of
             Inl e \<Rightarrow> (Inr (), l\<lparr>ld_error := Some e\<rparr>)
           | Inr a \<Rightarrow>
               (case fetched of
                  FetchRaises e \<Rightarrow> (Inr (), l\<lparr>ld_error := Some (LibraryRaised e)\<rparr>)
                | Fetched m \<Rightarrow> store_and_verify verify outcome (m, a) l))"

text \<open>Llama Guard: the free memory (\<open>None\<close> without psutil), the token ids of the two verdicts.\<close>

definition resolve_verdict_tokens :: "nat list \<Rightarrow> nat list \<Rightarrow> (load_problem, nat \<times> nat) res" where
  "resolve_verdict_tokens safe_ids unsafe_ids =
     (case (safe_ids, unsafe_ids) of
        (s # _, u # _) \<Rightarrow> if s = u then Inl SharedVerdictToken else Inr (s, u)
      | _ \<Rightarrow> Inl NoVerdictTokens)"

definition guard_load ::
  "real option \<Rightarrow> real \<Rightarrow> (nat list \<times> nat list) fetched \<Rightarrow> 'm fetched \<Rightarrow> bool \<Rightarrow> (verify_error, unit) res
   \<Rightarrow> ('m \<times> nat \<times> nat) loader \<Rightarrow> (verify_error, unit) res \<times> ('m \<times> nat \<times> nat) loader" where
  "guard_load free_gb min_free_gb tokenizer fetched verify outcome l =
     (if settled l then (Inr (), l)
      else if (case free_gb of None \<Rightarrow> False | Some free \<Rightarrow> free < min_free_gb)
      then (Inr (), l\<lparr>ld_error := Some NotEnoughMemory\<rparr>)
      else case tokenizer of
             FetchRaises e \<Rightarrow> (Inr (), l\<lparr>ld_error := Some (LibraryRaised e)\<rparr>)
           | Fetched (safe_ids, unsafe_ids) \<Rightarrow>
               (case resolve_verdict_tokens safe_ids unsafe_ids of
                  Inl e \<Rightarrow> (Inr (), l\<lparr>ld_error := Some e\<rparr>)
                | Inr (s, u) \<Rightarrow>
                    (case fetched of
                       FetchRaises e \<Rightarrow> (Inr (), l\<lparr>ld_error := Some (LibraryRaised e)\<rparr>)
                     | Fetched m \<Rightarrow> store_and_verify verify outcome (m, s, u) l)))"

definition nemo_load ::
  "'m fetched \<Rightarrow> bool \<Rightarrow> (verify_error, unit) res \<Rightarrow> 'm loader \<Rightarrow> (verify_error, unit) res \<times> 'm loader" where
  "nemo_load fetched verify outcome l =
     (if settled l then (Inr (), l)
      else case fetched of
             FetchRaises e \<Rightarrow> (Inr (), l\<lparr>ld_error := Some (LibraryRaised e)\<rparr>)
           | Fetched m \<Rightarrow> store_and_verify verify outcome m l)"

text \<open>\<open>available()\<close>: the first two classes look at the error, the others at the model.\<close>

definition available_by_error :: "('m loader \<Rightarrow> (verify_error, unit) res \<times> 'm loader) \<Rightarrow> 'm loader \<Rightarrow> (verify_error, bool) res \<times> 'm loader" where
  "available_by_error load l =
     (case load l of (Inl e, l1) \<Rightarrow> (Inl e, l1) | (Inr _, l1) \<Rightarrow> (Inr (ld_error l1 = None), l1))"

definition available_by_model :: "('m loader \<Rightarrow> (verify_error, unit) res \<times> 'm loader) \<Rightarrow> 'm loader \<Rightarrow> (verify_error, bool) res \<times> 'm loader" where
  "available_by_model load l =
     (case load l of (Inl e, l1) \<Rightarrow> (Inl e, l1) | (Inr _, l1) \<Rightarrow> (Inr (ld_model l1 \<noteq> None), l1))"

section \<open>Scores\<close>

datatype score_error = IntegrityRaised verify_error | NotLoaded | BadRow

definition not_blank :: "string \<Rightarrow> string" where
  "not_blank t = (if str_strip t = [] then '' '' else t)"

function batches :: "nat \<Rightarrow> 'a list \<Rightarrow> 'a list list" where
  "batches n xs = (if xs = [] \<or> n = 0 then [] else take n xs # batches n (drop n xs))"
  by pat_completeness auto
termination
  by (relation "measure (\<lambda>(n, xs). length xs)") (auto simp: neq_Nil_conv)

declare batches.simps [simp del]

text \<open>\<open>score_batch\<close>: load, refuse without a model, score batch by batch.\<close>

definition score_batch ::
  "('m loader \<Rightarrow> (verify_error, unit) res \<times> 'm loader) \<Rightarrow> ('m \<Rightarrow> string list \<Rightarrow> (score_error, real list) res) \<Rightarrow> nat
   \<Rightarrow> string list \<Rightarrow> 'm loader \<Rightarrow> (score_error, real list) res \<times> 'm loader" where
  "score_batch load run n texts l =
     (case load l of
        (Inl e, l1) \<Rightarrow> (Inl (IntegrityRaised e), l1)
      | (Inr _, l1) \<Rightarrow>
          (case ld_model l1 of
             None \<Rightarrow> (Inl NotLoaded, l1)
           | Some m \<Rightarrow>
               (foldr (\<lambda>chunk rest. case run m (map not_blank chunk) of
                         Inl e \<Rightarrow> Inl e
                       | Inr ss \<Rightarrow> (case rest of Inl e \<Rightarrow> Inl e | Inr others \<Rightarrow> Inr (ss @ others)))
                 (batches n texts) (Inr []), l1)))"

fun map_res :: "('a \<Rightarrow> ('e, 'b) res) \<Rightarrow> 'a list \<Rightarrow> ('e, 'b list) res" where
  "map_res f [] = Inr []"
| "map_res f (x # xs) =
     (case f x of Inl e \<Rightarrow> Inl e | Inr y \<Rightarrow> (case map_res f xs of Inl e \<Rightarrow> Inl e | Inr ys \<Rightarrow> Inr (y # ys)))"

definition softmax :: "real list \<Rightarrow> real list" where
  "softmax row = (let total = sum_list (map exp row) in map (\<lambda>x. exp x / total) row)"

definition label_probabilities :: "bool \<Rightarrow> real list \<Rightarrow> real list" where
  "label_probabilities multi_label row = (if multi_label then map (\<lambda>x. 1 / (1 + exp (- x))) row else softmax row)"

definition transformer_row :: "bool \<Rightarrow> nat list \<Rightarrow> real list \<Rightarrow> (score_error, real) res" where
  "transformer_row multi_label ids row =
     (let probs = label_probabilities multi_label row
      in if ids \<noteq> [] \<and> list_all (\<lambda>i. i < length row) ids then Inr (Max (set (map (\<lambda>i. probs ! i) ids))) else Inl BadRow)"

definition transformer_run ::
  "('m \<Rightarrow> string list \<Rightarrow> real list list) \<Rightarrow> bool \<Rightarrow> 'm \<times> nat list \<Rightarrow> string list \<Rightarrow> (score_error, real list) res" where
  "transformer_run logits multi_label m texts = map_res (transformer_row multi_label (snd m)) (logits (fst m) texts)"

text \<open>\<open>zip\<close> stops at the shortest of the four; with a false scale neither mean nor scale is used.\<close>

definition json_items :: "json \<Rightarrow> json list" where
  "json_items v =
     (case v of JList xs \<Rightarrow> xs | JStr s \<Rightarrow> map (\<lambda>c. JStr [c]) s | JObj kvs \<Rightarrow> map (\<lambda>kv. JStr (fst kv)) kvs | _ \<Rightarrow> [])"

definition standardized :: "real \<Rightarrow> json \<Rightarrow> json \<Rightarrow> real option" where
  "standardized x mean scale =
     (if truthy scale then (case (num_of mean, num_of scale) of (Some m, Some s) \<Rightarrow> Some ((x - m) / s) | _ \<Rightarrow> None)
      else Some 0)"

fun head_sum :: "real \<Rightarrow> real list \<Rightarrow> json list \<Rightarrow> json list \<Rightarrow> json list \<Rightarrow> real option" where
  "head_sum z (x # xs) (m # ms) (s # ss) (c # cs) =
     (case (standardized x m s, num_of c) of
        (Some v, Some coef) \<Rightarrow> head_sum (z + coef * v) xs ms ss cs
      | _ \<Rightarrow> None)"
| "head_sum z _ _ _ _ = Some z"

definition apply_head :: "head \<Rightarrow> real list \<Rightarrow> (score_error, real) res" where
  "apply_head a vec =
     (case num_of (hd_intercept a) of
        None \<Rightarrow> Inl BadRow
      | Some z0 \<Rightarrow>
          (case head_sum z0 vec (json_items (hd_mean a)) (json_items (hd_scale a)) (json_items (hd_coefficients a)) of
             None \<Rightarrow> Inl BadRow
           | Some z \<Rightarrow> Inr (sigmoid z)))"

definition head_run :: "('m \<Rightarrow> string list \<Rightarrow> real list list) \<Rightarrow> 'm \<times> head \<Rightarrow> string list \<Rightarrow> (score_error, real list) res" where
  "head_run encode m texts = map_res (apply_head (snd m)) (encode (fst m) texts)"

text \<open>The probability of \<open>unsafe\<close> against \<open>safe\<close> at the position of the verdict.\<close>

definition verdict_score :: "nat \<Rightarrow> nat \<Rightarrow> (nat \<Rightarrow> real) \<Rightarrow> real" where
  "verdict_score safe_id unsafe_id row = softmax [row safe_id, row unsafe_id] ! 1"

definition guard_run ::
  "('m \<Rightarrow> string list \<Rightarrow> (nat \<Rightarrow> real) list) \<Rightarrow> 'm \<times> nat \<times> nat \<Rightarrow> string list \<Rightarrow> (score_error, real list) res" where
  "guard_run logits m texts = (case m of (net, s, u) \<Rightarrow> Inr (map (verdict_score s u) (logits net texts)))"

definition nemo_score :: "real \<Rightarrow> real" where
  "nemo_score signed = (if signed > 0 then signed else 1 + signed)"

definition nemo_run :: "('m \<Rightarrow> string \<Rightarrow> real) \<Rightarrow> 'm \<Rightarrow> string list \<Rightarrow> (score_error, real list) res" where
  "nemo_run classifier m texts = Inr (map (\<lambda>t. nemo_score (classifier m t)) texts)"

definition anchor_score :: "(string \<Rightarrow> bool) \<Rightarrow> (string \<Rightarrow> real) \<Rightarrow> (string \<Rightarrow> real) \<Rightarrow> string \<Rightarrow> real" where
  "anchor_score hard_ban threat meta text = (if hard_ban text then 1 else max (threat text) (meta text))"

text \<open>\<open>None\<close>: importing the anchors raised.\<close>

definition anchors_available :: "string list option \<Rightarrow> bool" where
  "anchors_available anchors = (case anchors of None \<Rightarrow> False | Some xs \<Rightarrow> xs \<noteq> [])"

section \<open>Llama Guard's prompt\<close>

text \<open>The template of the tokenizer, \<open>None\<close> when it raises; both forms of the content.\<close>

datatype content = Parts string | Plain string

definition MARKER :: string where "MARKER = ''GATEKEEPER_CONTENT_MARKER''"

definition render_chat :: "(content \<Rightarrow> string option) option \<Rightarrow> string \<Rightarrow> string option" where
  "render_chat template t =
     (case template of
        None \<Rightarrow> None
      | Some tm \<Rightarrow>
          first_some (\<lambda>form. case tm (form t) of
                        None \<Rightarrow> None
                      | Some rendered \<Rightarrow>
                          (case tm (form MARKER) of None \<Rightarrow> None
                           | Some probe \<Rightarrow> if contains MARKER probe then Some rendered else None))
            [Parts, Plain])"

definition fallback_prompt :: "string \<Rightarrow> string" where
  "fallback_prompt t =
     (let nl = [CHR 0x0A]; q = [CHR 0x27]
      in ''<|begin_of_text|>Task: Check if there is unsafe content in the user message.'' @ nl @ nl @ ''<BEGIN CONVERSATION>''
         @ nl @ nl @ ''User: '' @ t @ nl @ nl @ ''<END CONVERSATION>'' @ nl @ nl
         @ ''Provide your safety assessment. First line must be '' @ q @ ''safe'' @ q @ '' or '' @ q @ ''unsafe'' @ q @ ''.''
         @ nl @ nl @ ''<|start_header_id|>assistant<|end_header_id|>'')"

definition build_inputs :: "(content \<Rightarrow> string option) option \<Rightarrow> bool \<Rightarrow> string list \<Rightarrow> string list" where
  "build_inputs template for_scoring texts =
     map (\<lambda>t. (case render_chat template t of Some p \<Rightarrow> p | None \<Rightarrow> fallback_prompt t)
               @ (if for_scoring then [CHR 0x0A, CHR 0x0A] else [])) texts"

text \<open>\<open>classify\<close>: the generated verdict with its hazard categories.\<close>

definition CATEGORY_PATTERN :: rx where
  "CATEGORY_PATTERN =
     Seq [WordB, Lit ''S'', Alt [Seq [Lit ''1'', Cls (chars_between 48 51)], Cls (chars_between 49 57)], WordB]"

record guard_verdict =
  gv_verdict :: string
  gv_categories :: "string list"
  gv_raw :: string

definition read_verdict :: "string \<Rightarrow> guard_verdict" where
  "read_verdict generated =
     (let raw = str_strip generated
      in \<lparr>gv_verdict = (if take 6 (str_lower raw) = ''unsafe'' then ''unsafe'' else ''safe''),
          gv_categories = findall CATEGORY_PATTERN raw, gv_raw = raw\<rparr>)"

definition classify ::
  "(('m \<times> nat \<times> nat) loader \<Rightarrow> (verify_error, unit) res \<times> ('m \<times> nat \<times> nat) loader)
   \<Rightarrow> (content \<Rightarrow> string option) option \<Rightarrow> ('m \<Rightarrow> string \<Rightarrow> string) \<Rightarrow> string
   \<Rightarrow> ('m \<times> nat \<times> nat) loader \<Rightarrow> (score_error, guard_verdict) res \<times> ('m \<times> nat \<times> nat) loader" where
  "classify load template generate t l =
     (case load l of
        (Inl e, l1) \<Rightarrow> (Inl (IntegrityRaised e), l1)
      | (Inr _, l1) \<Rightarrow>
          (case ld_model l1 of
             None \<Rightarrow> (Inl NotLoaded, l1)
           | Some (m, _) \<Rightarrow> (Inr (read_verdict (generate m (hd (build_inputs template False [t])))), l1)))"

section \<open>Asking a detector\<close>

text \<open>\<open>_score_one_detector\<close> of core/fusion.py on a detector with state.\<close>

definition ask ::
  "('m loader \<Rightarrow> (verify_error, bool) res \<times> 'm loader) \<Rightarrow> ('m loader \<Rightarrow> (verify_error, unit) res \<times> 'm loader)
   \<Rightarrow> ('m \<Rightarrow> string list \<Rightarrow> (score_error, real list) res) \<Rightarrow> nat \<Rightarrow> string \<Rightarrow> 'm loader \<Rightarrow> det_outcome \<times> 'm loader" where
  "ask available load run n prompt l =
     (case available l of
        (Inl e, l1) \<Rightarrow> (Raised ''ModelIntegrityError'', l1)
      | (Inr False, l1) \<Rightarrow> (Unavailable ''load error'', l1)
      | (Inr True, l1) \<Rightarrow>
          (case score_batch load run n [prompt] l1 of
             (Inl (IntegrityRaised _), l2) \<Rightarrow> (Raised ''ModelIntegrityError'', l2)
           | (Inl NotLoaded, l2) \<Rightarrow> (Raised ''RuntimeError'', l2)
           | (Inl BadRow, l2) \<Rightarrow> (Raised ''IndexError'', l2)
           | (Inr [], l2) \<Rightarrow> (Raised ''IndexError'', l2)
           | (Inr (s # _), l2) \<Rightarrow> (Scored s, l2)))"

text \<open>\<open>_warm_detectors\<close> asks for the availability first and swallows what is raised.\<close>

definition warm_one ::
  "('m loader \<Rightarrow> (verify_error, bool) res \<times> 'm loader) \<Rightarrow> 'm loader \<Rightarrow> bool \<times> 'm loader" where
  "warm_one available l = (case available l of (Inl _, l1) \<Rightarrow> (False, l1) | (Inr _, l1) \<Rightarrow> (True, l1))"

section \<open>The registry\<close>

datatype kind =
    Anchors
  | Transformer "string list" bool
  | EmbeddingHead string
  | LlamaGuard real
  | NemoGuard

record detector =
  de_name :: string
  de_kind :: kind
  de_targets :: "string list"
  de_trained_on :: "string list"

definition CLASS_INJECTION :: string where "CLASS_INJECTION = ''prompt_injection''"
definition CLASS_JAILBREAK :: string where "CLASS_JAILBREAK = ''jailbreak''"
definition CLASS_HARMFUL :: string where "CLASS_HARMFUL = ''harmful_content''"

definition detector_of :: "string \<Rightarrow> kind \<Rightarrow> string list \<Rightarrow> string list \<Rightarrow> detector" where
  "detector_of name kind targets trained_on = \<lparr>de_name = name, de_kind = kind, de_targets = targets, de_trained_on = trained_on\<rparr>"

definition REGISTRY :: "detector list" where
  "REGISTRY =
     [detector_of ''anchors'' Anchors [CLASS_INJECTION, CLASS_JAILBREAK, CLASS_HARMFUL] [],
      detector_of ''protectai_injection'' (Transformer [''injection''] False) [CLASS_INJECTION] [],
      detector_of ''deepset_injection'' (Transformer [''injection''] False) [CLASS_INJECTION] [''deepset/prompt-injections''],
      detector_of ''jailbreak_classifier'' (Transformer [''jailbreak''] False) [CLASS_JAILBREAK] [''jackhhao/jailbreak-classification''],
      detector_of ''madhurjindal_jailbreak'' (Transformer [''jailbreak''] False) [CLASS_JAILBREAK] [],
      detector_of ''toxic_bert''
        (Transformer [''toxic'', ''severe_toxic'', ''threat'', ''identity_hate'', ''obscene'', ''insult''] True) [CLASS_HARMFUL] [],
      detector_of ''german_toxicity_eistakovskii'' (Transformer [''toxic''] False) [CLASS_HARMFUL] [],
      detector_of ''german_toxicity_ankekat'' (Transformer [''toxic''] False) [CLASS_HARMFUL] [],
      detector_of ''multilingual_head'' (EmbeddingHead ''models/multilingual_head.json'') [CLASS_INJECTION, CLASS_HARMFUL] [],
      detector_of ''nemoguard_jailbreak'' NemoGuard [CLASS_JAILBREAK] [],
      detector_of ''llama_guard_3_1b'' (LlamaGuard (23 / 10)) [CLASS_HARMFUL, CLASS_JAILBREAK] [],
      detector_of ''llama_guard_3_8b'' (LlamaGuard 18) [CLASS_HARMFUL, CLASS_JAILBREAK] [],
      detector_of ''prompt_guard_2'' (Transformer [''label_1'', ''malicious'', ''injection'', ''jailbreak''] False)
        [CLASS_INJECTION, CLASS_JAILBREAK] [],
      detector_of ''prompt_guard_1'' (Transformer [''injection'', ''jailbreak''] False) [CLASS_INJECTION, CLASS_JAILBREAK] []]"

text \<open>\<open>Inl\<close>: \<open>KeyError\<close> with the known names.\<close>

definition get_detector :: "string \<Rightarrow> (string list, detector) res" where
  "get_detector name =
     (case find (\<lambda>d. de_name d = name) REGISTRY of
        Some d \<Rightarrow> Inr d | None \<Rightarrow> Inl (sort (map de_name REGISTRY)))"

text \<open>Probing the named detectors in order. An unknown name raises, and so does an integrity failure.\<close>

fun probe_detectors ::
  "(detector \<Rightarrow> 's \<Rightarrow> (verify_error, bool) res \<times> 's) \<Rightarrow> string list \<Rightarrow> 's
   \<Rightarrow> (verify_error option, string list \<times> string list) res \<times> 's" where
  "probe_detectors probe [] s = (Inr ([], []), s)"
| "probe_detectors probe (name # names) s =
     (case get_detector name of
        Inl _ \<Rightarrow> (Inl None, s)
      | Inr d \<Rightarrow>
          (case probe d s of
             (Inl e, s1) \<Rightarrow> (Inl (Some e), s1)
           | (Inr ok, s1) \<Rightarrow>
               (case probe_detectors probe names s1 of
                  (Inl e, s2) \<Rightarrow> (Inl e, s2)
                | (Inr (oks, bads), s2) \<Rightarrow> (Inr (if ok then (name # oks, bads) else (oks, name # bads)), s2))))"

definition available_detectors ::
  "(detector \<Rightarrow> 's \<Rightarrow> (verify_error, bool) res \<times> 's) \<Rightarrow> string list option \<Rightarrow> 's
   \<Rightarrow> (verify_error option, string list \<times> string list) res \<times> 's" where
  "available_detectors probe names s =
     probe_detectors probe (case names of None \<Rightarrow> map de_name REGISTRY | Some [] \<Rightarrow> map de_name REGISTRY | Some ns \<Rightarrow> ns) s"

text \<open>\<open>HF_HUB_OFFLINE\<close> of the environment.\<close>

definition offline_mode :: "(string \<Rightarrow> string option) \<Rightarrow> bool" where
  "offline_mode env =
     (str_strip (case env ''HF_HUB_OFFLINE'' of None \<Rightarrow> [] | Some v \<Rightarrow> v) \<in> {''1'', ''true'', ''True''})"

section \<open>Lemmas\<close>

text \<open>The contract of the lazy loaders: a settled loader does nothing, a load settles, and a load that
  raises has already stored the model, without an error.\<close>

locale lazy_loader =
  fixes load :: "'m loader \<Rightarrow> (verify_error, unit) res \<times> 'm loader"
  assumes settled_noop: "settled l \<Longrightarrow> load l = (Inr (), l)"
    and load_settles: "load l = (r, l') \<Longrightarrow> settled l'"
    and raise_keeps_model: "load l = (Inl e, l') \<Longrightarrow> ld_model l' \<noteq> None \<and> ld_error l' = None"
begin

lemma second_load: "load l = (r, l') \<Longrightarrow> load l' = (Inr (), l')"
  using load_settles settled_noop by blast

lemma available_after_raise:
  assumes "load l = (Inl e, l')"
  shows "available_by_error load l' = (Inr True, l')" and "available_by_model load l' = (Inr True, l')"
  using second_load [OF assms] raise_keeps_model [OF assms]
  by (simp_all add: available_by_error_def available_by_model_def)

lemma warm_after_raise:
  assumes "load l = (Inl e, l')"
  shows "warm_one (available_by_error load) l = (False, l')" and "warm_one (available_by_model load) l = (False, l')"
  using assms by (simp_all add: warm_one_def available_by_error_def available_by_model_def)

text \<open>What follows depends on the stored model only.\<close>

lemma ask_settled:
  assumes "settled l" and "available l = (Inr True, l)"
  shows "ask available load run n prompt l = ask (\<lambda>l. (Inr True, l)) (\<lambda>l. (Inr (), l)) run n prompt l"
  using assms settled_noop [OF assms(1)] by (simp add: ask_def score_batch_def split: option.split)

lemma raised_model_answers:
  assumes "load l = (Inl e, l')"
  shows "ask (available_by_error load) load run n prompt l' = ask (\<lambda>l. (Inr True, l)) (\<lambda>l. (Inr (), l)) run n prompt l'"
    and "ask (available_by_model load) load run n prompt l' = ask (\<lambda>l. (Inr True, l)) (\<lambda>l. (Inr (), l)) run n prompt l'"
  using ask_settled [OF load_settles [OF assms]] available_after_raise [OF assms] by blast+

end

lemma store_and_verify_laws:
  assumes "store_and_verify verify outcome m l = (r, l')" and "ld_error l = None"
  shows "settled l'" and "r = Inl e \<Longrightarrow> ld_model l' \<noteq> None \<and> ld_error l' = None"
  using assms by (auto simp: store_and_verify_def settled_def Let_def split: if_splits sum.splits verify_error.splits)

interpretation transformer: lazy_loader "transformer_load labels fetched verify outcome" for labels fetched verify outcome
proof (unfold_locales, goal_cases)
  case (2 l r l')
  then show ?case
    using store_and_verify_laws(1) [of verify outcome _ l r l']
    by (auto simp: transformer_load_def settled_def Let_def split: if_splits fetched.splits prod.splits)
next
  case (3 l e l')
  then show ?case
    using store_and_verify_laws(2) [of verify outcome _ l "Inl e" l' e]
    by (auto simp: transformer_load_def settled_def Let_def split: if_splits fetched.splits prod.splits)
qed (simp add: transformer_load_def)

interpretation head: lazy_loader "head_load artifact fetched verify outcome" for artifact fetched verify outcome
proof (unfold_locales, goal_cases)
  case (2 l r l')
  then show ?case
    using store_and_verify_laws(1) [of verify outcome _ l r l']
    by (auto simp: head_load_def settled_def split: if_splits fetched.splits sum.splits)
next
  case (3 l e l')
  then show ?case
    using store_and_verify_laws(2) [of verify outcome _ l "Inl e" l' e]
    by (auto simp: head_load_def settled_def split: if_splits fetched.splits sum.splits)
qed (simp add: head_load_def)

interpretation guard: lazy_loader "guard_load free_gb min_free tokenizer fetched verify outcome"
  for free_gb min_free tokenizer fetched verify outcome
proof (unfold_locales, goal_cases)
  case (2 l r l')
  then show ?case
    using store_and_verify_laws(1) [of verify outcome _ l r l']
    by (auto simp: guard_load_def settled_def split: if_splits fetched.splits sum.splits prod.splits option.splits)
next
  case (3 l e l')
  then show ?case
    using store_and_verify_laws(2) [of verify outcome _ l "Inl e" l' e]
    by (auto simp: guard_load_def settled_def split: if_splits fetched.splits sum.splits prod.splits option.splits)
qed (simp add: guard_load_def)

interpretation nemo: lazy_loader "nemo_load fetched verify outcome" for fetched verify outcome
proof (unfold_locales, goal_cases)
  case (2 l r l')
  then show ?case
    using store_and_verify_laws(1) [of verify outcome _ l r l']
    by (auto simp: nemo_load_def settled_def split: if_splits fetched.splits)
next
  case (3 l e l')
  then show ?case
    using store_and_verify_laws(2) [of verify outcome _ l "Inl e" l' e]
    by (auto simp: nemo_load_def settled_def split: if_splits fetched.splits)
qed (simp add: nemo_load_def)

lemma map_res_append:
  "map_res f (xs @ ys) = (case map_res f xs of Inl e \<Rightarrow> Inl e
     | Inr as \<Rightarrow> (case map_res f ys of Inl e \<Rightarrow> Inl e | Inr bs \<Rightarrow> Inr (as @ bs)))"
  by (induction xs) (auto split: sum.splits)

lemma map_res_map: "map_res f (map g xs) = map_res (\<lambda>x. f (g x)) xs"
  by (induction xs) (auto split: sum.splits)

lemma map_res_all: "map_res f xs = Inr ys \<Longrightarrow> (\<And>x y. f x = Inr y \<Longrightarrow> P y) \<Longrightarrow> list_all P ys"
  by (induction xs arbitrary: ys) (auto split: sum.splits)

lemma batches_res:
  assumes "0 < n"
  shows "foldr (\<lambda>chunk rest. case map_res g chunk of Inl e \<Rightarrow> Inl e
            | Inr ss \<Rightarrow> (case rest of Inl e \<Rightarrow> Inl e | Inr others \<Rightarrow> Inr (ss @ others))) (batches n xs) (Inr []) = map_res g xs"
  using assms
proof (induction n xs rule: batches.induct)
  case (1 n xs)
  show ?case
  proof (cases "xs = []")
    case True
    then show ?thesis by (simp add: batches.simps)
  next
    case False
    have "map_res g xs = map_res g (take n xs @ drop n xs)" by simp
    also have "\<dots> = (case map_res g (take n xs) of Inl e \<Rightarrow> Inl e
        | Inr as \<Rightarrow> (case map_res g (drop n xs) of Inl e \<Rightarrow> Inl e | Inr bs \<Rightarrow> Inr (as @ bs)))"
      by (rule map_res_append)
    finally show ?thesis
      using False 1 by (subst batches.simps) (cases "map_res g (take n xs)"; simp)
  qed
qed

lemma sum_exp_pos: "row \<noteq> [] \<Longrightarrow> 0 < sum_list (map exp (row :: real list))"
proof (induction row)
  case (Cons a row)
  have "0 \<le> sum_list (map exp row)" by (rule sum_list_nonneg) auto
  then show ?case by (simp add: add_pos_nonneg)
qed simp

lemma exp_le_sum: "x \<in> set row \<Longrightarrow> exp x \<le> sum_list (map exp (row :: real list))"
  by (rule member_le_sum_list) (auto intro: sum_list_nonneg)

lemma softmax_bounds: "p \<in> set (softmax row) \<Longrightarrow> 0 \<le> p \<and> p \<le> 1"
  using sum_exp_pos [of row] exp_le_sum [of _ row]
  by (cases "row = []") (auto simp: softmax_def Let_def divide_le_eq)

lemma label_bounds: "p \<in> set (label_probabilities multi row) \<Longrightarrow> 0 \<le> p \<and> p \<le> 1"
  using softmax_bounds by (auto simp: label_probabilities_def divide_le_eq add_pos_pos split: if_splits)

lemma label_length: "length (label_probabilities multi row) = length row"
  by (simp add: label_probabilities_def softmax_def Let_def)

section \<open>Properties\<close>

text \<open>Every score is a probability, whatever the network says: the best positive label after softmax or sigmoid, the
  fitted head, the verdict of Llama Guard, and NeMo's signed confidence between -1 and 1. Llama Guard's
  score passes one half exactly when \<open>unsafe\<close> is the likelier token.\<close>

theorem scores_are_probabilities:
  "(case transformer_row multi ids row of Inr p \<Rightarrow> 0 \<le> p \<and> p \<le> 1 | Inl _ \<Rightarrow> True)
   \<and> (case apply_head a vec of Inr p \<Rightarrow> 0 \<le> p \<and> p \<le> 1 | Inl _ \<Rightarrow> True)
   \<and> 0 < verdict_score s u logits \<and> verdict_score s u logits < 1
   \<and> (verdict_score s u logits > 1 / 2 \<longleftrightarrow> logits u > logits s)
   \<and> (if \<bar>signed\<bar> \<le> 1 then 0 \<le> nemo_score signed \<and> nemo_score signed \<le> 1 else True)"
proof (intro conjI)
  show "case transformer_row multi ids row of Inr p \<Rightarrow> 0 \<le> p \<and> p \<le> 1 | Inl _ \<Rightarrow> True"
  proof (cases "transformer_row multi ids row")
    case (Inr p)
    let ?ps = "map (\<lambda>i. label_probabilities multi row ! i) ids"
    from Inr have ids: "ids \<noteq> []" "\<And>i. i \<in> set ids \<Longrightarrow> i < length row" and p: "p = Max (set ?ps)"
      by (auto simp: transformer_row_def Let_def list_all_iff split: if_splits)
    have "p \<in> set ?ps" unfolding p using ids(1) by (intro Max_in) auto
    then obtain i where "i \<in> set ids" "p = label_probabilities multi row ! i" by auto
    with ids(2) have "p \<in> set (label_probabilities multi row)" by (simp add: label_length)
    with label_bounds Inr show ?thesis by fastforce
  qed simp
  show "case apply_head a vec of Inr p \<Rightarrow> 0 \<le> p \<and> p \<le> 1 | Inl _ \<Rightarrow> True"
    by (auto simp: apply_head_def sigmoid_bounds split: option.splits)
  have pos: "0 < exp (logits s) + exp (logits u)" by (simp add: add_pos_pos)
  have v: "verdict_score s u logits = exp (logits u) / (exp (logits s) + exp (logits u))"
    by (simp add: verdict_score_def softmax_def Let_def)
  show "0 < verdict_score s u logits" "verdict_score s u logits < 1"
    unfolding v using pos by (simp_all add: divide_less_eq)
  show "verdict_score s u logits > 1 / 2 \<longleftrightarrow> logits u > logits s"
    unfolding v using pos by (simp add: less_divide_eq)
  show "if \<bar>signed\<bar> \<le> 1 then 0 \<le> nemo_score signed \<and> nemo_score signed \<le> 1 else True"
    by (simp add: nemo_score_def)
qed

text \<open>The size of a batch has no influence on the scores of a network that scores its rows one by one: they are those
  of the texts in order, a blank text as a space.\<close>

theorem batches_do_not_matter:
  "if n = 0 then True else
   fst (score_batch load (\<lambda>m. map_res (f m)) n texts l) =
     (case load l of
        (Inl e, _) \<Rightarrow> Inl (IntegrityRaised e)
      | (Inr _, l1) \<Rightarrow> (case ld_model l1 of None \<Rightarrow> Inl NotLoaded | Some m \<Rightarrow> map_res (\<lambda>t. f m (not_blank t)) texts))"
  using batches_res [of n _ texts]
  by (auto simp: score_batch_def map_res_map split: prod.splits sum.splits option.splits)

text \<open>Weights that pass the check are named in the manifest, at the revision that was asked for when both name one, and
  the located file hashes to the recorded value; only an entry without a hash passes unread.\<close>

theorem verified_weights_match:
  "case verify_detector_integrity sha hub manifest name revision of
     Inl _ \<Rightarrow> True
   | Inr _ \<Rightarrow> \<exists>m entry. manifest = Parsed (JObj m) \<and> map_of m name = Some (JObj entry)
       \<and> (case revision of None \<Rightarrow> True
          | Some r \<Rightarrow> if r \<noteq> [] \<and> truthy (jget entry ''revision'') then jget entry ''revision'' = JStr r else True)
       \<and> (if truthy (jget entry ''sha256'')
          then \<exists>names content. locate_weights hub names = Some content \<and> jget entry ''sha256'' = JStr (sha content)
          else True)"
proof (cases "verify_detector_integrity sha hub manifest name revision")
  case (Inr u)
  then obtain m entry where m: "manifest = Parsed (JObj m)" "map_of m name = Some (JObj entry)"
    and c: "check_entry sha hub revision entry = Inr u"
    by (auto simp: verify_detector_integrity_def split: file_content.splits json.splits option.splits if_splits)
  from c have "case revision of None \<Rightarrow> True
      | Some r \<Rightarrow> if r \<noteq> [] \<and> truthy (jget entry ''revision'') then jget entry ''revision'' = JStr r else True"
    by (auto simp: check_entry_def Let_def split: if_splits option.splits)
  moreover have "\<exists>names content. locate_weights hub names = Some content \<and> jget entry ''sha256'' = JStr (sha content)"
    if "truthy (jget entry ''sha256'')"
    using c that unfolding check_entry_def Let_def by (auto split: if_splits option.splits)
  ultimately show ?thesis using Inr m by auto
qed simp

text \<open>The check has no effect on what is served. The model is stored before it is checked, so after a mismatch the
  loader is settled: the warm-up swallows the exception, and the next question, in the same request, is
  answered by the rejected model exactly as if nothing had been checked.\<close>

theorem rejected_model_is_scored:
  "let outcome = verify_detector_integrity sha hub manifest name revision;
       load = (\<lambda>verify. transformer_load labels (Fetched (m, id2label)) verify outcome)
   in if positive_ids labels id2label \<noteq> [] \<and> outcome \<notin> {Inr (), Inl OddManifest}
      then (case warm_one (available_by_error (load True)) fresh_loader of
              (warmed, l) \<Rightarrow> \<not> warmed \<and>
                fst (ask (available_by_error (load True)) (load True) run n prompt l)
                  = fst (ask (available_by_error (load False)) (load False) run n prompt fresh_loader))
      else True"
proof -
  let ?outcome = "verify_detector_integrity sha hub manifest name revision"
  let ?load = "\<lambda>verify. transformer_load labels (Fetched (m, id2label)) verify ?outcome"
  let ?l = "\<lparr>ld_model = Some (m, positive_ids labels id2label), ld_error = None\<rparr>"
  show ?thesis
  proof (cases "positive_ids labels id2label \<noteq> [] \<and> ?outcome \<notin> {Inr (), Inl OddManifest}")
    case True
    then obtain e where e: "?outcome = Inl e" "e \<noteq> OddManifest" by (cases ?outcome) auto
    have on: "?load True fresh_loader = (Inl e, ?l)"
      using True e by (cases e) (auto simp: transformer_load_def settled_def fresh_loader_def store_and_verify_def)
    have off: "?load False fresh_loader = (Inr (), ?l)"
      using True by (simp add: transformer_load_def settled_def fresh_loader_def store_and_verify_def)
    have again: "?load False ?l = (Inr (), ?l)" by (simp add: transformer_load_def settled_def)
    have "ask (available_by_error (?load False)) (?load False) run n prompt fresh_loader
        = ask (\<lambda>l. (Inr True, l)) (\<lambda>l. (Inr (), l)) run n prompt ?l"
      by (simp add: ask_def available_by_error_def off score_batch_def again)
    with True transformer.warm_after_raise(1) [OF on] transformer.raised_model_answers(1) [OF on, of run n prompt]
    show ?thesis by (simp add: Let_def)
  qed (auto simp: Let_def)
qed

text \<open>An unknown name is a \<open>KeyError\<close>, a known one returns the detector of that name.\<close>

lemma get_detector_name: "get_detector name = Inr d \<Longrightarrow> de_name d = name \<and> d \<in> set REGISTRY"
  by (auto simp: get_detector_def find_Some_iff split: option.splits)

end
