(* ===== verification/Normalizer.thy ===== *)
theory Normalizer
  imports Prelude "HOL-Library.While_Combinator"
begin

text \<open>
  core/normalizer.py, over code points. Unicode is three parameters: the NFKC normal form, the lower case,
  and which characters outside ASCII are white space or word characters for \<open>re\<close>. The loop that joins
  spelled out words is a \<open>while_option\<close>.
\<close>

type_synonym text_points = "nat list"

record unicode =
  un_nfkc :: "text_points \<Rightarrow> text_points"
  un_lower :: "text_points \<Rightarrow> text_points"
  un_space :: "nat \<Rightarrow> bool"
  un_word :: "nat \<Rightarrow> bool"

definition small_letter :: "nat \<Rightarrow> bool" where
  "small_letter c \<longleftrightarrow> 97 \<le> c \<and> c \<le> 122"

text \<open>\<open>\s\<close> and \<open>\w\<close>; the ASCII part is fixed.\<close>

definition space_point :: "unicode \<Rightarrow> nat \<Rightarrow> bool" where
  "space_point U c = (if c < 128 then c \<in> {9, 10, 11, 12, 13, 28, 29, 30, 31, 32} else un_space U c)"

definition word_point :: "unicode \<Rightarrow> nat \<Rightarrow> bool" where
  "word_point U c =
     (if c < 128 then 48 \<le> c \<and> c \<le> 57 \<or> 65 \<le> c \<and> c \<le> 90 \<or> c = 95 \<or> small_letter c else un_word U c)"

definition HOMOGLYPH_MAP :: "(nat \<times> nat) list" where
  "HOMOGLYPH_MAP = [(0x43E, 111), (0x430, 97), (0x435, 101), (0x440, 112), (0x441, 99), (0x445, 120), (0x4E9, 111), (0x456, 105)]"

definition ZERO_WIDTH_CHARS :: "nat list" where
  "ZERO_WIDTH_CHARS = [0x200B, 0x200C, 0x200D, 0x200E, 0x200F, 0x2060, 0x2061, 0x2062, 0x2063, 0xFEFF, 0xAD]"

definition replace_point :: "nat \<Rightarrow> nat \<Rightarrow> text_points \<Rightarrow> text_points" where
  "replace_point old new = map (\<lambda>c. if c = old then new else c)"

definition replace_homoglyphs :: "text_points \<Rightarrow> text_points" where
  "replace_homoglyphs t = fold (\<lambda>(old, new). replace_point old new) HOMOGLYPH_MAP t"

text \<open>\<open>re.sub(r"\s+", " ", text)\<close>\<close>

function collapse_spaces :: "unicode \<Rightarrow> text_points \<Rightarrow> text_points" where
  "collapse_spaces U [] = []"
| "collapse_spaces U (c # cs) =
     (if space_point U c then 32 # collapse_spaces U (dropWhile (space_point U) cs) else c # collapse_spaces U cs)"
  by pat_completeness auto
termination
  by (relation "measure (length \<circ> snd)") (auto simp: le_imp_less_Suc length_dropWhile_le)

text \<open>One pass of \<open>SPACED_CHARS_PATTERN.sub\<close>: \<open>before\<close> is the character in front of the rest of the text. A letter
  at a word edge loses the white space behind it when a single letter follows.\<close>

definition edge :: "unicode \<Rightarrow> nat option \<Rightarrow> bool" where
  "edge U neighbour = (case neighbour of None \<Rightarrow> True | Some c \<Rightarrow> \<not> word_point U c)"

definition first_point :: "text_points \<Rightarrow> nat option" where
  "first_point t = (case t of [] \<Rightarrow> None | c # _ \<Rightarrow> Some c)"

fun join_pass :: "unicode \<Rightarrow> nat option \<Rightarrow> text_points \<Rightarrow> text_points" where
  "join_pass U before (c # s # d # rest) =
     (if edge U before \<and> small_letter c \<and> space_point U s \<and> small_letter d \<and> edge U (first_point rest)
      then c # join_pass U (Some s) (d # rest)
      else c # join_pass U (Some c) (s # d # rest))"
| "join_pass U before t = t"

definition strip_points :: "unicode \<Rightarrow> text_points \<Rightarrow> text_points" where
  "strip_points U t = rev (dropWhile (space_point U) (rev (dropWhile (space_point U) t)))"

text \<open>\<open>prev = None; while prev != text: prev = text; text = sub(text)\<close>\<close>

definition join_letters :: "unicode \<Rightarrow> text_points \<Rightarrow> text_points option" where
  "join_letters U t =
     map_option snd (while_option (\<lambda>(prev, t). prev \<noteq> Some t) (\<lambda>(prev, t). (Some t, join_pass U None t)) (None, t))"

definition normalize_prompt :: "unicode \<Rightarrow> text_points \<Rightarrow> text_points option" where
  "normalize_prompt U prompt =
     (let t1 = un_nfkc U prompt;
          t2 = un_lower U t1;
          t3 = filter (\<lambda>c. c \<notin> set ZERO_WIDTH_CHARS) t2;
          t4 = replace_homoglyphs t3;
          t5 = collapse_spaces U t4
      in map_option (strip_points U) (join_letters U t5))"

section \<open>Lemmas\<close>

lemma join_pass_le: "length (join_pass U before t) \<le> length t"
  by (induction U before t rule: join_pass.induct) auto

lemma join_pass_shorter: "join_pass U before t \<noteq> t \<Longrightarrow> length (join_pass U before t) < length t"
proof (induction U before t rule: join_pass.induct)
  case (1 U before c s d rest)
  then show ?case using join_pass_le [of U "Some s" "d # rest"] by auto
qed auto

lemma join_pass_set: "set (join_pass U before t) \<subseteq> set t"
  by (induction U before t rule: join_pass.induct) auto

text \<open>The loop returns, at the first text the pass leaves alone.\<close>

lemma join_loop:
  "\<exists>k. while_option (\<lambda>(prev, t). prev \<noteq> Some t) (\<lambda>(prev, t). (Some t, join_pass U None t)) (Some t, join_pass U None t)
     = Some (Some ((join_pass U None ^^ k) t), (join_pass U None ^^ k) t)
   \<and> join_pass U None ((join_pass U None ^^ k) t) = (join_pass U None ^^ k) t"
proof (induction "length t" arbitrary: t rule: less_induct)
  case less
  show ?case
  proof (cases "join_pass U None t = t")
    case True
    then show ?thesis by (intro exI [of _ 0]) (simp add: while_option_unfold)
  next
    case False
    from less [OF join_pass_shorter [OF this]] obtain k where
      "while_option (\<lambda>(prev, t). prev \<noteq> Some t) (\<lambda>(prev, t). (Some t, join_pass U None t))
         (Some (join_pass U None t), join_pass U None (join_pass U None t))
       = Some (Some ((join_pass U None ^^ k) (join_pass U None t)), (join_pass U None ^^ k) (join_pass U None t))"
      and "join_pass U None ((join_pass U None ^^ k) (join_pass U None t)) = (join_pass U None ^^ k) (join_pass U None t)"
      by blast
    with False show ?thesis
      by (intro exI [of _ "Suc k"]) (subst while_option_unfold, auto simp: funpow_swap1)
  qed
qed

lemma join_letters_run:
  obtains k where "join_letters U t = Some ((join_pass U None ^^ k) t)"
    and "join_pass U None ((join_pass U None ^^ k) t) = (join_pass U None ^^ k) t"
proof -
  from join_loop [of U t] obtain k where
    w: "while_option (\<lambda>(prev, t). prev \<noteq> Some t) (\<lambda>(prev, t). (Some t, join_pass U None t)) (Some t, join_pass U None t)
       = Some (Some ((join_pass U None ^^ k) t), (join_pass U None ^^ k) t)"
    and f: "join_pass U None ((join_pass U None ^^ k) t) = (join_pass U None ^^ k) t" by blast
  have "join_letters U t = Some ((join_pass U None ^^ k) t)"
    unfolding join_letters_def by (subst while_option_unfold) (simp add: w)
  with f that show ?thesis by blast
qed

text \<open>The shape of a text after the white space was collapsed: only blanks, never two in a row.\<close>

fun tidy :: "unicode \<Rightarrow> text_points \<Rightarrow> bool" where
  "tidy U [] = True"
| "tidy U (c # cs) =
     ((if space_point U c then c = 32 \<and> (case cs of [] \<Rightarrow> True | d # _ \<Rightarrow> \<not> space_point U d) else True) \<and> tidy U cs)"

lemma blank: "space_point U 32" "\<not> word_point U 32" "\<not> small_letter 32"
  by (simp_all add: space_point_def word_point_def small_letter_def)

lemma letter: "small_letter c \<Longrightarrow> \<not> space_point U c \<and> word_point U c"
  by (auto simp: space_point_def word_point_def small_letter_def)

lemma hd_dropWhile_space: "case dropWhile (space_point U) cs of [] \<Rightarrow> True | d # _ \<Rightarrow> \<not> space_point U d"
  by (induction cs) auto

lemma collapse_head: "\<not> space_point U d \<Longrightarrow> collapse_spaces U (d # cs) = d # collapse_spaces U cs"
  by simp

lemma collapse_tidy: "tidy U (collapse_spaces U t)"
proof (induction U t rule: collapse_spaces.induct)
  case (2 U c cs)
  show ?case
  proof (cases "space_point U c")
    case True
    obtain r where r: "dropWhile (space_point U) cs = r" by simp
    have "case collapse_spaces U r of [] \<Rightarrow> True | d # _ \<Rightarrow> \<not> space_point U d"
      using hd_dropWhile_space [of U cs] unfolding r by (cases r) auto
    with 2 True r show ?thesis by simp
  qed (use 2 in simp)
qed simp

lemma collapse_id: "tidy U t \<Longrightarrow> collapse_spaces U t = t"
proof (induction U t rule: collapse_spaces.induct)
  case (2 U c cs)
  show ?case
  proof (cases "space_point U c")
    case True
    with "2.prems" have "dropWhile (space_point U) cs = cs" by (cases cs) auto
    with 2 True show ?thesis by simp
  qed (use 2 in simp)
qed simp

lemma collapse_set: "set (collapse_spaces U t) \<subseteq> insert 32 (set t)"
proof (induction U t rule: collapse_spaces.induct)
  case (2 U c cs)
  have "set (dropWhile (space_point U) cs) \<subseteq> set cs" by (auto dest: set_dropWhileD)
  with 2 show ?case by (cases "space_point U c") auto
qed simp

lemma join_pass_head: "first_point (join_pass U before t) = first_point t"
  by (induction U before t rule: join_pass.induct) (auto simp: first_point_def)

lemma tidy_cons: "tidy U (c # cs) \<longleftrightarrow>
    (if space_point U c then c = 32 \<and> (case first_point cs of None \<Rightarrow> True | Some d \<Rightarrow> \<not> space_point U d) else True) \<and> tidy U cs"
  by (auto simp: first_point_def split: list.splits)

lemma join_tidy: "tidy U t \<Longrightarrow> tidy U (join_pass U before t)"
proof (induction U before t rule: join_pass.induct)
  case (1 U before c s d rest)
  show ?case
  proof (cases "edge U before \<and> small_letter c \<and> space_point U s \<and> small_letter d \<and> edge U (first_point rest)")
    case True
    have "tidy U (d # rest)" using "1.prems" unfolding tidy_cons [of U c] tidy_cons [of U s] by blast
    from "1.IH"(1) [OF True this] True letter [of c U] show ?thesis by (simp add: tidy_cons)
  next
    case False
    then have step: "join_pass U before (c # s # d # rest) = c # join_pass U (Some c) (s # d # rest)" by auto
    have "tidy U (s # d # rest)" using "1.prems" unfolding tidy_cons [of U c] by blast
    from "1.IH"(2) [OF False this] have "tidy U (join_pass U (Some c) (s # d # rest))" .
    with "1.prems" show ?thesis unfolding step tidy_cons [of U c] join_pass_head by blast
  qed
qed auto

lemma funpow_inv: "P t \<Longrightarrow> (\<And>x. P x \<Longrightarrow> P (f x)) \<Longrightarrow> P ((f ^^ k) t)"
  by (induction k) auto

text \<open>Blanks at the ends are neutral for the pass.\<close>

lemma join_append_blank: "join_pass U before (t @ [32]) = join_pass U before t @ [32]"
proof (induction U before t rule: join_pass.induct)
  case (1 U before c s d rest)
  have "edge U (first_point (rest @ [32])) = edge U (first_point rest)"
    by (cases rest) (simp_all add: first_point_def edge_def blank)
  with 1 show ?case by simp
qed (simp_all add: blank)

lemma join_boundary: "edge U b = edge U b' \<Longrightarrow> join_pass U b t = join_pass U b' t"
  by (cases "(U, b, t)" rule: join_pass.cases) auto

lemma join_blank: "join_pass U None (32 # t) = 32 # join_pass U None t"
proof -
  have "join_pass U (Some 32) t = join_pass U None t" by (rule join_boundary) (simp add: edge_def blank)
  then show ?thesis by (cases "(U, None :: nat option, 32 # t)" rule: join_pass.cases) (auto simp: blank)
qed

lemma dropWhile_tidy:
  assumes "tidy U t"
  obtains "dropWhile (space_point U) t = t" | r where "t = 32 # r" "dropWhile (space_point U) t = r"
proof (cases t)
  case (Cons c r)
  show ?thesis
  proof (cases "space_point U c")
    case True
    with assms Cons have c: "c = 32" and "dropWhile (space_point U) r = r" by (cases r; simp)+
    with that(2) [of r] Cons True show ?thesis by simp
  qed (use Cons that(1) in simp)
qed (use that(1) in simp)

declare tidy.simps(2) [simp del]

text \<open>What the strip leaves.\<close>

definition normal :: "unicode \<Rightarrow> text_points \<Rightarrow> bool" where
  "normal U t \<longleftrightarrow> tidy U t \<and> join_pass U None t = t
     \<and> (case first_point t of None \<Rightarrow> True | Some c \<Rightarrow> \<not> space_point U c)
     \<and> (case first_point (rev t) of None \<Rightarrow> True | Some c \<Rightarrow> \<not> space_point U c)"

lemma first_dropWhile: "case first_point (dropWhile (space_point U) t) of None \<Rightarrow> True | Some c \<Rightarrow> \<not> space_point U c"
  by (induction t) (auto simp: first_point_def)

lemma first_point_simps [simp]: "first_point [] = None" "first_point (c # t) = Some c"
  by (simp_all add: first_point_def)

lemma first_snoc: "first_point (t @ [c]) = (if t = [] then Some c else first_point t)"
  by (cases t) (simp_all add: first_point_def)

lemma tidy_snoc: "tidy U (t @ [c]) \<Longrightarrow> tidy U t"
proof (induction t)
  case (Cons a t)
  then have "tidy U t" by (simp add: tidy_cons)
  with Cons.prems show ?case
    by (cases "t = []") (simp_all add: tidy_cons first_snoc split: if_splits)
qed simp

lemma tidy_last: "tidy U (t @ [c]) \<Longrightarrow> space_point U c \<Longrightarrow> c = 32 \<and> (t = [] \<or> \<not> space_point U (last t))"
proof (induction t)
  case (Cons a t)
  then have "c = 32 \<and> (t = [] \<or> \<not> space_point U (last t))" by (simp add: tidy_cons)
  with Cons.prems show ?case
    by (cases "t = []") (simp_all add: tidy_cons first_snoc split: if_splits)
qed (simp add: tidy_cons)

lemma strip_left:
  assumes "tidy U t" and "join_pass U None t = t" and "a = dropWhile (space_point U) t"
  shows "tidy U a \<and> join_pass U None a = a"
  using assms(1)
proof (cases rule: dropWhile_tidy)
  case (2 r)
  with assms show ?thesis by (simp add: join_blank blank tidy_cons)
qed (use assms in simp)

lemma strip_right:
  assumes "tidy U a" and "join_pass U None a = a" and "b = rev (dropWhile (space_point U) (rev a))"
  shows "tidy U b \<and> join_pass U None b = b \<and> (b = [] \<or> first_point b = first_point a)"
proof (cases a rule: rev_cases)
  case Nil
  with assms show ?thesis by simp
next
  case (snoc r c)
  show ?thesis
  proof (cases "space_point U c")
    case False
    with snoc assms show ?thesis by simp
  next
    case True
    from tidy_last [of U r c] assms(1) snoc True have c: "c = 32" and l: "r = [] \<or> \<not> space_point U (last r)" by simp_all
    from l have "dropWhile (space_point U) (rev r) = rev r" by (cases r rule: rev_cases) simp_all
    then have "b = r" by (simp add: assms(3) snoc True)
    moreover have "join_pass U None r = r" using assms(2) join_append_blank [of U None r] by (simp add: snoc c)
    moreover have "tidy U r" using assms(1) tidy_snoc by (simp add: snoc)
    ultimately show ?thesis by (simp add: snoc first_snoc)
  qed
qed

lemma strip_normal:
  assumes "tidy U t" and "join_pass U None t = t"
  shows "normal U (strip_points U t)" and "set (strip_points U t) \<subseteq> set t"
proof -
  let ?a = "dropWhile (space_point U) t"
  let ?b = "rev (dropWhile (space_point U) (rev ?a))"
  from strip_left [OF assms refl] have a: "tidy U ?a" "join_pass U None ?a = ?a" by auto
  from strip_right [OF a refl] have b: "tidy U ?b" "join_pass U None ?b = ?b" "?b = [] \<or> first_point ?b = first_point ?a" by auto
  have "case first_point ?b of None \<Rightarrow> True | Some c \<Rightarrow> \<not> space_point U c"
    using b(3) first_dropWhile [of U t] by (elim disjE) (simp_all only: first_point_simps option.case)
  moreover have "case first_point (rev ?b) of None \<Rightarrow> True | Some c \<Rightarrow> \<not> space_point U c"
    using first_dropWhile [of U "rev ?a"] by simp
  ultimately show "normal U (strip_points U t)" using b(1,2) unfolding normal_def strip_points_def by blast
  show "set (strip_points U t) \<subseteq> set t" by (auto simp: strip_points_def dest!: set_dropWhileD)
qed

lemma normal_strip: "normal U t \<Longrightarrow> strip_points U t = t"
proof -
  assume n: "normal U t"
  then have "dropWhile (space_point U) t = t" by (cases t) (auto simp: normal_def first_point_def)
  moreover from n have "dropWhile (space_point U) (rev t) = rev t" by (cases "rev t") (auto simp: normal_def first_point_def)
  ultimately show ?thesis by (simp add: strip_points_def)
qed

definition latin :: "nat \<Rightarrow> nat" where
  "latin c = fold (\<lambda>(old, new) c. if c = old then new else c) HOMOGLYPH_MAP c"

lemma replace_latin: "replace_homoglyphs t = map latin t"
proof -
  have "fold (\<lambda>(old, new). replace_point old new) m t = map (fold (\<lambda>(old, new) c. if c = old then new else c) m) t" for m
    by (induction m arbitrary: t) (auto simp: replace_point_def)
  then show ?thesis unfolding replace_homoglyphs_def latin_def [abs_def] by blast
qed

lemma latin_id: "c \<notin> set (map fst HOMOGLYPH_MAP) \<Longrightarrow> latin c = c"
proof -
  have "c \<notin> set (map fst m) \<Longrightarrow> fold (\<lambda>(old, new) c. if c = old then new else c) m c = c" for m
    by (induction m) auto
  then show "c \<notin> set (map fst HOMOGLYPH_MAP) \<Longrightarrow> latin c = c" unfolding latin_def by blast
qed

lemma latin_letter: "c \<in> set (map fst HOMOGLYPH_MAP) \<Longrightarrow> latin c \<in> set (map snd HOMOGLYPH_MAP)"
  unfolding HOMOGLYPH_MAP_def latin_def by auto

definition hidden :: "nat \<Rightarrow> bool" where
  "hidden c \<longleftrightarrow> c \<in> set ZERO_WIDTH_CHARS \<or> c \<in> set (map fst HOMOGLYPH_MAP)"

lemma letters_visible: "c \<in> set (map snd HOMOGLYPH_MAP) \<Longrightarrow> \<not> hidden c"
  by (auto simp: hidden_def HOMOGLYPH_MAP_def ZERO_WIDTH_CHARS_def)

lemma latin_visible: "c \<notin> set ZERO_WIDTH_CHARS \<Longrightarrow> \<not> hidden (latin c)"
  using latin_letter [of c] latin_id [of c] letters_visible [of "latin c"]
  by (cases "c \<in> set (map fst HOMOGLYPH_MAP)") (simp_all add: hidden_def)

lemma blank_visible: "\<not> hidden 32"
  by (simp add: hidden_def HOMOGLYPH_MAP_def ZERO_WIDTH_CHARS_def)

lemma normalize_run:
  "\<exists>t. normalize_prompt U prompt = Some t \<and> normal U t \<and> (\<forall>c\<in>set t. \<not> hidden c)"
proof -
  let ?t3 = "filter (\<lambda>c. c \<notin> set ZERO_WIDTH_CHARS) (un_lower U (un_nfkc U prompt))"
  let ?t5 = "collapse_spaces U (replace_homoglyphs ?t3)"
  from join_letters_run obtain k where j: "join_letters U ?t5 = Some ((join_pass U None ^^ k) ?t5)"
    and f: "join_pass U None ((join_pass U None ^^ k) ?t5) = (join_pass U None ^^ k) ?t5" by blast
  let ?j = "(join_pass U None ^^ k) ?t5"
  have tidy: "tidy U ?j" by (rule funpow_inv) (auto simp: collapse_tidy join_tidy)
  have "set ?j \<subseteq> set ?t5" by (rule funpow_inv) (use join_pass_set in blast)+
  then have sub: "set (strip_points U ?j) \<subseteq> insert 32 (set (map latin ?t3))"
    using collapse_set [of U "replace_homoglyphs ?t3"] strip_normal(2) [OF tidy f] unfolding replace_latin by blast
  have "\<not> hidden c" if "c \<in> set (strip_points U ?j)" for c
  proof (cases "c = 32")
    case False
    with sub that obtain d where "d \<in> set ?t3" "c = latin d" by auto
    then show ?thesis using latin_visible [of d] by simp
  qed (simp add: blank_visible)
  moreover have "normalize_prompt U prompt = Some (strip_points U ?j)"
    unfolding normalize_prompt_def Let_def j by simp
  ultimately show ?thesis using strip_normal(1) [OF tidy f] by blast
qed

lemma normal_join_letters: "normal U t \<Longrightarrow> join_letters U t = Some t"
proof -
  assume n: "normal U t"
  from join_letters_run obtain k where "join_letters U t = Some ((join_pass U None ^^ k) t)" by blast
  moreover have "(join_pass U None ^^ k) t = t" using n by (induction k) (simp_all add: normal_def)
  ultimately show ?thesis by simp
qed

text \<open>Letters spelled out with gaps between them.\<close>

definition gap :: "text_points \<Rightarrow> bool" where
  "gap g \<longleftrightarrow> list_all (\<lambda>c. c \<in> {9, 10, 11, 12, 13, 32} \<union> set ZERO_WIDTH_CHARS) g \<and> list_ex (\<lambda>c. c \<in> {9, 10, 11, 12, 13, 32}) g"

definition spelled :: "(nat \<times> text_points) list \<Rightarrow> text_points" where
  "spelled ls = concat (map (\<lambda>(c, g). c # g) ls)"

definition spelling :: "(nat \<times> text_points) list \<Rightarrow> bool" where
  "spelling ls \<longleftrightarrow> ls \<noteq> [] \<and> list_all (\<lambda>(c, g). small_letter c \<and> gap g) ls"

lemma letter_plain: "small_letter c \<Longrightarrow> c \<notin> set ZERO_WIDTH_CHARS \<and> latin c = c"
  using latin_id [of c] by (auto simp: small_letter_def ZERO_WIDTH_CHARS_def HOMOGLYPH_MAP_def)

lemma blank_plain: "c \<in> {9, 10, 11, 12, 13, 32} \<Longrightarrow> c \<notin> set ZERO_WIDTH_CHARS \<and> latin c = c \<and> space_point U c"
  using latin_id [of c] by (auto simp: ZERO_WIDTH_CHARS_def HOMOGLYPH_MAP_def space_point_def)

lemma gap_clean:
  assumes "gap g"
  shows "\<exists>s r. map latin (filter (\<lambda>c. c \<notin> set ZERO_WIDTH_CHARS) g) = s # r \<and> list_all (space_point U) (s # r)"
proof -
  let ?f = "filter (\<lambda>c. c \<notin> set ZERO_WIDTH_CHARS) g"
  from assms have all: "\<And>c. c \<in> set ?f \<Longrightarrow> c \<in> {9, 10, 11, 12, 13, 32}" by (auto simp: gap_def list_all_iff)
  have "map latin ?f = ?f" using all blank_plain by (intro map_idI) blast
  moreover have "?f \<noteq> []" using assms blank_plain by (auto simp: gap_def list_ex_iff filter_empty_conv)
  moreover have "list_all (space_point U) ?f" using all blank_plain by (auto simp only: list_all_iff)
  ultimately show ?thesis by (cases ?f) auto
qed

lemma dropWhile_all: "list_all P xs \<Longrightarrow> dropWhile P (xs @ ys) = dropWhile P ys"
  by (induction xs) auto

lemma collapse_spelled:
  "list_all (\<lambda>(c, g). small_letter c \<and> gap g) ls \<Longrightarrow>
   collapse_spaces U (map latin (filter (\<lambda>c. c \<notin> set ZERO_WIDTH_CHARS) (spelled ls))) = concat (map (\<lambda>(c, g). [c, 32]) ls)"
proof (induction ls)
  case (Cons cg ls)
  obtain c g where cg: "cg = (c, g)" by force
  from Cons.prems cg have c: "small_letter c" and g: "gap g" by simp_all
  let ?k = "\<lambda>t. map latin (filter (\<lambda>c. c \<notin> set ZERO_WIDTH_CHARS) t)"
  obtain s r where sr: "?k g = s # r" "list_all (space_point U) (s # r)" using gap_clean [OF g, of U] by auto
  have rest: "dropWhile (space_point U) (?k (spelled ls)) = ?k (spelled ls)"
  proof (cases ls)
    case (Cons dh rest)
    with Cons.prems have "small_letter (fst dh)" by (auto split: prod.splits)
    with Cons letter [of "fst dh" U] letter_plain [of "fst dh"] show ?thesis by (cases dh) (simp add: spelled_def)
  qed (simp add: spelled_def)
  have "?k (spelled (cg # ls)) = c # (s # r) @ ?k (spelled ls)"
    using letter_plain [OF c] sr(1) by (simp add: spelled_def cg)
  then show ?case using Cons letter [OF c, of U] sr(2) rest by (simp add: cg dropWhile_all)
qed (simp add: spelled_def)

lemma join_spelled:
  "list_all small_letter cs \<Longrightarrow> edge U before \<Longrightarrow> cs \<noteq> [] \<Longrightarrow> join_pass U before (concat (map (\<lambda>c. [c, 32]) cs)) = cs @ [32]"
proof (induction cs arbitrary: before)
  case (Cons c cs)
  show ?case
  proof (cases cs)
    case (Cons d ds)
    with Cons.prems have "edge U (first_point (32 # concat (map (\<lambda>c. [c, 32]) ds)))" by (simp add: edge_def blank)
    with Cons Cons.prems Cons.IH [of "Some 32"] show ?thesis by (simp add: blank edge_def)
  qed simp
qed simp

lemma join_word: "list_all small_letter cs \<Longrightarrow> join_pass U before (cs @ [32]) = cs @ [32]"
proof (induction U before cs rule: join_pass.induct)
  case (1 U before c s d rest)
  then show ?case using letter [of s U] by simp
qed (simp_all add: letter)

lemma strip_word:
  assumes "list_all small_letter cs"
  shows "strip_points U (cs @ [32]) = cs"
proof (cases cs rule: rev_cases)
  case (snoc r c)
  with assms letter [of c U] have last: "dropWhile (space_point U) (32 # rev cs) = rev cs" by (simp add: blank)
  have "dropWhile (space_point U) (cs @ [32]) = cs @ [32]"
    using assms letter [of "hd cs" U] unfolding snoc by (cases r) auto
  with last show ?thesis by (simp add: strip_points_def)
qed (simp add: strip_points_def blank)

section \<open>Properties\<close>


text \<open>A word spelled out letter by letter, with any mix of white space and invisible characters behind each letter, is
  normalized to the word.\<close>

theorem spelled_words_are_joined:
  "if spelling ls \<and> un_lower U (un_nfkc U prompt) = spelled ls
   then normalize_prompt U prompt = Some (map fst ls) else True"
proof (cases "spelling ls \<and> un_lower U (un_nfkc U prompt) = spelled ls")
  case True
  let ?cs = "map fst ls"
  let ?t = "concat (map (\<lambda>c. [c, 32]) ?cs)"
  from True have ls: "list_all (\<lambda>(c, g). small_letter c \<and> gap g) ls" "ls \<noteq> []" by (simp_all add: spelling_def)
  then have cs: "list_all small_letter ?cs" by (auto simp: list_all_iff)
  have t: "collapse_spaces U (replace_homoglyphs (filter (\<lambda>c. c \<notin> set ZERO_WIDTH_CHARS) (spelled ls))) = ?t"
    unfolding replace_latin collapse_spelled [OF ls(1)] by (simp add: case_prod_beta' comp_def)
  from join_letters_run obtain k where k: "join_letters U ?t = Some ((join_pass U None ^^ k) ?t)"
    "join_pass U None ((join_pass U None ^^ k) ?t) = (join_pass U None ^^ k) ?t" by blast
  have once: "join_pass U None ?t = ?cs @ [32]" by (rule join_spelled) (use cs ls in \<open>auto simp: edge_def\<close>)
  have fixed: "(join_pass U None ^^ m) (?cs @ [32]) = ?cs @ [32]" for m
    by (induction m) (simp_all add: join_word [OF cs])
  have "(join_pass U None ^^ k) ?t = ?cs @ [32]"
    using k(2) once fixed by (cases k) (simp_all add: funpow_swap1 del: funpow.simps(2) add: funpow_Suc_right)
  with k(1) True t strip_word [OF cs] show ?thesis by (simp add: normalize_prompt_def)
qed auto

end
