(* ===== verification/Evaluation.thy ===== *)
theory Evaluation
  imports Prelude "HOL-Library.Multiset" "HOL-Library.Product_Lexorder"
begin

text \<open>
  evaluation/metrics.py: the statistics every detector comparison and every threshold of this project rests
  on. Scores are reals, labels booleans, \<open>nan\<close> is \<open>None\<close>; a threshold is \<open>None\<close> at infinity. The random
  resamples are an argument.
\<close>

type_synonym sample = "(real \<times> bool) list"

section \<open>Point statistics\<close>

definition positives :: "sample \<Rightarrow> nat" where
  "positives ps = length (filter snd ps)"

definition negatives :: "sample \<Rightarrow> nat" where
  "negatives ps = length (filter (\<lambda>p. \<not> snd p) ps)"

text \<open>Average ranks of the tie groups: \<open>i\<close> is the position of the first element that is left.\<close>

function average_ranks :: "nat \<Rightarrow> sample \<Rightarrow> real list" where
  "average_ranks i [] = []"
| "average_ranks i (p # ps) =
     (let k = length (takeWhile (\<lambda>q. fst q = fst p) ps); j = i + k
      in replicate (Suc k) ((real i + real j) / 2 + 1) @ average_ranks (Suc j) (drop k ps))"
  by pat_completeness auto
termination
  by (relation "measure (length \<circ> snd)") auto

definition roc_auc :: "real list \<Rightarrow> bool list \<Rightarrow> real option" where
  "roc_auc scores labels =
     (let pairs = sort_key fst (zip scores labels); n = length pairs
      in if n = 0 then None
         else let ranks = average_ranks 0 pairs;
                  pos_ranks = sum_list (map fst (filter (\<lambda>(r, p). snd p) (zip ranks pairs)));
                  n_pos = positives pairs; n_neg = n - n_pos
              in if n_pos = 0 \<or> n_neg = 0 then None
                 else Some ((pos_ranks - real n_pos * (real n_pos + 1) / 2) / (real n_pos * real n_neg)))"

text \<open>The points of the curve, from the highest score down.\<close>

type_synonym roc_point = "real \<times> real \<times> real option"

fun roc_scan :: "nat \<Rightarrow> nat \<Rightarrow> nat \<Rightarrow> nat \<Rightarrow> sample \<Rightarrow> roc_point list" where
  "roc_scan n_pos n_neg tp fp [] = []"
| "roc_scan n_pos n_neg tp fp ((score, lab) # ps) =
     (let tp' = (if lab then tp + 1 else tp); fp' = (if lab then fp else fp + 1)
      in (real fp' / real n_neg, real tp' / real n_pos, Some score) # roc_scan n_pos n_neg tp' fp' ps)"

definition roc_points :: "real list \<Rightarrow> bool list \<Rightarrow> roc_point list" where
  "roc_points scores labels =
     (let ordered = sort_key (\<lambda>p. - fst p) (zip scores labels);
          n_pos = positives ordered; n_neg = length ordered - n_pos
      in if n_pos = 0 \<or> n_neg = 0 then [] else (0, 0, None) # roc_scan n_pos n_neg 0 0 ordered)"

definition recall_at_fpr :: "real list \<Rightarrow> bool list \<Rightarrow> real \<Rightarrow> real option" where
  "recall_at_fpr scores labels budget =
     (let pts = roc_points scores labels
      in if pts = [] then None
         else let feasible = map (\<lambda>(fpr, tpr, thr). tpr) (filter (\<lambda>(fpr, tpr, thr). fpr \<le> budget) pts)
              in Some (if feasible = [] then 0 else foldr max (tl feasible) (hd feasible)))"

text \<open>\<open>max\<close> and \<open>min\<close> with a key return the first of the best.\<close>

fun first_best :: "('a \<Rightarrow> 'a \<Rightarrow> bool) \<Rightarrow> 'a \<Rightarrow> 'a list \<Rightarrow> 'a" where
  "first_best better b [] = b"
| "first_best better b (x # xs) = first_best better (if better x b then x else b) xs"

text \<open>\<open>max(feasible)[1]\<close>: the greatest recall, then the greatest threshold.\<close>

definition later :: "real \<times> real option \<Rightarrow> real \<times> real option \<Rightarrow> bool" where
  "later p q \<longleftrightarrow> fst p < fst q \<or> fst p = fst q \<and>
     (case (snd p, snd q) of (Some t, Some u) \<Rightarrow> t < u | (Some t, None) \<Rightarrow> True | (None, _) \<Rightarrow> False)"

definition threshold_at_fpr :: "real list \<Rightarrow> bool list \<Rightarrow> real \<Rightarrow> real option option" where
  "threshold_at_fpr scores labels budget =
     (case map snd (filter (\<lambda>(fpr, tpr, thr). fpr \<le> budget) (roc_points scores labels)) of
        [] \<Rightarrow> None
      | p # ps \<Rightarrow> Some (snd (first_best (\<lambda>q b. later b q) p ps)))"

record confusion_matrix =
  cm_tp :: nat
  cm_fp :: nat
  cm_tn :: nat
  cm_fn :: nat

fun confusion_from :: "confusion_matrix \<Rightarrow> real \<Rightarrow> sample \<Rightarrow> confusion_matrix" where
  "confusion_from cm t [] = cm"
| "confusion_from cm t ((s, lab) # ps) =
     confusion_from
       (if lab \<and> s \<ge> t then cm\<lparr>cm_tp := cm_tp cm + 1\<rparr>
        else if \<not> lab \<and> s \<ge> t then cm\<lparr>cm_fp := cm_fp cm + 1\<rparr>
        else if \<not> lab \<and> \<not> s \<ge> t then cm\<lparr>cm_tn := cm_tn cm + 1\<rparr>
        else cm\<lparr>cm_fn := cm_fn cm + 1\<rparr>) t ps"

definition confusion :: "real list \<Rightarrow> bool list \<Rightarrow> real \<Rightarrow> confusion_matrix" where
  "confusion scores labels t = confusion_from \<lparr>cm_tp = 0, cm_fp = 0, cm_tn = 0, cm_fn = 0\<rparr> t (zip scores labels)"

record derived_metrics =
  dm_accuracy :: real
  dm_precision :: real
  dm_recall :: real
  dm_f1 :: real
  dm_fpr :: real

definition ratio :: "nat \<Rightarrow> nat \<Rightarrow> real" where
  "ratio a b = (if b = 0 then 0 else real a / real b)"

definition derived :: "confusion_matrix \<Rightarrow> derived_metrics" where
  "derived cm =
     (let tp = cm_tp cm; fp = cm_fp cm; tn = cm_tn cm; fn = cm_fn cm;
          precision = ratio tp (tp + fp);
          recall = ratio tp (tp + fn)
      in \<lparr>dm_accuracy = ratio (tp + tn) (tp + fp + tn + fn), dm_precision = precision, dm_recall = recall,
          dm_f1 = (if precision + recall = 0 then 0 else 2 * precision * recall / (precision + recall)),
          dm_fpr = ratio fp (fp + tn)\<rparr>)"

section \<open>Bootstrap\<close>

record interval =
  ci_point :: "real option"
  ci_lo :: "real option"
  ci_hi :: "real option"
  ci_n :: nat
  ci_effective :: nat

definition resample :: "'a list \<Rightarrow> nat list \<Rightarrow> 'a list" where
  "resample xs idx = map (\<lambda>i. xs ! i) idx"

text \<open>Draws in which one class vanished, and those without a value, are skipped.\<close>

definition usable_value :: "(real list \<Rightarrow> bool list \<Rightarrow> real option) \<Rightarrow> real list \<Rightarrow> bool list \<Rightarrow> nat list \<Rightarrow> real option" where
  "usable_value statistic scores labels idx =
     (let lab = resample labels idx
      in if length (remdups lab) < 2 then None else statistic (resample scores idx) lab)"

definition bootstrap_values :: "(real list \<Rightarrow> bool list \<Rightarrow> real option) \<Rightarrow> real list \<Rightarrow> bool list \<Rightarrow> nat list list \<Rightarrow> real list" where
  "bootstrap_values statistic scores labels draws = List.map_filter (usable_value statistic scores labels) draws"

definition bootstrap_ci ::
  "nat list list \<Rightarrow> real list \<Rightarrow> bool list \<Rightarrow> (real list \<Rightarrow> bool list \<Rightarrow> real option) \<Rightarrow> real \<Rightarrow> interval" where
  "bootstrap_ci draws scores labels statistic alpha =
     (let n = length scores
      in if n = 0 then \<lparr>ci_point = None, ci_lo = None, ci_hi = None, ci_n = 0, ci_effective = 0\<rparr>
         else let samples = sort (bootstrap_values statistic scores labels draws); m = length samples;
                  lo_i = nat \<lfloor>alpha / 2 * real m\<rfloor>;
                  hi_i = min (nat \<lfloor>(1 - alpha / 2) * real m\<rfloor>) (m - 1)
              in if samples = []
                 then \<lparr>ci_point = statistic scores labels, ci_lo = None, ci_hi = None, ci_n = n, ci_effective = 0\<rparr>
                 else \<lparr>ci_point = statistic scores labels, ci_lo = Some (samples ! lo_i), ci_hi = Some (samples ! hi_i),
                       ci_n = n, ci_effective = m\<rparr>)"

section \<open>Slices\<close>

record slice =
  sl_n :: nat
  sl_attack :: nat
  sl_benign :: nat
  sl_recall_at_threshold :: "real option"
  sl_fpr_at_threshold :: "real option"
  sl_auc :: "interval option"
  sl_recall :: "interval option"
  sl_threshold :: "real option"
  sl_confusion :: "confusion_matrix option"
  sl_derived :: "derived_metrics option"
  sl_underpowered :: bool

definition DEFAULT_ALPHA :: real where "DEFAULT_ALPHA = 1 / 20"

definition evaluable :: "slice \<Rightarrow> bool" where
  "evaluable s \<longleftrightarrow> 0 < sl_attack s \<and> 0 < sl_benign s"

text \<open>A finite threshold: the one that was given, or the one of the budget.\<close>

definition finite_threshold :: "real list \<Rightarrow> bool list \<Rightarrow> real \<Rightarrow> real option \<Rightarrow> real option" where
  "finite_threshold scores labels budget threshold =
     (case threshold of Some t \<Rightarrow> Some t
      | None \<Rightarrow> (case threshold_at_fpr scores labels budget of Some (Some t) \<Rightarrow> Some t | _ \<Rightarrow> None))"

definition evaluate_slice ::
  "nat list list \<Rightarrow> real \<Rightarrow> real option \<Rightarrow> real list \<Rightarrow> bool list \<Rightarrow> slice" where
  "evaluate_slice draws budget threshold scores labels =
     (let n_pos = length (filter id labels); n_neg = length labels - n_pos;
          out = \<lparr>sl_n = length labels, sl_attack = n_pos, sl_benign = n_neg, sl_recall_at_threshold = None,
                 sl_fpr_at_threshold = None, sl_auc = None, sl_recall = None, sl_threshold = None, sl_confusion = None,
                 sl_derived = None, sl_underpowered = False\<rparr>
      in if \<not> (0 < n_pos \<and> 0 < n_neg)
         then (case threshold of
                 None \<Rightarrow> out
               | Some t \<Rightarrow>
                   let flagged = real (length (filter (\<lambda>s. s \<ge> t) scores))
                   in out\<lparr>sl_recall_at_threshold := (if 0 < n_pos then Some (flagged / real n_pos) else None),
                          sl_fpr_at_threshold := (if 0 < n_neg then Some (flagged / real n_neg) else None)\<rparr>)
         else let full = out\<lparr>sl_auc := Some (bootstrap_ci draws scores labels roc_auc DEFAULT_ALPHA),
                             sl_recall := Some (bootstrap_ci draws scores labels (\<lambda>s lab. recall_at_fpr s lab budget) DEFAULT_ALPHA)\<rparr>
              in (case finite_threshold scores labels budget threshold of
                    None \<Rightarrow> full
                  | Some t \<Rightarrow> full\<lparr>sl_threshold := Some t, sl_confusion := Some (confusion scores labels t),
                                   sl_derived := Some (derived (confusion scores labels t))\<rparr>))"

text \<open>\<open>groups.setdefault(r[slice_key], []).append(r)\<close>\<close>

definition group_by :: "('r \<Rightarrow> 'k) \<Rightarrow> 'r list \<Rightarrow> ('k \<times> 'r list) list" where
  "group_by key rs =
     foldl (\<lambda>g r. od_set (key r) (case map_of g (key r) of None \<Rightarrow> [r] | Some xs \<Rightarrow> xs @ [r]) g) [] rs"

definition evaluate_by ::
  "(nat \<Rightarrow> nat list list) \<Rightarrow> real \<Rightarrow> real option \<Rightarrow> nat \<Rightarrow> ('r \<Rightarrow> real) \<Rightarrow> ('r \<Rightarrow> bool) \<Rightarrow> ('r \<Rightarrow> 'k) \<Rightarrow> 'r list
   \<Rightarrow> ('k \<times> slice) list" where
  "evaluate_by draws budget threshold min_n score label key rs =
     map (\<lambda>(value, rows).
            (value, (evaluate_slice (draws (length rows)) budget threshold (map score rows) (map label rows))
                      \<lparr>sl_underpowered := length rows < min_n\<rparr>))
       (sort_key (\<lambda>(value, rows). - int (length rows)) (group_by key rs))"

section \<open>Lemmas on ranks\<close>

text \<open>How much a score beats another: ties count one half.\<close>

definition beats :: "real \<times> bool \<Rightarrow> real \<times> bool \<Rightarrow> real" where
  "beats p q = (if fst q < fst p then 1 else if fst q = fst p then 1 / 2 else 0)"

definition wins :: "sample \<Rightarrow> sample \<Rightarrow> real" where
  "wins ps qs = sum_list (map (\<lambda>p. sum_list (map (beats p) qs)) ps)"

definition rank_in :: "sample \<Rightarrow> real \<times> bool \<Rightarrow> real" where
  "rank_in ps p = sum_list (map (beats p) ps) + 1 / 2"

lemma beats_below: "\<forall>q\<in>set qs. fst q < fst p \<Longrightarrow> sum_list (map (beats p) qs) = real (length qs)"
  by (induction qs) (auto simp: beats_def)

lemma beats_same: "\<forall>q\<in>set qs. fst q = fst p \<Longrightarrow> sum_list (map (beats p) qs) = real (length qs) / 2"
  by (induction qs) (auto simp: beats_def field_simps)

lemma beats_above: "\<forall>q\<in>set qs. fst p < fst q \<Longrightarrow> sum_list (map (beats p) qs) = 0"
  by (induction qs) (auto simp: beats_def)

lemma average_ranks_group:
  assumes "\<forall>q\<in>set g. fst q = fst p" and "r = [] \<or> fst (hd r) \<noteq> fst p"
  shows "average_ranks i (p # g @ r) =
    replicate (Suc (length g)) ((real i + real (i + length g)) / 2 + 1) @ average_ranks (Suc (i + length g)) r"
proof -
  have "takeWhile (\<lambda>q. fst q = fst p) (g @ r) = g @ takeWhile (\<lambda>q. fst q = fst p) r"
    using assms(1) by (induction g) auto
  moreover have "takeWhile (\<lambda>q. fst q = fst p) r = []" using assms(2) by (cases r) auto
  ultimately have "takeWhile (\<lambda>q. fst q = fst p) (g @ r) = g" by simp
  then show ?thesis by (simp add: Let_def)
qed

lemma rank_group:
  assumes "\<forall>q\<in>set pre. fst q < x" and "\<forall>q\<in>set g. fst q = x" and "\<forall>q\<in>set r. x < fst q" and "fst a = x"
  shows "rank_in (pre @ g @ r) a = real (length pre) + (real (length g) + 1) / 2"
  using beats_below [of pre a] beats_same [of g a] beats_above [of r a] assms by (simp add: rank_in_def field_simps)

lemma average_ranks_rank:
  assumes "sorted (map fst ps)" and "\<forall>p\<in>set pre. \<forall>q\<in>set ps. fst p < fst q"
  shows "average_ranks (length pre) ps = map (rank_in (pre @ ps)) ps"
  using assms
proof (induction "length ps" arbitrary: ps pre rule: less_induct)
  case less
  show ?case
  proof (cases ps)
    case (Cons p qs)
    define g where "g = takeWhile (\<lambda>q. fst q = fst p) qs"
    define r where "r = dropWhile (\<lambda>q. fst q = fst p) qs"
    have qs: "qs = g @ r" by (simp add: g_def r_def)
    have g: "\<forall>q\<in>set g. fst q = fst p" unfolding g_def by (auto dest: set_takeWhileD)
    have hd: "r = [] \<or> fst (hd r) \<noteq> fst p" using hd_dropWhile [of "\<lambda>q. fst q = fst p" qs] by (auto simp: r_def)
    have sorted: "sorted (map fst r)" "\<forall>q\<in>set r. fst p \<le> fst q"
      using less.prems(1) by (simp_all add: Cons qs sorted_append)
    have r: "\<forall>q\<in>set r. fst p < fst q"
      using sorted hd by (cases r) force+
    have below: "\<forall>a\<in>set (pre @ p # g). \<forall>q\<in>set r. fst a < fst q"
    proof (intro ballI)
      fix a q assume "a \<in> set (pre @ p # g)" and q: "q \<in> set r"
      then consider "a \<in> set pre" | "fst a = fst p" using g by auto
      then show "fst a < fst q" using less.prems(2) q r by cases (simp_all add: Cons qs)
    qed
    have "average_ranks (length (pre @ p # g)) r = map (rank_in ((pre @ p # g) @ r)) r"
      by (rule less.hyps [OF _ sorted(1) below]) (simp add: Cons qs)
    moreover have "map (rank_in (pre @ (p # g) @ r)) (p # g)
        = replicate (Suc (length g)) ((real (length pre) + real (length pre + length g)) / 2 + 1)"
    proof (rule replicate_eqI)
      fix y assume "y \<in> set (map (rank_in (pre @ (p # g) @ r)) (p # g))"
      then obtain a where "a \<in> set (p # g)" and y: "y = rank_in (pre @ (p # g) @ r) a" unfolding set_map by blast
      then have "fst a = fst p" using g by auto
      then have "y = real (length pre) + (real (length (p # g)) + 1) / 2"
        unfolding y by (intro rank_group [of _ "fst p"]) (use less.prems g r in \<open>auto simp: Cons\<close>)
      then show "y = (real (length pre) + real (length pre + length g)) / 2 + 1" by (simp add: field_simps)
    qed simp
    ultimately show ?thesis by (simp add: Cons qs average_ranks_group [OF g hd] del: average_ranks.simps)
  qed simp
qed

lemma wins_swap: "wins ps qs + wins qs ps = real (length ps) * real (length qs)"
proof (induction ps)
  case (Cons p ps)
  have "sum_list (map (beats p) qs) + sum_list (map (\<lambda>q. beats q p) qs) = real (length qs)"
    by (induction qs) (auto simp: beats_def)
  moreover have "wins qs (p # ps) = sum_list (map (\<lambda>q. beats q p) qs) + wins qs ps"
    by (simp add: wins_def sum_list_addf)
  ultimately show ?case using Cons by (simp add: wins_def algebra_simps)
qed (simp add: wins_def)

lemma wins_append: "wins ps (qs @ rs) = wins ps qs + wins ps rs"
  by (simp add: wins_def sum_list_addf)

lemma wins_mset:
  assumes "mset ps = mset ps'" and "mset qs = mset qs'"
  shows "wins ps qs = wins ps' qs'"
proof -
  have "wins ps qs = \<Sum>\<^sub># (image_mset (\<lambda>p. \<Sum>\<^sub># (image_mset (beats p) (mset qs))) (mset ps))" for ps qs
    by (simp add: wins_def sum_mset_sum_list flip: mset_map)
  with assms show ?thesis by metis
qed

lemma rank_sum: "sum_list (map (rank_in qs) ps) = wins ps qs + real (length ps) / 2"
  by (induction ps) (simp_all add: rank_in_def wins_def field_simps)

lemma zip_map_filter:
  "map fst (filter (\<lambda>(r, p). snd p) (zip (map f ps) ps)) = map f (filter snd ps)"
  by (induction ps) auto

lemma pos_neg: "length ps - positives ps = negatives ps" "positives ps + negatives ps = length ps"
  using sum_length_filter_compl [of snd ps] by (simp_all add: positives_def negatives_def)

section \<open>Lemmas on the curve\<close>

text \<open>The point after the first \<open>k\<close> rows.\<close>

definition point :: "sample \<Rightarrow> nat \<Rightarrow> roc_point" where
  "point ps k =
     (real (negatives (take k ps)) / real (negatives ps), real (positives (take k ps)) / real (positives ps),
      if k = 0 then None else Some (fst (ps ! (k - 1))))"

lemma count_simps [simp]:
  "positives [] = 0" "negatives [] = 0"
  "positives (p # ps) = (if snd p then 1 else 0) + positives ps"
  "negatives (p # ps) = (if snd p then 0 else 1) + negatives ps"
  by (simp_all add: positives_def negatives_def)

lemma roc_scan_points:
  "roc_scan P N tp fp ps =
    map (\<lambda>k. (real (fp + negatives (take (Suc k) ps)) / real N, real (tp + positives (take (Suc k) ps)) / real P,
              Some (fst (ps ! k)))) [0..<length ps]"
proof (induction P N tp fp ps rule: roc_scan.induct)
  case (2 P N tp fp score lab ps)
  show ?case
    unfolding roc_scan.simps Let_def "2.IH" [OF refl refl] list.size add_Suc_right add_0_right
    by (subst upt_conv_Cons) (simp_all add: map_Suc_upt [symmetric] comp_def del: upt_Suc)
qed simp

lemma roc_points_prefixes:
  "roc_points scores labels =
     (let os = sort_key (\<lambda>p. - fst p) (zip scores labels)
      in if positives os = 0 \<or> negatives os = 0 then [] else map (point os) [0..<Suc (length os)])"
proof -
  let ?os = "sort_key (\<lambda>p. - fst p) (zip scores labels)"
  have "(0, 0, None) # roc_scan (positives ?os) (negatives ?os) 0 0 ?os = map (point ?os) [0..<Suc (length ?os)]"
    unfolding roc_scan_points
    by (subst upt_conv_Cons) (simp_all add: map_Suc_upt [symmetric] comp_def point_def del: upt_Suc)
  then show ?thesis unfolding roc_points_def Let_def pos_neg(1) by simp
qed

lemma confusion_counts:
  "confusion_from cm t ps =
    \<lparr>cm_tp = cm_tp cm + positives (filter (\<lambda>p. t \<le> fst p) ps), cm_fp = cm_fp cm + negatives (filter (\<lambda>p. t \<le> fst p) ps),
     cm_tn = cm_tn cm + negatives (filter (\<lambda>p. \<not> t \<le> fst p) ps), cm_fn = cm_fn cm + positives (filter (\<lambda>p. \<not> t \<le> fst p) ps)\<rparr>"
  by (induction cm t ps rule: confusion_from.induct) auto

lemma counts_partition: "positives (filter P ps) + positives (filter (\<lambda>p. \<not> P p) ps) = positives ps"
  "negatives (filter P ps) + negatives (filter (\<lambda>p. \<not> P p) ps) = negatives ps"
  by (induction ps) auto

lemma counts_mset: "mset ps = mset qs \<Longrightarrow> positives ps = positives qs" "mset ps = mset qs \<Longrightarrow> negatives ps = negatives qs"
  unfolding positives_def negatives_def by (metis mset_filter size_mset)+

text \<open>What a threshold lets through is a prefix of the rows by descending score.\<close>

lemma descending_prefix:
  "sorted (map (\<lambda>p. - fst p) ps) \<Longrightarrow> \<exists>k\<le>length ps. filter (\<lambda>p. (t::real) \<le> fst p) ps = take k ps"
proof (induction ps)
  case (Cons p ps)
  show ?case
  proof (cases "t \<le> fst p")
    case True
    with Cons obtain k where "k \<le> length ps" "filter (\<lambda>p. t \<le> fst p) ps = take k ps" by auto
    with True show ?thesis by (intro exI [of _ "Suc k"]) simp
  next
    case False
    with Cons.prems have "filter (\<lambda>p. t \<le> fst p) (p # ps) = []" by (auto simp: filter_empty_conv)
    then show ?thesis by (intro exI [of _ 0]) simp
  qed
qed simp

lemma descending_last:
  "sorted (map (\<lambda>p. - fst p) ps) \<Longrightarrow> distinct (map fst ps) \<Longrightarrow> k < length ps \<Longrightarrow>
   filter (\<lambda>p. (fst (ps ! k) :: real) \<le> fst p) ps = take (Suc k) ps"
proof (induction ps arbitrary: k)
  case (Cons p ps)
  show ?case
  proof (cases k)
    case 0
    have "\<not> fst p \<le> fst q" if "q \<in> set ps" for q
      using Cons.prems(1,2) that by (force simp: image_iff)
    with 0 show ?thesis by (simp add: filter_empty_conv)
  next
    case (Suc j)
    with Cons.prems have "fst (ps ! j) \<le> fst p" by simp
    with Cons Suc show ?thesis by simp
  qed
qed simp

lemma rates_at:
  fixes t :: real
  assumes "filter (\<lambda>p. t \<le> fst p) os = take k os" and "mset os = mset (zip scores labels)"
    and "positives os \<noteq> 0" and "negatives os \<noteq> 0"
  shows "dm_fpr (derived (confusion scores labels t)) = fst (point os k)"
    and "dm_recall (derived (confusion scores labels t)) = fst (snd (point os k))"
proof -
  let ?z = "zip scores labels"
  have m: "mset (filter P ?z) = mset (filter P os)" for P using assms(2) by (metis mset_filter)
  have c: "positives (filter P ?z) = positives (filter P os)" "negatives (filter P ?z) = negatives (filter P os)" for P
    by (rule counts_mset [OF m])+
  show "dm_fpr (derived (confusion scores labels t)) = fst (point os k)"
    "dm_recall (derived (confusion scores labels t)) = fst (snd (point os k))"
    using assms counts_partition [of "\<lambda>p. t \<le> fst p" os]
    by (simp_all add: derived_def confusion_def confusion_counts c ratio_def point_def Let_def)
qed

lemma foldr_max: "foldr max xs (x :: real) = Max (set (x # xs))"
proof (induction xs)
  case (Cons a xs)
  have "Max (insert a (insert x (set xs))) = max a (Max (insert x (set xs)))" by (rule Max_insert) auto
  with Cons show ?case by (simp add: insert_commute)
qed simp

lemma foldr_max_list: "xs \<noteq> [] \<Longrightarrow> foldr max (tl xs) (hd xs :: real) = Max (set xs)"
  by (cases xs) (simp_all add: foldr_max)

lemma first_best_in: "first_best better b xs \<in> set (b # xs)"
  by (induction better b xs rule: first_best.induct) auto

text \<open>For a key, nothing is better than the first best.\<close>

lemma first_best_key:
  fixes key :: "'a \<Rightarrow> 'b :: linorder"
  assumes "\<And>a b. better a b \<longleftrightarrow> key b < key a" and "y \<in> set (b # xs)"
  shows "key y \<le> key (first_best better b xs)"
  using assms(2)
proof (induction xs arbitrary: b y)
  case (Cons x xs)
  let ?w = "if better x b then x else b"
  have up: "key b \<le> key ?w" "key x \<le> key ?w" using assms(1) [of x b] by (auto simp: not_less)
  have ih: "\<And>y. y \<in> set (?w # xs) \<Longrightarrow> key y \<le> key (first_best better ?w xs)" using Cons.IH by blast
  have w: "key ?w \<le> key (first_best better ?w xs)" by (rule ih) simp
  from Cons.prems consider "y = b" | "y = x" | "y \<in> set xs" by auto
  then have "key y \<le> key (first_best better ?w xs)"
    by cases (use order_trans [OF up(1) w] order_trans [OF up(2) w] ih in simp_all)
  then show ?case by simp
qed simp

text \<open>The order of the selection, with infinity on top.\<close>

definition height :: "real option \<Rightarrow> nat \<times> real" where
  "height t = (case t of None \<Rightarrow> (1, 0) | Some x \<Rightarrow> (0, x))"

definition order_key :: "real \<times> real option \<Rightarrow> real \<times> nat \<times> real" where
  "order_key p = (fst p, height (snd p))"

lemma later_key: "later b q \<longleftrightarrow> order_key b < order_key q"
  by (auto simp: later_def order_key_def height_def less_prod_def split: option.splits)

lemma greatest_max: "q \<in> set (p # ps) \<Longrightarrow> order_key q \<le> order_key (first_best (\<lambda>q b. later b q) p ps)"
  by (rule first_best_key [where key = order_key, OF later_key])

lemma order_key_fst: "order_key p \<le> order_key q \<Longrightarrow> fst p \<le> fst q"
  by (auto simp: order_key_def less_eq_prod_def)

lemma feasible_recalls:
  "set (map (\<lambda>(fpr, tpr, thr). tpr) (filter (\<lambda>(fpr, tpr, thr). fpr \<le> b) pts)) = (\<lambda>x. fst (snd x)) ` {x \<in> set pts. fst x \<le> b}"
  by force

lemma map_upt_nonempty: "map f [0..<Suc n] \<noteq> []"
  by simp

text \<open>The two selections over the points of the curve.\<close>

lemma curve:
  assumes "positives (zip scores labels) \<noteq> 0" and "negatives (zip scores labels) \<noteq> 0"
  obtains os where "mset os = mset (zip scores labels)" and "sorted (map (\<lambda>p. - fst p) os)"
    and "positives os \<noteq> 0" and "negatives os \<noteq> 0"
    and "roc_points scores labels = map (point os) [0..<Suc (length os)]"
proof
  let ?os = "sort_key (\<lambda>p. - fst p) (zip scores labels)"
  show "mset ?os = mset (zip scores labels)" "sorted (map (\<lambda>p. - fst p) ?os)" by simp_all
  from this(1) counts_mset [of ?os "zip scores labels"] assms
  show "positives ?os \<noteq> 0" "negatives ?os \<noteq> 0" by auto
  then show "roc_points scores labels = map (point ?os) [0..<Suc (length ?os)]"
    by (simp add: roc_points_prefixes Let_def del: upt_Suc)
qed

lemma no_curve:
  assumes "positives (zip scores labels) = 0 \<or> negatives (zip scores labels) = 0"
  shows "roc_points scores labels = []"
proof -
  let ?os = "sort_key (\<lambda>p. - fst p) (zip scores labels)"
  have "mset ?os = mset (zip scores labels)" by simp
  from counts_mset [OF this] assms show ?thesis by (simp add: roc_points_prefixes Let_def)
qed

lemma best_recall:
  assumes "roc_points scores labels = pts" and "pts \<noteq> []"
  shows "recall_at_fpr scores labels budget =
    Some (if {x \<in> set pts. fst x \<le> budget} = {} then 0 else Max ((\<lambda>x. fst (snd x)) ` {x \<in> set pts. fst x \<le> budget}))"
proof -
  let ?fs = "map (\<lambda>(fpr, tpr, thr). tpr) (filter (\<lambda>(fpr, tpr, thr). fpr \<le> budget) pts)"
  have a: "recall_at_fpr scores labels budget = Some (if ?fs = [] then 0 else foldr max (tl ?fs) (hd ?fs))"
    using assms by (simp add: recall_at_fpr_def Let_def)
  have b: "?fs = [] \<longleftrightarrow> {x \<in> set pts. fst x \<le> budget} = {}"
    by (subst set_empty [symmetric]) (simp only: feasible_recalls image_is_empty)
  have c: "foldr max (tl ?fs) (hd ?fs) = Max ((\<lambda>x. fst (snd x)) ` {x \<in> set pts. fst x \<le> budget})" if "?fs \<noteq> []"
    using foldr_max_list [OF that] unfolding feasible_recalls .
  show ?thesis
  proof (cases "?fs = []")
    case True
    with b have "{x \<in> set pts. fst x \<le> budget} = {}" by (rule iffD1)
    then show ?thesis unfolding a if_P [OF True] by (simp only: if_True simp_thms)
  next
    case False
    with b have "{x \<in> set pts. fst x \<le> budget} \<noteq> {}" by blast
    then show ?thesis unfolding a if_not_P [OF False] c [OF False] by (simp only: if_False)
  qed
qed

lemma best_threshold:
  assumes "roc_points scores labels = pts"
  shows "case threshold_at_fpr scores labels budget of
      None \<Rightarrow> {x \<in> set pts. fst x \<le> budget} = {}
    | Some thr \<Rightarrow> \<exists>x. x \<in> set pts \<and> fst x \<le> budget \<and> snd (snd x) = thr
        \<and> (\<forall>y\<in>set pts. fst y \<le> budget \<longrightarrow> order_key (snd y) \<le> order_key (snd x))"
proof -
  let ?f = "map snd (filter (\<lambda>(fpr, tpr, thr). fpr \<le> budget) pts)"
  have f: "set ?f = snd ` {x \<in> set pts. fst x \<le> budget}" by force
  show ?thesis
  proof (cases ?f)
    case Nil
    with f have "snd ` {x \<in> set pts. fst x \<le> budget} = {}" by simp
    then have "{x \<in> set pts. fst x \<le> budget} = {}" by blast
    with Nil assms show ?thesis by (simp add: threshold_at_fpr_def)
  next
    case (Cons p ps)
    have "first_best (\<lambda>q b. later b q) p ps \<in> snd ` {x \<in> set pts. fst x \<le> budget}" 
      unfolding f [symmetric] Cons by (rule first_best_in)
    then obtain x where x: "x \<in> set pts" "fst x \<le> budget" "snd x = first_best (\<lambda>q b. later b q) p ps" by auto
    have "order_key (snd y) \<le> order_key (snd x)" if "y \<in> set pts" "fst y \<le> budget" for y
      unfolding x(3) by (rule greatest_max) (use f Cons that in force)
    note max = this
    have thr: "threshold_at_fpr scores labels budget = Some (snd (first_best (\<lambda>q b. later b q) p ps))"
      unfolding threshold_at_fpr_def assms Cons by simp
    show ?thesis
      unfolding thr option.case by (intro exI [of _ x] conjI ballI impI) (use x max in simp_all)
  qed
qed

text \<open>Along the curve the false positive rate grows and the threshold falls.\<close>

lemma counts_take: "i \<le> j \<Longrightarrow> negatives (take i ps) \<le> negatives (take j ps)"
proof -
  assume "i \<le> j"
  then have "take j ps = take i ps @ take (j - i) (drop i ps)" by (metis le_add_diff_inverse take_add)
  then show ?thesis by (simp add: negatives_def)
qed

lemma curve_falls:
  assumes "sorted (map (\<lambda>p. - fst p) ps)" and "i \<le> j" and "j \<le> length ps"
  shows "height (snd (snd (point ps j))) \<le> height (snd (snd (point ps i)))"
proof (cases "i = 0")
  case True
  then show ?thesis by (simp add: point_def height_def less_eq_prod_def)
next
  case False
  have "- fst (ps ! (i - 1)) \<le> - fst (ps ! (j - 1))"
    using sorted_nth_mono [OF assms(1), of "i - 1" "j - 1"] assms(2,3) False by simp
  with False assms(2) show ?thesis by (simp add: point_def height_def less_eq_prod_def)
qed

lemma curve_grows: "i \<le> j \<Longrightarrow> fst (point ps i) \<le> fst (point ps j)"
  by (simp add: point_def divide_right_mono counts_take)

section \<open>Lemmas on resampling and slicing\<close>

lemma bootstrap_values_set:
  "v \<in> set (bootstrap_values statistic scores labels draws) \<longleftrightarrow>
    (\<exists>idx\<in>set draws. usable_value statistic scores labels idx = Some v)"
  unfolding bootstrap_values_def by (induction draws) (auto simp: map_filter_simps split: option.splits)

lemma bootstrap_indices:
  assumes "0 \<le> alpha" and "alpha \<le> 1" and "0 < m"
  shows "nat \<lfloor>alpha / 2 * real m\<rfloor> \<le> min (nat \<lfloor>(1 - alpha / 2) * real m\<rfloor>) (m - 1)"
proof -
  have half: "alpha / 2 * real m \<le> (1 - alpha / 2) * real m" using assms by (intro mult_right_mono) auto
  have "alpha / 2 * real m < real m" using assms by simp
  then have "\<lfloor>alpha / 2 * real m\<rfloor> < int m" by (simp add: floor_less_iff)
  moreover have "\<lfloor>alpha / 2 * real m\<rfloor> \<le> \<lfloor>(1 - alpha / 2) * real m\<rfloor>" by (rule floor_mono [OF half])
  ultimately show ?thesis by linarith
qed

lemma group_by_snoc:
  "group_by key (rs @ [r]) =
    (let g = group_by key rs in od_set (key r) (case map_of g (key r) of None \<Rightarrow> [r] | Some xs \<Rightarrow> xs @ [r]) g)"
  by (simp add: group_by_def Let_def)

lemma group_by_content:
  "od_wf (group_by key rs) \<and>
   map_of (group_by key rs) k = (if k \<in> key ` set rs then Some (filter (\<lambda>r. key r = k) rs) else None)"
proof (induction rs arbitrary: k rule: rev_induct)
  case (snoc r rs)
  have wf: "od_wf (group_by key (rs @ [r]))"
    using snoc unfolding group_by_snoc Let_def by (blast intro: od_wf_od_set)
  have keyed: "map_of (group_by key rs) k = (if k \<in> key ` set rs then Some (filter (\<lambda>r. key r = k) rs) else None)" for k
    using snoc by blast
  have "filter (\<lambda>r'. key r' = key r) rs = []" if "key r \<notin> key ` set rs"
    unfolding filter_empty_conv using that by (metis imageI)
  then have "map_of (group_by key (rs @ [r])) k =
      (if k \<in> key ` set (rs @ [r]) then Some (filter (\<lambda>r. key r = k) (rs @ [r])) else None)"
    unfolding group_by_snoc Let_def by (auto simp: map_of_od_set keyed)
  with wf show ?case by blast
qed (simp add: group_by_def)

lemma od_set_sizes:
  "sum_list (map (\<lambda>(k, xs). length xs) (od_set k ys g)) + (case map_of g k of None \<Rightarrow> 0 | Some xs \<Rightarrow> length xs)
    = sum_list (map (\<lambda>(k, xs). length xs) g) + length ys"
  by (induction g) auto

lemma group_by_sizes: "sum_list (map (\<lambda>(k, xs). length xs) (group_by key rs)) = length rs"
proof (induction rs rule: rev_induct)
  case (snoc r rs)
  then show ?case
    using od_set_sizes [of "key r" "case map_of (group_by key rs) (key r) of None \<Rightarrow> [r] | Some xs \<Rightarrow> xs @ [r]" "group_by key rs"]
    unfolding group_by_snoc Let_def by (cases "map_of (group_by key rs) (key r)") simp_all
qed (simp add: group_by_def)

lemma roc_auc_wins:
  "roc_auc scores labels =
     (let attacks = filter snd (zip scores labels); benign = filter (\<lambda>p. \<not> snd p) (zip scores labels)
      in if attacks = [] \<or> benign = [] then None
         else Some (wins attacks benign / (real (length attacks) * real (length benign))))"
proof -
  let ?z = "zip scores labels"
  let ?s = "sort_key fst ?z"
  let ?A = "filter snd ?s" and ?B = "filter (\<lambda>p. \<not> snd p) ?s"
  have len: "positives ?s = length ?A" "length ?s - positives ?s = length ?B"
    using pos_neg [of ?s] by (simp_all add: positives_def negatives_def)
  have perm: "mset ?A = mset (filter snd ?z)" "mset ?B = mset (filter (\<lambda>p. \<not> snd p) ?z)" by simp_all
  have empty: "?A = [] \<longleftrightarrow> filter snd ?z = []" "?B = [] \<longleftrightarrow> filter (\<lambda>p. \<not> snd p) ?z = []"
    using perm by (metis mset_zero_iff)+
  have sizes: "length ?A = length (filter snd ?z)" "length ?B = length (filter (\<lambda>p. \<not> snd p) ?z)"
    using perm by (metis size_mset)+
  show ?thesis
  proof (cases "?A = [] \<or> ?B = []")
    case True
    then show ?thesis using len empty by (auto simp: roc_auc_def Let_def)
  next
    case False
    have ranks: "average_ranks 0 ?s = map (rank_in ?s) ?s" using average_ranks_rank [of ?s "[]"] by simp
    have split: "wins ?A ?s = wins ?A ?A + wins ?A ?B"
    proof -
      have "mset ?s = mset (?A @ ?B)" by (simp add: multiset_partition)
      then show ?thesis using wins_mset [of ?A ?A ?s "?A @ ?B"] wins_append by simp
    qed
    have half: "wins ?A ?A = real (length ?A) * real (length ?A) / 2" using wins_swap [of ?A ?A] by simp
    have "sum_list (map (rank_in ?s) ?A) = wins ?A ?s + real (length ?A) / 2"
      by (rule rank_sum)
    then have "sum_list (map fst (filter (\<lambda>(r, p). snd p) (zip (average_ranks 0 ?s) ?s)))
        - real (length ?A) * (real (length ?A) + 1) / 2 = wins ?A ?B"
      unfolding ranks zip_map_filter split half by (simp add: field_simps)
    moreover have "wins ?A ?B = wins (filter snd ?z) (filter (\<lambda>p. \<not> snd p) ?z)" by (rule wins_mset) simp_all
    moreover have "length ?s \<noteq> 0" using False by auto
    ultimately show ?thesis
      using False empty sizes len by (simp add: roc_auc_def Let_def del: length_sort filter_sort diff_is_0_eq diff_is_0_eq')
  qed
qed

section \<open>Properties\<close>

text \<open>Claim C22: \<open>roc_auc\<close> is the Mann-Whitney statistic: the share of the pairs of an attack and a benign prompt in which the
  attack has the higher score, a tie counting one half. So the average ranks handle ties right, and
  the order of the rows has no influence. It is undefined exactly when a class is missing.\<close>

theorem auc_is_mann_whitney:
  "roc_auc scores labels =
     (let attacks = filter snd (zip scores labels); benign = filter (\<lambda>p. \<not> snd p) (zip scores labels)
      in if attacks = [] \<or> benign = [] then None
         else Some (wins attacks benign / (real (length attacks) * real (length benign))))"
  by (rule roc_auc_wins)

text \<open>The recall reported for a budget is an upper bound: no threshold whose false positive rate keeps the budget detects
  more, whatever the ties.\<close>

theorem no_threshold_beats_the_reported_recall:
  "case recall_at_fpr scores labels budget of
     None \<Rightarrow> True
   | Some best \<Rightarrow>
       let m = derived (confusion scores labels t) in if dm_fpr m \<le> budget then dm_recall m \<le> best else True"
proof (cases "positives (zip scores labels) = 0 \<or> negatives (zip scores labels) = 0")
  case True
  then show ?thesis by (simp add: recall_at_fpr_def no_curve Let_def)
next
  case False
  let ?m = "derived (confusion scores labels t)"
  from False obtain os where os: "mset os = mset (zip scores labels)" "sorted (map (\<lambda>p. - fst p) os)" "positives os \<noteq> 0"
    "negatives os \<noteq> 0" and pts: "roc_points scores labels = map (point os) [0..<Suc (length os)]"
    using curve by metis
  let ?feasible = "{x \<in> set (map (point os) [0..<Suc (length os)]). fst x \<le> budget}"
  from descending_prefix [OF os(2)] obtain k where k: "k \<le> length os" "filter (\<lambda>p. t \<le> fst p) os = take k os" by blast
  note at = rates_at [OF k(2) os(1,3,4)]
  have "dm_recall ?m \<le> Max ((\<lambda>x. fst (snd x)) ` ?feasible) \<and> ?feasible \<noteq> {}" if "dm_fpr ?m \<le> budget"
  proof -
    have mem: "point os k \<in> ?feasible" using that k(1) at by (auto simp del: upt_Suc)
    then have "dm_recall ?m \<in> (\<lambda>x. fst (snd x)) ` ?feasible" unfolding at(2) by (rule imageI)
    then have "dm_recall ?m \<le> Max ((\<lambda>x. fst (snd x)) ` ?feasible)" by (intro Max_ge) simp_all
    with mem show ?thesis by blast
  qed
  then show ?thesis unfolding best_recall [OF pts map_upt_nonempty] Let_def by auto
qed

text \<open>When no two rows have the same score, the chosen threshold keeps the budget and reaches the reported recall.\<close>

theorem threshold_keeps_the_budget:
  "case (threshold_at_fpr scores labels budget, recall_at_fpr scores labels budget) of
     (Some (Some t), Some best) \<Rightarrow>
       if distinct (map fst (zip scores labels))
       then dm_fpr (derived (confusion scores labels t)) \<le> budget \<and> dm_recall (derived (confusion scores labels t)) = best
       else True
   | (Some None, Some best) \<Rightarrow> best = 0
   | (None, None) \<Rightarrow> filter snd (zip scores labels) = [] \<or> filter (\<lambda>p. \<not> snd p) (zip scores labels) = []
   | (None, Some best) \<Rightarrow> budget < 0
   | (Some _, None) \<Rightarrow> False"
proof (cases "positives (zip scores labels) = 0 \<or> negatives (zip scores labels) = 0")
  case True
  then show ?thesis
    by (auto simp: recall_at_fpr_def threshold_at_fpr_def no_curve Let_def positives_def negatives_def)
next
  case False
  from False obtain os where os: "mset os = mset (zip scores labels)" "sorted (map (\<lambda>p. - fst p) os)" "positives os \<noteq> 0"
    "negatives os \<noteq> 0" and pts: "roc_points scores labels = map (point os) [0..<Suc (length os)]"
    using curve by metis
  let ?feasible = "{x \<in> set (map (point os) [0..<Suc (length os)]). fst x \<le> budget}"
  note best = best_recall [OF pts map_upt_nonempty, of budget]
  note thr = best_threshold [OF pts, of budget]
  show ?thesis
  proof (cases "threshold_at_fpr scores labels budget")
    case None
    with thr have empty: "?feasible = {}" by simp
    have "point os 0 \<in> set (map (point os) [0..<Suc (length os)])" by (simp del: upt_Suc)
    with empty have "\<not> fst (point os 0) \<le> budget" by blast
    then show ?thesis unfolding None best empty by (simp add: point_def)
  next
    case (Some r)
    note thr [unfolded Some option.case]
    then obtain x where x: "x \<in> ?feasible" "snd (snd x) = r"
      and "\<And>y. y \<in> ?feasible \<Longrightarrow> order_key (snd y) \<le> order_key (snd x)" by blast
    note max = this(3) [THEN order_key_fst]
    have "Max ((\<lambda>x. fst (snd x)) ` ?feasible) = fst (snd x)" using x max by (intro Max_eqI) (simp_all, blast+)
    moreover have "?feasible \<noteq> {}" using x(1) by blast
    ultimately have b: "recall_at_fpr scores labels budget = Some (fst (snd x))"
      unfolding best by (simp only: if_False)
    from x(1) obtain k where k: "k \<le> length os" "x = point os k" by (auto simp: less_Suc_eq_le simp del: upt_Suc)
    show ?thesis
    proof (cases k)
      case 0
      with x k have "r = None" "fst (snd x) = 0" by (simp_all add: point_def)
      then show ?thesis unfolding Some b by simp
    next
      case (Suc j)
      with x k have r: "r = Some (fst (os ! j))" by (simp add: point_def)
      have "dm_fpr (derived (confusion scores labels (fst (os ! j)))) \<le> budget
          \<and> dm_recall (derived (confusion scores labels (fst (os ! j)))) = fst (snd x)"
        if "distinct (map fst (zip scores labels))"
      proof -
        have "distinct (map fst os)" using that os(1) by (metis mset_eq_imp_distinct_iff mset_map)
        from descending_last [OF os(2) this, of j] k Suc
        have "filter (\<lambda>p. fst (os ! j) \<le> fst p) os = take k os" by simp
        from rates_at [OF this os(1,3,4)] x(1) k(2) show ?thesis by simp
      qed
      then show ?thesis unfolding Some b r by simp
    qed
  qed
qed

text \<open>With ties it need not: the points of the curve also stop in the middle of a tie group, where no threshold can stop.
  Of an attack and a benign prompt with the same score the threshold for a budget of 5% flags both,
  and the reported recall is 1 or 0 depending on which row comes first.\<close>

theorem tied_scores_exceed_the_budget:
  "threshold_at_fpr [1 / 2, 1 / 2] [True, False] (1 / 20) = Some (Some (1 / 2))
   \<and> recall_at_fpr [1 / 2, 1 / 2] [True, False] (1 / 20) = Some 1
   \<and> recall_at_fpr [1 / 2, 1 / 2] [False, True] (1 / 20) = Some 0
   \<and> dm_fpr (derived (confusion [1 / 2, 1 / 2] [True, False] (1 / 2))) = 1"
  by (simp add: threshold_at_fpr_def recall_at_fpr_def roc_points_def positives_def later_def confusion_def derived_def ratio_def
      Let_def)

text \<open>A larger budget never raises the threshold, infinity on top. So the MEDIUM threshold of a trained policy, whose
  budget is four times that of HIGH, is at most the HIGH threshold.\<close>

theorem larger_budget_lower_threshold:
  "case (threshold_at_fpr scores labels b, threshold_at_fpr scores labels b') of
     (Some t, Some t') \<Rightarrow> if b \<le> b' then height t' \<le> height t else True
   | (Some t, None) \<Rightarrow> b' < b
   | (None, _) \<Rightarrow> True"
proof (cases "positives (zip scores labels) = 0 \<or> negatives (zip scores labels) = 0")
  case True
  then show ?thesis by (simp add: threshold_at_fpr_def no_curve)
next
  case False
  from False obtain os where os: "sorted (map (\<lambda>p. - fst p) os)"
    and pts: "roc_points scores labels = map (point os) [0..<Suc (length os)]"
    using curve by metis
  let ?F = "\<lambda>b. {x \<in> set (map (point os) [0..<Suc (length os)]). fst x \<le> b}"
  note best = best_threshold [OF pts]
  show ?thesis
  proof (cases "threshold_at_fpr scores labels b")
    case (Some t)
    note x = best [of b, unfolded Some option.case]
    then obtain x where x: "x \<in> ?F b" "snd (snd x) = t" and mx: "\<And>y. y \<in> ?F b \<Longrightarrow> order_key (snd y) \<le> order_key (snd x)"
      by blast
    show ?thesis
    proof (cases "threshold_at_fpr scores labels b'")
      case None
      from best [of b', unfolded None option.case] have "?F b' = {}" .
      with x(1) have "\<not> fst x \<le> b'" by blast
      with x(1) have "b' < b" by simp
      with Some None show ?thesis by simp
    next
      case (Some t')
      from best [of b', unfolded Some option.case]
      obtain y where y: "y \<in> ?F b'" "snd (snd y) = t'" and my: "\<And>x. x \<in> ?F b' \<Longrightarrow> order_key (snd x) \<le> order_key (snd y)"
        by blast
      have "height t' \<le> height t" if "b \<le> b'"
      proof (rule ccontr)
        assume lt: "\<not> height t' \<le> height t"
        from x(1) y(1) obtain k k' where k: "x = point os k" "k \<le> length os" "y = point os k'" "k' \<le> length os"
          by (auto simp: less_Suc_eq_le simp del: upt_Suc)
        have "\<not> k \<le> k'" using curve_falls [OF os, of k k'] lt k x(2) y(2) by auto
        then have "fst y \<le> fst x" using curve_grows [of k' k os] k by simp
        with x(1) y(1) have "y \<in> ?F b" by auto
        from mx [OF this] my [of x] x(1) that have "order_key (snd x) = order_key (snd y)" by (auto intro: order_antisym)
        with x(2) y(2) lt show False by (simp add: order_key_def)
      qed
      with \<open>threshold_at_fpr scores labels b = Some t\<close> Some show ?thesis by simp
    qed
  qed simp
qed

text \<open>The interval is a pair of values the statistic took on resamples with both classes, in order; it is empty exactly
  when no resample was usable.\<close>

theorem interval_is_made_of_resamples:
  "if 0 \<le> alpha \<and> alpha \<le> 1
   then let c = bootstrap_ci draws scores labels statistic alpha
        in case (ci_lo c, ci_hi c) of
             (Some l, Some h) \<Rightarrow> l \<le> h \<and> 0 < ci_effective c \<and> ci_effective c \<le> length draws
               \<and> {l, h} \<subseteq> {v. \<exists>idx. idx \<in> set draws \<and> usable_value statistic scores labels idx = Some v}
           | (None, None) \<Rightarrow> ci_effective c = 0
           | _ \<Rightarrow> False
   else True"
proof (cases "0 \<le> alpha \<and> alpha \<le> 1")
  case True
  let ?v = "bootstrap_values statistic scores labels draws"
  have le: "length ?v \<le> length draws"
    unfolding bootstrap_values_def by (induction draws) (auto simp: map_filter_simps split: option.splits)
  show ?thesis
  proof (cases "scores = [] \<or> ?v = []")
    case False
    let ?s = "sort ?v"
    let ?lo = "nat \<lfloor>alpha / 2 * real (length ?s)\<rfloor>"
    let ?hi = "min (nat \<lfloor>(1 - alpha / 2) * real (length ?s)\<rfloor>) (length ?s - 1)"
    have pos: "0 < length ?s" using False by simp
    have ord: "?lo \<le> ?hi" by (rule bootstrap_indices) (use True pos in auto)
    have last: "?hi < length ?s" using pos by (auto simp: min_less_iff_disj)
    have "?s ! ?lo \<le> ?s ! ?hi" by (rule sorted_nth_mono [OF sorted_sort ord last])
    moreover have "?s ! ?lo \<in> set ?v" "?s ! ?hi \<in> set ?v"
      using ord last nth_mem [of ?lo ?s] nth_mem [of ?hi ?s] by (simp_all only: set_sort)
    ultimately show ?thesis
      using False True le pos by (auto simp: bootstrap_ci_def Let_def bootstrap_values_set)
  qed (auto simp: bootstrap_ci_def Let_def)
qed auto

text \<open>Slicing loses no row: every value that occurs has exactly one slice, made of the rows with this value, so the
  sizes add up to the number of rows.\<close>

theorem slices_partition_the_rows:
  "let slices = evaluate_by draws budget threshold min_n score label key rs
   in distinct (map fst slices) \<and> fst ` set slices = key ` set rs
    \<and> list_all (\<lambda>(v, s). sl_n s = length (filter (\<lambda>r. key r = v) rs)
         \<and> sl_attack s = length (filter (\<lambda>r. key r = v \<and> label r) rs)) slices
    \<and> sum_list (map (\<lambda>(v, s). sl_n s) slices) = length rs"
proof -
  let ?g = "group_by key rs"
  let ?o = "sort_key (\<lambda>(value, rows). - int (length rows)) ?g"
  let ?s = "evaluate_by draws budget threshold min_n score label key rs"
  have n: "sl_n (evaluate_slice d b t ss ls) = length ls" "sl_attack (evaluate_slice d b t ss ls) = length (filter id ls)"
    for d b t ss ls by (auto simp: evaluate_slice_def Let_def split: option.splits)
  have keys: "map fst ?s = map fst ?o" by (simp add: evaluate_by_def comp_def case_prod_beta')
  have wf: "od_wf ?g" by (rule group_by_content [THEN conjunct1])
  have perm: "mset ?o = mset ?g" by simp
  have distinct: "distinct (map fst ?s)"
    unfolding keys using wf perm by (metis mset_eq_imp_distinct_iff mset_map od_wf_def)
  have "fst ` set ?s = set (map fst ?o)" unfolding keys [symmetric] by simp
  also have "\<dots> = fst ` set ?g" by simp
  also have "\<dots> = key ` set rs"
    unfolding dom_map_of_conv_image_fst [symmetric] dom_def group_by_content [THEN conjunct2] by simp
  finally have vals: "fst ` set ?s = key ` set rs" .
  have rows: "rows = filter (\<lambda>r. key r = v) rs" if "(v, rows) \<in> set ?g" for v rows
    using that wf group_by_content [of key rs v] by (auto simp: od_wf_def dest!: map_of_is_SomeI split: if_splits)
  have all: "list_all (\<lambda>(v, s). sl_n s = length (filter (\<lambda>r. key r = v) rs)
      \<and> sl_attack s = length (filter (\<lambda>r. key r = v \<and> label r) rs)) ?s"
    unfolding list_all_iff
  proof
    fix x assume "x \<in> set ?s"
    then obtain g where g: "g \<in> set ?g" and x: "x = (fst g, (evaluate_slice (draws (length (snd g))) budget threshold
        (map score (snd g)) (map label (snd g)))\<lparr>sl_underpowered := length (snd g) < min_n\<rparr>)"
      unfolding evaluate_by_def set_map set_sort case_prod_beta by blast
    have "snd g = filter (\<lambda>r. key r = fst g) rs" by (rule rows) (simp add: g)
    then have "length (snd g) = length (filter (\<lambda>r. key r = fst g) rs)"
      "length (filter label (snd g)) = length (filter (\<lambda>r. key r = fst g \<and> label r) rs)"
      by (simp_all only: filter_filter)
    then show "case x of (v, s) \<Rightarrow> sl_n s = length (filter (\<lambda>r. key r = v) rs)
        \<and> sl_attack s = length (filter (\<lambda>r. key r = v \<and> label r) rs)"
      unfolding x prod.case by (simp add: n filter_map comp_def)
  qed
  have "sum_list (map (\<lambda>(v, s). sl_n s) ?s) = sum_list (map (\<lambda>(k, xs). length xs) ?o)"
    by (simp add: evaluate_by_def comp_def case_prod_beta' n)
  also have "\<dots> = sum_list (map (\<lambda>(k, xs). length xs) ?g)"
    unfolding sum_mset_sum_list [symmetric] mset_map perm ..
  also have "\<dots> = length rs" by (rule group_by_sizes)
  finally show ?thesis using distinct vals all unfolding Let_def by blast
qed

end
