(* ===== verification/Calibration.thy ===== *)
theory Calibration
  imports Evaluation Risk "HOL-Library.List_Lexorder" "HOL-Library.Char_ord"
begin

text \<open>
  The scripts that choose the thresholds and watch over them: scripts/calibrate_thresholds.py,
  scripts/train_fusion_policy.py and scripts/monitor_operating_point.py. Fitting a scaler and a regression
  is the parameter \<open>fit\<close>. \<open>round(x, 4)\<close> rounds half up here, where Python rounds the binary value half to even.
\<close>

definition round4 :: "real \<Rightarrow> real" where
  "round4 x = real_of_int \<lfloor>x * 10000 + 1 / 2\<rfloor> / 10000"

section \<open>Calibration of the deterministic thresholds\<close>

record cal_record =
  ca_malicious :: bool
  ca_symbolic :: bool
  ca_threat :: real
  ca_meta :: real

definition extract_signals :: "'v risk_env \<Rightarrow> (string \<times> bool) list \<Rightarrow> cal_record list" where
  "extract_signals E rows =
     map (\<lambda>(prompt, malicious).
            \<lparr>ca_malicious = malicious, ca_symbolic = hard_ban_triggered E prompt \<noteq> None,
             ca_threat = re_threat_sim E (re_embed E prompt), ca_meta = check_meta_intent E (re_embed E prompt)\<rparr>) rows"

definition predict :: "cal_record \<Rightarrow> real \<Rightarrow> real \<Rightarrow> real \<Rightarrow> bool" where
  "predict r t_high t_med t_meta =
     (if ca_symbolic r then True else if ca_meta r \<ge> t_meta then True else ca_threat r \<ge> t_med)"

fun grid_confusion :: "confusion_matrix \<Rightarrow> (cal_record \<Rightarrow> bool) \<Rightarrow> cal_record list \<Rightarrow> confusion_matrix" where
  "grid_confusion cm pred [] = cm"
| "grid_confusion cm pred (r # rs) =
     grid_confusion
       (if ca_malicious r \<and> pred r then cm\<lparr>cm_tp := cm_tp cm + 1\<rparr>
        else if \<not> ca_malicious r \<and> pred r then cm\<lparr>cm_fp := cm_fp cm + 1\<rparr>
        else if \<not> ca_malicious r \<and> \<not> pred r then cm\<lparr>cm_tn := cm_tn cm + 1\<rparr>
        else cm\<lparr>cm_fn := cm_fn cm + 1\<rparr>) pred rs"

record grid_metrics =
  gm_high :: real
  gm_medium :: real
  gm_meta :: real
  gm_derived :: derived_metrics
  gm_confusion :: confusion_matrix

definition grid_point :: "cal_record list \<Rightarrow> real \<Rightarrow> real \<Rightarrow> real \<Rightarrow> grid_metrics" where
  "grid_point rs t_high t_med t_meta =
     (let cm = grid_confusion \<lparr>cm_tp = 0, cm_fp = 0, cm_tn = 0, cm_fn = 0\<rparr> (\<lambda>r. predict r t_high t_med t_meta) rs
      in \<lparr>gm_high = round4 t_high, gm_medium = round4 t_med, gm_meta = round4 t_meta, gm_derived = derived cm,
          gm_confusion = cm\<rparr>)"

text \<open>The step is positive in every call.\<close>

function frange :: "real \<Rightarrow> real \<Rightarrow> real \<Rightarrow> real list" where
  "frange v stop step =
     (if step > 0 \<and> v \<le> stop + 1 / 1000000000 then round4 v # frange (v + step) stop step else [])"
  by pat_completeness auto
termination
proof (relation "measure (\<lambda>(v, stop, step). nat \<lfloor>(stop + 1 / 1000000000 - v) / step + 1\<rfloor>)", goal_cases)
  case (2 v stop step)
  let ?x = "(stop + 1 / 1000000000 - v) / step"
  from 2 have "0 \<le> ?x" by simp
  moreover have "(stop + 1 / 1000000000 - (v + step)) / step + 1 = ?x" using 2 by (simp add: field_simps)
  ultimately show ?case by simp linarith
qed simp

declare frange.simps [simp del]

definition sweep_grid :: "cal_record list \<Rightarrow> grid_metrics list" where
  "sweep_grid rs =
     concat (map (\<lambda>t_med. map (\<lambda>t_meta. grid_point rs (max t_med (48 / 100)) t_med t_meta) (frange (20 / 100) (80 / 100) (5 / 100)))
       (frange (5 / 100) (70 / 100) (1 / 100)))"

definition better_recall :: "grid_metrics \<Rightarrow> grid_metrics \<Rightarrow> bool" where
  "better_recall a b \<longleftrightarrow> dm_recall (gm_derived b) < dm_recall (gm_derived a) \<or>
     dm_recall (gm_derived b) = dm_recall (gm_derived a) \<and> dm_precision (gm_derived b) < dm_precision (gm_derived a)"

definition select_point :: "grid_metrics list \<Rightarrow> real \<Rightarrow> grid_metrics \<times> bool" where
  "select_point grid budget =
     (case filter (\<lambda>m. dm_fpr (gm_derived m) \<le> budget) grid of
        m # ms \<Rightarrow> (first_best better_recall m ms, True)
      | [] \<Rightarrow> (first_best (\<lambda>a b. dm_fpr (gm_derived a) < dm_fpr (gm_derived b)) (hd grid) (tl grid), False))"

definition sweep :: "cal_record list \<Rightarrow> real \<Rightarrow> grid_metrics list \<times> grid_metrics \<times> grid_metrics \<times> bool" where
  "sweep rs budget =
     (let grid = sweep_grid rs; (best, met) = select_point grid budget;
          best_f1 = first_best (\<lambda>a b. dm_f1 (gm_derived b) < dm_f1 (gm_derived a)) (hd grid) (tl grid)
      in (grid, best, best_f1, met))"

definition continuous_score :: "cal_record \<Rightarrow> real" where
  "continuous_score r = (if ca_symbolic r then 1 else max (ca_threat r) (ca_meta r))"

definition curve_rows :: "cal_record list \<Rightarrow> sample" where
  "curve_rows rs = sort_key (\<lambda>p. - fst p) (map (\<lambda>r. (continuous_score r, ca_malicious r)) rs)"

fun trapezoids :: "(real \<times> real) list \<Rightarrow> real" where
  "trapezoids ((x0, y0) # (x1, y1) # ps) = (x1 - x0) * (y0 + y1) / 2 + trapezoids ((x1, y1) # ps)"
| "trapezoids _ = 0"

definition roc_curve :: "cal_record list \<Rightarrow> (real \<times> real \<times> real) list \<times> real" where
  "roc_curve rs =
     (let scored = curve_rows rs; n_pos = positives scored; n_neg = length scored - n_pos
      in if n_pos = 0 \<or> n_neg = 0 then ([], 0)
         else let points = (0, 0, 101 / 100)
                    # map (\<lambda>(f, t, s). (f, t, case s of Some x \<Rightarrow> x | None \<Rightarrow> 0)) (roc_scan n_pos n_neg 0 0 scored)
                    @ [(1, 1, - 1 / 100)]
              in (points, trapezoids (map (\<lambda>(f, t, s). (f, t)) points)))"

fun pr_scan :: "nat \<Rightarrow> nat \<Rightarrow> nat \<Rightarrow> sample \<Rightarrow> (real \<times> real \<times> real) list" where
  "pr_scan n_pos tp fp [] = []"
| "pr_scan n_pos tp fp ((s, lab) # ps) =
     (let tp' = (if lab then tp + 1 else tp); fp' = (if lab then fp else fp + 1)
      in (real tp' / real n_pos, real tp' / real (tp' + fp'), s) # pr_scan n_pos tp' fp' ps)"

definition pr_curve :: "cal_record list \<Rightarrow> (real \<times> real \<times> real) list" where
  "pr_curve rs =
     (let scored = curve_rows rs; n_pos = positives scored in if n_pos = 0 then [] else pr_scan n_pos 0 0 scored)"

section \<open>Training of the fusion policy\<close>

definition FLOOR_FEATURES :: "string list" where
  "FLOOR_FEATURES = [''anchors'', ''protectai_injection'', ''madhurjindal_jailbreak'', ''toxic_bert'']"
definition TIER_5_FEATURES :: "string list" where "TIER_5_FEATURES = FLOOR_FEATURES @ [''deepset_injection'']"
definition TIER_6_FEATURES :: "string list" where "TIER_6_FEATURES = TIER_5_FEATURES @ [''prompt_guard_2'']"
definition TIER_8_FEATURES :: "string list" where
  "TIER_8_FEATURES = TIER_6_FEATURES @ [''german_toxicity_eistakovskii'', ''german_toxicity_ankekat'']"
definition TIER_9_FEATURES :: "string list" where "TIER_9_FEATURES = TIER_8_FEATURES @ [''multilingual_head'']"

definition HIGH_FPR_BUDGET :: real where "HIGH_FPR_BUDGET = 5 / 100"
definition MEDIUM_FPR_BUDGET :: real where "MEDIUM_FPR_BUDGET = 20 / 100"
definition PER_CLASS_HIGH_FPR_BUDGET :: real where "PER_CLASS_HIGH_FPR_BUDGET = 224 / 10000"
definition PER_CLASS_MEDIUM_FPR_BUDGET :: real where "PER_CLASS_MEDIUM_FPR_BUDGET = 895 / 10000"

record suite_row =
  sr_id :: string
  sr_attack :: bool
  sr_class :: string
  sr_anchor :: real

text \<open>What scikit-learn gives: the scaler and the regression, \<open>None\<close> when it raises, and the probability of a row.\<close>

record fitted =
  ft_mean :: "real list"
  ft_scale :: "real list"
  ft_coefs :: "real list"
  ft_intercept :: real

record learner =
  le_fit :: "real list list \<Rightarrow> bool list \<Rightarrow> fitted option"
  le_proba :: "fitted \<Rightarrow> real list \<Rightarrow> real"

text \<open>An infinite threshold is written as \<open>Infinity\<close>; that artifact is outside the real numbers of the fusion model,
  and the outcome is \<open>None\<close> here.\<close>

definition fit_policy :: "learner \<Rightarrow> real \<Rightarrow> real \<Rightarrow> real list list \<Rightarrow> bool list \<Rightarrow> class_policy option" where
  "fit_policy L high medium X y =
     (case le_fit L X y of
        None \<Rightarrow> None
      | Some m \<Rightarrow>
          let probs = map (le_proba L m) X
          in case (threshold_at_fpr probs y high, threshold_at_fpr probs y medium) of
               (Some (Some h), Some (Some md)) \<Rightarrow>
                 Some \<lparr>cp_mean = ft_mean m, cp_scale = ft_scale m, cp_coefs = ft_coefs m, cp_intercept = ft_intercept m,
                       cp_high = h, cp_medium = md\<rparr>
             | _ \<Rightarrow> None)"

definition feature_value :: "(string \<Rightarrow> string \<Rightarrow> real option) \<Rightarrow> suite_row \<Rightarrow> string \<Rightarrow> real" where
  "feature_value caches r f = (if f = ''anchors'' then sr_anchor r else the (caches f (sr_id r)))"

definition usable_rows :: "(string \<Rightarrow> string \<Rightarrow> real option) \<Rightarrow> string list \<Rightarrow> suite_row list \<Rightarrow> suite_row list" where
  "usable_rows caches features rows = filter (\<lambda>r. list_all (\<lambda>f. f = ''anchors'' \<or> caches f (sr_id r) \<noteq> None) features) rows"

text \<open>One policy per attack class: that class against the benign rows. \<open>None\<close> when a fit failed.\<close>

fun fit_classes ::
  "learner \<Rightarrow> (suite_row \<Rightarrow> real list) \<Rightarrow> suite_row list \<Rightarrow> string list \<Rightarrow> (string \<times> class_policy) list option" where
  "fit_classes L vec usable [] = Some []"
| "fit_classes L vec usable (cls # classes) =
     (let part = filter (\<lambda>r. \<not> sr_attack r \<or> sr_class r = cls) usable;
          yc = map (\<lambda>r. sr_class r = cls) part
      in if length (remdups yc) < 2 then fit_classes L vec usable classes
         else case (fit_policy L PER_CLASS_HIGH_FPR_BUDGET PER_CLASS_MEDIUM_FPR_BUDGET (map vec part) yc,
                    fit_classes L vec usable classes) of
                (Some p, Some ps) \<Rightarrow> Some ((cls, p) # ps)
              | _ \<Rightarrow> None)"

definition fit_tier ::
  "learner \<Rightarrow> (string \<Rightarrow> string \<Rightarrow> real option) \<Rightarrow> suite_row list \<Rightarrow> string list \<Rightarrow> string option \<Rightarrow> raw_tier option" where
  "fit_tier L caches rows features tier_id =
     (let usable = usable_rows caches features rows;
          vec = (\<lambda>r. map (feature_value caches r) features);
          classes = sort (remdups (map sr_class (filter sr_attack usable)))
      in case (fit_policy L HIGH_FPR_BUDGET MEDIUM_FPR_BUDGET (map vec usable) (map sr_attack usable),
               fit_classes L vec usable classes) of
           (Some p, Some per_class) \<Rightarrow>
             Some \<lparr>rt_id = tier_id, rt_features = Some features, rt_mean = Some (cp_mean p), rt_scale = Some (cp_scale p),
                   rt_coefs = Some (cp_coefs p), rt_intercept = Some (cp_intercept p), rt_high = Some (cp_high p),
                   rt_medium = Some (cp_medium p), rt_per_class = per_class\<rparr>
         | _ \<Rightarrow> None)"

definition train_fusion_policy ::
  "learner \<Rightarrow> (string \<Rightarrow> string \<Rightarrow> real option) \<Rightarrow> suite_row list \<Rightarrow> artifact option" where
  "train_fusion_policy L caches rows =
     (case (fit_tier L caches rows FLOOR_FEATURES None, fit_tier L caches rows TIER_5_FEATURES (Some ''five_feature''),
            fit_tier L caches rows TIER_6_FEATURES (Some ''six_feature''),
            fit_tier L caches rows TIER_8_FEATURES (Some ''eight_feature''),
            fit_tier L caches rows TIER_9_FEATURES (Some ''nine_feature'')) of
        (Some flr, Some t5, Some t6, Some t8, Some t9) \<Rightarrow> Some (Artifact flr [t9, t8, t6, t5])
      | _ \<Rightarrow> None)"

section \<open>The monitor of the operating point\<close>

definition py_trunc :: "real \<Rightarrow> int" where
  "py_trunc x = (if x < 0 then - \<lfloor>- x\<rfloor> else \<lfloor>x\<rfloor>)"

definition quantiles :: "real list \<Rightarrow> real list \<Rightarrow> (real \<times> real option) list" where
  "quantiles xs qs =
     (let s = sort xs
      in map (\<lambda>q. (q, if xs = [] then None else Some (round4 (s ! min (length s - 1) (nat \<lfloor>q * real (length s)\<rfloor>))))) qs)"

text \<open>Python counts negative indices from the end; \<open>None\<close> is an \<open>IndexError\<close>.\<close>

definition bump :: "nat list \<Rightarrow> int \<Rightarrow> nat list option" where
  "bump h k =
     (if 0 \<le> k \<and> nat k < length h then Some (h[nat k := h ! nat k + 1])
      else if k < 0 \<and> 0 \<le> int (length h) + k
      then (let i = nat (int (length h) + k) in Some (h[i := h ! i + 1]))
      else None)"

fun histogram :: "nat list \<Rightarrow> real list \<Rightarrow> nat list option" where
  "histogram h [] = Some h"
| "histogram h (x # xs) =
     (case bump h (min (int (length h) - 1) (py_trunc (x * real (length h)))) of
        None \<Rightarrow> None
      | Some h1 \<Rightarrow> histogram h1 xs)"

definition shares :: "nat \<Rightarrow> real list \<Rightarrow> real list option" where
  "shares bins xs = map_option (map (\<lambda>c. real c / real (length xs))) (histogram (replicate bins 0) xs)"

definition psi_term :: "real \<Rightarrow> real \<Rightarrow> real" where
  "psi_term a0 b0 = (let a = max a0 (1 / 1000000); b = max b0 (1 / 1000000) in (b - a) * ln (b / a))"

datatype psi_result = NoData | IndexRaised | Psi real

definition psi :: "real list \<Rightarrow> real list \<Rightarrow> nat \<Rightarrow> psi_result" where
  "psi ref live bins =
     (if ref = [] \<or> live = [] then NoData
      else case (shares bins ref, shares bins live) of
             (Some pr, Some pl) \<Rightarrow> Psi (round4 (sum_list (map (\<lambda>(a, b). psi_term a b) (zip pr pl))))
           | _ \<Rightarrow> IndexRaised)"

definition eff_fpr :: "real list \<Rightarrow> real \<Rightarrow> real option" where
  "eff_fpr scores thr =
     (if scores = [] then None else Some (round4 (real (length (filter (\<lambda>x. x \<ge> thr) scores)) / real (length scores))))"

datatype drift = DriftNoData | Red | Amber | Green

definition drift_verdict :: "real option \<Rightarrow> real option \<Rightarrow> real \<Rightarrow> drift" where
  "drift_verdict psi_val efpr budget =
     (case (psi_val, efpr) of
        (Some p, Some e) \<Rightarrow>
          if e > budget * (3 / 2) \<or> p > 25 / 100 then Red
          else if e > budget * (11 / 10) \<or> p > 10 / 100 then Amber
          else Green
      | _ \<Rightarrow> DriftNoData)"

record drift_report =
  dr_psi :: "real option"
  dr_eff_fpr :: "real option"
  dr_verdict :: drift

definition drift_report_of :: "real list \<Rightarrow> real list \<Rightarrow> real \<Rightarrow> real \<Rightarrow> drift_report option" where
  "drift_report_of ref live thr budget =
     (case psi ref live 10 of
        IndexRaised \<Rightarrow> None
      | p \<Rightarrow>
          let pv = (case p of Psi x \<Rightarrow> Some x | _ \<Rightarrow> None); ef = eff_fpr live thr
          in Some \<lparr>dr_psi = pv, dr_eff_fpr = ef, dr_verdict = drift_verdict pv ef budget\<rparr>)"

text \<open>\<open>s[int(0.95 * len(s))]\<close>, which raises on no benign row.\<close>

definition reference_threshold :: "real list \<Rightarrow> real option" where
  "reference_threshold benign =
     (let s = sort benign; i = nat \<lfloor>95 / 100 * real (length s)\<rfloor> in if i < length s then Some (round4 (s ! i)) else None)"

text \<open>The last records of the window; a window of zero is all of them.\<close>

definition window_of :: "int \<Rightarrow> 'a list \<Rightarrow> 'a list" where
  "window_of w xs = (if w \<le> 0 then drop (nat (- w)) xs else drop (length xs - nat w) xs)"

text \<open>Audit records with a score and a decision.\<close>

definition live_scores :: "int \<Rightarrow> (real \<times> string) list \<Rightarrow> real list" where
  "live_scores w recs = map fst (filter (\<lambda>r. snd r \<in> {''ALLOW'', ''RESTRICT''}) (window_of w recs))"

text \<open>The exit status looks at one report: the red or amber one with the greatest drift.\<close>

definition monitor_exit :: "drift_report list \<Rightarrow> nat" where
  "monitor_exit reports =
     (case filter (\<lambda>r. dr_verdict r \<in> {Red, Amber}) reports of
        [] \<Rightarrow> 0
      | r # rs \<Rightarrow>
          let key = (\<lambda>r. case dr_psi r of None \<Rightarrow> 0 | Some p \<Rightarrow> p)
          in if dr_verdict (first_best (\<lambda>a b. key b < key a) r rs) = Red then 2 else 0)"

section \<open>Lemmas\<close>

lemma grid_nonempty: "sweep_grid rs \<noteq> []"
proof -
  have "frange (5 / 100) (70 / 100) (1 / 100) \<noteq> []" "frange (20 / 100) (80 / 100) (5 / 100) \<noteq> []"
    by (subst frange.simps; simp)+
  then show ?thesis by (cases "frange (5 / 100) (70 / 100) (1 / 100)"; cases "frange (20 / 100) (80 / 100) (5 / 100)")
      (simp_all add: sweep_grid_def)
qed

lemma better_recall_key:
  "better_recall a b \<longleftrightarrow>
    (dm_recall (gm_derived b), dm_precision (gm_derived b)) < (dm_recall (gm_derived a), dm_precision (gm_derived a))"
  by (auto simp: better_recall_def less_prod_def)

text \<open>What the selection returns, for any grid that is not empty.\<close>

lemma select_point_best:
  assumes "grid \<noteq> []"
  shows "case select_point grid budget of
    (best, met) \<Rightarrow> best \<in> set grid \<and> met = list_ex (\<lambda>m. dm_fpr (gm_derived m) \<le> budget) grid
      \<and> (if met then dm_fpr (gm_derived best) \<le> budget
           \<and> list_all (\<lambda>m. if dm_fpr (gm_derived m) \<le> budget then dm_recall (gm_derived m) \<le> dm_recall (gm_derived best) else True) grid
         else list_all (\<lambda>m. dm_fpr (gm_derived best) \<le> dm_fpr (gm_derived m)) grid)"
proof (cases "filter (\<lambda>m. dm_fpr (gm_derived m) \<le> budget) grid")
  case Nil
  from assms obtain g gs where g: "grid = g # gs" by (cases grid) auto
  have none: "\<not> list_ex (\<lambda>m. dm_fpr (gm_derived m) \<le> budget) grid"
    using Nil by (auto simp: filter_empty_conv list_ex_iff)
  let ?b = "first_best (\<lambda>a b. dm_fpr (gm_derived a) < dm_fpr (gm_derived b)) g gs"
  have "dm_fpr (gm_derived ?b) \<le> dm_fpr (gm_derived m)" if "m \<in> set grid" for m
    using first_best_key [of "\<lambda>a b. dm_fpr (gm_derived a) < dm_fpr (gm_derived b)" "\<lambda>m. - dm_fpr (gm_derived m)" m g gs] that
    by (simp add: g)
  then show ?thesis using Nil none first_best_in [of _ g gs] by (auto simp: select_point_def g list_all_iff)
next
  case (Cons m ms)
  let ?b = "first_best better_recall m ms"
  have f: "set (m # ms) = {m \<in> set grid. dm_fpr (gm_derived m) \<le> budget}" using Cons by (metis set_filter)
  have b: "?b \<in> {m \<in> set grid. dm_fpr (gm_derived m) \<le> budget}"
    unfolding f [symmetric] by (rule first_best_in)
  have "dm_recall (gm_derived x) \<le> dm_recall (gm_derived ?b)" if "x \<in> set (m # ms)" for x
  proof -
    have "(dm_recall (gm_derived x), dm_precision (gm_derived x)) \<le> (dm_recall (gm_derived ?b), dm_precision (gm_derived ?b))"
      by (rule first_best_key [where key = "\<lambda>m. (dm_recall (gm_derived m), dm_precision (gm_derived m))", OF better_recall_key that])
    then show ?thesis by (auto simp: less_eq_prod_def)
  qed
  then have "list_all (\<lambda>m. if dm_fpr (gm_derived m) \<le> budget then dm_recall (gm_derived m) \<le> dm_recall (gm_derived ?b) else True) grid"
    unfolding f by (simp add: list_all_iff)
  then show ?thesis using Cons b by (auto simp: select_point_def list_ex_iff)
qed

text \<open>scikit-learn's vectors have one entry per feature.\<close>

definition well_sized :: "learner \<Rightarrow> bool" where
  "well_sized L \<longleftrightarrow> (\<forall>X y m n. le_fit L X y = Some m \<longrightarrow> (\<forall>v\<in>set X. length v = n) \<longrightarrow>
     X \<noteq> [] \<and> length (ft_mean m) = n \<and> length (ft_scale m) = n \<and> length (ft_coefs m) = n)"

lemma fit_policy_sound:
  assumes "fit_policy L high medium X y = Some p" and "high \<le> medium"
  shows "cp_medium p \<le> cp_high p"
    and "well_sized L \<Longrightarrow> (\<And>v. v \<in> set X \<Longrightarrow> length v = n) \<Longrightarrow>
      length (cp_mean p) = n \<and> length (cp_scale p) = n \<and> length (cp_coefs p) = n"
proof -
  from assms(1) obtain m h md where m: "le_fit L X y = Some m"
    and h: "threshold_at_fpr (map (le_proba L m) X) y high = Some (Some h)"
    and md: "threshold_at_fpr (map (le_proba L m) X) y medium = Some (Some md)"
    and p: "p = \<lparr>cp_mean = ft_mean m, cp_scale = ft_scale m, cp_coefs = ft_coefs m, cp_intercept = ft_intercept m,
                 cp_high = h, cp_medium = md\<rparr>"
    by (auto simp: fit_policy_def Let_def split: option.splits)
  from larger_budget_lower_threshold [where scores = "map (le_proba L m) X" and labels = y and b = high and b' = medium] assms(2)
  show "cp_medium p \<le> cp_high p" by (simp add: h md p height_def less_eq_prod_def)
  show "length (cp_mean p) = n \<and> length (cp_scale p) = n \<and> length (cp_coefs p) = n"
    if "well_sized L" and "\<And>v. v \<in> set X \<Longrightarrow> length v = n"
    using that m unfolding well_sized_def p by simp
qed

lemma fit_classes_sound: "fit_classes L vec usable classes = Some ps \<Longrightarrow> list_all (\<lambda>(c, p). cp_medium p \<le> cp_high p) ps"
proof (induction classes arbitrary: ps)
  case (Cons cls classes)
  have "PER_CLASS_HIGH_FPR_BUDGET \<le> PER_CLASS_MEDIUM_FPR_BUDGET"
    by (simp add: PER_CLASS_HIGH_FPR_BUDGET_def PER_CLASS_MEDIUM_FPR_BUDGET_def)
  with Cons show ?case
    by (auto simp: Let_def fit_policy_sound(1) split: if_splits option.splits)
qed simp

definition ordered_tier :: "tier \<Rightarrow> bool" where
  "ordered_tier t \<longleftrightarrow> cp_medium (ti_policy t) \<le> cp_high (ti_policy t) \<and> list_all (\<lambda>(c, p). cp_medium p \<le> cp_high p) (ti_per_class t)"

lemma fit_tier_valid:
  assumes "fit_tier L caches rows features i = Some rt" and "well_sized L"
  shows "\<exists>t. validate_tier rt = Inr t \<and> ti_features t = features \<and> ordered_tier t"
proof -
  let ?vec = "\<lambda>r. map (feature_value caches r) features"
  let ?u = "usable_rows caches features rows"
  from assms(1) obtain p pc where p: "fit_policy L HIGH_FPR_BUDGET MEDIUM_FPR_BUDGET (map ?vec ?u) (map sr_attack ?u) = Some p"
    and pc: "fit_classes L ?vec ?u (sort (remdups (map sr_class (filter sr_attack ?u)))) = Some pc"
    and rt: "rt = \<lparr>rt_id = i, rt_features = Some features, rt_mean = Some (cp_mean p), rt_scale = Some (cp_scale p),
                   rt_coefs = Some (cp_coefs p), rt_intercept = Some (cp_intercept p), rt_high = Some (cp_high p),
                   rt_medium = Some (cp_medium p), rt_per_class = pc\<rparr>"
    by (auto simp: fit_tier_def Let_def split: option.splits)
  have le: "HIGH_FPR_BUDGET \<le> MEDIUM_FPR_BUDGET" by (simp add: HIGH_FPR_BUDGET_def MEDIUM_FPR_BUDGET_def)
  have "length (cp_mean p) = length features \<and> length (cp_scale p) = length features \<and> length (cp_coefs p) = length features"
    by (rule fit_policy_sound(2) [OF p le assms(2)]) auto
  with fit_policy_sound(1) [OF p le] fit_classes_sound [OF pc] show ?thesis
    by (simp add: validate_tier_def rt ordered_tier_def)
qed

lemma psi_term_nonneg: "0 \<le> psi_term a b"
proof -
  define x where "x = max a (1 / 1000000)"
  define y where "y = max b (1 / 1000000)"
  have pos: "0 < x" "0 < y" by (simp_all add: x_def y_def)
  have "0 \<le> (y - x) * ln (y / x)"
  proof (cases "x \<le> y")
    case True
    with pos show ?thesis by (intro mult_nonneg_nonneg ln_ge_zero) (simp_all add: le_divide_eq)
  next
    case False
    with pos have "ln (y / x) \<le> 0" by (subst ln_le_zero_iff) (simp_all add: divide_le_eq)
    with False show ?thesis by (intro mult_nonpos_nonpos) simp_all
  qed
  then show ?thesis by (simp add: psi_term_def x_def y_def Let_def)
qed

lemma round4_nonneg: "0 \<le> x \<Longrightarrow> 0 \<le> round4 x"
  by (simp add: round4_def)

section \<open>Properties\<close>

text \<open>The rule that calibration evaluates is the rule the pipeline applies before any arbitration: with the thresholds of
  the deployment, without fusion and without an enforcing domain guardrail, a prompt is counted as
  flagged exactly when the live pipeline vetoes it, decides on the fast path, or fuses the signals to
  HIGH or MEDIUM.\<close>

theorem calibration_rule_is_the_live_rule:
  "let v = re_embed E prompt;
       fast = fast_path_signals E v;
       s = collect_semantic_signals E text v (Some fast);
       r = hd (extract_signals E [(prompt, malicious)])
   in if re_domain_mode E \<noteq> ''enforcing'' \<and> \<not> fr_available (si_fusion s) \<and> re_medium E \<le> re_high E
      then (\<not> predict r (re_high E) (re_medium E) (re_meta_threshold E))
        = (hard_ban_triggered E prompt = None \<and> fast_path_decision E fast = None \<and> fst (fuse_signals E s) = ''LOW'')
      else True"
  by (auto simp: Let_def predict_def extract_signals_def fast_path_decision_def fast_path_signals_def fuse_signals_def
      collect_semantic_signals_def split: if_splits)

text \<open>The selected operating point is on the grid; when some point of the grid keeps the budget, it keeps it too and no
  such point has more recall; otherwise it has the least false positive rate.\<close>

theorem sweep_selects_the_best_point:
  "case sweep rs budget of
     (grid, best, best_f1, met) \<Rightarrow>
       best \<in> set grid
       \<and> met = list_ex (\<lambda>m. dm_fpr (gm_derived m) \<le> budget) grid
       \<and> (if met then dm_fpr (gm_derived best) \<le> budget
            \<and> list_all (\<lambda>m. if dm_fpr (gm_derived m) \<le> budget then dm_recall (gm_derived m) \<le> dm_recall (gm_derived best) else True) grid
          else list_all (\<lambda>m. dm_fpr (gm_derived best) \<le> dm_fpr (gm_derived m)) grid)
       \<and> list_all (\<lambda>m. dm_f1 (gm_derived m) \<le> dm_f1 (gm_derived best_f1)) grid"
proof -
  obtain best met where s: "select_point (sweep_grid rs) budget = (best, met)" by force
  let ?f1 = "first_best (\<lambda>a b. dm_f1 (gm_derived b) < dm_f1 (gm_derived a)) (hd (sweep_grid rs)) (tl (sweep_grid rs))"
  have "dm_f1 (gm_derived m) \<le> dm_f1 (gm_derived ?f1)" if "m \<in> set (sweep_grid rs)" for m
    by (rule first_best_key [where key = "\<lambda>m. dm_f1 (gm_derived m)"]) (use that grid_nonempty [of rs] in simp_all)
  then have "list_all (\<lambda>m. dm_f1 (gm_derived m) \<le> dm_f1 (gm_derived ?f1)) (sweep_grid rs)" by (simp add: list_all_iff)
  with select_point_best [OF grid_nonempty, of rs budget] show ?thesis
    unfolding sweep_def Let_def s prod.case by blast
qed

text \<open>The curve of the calibration report resolves ties by the order of the rows, and every symbolic hit ties at 1: on an
  attack and a benign prompt with the same score its area is 1 or 0 instead of one half.\<close>

theorem report_auc_depends_on_row_order:
  "let a = \<lparr>ca_malicious = True, ca_symbolic = True, ca_threat = 0, ca_meta = 0\<rparr>;
       b = \<lparr>ca_malicious = False, ca_symbolic = True, ca_threat = 0, ca_meta = 0\<rparr>
   in snd (roc_curve [a, b]) = 1 \<and> snd (roc_curve [b, a]) = 0
    \<and> roc_auc (map continuous_score [a, b]) (map ca_malicious [a, b]) = Some (1 / 2)"
  by (simp add: Let_def roc_curve_def curve_rows_def continuous_score_def roc_auc_wins wins_def beats_def)


text \<open>The drift score is never negative, and it is zero for a sample against itself.\<close>

theorem drift_score_is_a_divergence:
  "(case psi ref live bins of Psi p \<Rightarrow> 0 \<le> p | _ \<Rightarrow> True) \<and> (case psi ref ref bins of Psi p \<Rightarrow> p = 0 | _ \<Rightarrow> True)"
proof
  show "case psi ref live bins of Psi p \<Rightarrow> 0 \<le> p | _ \<Rightarrow> True"
    by (auto simp: psi_def psi_term_nonneg intro!: round4_nonneg sum_list_nonneg split: option.splits)
  have "psi_term a a = 0" for a by (simp add: psi_term_def Let_def)
  then have "sum_list (map (\<lambda>(a, b). psi_term a b) (zip xs xs)) = 0" for xs
    by (induction xs) auto
  then show "case psi ref ref bins of Psi p \<Rightarrow> p = 0 | _ \<Rightarrow> True"
    by (auto simp: psi_def round4_def split: option.splits)
qed

text \<open>A red report does not always fail the run: an amber one with more drift hides it.\<close>

theorem amber_hides_red:
  "let red = \<lparr>dr_psi = Some (5 / 100), dr_eff_fpr = Some (9 / 100), dr_verdict = drift_verdict (Some (5 / 100)) (Some (9 / 100)) (5 / 100)\<rparr>;
       amber = \<lparr>dr_psi = Some (20 / 100), dr_eff_fpr = Some (3 / 100), dr_verdict = drift_verdict (Some (20 / 100)) (Some (3 / 100)) (5 / 100)\<rparr>
   in dr_verdict red = Red \<and> monitor_exit [red] = 2 \<and> monitor_exit [red, amber] = 0"
  by (simp add: Let_def drift_verdict_def monitor_exit_def)

end
