(* ===== verification/Key_Tool.thy ===== *)
theory Key_Tool
  imports Auth
begin

text \<open>
  scripts/manage_api_keys.py: the command line tool that writes the key file core/auth.py reads. The content of
  the file is an argument and a result; a command that ends in \<open>SystemExit\<close> is an error and writes nothing. Random
  bytes and SHA-256 are arguments; \<open>json.dump\<close> followed by \<open>json.load\<close> gives the object back. What the
  commands print is not modelled.
\<close>

datatype key_error =
    KeyFileUnreadable
  | UnknownCapability string
  | KeyIdTaken string
  | NoSuchKeyId string
  | GrantHasNoGet
  | SaveFailed

text \<open>\<open>generate_key\<close> of core/auth.py over the random part.\<close>

definition generate_key :: "string \<Rightarrow> string" where
  "generate_key random = ''gk_'' @ random"

text \<open>\<open>_load\<close>: a file that holds no object counts as an empty store.\<close>

definition load_key_file :: "file_content \<Rightarrow> (key_error, (string \<times> json) list) res" where
  "load_key_file file =
     (case file of
        Absent \<Rightarrow> Inr []
      | Unreadable \<Rightarrow> Inl KeyFileUnreadable
      | Parsed (JObj store) \<Rightarrow> Inr store
      | Parsed _ \<Rightarrow> Inr [])"

text \<open>\<open>any(g.get("key_id") == key_id for g in store.values())\<close>; an entry that is no object has no \<open>get\<close>.\<close>

fun key_id_used :: "string \<Rightarrow> (string \<times> json) list \<Rightarrow> (key_error, bool) res" where
  "key_id_used key_id [] = Inr False"
| "key_id_used key_id ((h, g) # store) =
     (case g of
        JObj d \<Rightarrow> if jget d ''key_id'' = JStr key_id then Inr True else key_id_used key_id store
      | _ \<Rightarrow> Inl GrantHasNoGet)"

definition two_digits :: "nat \<Rightarrow> string" where
  "two_digits n = (if n < 10 then CHR ''0'' # show_digits n else show_digits n)"

definition default_key_id :: "string \<Rightarrow> string \<Rightarrow> nat \<Rightarrow> string" where
  "default_key_id tenant capability n = tenant @ ''-'' @ str_lower capability @ ''-'' @ two_digits (Suc n)"

definition new_grant :: "string \<Rightarrow> string \<Rightarrow> string \<Rightarrow> json" where
  "new_grant capability tenant key_id =
     JObj [(''capability'', JStr capability), (''tenant'', JStr tenant), (''key_id'', JStr key_id)]"

text \<open>\<open>_save\<close> opens the file for writing, which empties it, and prints into it: when that breaks, what is left is no
  JSON.\<close>

definition save_keys :: "bool \<Rightarrow> 'a \<Rightarrow> (string \<times> json) list \<Rightarrow> (key_error, 'a) res \<times> file_content" where
  "save_keys breaks result store = (if breaks then (Inl SaveFailed, Unreadable) else (Inr result, Parsed (JObj store)))"

text \<open>\<open>cmd_issue\<close>: the plaintext that is shown once, the key id, and the new content of the file.\<close>

definition cmd_issue ::
  "(string \<Rightarrow> string) \<Rightarrow> bool \<Rightarrow> string \<Rightarrow> string \<Rightarrow> string \<Rightarrow> string option \<Rightarrow> file_content
   \<Rightarrow> (key_error, string \<times> string) res \<times> file_content" where
  "cmd_issue sha breaks random capability_arg tenant key_id_arg file =
     (case load_key_file file of
        Inl e \<Rightarrow> (Inl e, file)
      | Inr store \<Rightarrow>
          let capability = str_upper capability_arg;
              key_id = (case key_id_arg of Some k \<Rightarrow> if k \<noteq> [] then k else default_key_id tenant capability (length store)
                                         | None \<Rightarrow> default_key_id tenant capability (length store))
          in if capability \<notin> set VALID_CAPABILITIES then (Inl (UnknownCapability capability), file)
             else case key_id_used key_id store of
                    Inl e \<Rightarrow> (Inl e, file)
                  | Inr True \<Rightarrow> (Inl (KeyIdTaken key_id), file)
                  | Inr False \<Rightarrow>
                      let plaintext = generate_key random
                      in save_keys breaks (plaintext, key_id)
                           (od_set (sha plaintext) (new_grant capability tenant key_id) store))"

text \<open>\<open>[h for h, g in store.items() if g.get("key_id") == key_id]\<close>\<close>

fun keys_with_id :: "string \<Rightarrow> (string \<times> json) list \<Rightarrow> (key_error, string list) res" where
  "keys_with_id key_id [] = Inr []"
| "keys_with_id key_id ((h, g) # store) =
     (case g of
        JObj d \<Rightarrow>
          (case keys_with_id key_id store of
             Inl e \<Rightarrow> Inl e
           | Inr hs \<Rightarrow> Inr (if jget d ''key_id'' = JStr key_id then h # hs else hs))
      | _ \<Rightarrow> Inl GrantHasNoGet)"

text \<open>\<open>cmd_revoke\<close>: how many keys were removed.\<close>

definition cmd_revoke :: "bool \<Rightarrow> string \<Rightarrow> file_content \<Rightarrow> (key_error, nat) res \<times> file_content" where
  "cmd_revoke breaks key_id file =
     (case load_key_file file of
        Inl e \<Rightarrow> (Inl e, file)
      | Inr store \<Rightarrow>
          (case keys_with_id key_id store of
             Inl e \<Rightarrow> (Inl e, file)
           | Inr hashes \<Rightarrow>
               if hashes = [] then (Inl (NoSuchKeyId key_id), file)
               else save_keys breaks (length hashes) (fold od_del hashes store)))"

text \<open>\<open>cmd_verify\<close>: a fresh store on the named file; the exit status is 0 for a key that resolves.\<close>

definition cmd_verify ::
  "(json \<Rightarrow> string) \<Rightarrow> (string \<Rightarrow> string) \<Rightarrow> string \<Rightarrow> file_content \<Rightarrow> (auth_error, nat \<times> principal) res" where
  "cmd_verify shw sha key file =
     (case fst (resolve_principal shw sha file None (Some key) key_store_init) of
        Inl e \<Rightarrow> Inl e
      | Inr p \<Rightarrow> Inr (if pr_authenticated p then 0 else 1, p))"

section \<open>Lemmas\<close>

lemma parse_grants_append: "parse_grants shw (es @ fs) acc = parse_grants shw fs (parse_grants shw es acc)"
  by (induction shw es acc rule: parse_grants.induct) simp_all

lemma parse_grants_keys: "fst ` set (parse_grants shw es acc) \<subseteq> fst ` set acc \<union> str_lower ` fst ` set es"
proof (induction shw es acc rule: parse_grants.induct)
  case (2 shw k v es acc)
  then show ?case by (cases "parse_grant shw k v") (auto simp: keys_od_set)
qed simp

lemma no_save_yet [simp]: "load_key_file file \<noteq> Inl SaveFailed" "key_id_used key_id store \<noteq> Inl SaveFailed"
  "keys_with_id key_id store \<noteq> Inl SaveFailed"
proof -
  show "load_key_file file \<noteq> Inl SaveFailed" by (auto simp: load_key_file_def split: file_content.split json.split)
  show "key_id_used key_id store \<noteq> Inl SaveFailed"
    by (induction key_id store rule: key_id_used.induct) (auto split: json.split)
  show "keys_with_id key_id store \<noteq> Inl SaveFailed"
    by (induction key_id store rule: keys_with_id.induct) (auto split: json.split sum.split)
qed

lemma keys_with_id_hits: "keys_with_id key_id store = Inr hs \<Longrightarrow>
  set hs = {h. \<exists>d. (h, JObj d) \<in> set store \<and> jget d ''key_id'' = JStr key_id}"
  by (induction key_id store arbitrary: hs rule: keys_with_id.induct) (auto split: json.splits sum.splits if_splits)

lemma fold_od_del: "fold od_del hs store = filter (\<lambda>p. fst p \<notin> set hs) store"
proof (induction hs arbitrary: store)
  case (Cons h hs)
  have "filter (\<lambda>p. fst p \<notin> set hs) (od_del h store) = filter (\<lambda>p. fst p \<notin> set (h # hs)) store"
    unfolding od_del_def filter_filter by (rule filter_cong) auto
  with Cons show ?case by simp
qed simp

lemma ascii_lower: "is_ascii s \<Longrightarrow> is_ascii (str_lower s)"
  by (auto simp: is_ascii_def str_lower_def chr_lower_def list_all_iff)

lemma upper_upper: "c \<in> set VALID_CAPABILITIES \<Longrightarrow> str_upper c = c"
proof -
  have "list_all (\<lambda>c. str_upper c = c) VALID_CAPABILITIES" by code_simp
  then show "c \<in> set VALID_CAPABILITIES \<Longrightarrow> str_upper c = c" by (simp add: list_all_iff)
qed

lemma parse_new_grant: "c \<in> set VALID_CAPABILITIES \<Longrightarrow>
  parse_grant shw h (new_grant c t k) = Some \<lparr>g_capability = c, g_tenant = t, g_key_id = k\<rparr>"
  by (simp add: parse_grant_def new_grant_def jget_default_def upper_upper)

text \<open>A fresh store reads the file and looks the hash up.\<close>

lemma verify_lookup:
  assumes "key \<noteq> []" "is_ascii (sha key)" "list_all (is_ascii \<circ> fst) store"
  shows "fst (resolve_principal shw sha (Parsed (JObj store)) None (Some key) key_store_init) =
    Inr (case map_of (parse_grants shw store []) (sha key) of
           None \<Rightarrow> anonymous ''unrecognised credential'' | Some g \<Rightarrow> verified g)"
proof -
  have "\<forall>k\<in>fst ` set (parse_grants shw store []). is_ascii k"
    using parse_grants_keys [of shw store "[]"] assms(3) by (force simp: list_all_iff intro: ascii_lower)
  then have "find_grant (sha key) (parse_grants shw store []) = Inr (map_of (parse_grants shw store []) (sha key))"
    by (rule find_grant_ok [OF assms(2)])
  with assms(1) show ?thesis
    by (simp add: resolve_principal_def presented_token_def keys_lookup_def keys_load_def key_store_init_def Let_def split: option.split)
qed

lemma fresh_authenticated:
  assumes "fst (resolve_principal shw sha (Parsed (JObj raw)) auth key key_store_init) = Inr p" "pr_authenticated p"
  obtains h g where "granted_by shw raw h g" "p = verified g"
proof -
  let ?tok = "presented_token auth key"
  have "?tok \<noteq> []" using assms by (auto simp: resolve_principal_def anonymous_def)
  with assms obtain g where "find_grant (sha ?tok) (parse_grants shw raw []) = Inr (Some g)" "p = verified g"
    by (auto simp: resolve_principal_def keys_lookup_def keys_load_def key_store_init_def anonymous_def Let_def
        split: sum.splits option.splits)
  with parse_grants_granted [OF find_grant_in, of "sha ?tok" shw raw "[]" g] show ?thesis by (intro that) simp_all
qed

lemma granted_key_id:
  assumes "granted_by shw raw h g"
  obtains k d where "(k, JObj d) \<in> set raw"
    "g_key_id g = py_str shw (jget_default d ''key_id'' (JStr (''key-'' @ take 8 k)))"
proof -
  from assms obtain k v where kv: "(k, v) \<in> set raw" "parse_grant shw k v = Some g" by (auto simp: granted_by_def)
  show ?thesis
  proof (cases v)
    case (JObj d)
    with kv show ?thesis by (intro that [of k d]) (auto simp: parse_grant_def Let_def split: if_splits)
  qed (use kv in \<open>simp_all add: parse_grant_def\<close>)
qed

lemma cmd_issue_Inr:
  assumes "cmd_issue sha breaks random capability tenant key_id_arg file = (Inr (key, key_id), file1)"
  obtains store where "load_key_file file = Inr store" "str_upper capability \<in> set VALID_CAPABILITIES" "key \<noteq> []"
    "file1 = Parsed (JObj (od_set (sha key) (new_grant (str_upper capability) tenant key_id) store))"
  using assms by (auto simp: cmd_issue_def save_keys_def generate_key_def Let_def split: sum.splits bool.splits if_splits)

section \<open>Properties\<close>

text \<open>A key that was issued resolves, in a store that reads the file afterwards, to exactly the capability, the
  tenant and the key id it was issued with, provided that its hash is a new one in lower case and the hashes in the
  file are ASCII; every other key resolves as before. A command that fails leaves the file as it was, unless the
  write itself broke.\<close>

theorem issued_key_resolves:
  "case cmd_issue sha breaks random capability tenant key_id_arg file of
     (Inl e, file1) \<Rightarrow> file1 = (if e = SaveFailed then Unreadable else file)
   | (Inr (key, key_id), file1) \<Rightarrow>
       (case load_key_file file of
          Inl _ \<Rightarrow> False
        | Inr store \<Rightarrow>
            if str_lower (sha key) = sha key \<and> is_ascii (sha key)
               \<and> list_all (\<lambda>e. is_ascii (fst e) \<and> str_lower (fst e) \<noteq> sha key) store
            then cmd_verify shw sha key file1 =
                   Inr (0, verified \<lparr>g_capability = str_upper capability, g_tenant = tenant, g_key_id = key_id\<rparr>)
                 \<and> (if other \<noteq> [] \<and> is_ascii (sha other) \<and> sha other \<noteq> sha key
                    then cmd_verify shw sha other file1 = cmd_verify shw sha other (Parsed (JObj store)) else True)
            else True)"
proof (cases "cmd_issue sha breaks random capability tenant key_id_arg file")
  case (Pair r file1)
  show ?thesis
  proof (cases r)
    case (Inl e)
    with Pair show ?thesis
      by (auto simp: cmd_issue_def save_keys_def Let_def split: sum.splits bool.splits if_splits)
  next
    case (Inr result)
    obtain key key_id where r: "result = (key, key_id)" by (cases result)
    let ?g = "new_grant (str_upper capability) tenant key_id"
    from Pair Inr r obtain store where store: "load_key_file file = Inr store"
      and c: "str_upper capability \<in> set VALID_CAPABILITIES" and key: "key \<noteq> []"
      and file1: "file1 = Parsed (JObj (od_set (sha key) ?g store))"
      by (auto elim: cmd_issue_Inr)
    have resolved: "cmd_verify shw sha key file1 =
          Inr (0, verified \<lparr>g_capability = str_upper capability, g_tenant = tenant, g_key_id = key_id\<rparr>)
        \<and> (other \<noteq> [] \<and> is_ascii (sha other) \<and> sha other \<noteq> sha key \<longrightarrow>
            cmd_verify shw sha other file1 = cmd_verify shw sha other (Parsed (JObj store)))"
      if lower: "str_lower (sha key) = sha key" "is_ascii (sha key)"
        and old: "list_all (\<lambda>e. is_ascii (fst e) \<and> str_lower (fst e) \<noteq> sha key) store"
    proof -
      have "sha key \<notin> fst ` set store" using lower(1) old by (auto simp: list_all_iff)
      then have set_new: "od_set (sha key) ?g store = store @ [(sha key, ?g)]" by (rule od_set_new)
      have ascii: "list_all (is_ascii \<circ> fst) store" using old by (simp add: list_all_iff)
      then have ascii1: "list_all (is_ascii \<circ> fst) (store @ [(sha key, ?g)])" using lower(2) by simp
      have parsed: "parse_grants shw (store @ [(sha key, ?g)]) []
          = od_set (sha key) \<lparr>g_capability = str_upper capability, g_tenant = tenant, g_key_id = key_id\<rparr> (parse_grants shw store [])"
        by (simp add: parse_grants_append parse_new_grant [OF c] lower(1))
      show ?thesis
        unfolding file1 set_new cmd_verify_def
        using verify_lookup [where key = key and sha = sha, OF key lower(2) ascii1] verify_lookup [where key = other and sha = sha, OF _ _ ascii1]
          verify_lookup [where key = other and sha = sha, OF _ _ ascii]
        by (auto simp: parsed map_of_od_set verified_def)
    qed
    with Pair Inr r store show ?thesis by simp
  qed
qed

text \<open>After a successful revocation no credential is authenticated under the revoked key id any more, provided that the
  entries left in the file name their key ids; the other entries stay.\<close>

theorem revoked_key_id_is_gone:
  "case cmd_revoke breaks key_id file of
     (Inl e, file1) \<Rightarrow> file1 = (if e = SaveFailed then Unreadable else file)
   | (Inr n, file1) \<Rightarrow>
       (case (load_key_file file, load_key_file file1) of
          (Inr store, Inr store1) \<Rightarrow>
            0 < n \<and> set store1 = {(h, g). (h, g) \<in> set store \<and> h \<notin> {h. \<exists>d. (h, JObj d) \<in> set store \<and> jget d ''key_id'' = JStr key_id}}
            \<and> (if list_all (\<lambda>e. case snd e of JObj d \<Rightarrow> \<exists>k. jget d ''key_id'' = JStr k | _ \<Rightarrow> True) store1
               then (case fst (resolve_principal shw sha file1 auth key key_store_init) of
                       Inl _ \<Rightarrow> True
                     | Inr p \<Rightarrow> if pr_authenticated p then pr_key_id p \<noteq> key_id else True)
               else True)
        | _ \<Rightarrow> False)"
proof (cases "cmd_revoke breaks key_id file")
  case (Pair r file1)
  show ?thesis
  proof (cases r)
    case (Inl e)
    with Pair show ?thesis by (auto simp: cmd_revoke_def save_keys_def split: sum.splits if_splits)
  next
    case (Inr n)
    with Pair obtain store hs where store: "load_key_file file = Inr store" and hs: "keys_with_id key_id store = Inr hs"
      and n: "hs \<noteq> []" "n = length hs" and file1: "file1 = Parsed (JObj (fold od_del hs store))"
      by (auto simp: cmd_revoke_def save_keys_def split: sum.splits if_splits)
    note hits = keys_with_id_hits [OF hs]
    let ?rest = "fold od_del hs store"
    have gone: "pr_key_id p \<noteq> key_id"
      if ids: "list_all (\<lambda>e. case snd e of JObj d \<Rightarrow> \<exists>k. jget d ''key_id'' = JStr k | _ \<Rightarrow> True) ?rest"
        and p: "fst (resolve_principal shw sha file1 auth key key_store_init) = Inr p" "pr_authenticated p" for p
    proof
      assume id: "pr_key_id p = key_id"
      from p file1 obtain h g where "granted_by shw ?rest h g" and pg: "p = verified g" by (auto elim: fresh_authenticated)
      then obtain k d where kd: "(k, JObj d) \<in> set ?rest"
        and gk: "g_key_id g = py_str shw (jget_default d ''key_id'' (JStr (''key-'' @ take 8 k)))" by (auto elim: granted_key_id)
      from ids kd obtain i where i: "jget d ''key_id'' = JStr i" by (force simp: list_all_iff)
      then have "map_of d ''key_id'' = Some (JStr i)" by (simp add: jget_def split: option.splits)
      with gk pg id have "i = key_id" by (simp add: jget_default_def verified_def)
      with i kd hits show False by (auto simp: fold_od_del)
    qed
    have "load_key_file file1 = Inr ?rest" by (simp add: file1 load_key_file_def)
    moreover have "set ?rest = {(h, g). (h, g) \<in> set store \<and> h \<notin> {h. \<exists>d. (h, JObj d) \<in> set store \<and> jget d ''key_id'' = JStr key_id}}"
      using hits by (auto simp: fold_od_del)
    ultimately show ?thesis using Pair Inr store n gone by (simp split: sum.split)
  qed
qed

text \<open>An entry without a key id is authenticated, and shown in the audit log, as \<open>key-\<close> and the start of its hash; the tool
  knows no key of that id, so it cannot be revoked.\<close>

theorem default_id_cannot_be_revoked:
  "if str_lower (sha key) = sha key \<and> is_ascii (sha key) \<and> key \<noteq> []
   then let file = Parsed (JObj [(sha key, JObj [(''capability'', JStr ''INTERNAL'')])])
        in cmd_verify shw sha key file = Inr (0, verified \<lparr>g_capability = ''INTERNAL'', g_tenant = ''default'', g_key_id = ''key-'' @ take 8 (sha key)\<rparr>)
         \<and> cmd_revoke breaks (''key-'' @ take 8 (sha key)) file = (Inl (NoSuchKeyId (''key-'' @ take 8 (sha key))), file)
   else True"
proof -
  have "''INTERNAL'' \<in> set VALID_CAPABILITIES" by code_simp
  note c = this upper_upper [OF this]
  have "cmd_verify shw sha key (Parsed (JObj [(sha key, JObj [(''capability'', JStr ''INTERNAL'')])])) =
      Inr (0, verified \<lparr>g_capability = ''INTERNAL'', g_tenant = ''default'', g_key_id = ''key-'' @ take 8 (sha key)\<rparr>)"
    if "str_lower (sha key) = sha key" "is_ascii (sha key)" "key \<noteq> []"
    using that c verify_lookup [of key sha "[(sha key, JObj [(''capability'', JStr ''INTERNAL'')])]" shw]
    by (simp add: cmd_verify_def parse_grant_def jget_default_def verified_def)
  then show ?thesis by (simp add: cmd_revoke_def load_key_file_def jget_def Let_def)
qed

text \<open>A write that breaks destroys the store: no credential is authenticated by a process that reads the file.\<close>

theorem failed_save_loses_every_key:
  "case cmd_revoke True key_id file of
     (Inl SaveFailed, file1) \<Rightarrow>
       (case fst (resolve_principal shw sha file1 auth key key_store_init) of Inr p \<Rightarrow> \<not> pr_authenticated p | Inl _ \<Rightarrow> False)
   | (Inl _, file1) \<Rightarrow> file1 = file
   | (Inr _, _) \<Rightarrow> False"
proof -
  have "case fst (resolve_principal shw sha Unreadable auth key key_store_init) of Inr p \<Rightarrow> \<not> pr_authenticated p | Inl _ \<Rightarrow> False"
    by (simp add: resolve_principal_def keys_lookup_def keys_load_def key_store_init_def anonymous_def Let_def)
  then show ?thesis
    by (auto simp: cmd_revoke_def save_keys_def split: sum.splits key_error.splits)
qed

text \<open>A file that holds another JSON value than an object is overwritten by the next key that is issued, although the
  tool refuses to overwrite a store it cannot read.\<close>

theorem non_object_store_is_overwritten:
  "case cmd_issue sha False random ''GENERAL'' tenant (Some ''k'') (Parsed (JList xs)) of
     (Inr (key, _), file1) \<Rightarrow> file1 = Parsed (JObj [(sha key, new_grant ''GENERAL'' tenant ''k'')])
   | (Inl _, _) \<Rightarrow> False"
proof -
  have "''GENERAL'' \<in> set VALID_CAPABILITIES" by code_simp
  with upper_upper [OF this] show ?thesis by (simp add: cmd_issue_def load_key_file_def save_keys_def Let_def)
qed

end
