(* ===== verification/Policy_Tools.thy ===== *)
theory Policy_Tools
  imports Policy_Versioning
begin

text \<open>
  The command line tools of the policy: scripts/validate_policy.py, scripts/manage_policy_versions.py and
  scripts/simulate_policy.py, over core/policy.py and core/policy_versioning.py. The two parsers of policy files are
  arguments. A tool is a process of its own: the store it reloads is not the gateway's. What the tools print is left
  out. A row of the audit log whose capability, risk, tenant or decision is no string is outside the model; the gateway
  writes none.
\<close>

section \<open>Reading a policy file\<close>

definition YAML_EXTENSIONS :: "string list" where
  "YAML_EXTENSIONS = [''.yaml'', ''.yml'']"

text \<open>\<open>_parse_policy_file\<close>: the extension of the path picks the parser.\<close>

definition parse_policy_file ::
  "(string \<Rightarrow> json option) \<Rightarrow> (string \<Rightarrow> json option) \<Rightarrow> string \<Rightarrow> string option \<Rightarrow> file_content" where
  "parse_policy_file yaml json path content =
     (case content of
        None \<Rightarrow> Absent
      | Some t \<Rightarrow>
          (case (if str_lower (extension path) \<in> set YAML_EXTENSIONS then yaml t else json t) of
             None \<Rightarrow> Unreadable | Some v \<Rightarrow> Parsed v))"

text \<open>\<open>load_policy_file\<close>: the live file by default.\<close>

definition load_policy_file ::
  "(string \<Rightarrow> json option) \<Rightarrow> (string \<Rightarrow> json option) \<Rightarrow> string \<Rightarrow> (string \<Rightarrow> string option) \<Rightarrow> string option \<Rightarrow> file_content" where
  "load_policy_file yaml json live_path disk path =
     (let p = (case path of Some p \<Rightarrow> if p \<noteq> [] then p else live_path | None \<Rightarrow> live_path)
      in parse_policy_file yaml json p (disk p))"

section \<open>Validation, deployment, rollback\<close>

text \<open>\<open>main\<close> of validate_policy.py: the exit status.\<close>

definition validate_main :: "(json \<Rightarrow> string) \<Rightarrow> file_content \<Rightarrow> nat" where
  "validate_main shw file = (if validate_policy_file shw file = [] then 0 else 1)"

datatype deploy_result = Rejected "policy_problem list" | Deployed "string option" | Crashed version_error

text \<open>\<open>cmd_deploy\<close>: the candidate is validated under its own name and its text is copied onto the live path.\<close>

definition cmd_deploy ::
  "(json \<Rightarrow> string) \<Rightarrow> (string \<Rightarrow> string) \<Rightarrow> (string \<Rightarrow> json option) \<Rightarrow> (string \<Rightarrow> json option) \<Rightarrow> string \<Rightarrow> disk_chance
   \<Rightarrow> string \<Rightarrow> string option \<Rightarrow> policy_disk \<Rightarrow> policy_store \<Rightarrow> deploy_result \<times> policy_disk \<times> policy_store" where
  "cmd_deploy shw sha yaml json live_path d new_path new disk st =
     (case (validate_policy_file shw (parse_policy_file yaml json new_path new), new) of
        ([], Some content) \<Rightarrow>
          (case deploy_policy shw sha (\<lambda>t. parse_policy_file yaml json live_path (Some t)) live_path d content disk st of
             (Inl e, disk1, st1) \<Rightarrow> (Crashed e, disk1, st1)
           | (Inr previous, disk1, st1) \<Rightarrow> (Deployed previous, disk1, st1))
      | (problems, _) \<Rightarrow> (Rejected problems, disk, st))"

text \<open>\<open>cmd_rollback\<close>: the exit status, or the exception that leaves it.\<close>

definition cmd_rollback ::
  "(json \<Rightarrow> string) \<Rightarrow> (string \<Rightarrow> string) \<Rightarrow> (string \<Rightarrow> file_content) \<Rightarrow> string \<Rightarrow> disk_chance \<Rightarrow> string
   \<Rightarrow> policy_disk \<Rightarrow> policy_store \<Rightarrow> (version_error, nat) res \<times> policy_disk \<times> policy_store" where
  "cmd_rollback shw sha parse path d version disk st =
     (case rollback_to shw sha parse path d version disk st of
        (Inl NoSuchVersionFile, r) \<Rightarrow> (Inr 1, r)
      | (Inl e, r) \<Rightarrow> (Inl e, r)
      | (Inr _, r) \<Rightarrow> (Inr 0, r))"

section \<open>Simulation\<close>

record sim_row =
  sr_request_id :: json
  sr_tenant :: string
  sr_capability :: string
  sr_risk :: string
  sr_decision :: string

text \<open>\<open>load_input_assessment_records\<close> over the parsed lines; a line that is no JSON is \<open>None\<close>. Records without a
  risk are skipped.\<close>

definition sim_row_of :: "json \<Rightarrow> sim_row option" where
  "sim_row_of v =
     (case v of
        JObj row \<Rightarrow>
          (case (map_of row ''capability'', map_of row ''risk'', map_of row ''decision'', jget_default row ''tenant'' (JStr ''default'')) of
             (Some (JStr c), Some (JStr r), Some (JStr d), JStr t) \<Rightarrow>
               Some \<lparr>sr_request_id = jget_default row ''request_id'' (JStr ''unset''), sr_tenant = t, sr_capability = c,
                     sr_risk = r, sr_decision = d\<rparr>
           | _ \<Rightarrow> None)
      | _ \<Rightarrow> None)"

definition load_input_assessment_records :: "json option list \<Rightarrow> sim_row list" where
  "load_input_assessment_records lines =
     List.map_filter (\<lambda>l. case l of None \<Rightarrow> None | Some v \<Rightarrow> sim_row_of v) lines"

record change =
  cg_row :: sim_row
  cg_new :: string
  cg_reason :: string

text \<open>The table \<open>{"ALLOW": 0, "RESTRICT": 1, "BLOCK": 2}\<close>; another key raises \<open>KeyError\<close>.\<close>

definition strictness :: "string \<Rightarrow> nat option" where
  "strictness = map_of [(''ALLOW'', 0), (''RESTRICT'', 1), (''BLOCK'', 2)]"

fun count_stricter :: "change list \<Rightarrow> nat option" where
  "count_stricter [] = Some 0"
| "count_stricter (c # cs) =
     (case (strictness (cg_new c), strictness (sr_decision (cg_row c))) of
        (Some new, Some old) \<Rightarrow> map_option (\<lambda>n. if new > old then Suc n else n) (count_stricter cs)
      | _ \<Rightarrow> None)"

datatype simulation = Refused "policy_problem list" | NothingToReplay | Simulated "change list" nat nat | SimKeyError

definition replay :: "(json \<Rightarrow> string) \<Rightarrow> store_ref \<Rightarrow> store_ref \<Rightarrow> sim_row list \<Rightarrow> change list" where
  "replay shw candidate live rows =
     filter (\<lambda>c. cg_new c \<noteq> sr_decision (cg_row c))
       (map (\<lambda>r. case policy_decision shw (sr_capability r) (sr_risk r) (sr_tenant r) (Some candidate) live of
                  (d, reason) \<Rightarrow> \<lparr>cg_row = r, cg_new = d, cg_reason = reason\<rparr>) rows)"

definition simulate_policy :: "(json \<Rightarrow> string) \<Rightarrow> file_content \<Rightarrow> store_ref \<Rightarrow> sim_row list \<Rightarrow> simulation" where
  "simulate_policy shw file live rows =
     (if validate_policy_file shw file \<noteq> [] then Refused (validate_policy_file shw file)
      else if rows = [] then NothingToReplay
      else
        let changed = replay shw (file, policy_load shw False file policy_store_init) live rows
        in case count_stricter changed of
             None \<Rightarrow> SimKeyError
           | Some stricter \<Rightarrow> Simulated changed (length rows - length changed) stricter)"

section \<open>Lemmas\<close>

lemma valid_default_loads:
  "list_all (\<lambda>te. tenant_problems shw te = []) es \<Longrightarrow> map_of es t \<noteq> None \<or> map_of acc t \<noteq> None \<Longrightarrow>
   map_of (parse_tenants shw es acc) t \<noteq> None"
proof (induction shw es acc rule: parse_tenants.induct)
  case (2 shw u e es acc)
  from "2.prems"(1) have "parse_tenant_entry shw u e \<noteq> None" by (intro tenant_ok_parses) simp
  with 2 show ?case by (auto simp: map_of_od_set split: if_splits)
qed simp

lemma valid_file:
  assumes "validate_policy_file shw file = []"
  obtains raw es where "file = Parsed (JObj raw)" "map_of raw ''tenants'' = Some (JObj es)"
    "read_default_action shw raw \<in> set VALID_ACTIONS" "map_of (parse_tenants shw es []) DEFAULT_TENANT_ID \<noteq> None"
proof -
  from assms obtain raw es where f: "file = Parsed (JObj raw)" "map_of raw ''tenants'' = Some (JObj es)"
    "read_default_action shw raw \<in> set VALID_ACTIONS" "map_of es DEFAULT_TENANT_ID \<noteq> None"
    "list_all (\<lambda>te. tenant_problems shw te = []) es"
    by (auto simp: validate_policy_file_def Let_def list_all_iff split: file_content.splits json.splits option.splits if_splits)
  from valid_default_loads [OF f(5), of DEFAULT_TENANT_ID "[]"] f show ?thesis by (intro that) simp_all
qed

text \<open>A store that loaded a valid file does not depend on what it held before.\<close>

lemma valid_load:
  assumes "validate_policy_file shw file = []"
  shows "policy_load shw True file st = policy_load shw False file policy_store_init"
    and "pst_tenants (policy_load shw True file st) \<noteq> []" "pst_usable (policy_load shw True file st)"
proof -
  from assms obtain raw es where f: "file = Parsed (JObj raw)" "map_of raw ''tenants'' = Some (JObj es)"
    "read_default_action shw raw \<in> set VALID_ACTIONS" "map_of (parse_tenants shw es []) DEFAULT_TENANT_ID \<noteq> None"
    by (rule valid_file)
  then show "policy_load shw True file st = policy_load shw False file policy_store_init"
    "pst_tenants (policy_load shw True file st) \<noteq> []" "pst_usable (policy_load shw True file st)"
    by (auto simp: policy_load_def policy_store_init_def Let_def)
qed

lemma decision_given:
  "pst_tenants st \<noteq> [] \<Longrightarrow> pst_loaded st \<Longrightarrow>
   policy_decision shw c r t (Some (file, st)) live = policy_decision shw c r t None (file', st)"
  by (simp add: policy_decision_def resolve_policy_set_def active_store_def policy_store_len_def policy_get_def
      default_action_def Let_def cong: option.case_cong)

lemma candidate_decides:
  assumes "validate_policy_file shw file = []"
  shows "policy_decision shw c r t (Some (file, policy_load shw False file policy_store_init)) live
    = policy_decision shw c r t None (file', reload_policies shw file st)"
  using valid_load [OF assms, of st] decision_given [of "policy_load shw True file st" shw c r t "file" live "file'"]
    policy_load_loaded [of shw True "file" st]
  by (simp add: reload_policies_def)

lemma count_stricter_le: "count_stricter cs = Some n \<Longrightarrow> n \<le> length cs"
  by (induction cs arbitrary: n) (fastforce split: option.splits if_splits)+

lemma count_stricter_unknown: "c \<in> set cs \<Longrightarrow> strictness (cg_new c) = None \<Longrightarrow> count_stricter cs = None"
  by (induction cs) (auto split: option.splits)

lemma deploy_success:
  assumes "deploy_policy shw sha parse path d new disk st = (Inr previous, disk1, st1)"
  shows "pd_live disk1 = Some new" "st1 = reload_policies shw (parse new) st"
proof -
  obtain r disk2 where snap: "snapshot_policy sha path d disk = (r, disk2)" by (cases "snapshot_policy sha path d disk")
  with assms obtain p where r: "r = Inr p" by (cases r) (auto simp: deploy_policy_def)
  with assms snap show "pd_live disk1 = Some new" "st1 = reload_policies shw (parse new) st"
    by (auto simp: deploy_policy_def swap_live_def copied_def live_file_def Let_def split: copy_outcome.splits prod.splits)
qed

section \<open>Properties\<close>

text \<open>A simulation predicts the deployment: the changes it reports are exactly the recorded decisions that the gateway
  would decide differently once it has loaded the candidate, whatever policy it enforced before, with the decision and
  the reason it would give; nothing is counted twice or lost.\<close>

theorem simulation_predicts_deployment:
  "case simulate_policy shw file live rows of
     Simulated changed unchanged stricter \<Rightarrow>
       changed = filter (\<lambda>c. cg_new c \<noteq> sr_decision (cg_row c))
         (map (\<lambda>r. case policy_decision shw (sr_capability r) (sr_risk r) (sr_tenant r) None (file', reload_policies shw file st) of
                    (d, reason) \<Rightarrow> \<lparr>cg_row = r, cg_new = d, cg_reason = reason\<rparr>) rows)
       \<and> unchanged + length changed = length rows \<and> stricter \<le> length changed
   | _ \<Rightarrow> True"
proof (cases "simulate_policy shw file live rows")
  case (Simulated changed unchanged stricter)
  then have valid: "validate_policy_file shw file = []"
    and changed: "changed = replay shw (file, policy_load shw False file policy_store_init) live rows"
    and counts: "unchanged = length rows - length changed" "count_stricter changed = Some stricter"
    by (auto simp: simulate_policy_def Let_def split: if_splits option.splits)
  have "changed = filter (\<lambda>c. cg_new c \<noteq> sr_decision (cg_row c))
      (map (\<lambda>r. case policy_decision shw (sr_capability r) (sr_risk r) (sr_tenant r) None (file', reload_policies shw file st) of
                 (d, reason) \<Rightarrow> \<lparr>cg_row = r, cg_new = d, cg_reason = reason\<rparr>) rows)"
    unfolding changed replay_def candidate_decides [OF valid, of _ _ _ live "file'" st] ..
  moreover have "length changed \<le> length rows" unfolding changed replay_def by (rule order_trans [OF length_filter_le]) simp
  ultimately show ?thesis using Simulated counts count_stricter_le [OF counts(2)] by simp
qed simp_all

text \<open>The tool deploys valid files only. When the candidate has a kind of extension that the live file has too, the live
  file then holds the candidate and a store that loads it is usable.\<close>

theorem deploy_tool_deploys_valid_policies:
  "case cmd_deploy shw sha yaml json live_path d new_path new disk st of
     (Deployed previous, disk1, st1) \<Rightarrow>
       pd_live disk1 = new \<and> validate_policy_file shw (parse_policy_file yaml json new_path new) = []
       \<and> (if (str_lower (extension new_path) \<in> set YAML_EXTENSIONS) = (str_lower (extension live_path) \<in> set YAML_EXTENSIONS)
          then st1 = reload_policies shw (parse_policy_file yaml json new_path new) st \<and> pst_usable st1 else True)
   | (Rejected problems, disk1, st1) \<Rightarrow> disk1 = disk \<and> st1 = st \<and> problems \<noteq> []
   | (Crashed _, _) \<Rightarrow> True"
proof (cases "validate_policy_file shw (parse_policy_file yaml json new_path new) = [] \<and> new \<noteq> None")
  case True
  then obtain content where valid: "validate_policy_file shw (parse_policy_file yaml json new_path (Some content)) = []"
    and new: "new = Some content" by auto
  let ?parse = "\<lambda>t. parse_policy_file yaml json live_path (Some t)"
  show ?thesis
  proof (cases "deploy_policy shw sha ?parse live_path d content disk st")
    case (fields r disk1 st1)
    show ?thesis
    proof (cases r)
      case (Inr previous)
      note deployed = deploy_success [OF fields [unfolded Inr]]
      have "?parse content = parse_policy_file yaml json new_path (Some content)"
        if "(str_lower (extension new_path) \<in> set YAML_EXTENSIONS) = (str_lower (extension live_path) \<in> set YAML_EXTENSIONS)"
        using that by (simp add: parse_policy_file_def)
      with deployed valid new Inr fields show ?thesis
        using valid_load(3) [OF valid] by (simp add: cmd_deploy_def reload_policies_def)
    qed (use fields valid new in \<open>simp add: cmd_deploy_def\<close>)
  qed
next
  case False
  moreover have "validate_policy_file shw (parse_policy_file yaml json new_path None) \<noteq> []"
    by (simp add: parse_policy_file_def validate_policy_file_def)
  ultimately show ?thesis by (cases new) (auto simp: cmd_deploy_def split: list.split)
qed

text \<open>The candidate is validated as what its own name says and read back as what the live file's name says: a valid YAML
  candidate, as in the usage text of the tool, on the default live path is deployed and then every decision is BLOCK.\<close>

theorem yaml_candidate_blocks_everything:
  "let d = \<lparr>dc_now = now, dc_snapshot = Copies, dc_swap = Copies\<rparr>
   in if validate_policy_file shw (parse_policy_file yaml json ''candidate.yaml'' (Some t)) = [] \<and> json t = None
      then (case cmd_deploy shw sha yaml json ''policy_rules.json'' d ''candidate.yaml'' (Some t) disk st of
              (Deployed _, disk1, st1) \<Rightarrow>
                pd_live disk1 = Some t \<and> fst (policy_decision shw capability risk tenant None (file', st1)) = ''BLOCK''
            | _ \<Rightarrow> False)
      else True"
proof -
  have json: "parse_policy_file yaml json ''policy_rules.json'' (Some t) = Unreadable" if "json t = None"
  proof -
    have "str_lower (extension ''policy_rules.json'') \<notin> set YAML_EXTENSIONS" by code_simp
    with that show ?thesis by (simp add: parse_policy_file_def)
  qed
  have copies: "\<exists>p disk1. deploy_policy shw sha parse path \<lparr>dc_now = now, dc_snapshot = Copies, dc_swap = Copies\<rparr> t disk st = (Inr p, disk1, reload_policies shw (parse t) st)
      \<and> pd_live disk1 = Some t" for parse path
    by (cases "pd_live disk") (simp_all add: deploy_policy_def snapshot_policy_def swap_live_def copied_def live_file_def Let_def)
  have blocks: "fst (policy_decision shw capability risk tenant None (file', reload_policies shw Unreadable st)) = ''BLOCK''"
    using policy_load_loaded [of shw True Unreadable st]
    by (simp add: reload_policies_def policy_decision_live) (simp add: policy_load_def)
  show ?thesis
  proof (cases "validate_policy_file shw (parse_policy_file yaml json ''candidate.yaml'' (Some t)) = [] \<and> json t = None")
    case True
    with copies [of "\<lambda>t. parse_policy_file yaml json ''policy_rules.json'' (Some t)" "''policy_rules.json''"] json blocks
    show ?thesis by (auto simp: cmd_deploy_def Let_def)
  qed (auto simp: Let_def)
qed

text \<open>REVIEW is an action a policy may name, but the table of strictness does not have it: a simulation in which a
  decision changes to REVIEW, or from it, ends in a \<open>KeyError\<close> instead of a report.\<close>

theorem review_breaks_the_simulation:
  "case simulate_policy shw file live rows of
     Simulated changed unchanged stricter \<Rightarrow>
       list_all (\<lambda>c. cg_new c \<noteq> ''REVIEW'' \<and> sr_decision (cg_row c) \<noteq> ''REVIEW'') changed
   | SimKeyError \<Rightarrow>
       list_ex (\<lambda>c. strictness (cg_new c) = None \<or> strictness (sr_decision (cg_row c)) = None)
         (replay shw (file, policy_load shw False file policy_store_init) live rows)
   | _ \<Rightarrow> True"
proof -
  have some: "list_all (\<lambda>c. cg_new c \<noteq> ''REVIEW'' \<and> sr_decision (cg_row c) \<noteq> ''REVIEW'') cs" if "count_stricter cs = Some n" for cs n
    using that by (induction cs arbitrary: n) (auto simp: strictness_def split: option.splits)
  have none: "list_ex (\<lambda>c. strictness (cg_new c) = None \<or> strictness (sr_decision (cg_row c)) = None) cs"
    if "count_stricter cs = None" for cs
    using that by (induction cs) (auto split: option.splits)
  show ?thesis
    using some none by (auto simp: simulate_policy_def Let_def split: option.split)
qed

end
