(* ===== verification/Audit_Migration.thy ===== *)
theory Audit_Migration
  imports Audit_Trail
begin

text \<open>
  scripts/migrate_audit_to_sqlite.py: the import of the JSONL trail into the SQLite store, with its ledger of the
  hashes of imported lines. SHA-256, the parser and the printer of JSON are arguments; \<open>import_chance\<close> is what the
  import of one line meets. Python's \<open>dict\<close> keys are JSON values here, because an event type may be any scalar.
\<close>

definition KNOWN :: "string list" where
  "KNOWN = [''input_assessment'', ''output_assessment'', ''gateway_call'', ''tool_call'']"

record migration_stats =
  ms_total :: nat
  ms_imported :: nat
  ms_skipped_dup :: nat
  ms_bad_json :: nat
  ms_legacy :: nat
  ms_by_type :: "(json \<times> nat) list"

definition no_stats :: migration_stats where
  "no_stats = \<lparr>ms_total = 0, ms_imported = 0, ms_skipped_dup = 0, ms_bad_json = 0, ms_legacy = 0, ms_by_type = []\<rparr>"

text \<open>The database, the rows of the table \<open>migrated_line\<close> with the set \<open>seen\<close> that mirrors it, the counts.\<close>

record migration =
  mi_db :: audit_db
  mi_ledger :: "string list"
  mi_stats :: migration_stats

text \<open>The write succeeds; it raises; the process dies between the write and the entry in the ledger.\<close>

datatype import_chance = Imports | WriteRaises | DiesAfterWrite

definition count_type :: "json \<Rightarrow> (json \<times> nat) list \<Rightarrow> (json \<times> nat) list" where
  "count_type et counts = od_set et (case map_of counts et of None \<Rightarrow> 1 | Some n \<Rightarrow> Suc n) counts"

text \<open>\<open>rec.get("event_type") or "legacy"\<close>, and the table it goes to.\<close>

definition line_type :: "log_entry \<Rightarrow> json" where
  "line_type rec = or_else (jget rec ''event_type'') (JStr ''legacy'')"

definition write_type :: "json \<Rightarrow> string" where
  "write_type et = (case et of JStr s \<Rightarrow> if s \<in> set KNOWN then s else ''legacy'' | _ \<Rightarrow> ''legacy'')"

definition hashable :: "json \<Rightarrow> bool" where
  "hashable v = (case v of JList _ \<Rightarrow> False | JObj _ \<Rightarrow> False | _ \<Rightarrow> True)"

text \<open>One record that is no duplicate: whether the loop goes on, and the state.\<close>

definition import_record ::
  "(json \<Rightarrow> string) \<Rightarrow> bool \<Rightarrow> import_chance \<Rightarrow> string \<Rightarrow> log_entry \<Rightarrow> migration \<Rightarrow> bool \<times> migration" where
  "import_record dumps dry_run chance h rec st =
     (let et = line_type rec;
          s = mi_stats st;
          s1 = s\<lparr>ms_legacy := ms_legacy s + (if write_type et = ''legacy'' then 1 else 0),
                 ms_by_type := count_type et (ms_by_type s)\<rparr>;
          st1 = st\<lparr>mi_stats := s1\<rparr>;
          counted = s1\<lparr>ms_imported := Suc (ms_imported s1)\<rparr>
      in if \<not> hashable et then (False, st)
         else if dry_run then (True, st1\<lparr>mi_stats := counted\<rparr>)
         else case chance of
                WriteRaises \<Rightarrow> (False, st1)
              | DiesAfterWrite \<Rightarrow> (False, st1\<lparr>mi_db := db_write dumps (write_type et) rec (mi_db st1)\<rparr>)
              | Imports \<Rightarrow> (True, st1\<lparr>mi_db := db_write dumps (write_type et) rec (mi_db st1),
                                      mi_ledger := mi_ledger st1 @ [h], mi_stats := counted\<rparr>))"

text \<open>One line of the file. A line that parses to something else than an object raises \<open>AttributeError\<close>.\<close>

definition import_line ::
  "(string \<Rightarrow> string) \<Rightarrow> (string \<Rightarrow> json option) \<Rightarrow> (json \<Rightarrow> string) \<Rightarrow> bool \<Rightarrow> string \<times> import_chance \<Rightarrow> migration
   \<Rightarrow> bool \<times> migration" where
  "import_line sha loads dumps dry_run lc st =
     (let line = str_strip (fst lc); h = sha line; s = mi_stats st; s1 = s\<lparr>ms_total := Suc (ms_total s)\<rparr>
      in if line = [] then (True, st)
         else if h \<in> set (mi_ledger st) then (True, st\<lparr>mi_stats := s1\<lparr>ms_skipped_dup := Suc (ms_skipped_dup s1)\<rparr>\<rparr>)
         else case loads line of
                None \<Rightarrow> (True, st\<lparr>mi_stats := s1\<lparr>ms_bad_json := Suc (ms_bad_json s1)\<rparr>\<rparr>)
              | Some (JObj rec) \<Rightarrow> import_record dumps dry_run (snd lc) h rec (st\<lparr>mi_stats := s1\<rparr>)
              | Some _ \<Rightarrow> (False, st\<lparr>mi_stats := s1\<rparr>))"

fun import_lines ::
  "(string \<Rightarrow> string) \<Rightarrow> (string \<Rightarrow> json option) \<Rightarrow> (json \<Rightarrow> string) \<Rightarrow> bool \<Rightarrow> (string \<times> import_chance) list \<Rightarrow> migration
   \<Rightarrow> bool \<times> migration" where
  "import_lines sha loads dumps dry_run [] st = (True, st)"
| "import_lines sha loads dumps dry_run (l # ls) st =
     (case import_line sha loads dumps dry_run l st of
        (False, st1) \<Rightarrow> (False, st1)
      | (True, st1) \<Rightarrow> import_lines sha loads dumps dry_run ls st1)"

text \<open>\<open>migrate\<close>: a run over a database and its ledger; \<open>None\<close> when there is no JSONL file.\<close>

definition migrate ::
  "(string \<Rightarrow> string) \<Rightarrow> (string \<Rightarrow> json option) \<Rightarrow> (json \<Rightarrow> string) \<Rightarrow> bool \<Rightarrow> (string \<times> import_chance) list option
   \<Rightarrow> audit_db \<times> string list \<Rightarrow> (bool \<times> migration) option" where
  "migrate sha loads dumps dry_run file db =
     (case file of
        None \<Rightarrow> None
      | Some ls \<Rightarrow> Some (import_lines sha loads dumps dry_run ls \<lparr>mi_db = fst db, mi_ledger = snd db, mi_stats = no_stats\<rparr>))"

section \<open>Lemmas\<close>

definition db_size :: "audit_db \<Rightarrow> nat" where
  "db_size db = sum_list (map (\<lambda>(_, table). length (db table)) TABLES)"

lemma columns_none: "t \<notin> set KNOWN \<Longrightarrow> map_of COLUMNS t = None"
  by (simp add: COLUMNS_def KNOWN_def)

lemma write_type_cases: "write_type et \<in> set KNOWN \<or> write_type et = ''legacy''"
  by (auto simp: write_type_def split: json.splits)

lemma legacy_unknown: "''legacy'' \<notin> set KNOWN"
  by code_simp

lemma write_size_of: "t \<in> set KNOWN \<or> t = ''legacy'' \<Longrightarrow> db_size (db_write dumps t rec db) = Suc (db_size db)"
  by (auto simp: KNOWN_def db_write_def COLUMNS_def db_size_def TABLES_def)

lemmas write_size [simp] = write_size_of [OF write_type_cases] write_size_of [of "''legacy''", simplified]

text \<open>The ledger only grows, by the hash of what was imported, and a hash is never entered twice.\<close>

definition new_hash :: "(string \<Rightarrow> string) \<Rightarrow> (string \<Rightarrow> json option) \<Rightarrow> string \<Rightarrow> string set" where
  "new_hash sha loads l =
     (let line = str_strip l in if line \<noteq> [] \<and> loads line \<noteq> None then {sha line} else {})"

lemma import_line_goes:
  assumes "import_line sha loads dumps False l st = (True, st1)"
  shows "set (mi_ledger st1) \<subseteq> set (mi_ledger st) \<union> new_hash sha loads (fst l)"
    and "new_hash sha loads (fst l) \<subseteq> set (mi_ledger st1)"
    and "set (mi_ledger st) \<subseteq> set (mi_ledger st1)"
    and "distinct (mi_ledger st) \<Longrightarrow> distinct (mi_ledger st1)"
    and "db_size (mi_db st1) + length (mi_ledger st) = db_size (mi_db st) + length (mi_ledger st1)"
    and "ms_imported (mi_stats st1) + length (mi_ledger st) = ms_imported (mi_stats st) + length (mi_ledger st1)"
  using assms
  by (auto simp: import_line_def import_record_def new_hash_def Let_def
      split: if_splits option.splits json.splits import_chance.splits)

lemma import_lines_goes:
  assumes "import_lines sha loads dumps False ls st = (True, st1)"
  shows "set (mi_ledger st1) = set (mi_ledger st) \<union> (\<Union>l\<in>set ls. new_hash sha loads (fst l))
    \<and> (distinct (mi_ledger st) \<longrightarrow> distinct (mi_ledger st1))
    \<and> db_size (mi_db st1) + length (mi_ledger st) = db_size (mi_db st) + length (mi_ledger st1)
    \<and> ms_imported (mi_stats st1) + length (mi_ledger st) = ms_imported (mi_stats st) + length (mi_ledger st1)"
  using assms
proof (induction ls arbitrary: st)
  case (Cons l ls)
  then obtain st2 where l: "import_line sha loads dumps False l st = (True, st2)"
    and ls: "import_lines sha loads dumps False ls st2 = (True, st1)"
    by (auto split: prod.splits bool.splits)
  have "set (mi_ledger st1) = set (mi_ledger st2) \<union> (\<Union>l\<in>set ls. new_hash sha loads (fst l))"
    "distinct (mi_ledger st2) \<longrightarrow> distinct (mi_ledger st1)"
    "db_size (mi_db st1) + length (mi_ledger st2) = db_size (mi_db st2) + length (mi_ledger st1)"
    "ms_imported (mi_stats st1) + length (mi_ledger st2) = ms_imported (mi_stats st2) + length (mi_ledger st1)"
    using Cons.IH [OF ls] by blast+
  with import_line_goes [OF l] show ?case by auto
qed simp

lemma import_lines_again:
  assumes "(\<Union>l\<in>set ls. new_hash sha loads (fst l)) \<subseteq> set (mi_ledger st)"
  shows "\<exists>s. import_lines sha loads dumps False ls st = (True, st\<lparr>mi_stats := s\<rparr>) \<and> ms_imported s = ms_imported (mi_stats st)"
  using assms
proof (induction ls arbitrary: st)
  case Nil
  show ?case by (intro exI [of _ "mi_stats st"]) simp
next
  case (Cons l ls)
  have "\<exists>s. import_line sha loads dumps False l st = (True, st\<lparr>mi_stats := s\<rparr>) \<and> ms_imported s = ms_imported (mi_stats st)"
  proof (cases "str_strip (fst l) = []")
    case True
    then show ?thesis by (intro exI [of _ "mi_stats st"]) (simp add: import_line_def)
  next
    case False
    with Cons.prems show ?thesis by (auto simp: import_line_def new_hash_def Let_def split: option.split if_splits)
  qed
  then obtain s where s: "import_line sha loads dumps False l st = (True, st\<lparr>mi_stats := s\<rparr>)" "ms_imported s = ms_imported (mi_stats st)"
    by blast
  from Cons.IH [of "st\<lparr>mi_stats := s\<rparr>"] Cons.prems s show ?case by auto
qed

lemma import_lines_append:
  "import_lines sha loads dumps dry (ks @ ls) st =
     (case import_lines sha loads dumps dry ks st of
        (False, st1) \<Rightarrow> (False, st1)
      | (True, st1) \<Rightarrow> import_lines sha loads dumps dry ls st1)"
  by (induction ks arbitrary: st) (simp_all split: prod.split bool.split)

lemma import_lines_ledger:
  "set (mi_ledger (snd (import_lines sha loads dumps dry ls st))) \<subseteq> set (mi_ledger st) \<union> (\<lambda>l. sha (str_strip (fst l))) ` set ls"
proof (induction ls arbitrary: st)
  case (Cons l ls)
  have "set (mi_ledger (snd (import_line sha loads dumps dry l st))) \<subseteq> insert (sha (str_strip (fst l))) (set (mi_ledger st))"
    by (auto simp: import_line_def import_record_def Let_def split: option.splits json.splits import_chance.splits if_splits)
  with Cons.IH [of "snd (import_line sha loads dumps dry l st)"] show ?case
    by (cases "import_line sha loads dumps dry l st") (auto split: bool.split)
qed simp

lemma import_one:
  assumes "str_strip line = line" "line \<noteq> []" "loads line = Some (JObj e)" "sha line \<notin> set (mi_ledger st)"
    "jget e ''event_type'' = JStr et" "et \<in> set KNOWN"
  shows "\<exists>st1. import_lines sha loads dumps False [(line, Imports)] st = (True, st1)
      \<and> mi_db st1 = db_write dumps et e (mi_db st) \<and> mi_ledger st1 = mi_ledger st @ [sha line]"
    and "\<exists>st1. import_lines sha loads dumps False [(line, DiesAfterWrite)] st = (False, st1)
      \<and> mi_db st1 = db_write dumps et e (mi_db st) \<and> mi_ledger st1 = mi_ledger st"
proof -
  have "et \<noteq> []" using assms(6) by (auto simp: KNOWN_def)
  with assms have "line_type e = JStr et" "write_type (JStr et) = et" "hashable (JStr et)"
    by (simp_all add: line_type_def or_else_def write_type_def hashable_def)
  with assms show "\<exists>st1. import_lines sha loads dumps False [(line, Imports)] st = (True, st1)
      \<and> mi_db st1 = db_write dumps et e (mi_db st) \<and> mi_ledger st1 = mi_ledger st @ [sha line]"
    "\<exists>st1. import_lines sha loads dumps False [(line, DiesAfterWrite)] st = (False, st1)
      \<and> mi_db st1 = db_write dumps et e (mi_db st) \<and> mi_ledger st1 = mi_ledger st"
    by (auto simp: import_line_def import_record_def Let_def)
qed

section \<open>Properties\<close>

text \<open>A run that completes imports every line that parses and was not imported before, each exactly once however
  often it occurs: the ledger has each hash once, the store grows by one row per new hash, and the count that is
  reported is that number. A second run over the same file, whatever it meets, completes, imports nothing and leaves
  store and ledger as they are.\<close>

theorem migration_is_idempotent:
  "case migrate sha loads dumps False (Some ls) (db, ledger) of
     Some (True, st) \<Rightarrow>
       set (mi_ledger st) = set ledger \<union> \<Union> ((\<lambda>l. new_hash sha loads (fst l)) ` set ls)
       \<and> (if distinct ledger then distinct (mi_ledger st) else True)
       \<and> db_size (mi_db st) = db_size db + ms_imported (mi_stats st)
       \<and> length (mi_ledger st) = length ledger + ms_imported (mi_stats st)
       \<and> (if map fst ls' = map fst ls
          then (case migrate sha loads dumps False (Some ls') (mi_db st, mi_ledger st) of
                  Some (True, st2) \<Rightarrow> mi_db st2 = mi_db st \<and> mi_ledger st2 = mi_ledger st \<and> ms_imported (mi_stats st2) = 0
                | _ \<Rightarrow> False)
          else True)
   | Some (False, _) \<Rightarrow> True
   | None \<Rightarrow> False"
proof (cases "import_lines sha loads dumps False ls \<lparr>mi_db = db, mi_ledger = ledger, mi_stats = no_stats\<rparr>")
  case (Pair ok st)
  show ?thesis
  proof (cases ok)
    case True
    with Pair have run: "import_lines sha loads dumps False ls \<lparr>mi_db = db, mi_ledger = ledger, mi_stats = no_stats\<rparr> = (True, st)"
      by simp
    from import_lines_goes [OF run]
    have ledger: "set (mi_ledger st) = set ledger \<union> (\<Union>l\<in>set ls. new_hash sha loads (fst l))"
      "distinct ledger \<longrightarrow> distinct (mi_ledger st)"
      "db_size (mi_db st) + length ledger = db_size db + length (mi_ledger st)"
      "ms_imported (mi_stats st) + length ledger = length (mi_ledger st)"
      by (auto simp: no_stats_def)
    have again: "\<exists>st2. import_lines sha loads dumps False ls' \<lparr>mi_db = mi_db st, mi_ledger = mi_ledger st, mi_stats = no_stats\<rparr> = (True, st2)
        \<and> mi_db st2 = mi_db st \<and> mi_ledger st2 = mi_ledger st \<and> ms_imported (mi_stats st2) = 0"
      if "map fst ls' = map fst ls"
    proof -
      have "fst ` set ls' = fst ` set ls" using arg_cong [OF that, of set] by simp
      then have "(\<Union>x\<in>fst ` set ls'. new_hash sha loads x) = (\<Union>x\<in>fst ` set ls. new_hash sha loads x)" by (simp only:)
      then have "(\<Union>l\<in>set ls'. new_hash sha loads (fst l)) = (\<Union>l\<in>set ls. new_hash sha loads (fst l))" by simp
      with ledger(1) import_lines_again [of sha loads ls' "\<lparr>mi_db = mi_db st, mi_ledger = mi_ledger st, mi_stats = no_stats\<rparr>" dumps]
      show ?thesis by (auto simp: no_stats_def)
    qed
    show ?thesis
      using run ledger again by (auto simp: migrate_def)
  qed (use Pair in \<open>simp add: migrate_def\<close>)
qed

text \<open>With the mirror on, which is the default, a line of the file has its row already, but not its hash in the ledger:
  the migration inserts the same row a second time. So does a run that follows one that died between the two
  writes.\<close>

theorem mirrored_line_is_imported_again:
  "let line = format e; et = text_of (jget e ''event_type'');
       t = snd (emit_record S dumps \<lparr>wo_jsonl = True, wo_sqlite = True\<rparr> e \<lparr>at_jsonl = [], at_db = (\<lambda>_. [])\<rparr>)
   in if str_strip line = line \<and> line \<noteq> [] \<and> loads line = Some (JObj e) \<and> jget e ''event_type'' = JStr et \<and> et \<in> set KNOWN
         \<and> as_sqlite_enabled S
      then at_jsonl t = [e]
        \<and> (case migrate sha loads dumps False (Some [(line, Imports)]) (at_db t, []) of
             Some (True, st) \<Rightarrow> \<exists>row. at_db t et = [row] \<and> mi_db st et = [row, row]
           | _ \<Rightarrow> False)
        \<and> (case migrate sha loads dumps False (Some [(line, DiesAfterWrite)]) (\<lambda>_. [], []) of
             Some (False, st) \<Rightarrow>
               (case migrate sha loads dumps False (Some [(line, Imports)]) (mi_db st, mi_ledger st) of
                  Some (True, st2) \<Rightarrow> \<exists>row. mi_db st2 et = [row, row]
                | _ \<Rightarrow> False)
           | _ \<Rightarrow> False)
      else True"
proof -
  have twice: "(\<exists>row. at_db (snd (emit_record S dumps \<lparr>wo_jsonl = True, wo_sqlite = True\<rparr> e \<lparr>at_jsonl = [], at_db = (\<lambda>_. [])\<rparr>)) et = [row]
        \<and> db_write dumps et e (at_db (snd (emit_record S dumps \<lparr>wo_jsonl = True, wo_sqlite = True\<rparr> e \<lparr>at_jsonl = [], at_db = (\<lambda>_. [])\<rparr>))) et = [row, row])
      \<and> (\<exists>row. db_write dumps et e (db_write dumps et e (\<lambda>_. [])) et = [row, row])"
    if "et \<in> set KNOWN" "as_sqlite_enabled S" "jget e ''event_type'' = JStr et" for et
  proof -
    from that(1) obtain cols where "map_of COLUMNS et = Some cols" by (auto simp: KNOWN_def COLUMNS_def)
    with that show ?thesis by (simp add: emit_record_def mirror_to_sqlite_def db_write_def text_of_def)
  qed
  let ?et = "text_of (jget e ''event_type'')"
  let ?t = "snd (emit_record S dumps \<lparr>wo_jsonl = True, wo_sqlite = True\<rparr> e \<lparr>at_jsonl = [], at_db = (\<lambda>_. [])\<rparr>)"
  let ?ok = "str_strip (format e) = format e \<and> format e \<noteq> [] \<and> loads (format e) = Some (JObj e)
    \<and> jget e ''event_type'' = JStr ?et \<and> ?et \<in> set KNOWN \<and> as_sqlite_enabled S"
  show ?thesis
  proof (cases ?ok)
    case True
    then have e: "str_strip (format e) = format e" "format e \<noteq> []" "loads (format e) = Some (JObj e)"
      "jget e ''event_type'' = JStr ?et" "?et \<in> set KNOWN" by simp_all
    let ?run = "\<lambda>c db led. import_lines sha loads dumps False [(format e, c)] \<lparr>mi_db = db, mi_ledger = led, mi_stats = no_stats\<rparr>"
    obtain st1 where st1: "?run Imports (at_db ?t) [] = (True, st1)" "mi_db st1 = db_write dumps ?et e (at_db ?t)"
      using import_one(1) [where line = "format e" and loads = loads and e = e and et = ?et and sha = sha and dumps = dumps
          and st = "\<lparr>mi_db = at_db ?t, mi_ledger = [], mi_stats = no_stats\<rparr>"] e by auto
    obtain st2 where st2: "?run DiesAfterWrite (\<lambda>_. []) [] = (False, st2)" "mi_db st2 = db_write dumps ?et e (\<lambda>_. [])" "mi_ledger st2 = []"
      using import_one(2) [where line = "format e" and loads = loads and e = e and et = ?et and sha = sha and dumps = dumps
          and st = "\<lparr>mi_db = (\<lambda>_. []), mi_ledger = [], mi_stats = no_stats\<rparr>"] e by auto
    obtain st3 where st3: "?run Imports (mi_db st2) (mi_ledger st2) = (True, st3)" "mi_db st3 = db_write dumps ?et e (mi_db st2)"
      using import_one(1) [where line = "format e" and loads = loads and e = e and et = ?et and sha = sha and dumps = dumps
          and st = "\<lparr>mi_db = mi_db st2, mi_ledger = mi_ledger st2, mi_stats = no_stats\<rparr>"] e st2(3) by auto
    have "at_jsonl ?t = [e]" using True by (simp add: emit_record_def mirror_to_sqlite_def)
    with True st1 st2 st3 twice [of ?et] show ?thesis
      by (simp add: migrate_def Let_def del: import_lines.simps)
  qed (simp only: Let_def if_False)
qed

text \<open>A line that holds another JSON value than an object stops the migration, this time and every time: what stands
  behind it in the file is never imported.\<close>

theorem stray_value_stops_the_migration:
  "let line = str_strip (fst l)
   in if line \<noteq> [] \<and> loads line = Some (JList xs) \<and> sha line \<notin> set ledger \<and> list_all (\<lambda>k. sha (str_strip (fst k)) \<noteq> sha line) prior
      then (case migrate sha loads dumps dry (Some (prior @ l # behind)) (db, ledger) of
              Some (ok, st) \<Rightarrow> \<not> ok \<and> st = snd (import_lines sha loads dumps dry (prior @ [l]) \<lparr>mi_db = db, mi_ledger = ledger, mi_stats = no_stats\<rparr>)
            | None \<Rightarrow> False)
      else True"
proof -
  let ?st = "\<lparr>mi_db = db, mi_ledger = ledger, mi_stats = no_stats\<rparr>"
  let ?line = "str_strip (fst l)"
  have stops: "import_lines sha loads dumps dry (prior @ l # behind) ?st = (False, snd (import_lines sha loads dumps dry (prior @ [l]) ?st))"
    if "?line \<noteq> []" "loads ?line = Some (JList xs)" "sha ?line \<notin> set ledger" "list_all (\<lambda>k. sha (str_strip (fst k)) \<noteq> sha ?line) prior"
  proof -
    have "sha ?line \<notin> set (mi_ledger (snd (import_lines sha loads dumps dry prior ?st)))"
      using subsetD [OF import_lines_ledger [of sha loads dumps dry prior ?st], of "sha ?line"] that by (fastforce simp: list_all_iff)
    moreover obtain ok st1 where "import_lines sha loads dumps dry prior ?st = (ok, st1)"
      by (cases "import_lines sha loads dumps dry prior ?st")
    ultimately show ?thesis
      using that by (cases ok) (simp_all add: import_lines_append import_line_def Let_def)
  qed
  show ?thesis
    by (simp add: migrate_def Let_def stops del: import_lines.simps)
qed

end
