(* ===== verification/Eval_Suite.thy ===== *)
theory Eval_Suite
  imports Normalizer "HOL-Library.Multiset"
begin

text \<open>
  scripts/build_eval_suite.py: the evaluation suite, pooled from public data sets, over code points. The data sets
  are an argument (a source that cannot be loaded is \<open>None\<close>), as are the Unicode tables, SHA-1 and the shuffles of
  the seeded generator. A cell of a text column holds text or null.
\<close>

section \<open>Languages and keys\<close>

record suite_unicode =
  sn_unicode :: unicode
  sn_nfkd :: "text_points \<Rightarrow> text_points"
  sn_combining :: "nat \<Rightarrow> bool"
  sn_int :: "text_points \<Rightarrow> int option"
  sn_upper :: "text_points \<Rightarrow> text_points"

definition points :: "string \<Rightarrow> text_points" where
  "points s = map of_char s"

definition DE_MARKERS :: "text_points list" where
  "DE_MARKERS = [102, 252, 114] # map points
     [''der'', ''die'', ''das'', ''und'', ''ist'', ''nicht'', ''ich'', ''du'', ''sie'', ''wir'', ''ein'', ''eine'', ''einen'',
      ''einem'', ''einer'', ''mit'', ''auf'', ''fuer'', ''von'', ''zu'', ''dass'', ''wie'', ''was'', ''wenn'', ''aber'', ''auch'',
      ''sind'', ''haben'', ''werden'', ''kann'', ''soll'', ''muss'', ''alle'', ''alles'', ''jetzt'', ''bitte'', ''vergiss'',
      ''ignoriere'', ''schreibe'', ''deine'', ''deinen'', ''mich'', ''mir'', ''es'', ''im'', ''am'']"

definition EN_MARKERS :: "text_points list" where
  "EN_MARKERS = map points
     [''the'', ''and'', ''is'', ''not'', ''you'', ''we'', ''a'', ''an'', ''with'', ''on'', ''for'', ''from'', ''to'', ''that'',
      ''how'', ''what'', ''if'', ''but'', ''also'', ''are'', ''have'', ''will'', ''can'', ''should'', ''must'', ''all'', ''now'',
      ''please'', ''forget'', ''ignore'', ''write'', ''your'', ''me'', ''my'', ''it'', ''in'', ''of'', ''this'', ''do'']"

text \<open>The umlauts and the sharp s, and the character class of a token.\<close>

definition german_point :: "nat \<Rightarrow> bool" where
  "german_point c \<longleftrightarrow> c \<in> {228, 246, 252, 223, 196, 214, 220}"

definition token_point :: "nat \<Rightarrow> bool" where
  "token_point c \<longleftrightarrow> small_letter c \<or> 65 \<le> c \<and> c \<le> 90 \<or> german_point c"

text \<open>\<open>re.findall\<close> of the maximal runs.\<close>

function find_tokens :: "text_points \<Rightarrow> text_points list" where
  "find_tokens [] = []"
| "find_tokens (c # cs) =
     (if token_point c then (c # takeWhile token_point cs) # find_tokens (dropWhile token_point cs) else find_tokens cs)"
  by pat_completeness auto
termination
  by (relation "measure length") (auto simp: le_imp_less_Suc length_dropWhile_le)

definition detect_language :: "suite_unicode \<Rightarrow> text_points \<Rightarrow> string" where
  "detect_language N t =
     (let tokens = remdups (find_tokens (un_lower (sn_unicode N) t));
          de = length (filter (\<lambda>w. w \<in> set DE_MARKERS) tokens) + (if list_ex german_point t then 2 else 0);
          en = length (filter (\<lambda>w. w \<in> set EN_MARKERS) tokens)
      in if tokens = [] then ''other''
         else if de = 0 \<and> en = 0 then ''other''
         else if de > en then ''de''
         else if en > de then ''en''
         else ''other'')"

definition key_point :: "unicode \<Rightarrow> nat \<Rightarrow> bool" where
  "key_point U c \<longleftrightarrow> small_letter c \<or> 48 \<le> c \<and> c \<le> 57 \<or> space_point U c"

definition normalize_for_dedup :: "suite_unicode \<Rightarrow> text_points \<Rightarrow> text_points" where
  "normalize_for_dedup N t =
     (let U = sn_unicode N;
          t1 = filter (\<lambda>c. \<not> sn_combining N c) (sn_nfkd N (un_lower U t))
      in strip_points U (collapse_spaces U (filter (key_point U) t1)))"

section \<open>Sources\<close>

definition CLASS_BENIGN :: string where "CLASS_BENIGN = ''benign''"
definition CLASS_INJECTION :: string where "CLASS_INJECTION = ''prompt_injection''"
definition CLASS_JAILBREAK :: string where "CLASS_JAILBREAK = ''jailbreak''"
definition CLASS_HARMFUL :: string where "CLASS_HARMFUL = ''harmful_content''"

datatype cell = CText text_points | CInt int | CNull

type_synonym row = "(string \<times> cell) list"
type_synonym item = "text_points \<times> int \<times> string"

datatype source_error = MissingColumn string | BadValue string | Unreachable

text \<open>\<open>row[k]\<close> of a text column, and \<open>(row.get(k) or "").strip()\<close>.\<close>

definition text_cell :: "row \<Rightarrow> string \<Rightarrow> (source_error, text_points) res" where
  "text_cell r k =
     (case map_of r k of
        None \<Rightarrow> Inl (MissingColumn k) | Some (CText t) \<Rightarrow> Inr t | Some CNull \<Rightarrow> Inr [] | Some (CInt _) \<Rightarrow> Inl (BadValue k))"

definition stripped_cell :: "suite_unicode \<Rightarrow> row \<Rightarrow> string \<Rightarrow> (source_error, text_points) res" where
  "stripped_cell N r k =
     (case map_of r k of
        Some (CText t) \<Rightarrow> Inr (strip_points (sn_unicode N) t)
      | Some (CInt n) \<Rightarrow> if n = 0 then Inr [] else Inl (BadValue k)
      | _ \<Rightarrow> Inr [])"

text \<open>\<open>int(v)\<close>\<close>

definition int_of_cell :: "suite_unicode \<Rightarrow> string \<Rightarrow> cell \<Rightarrow> (source_error, int) res" where
  "int_of_cell N k v =
     (case v of
        CInt n \<Rightarrow> Inr n
      | CText t \<Rightarrow> (case sn_int N t of None \<Rightarrow> Inl (BadValue k) | Some n \<Rightarrow> Inr n)
      | CNull \<Rightarrow> Inl (BadValue k))"

definition int_cell :: "suite_unicode \<Rightarrow> row \<Rightarrow> string \<Rightarrow> (source_error, int) res" where
  "int_cell N r k = (case map_of r k of None \<Rightarrow> Inl (MissingColumn k) | Some v \<Rightarrow> int_of_cell N k v)"

text \<open>\<open>int(row.get(k, 0) or 0)\<close>\<close>

definition flag_cell :: "suite_unicode \<Rightarrow> row \<Rightarrow> string \<Rightarrow> (source_error, int) res" where
  "flag_cell N r k =
     (case map_of r k of
        None \<Rightarrow> Inr 0 | Some CNull \<Rightarrow> Inr 0 | Some (CText t) \<Rightarrow> if t = [] then Inr 0 else int_of_cell N k (CText t)
      | Some (CInt n) \<Rightarrow> Inr n)"

text \<open>\<open>str(v).strip()\<close> folded to one case and compared with a word; the text of a number or of null is none of the words.\<close>

definition is_word :: "suite_unicode \<Rightarrow> (text_points \<Rightarrow> text_points) \<Rightarrow> string \<Rightarrow> cell option \<Rightarrow> bool" where
  "is_word N fold_case w v =
     (case v of Some (CText t) \<Rightarrow> fold_case (strip_points (sn_unicode N) t) = points w | _ \<Rightarrow> False)"

definition has_text :: "row \<Rightarrow> string \<Rightarrow> bool" where
  "has_text r k = (case map_of r k of Some (CText t) \<Rightarrow> t \<noteq> [] | Some (CInt n) \<Rightarrow> n \<noteq> 0 | _ \<Rightarrow> False)"

text \<open>The adapters, one per kind of row; a row they skip is \<open>None\<close>.\<close>

datatype adapter =
    Deepset | JailbreakClassification | Gandalf | ChatgptJailbreaks | ToxicChat | Behavior int string | Multilingual
  | Germeval | Alpaca

definition nonempty :: "(source_error, text_points) res \<Rightarrow> (text_points \<Rightarrow> (source_error, item) res) \<Rightarrow> (source_error, item option) res" where
  "nonempty text mk =
     (case text of
        Inl e \<Rightarrow> Inl e
      | Inr t \<Rightarrow> if t = [] then Inr None else (case mk t of Inl e \<Rightarrow> Inl e | Inr i \<Rightarrow> Inr (Some i)))"

fun item_of :: "suite_unicode \<Rightarrow> adapter \<Rightarrow> row \<Rightarrow> (source_error, item option) res" where
  "item_of N Deepset r =
     (case int_cell N r ''label'' of
        Inl e \<Rightarrow> Inl e
      | Inr label \<Rightarrow>
          (case text_cell r ''text'' of
             Inl e \<Rightarrow> Inl e
           | Inr t \<Rightarrow> Inr (Some (t, label, if label \<noteq> 0 then CLASS_INJECTION else CLASS_BENIGN))))"
| "item_of N JailbreakClassification r =
     (if map_of r ''type'' = None then Inl (MissingColumn ''type'')
      else let jb = is_word N (un_lower (sn_unicode N)) ''jailbreak'' (map_of r ''type'')
           in case text_cell r ''prompt'' of
                Inl e \<Rightarrow> Inl e
              | Inr t \<Rightarrow> Inr (Some (t, if jb then 1 else 0, if jb then CLASS_JAILBREAK else CLASS_BENIGN)))"
| "item_of N Gandalf r = (case text_cell r ''text'' of Inl e \<Rightarrow> Inl e | Inr t \<Rightarrow> Inr (Some (t, 1, CLASS_INJECTION)))"
| "item_of N ChatgptJailbreaks r = nonempty (stripped_cell N r ''Prompt'') (\<lambda>t. Inr (t, 1, CLASS_JAILBREAK))"
| "item_of N ToxicChat r =
     nonempty (stripped_cell N r ''user_input'')
       (\<lambda>t. case flag_cell N r ''jailbreaking'' of
              Inl e \<Rightarrow> Inl e
            | Inr j \<Rightarrow>
                if j = 1 then Inr (t, 1, CLASS_JAILBREAK)
                else (case flag_cell N r ''toxicity'' of
                        Inl e \<Rightarrow> Inl e
                      | Inr x \<Rightarrow> Inr (if x = 1 then (t, 1, CLASS_HARMFUL) else (t, 0, CLASS_BENIGN))))"
| "item_of N (Behavior label cls) r =
     nonempty (if has_text r ''Goal'' then stripped_cell N r ''Goal'' else stripped_cell N r ''goal'') (\<lambda>t. Inr (t, label, cls))"
| "item_of N Multilingual r =
     nonempty (stripped_cell N r ''text'')
       (\<lambda>t. case int_cell N r ''label'' of
              Inl e \<Rightarrow> Inl e
            | Inr n \<Rightarrow> Inr (if n = 1 then (t, 1, CLASS_INJECTION) else (t, 0, CLASS_BENIGN)))"
| "item_of N Germeval r =
     nonempty (stripped_cell N r ''text'')
       (\<lambda>t. Inr (if is_word N (sn_upper N) ''OFFENSE'' (map_of r ''binary'') then (t, 1, CLASS_HARMFUL) else (t, 0, CLASS_BENIGN)))"
| "item_of N Alpaca r = nonempty (stripped_cell N r ''instruction'') (\<lambda>t. Inr (t, 0, CLASS_BENIGN))"

text \<open>A source: its name, the splits it loads with the adapter of each, its cap.\<close>

record source =
  so_name :: string
  so_splits :: "(string \<times> adapter) list"
  so_cap :: "nat option"

definition SOURCES :: "source list" where
  "SOURCES =
     [\<lparr>so_name = ''deepset/prompt-injections'', so_splits = [(''train'', Deepset)], so_cap = None\<rparr>,
      \<lparr>so_name = ''jackhhao/jailbreak-classification'',
       so_splits = [(''train'', JailbreakClassification), (''test'', JailbreakClassification)], so_cap = None\<rparr>,
      \<lparr>so_name = ''lakera/gandalf_ignore_instructions'', so_splits = [(''train'', Gandalf)], so_cap = Some 800\<rparr>,
      \<lparr>so_name = ''rubend18/ChatGPT-Jailbreak-Prompts'', so_splits = [(''train'', ChatgptJailbreaks)], so_cap = None\<rparr>,
      \<lparr>so_name = ''lmsys/toxic-chat'', so_splits = [(''train'', ToxicChat)], so_cap = Some 3000\<rparr>,
      \<lparr>so_name = ''JailbreakBench/JBB-Behaviors'',
       so_splits = [(''harmful'', Behavior 1 CLASS_HARMFUL), (''benign'', Behavior 0 CLASS_BENIGN)], so_cap = None\<rparr>,
      \<lparr>so_name = ''tatsu-lab/alpaca'', so_splits = [(''train'', Alpaca)], so_cap = Some 1200\<rparr>,
      \<lparr>so_name = ''rikka-snow/prompt-injection-multilingual'',
       so_splits = [(''train'', Multilingual), (''test'', Multilingual)], so_cap = Some 3000\<rparr>,
      \<lparr>so_name = ''Octavio-Santana/prompt-injection-attack-detection-multilingual'',
       so_splits = [(''train'', Multilingual)], so_cap = Some 3000\<rparr>,
      \<lparr>so_name = ''philschmid/germeval18'', so_splits = [(''train'', Germeval), (''test'', Germeval)], so_cap = Some 3000\<rparr>]"

section \<open>Pooling\<close>

record suite_record =
  er_id :: string
  er_text :: text_points
  er_label :: int
  er_class :: string
  er_source :: string
  er_language :: string

datatype provenance = Skipped string source_error | Pooled string nat nat nat nat "nat option"

record pool =
  po_records :: "suite_record list"
  po_seen :: "(text_points \<times> string) list"
  po_provenance :: "provenance list"
  po_duplicates :: nat

definition empty_pool :: pool where
  "empty_pool = \<lparr>po_records = [], po_seen = [], po_provenance = [], po_duplicates = 0\<rparr>"

fun items_of :: "suite_unicode \<Rightarrow> adapter \<Rightarrow> row list \<Rightarrow> (source_error, item list) res" where
  "items_of N a [] = Inr []"
| "items_of N a (r # rs) =
     (case item_of N a r of
        Inl e \<Rightarrow> Inl e
      | Inr i \<Rightarrow>
          (case items_of N a rs of
             Inl e \<Rightarrow> Inl e
           | Inr items \<Rightarrow> Inr (case i of None \<Rightarrow> items | Some x \<Rightarrow> x # items)))"

text \<open>\<open>list(spec["fn"](load))\<close>: any exception, of any split, loses the whole source.\<close>

fun load_splits ::
  "suite_unicode \<Rightarrow> (string \<Rightarrow> row list option) \<Rightarrow> (string \<times> adapter) list \<Rightarrow> (source_error, item list) res" where
  "load_splits N load [] = Inr []"
| "load_splits N load ((split, a) # ss) =
     (case load split of
        None \<Rightarrow> Inl Unreachable
      | Some rs \<Rightarrow>
          (case items_of N a rs of
             Inl e \<Rightarrow> Inl e
           | Inr items \<Rightarrow> (case load_splits N load ss of Inl e \<Rightarrow> Inl e | Inr later \<Rightarrow> Inr (items @ later))))"

text \<open>The state of the loop over the rows of one source: the pool, and \<open>kept\<close> and \<open>dup_here\<close>.\<close>

type_synonym row_state = "pool \<times> nat \<times> nat"

definition pool_item :: "suite_unicode \<Rightarrow> (text_points \<Rightarrow> string) \<Rightarrow> string \<Rightarrow> item \<Rightarrow> row_state \<Rightarrow> row_state" where
  "pool_item N sha1 name item st =
     (case (item, st) of
        ((t, label, cls), (p, kept, dup_here)) \<Rightarrow>
          let text = strip_points (sn_unicode N) t; key = normalize_for_dedup N text
          in if length text < 3 then st
             else if key = [] then st
             else if map_of (po_seen p) key \<noteq> None
             then (p\<lparr>po_duplicates := Suc (po_duplicates p)\<rparr>, kept, Suc dup_here)
             else (p\<lparr>po_seen := po_seen p @ [(key, name)],
                     po_records := po_records p @
                       [\<lparr>er_id = take 16 (sha1 key), er_text = text, er_label = label, er_class = cls, er_source = name,
                         er_language = detect_language N text\<rparr>]\<rparr>, Suc kept, dup_here))"

definition sampled_rows :: "(string \<Rightarrow> item list \<Rightarrow> item list) \<Rightarrow> source \<Rightarrow> item list \<Rightarrow> item list" where
  "sampled_rows shuffle s rows =
     (case so_cap s of
        Some cap \<Rightarrow> if cap > 0 \<and> length rows > cap then take cap (shuffle (so_name s) rows) else rows
      | None \<Rightarrow> rows)"

definition pool_source ::
  "suite_unicode \<Rightarrow> (text_points \<Rightarrow> string) \<Rightarrow> (string \<Rightarrow> string \<Rightarrow> row list option) \<Rightarrow> (string \<Rightarrow> item list \<Rightarrow> item list)
   \<Rightarrow> source \<Rightarrow> pool \<Rightarrow> pool" where
  "pool_source N sha1 load shuffle s p =
     (case load_splits N (load (so_name s)) (so_splits s) of
        Inl e \<Rightarrow> p\<lparr>po_provenance := po_provenance p @ [Skipped (so_name s) e]\<rparr>
      | Inr rows \<Rightarrow>
          let sample = sampled_rows shuffle s rows;
              (p1, kept, dup_here) = fold (pool_item N sha1 (so_name s)) sample (p, 0, 0)
          in p1\<lparr>po_provenance := po_provenance p1 @
                  [Pooled (so_name s) (length rows) (length sample) kept dup_here (so_cap s)]\<rparr>)"

definition pool_sources ::
  "suite_unicode \<Rightarrow> (text_points \<Rightarrow> string) \<Rightarrow> (string \<Rightarrow> string \<Rightarrow> row list option) \<Rightarrow> (string \<Rightarrow> item list \<Rightarrow> item list)
   \<Rightarrow> source list \<Rightarrow> pool" where
  "pool_sources N sha1 load shuffle sources = fold (pool_source N sha1 load shuffle) sources empty_pool"

text \<open>The cap on benign rows and the final shuffle; \<open>shuffle_records 0\<close> and \<open>1\<close> are the two calls of the generator.\<close>

definition cap_benign :: "(nat \<Rightarrow> suite_record list \<Rightarrow> suite_record list) \<Rightarrow> nat option \<Rightarrow> suite_record list \<Rightarrow> suite_record list" where
  "cap_benign shuffle_records benign_cap records =
     (case benign_cap of
        None \<Rightarrow> records
      | Some cap \<Rightarrow>
          if cap = 0 then records
          else let benign = filter (\<lambda>r. er_label r = 0) records; attacks = filter (\<lambda>r. er_label r = 1) records
               in attacks @ (if length benign > cap then take cap (shuffle_records 0 benign) else benign))"

definition build ::
  "suite_unicode \<Rightarrow> (text_points \<Rightarrow> string) \<Rightarrow> (string \<Rightarrow> string \<Rightarrow> row list option) \<Rightarrow> (string \<Rightarrow> item list \<Rightarrow> item list)
   \<Rightarrow> (nat \<Rightarrow> suite_record list \<Rightarrow> suite_record list) \<Rightarrow> nat option \<Rightarrow> suite_record list \<times> provenance list \<times> nat" where
  "build N sha1 load shuffle shuffle_records benign_cap =
     (let p = pool_sources N sha1 load shuffle SOURCES
      in (shuffle_records 1 (cap_benign shuffle_records benign_cap (po_records p)), po_provenance p, po_duplicates p))"

text \<open>\<open>summarize\<close>: the tallies of the manifest.\<close>

definition count_up :: "'k \<Rightarrow> ('k \<times> nat) list \<Rightarrow> ('k \<times> nat) list" where
  "count_up k out = od_set k (case map_of out k of None \<Rightarrow> 1 | Some n \<Rightarrow> Suc n) out"

definition tally :: "(suite_record \<Rightarrow> 'k) \<Rightarrow> suite_record list \<Rightarrow> ('k \<times> nat) list" where
  "tally key rs =
     sort_key (\<lambda>kv. - int (snd kv))
       (fold (\<lambda>r. count_up (key r)) rs [])"

definition cross_tally :: "suite_record list \<Rightarrow> (string \<times> (string \<times> nat) list) list" where
  "cross_tally rs =
     fold (\<lambda>r out. od_set (er_class r) (count_up (er_language r) (case map_of out (er_class r) of None \<Rightarrow> [] | Some d \<Rightarrow> d)) out) rs []"

record manifest =
  mf_total :: nat
  mf_attacks :: nat
  mf_benign :: int
  mf_duplicates :: nat
  mf_by_class :: "(string \<times> nat) list"
  mf_by_language :: "(string \<times> nat) list"
  mf_by_source :: "(string \<times> nat) list"
  mf_class_by_language :: "(string \<times> (string \<times> nat) list) list"
  mf_sources :: "provenance list"

definition summarize :: "suite_record list \<Rightarrow> provenance list \<Rightarrow> nat \<Rightarrow> manifest" where
  "summarize rs provenance duplicates =
     (let n_attack = length (filter (\<lambda>r. er_label r = 1) rs)
      in \<lparr>mf_total = length rs, mf_attacks = n_attack, mf_benign = int (length rs) - int n_attack, mf_duplicates = duplicates,
          mf_by_class = tally er_class rs, mf_by_language = tally er_language rs, mf_by_source = tally er_source rs,
          mf_class_by_language = cross_tally rs, mf_sources = provenance\<rparr>)"

section \<open>Lemmas\<close>

text \<open>What every row of the suite satisfies, and the invariant of the pool.\<close>

definition row_ok :: "suite_unicode \<Rightarrow> (text_points \<Rightarrow> string) \<Rightarrow> suite_record \<Rightarrow> bool" where
  "row_ok N sha1 r \<longleftrightarrow>
     (let key = normalize_for_dedup N (er_text r)
      in 3 \<le> length (er_text r) \<and> key \<noteq> [] \<and> er_id r = take 16 (sha1 key) \<and> er_language r = detect_language N (er_text r))"

definition pool_ok :: "suite_unicode \<Rightarrow> (text_points \<Rightarrow> string) \<Rightarrow> pool \<Rightarrow> bool" where
  "pool_ok N sha1 p \<longleftrightarrow>
     map fst (po_seen p) = map (normalize_for_dedup N \<circ> er_text) (po_records p)
     \<and> distinct (map fst (po_seen p)) \<and> list_all (row_ok N sha1) (po_records p)"

lemma pool_ok_provenance: "pool_ok N sha1 (p\<lparr>po_provenance := x\<rparr>) = pool_ok N sha1 p"
  by (simp add: pool_ok_def)

lemma pool_item_ok: "pool_ok N sha1 (fst st) \<Longrightarrow> pool_ok N sha1 (fst (pool_item N sha1 name item st))"
  by (auto simp: pool_item_def pool_ok_def row_ok_def Let_def map_of_eq_None_iff split: prod.split)

lemma pool_item_counts:
  assumes "pool_item N sha1 name item (p, kept, dup) = (p1, kept1, dup1)"
  shows "length (po_records p1) + kept = length (po_records p) + kept1" "po_duplicates p1 + dup = po_duplicates p + dup1"
    "kept1 + dup1 \<le> Suc (kept + dup)" "po_provenance p1 = po_provenance p"
  using assms by (auto simp: pool_item_def Let_def split: prod.splits if_splits)

lemma pool_items_ok: "pool_ok N sha1 (fst st) \<Longrightarrow> pool_ok N sha1 (fst (fold (pool_item N sha1 name) items st))"
  by (induction items arbitrary: st) (simp_all add: pool_item_ok)

lemma pool_items_counts:
  assumes "fold (pool_item N sha1 name) items (p, kept, dup) = (p1, kept1, dup1)"
  shows "length (po_records p1) + kept = length (po_records p) + kept1 \<and> po_duplicates p1 + dup = po_duplicates p + dup1
    \<and> kept1 + dup1 \<le> kept + dup + length items \<and> po_provenance p1 = po_provenance p"
  using assms
proof (induction items arbitrary: p kept dup)
  case (Cons i items)
  obtain p2 kept2 dup2 where step: "pool_item N sha1 name i (p, kept, dup) = (p2, kept2, dup2)"
    by (cases "pool_item N sha1 name i (p, kept, dup)")
  with Cons.prems have "fold (pool_item N sha1 name) items (p2, kept2, dup2) = (p1, kept1, dup1)" by simp
  from Cons.IH [OF this] pool_item_counts [OF step] show ?case by auto
qed simp

fun prov_name :: "provenance \<Rightarrow> string" where
  "prov_name (Skipped n _) = n"
| "prov_name (Pooled n _ _ _ _ _) = n"

fun prov_kept :: "provenance \<Rightarrow> nat" where
  "prov_kept (Skipped _ _) = 0"
| "prov_kept (Pooled _ _ _ k _ _) = k"

fun prov_dups :: "provenance \<Rightarrow> nat" where
  "prov_dups (Skipped _ _) = 0"
| "prov_dups (Pooled _ _ _ _ d _) = d"

fun prov_ok :: "provenance \<Rightarrow> bool" where
  "prov_ok (Skipped _ _) = True"
| "prov_ok (Pooled _ raw sample kept dups cap) \<longleftrightarrow>
     kept + dups \<le> sample \<and> sample \<le> raw \<and> (case cap of Some c \<Rightarrow> if 0 < c then sample \<le> c else True | None \<Rightarrow> True)"

text \<open>The provenance accounts for the pool.\<close>

definition accounted :: "source list \<Rightarrow> pool \<Rightarrow> bool" where
  "accounted sources p \<longleftrightarrow>
     map prov_name (po_provenance p) = map so_name sources \<and> sum_list (map prov_kept (po_provenance p)) = length (po_records p)
     \<and> sum_list (map prov_dups (po_provenance p)) = po_duplicates p \<and> list_all prov_ok (po_provenance p)"

lemma sampled_rows_bounds:
  "length (sampled_rows shuffle s rows) \<le> length rows"
  "so_cap s = Some c \<Longrightarrow> 0 < c \<Longrightarrow> length (sampled_rows shuffle s rows) \<le> c"
  by (auto simp: sampled_rows_def split: option.split)

lemma pool_source_ok: "pool_ok N sha1 p \<Longrightarrow> pool_ok N sha1 (pool_source N sha1 load shuffle s p)"
proof (cases "load_splits N (load (so_name s)) (so_splits s)")
  case (Inr rows)
  assume ok: "pool_ok N sha1 p"
  let ?run = "fold (pool_item N sha1 (so_name s)) (sampled_rows shuffle s rows) (p, 0, 0)"
  obtain p1 k d where run: "?run = (p1, k, d)" by (cases ?run)
  with ok pool_items_ok [of N sha1 "(p, 0, 0)" "so_name s" "sampled_rows shuffle s rows"] have "pool_ok N sha1 p1" by simp
  with Inr run show ?thesis by (simp add: pool_source_def pool_ok_provenance Let_def)
qed (simp add: pool_source_def pool_ok_provenance)

lemma pool_source_accounted:
  assumes "accounted sources p"
  shows "accounted (sources @ [s]) (pool_source N sha1 load shuffle s p)"
proof (cases "load_splits N (load (so_name s)) (so_splits s)")
  case (Inl e)
  with assms show ?thesis by (simp add: pool_source_def accounted_def)
next
  case (Inr rows)
  let ?sample = "sampled_rows shuffle s rows"
  obtain p1 kept dup where run: "fold (pool_item N sha1 (so_name s)) ?sample (p, 0, 0) = (p1, kept, dup)"
    by (cases "fold (pool_item N sha1 (so_name s)) ?sample (p, 0, 0)")
  have "prov_ok (Pooled (so_name s) (length rows) (length ?sample) kept dup (so_cap s))"
    using pool_items_counts [OF run] sampled_rows_bounds [where shuffle = shuffle and s = s and rows = rows] by (auto split: option.split)
  with assms Inr run pool_items_counts [OF run] show ?thesis
    by (auto simp: pool_source_def accounted_def Let_def)
qed

lemma pool_sources_ok: "pool_ok N sha1 (pool_sources N sha1 load shuffle sources) \<and> accounted sources (pool_sources N sha1 load shuffle sources)"
  unfolding pool_sources_def
proof (induction sources rule: rev_induct)
  case Nil
  show ?case by (simp add: pool_ok_def accounted_def empty_pool_def)
next
  case (snoc s sources)
  then show ?case by (simp add: pool_source_ok pool_source_accounted)
qed

text \<open>Capping and shuffling only drop rows.\<close>

lemma cap_benign_subset:
  assumes "\<forall>k xs. mset (shuffle_records k xs) = mset xs"
  shows "mset (shuffle_records 1 (cap_benign shuffle_records cap rs)) \<subseteq># mset rs"
proof -
  have taken: "mset (take n (shuffle_records 0 xs)) \<subseteq># mset xs" for n xs
    using mset_subset_eq_add_left [of "mset (take n (shuffle_records 0 xs))" "mset (drop n (shuffle_records 0 xs))"] assms
    by (simp flip: mset_append)
  have parts: "mset (filter (\<lambda>r. er_label r = 1) rs) + mset (filter (\<lambda>r. er_label r = 0) rs) \<subseteq># mset rs"
    by (induction rs) (auto intro: subset_mset.order_trans)
  have "mset (cap_benign shuffle_records cap rs) \<subseteq># mset rs"
    unfolding cap_benign_def Let_def
    using taken [of _ "filter (\<lambda>r. er_label r = 0) rs"] parts
    by (auto split: option.split intro: subset_mset.order_trans [OF subset_mset.add_left_mono])
  with assms show ?thesis by simp
qed

lemma distinct_subset:
  assumes "mset ys \<subseteq># mset xs" "distinct (map f xs)"
  shows "distinct (map f ys)"
proof -
  from assms(1) obtain zs where "mset xs = mset ys + mset zs"
    by (metis ex_mset subset_mset.add_diff_inverse)
  then have "mset (map f xs) = mset (map f ys @ map f zs)" by simp
  with assms(2) have "distinct (map f ys @ map f zs)" using mset_eq_imp_distinct_iff by blast
  then show ?thesis by simp
qed

section \<open>Properties\<close>

text \<open>Claim C36: every prompt is in the suite once, whatever the sources hold: no two rows have the same normalized text, and each
  row is long enough, has a key, and carries the identifier and the language of its own text. The shuffles are
  permutations.\<close>

theorem suite_has_each_prompt_once:
  "case build N sha1 load shuffle shuffle_records cap of
     (rs, _) \<Rightarrow>
       if \<forall>k xs. mset (shuffle_records k xs) = mset xs
       then distinct (map (normalize_for_dedup N \<circ> er_text) rs) \<and> list_all (row_ok N sha1) rs else True"
proof -
  let ?p = "pool_sources N sha1 load shuffle SOURCES"
  let ?rs = "shuffle_records 1 (cap_benign shuffle_records cap (po_records ?p))"
  have ok: "pool_ok N sha1 ?p" using pool_sources_ok by blast
  have "distinct (map (normalize_for_dedup N \<circ> er_text) ?rs) \<and> list_all (row_ok N sha1) ?rs"
    if perm: "\<forall>k xs. mset (shuffle_records k xs) = mset xs"
  proof -
    have sub: "mset ?rs \<subseteq># mset (po_records ?p)" using perm by (rule cap_benign_subset)
    from ok have d: "distinct (map (normalize_for_dedup N \<circ> er_text) (po_records ?p))" unfolding pool_ok_def by metis
    have "set ?rs \<subseteq> set (po_records ?p)" using set_mset_mono [OF sub] by simp
    with ok distinct_subset [OF sub d] show ?thesis unfolding pool_ok_def list_all_iff by blast
  qed
  then show ?thesis by (simp add: build_def Let_def)
qed

text \<open>The manifest accounts for the suite: every source is listed once, in order, as pooled or as skipped with its reason;
  the rows kept and the duplicates dropped add up to the rows of the suite and the reported duplicates; and no source
  gave more than its cap.\<close>

theorem manifest_accounts_for_the_suite:
  "case build N sha1 load shuffle shuffle_records None of
     (rs, provenance, duplicates) \<Rightarrow>
       map prov_name provenance = map so_name SOURCES \<and> list_all prov_ok provenance
       \<and> sum_list (map prov_dups provenance) = duplicates
       \<and> (if \<forall>k xs. mset (shuffle_records k xs) = mset xs then sum_list (map prov_kept provenance) = length rs else True)"
proof -
  have len: "length (shuffle_records k xs) = length xs" if "\<forall>k xs. mset (shuffle_records k xs) = mset xs" for k xs
    using that mset_eq_length by blast
  have "accounted SOURCES (pool_sources N sha1 load shuffle SOURCES)" using pool_sources_ok by blast
  then show ?thesis by (auto simp: build_def accounted_def cap_benign_def len Let_def)
qed

text \<open>A text without a letter or digit of ASCII has an empty key.\<close>

lemma collapse_all_spaces: "list_all (space_point U) t \<Longrightarrow> list_all (space_point U) (collapse_spaces U t)"
proof (induction U t rule: collapse_spaces.induct)
  case (2 U c cs)
  then have c: "space_point U c" and cs: "list_all (space_point U) cs" by simp_all
  from cs have "list_all (space_point U) (dropWhile (space_point U) cs)"
    unfolding list_all_iff using set_dropWhileD by fast
  with 2 c show ?case by (simp add: blank)
qed simp

lemma strip_all_spaces:
  assumes "list_all (space_point U) t"
  shows "strip_points U t = []"
proof -
  from assms have "dropWhile (space_point U) t = []" by (simp add: list_all_iff)
  then show ?thesis by (simp only: strip_points_def rev.simps dropWhile.simps)
qed

definition foreign :: "suite_unicode \<Rightarrow> text_points \<Rightarrow> bool" where
  "foreign N t \<longleftrightarrow>
     list_all (\<lambda>c. if sn_combining N c then True else \<not> small_letter c \<and> \<not> (48 \<le> c \<and> c \<le> 57)) (sn_nfkd N (un_lower (sn_unicode N) t))"

lemma foreign_key: "foreign N t \<Longrightarrow> normalize_for_dedup N t = []"
  unfolding normalize_for_dedup_def Let_def
  by (rule strip_all_spaces, rule collapse_all_spaces) (auto simp: foreign_def list_all_iff key_point_def split: if_splits)

text \<open>A prompt in another script than Latin, with no digit, normalizes to nothing and is left out without being counted
  as a duplicate or anything else: a source of such prompts adds nothing, and is listed as pooled with none kept.\<close>

theorem other_scripts_vanish:
  "if list_all (\<lambda>(t, _). foreign N (strip_points (sn_unicode N) t)) items
   then fold (pool_item N sha1 name) items (p, 0, 0) = (p, 0, 0) else True"
proof -
  have vanish: "pool_item N sha1 name (t, label, cls) st = st" if "foreign N (strip_points (sn_unicode N) t)" for t label cls st
    using foreign_key [OF that] by (cases st) (simp add: pool_item_def Let_def)
  have "fold (pool_item N sha1 name) items st = st"
    if "list_all (\<lambda>(t, _). foreign N (strip_points (sn_unicode N) t)) items" for st
    using that
  proof (induction items)
    case (Cons i items)
    then show ?case by (cases i) (simp add: vanish)
  qed simp
  then show ?thesis by simp
qed

end
