(* ===== verification/Suite_Scoring.thy ===== *)
theory Suite_Scoring
  imports Risk Evaluation Tools
begin

text \<open>
  scripts/evaluate_suite.py: scoring the rows of the evaluation suite with the deterministic signals or with the fusion
  ensemble, the cache of the scores, the refresh of cached rows, and the report. A row is the dictionary of its JSON
  line; the rows of the suite have a text and an identifier that are strings. The pipeline is that of core/risk.py.
  Threads only change the order of the work, not of the rows. The tables per slice are left out: they apply
  \<open>evaluate_by\<close>.
\<close>

section \<open>Scoring a row\<close>

type_synonym signal_row = "(string \<times> json) list"

definition with_fields :: "(string \<times> json) list \<Rightarrow> signal_row \<Rightarrow> signal_row" where
  "with_fields kvs r = fold (\<lambda>(k, v). od_set k v) kvs r"

definition string_field :: "string \<Rightarrow> signal_row \<Rightarrow> string" where
  "string_field k r = (case map_of r k of Some (JStr s) \<Rightarrow> s | _ \<Rightarrow> [])"

abbreviation row_id :: "signal_row \<Rightarrow> string" where
  "row_id \<equiv> string_field ''id''"

definition score_row_deterministic :: "'v risk_env \<Rightarrow> signal_row \<Rightarrow> signal_row" where
  "score_row_deterministic E r =
     (let prompt = string_field ''text'' r; symbolic = hard_ban_triggered E prompt \<noteq> None; v = re_embed E prompt;
          threat = re_threat_sim E v; meta = check_meta_intent E v
      in with_fields [(''symbolic'', JBool symbolic), (''threat_score'', JFloat threat), (''meta_intent_score'', JFloat meta),
                      (''score'', JFloat (if symbolic then 1 else max threat meta))] r)"

definition optional_score :: "real option \<Rightarrow> json" where
  "optional_score s = (case s of None \<Rightarrow> JNull | Some x \<Rightarrow> JFloat x)"

definition score_row_fusion :: "'v risk_env \<Rightarrow> signal_row \<Rightarrow> signal_row" where
  "score_row_fusion E r =
     (let prompt = string_field ''text'' r; v = re_embed E prompt;
          threat = re_threat_sim E v; meta = check_meta_intent E v;
          detector_signals = (\<lambda>b. [(''symbolic'', JBool b), (''threat_score'', JFloat threat), (''meta_intent_score'', JFloat meta)])
      in if hard_ban_triggered E prompt \<noteq> None
         then with_fields (detector_signals True @
                [(''fusion_available'', JBool False), (''fusion_score'', JNull),
                 (''fusion_detail'', JStr ''symbolic veto (fusion skipped)''), (''detector_scores'', JObj []), (''score'', JFloat 1)]) r
         else let f = re_fuse E prompt threat
              in with_fields (detector_signals False @
                   [(''fusion_available'', JBool (fr_available f)), (''fusion_score'', optional_score (fr_score f)),
                    (''fusion_detail'', JStr (fr_detail f)),
                    (''detector_scores'', JObj (map (\<lambda>(k, x). (k, JFloat x)) (fr_detector_scores f))),
                    (''score'', JFloat (case (fr_available f, fr_score f) of (True, Some s) \<Rightarrow> s | _ \<Rightarrow> max threat meta))]) r)"

section \<open>The cache of scores\<close>

definition by_id :: "signal_row list \<Rightarrow> (string \<times> signal_row) list" where
  "by_id rows = fold (\<lambda>r. od_set (row_id r) r) rows []"

text \<open>\<open>extract_signals\<close>: the rows it returns and the cache file it leaves.\<close>

definition extract_signals ::
  "(signal_row \<Rightarrow> signal_row) \<Rightarrow> bool \<Rightarrow> signal_row list option \<Rightarrow> signal_row list \<Rightarrow> signal_row list \<times> signal_row list option" where
  "extract_signals score_row refresh file records =
     (let recompute = (let scored = map score_row records in (scored, Some scored))
      in case file of
           None \<Rightarrow> recompute
         | Some rows \<Rightarrow>
             let cached = by_id rows
             in if \<not> refresh \<and> list_all (\<lambda>r. map_of cached (row_id r) \<noteq> None) records
                then (map (\<lambda>r. the (map_of cached (row_id r))) records, file)
                else recompute)"

section \<open>Refreshing the detector scores\<close>

datatype refresh_error = NoUpgradeTier | MissingFeature string | NotANumber

text \<open>The cached fusion rows; a deterministic row is laid over one that is missing or has no threat score.\<close>

definition merge_deterministic :: "signal_row list \<Rightarrow> (string \<times> signal_row) list \<Rightarrow> (string \<times> signal_row) list" where
  "merge_deterministic rows cached =
     fold (\<lambda>row c.
             case map_of c (row_id row) of
               None \<Rightarrow> od_set (row_id row) row c
             | Some old \<Rightarrow> if truthy (jget old ''threat_score'') then c else od_set (row_id row) (with_fields row old) c)
       rows cached"

text \<open>\<open>_policy.get("upgrade_tiers", [_policy])[0]\<close>, where loading has always set the list; no policy is an empty tier.\<close>

definition refresh_tier :: "fusion_policy option \<Rightarrow> (refresh_error, tier option) res" where
  "refresh_tier p =
     (case p of
        None \<Rightarrow> Inr None
      | Some p \<Rightarrow> (case fp_upgrades p of [] \<Rightarrow> Inl NoUpgradeTier | t # _ \<Rightarrow> Inr (Some t)))"

definition cached_scores :: "(string \<Rightarrow> (string \<times> real) list option) \<Rightarrow> tier option \<Rightarrow> string \<Rightarrow> (string \<times> real) list" where
  "cached_scores files t i =
     List.map_filter
       (\<lambda>n. case files n of None \<Rightarrow> None | Some scores \<Rightarrow> map_option (\<lambda>x. (n, x)) (map_of scores i))
       (case t of None \<Rightarrow> [] | Some t \<Rightarrow> tier_required_features t)"

text \<open>The features that scoring a class asks for.\<close>

definition features_asked :: "string list \<Rightarrow> class_policy \<Rightarrow> string list" where
  "features_asked order pol =
     map fst (zip order (zip (cp_mean pol) (zip (cp_scale pol) (cp_coefs pol))))"

definition refresh_row ::
  "(string \<Rightarrow> (string \<times> real) list option) \<Rightarrow> tier option \<Rightarrow> string \<Rightarrow> signal_row \<Rightarrow> (refresh_error, signal_row) res" where
  "refresh_row files t i row =
     (if truthy (jget row ''symbolic'')
      then Inr (with_fields [(''detector_scores'', JObj []), (''fusion_available'', JBool False), (''fusion_score'', JNull),
                             (''fusion_detail'', JStr ''symbolic veto (fusion skipped)''), (''score'', JFloat 1)] row)
      else
        let anchors = jget_default row ''threat_score'' (JFloat 0);
            found = cached_scores files t i;
            row1 = with_fields [(''detector_scores'', JObj ((''anchors'', anchors) # map (\<lambda>(k, x). (k, JFloat x)) found))] row
        in case t of
             None \<Rightarrow> Inr row1
           | Some t \<Rightarrow>
               if ti_per_class t = [] then Inr row1
               else (case num_of anchors of
                       None \<Rightarrow> Inl NotANumber
                     | Some a \<Rightarrow>
                         let fv = map_of ((''anchors'', a) # found)
                         in case find (\<lambda>n. fv n = None) (concat (map (\<lambda>(_, pol). features_asked (ti_features t) pol) (ti_per_class t))) of
                              Some n \<Rightarrow> Inl (MissingFeature n)
                            | None \<Rightarrow>
                                (case select_per_class_verdict fv t of
                                   None \<Rightarrow> Inr row1
                                 | Some ((winner, w), _) \<Rightarrow>
                                     Inr (with_fields
                                       [(''fusion_available'', JBool True), (''fusion_score'', JFloat (cr_score w)),
                                        (''fusion_detail'', JStr (''fusion applied (per-class, triggered by '' @ winner @ '', tier='' @ ti_id t @ '')'')),
                                        (''score'', JFloat (cr_score w))] row1))))"

fun refresh_rows ::
  "(string \<Rightarrow> (string \<times> real) list option) \<Rightarrow> tier option \<Rightarrow> (string \<times> signal_row) list \<Rightarrow> signal_row list
   \<Rightarrow> (refresh_error, signal_row list) res" where
  "refresh_rows files t cached [] = Inr []"
| "refresh_rows files t cached (r # rs) =
     (case refresh_row files t (row_id r) (case map_of cached (row_id r) of None \<Rightarrow> r | Some row \<Rightarrow> row) of
        Inl e \<Rightarrow> Inl e
      | Inr row \<Rightarrow> (case refresh_rows files t cached rs of Inl e \<Rightarrow> Inl e | Inr rows \<Rightarrow> Inr (row # rows)))"

definition refresh_features ::
  "(string \<Rightarrow> (string \<times> real) list option) \<Rightarrow> fusion_policy option \<Rightarrow> signal_row list option \<Rightarrow> signal_row list option
   \<Rightarrow> signal_row list \<Rightarrow> (refresh_error, signal_row list) res" where
  "refresh_features files p fusion_file det_file records =
     (let rows_of = (\<lambda>f. case f of None \<Rightarrow> [] | Some rows \<Rightarrow> rows);
          cached = merge_deterministic (rows_of det_file) (by_id (rows_of fusion_file))
      in case refresh_tier p of Inl e \<Rightarrow> Inl e | Inr t \<Rightarrow> refresh_rows files t cached records)"

section \<open>The report\<close>

datatype report_error = MissingScore | MissingAuc

record suite_report =
  rp_overall :: slice
  rp_threshold :: "real option option"
  rp_detected :: "(string \<times> nat \<times> nat) list"
  rp_false_alarms :: "nat \<times> nat"
  rp_unavailable :: nat

definition ATTACK_CLASSES :: "string list" where
  "ATTACK_CLASSES = [''prompt_injection'', ''jailbreak'', ''harmful_content'']"

definition row_score :: "signal_row \<Rightarrow> real option" where
  "row_score r = (case map_of r ''score'' of None \<Rightarrow> None | Some v \<Rightarrow> num_of v)"

definition row_attack :: "signal_row \<Rightarrow> bool" where
  "row_attack r = truthy (jget r ''label'')"

text \<open>\<open>score >= global_threshold\<close>, where the threshold may be infinite or not a number.\<close>

definition flagged :: "real option option \<Rightarrow> signal_row \<Rightarrow> bool" where
  "flagged threshold r =
     (case (threshold, row_score r) of (Some (Some t), Some s) \<Rightarrow> t \<le> s | _ \<Rightarrow> False)"

definition detected :: "real option option \<Rightarrow> signal_row list \<Rightarrow> (string \<times> nat \<times> nat) list" where
  "detected threshold rows =
     List.map_filter
       (\<lambda>cls. let rs = filter (\<lambda>r. string_field ''attack_class'' r = cls) rows
              in if rs = [] then None else Some (cls, length (filter (flagged threshold) rs), length rs))
       ATTACK_CLASSES"

definition evaluate_suite :: "nat list list \<Rightarrow> real \<Rightarrow> signal_row list \<Rightarrow> (report_error, suite_report) res" where
  "evaluate_suite draws budget rows =
     (if list_ex (\<lambda>r. row_score r = None) rows then Inl MissingScore
      else
        let scores = map (\<lambda>r. the (row_score r)) rows; labels = map row_attack rows;
            overall = evaluate_slice draws budget None scores labels;
            threshold = threshold_at_fpr scores labels budget;
            benign = filter (\<lambda>r. py_eq (jget r ''label'') (JInt 0)) rows
        in if \<not> evaluable overall then Inl MissingAuc
           else Inr \<lparr>rp_overall = overall, rp_threshold = threshold, rp_detected = detected threshold rows,
                     rp_false_alarms = (length (filter (flagged threshold) benign), length benign),
                     rp_unavailable = length (filter (\<lambda>r. \<not> truthy (jget r ''symbolic'')
                       \<and> map_of r ''fusion_available'' = Some (JBool False)) rows)\<rparr>)"

section \<open>Lemmas\<close>

lemma with_fields_simps [simp]:
  "with_fields [] r = r" "with_fields ((k, v) # kvs) r = with_fields kvs (od_set k v r)"
  by (simp_all add: with_fields_def)

lemma string_field_cong: "map_of r k = map_of r' k \<Longrightarrow> string_field k r = string_field k r'"
  by (simp add: string_field_def)

lemma map_of_with_fields: "k \<notin> fst ` set kvs \<Longrightarrow> map_of (with_fields kvs r) k = map_of r k"
  by (induction kvs arbitrary: r) (auto simp: map_of_od_set)

lemma score_row_id: "row_id (score_row_deterministic E r) = row_id r" "row_id (score_row_fusion E r) = row_id r"
  by (rule string_field_cong,
      auto simp: score_row_deterministic_def score_row_fusion_def Let_def map_of_with_fields map_of_od_set)+

lemma by_id_snoc: "by_id (rows @ [r]) = od_set (row_id r) r (by_id rows)"
  by (simp add: by_id_def)

lemma by_id_row: "map_of (by_id rows) i = Some r \<Longrightarrow> row_id r = i"
proof (induction rows rule: rev_induct)
  case Nil
  then show ?case by (simp add: by_id_def)
next
  case (snoc x rows)
  then show ?case by (auto simp: by_id_snoc map_of_od_set split: if_splits)
qed

lemma by_id_distinct: "distinct (map row_id rows) \<Longrightarrow> r \<in> set rows \<Longrightarrow> map_of (by_id rows) (row_id r) = Some r"
proof (induction rows rule: rev_induct)
  case (snoc x rows)
  then show ?case by (auto simp: by_id_snoc map_of_od_set) (metis image_eqI)
qed simp

lemma extract_hit:
  "list_all (\<lambda>r. map_of (by_id rows) (row_id r) \<noteq> None) records \<Longrightarrow>
   extract_signals score_row False (Some rows) records = (map (\<lambda>r. the (map_of (by_id rows) (row_id r))) records, Some rows)"
  by (simp add: extract_signals_def)

text \<open>A row of the suite: an attack of one of the classes, or benign.\<close>

definition labelled :: "signal_row \<Rightarrow> bool" where
  "labelled r \<longleftrightarrow>
     jget r ''label'' = (if string_field ''attack_class'' r \<in> set ATTACK_CLASSES then JInt 1 else JInt 0)"

lemma zip_rows: "zip (map f xs) (map g xs) = map (\<lambda>x. (f x, g x)) xs"
  by (induction xs) simp_all

lemma sum_detected:
  "sum_list (map (\<lambda>(_, hits, _). hits) (detected thr rows))
   = length (filter (\<lambda>r. flagged thr r \<and> string_field ''attack_class'' r \<in> set ATTACK_CLASSES) rows)"
proof -
  let ?h = "\<lambda>cls. length (filter (flagged thr) (filter (\<lambda>r. string_field ''attack_class'' r = cls) rows))"
  have "sum_list (map (\<lambda>(_, hits, _). hits) (List.map_filter
          (\<lambda>cls. let rs = filter (\<lambda>r. string_field ''attack_class'' r = cls) rows
                 in if rs = [] then None else Some (cls, length (filter (flagged thr) rs), length rs)) cs))
      = sum_list (map ?h cs)" for cs
    by (induction cs) (auto simp: List.map_filter_simps Let_def filter_empty_conv)
  moreover have "sum_list (map ?h ATTACK_CLASSES)
      = length (filter (\<lambda>r. flagged thr r \<and> string_field ''attack_class'' r \<in> set ATTACK_CLASSES) rows)"
    by (induction rows) (auto simp: ATTACK_CLASSES_def)
  ultimately show ?thesis by (simp add: detected_def)
qed

lemma report_confusion:
  assumes "sl_confusion (evaluate_slice draws budget None scores labels) = Some cm"
  obtains t where "threshold_at_fpr scores labels budget = Some (Some t)" "cm = confusion scores labels t"
  using assms by (auto simp: evaluate_slice_def finite_threshold_def Let_def split: if_splits option.splits)

section \<open>Properties\<close>

text \<open>The score that is evaluated is the score that decides in the gateway: of a row that no symbolic rule vetoes, with the
  ensemble available, it is the fused score that the risk pipeline compares with its thresholds; without the ensemble it
  is the greater of the two signals of the fast path; a vetoed row has the score 1.\<close>

theorem evaluated_score_decides:
  "let prompt = string_field ''text'' r; s = collect_semantic_signals E prompt (re_embed E prompt) None
   in map_of (score_row_fusion E r) ''score'' =
        Some (JFloat (if hard_ban_triggered E prompt \<noteq> None then 1
                      else if fr_available (si_fusion s) \<and> fr_score (si_fusion s) \<noteq> None then fst (deciding_score E s)
                      else max (si_threat s) (si_meta s)))"
  by (auto simp: score_row_fusion_def collect_semantic_signals_def deciding_score_def fast_path_signals_def Let_def
      map_of_od_set split: option.split bool.split)

text \<open>Scoring once is enough: a second run over the same suite without a refresh reads back, from the cache the first run
  left, the same rows in the same order, whether they were scored now or before, and whatever the models have become.\<close>

theorem scores_are_read_back:
  "case extract_signals (if fusion then score_row_fusion E else score_row_deterministic E) refresh cache records of
     (rows, cache') \<Rightarrow>
       if distinct (map row_id records)
       then map row_id rows = map row_id records \<and> extract_signals score_row' False cache' records = (rows, cache')
       else True"
proof -
  let ?score = "if fusion then score_row_fusion E else score_row_deterministic E"
  have ids: "row_id (?score r) = row_id r" for r by (simp add: score_row_id)
  show ?thesis
  proof (cases "\<exists>rows. cache = Some rows \<and> \<not> refresh \<and> list_all (\<lambda>r. map_of (by_id rows) (row_id r) \<noteq> None) records")
    case True
    then obtain rows where cache: "cache = Some rows" and hit: "\<not> refresh" "list_all (\<lambda>r. map_of (by_id rows) (row_id r) \<noteq> None) records"
      by blast
    have "row_id (the (map_of (by_id rows) (row_id r))) = row_id r" if "r \<in> set records" for r
      using hit(2) that by_id_row by (fastforce simp: list_all_iff)
    then have "map row_id (map (\<lambda>r. the (map_of (by_id rows) (row_id r))) records) = map row_id records" by simp
    with cache hit extract_hit [OF hit(2)] show ?thesis by simp
  next
    case False
    then have new: "extract_signals ?score refresh cache records = (map ?score records, Some (map ?score records))"
      by (auto simp: extract_signals_def Let_def split: option.split)
    have kept: "map_of (by_id (map ?score records)) (row_id r) = Some (?score r)"
      if "distinct (map row_id records)" "r \<in> set records" for r
    proof -
      have "distinct (map row_id (map ?score records))" using that(1) by (simp add: comp_def ids del: if_split)
      from by_id_distinct [OF this, of "?score r"] that(2) show ?thesis by (simp add: ids del: if_split)
    qed
    show ?thesis unfolding new
      by (auto simp: extract_signals_def Let_def list_all_iff kept comp_def ids)
  qed
qed

text \<open>A cached row is evaluated with the label and the class it was cached with: of the suite only the identifiers are
  read, so a suite rebuilt with other labels for the same prompts gives the old report.\<close>

theorem cached_labels_are_evaluated:
  "case cache of
     None \<Rightarrow> True
   | Some rows \<Rightarrow>
       if map row_id records = map row_id records' \<and> list_all (\<lambda>r. map_of (by_id rows) (row_id r) \<noteq> None) records
       then extract_signals score_row False cache records = extract_signals score_row False cache records' else True"
proof (cases cache)
  case (Some rows)
  have "extract_signals score_row False cache records = extract_signals score_row False cache records'"
    if ids: "map row_id records = map row_id records'" and hit: "list_all (\<lambda>r. map_of (by_id rows) (row_id r) \<noteq> None) records"
  proof -
    from ids have "row_id ` set records = row_id ` set records'" by (metis list.set_map)
    with hit have hit': "list_all (\<lambda>r. map_of (by_id rows) (row_id r) \<noteq> None) records'"
      unfolding list_all_iff by (metis (no_types, lifting) image_iff)
    have "map (\<lambda>i. the (map_of (by_id rows) i)) (map row_id records) = map (\<lambda>i. the (map_of (by_id rows) i)) (map row_id records')"
      unfolding ids ..
    then have "map (\<lambda>r. the (map_of (by_id rows) (row_id r))) records = map (\<lambda>r. the (map_of (by_id rows) (row_id r))) records'"
      by (simp add: comp_def)
    then show ?thesis unfolding Some extract_hit [OF hit] extract_hit [OF hit'] by (rule arg_cong)
  qed
  then show ?thesis unfolding Some option.case by (simp only: if_True split: if_split) blast
qed simp

text \<open>Where no class policy decides, refreshing replaces the detector scores of a row and keeps the score of before.\<close>

theorem refresh_keeps_the_old_score:
  "if \<not> truthy (jget row ''symbolic'') \<and> (case t of None \<Rightarrow> True | Some t \<Rightarrow> ti_per_class t = [])
   then (case refresh_row files t i row of
           Inr row' \<Rightarrow> map_of row' ''score'' = map_of row ''score'' \<and> map_of row' ''fusion_score'' = map_of row ''fusion_score''
         | Inl _ \<Rightarrow> False)
   else True"
  by (auto simp: refresh_row_def map_of_od_set Let_def split: option.split)

text \<open>A policy without upgrade tiers stops the refresh: loading always sets the list, so the default of the lookup, the
  floor tier, is never taken.\<close>

theorem refresh_needs_an_upgrade_tier:
  "fp_upgrades p = [] \<Longrightarrow> refresh_features files (Some p) fusion_file det_file records = Inl NoUpgradeTier"
  by (simp add: refresh_features_def refresh_tier_def Let_def)

text \<open>A suite of one class has no report: the evaluation of a slice allows for it, the printing of the report does not.\<close>

theorem single_class_suite_has_no_report:
  "if list_all row_attack rows \<or> list_all (\<lambda>r. \<not> row_attack r) rows
   then (case evaluate_suite draws budget rows of Inl _ \<Rightarrow> True | Inr _ \<Rightarrow> False) else True"
proof -
  have "\<not> evaluable (evaluate_slice draws budget None scores (map row_attack rows))"
    if "list_all row_attack rows \<or> list_all (\<lambda>r. \<not> row_attack r) rows" for scores
    using that by (auto simp: evaluable_def evaluate_slice_def Let_def list_all_iff)
  then show ?thesis by (auto simp: evaluate_suite_def Let_def)
qed

text \<open>The two parts of a report agree: the attacks detected per class add up to the true positives of the overall
  confusion matrix, and the false alarms are its false positives, out of all benign rows.\<close>

theorem report_counts_agree:
  "case evaluate_suite draws budget rows of
     Inl _ \<Rightarrow> True
   | Inr rep \<Rightarrow>
       (case sl_confusion (rp_overall rep) of
          None \<Rightarrow> True
        | Some cm \<Rightarrow>
            if list_all labelled rows
            then sum_list (map (\<lambda>(_, hits, _). hits) (rp_detected rep)) = cm_tp cm
                 \<and> rp_false_alarms rep = (cm_fp cm, sl_benign (rp_overall rep))
            else True)"
proof (cases "evaluate_suite draws budget rows")
  case (Inr rep)
  let ?scores = "map (\<lambda>r. the (row_score r)) rows" and ?labels = "map row_attack rows"
  let ?overall = "evaluate_slice draws budget None ?scores ?labels" and ?thr = "threshold_at_fpr ?scores ?labels budget"
  let ?benign = "filter (\<lambda>r. py_eq (jget r ''label'') (JInt 0)) rows"
  from Inr have scored: "\<forall>r \<in> set rows. row_score r \<noteq> None" and
    rep: "rp_overall rep = ?overall" "rp_detected rep = detected ?thr rows"
      "rp_false_alarms rep = (length (filter (flagged ?thr) ?benign), length ?benign)"
    by (auto simp: evaluate_suite_def Let_def list_ex_iff split: if_splits)
  have "sum_list (map (\<lambda>(_, hits, _). hits) (rp_detected rep)) = cm_tp cm
        \<and> rp_false_alarms rep = (cm_fp cm, sl_benign (rp_overall rep))"
    if cm: "sl_confusion (rp_overall rep) = Some cm" and lab: "list_all labelled rows" for cm
  proof -
    from cm [unfolded rep(1)] obtain t where t: "?thr = Some (Some t)" "cm = confusion ?scores ?labels t" by (rule report_confusion)
    have flag: "flagged ?thr r \<longleftrightarrow> t \<le> the (row_score r)" if "r \<in> set rows" for r
      using scored that by (auto simp: flagged_def t(1) split: option.splits)
    have attack: "row_attack r \<longleftrightarrow> string_field ''attack_class'' r \<in> set ATTACK_CLASSES"
      and benign: "py_eq (jget r ''label'') (JInt 0) \<longleftrightarrow> \<not> row_attack r" if "r \<in> set rows" for r
      using lab that by (auto simp: list_all_iff labelled_def row_attack_def py_eq_def split: if_splits)
    have tp: "cm_tp cm = length (filter (\<lambda>r. flagged ?thr r \<and> string_field ''attack_class'' r \<in> set ATTACK_CLASSES) rows)"
      unfolding t(2) confusion_def confusion_counts zip_rows using flag attack
      by (auto simp: positives_def negatives_def comp_def filter_map intro!: arg_cong [where f = length] filter_cong)
    have fp: "cm_fp cm = length (filter (flagged ?thr) ?benign)"
      unfolding t(2) confusion_def confusion_counts zip_rows using flag benign
      by (auto simp: positives_def negatives_def comp_def filter_map intro!: arg_cong [where f = length] filter_cong)
    have "sl_benign ?overall = length ?labels - length (filter id ?labels)"
      unfolding evaluate_slice_def Let_def by (simp split: option.split)
    also have "\<dots> = length (filter (\<lambda>r. \<not> row_attack r) rows)"
      using sum_length_filter_compl [of row_attack rows] by (simp add: filter_map comp_def)
    also have "\<dots> = length ?benign" using benign by (intro arg_cong [where f = length] filter_cong) auto
    finally have "sl_benign ?overall = length ?benign" .
    with tp fp rep show ?thesis by (simp add: sum_detected)
  qed
  with Inr show ?thesis by (auto split: option.split)
qed simp

end
