(* ===== verification/Live_Redis.thy ===== *)
theory Live_Redis
  imports Rate_Limit Token_Quota Cache
begin

text \<open>
  scripts/live_redis_verification.py: the script that runs the shared rate limiter, quota tracker and exact cache against a
  running Redis, over the models of these parts. The server is the parameter it is there, with one operation more, the time
  that passes between two commands. A call that threads make at once is one of a sequence, in the order in which the server
  takes them. No time passes for the server in the sections of the quota and the cache, whose keys expire long after their
  last use. Printing is left out, and the text of the details.
\<close>

section \<open>The setting\<close>

record live_result =
  lv_test :: string
  lv_passed :: bool

text \<open>What a call meets: the time since the call before, whether the server answers, the clocks of the client.\<close>

record moment =
  mo_delay :: real
  mo_fault :: fault
  mo_clock :: real
  mo_day :: string
  mo_second :: real

record ('s, 'v, 'e) live_env =
  lr_redis :: "'s redis"
  lr_wait :: "real \<Rightarrow> 's \<Rightarrow> 's"
  lr_entries :: "('v, 'e) entry_server"
  lr_reachable :: "string \<Rightarrow> bool"
  lr_url :: "string option"
  lr_ping :: bool
  lr_value :: "'v entry"

record ('s, 'e) live_state =
  ls_module :: redis_module
  ls_server :: 's
  ls_entries :: 'e

definition live_record :: "string \<Rightarrow> bool \<Rightarrow> live_result" where
  "live_record name passed = \<lparr>lv_test = name, lv_passed = passed\<rparr>"

text \<open>\<open>get_redis_client()\<close>, which every builder calls.\<close>

definition connect :: "('s, 'v, 'e) live_env \<Rightarrow> ('s, 'e) live_state \<Rightarrow> string option \<times> ('s, 'e) live_state" where
  "connect E st =
     (let (c, m) = get_redis_client (lr_reachable E) None (lr_url E) (ls_module st) in (c, st\<lparr>ls_module := m\<rparr>))"

definition test_real_connection_and_pool_sharing ::
  "('s, 'v, 'e) live_env \<Rightarrow> ('s, 'e) live_state \<Rightarrow> bool \<times> live_result list \<times> ('s, 'e) live_state" where
  "test_real_connection_and_pool_sharing E st =
     (let (client, st1) = connect E (st\<lparr>ls_module := reset_redis_client (ls_module st)\<rparr>);
          obtained = live_record ''real_redis_client_obtained'' (client \<noteq> None)
      in if client = None then (False, [obtained], st1)
         else
           let (cache, st2) = connect E st1; (limiter_a, st3) = connect E st2; (limiter_b, st4) = connect E st3;
               (quota, st5) = connect E st4
           in (True,
               [obtained, live_record ''real_redis_ping_succeeds'' (lr_ping E),
                live_record ''all_four_subsystems_share_one_real_client''
                  (cache = client \<and> limiter_a = client \<and> limiter_b = client \<and> quota = client)], st5))"

section \<open>The rate limiter\<close>

definition limiter_check ::
  "('s, 'v, 'e) live_env \<Rightarrow> string \<Rightarrow> real \<Rightarrow> real \<Rightarrow> moment \<Rightarrow> rate_backend_impl \<Rightarrow> 's \<Rightarrow> (bool \<times> real) \<times> rate_backend_impl \<times> 's" where
  "limiter_check E identity cap rate m limiter s =
     (let s1 = lr_wait E (mo_delay m) s
      in case limiter of
           LocalBackend l \<Rightarrow> let (r, l1) = local_check identity cap rate (mo_clock m) l in (r, LocalBackend l1, s1)
         | RedisBackend rr \<Rightarrow>
             let (r, rr1, s2) = redis_check (lr_redis E) (mo_fault m) identity cap rate None (mo_clock m) rr s1
             in (r, RedisBackend rr1, s2))"

fun limiter_checks ::
  "('s, 'v, 'e) live_env \<Rightarrow> string \<Rightarrow> real \<Rightarrow> real \<Rightarrow> moment list \<Rightarrow> rate_backend_impl \<Rightarrow> 's
   \<Rightarrow> (bool \<times> real) list \<times> rate_backend_impl \<times> 's" where
  "limiter_checks E identity cap rate [] limiter s = ([], limiter, s)"
| "limiter_checks E identity cap rate (m # ms) limiter s =
     (let (r, l1, s1) = limiter_check E identity cap rate m limiter s;
          (rs, l2, s2) = limiter_checks E identity cap rate ms l1 s1
      in (r # rs, l2, s2))"

definition limiter_reset :: "'s redis \<Rightarrow> rate_backend_impl \<Rightarrow> 's \<Rightarrow> rate_backend_impl \<times> 's" where
  "limiter_reset R limiter s =
     (case limiter of
        LocalBackend l \<Rightarrow> (LocalBackend (local_reset l), s)
      | RedisBackend rr \<Rightarrow> let (rr1, s1) = redis_limiter_reset R None rr s in (RedisBackend rr1, s1))"

definition MAX_TRACKED :: nat where "MAX_TRACKED = 10000"

definition test_rate_limiter_real_token_bucket_math ::
  "('s, 'v, 'e) live_env \<Rightarrow> (nat \<Rightarrow> moment) \<Rightarrow> ('s, 'e) live_state \<Rightarrow> live_result list \<times> ('s, 'e) live_state" where
  "test_rate_limiter_real_token_bucket_math E ms st =
     (let (client, st1) = connect E st;
          (l0, s0) = limiter_reset (lr_redis E) (build_rate_limiter ''verify-bucket'' False client MAX_TRACKED) (ls_server st1);
          (outcomes, l1, s1) = limiter_checks E ''live-verify-user'' 3 1 [ms 0, ms 1, ms 2] l0 s0;
          ((allowed, retry_after), l2, s2) = limiter_check E ''live-verify-user'' 3 1 (ms 3) l1 s1;
          ((allowed2, retry2), l3, s3) =
            limiter_check E ''live-verify-user'' 3 1 ((ms 4)\<lparr>mo_delay := mo_delay (ms 4) + 11 / 10\<rparr>) l2 s2;
          (l4, s4) = limiter_reset (lr_redis E) l3 s3
      in ([live_record ''real_redis_burst_of_capacity_all_allowed'' (list_all fst outcomes),
           live_record ''real_redis_over_capacity_denied'' (\<not> allowed),
           live_record ''real_redis_retry_after_is_positive'' (retry_after > 0),
           live_record ''real_redis_refill_after_real_wait_allows_again'' allowed2], st1\<lparr>ls_server := s4\<rparr>))"

definition test_rate_limiter_real_concurrent ::
  "('s, 'v, 'e) live_env \<Rightarrow> (nat \<Rightarrow> moment) \<Rightarrow> ('s, 'e) live_state \<Rightarrow> live_result list \<times> ('s, 'e) live_state" where
  "test_rate_limiter_real_concurrent E ms st =
     (let (client, st1) = connect E st;
          (l0, s0) = limiter_reset (lr_redis E) (build_rate_limiter ''verify-concurrent'' False client MAX_TRACKED) (ls_server st1);
          (outcomes, l1, s1) = limiter_checks E ''concurrent-user'' 50 (1 / 1000) (map ms [0..<200]) l0 s0;
          allowed_count = length (filter fst outcomes);
          (l2, s2) = limiter_reset (lr_redis E) l1 s1
      in ([live_record ''real_redis_concurrent_access_never_overspends_capacity'' (allowed_count = 50)], st1\<lparr>ls_server := s2\<rparr>))"

section \<open>The quota\<close>

fun quota_records ::
  "('s, 'v, 'e) live_env \<Rightarrow> string \<Rightarrow> real \<Rightarrow> moment list \<Rightarrow> quota_backend_impl \<Rightarrow> 's \<Rightarrow> quota_backend_impl \<times> 's" where
  "quota_records E tenant tokens [] tracker s = (tracker, s)"
| "quota_records E tenant tokens (m # ms) tracker s =
     (case tracker of
        LocalQuota q \<Rightarrow> quota_records E tenant tokens ms (LocalQuota (quota_record tenant tokens (mo_day m) q)) s
      | RedisQuota q \<Rightarrow>
          let (q1, s1) = redis_record (lr_redis E) (mo_fault m) tenant tokens (mo_day m) (mo_second m) q s
          in quota_records E tenant tokens ms (RedisQuota q1) s1)"

definition tracker_usage :: "('s, 'v, 'e) live_env \<Rightarrow> string \<Rightarrow> moment \<Rightarrow> quota_backend_impl \<Rightarrow> 's \<Rightarrow> real \<times> quota_backend_impl \<times> 's" where
  "tracker_usage E tenant m tracker s =
     (case tracker of
        LocalQuota q \<Rightarrow> let (u, q1) = usage_today tenant (mo_day m) q in (u, LocalQuota q1, s)
      | RedisQuota q \<Rightarrow> let (u, q1, s1) = redis_usage_today (lr_redis E) (mo_fault m) tenant (mo_day m) q s in (u, RedisQuota q1, s1))"

definition tracker_reset :: "'s redis \<Rightarrow> quota_backend_impl \<Rightarrow> 's \<Rightarrow> quota_backend_impl \<times> 's" where
  "tracker_reset R tracker s =
     (case tracker of
        LocalQuota q \<Rightarrow> (LocalQuota (Token_Quota.quota_reset q), s)
      | RedisQuota q \<Rightarrow> let (q1, s1) = redis_quota_reset R None q s in (RedisQuota q1, s1))"

definition test_token_quota_real_atomic_increment ::
  "('s, 'v, 'e) live_env \<Rightarrow> (nat \<Rightarrow> moment) \<Rightarrow> ('s, 'e) live_state \<Rightarrow> live_result list \<times> ('s, 'e) live_state" where
  "test_token_quota_real_atomic_increment E ms st =
     (let (client, st1) = connect E st;
          (q0, s0) = tracker_reset (lr_redis E) (build_token_quota_tracker False client MAX_TRACKED) (ls_server st1);
          (q1, s1) = quota_records E ''live-verify-tenant'' 10 (map ms [0..<100]) q0 s0;
          (total, q2, s2) = tracker_usage E ''live-verify-tenant'' (ms 100) q1 s1;
          (q3, s3) = tracker_reset (lr_redis E) q2 s2
      in ([live_record ''real_redis_concurrent_token_increments_sum_correctly'' (total = 1000)], st1\<lparr>ls_server := s3\<rparr>))"

section \<open>The cache and the fallback\<close>

definition cache_checks ::
  "('v, 'x) exact_backend \<Rightarrow> 'v entry \<Rightarrow> (nat \<Rightarrow> moment) \<Rightarrow> 'x \<Rightarrow> live_result list \<times> 'x" where
  "cache_checks B v ms x0 =
     (let key = ''live-verify-key'';
          x1 = xb_set B (mo_clock (ms 0)) key v 60 (xb_flush B x0);
          (got, x2) = xb_get B (mo_clock (ms 1)) key x1;
          (got_after_delete, x3) = xb_get B (mo_clock (ms 2)) key (xb_delete B key x2)
      in ([live_record ''real_redis_cache_round_trip'' (got = Some v),
           live_record ''real_redis_cache_delete_removes_entry'' (got_after_delete = None)], xb_flush B x3))"

text \<open>The local back end would start with what its file holds; here it starts empty.\<close>

definition test_cache_real_round_trip_and_flush ::
  "('s, 'v, 'e) live_env \<Rightarrow> (nat \<Rightarrow> moment) \<Rightarrow> ('s, 'e) live_state \<Rightarrow> live_result list \<times> ('s, 'e) live_state" where
  "test_cache_real_round_trip_and_flush E ms st =
     (let (client, st1) = connect E st
      in case build_exact_cache_backend False client MAX_TRACKED of
           UseRedis \<Rightarrow>
             let (rs, x) = cache_checks (redis_backend (lr_entries E)) (lr_value E) ms (ls_entries st1)
             in (rs, st1\<lparr>ls_entries := x\<rparr>)
         | UseLocal n \<Rightarrow> (fst (cache_checks local_backend (lr_value E) ms (local_exact_init (mo_clock (ms 0)) n None)), st1))"

text \<open>The client of the built limiter is replaced by one that cannot connect.\<close>

definition test_graceful_fallback_when_redis_becomes_unreachable ::
  "('s, 'v, 'e) live_env \<Rightarrow> (nat \<Rightarrow> moment) \<Rightarrow> ('s, 'e) live_state \<Rightarrow> live_result list \<times> ('s, 'e) live_state" where
  "test_graceful_fallback_when_redis_becomes_unreachable E ms st =
     (let (client, st1) = connect E st;
          ((allowed, retry_after), l, s) =
            limiter_check E ''fallback-user'' 5 1 ((ms 0)\<lparr>mo_fault := FaultBefore\<rparr>)
              (build_rate_limiter ''verify-fallback'' False client MAX_TRACKED) (ls_server st1)
      in ([live_record ''redis_becoming_unreachable_falls_back_to_local_not_a_crash'' allowed], st1\<lparr>ls_server := s\<rparr>))"

section \<open>The run\<close>

record live_report =
  lp_total :: nat
  lp_passed :: nat
  lp_failed :: nat
  lp_results :: "live_result list"

fun live_sections ::
  "('st \<Rightarrow> live_result list \<times> 'st) list \<Rightarrow> 'st \<Rightarrow> live_result list \<times> 'st" where
  "live_sections [] st = ([], st)"
| "live_sections (t # ts) st = (let (rs, st1) = t st; (rest, st2) = live_sections ts st1 in (rs @ rest, st2))"

text \<open>The report, unless the server could not be reached, and the exit code; \<open>ms\<close> are the moments of each section.\<close>

definition live_redis_verification ::
  "('s, 'v, 'e) live_env \<Rightarrow> (nat \<Rightarrow> nat \<Rightarrow> moment) \<Rightarrow> ('s, 'e) live_state \<Rightarrow> (live_report option \<times> nat) \<times> ('s, 'e) live_state" where
  "live_redis_verification E ms st =
     (let (ok, first, st1) = test_real_connection_and_pool_sharing E st
      in if \<not> ok then ((None, 1), st1)
         else
           let (rest, st2) = live_sections
                 [test_rate_limiter_real_token_bucket_math E (ms 0), test_rate_limiter_real_concurrent E (ms 1),
                  test_token_quota_real_atomic_increment E (ms 2), test_cache_real_round_trip_and_flush E (ms 3),
                  test_graceful_fallback_when_redis_becomes_unreachable E (ms 4)] st1;
               results = first @ rest; failed = length (filter (\<lambda>r. \<not> lv_passed r) results)
           in ((Some \<lparr>lp_total = length results, lp_passed = length (filter lv_passed results), lp_failed = failed,
                      lp_results = results\<rparr>, if failed = 0 then 0 else 1), st2))"

section \<open>A bucket over time\<close>

text \<open>What a bucket answers to calls that come after these delays, and the bucket and the time at the end.\<close>

fun bucket_run :: "real \<Rightarrow> real \<Rightarrow> real \<Rightarrow> real list \<Rightarrow> bucket option \<Rightarrow> (bool \<times> real) list \<times> bucket option \<times> real" where
  "bucket_run cap rate now [] ob = ([], ob, now)"
| "bucket_run cap rate now (d # ds) ob =
     (let r = bucket_step cap rate (now + d) ob;
          (rs, ob1, now1) = bucket_run cap rate (now + d) ds (Some (snd r))
      in (fst r # rs, ob1, now1))"

lemma step_keeps_tokens:
  assumes "0 < rate" and "bk_tokens b \<le> cap"
  shows "bk_tokens b - (if fst (fst (bucket_step cap rate now (Some b))) then 1 else 0)
      \<le> bk_tokens (snd (bucket_step cap rate now (Some b)))"
    and "1 \<le> bk_tokens b \<Longrightarrow> fst (fst (bucket_step cap rate now (Some b)))"
proof -
  have pos: "0 \<le> (now - bk_last b) * rate" if "bk_last b < now" using that assms(1) by simp
  show "bk_tokens b - (if fst (fst (bucket_step cap rate now (Some b))) then 1 else 0)
      \<le> bk_tokens (snd (bucket_step cap rate now (Some b)))"
    using pos assms by (force simp: bucket_defs)
  show "fst (fst (bucket_step cap rate now (Some b)))" if "1 \<le> bk_tokens b"
    using add_increasing2 [OF pos that] assms that by (cases "bk_last b < now") (simp_all add: bucket_defs)
qed

text \<open>A bucket that holds \<open>k\<close> tokens lets at least \<open>k\<close> calls through.\<close>

lemma run_lower:
  assumes "0 < rate"
  shows "real k \<le> bk_tokens b \<Longrightarrow> bk_tokens b \<le> cap \<Longrightarrow> k \<le> length ds \<Longrightarrow>
    k \<le> length (filter fst (fst (bucket_run cap rate now ds (Some b))))"
proof (induction ds arbitrary: k b now)
  case (Cons d ds)
  let ?r = "bucket_step cap rate (now + d) (Some b)"
  note keep = step_keeps_tokens [OF assms Cons.prems(2), of "now + d"]
  note le = bucket_step_le_cap [OF Cons.prems(2), of rate "now + d"]
  show ?case
  proof (cases k)
    case (Suc m)
    then have hit: "fst (fst ?r)" using keep(2) Cons.prems(1) by simp
    have "m \<le> length (filter fst (fst (bucket_run cap rate (now + d) ds (Some (snd ?r)))))"
      using Cons.IH [OF _ le, of m] keep(1) hit Suc Cons.prems by simp
    with hit Suc show ?thesis by (simp add: case_prod_beta Let_def)
  qed simp
qed simp

text \<open>And no more than its tokens and what flows in.\<close>

lemma run_upper:
  assumes "0 < rate" and "0 \<le> cap"
  shows "0 \<le> bk_tokens b \<Longrightarrow> bk_last b \<le> now \<Longrightarrow> \<forall>d \<in> set ds. 0 \<le> d \<Longrightarrow>
    real (length (filter fst (fst (bucket_run cap rate now ds (Some b))))) \<le> bk_tokens b + rate * (now + sum_list ds - bk_last b)"
proof (induction ds arbitrary: b now)
  case (Cons d ds)
  let ?r = "bucket_step cap rate (now + d) (Some b)"
  have last: "bk_last (snd ?r) = now + d" using Cons.prems by (simp add: bucket_step_last)
  have "real (length (filter fst (fst (bucket_run cap rate (now + d) ds (Some (snd ?r))))))
      \<le> bk_tokens (snd ?r) + rate * (now + d + sum_list ds - bk_last (snd ?r))"
    by (rule Cons.IH) (use bucket_step_nonneg [OF Cons.prems(1) assms(2,1)] last Cons.prems in auto)
  with bucket_step_potential [OF assms(1), of cap "now + d" b] last show ?case
    by (auto simp: case_prod_beta Let_def algebra_simps split: if_splits)
qed (use assms in simp)

text \<open>From a fresh bucket of a whole number of tokens, when less than one token flows in meanwhile.\<close>

lemma fresh_run_exact:
  assumes "0 < rate" and "0 < n" and "n \<le> length ds" and "\<forall>d \<in> set ds. 0 \<le> d" and "rate * sum_list (tl ds) < 1"
  shows "length (filter fst (fst (bucket_run (real n) rate now ds None))) = n"
proof -
  obtain d ds' where ds: "ds = d # ds'" using assms(2,3) by (cases ds) auto
  define b where "b = \<lparr>bk_tokens = real n - 1, bk_last = now + d\<rparr>"
  have step: "bucket_step (real n) rate (now + d) None = ((True, 0), b)"
    using assms(2) by (simp add: bucket_defs b_def)
  let ?c = "length (filter fst (fst (bucket_run (real n) rate (now + d) ds' (Some b))))"
  have "n - 1 \<le> ?c" using assms(2,3) ds by (intro run_lower assms(1)) (auto simp: b_def)
  moreover have "real ?c \<le> bk_tokens b + rate * (now + d + sum_list ds' - bk_last b)"
    using assms ds by (intro run_upper) (auto simp: b_def)
  then have "real ?c < real n" using assms(5) ds by (simp add: b_def)
  ultimately show ?thesis using assms(2) by (simp add: ds step case_prod_beta Let_def)
qed

section \<open>A server whose clock runs\<close>

text \<open>Of a Redis nobody else writes to: its clock moves with the time that passes, a key outlives every wait shorter than
  its time to live, and none appears.\<close>

locale redis_clock = redis_kv R for R :: "'s redis" +
  fixes wait :: "real \<Rightarrow> 's \<Rightarrow> 's"
  assumes time_hset: "r_time R (r_hset R k h s) = r_time R s"
    and time_wait: "r_time R (wait d s) = r_time R s + d"
    and hmget_wait: "0 \<le> d \<Longrightarrow> d < ttl \<Longrightarrow> r_hmget R (wait d (r_expire R k ttl s)) k = r_hmget R s k"
    and hmget_wait_None: "0 \<le> d \<Longrightarrow> r_hmget R s k = None \<Longrightarrow> r_hmget R (wait d s) k = None"
begin

definition armed :: "'s \<Rightarrow> string \<Rightarrow> bool" where
  "armed s k \<longleftrightarrow> (\<forall>d. 0 \<le> d \<and> d < 3600 \<longrightarrow> r_hmget R (wait d s) k = r_hmget R s k)"

lemma armed_None: "r_hmget R s k = None \<Longrightarrow> armed s k"
  by (simp add: armed_def hmget_wait_None)

lemma armed_expire: "3600 \<le> ttl \<Longrightarrow> armed (r_expire R k ttl s) k"
  by (simp add: armed_def hmget_wait hmget_expire)

text \<open>One call that reaches the server is one step of the bucket at the server's time.\<close>

lemma check_is_step:
  assumes "0 < cap" and "0 < rate"
  shows "\<exists>s1. redis_check R NoFault i cap rate None clock rr s =
      (fst (bucket_step cap rate (r_time R s) (script_level R (rl_prefix rr) s i)), rr, s1)
    \<and> script_level R (rl_prefix rr) s1 i = Some (snd (bucket_step cap rate (r_time R s) (script_level R (rl_prefix rr) s i)))
    \<and> r_time R s1 = r_time R s \<and> armed s1 (rl_prefix rr @ i)"
  using assms
  by (auto simp: redis_check_def lua_token_bucket_def script_level_def bucket_defs kv_simps time_hset
      split: option.splits prod.splits intro!: armed_expire)

end

text \<open>So the calls of a limiter on such a server are the run of one bucket.\<close>

definition up :: "moment \<Rightarrow> bool" where
  "up m \<longleftrightarrow> mo_fault m = NoFault \<and> 0 \<le> mo_delay m \<and> mo_delay m < 3000"

context redis_clock
begin

lemma check_up:
  assumes "lr_redis E = R" and "lr_wait E = wait" and "0 < cap" and "0 < rate" and "up m" and "armed s (rl_prefix rr @ i)"
  shows "\<exists>s1. limiter_check E i cap rate m (RedisBackend rr) s =
      (fst (bucket_step cap rate (r_time R s + mo_delay m) (script_level R (rl_prefix rr) s i)), RedisBackend rr, s1)
    \<and> script_level R (rl_prefix rr) s1 i = Some (snd (bucket_step cap rate (r_time R s + mo_delay m) (script_level R (rl_prefix rr) s i)))
    \<and> r_time R s1 = r_time R s + mo_delay m \<and> armed s1 (rl_prefix rr @ i)"
proof -
  let ?w = "wait (mo_delay m) s"
  have level: "script_level R (rl_prefix rr) ?w i = script_level R (rl_prefix rr) s i"
    using assms(5,6) by (simp add: script_level_def armed_def up_def)
  from check_is_step [OF assms(3,4), of i "mo_clock m" rr ?w] assms(5) show ?thesis
    unfolding level time_wait limiter_check_def assms(1,2) up_def by (auto simp: Let_def)
qed

lemma checks_are_a_run:
  assumes "lr_redis E = R" and "lr_wait E = wait" and "0 < cap" and "0 < rate"
  shows "list_all up ms \<Longrightarrow> armed s (rl_prefix rr @ i) \<Longrightarrow>
    \<exists>s1. limiter_checks E i cap rate ms (RedisBackend rr) s =
        (fst (bucket_run cap rate (r_time R s) (map mo_delay ms) (script_level R (rl_prefix rr) s i)), RedisBackend rr, s1)
      \<and> snd (bucket_run cap rate (r_time R s) (map mo_delay ms) (script_level R (rl_prefix rr) s i)) =
        (script_level R (rl_prefix rr) s1 i, r_time R s1)
      \<and> armed s1 (rl_prefix rr @ i)"
proof (induction ms arbitrary: s)
  case (Cons m ms)
  obtain s1 where s1: "limiter_check E i cap rate m (RedisBackend rr) s =
      (fst (bucket_step cap rate (r_time R s + mo_delay m) (script_level R (rl_prefix rr) s i)), RedisBackend rr, s1)"
    and lev: "script_level R (rl_prefix rr) s1 i = Some (snd (bucket_step cap rate (r_time R s + mo_delay m) (script_level R (rl_prefix rr) s i)))"
    and t: "r_time R s1 = r_time R s + mo_delay m" "armed s1 (rl_prefix rr @ i)"
    using check_up [OF assms, of m s rr i] Cons.prems by auto
  from Cons.IH [OF _ t(2)] Cons.prems(1) lev t(1) s1 show ?case
    by (auto simp: Let_def case_prod_beta)
qed simp

lemma reset_clears:
  "\<exists>s1. limiter_reset R (RedisBackend (redis_limiter_init name n)) s = (RedisBackend (redis_limiter_init name n), s1)
    \<and> script_level R (rl_prefix (redis_limiter_init name n)) s1 i = None
    \<and> armed s1 (rl_prefix (redis_limiter_init name n) @ i)"
proof -
  let ?p = "rl_prefix (redis_limiter_init name n)"
  let ?s = "redis_purge R None ?p s"
  have gone: "r_hmget R ?s (?p @ i) = None"
    using scan_complete [of s "?p @ i" ?p] by (cases "r_hmget R s (?p @ i)") (auto simp: redis_purge_def fold_del)
  then show ?thesis
    by (auto simp: limiter_reset_def redis_limiter_reset_def redis_limiter_init_def local_reset_def limiter_init_def
        script_level_def intro: armed_None)
qed

lemma quota_sum:
  assumes "lr_redis E = R" and "0 < n" and "of_int \<lfloor>n\<rfloor> = n"
  shows "list_all (\<lambda>m. mo_fault m = NoFault \<and> mo_day m = d) ms \<Longrightarrow>
    \<exists>s1. quota_records E t n ms (RedisQuota q) s = (RedisQuota q, s1)
      \<and> (r_get R s1 (quota_key t d)) = (if ms = [] then r_get R s (quota_key t d) else
            Some ((case r_get R s (quota_key t d) of None \<Rightarrow> 0 | Some v \<Rightarrow> v) + n * real (length ms)))"
proof (induction ms arbitrary: s)
  case (Cons m ms)
  have ttl: "0 < real_of_int \<lfloor>seconds_until_utc_midnight (mo_second m)\<rfloor> + 86400"
    by (intro add_nonneg_pos) (simp_all add: seconds_until_utc_midnight_def)
  obtain s1 where s1: "redis_record R NoFault t n d (mo_second m) q s = (q, s1)"
    "r_get R s1 (quota_key t d) = Some ((case r_get R s (quota_key t d) of None \<Rightarrow> 0 | Some v \<Rightarrow> v) + n)"
    using assms(2,3)
    using ttl by (simp add: redis_record_def lua_record_quota_def Let_def)
      (cases "r_get R s (quota_key t d)"; simp add: kv_simps; metis kv_simps)
  obtain s2 where "quota_records E t n ms (RedisQuota q) s1 = (RedisQuota q, s2)"
    "r_get R s2 (quota_key t d) = (if ms = [] then r_get R s1 (quota_key t d) else
       Some ((case r_get R s1 (quota_key t d) of None \<Rightarrow> 0 | Some v \<Rightarrow> v) + n * real (length ms)))"
    using Cons.IH [of s1] Cons.prems by auto
  with s1 Cons.prems show ?case by (auto simp: assms(1) algebra_simps)
qed simp

lemma quota_cleared: "r_get R (snd (tracker_reset R (RedisQuota q) s)) (quota_key t d) = None"
proof -
  have "take (length ''gatekeeper:quota:'') (quota_key t d) = ''gatekeeper:quota:''" by (simp add: quota_key_def)
  then show ?thesis
    using scan_complete [of s "quota_key t d" "''gatekeeper:quota:''"]
    by (cases "r_get R s (quota_key t d)") (auto simp: tracker_reset_def redis_quota_reset_def redis_purge_def fold_del)
qed

end

section \<open>Properties\<close>

lemma three_of_three:
  assumes "0 \<le> d1" and "0 \<le> d2" and "d1 + d2 < 1"
  shows "bucket_run 3 1 t [d0, d1, d2] None =
    ([(True, 0), (True, 0), (True, 0)], Some \<lparr>bk_tokens = d1 + d2, bk_last = t + d0 + d1 + d2\<rparr>, t + d0 + d1 + d2)"
proof -
  have "bucket_step 3 1 (t + d0) None = ((True, 0), \<lparr>bk_tokens = 2, bk_last = t + d0\<rparr>)" by (simp add: bucket_defs)
  moreover have "bucket_step 3 1 (t + d0 + d1) (Some \<lparr>bk_tokens = 2, bk_last = t + d0\<rparr>) =
      ((True, 0), \<lparr>bk_tokens = 1 + d1, bk_last = t + d0 + d1\<rparr>)"
    using assms by (cases "d1 = 0") (simp_all add: bucket_defs)
  moreover have "bucket_step 3 1 (t + d0 + d1 + d2) (Some \<lparr>bk_tokens = 1 + d1, bk_last = t + d0 + d1\<rparr>) =
      ((True, 0), \<lparr>bk_tokens = d1 + d2, bk_last = t + d0 + d1 + d2\<rparr>)"
    using assms by (cases "d2 = 0") (simp_all add: bucket_defs)
  ultimately show ?thesis by simp
qed

lemma then_denied:
  assumes "0 \<le> u" and "0 \<le> d" and "u + d < 1"
  shows "bucket_step 3 1 (t + d) (Some \<lparr>bk_tokens = u, bk_last = t\<rparr>) = ((False, 1 - (u + d)), \<lparr>bk_tokens = u + d, bk_last = t + d\<rparr>)"
  using assms by (cases "d = 0") (simp_all add: bucket_defs)

lemma then_allowed: "0 \<le> u \<Longrightarrow> 1 < d \<Longrightarrow> fst (fst (bucket_step 3 1 (t + d) (Some \<lparr>bk_tokens = u, bk_last = t\<rparr>)))"
  by (simp add: bucket_defs)

text \<open>What the run relies on: the server answers, the four calls of the burst take less than a second and the concurrent
  ones less than a thousand, and the day does not change while tokens are recorded.\<close>

definition steady :: "(nat \<Rightarrow> nat \<Rightarrow> moment) \<Rightarrow> bool" where
  "steady ms \<longleftrightarrow>
     list_all (\<lambda>i. up (ms 0 i)) [0, 1, 2, 3, 4] \<and> mo_delay (ms 0 1) + mo_delay (ms 0 2) + mo_delay (ms 0 3) < 1 \<and> mo_delay (ms 0 4) < 2000
     \<and> list_all (\<lambda>i. up (ms 1 i)) [0..<200] \<and> sum_list (map (\<lambda>i. mo_delay (ms 1 i)) [1..<200]) < 1000
     \<and> list_all (\<lambda>i. mo_fault (ms 2 i) = NoFault \<and> mo_day (ms 2 i) = mo_day (ms 2 0)) [0..<101]"

definition linked :: "('s, 'v, 'e) live_env \<Rightarrow> ('s, 'e) live_state \<Rightarrow> string \<Rightarrow> bool" where
  "linked E st u \<longleftrightarrow> u \<noteq> [] \<and> lr_url E = Some u \<and> cached_client (ls_module st) = Some u \<and> last_url (ls_module st) = Some u"

lemma connect_linked: "linked E st u \<Longrightarrow> connect E st = (Some u, st)"
  by (simp add: linked_def connect_def get_redis_client_def)


lemma list_all_upt: "list_all P [0..<n] = (\<forall>i < n. P i)"
  by (auto simp: list_all_iff)

context redis_clock
begin

lemma math_passes:
  assumes E: "lr_redis E = R" "lr_wait E = wait" and link: "linked E st u" and steady: "steady ms"
  shows "\<exists>rs st1. test_rate_limiter_real_token_bucket_math E (ms 0) st = (rs, st1) \<and> list_all lv_passed rs \<and> length rs = 4 \<and> linked E st1 u"
proof -
  let ?rr = "redis_limiter_init ''verify-bucket'' MAX_TRACKED" and ?i = "''live-verify-user''"
  let ?m = "(ms 0 4)\<lparr>mo_delay := mo_delay (ms 0 4) + 11 / 10\<rparr>"
  from steady have ups: "up (ms 0 0)" "up (ms 0 1)" "up (ms 0 2)" "up (ms 0 3)" "up (ms 0 4)" "up ?m"
    and short: "mo_delay (ms 0 1) + mo_delay (ms 0 2) + mo_delay (ms 0 3) < 1"
    by (auto simp: steady_def up_def)
  then have pos: "0 \<le> mo_delay (ms 0 1)" "0 \<le> mo_delay (ms 0 2)" "0 \<le> mo_delay (ms 0 3)" "0 \<le> mo_delay (ms 0 4)"
    by (auto simp: up_def)
  obtain s0 where s0: "limiter_reset R (RedisBackend ?rr) (ls_server st) = (RedisBackend ?rr, s0)"
    "script_level R (rl_prefix ?rr) s0 ?i = None" "armed s0 (rl_prefix ?rr @ ?i)"
    using reset_clears by blast
  obtain s1 where s1: "limiter_checks E ?i 3 1 [ms 0 0, ms 0 1, ms 0 2] (RedisBackend ?rr) s0 = ([(True, 0), (True, 0), (True, 0)], RedisBackend ?rr, s1)"
    "script_level R (rl_prefix ?rr) s1 ?i = Some \<lparr>bk_tokens = mo_delay (ms 0 1) + mo_delay (ms 0 2), bk_last = r_time R s1\<rparr>"
    "armed s1 (rl_prefix ?rr @ ?i)"
    using checks_are_a_run [OF E, of 3 1 "[ms 0 0, ms 0 1, ms 0 2]" s0 ?rr ?i] s0(2,3) ups short pos
    by (auto simp: three_of_three simp del: bucket_run.simps limiter_checks.simps)
  obtain s2 where s2: "limiter_check E ?i 3 1 (ms 0 3) (RedisBackend ?rr) s1 =
       ((False, 1 - (mo_delay (ms 0 1) + mo_delay (ms 0 2) + mo_delay (ms 0 3))), RedisBackend ?rr, s2)"
    "script_level R (rl_prefix ?rr) s2 ?i = Some \<lparr>bk_tokens = mo_delay (ms 0 1) + mo_delay (ms 0 2) + mo_delay (ms 0 3), bk_last = r_time R s2\<rparr>"
    "armed s2 (rl_prefix ?rr @ ?i)"
    using check_up [OF E, of 3 1 "ms 0 3" s1 ?rr ?i] s1(2,3) ups short pos by (auto simp: then_denied)
  obtain s3 allowed wait2 where s3: "limiter_check E ?i 3 1 ?m (RedisBackend ?rr) s2 = ((allowed, wait2), RedisBackend ?rr, s3)" allowed
    using check_up [OF E, of 3 1 ?m s2 ?rr ?i] s2(2,3) ups pos
      then_allowed [of "mo_delay (ms 0 1) + mo_delay (ms 0 2) + mo_delay (ms 0 3)" "mo_delay (ms 0 4) + 11 / 10" "r_time R s2"]
    by (auto simp: prod_eq_iff)
  obtain l4 s4 where s4: "limiter_reset R (RedisBackend ?rr) s3 = (l4, s4)" by fastforce
  show ?thesis
    using s0(1) s1(1) s2(1) s3 s4 short link connect_linked [OF link]
    by (simp add: test_rate_limiter_real_token_bucket_math_def build_rate_limiter_def E(1) live_record_def linked_def
        del: limiter_checks.simps)
qed

lemma concurrent_passes:
  assumes E: "lr_redis E = R" "lr_wait E = wait" and link: "linked E st u" and steady: "steady ms"
  shows "\<exists>rs st1. test_rate_limiter_real_concurrent E (ms 1) st = (rs, st1) \<and> list_all lv_passed rs \<and> length rs = 1 \<and> linked E st1 u"
proof -
  let ?rr = "redis_limiter_init ''verify-concurrent'' MAX_TRACKED" and ?i = "''concurrent-user''" and ?ms = "map (ms 1) [0..<200]"
  obtain s0 where s0: "limiter_reset R (RedisBackend ?rr) (ls_server st) = (RedisBackend ?rr, s0)"
    "script_level R (rl_prefix ?rr) s0 ?i = None" "armed s0 (rl_prefix ?rr @ ?i)"
    using reset_clears by blast
  have ups: "list_all up ?ms" using steady by (auto simp: steady_def list_all_iff)
  obtain s1 where s1: "limiter_checks E ?i 50 (1 / 1000) ?ms (RedisBackend ?rr) s0 =
      (fst (bucket_run 50 (1 / 1000) (r_time R s0) (map mo_delay ?ms) None), RedisBackend ?rr, s1)"
    using checks_are_a_run [OF E _ _ ups s0(3), of 50 "1 / 1000"] s0(2) by auto
  have tail: "tl (map mo_delay ?ms) = map (\<lambda>i. mo_delay (ms 1 i)) [1..<200]"
    by (simp add: map_tl [symmetric] tl_upt o_def)
  have "length (filter fst (fst (bucket_run (real 50) (1 / 1000) (r_time R s0) (map mo_delay ?ms) None))) = 50"
  proof (rule fresh_run_exact)
    show "\<forall>d \<in> set (map mo_delay ?ms). 0 \<le> d" using ups by (auto simp: list_all_iff up_def)
    show "1 / 1000 * sum_list (tl (map mo_delay ?ms)) < 1" using steady unfolding tail steady_def by simp
  qed simp_all
  then have count: "length (filter fst (fst (bucket_run 50 (1 / 1000) (r_time R s0) (map mo_delay ?ms) None))) = 50" by simp
  obtain l2 s2 where s2: "limiter_reset R (RedisBackend ?rr) s1 = (l2, s2)" by fastforce
  show ?thesis
    using s0(1) s1 s2 count link connect_linked [OF link]
    unfolding test_rate_limiter_real_concurrent_def
    by (simp add: build_rate_limiter_def E(1) live_record_def linked_def del: limiter_checks.simps upt_rec_numeral map_map)
qed

lemma quota_passes:
  assumes E: "lr_redis E = R" and link: "linked E st u" and steady: "steady ms"
  shows "\<exists>rs st1. test_token_quota_real_atomic_increment E (ms 2) st = (rs, st1) \<and> list_all lv_passed rs \<and> length rs = 1 \<and> linked E st1 u"
proof -
  define L where "L = map (ms 2) [0..<100]"
  let ?q = "tracker_init MAX_TRACKED" and ?d = "mo_day (ms 2 0)" and ?t = "''live-verify-tenant''"
  obtain s0 where s0: "tracker_reset R (RedisQuota ?q) (ls_server st) = (RedisQuota ?q, s0)" "r_get R s0 (quota_key ?t ?d) = None"
    using quota_cleared [of ?q "ls_server st" ?t ?d]
    by (auto simp: tracker_reset_def redis_quota_reset_def Token_Quota.quota_reset_def tracker_init_def case_prod_beta)
  have "list_all (\<lambda>i. mo_fault (ms 2 i) = NoFault \<and> mo_day (ms 2 i) = ?d) [0..<101]"
    using steady unfolding steady_def by (elim conjE)
  then have each: "mo_fault (ms 2 i) = NoFault \<and> mo_day (ms 2 i) = ?d" if "i < 101" for i
    using that unfolding list_all_upt by blast
  have "\<forall>i < 100. mo_fault (ms 2 i) = NoFault \<and> mo_day (ms 2 i) = ?d"
    by (intro allI impI each) linarith
  then have same: "list_all (\<lambda>m. mo_fault m = NoFault \<and> mo_day m = ?d) L"
    unfolding L_def list.pred_map o_def list_all_upt .
  have same100: "mo_fault (ms 2 100) = NoFault" "mo_day (ms 2 100) = ?d" 
    by (rule each [THEN conjunct1], linarith) (rule each [THEN conjunct2], linarith)
  have len: "length L = 100" "L \<noteq> []" by (simp_all add: L_def del: upt_rec_numeral)
  obtain s1 where s1: "quota_records E ?t 10 L (RedisQuota ?q) s0 = (RedisQuota ?q, s1)" "r_get R s1 (quota_key ?t ?d) = Some 1000"
    using quota_sum [OF E _ _ same, of 10 ?t ?q s0] unfolding s0(2) option.case len(1) if_not_P [OF len(2)] by fastforce
  have total: "tracker_usage E ?t (ms 2 100) (RedisQuota ?q) s1 = (1000, RedisQuota ?q, s1)"
    using s1(2) same100 by (simp add: tracker_usage_def redis_usage_today_def redis_usage_def E)
  obtain q3 s3 where s3: "tracker_reset R (RedisQuota ?q) s1 = (q3, s3)" by fastforce
  show ?thesis
    using s0(1) s1(1) total s3 link connect_linked [OF link]
    unfolding test_token_quota_real_atomic_increment_def L_def [symmetric]
    by (simp add: build_token_quota_tracker_def E live_record_def linked_def)
qed

end

lemma cache_passes:
  assumes "entry_kv S" and "\<forall>k x. sv_get S (sv_delete S k x) k = None" and "lr_entries E = S" and link: "linked E st u"
  shows "\<exists>rs st1. test_cache_real_round_trip_and_flush E ms st = (rs, st1) \<and> list_all lv_passed rs \<and> length rs = 2 \<and> linked E st1 u"
proof -
  obtain rs x where run: "cache_checks (redis_backend S) (lr_value E) ms (ls_entries st) = (rs, x)" by fastforce
  with assms(2) entry_kv.redis_get_after_set [OF assms(1), of 60]
  have "list_all lv_passed rs \<and> length rs = 2"
    by (auto simp: cache_checks_def live_record_def redis_backend_def redis_exact_get_def redis_exact_delete_def Let_def)
  with run link connect_linked [OF link] show ?thesis
    by (simp add: test_cache_real_round_trip_and_flush_def build_exact_cache_backend_def assms(3) linked_def)
qed

lemma fallback_passes:
  assumes link: "linked E st u"
  shows "\<exists>rs st1. test_graceful_fallback_when_redis_becomes_unreachable E ms st = (rs, st1) \<and> list_all lv_passed rs \<and> length rs = 1 \<and> linked E st1 u"
proof -
  have "fst (fst (local_check i 5 1 t (limiter_init name n)))" for i t name n
    by (simp add: local_check_def limiter_init_def bucket_defs)
  then show ?thesis
    using link connect_linked [OF link]
    by (auto simp: test_graceful_fallback_when_redis_becomes_unreachable_def build_rate_limiter_def limiter_check_def redis_check_def
        redis_limiter_init_def live_record_def linked_def Let_def split: prod.splits) (metis fst_conv)
qed

lemma sharing_passes:
  assumes "lr_url E = Some u" and "u \<noteq> []" and "lr_reachable E u" and "lr_ping E"
  shows "\<exists>rs st1. test_real_connection_and_pool_sharing E st = (True, rs, st1) \<and> list_all lv_passed rs \<and> length rs = 3 \<and> linked E st1 u"
proof -
  define st1 where "st1 = st\<lparr>ls_module := \<lparr>cached_client = Some u, last_url = Some u\<rparr>\<rparr>"
  have "connect E (st\<lparr>ls_module := reset_redis_client (ls_module st)\<rparr>) = (Some u, st1)"
    using assms by (simp add: connect_def get_redis_client_def reset_redis_client_def st1_def)
  moreover have link: "linked E st1 u" using assms by (simp add: linked_def st1_def)
  ultimately show ?thesis
    using assms(4) connect_linked [OF link] by (simp add: test_real_connection_and_pool_sharing_def live_record_def Let_def)
qed

text \<open>The sections one after the other.\<close>

lemma sections_pass:
  assumes "\<And>st t n. P st \<Longrightarrow> (t, n) \<in> set ts \<Longrightarrow> \<exists>rs st1. t st = (rs, st1) \<and> list_all lv_passed rs \<and> length rs = n \<and> P st1"
  shows "P st \<Longrightarrow> \<exists>rs st1. live_sections (map fst ts) st = (rs, st1) \<and> list_all lv_passed rs \<and> length rs = sum_list (map snd ts)"
  using assms
proof (induction ts arbitrary: st)
  case (Cons e ts)
  obtain t n where e: "e = (t, n)" by fastforce
  obtain rs st1 where t: "t st = (rs, st1)" "list_all lv_passed rs" "length rs = n" "P st1"
    using Cons.prems(2) [OF Cons.prems(1), of t n] e by auto
  obtain rest st2 where "live_sections (map fst ts) st1 = (rest, st2)" "list_all lv_passed rest" "length rest = sum_list (map snd ts)"
    using Cons.IH [OF t(4)] Cons.prems(2) by auto
  with t e show ?case by simp
qed simp

text \<open>Claim C39: the verification passes. Against a Redis server that behaves as documented and answers, with a run that takes no longer
  than the limits of the script allow for, all twelve checks succeed and the exit code is zero: the burst of the capacity is
  let through and no more, a token comes back after a second, of two hundred concurrent calls exactly the capacity is let
  through, no increment of the quota is lost, the cache returns what was stored until it is deleted, the parts share one
  client, and without the server the limiter falls back on its own.\<close>

theorem live_verification_passes:
  assumes "redis_clock (lr_redis E) (lr_wait E)"
    and "entry_kv (lr_entries E)" and "\<forall>k x. sv_get (lr_entries E) (sv_delete (lr_entries E) k x) k = None"
    and "lr_url E = Some u" and "u \<noteq> []" and "lr_reachable E u" and "lr_ping E" and "steady ms"
  shows "\<exists>report st1. live_redis_verification E ms st = ((Some report, 0), st1)
    \<and> lp_total report = 12 \<and> lp_passed report = 12 \<and> lp_failed report = 0"
proof -
  let ?ts = "[(test_rate_limiter_real_token_bucket_math E (ms 0), 4 :: nat), (test_rate_limiter_real_concurrent E (ms 1), 1),
    (test_token_quota_real_atomic_increment E (ms 2), 1), (test_cache_real_round_trip_and_flush E (ms 3), 2),
    (test_graceful_fallback_when_redis_becomes_unreachable E (ms 4), 1)]"
  obtain first st1 where first: "test_real_connection_and_pool_sharing E st = (True, first, st1)" "list_all lv_passed first"
    "length first = 3" "linked E st1 u"
    using sharing_passes [OF assms(4-7)] by blast
  note math = redis_clock.math_passes [OF assms(1) refl refl _ assms(8)]
    and concurrent = redis_clock.concurrent_passes [OF assms(1) refl refl _ assms(8)]
    and quota = redis_clock.quota_passes [OF assms(1) refl _ assms(8)]
    and cache = cache_passes [OF assms(2,3) refl]
  have each: "\<exists>rs st2. t st1 = (rs, st2) \<and> list_all lv_passed rs \<and> length rs = n \<and> linked E st2 u"
    if "linked E st1 u" "(t, n) \<in> set ?ts" for st1 t n
    using that math [OF that(1)] concurrent [OF that(1)] quota [OF that(1)] cache [OF that(1)] fallback_passes [OF that(1)]
    by (elim set_ConsD [elim_format] disjE) auto
  have "\<exists>rs st2. live_sections (map fst ?ts) st1 = (rs, st2) \<and> list_all lv_passed rs \<and> length rs = sum_list (map snd ?ts)"
    by (rule sections_pass [where P = "\<lambda>st. linked E st u"]) (fact each first(4))+
  then obtain rest st2 where
    rest: "live_sections (map fst ?ts) st1 = (rest, st2)" "list_all lv_passed rest" "length rest = 9" by auto
  have none: "filter (\<lambda>r. \<not> lv_passed r) (first @ rest) = []" "filter lv_passed first = first" "filter lv_passed rest = rest"
    using first(2) rest(2) by (auto simp: list_all_iff)
  show ?thesis
    using first(1,3) rest(1,3) none by (simp add: live_redis_verification_def Let_def)
qed

text \<open>The quota section leaves no usage of any tenant behind: the reset before and after it deletes every key of the prefix the
  gateway itself uses. Run against the server of a deployment, the verification gives every tenant its daily quota anew.\<close>

lemma quota_records_redis: "\<exists>q1 s1. quota_records E t n ms (RedisQuota q) s = (RedisQuota q1, s1)"
  by (induction ms arbitrary: q s) (auto simp: Let_def split: prod.split)

theorem verification_wipes_quotas:
  assumes "redis_clock (lr_redis E) (lr_wait E)" and "linked E st u"
  shows "r_get (lr_redis E) (ls_server (snd (test_token_quota_real_atomic_increment E ms st))) (quota_key t d) = None"
proof -
  let ?R = "lr_redis E" and ?t = "''live-verify-tenant''"
  obtain q0 s0 where s0: "tracker_reset ?R (RedisQuota (tracker_init MAX_TRACKED)) (ls_server st) = (RedisQuota q0, s0)"
    by (simp add: tracker_reset_def case_prod_beta)
  define L where "L = map ms [0..<100]"
  obtain q1 s1 where s1: "quota_records E ?t 10 L (RedisQuota q0) s0 = (RedisQuota q1, s1)"
    using quota_records_redis [of E ?t 10 L q0 s0] by blast
  obtain total q2 s2 where s2: "tracker_usage E ?t (ms 100) (RedisQuota q1) s1 = (total, RedisQuota q2, s2)"
    by (simp add: tracker_usage_def case_prod_beta)
  obtain q3 s3 where s3: "tracker_reset ?R (RedisQuota q2) s2 = (q3, s3)" by fastforce
  have "r_get ?R s3 (quota_key t d) = None"
    using redis_clock.quota_cleared [OF assms(1), of q2 s2 t d] s3 by simp
  then show ?thesis
    using s0 s1 s2 s3 connect_linked [OF assms(2)]
    unfolding test_token_quota_real_atomic_increment_def L_def [symmetric]
    by (simp add: build_token_quota_tracker_def)
qed

text \<open>Without the environment variable there is no client, and the script aborts: the default address is only printed.\<close>

theorem default_url_is_not_used:
  assumes "lr_url E = None"
  shows "\<exists>st1. live_redis_verification E ms st = ((None, 1), st1)"
  using assms by (simp add: live_redis_verification_def test_real_connection_and_pool_sharing_def connect_def get_redis_client_def)

text \<open>With the map-based server, whose clock is a field.\<close>

definition ref_wait :: "real \<Rightarrow> ref_server \<Rightarrow> ref_server" where
  "ref_wait d s = s\<lparr>rs_time := rs_time s + d\<rparr>"

interpretation ref_clock: redis_clock ref_redis ref_wait
  by unfold_locales (simp_all add: ref_redis_def ref_wait_def)

definition ref_env :: "(ref_server, nat, (string \<times> nat entry) list) live_env" where
  "ref_env = \<lparr>lr_redis = ref_redis, lr_wait = ref_wait, lr_entries = ref_entries, lr_reachable = (\<lambda>u. True),
     lr_url = Some ''redis://localhost:6379/0'', lr_ping = True,
     lr_value = \<lparr>en_prompt = ''p'', en_vector = 0, en_risk = ''HIGH'', en_score = 1, en_hash = ''h'', en_epoch = 0, en_source = ''s'', en_ttl = None\<rparr>\<rparr>"

definition ref_moment :: moment where
  "ref_moment = \<lparr>mo_delay = 0, mo_fault = NoFault, mo_clock = 0, mo_day = ''d'', mo_second = 0\<rparr>"

theorem live_verification_passes_witness:
  "\<exists>report st1. live_redis_verification ref_env (\<lambda>i k. ref_moment)
      \<lparr>ls_module = \<lparr>cached_client = None, last_url = None\<rparr>, ls_server = empty_server 0, ls_entries = []\<rparr> = ((Some report, 0), st1)
    \<and> lp_total report = 12 \<and> lp_passed report = 12 \<and> lp_failed report = 0"
proof (rule live_verification_passes)
  show "redis_clock (lr_redis ref_env) (lr_wait ref_env)" by (simp add: ref_env_def ref_clock.redis_clock_axioms)
  show "entry_kv (lr_entries ref_env)" by (simp add: ref_env_def ref_entries.entry_kv_axioms)
  show "\<forall>k x. sv_get (lr_entries ref_env) (sv_delete (lr_entries ref_env) k x) k = None"
    by (simp add: ref_env_def ref_entries_def od_simps)
  show "lr_url ref_env = Some ''redis://localhost:6379/0''" "''redis://localhost:6379/0'' \<noteq> ''''"
    "lr_reachable ref_env ''redis://localhost:6379/0''" "lr_ping ref_env" by (simp_all add: ref_env_def)
  show "steady (\<lambda>i k. ref_moment)"
    by (simp add: steady_def list_all_upt up_def ref_moment_def sum_list_triv del: upt_rec_numeral)
qed

end
