(* ===== verification/Llama_Scoring.thy ===== *)
theory Llama_Scoring
  imports Suite_Scoring Semantic_Judge
begin

text \<open>
  scripts/score_llama_guard_ollama.py and scripts/score_llama_guard_8b_sample.py: scoring rows one by one over a slow
  server, in runs that may be killed and are meant to be resumed. The score file is its text, with line ends as Python
  reads them. What \<open>json.loads\<close> and \<open>json.dumps\<close> make of a line are arguments, and so is the server: its reply to the
  \<open>k\<close>-th attempt at the \<open>i\<close>-th row of a run. Left out are the printing, the waiting, errors in writing the score file and
  the progress file but for its count.
\<close>

section \<open>The score file\<close>

abbreviation newline :: char where "newline \<equiv> CHR 0x0A"

type_synonym score_table = "(json \<times> json) list"

definition file_lines :: "string \<Rightarrow> string list" where
  "file_lines content = str_split newline content"

text \<open>A value that cannot be a key of a dictionary, and what stands in a container.\<close>

fun hashable :: "json \<Rightarrow> bool" where
  "hashable (JList xs) = False"
| "hashable (JObj kvs) = False"
| "hashable v = True"

text \<open>One line: skipped when it is blank, does not parse or lacks a field; \<open>None\<close> when the reading of the file raises.\<close>

definition read_score :: "(string \<Rightarrow> json option) \<Rightarrow> string \<Rightarrow> score_table \<Rightarrow> score_table option" where
  "read_score loads line scored =
     (let text = str_strip line
      in if text = [] then Some scored
         else case loads text of
                None \<Rightarrow> Some scored
              | Some (JObj r) \<Rightarrow>
                  (case (map_of r ''score'', map_of r ''id'') of
                     (Some s, Some i) \<Rightarrow> if hashable i then Some (od_set i s scored) else None
                   | _ \<Rightarrow> Some scored)
              | Some _ \<Rightarrow> None)"

fun read_scores :: "(string \<Rightarrow> json option) \<Rightarrow> string list \<Rightarrow> score_table \<Rightarrow> score_table option" where
  "read_scores loads [] scored = Some scored"
| "read_scores loads (l # ls) scored =
     (case read_score loads l scored of None \<Rightarrow> None | Some sc \<Rightarrow> read_scores loads ls sc)"

definition load_already_scored :: "(string \<Rightarrow> json option) \<Rightarrow> string option \<Rightarrow> score_table option" where
  "load_already_scored loads file =
     (case file of None \<Rightarrow> Some [] | Some content \<Rightarrow> read_scores loads (file_lines content) [])"

definition score_line :: "(json \<Rightarrow> string) \<Rightarrow> string \<Rightarrow> real \<Rightarrow> string" where
  "score_line dumps i s = dumps (JObj [(''id'', JStr i), (''score'', JFloat s)]) @ [newline]"

section \<open>One row\<close>

text \<open>\<open>None\<close>: an exception, which the caller retries.\<close>

definition score_one :: "reply \<Rightarrow> real option" where
  "score_one rep =
     (case rep of
        NoReply \<Rightarrow> None
      | Reply status body \<Rightarrow>
          if status \<noteq> 200 then None
          else (case body of
                  None \<Rightarrow> None
                | Some v \<Rightarrow>
                    (case chat_content v of
                       None \<Rightarrow> None
                     | Some raw \<Rightarrow>
                         if verdict_line raw = ''safe'' then Some 0
                         else if verdict_line raw = ''unsafe'' then Some 1
                         else None)))"

definition MAX_RETRIES_PER_ROW :: nat where "MAX_RETRIES_PER_ROW = 3"

text \<open>The attempts at one row: the score, if one succeeded, and the failures in a row by then.\<close>

fun try_row :: "(nat \<Rightarrow> reply) \<Rightarrow> nat \<Rightarrow> nat \<Rightarrow> nat \<Rightarrow> real option \<times> nat" where
  "try_row ask 0 k failures = (None, failures)"
| "try_row ask (Suc n) k failures =
     (case score_one (ask k) of
        Some s \<Rightarrow> (Some s, 0)
      | None \<Rightarrow> try_row ask n (Suc k) (Suc failures))"

section \<open>A run\<close>

datatype run_end = Completed | ServerDown

text \<open>The rows that are left, the failures in a row, the rows counted as done, and the file.\<close>

fun score_rows ::
  "(json \<Rightarrow> string) \<Rightarrow> (nat \<Rightarrow> nat \<Rightarrow> reply) \<Rightarrow> nat \<Rightarrow> signal_row list \<Rightarrow> nat \<Rightarrow> nat \<Rightarrow> string
   \<Rightarrow> run_end \<times> nat \<times> string" where
  "score_rows dumps ask i [] failures finished content = (Completed, finished, content)"
| "score_rows dumps ask i (row # rows) failures finished content =
     (let (s, failures1) = try_row (ask i) MAX_RETRIES_PER_ROW 0 failures;
          content1 = (case s of None \<Rightarrow> content | Some x \<Rightarrow> content @ score_line dumps (row_id row) x)
      in if failures1 \<ge> 15 then (ServerDown, Suc finished, content1)
         else score_rows dumps ask (Suc i) rows failures1 (Suc finished) content1)"

datatype scoring_result = Unreadable_scores | Nothing_to_do | Unreachable | Ran run_end nat nat

text \<open>\<open>rows[:limit] if limit else rows\<close>: a limit below zero leaves out that many rows at the end.\<close>

definition limited :: "int option \<Rightarrow> 'a list \<Rightarrow> 'a list" where
  "limited limit rows =
     (case limit of
        None \<Rightarrow> rows
      | Some n \<Rightarrow> if n = 0 then rows else if n > 0 then take (nat n) rows else take (length rows - nat (- n)) rows)"

definition unscored :: "score_table \<Rightarrow> signal_row list \<Rightarrow> signal_row list" where
  "unscored scored rows = filter (\<lambda>r. map_of scored (JStr (row_id r)) = None) rows"

text \<open>\<open>main\<close>: how it ended, with the rows it says are done and their total, and the file afterwards.\<close>

definition score_suite ::
  "(string \<Rightarrow> json option) \<Rightarrow> (json \<Rightarrow> string) \<Rightarrow> (nat \<Rightarrow> nat \<Rightarrow> reply) \<Rightarrow> bool \<Rightarrow> int option \<Rightarrow> signal_row list \<Rightarrow> string option
   \<Rightarrow> scoring_result \<times> string option" where
  "score_suite loads dumps ask reachable limit suite file =
     (let rows = limited limit suite
      in case load_already_scored loads file of
           None \<Rightarrow> (Unreadable_scores, file)
         | Some already \<Rightarrow>
             let todo = unscored already rows
             in if todo = [] then (Nothing_to_do, file)
                else if \<not> reachable then (Unreachable, file)
                else let (e, finished, content) = score_rows dumps ask 0 todo 0 (length already)
                           (case file of None \<Rightarrow> [] | Some c \<Rightarrow> c)
                     in (Ran e finished (length rows), Some content))"

definition load_scores :: "(string \<Rightarrow> json option) \<Rightarrow> string option \<Rightarrow> score_table option" where
  "load_scores loads path = load_already_scored loads path"

text \<open>The sample script first copies what an earlier run over the whole suite has; \<open>ids\<close> is the order in which Python
  happens to go through the set of the ids.\<close>

fun carry_over ::
  "(json \<Rightarrow> string) \<Rightarrow> string list \<Rightarrow> score_table \<Rightarrow> score_table \<Rightarrow> string \<Rightarrow> nat \<times> score_table \<times> string" where
  "carry_over dumps [] full have_scores content = (0, have_scores, content)"
| "carry_over dumps (i # ids) full have_scores content =
     (case (map_of have_scores (JStr i), map_of full (JStr i)) of
        (None, Some s) \<Rightarrow>
          let (n, h, c) = carry_over dumps ids full (od_set (JStr i) s have_scores)
                            (content @ dumps (JObj [(''id'', JStr i), (''score'', s)]) @ [newline])
          in (Suc n, h, c)
      | _ \<Rightarrow> carry_over dumps ids full have_scores content)"

definition score_sample ::
  "(string \<Rightarrow> json option) \<Rightarrow> (json \<Rightarrow> string) \<Rightarrow> (nat \<Rightarrow> nat \<Rightarrow> reply) \<Rightarrow> bool \<Rightarrow> signal_row list \<Rightarrow> string list
   \<Rightarrow> string option \<Rightarrow> string option \<Rightarrow> scoring_result \<times> string option" where
  "score_sample loads dumps ask reachable sample ids file full_run =
     (case (load_scores loads file, load_scores loads full_run) of
        (Some already, Some full) \<Rightarrow>
          let (carried, have_scores, content) = carry_over dumps ids full already (case file of None \<Rightarrow> [] | Some c \<Rightarrow> c);
              todo = unscored have_scores sample
          in if todo = [] then (Nothing_to_do, Some content)
             else if \<not> reachable then (Unreachable, Some content)
             else let (e, finished, content1) = score_rows dumps ask 0 todo 0 (length sample - length todo) content
                  in (Ran e finished (length sample), Some content1)
      | _ \<Rightarrow> (Unreadable_scores, file))"

section \<open>Lemmas\<close>

lemma str_split_append: "str_split sep (a @ sep # b) = str_split sep a @ str_split sep b"
proof (induction a)
  case (Cons c cs)
  then show ?case by (cases "str_split sep cs") auto
qed simp

text \<open>A file of whole lines, and a record that reads back from its line.\<close>

definition whole :: "string \<Rightarrow> bool" where
  "whole content \<longleftrightarrow> content = [] \<or> last content = newline"

definition reads_back :: "(string \<Rightarrow> json option) \<Rightarrow> (json \<Rightarrow> string) \<Rightarrow> string \<Rightarrow> json \<Rightarrow> bool" where
  "reads_back loads dumps i s \<longleftrightarrow>
     (let record = JObj [(''id'', JStr i), (''score'', s)]; line = dumps record
      in newline \<notin> set line \<and> str_strip line \<noteq> [] \<and> loads (str_strip line) = Some record)"

lemma read_scores_append:
  "read_scores loads (ls @ ms) sc = (case read_scores loads ls sc of None \<Rightarrow> None | Some sc1 \<Rightarrow> read_scores loads ms sc1)"
  by (induction ls arbitrary: sc) (simp_all split: option.split)

lemma read_blank [simp]: "read_score loads [] sc = Some sc"
  by (simp add: read_score_def)

lemma read_back: "reads_back loads dumps i s \<Longrightarrow>
    read_score loads (dumps (JObj [(''id'', JStr i), (''score'', s)])) sc = Some (od_set (JStr i) s sc)"
  by (simp add: reads_back_def read_score_def Let_def)

lemma file_lines_line: "newline \<notin> set line \<Longrightarrow> file_lines (c @ newline # line @ [newline]) = file_lines c @ [line, []]"
  using str_split_append [of newline c "line @ [newline]"] str_split_append [of newline line "[]"]
  by (simp add: file_lines_def str_split_no_sep)

lemma load_line:
  assumes "whole content" and "newline \<notin> set line"
  shows "read_scores loads (file_lines (content @ line @ [newline])) sc =
    (case read_scores loads (file_lines content) sc of None \<Rightarrow> None | Some sc1 \<Rightarrow> read_score loads line sc1)"
proof (cases "content = []")
  case True
  then show ?thesis
    using str_split_append [of newline line "[]"] assms(2)
    by (simp add: file_lines_def str_split_no_sep split: option.split)
next
  case False
  with assms(1) obtain c where c: "content = c @ [newline]" unfolding whole_def by (metis append_butlast_last_id)
  have "file_lines content = file_lines c @ [[]]"
    using str_split_append [of newline c "[]"] by (simp add: file_lines_def c)
  with file_lines_line [OF assms(2), of c] show ?thesis
    by (simp add: c read_scores_append split: option.split)
qed

text \<open>The file as a table.\<close>

fun tabulate :: "(nat \<Rightarrow> nat \<Rightarrow> reply) \<Rightarrow> nat \<Rightarrow> signal_row list \<Rightarrow> score_table \<Rightarrow> score_table" where
  "tabulate ask i [] sc = sc"
| "tabulate ask i (r # rs) sc =
     tabulate ask (Suc i) rs (case fst (try_row (ask i) MAX_RETRIES_PER_ROW 0 0) of
                                None \<Rightarrow> sc | Some x \<Rightarrow> od_set (JStr (row_id r)) (JFloat x) sc)"

lemma try_row_fst: "fst (try_row ask n k f) = fst (try_row ask n k g)"
  by (induction n arbitrary: k f g) (simp_all split: option.split)

lemma try_row_Some: "fst (try_row ask n k f) = Some x \<Longrightarrow> \<exists>m. score_one (ask m) = Some x"
  by (induction n arbitrary: k f) (auto split: option.splits)

lemma score_one_values: "score_one rep = Some x \<Longrightarrow> x = 0 \<or> x = 1"
  by (auto simp: score_one_def split: reply.splits option.splits if_splits)

text \<open>The appending of lines refines the filling of a table.\<close>

lemma score_rows_refines:
  assumes "score_rows dumps ask i rows failures n content = (e, n', content')" and "whole content"
    and "list_all (\<lambda>r. reads_back loads dumps (row_id r) (JFloat 0) \<and> reads_back loads dumps (row_id r) (JFloat 1)) rows"
    and "read_scores loads (file_lines content) [] = Some sc"
  shows "whole content' \<and> n \<le> n' \<and> n' - n \<le> length rows \<and> (e = Completed \<longrightarrow> n' = n + length rows)
    \<and> read_scores loads (file_lines content') [] = Some (tabulate ask i (take (n' - n) rows) sc)"
  using assms
proof (induction rows arbitrary: i failures n content sc)
  case (Cons r rows)
  obtain s f1 where t: "try_row (ask i) MAX_RETRIES_PER_ROW 0 failures = (s, f1)" by fastforce
  have s: "fst (try_row (ask i) MAX_RETRIES_PER_ROW 0 0) = s"
    using try_row_fst [of "ask i" MAX_RETRIES_PER_ROW 0 0 failures] t by simp
  let ?content1 = "case s of None \<Rightarrow> content | Some x \<Rightarrow> content @ score_line dumps (row_id r) x"
  let ?sc1 = "case s of None \<Rightarrow> sc | Some x \<Rightarrow> od_set (JStr (row_id r)) (JFloat x) sc"
  have one: "whole ?content1 \<and> read_scores loads (file_lines ?content1) [] = Some ?sc1"
  proof (cases s)
    case (Some x)
    then have "x = 0 \<or> x = 1" using try_row_Some [of "ask i" MAX_RETRIES_PER_ROW 0 0 x] s score_one_values by blast
    with Cons.prems(3) have rb: "reads_back loads dumps (row_id r) (JFloat x)" by auto
    let ?line = "dumps (JObj [(''id'', JStr (row_id r)), (''score'', JFloat x)])"
    from rb have "newline \<notin> set ?line" by (simp add: reads_back_def Let_def)
    from load_line [OF Cons.prems(2) this] Cons.prems(4) read_back [OF rb] Some show ?thesis
      by (simp add: score_line_def whole_def)
  qed (use Cons.prems in simp)
  show ?case
  proof (cases "f1 \<ge> 15")
    case True
    with Cons.prems(1) t have "e = ServerDown" "n' = Suc n" "content' = ?content1" by (simp_all add: Let_def)
    with one s show ?thesis by (simp add: take_Suc_conv_app_nth)
  next
    case False
    with Cons.prems(1) t have run: "score_rows dumps ask (Suc i) rows f1 (Suc n) ?content1 = (e, n', content')"
      by (simp add: Let_def)
    from Cons.IH [OF run] one Cons.prems(3) have ih: "whole content' \<and> Suc n \<le> n' \<and> n' - Suc n \<le> length rows
        \<and> (e = Completed \<longrightarrow> n' = Suc n + length rows)
        \<and> read_scores loads (file_lines content') [] = Some (tabulate ask (Suc i) (take (n' - Suc n) rows) ?sc1)" by simp
    then obtain k where k: "n' = Suc n + k" using le_Suc_ex by blast
    with ih s show ?thesis by (simp add: Suc_diff_le)
  qed
qed simp

text \<open>What the table gains, and what it keeps.\<close>

lemma tabulate_other: "k \<notin> (\<lambda>r. JStr (row_id r)) ` set rows \<Longrightarrow> map_of (tabulate ask i rows sc) k = map_of sc k"
proof (induction rows arbitrary: i sc)
  case (Cons r rows)
  then show ?case by (simp add: map_of_od_set split: option.split)
qed simp

lemma tabulate_new:
  assumes "map_of (tabulate ask i rows sc) k = Some v"
  shows "map_of sc k = Some v \<or> (\<exists>j m x. k \<in> (\<lambda>r. JStr (row_id r)) ` set rows \<and> score_one (ask j m) = Some x \<and> v = JFloat x)"
  using assms
proof (induction rows arbitrary: i sc)
  case (Cons r rows)
  let ?s = "fst (try_row (ask i) MAX_RETRIES_PER_ROW 0 0)"
  let ?sc1 = "case ?s of None \<Rightarrow> sc | Some x \<Rightarrow> od_set (JStr (row_id r)) (JFloat x) sc"
  from Cons.prems have run: "map_of (tabulate ask (Suc i) rows ?sc1) k = Some v" by simp
  show ?case
  proof (cases "map_of ?sc1 k = Some v")
    case True
    show ?thesis
    proof (cases ?s)
      case (Some x)
      with True try_row_Some [of "ask i" MAX_RETRIES_PER_ROW 0 0 x] show ?thesis
        by (auto simp: map_of_od_set split: if_splits)
    qed (use True in simp)
  next
    case False
    with Cons.IH [OF run] show ?thesis by auto
  qed
qed simp

lemma unscored_ids: "r \<in> set (unscored sc rows) \<Longrightarrow> map_of sc (JStr (row_id r)) = None"
  by (simp add: unscored_def)

definition whole_file :: "string option \<Rightarrow> bool" where
  "whole_file file \<longleftrightarrow> (case file of None \<Rightarrow> True | Some c \<Rightarrow> whole c)"

definition good_rows :: "(string \<Rightarrow> json option) \<Rightarrow> (json \<Rightarrow> string) \<Rightarrow> signal_row list \<Rightarrow> bool" where
  "good_rows loads dumps rows \<longleftrightarrow>
     list_all (\<lambda>r. reads_back loads dumps (row_id r) (JFloat 0) \<and> reads_back loads dumps (row_id r) (JFloat 1)) rows"

text \<open>One run over a whole file.\<close>

lemma score_suite_run:
  assumes whole: "whole_file file" and good: "good_rows loads dumps suite"
    and already: "load_already_scored loads file = Some sc"
    and run: "score_suite loads dumps ask reachable limit suite file = (r, file')"
  shows "whole_file file' \<and> (\<exists>n. n \<le> length (unscored sc (limited limit suite))
    \<and> load_already_scored loads file' = Some (tabulate ask 0 (take n (unscored sc (limited limit suite))) sc)
    \<and> (case r of Ran Completed finished rows \<Rightarrow> n = length (unscored sc (limited limit suite)) | _ \<Rightarrow> True))"
proof -
  let ?todo = "unscored sc (limited limit suite)"
  have still: ?thesis if "file' = file" and "case r of Ran Completed finished rows \<Rightarrow> False | _ \<Rightarrow> True"
    using that whole already by (intro conjI exI [of _ 0]) (auto split: scoring_result.splits run_end.splits)
  show ?thesis
  proof (cases "?todo = [] \<or> \<not> reachable")
    case True
    with run already show ?thesis by (intro still) (auto simp: score_suite_def Let_def split: if_splits)
  next
    case False
    let ?c = "case file of None \<Rightarrow> [] | Some c \<Rightarrow> c"
    obtain e n' c' where s: "score_rows dumps ask 0 ?todo 0 (length sc) ?c = (e, n', c')" by (metis surj_pair)
    with run False already have out: "r = Ran e n' (length (limited limit suite))" "file' = Some c'"
      by (simp_all add: score_suite_def)
    have w: "whole ?c" using whole by (cases "file") (simp_all add: whole_file_def whole_def)
    have l: "read_scores loads (file_lines ?c) [] = Some sc"
      using already by (cases "file") (simp_all add: load_already_scored_def file_lines_def)
    have "set ?todo \<subseteq> set suite" by (auto simp: unscored_def limited_def dest: in_set_takeD split: option.splits if_splits)
    with good have "list_all (\<lambda>r. reads_back loads dumps (row_id r) (JFloat 0) \<and> reads_back loads dumps (row_id r) (JFloat 1)) ?todo"
      by (auto simp: good_rows_def list_all_iff)
    from score_rows_refines [OF s w this l] out show ?thesis
      by (intro conjI exI [of _ "n' - length sc"])
         (auto simp: whole_file_def load_already_scored_def split: run_end.splits)
  qed
qed

text \<open>The scores of a table, and those a run may add to it.\<close>

definition answered :: "(nat \<Rightarrow> nat \<Rightarrow> reply) \<Rightarrow> json \<Rightarrow> bool" where
  "answered ask v \<longleftrightarrow> (\<exists>j m x. score_one (ask j m) = Some x \<and> v = JFloat x)"

lemma limited_subset: "set (limited limit rows) \<subseteq> set rows"
  by (auto simp: limited_def dest: in_set_takeD split: option.splits if_splits)

lemma run_table:
  assumes "todo = take n (unscored sc rows)" and "set rows \<subseteq> set suite"
  shows "map_of sc \<subseteq>\<^sub>m map_of (tabulate ask i todo sc)"
    and "map_of (tabulate ask i todo sc) k = Some v \<Longrightarrow>
      map_of sc k = Some v \<or> k \<in> (\<lambda>r. JStr (row_id r)) ` set suite \<and> answered ask v"
proof -
  have ids: "map_of sc (JStr (row_id r)) = None" "r \<in> set suite" if "r \<in> set todo" for r
    using that unscored_ids [of r sc rows] assms set_take_subset [of n "unscored sc rows"] by (auto simp: unscored_def)
  show "map_of sc \<subseteq>\<^sub>m map_of (tabulate ask i todo sc)"
  proof (unfold map_le_def, intro ballI)
    fix k assume "k \<in> dom (map_of sc)"
    with ids(1) have "k \<notin> (\<lambda>r. JStr (row_id r)) ` set todo" by auto
    from tabulate_other [OF this] show "map_of sc k = map_of (tabulate ask i todo sc) k" by simp
  qed
  show "map_of sc k = Some v \<or> k \<in> (\<lambda>r. JStr (row_id r)) ` set suite \<and> answered ask v"
    if "map_of (tabulate ask i todo sc) k = Some v"
    using tabulate_new [OF that] ids(2) unfolding answered_def by blast
qed

text \<open>Runs one after the other: replies, whether the server was reached, the limit.\<close>

fun runs ::
  "(string \<Rightarrow> json option) \<Rightarrow> (json \<Rightarrow> string) \<Rightarrow> signal_row list \<Rightarrow> ((nat \<Rightarrow> nat \<Rightarrow> reply) \<times> bool \<times> int option) list
   \<Rightarrow> string option \<Rightarrow> string option" where
  "runs loads dumps suite [] file = file"
| "runs loads dumps suite ((ask, reachable, limit) # rs) file =
     runs loads dumps suite rs (snd (score_suite loads dumps ask reachable limit suite file))"

lemma runs_table:
  assumes "whole_file content" and "good_rows loads dumps suite" and "load_already_scored loads content = Some sc"
  shows "\<exists>sc'. load_already_scored loads (runs loads dumps suite rs content) = Some sc' \<and> map_of sc \<subseteq>\<^sub>m map_of sc'
    \<and> (\<forall>k v. map_of sc' k = Some v \<longrightarrow> map_of sc k = Some v \<or>
         k \<in> (\<lambda>r. JStr (row_id r)) ` set suite \<and> list_ex (\<lambda>(ask, reachable, limit). answered ask v) rs)"
  using assms
proof (induction rs arbitrary: content sc)
  case (Cons x rs)
  obtain ask reachable limit where x: "x = (ask, reachable, limit)" by (cases x)
  obtain r written where run: "score_suite loads dumps ask reachable limit suite content = (r, written)" by fastforce
  from score_suite_run [OF Cons.prems run] obtain n where w: "whole_file written"
    and l: "load_already_scored loads written = Some (tabulate ask 0 (take n (unscored sc (limited limit suite))) sc)" by blast
  note table = run_table [where todo = "take n (unscored sc (limited limit suite))" and rows = "limited limit suite" and suite = suite
      and sc = sc and ask = ask and i = 0, OF refl limited_subset]
  from Cons.IH [OF w Cons.prems(2) l] obtain sc' where
    "load_already_scored loads (runs loads dumps suite rs written) = Some sc'"
    "map_of (tabulate ask 0 (take n (unscored sc (limited limit suite))) sc) \<subseteq>\<^sub>m map_of sc'"
    and back_to: "\<And>k v. map_of sc' k = Some v \<Longrightarrow>
      map_of (tabulate ask 0 (take n (unscored sc (limited limit suite))) sc) k = Some v \<or>
      k \<in> (\<lambda>r. JStr (row_id r)) ` set suite \<and> list_ex (\<lambda>(ask, reachable, limit). answered ask v) rs" by blast
  moreover have "map_of sc k = Some v \<or>
      k \<in> (\<lambda>r. JStr (row_id r)) ` set suite \<and> list_ex (\<lambda>(ask, reachable, limit). answered ask v) (x # rs)"
    if "map_of sc' k = Some v" for k v
    using back_to [OF that] table(2) [of k v] x by auto
  moreover have "runs loads dumps suite (x # rs) content = runs loads dumps suite rs written" by (simp add: x run)
  ultimately show ?case using map_le_trans [OF table(1)] by (intro exI [of _ sc'] conjI allI impI) (simp, blast, blast)
qed simp

section \<open>Properties\<close>

text \<open>Claim C33: whatever runs follow one another on a file of whole lines, with whatever failures, limits and outages: every score
  that was in the file is still there and unchanged, and every other one is the 0 or 1 of a verdict the server gave in
  one of these runs, filed under the identifier of a row of the suite. No score is lost or made up.\<close>

theorem scores_survive_the_runs:
  "if whole_file file \<and> good_rows loads dumps suite
   then case load_already_scored loads file of
          None \<Rightarrow> True
        | Some sc \<Rightarrow>
            (case load_already_scored loads (runs loads dumps suite rs file) of
               None \<Rightarrow> False
             | Some sc' \<Rightarrow>
                 (case (map_of sc k, map_of sc' k) of
                    (Some v, new) \<Rightarrow> new = Some v
                  | (None, None) \<Rightarrow> True
                  | (None, Some v) \<Rightarrow> k \<in> (\<lambda>r. JStr (row_id r)) ` set suite \<and> v \<in> {JFloat 0, JFloat 1}
                      \<and> list_ex (\<lambda>(ask, reachable, limit). answered ask v) rs))
   else True"
proof (cases "whole_file file \<and> good_rows loads dumps suite")
  case ok: True
  show ?thesis
  proof (cases "load_already_scored loads file")
    case (Some sc)
    from runs_table [OF ok [THEN conjunct1] ok [THEN conjunct2] Some, of rs] obtain sc' where
      sc': "load_already_scored loads (runs loads dumps suite rs file) = Some sc'" "map_of sc \<subseteq>\<^sub>m map_of sc'"
      and new: "\<And>v. map_of sc' k = Some v \<Longrightarrow> map_of sc k = Some v \<or>
         k \<in> (\<lambda>r. JStr (row_id r)) ` set suite \<and> list_ex (\<lambda>(ask, reachable, limit). answered ask v) rs" by blast
    have binary: "v \<in> {JFloat 0, JFloat 1}" if "list_ex (\<lambda>(ask, reachable, limit). answered ask v) rs" for v
      using that score_one_values by (auto simp: list_ex_iff answered_def)
    show ?thesis
    proof (cases "map_of sc k")
      case None
      with ok Some sc' new binary show ?thesis by (auto split: option.split)
    next
      case (Some v)
      with sc'(2) have "map_of sc' k = Some v" by (auto simp: map_le_def dom_def)
      with ok Some sc' \<open>load_already_scored loads file = Some sc\<close> show ?thesis by simp
    qed
  qed (use ok in simp)
next
  case False
  then show ?thesis by (simp only: if_False)
qed

text \<open>One row, which the server calls unsafe, in a run on a file that does not exist yet. The stand-in for the JSON library knows
  the two lines there can be.\<close>

definition one_dumps :: "json \<Rightarrow> string" where
  "one_dumps v = (if v = JObj [(''id'', JStr ''a''), (''score'', JFloat 1)] then ''1'' else ''0'')"

definition one_loads :: "string \<Rightarrow> json option" where
  "one_loads s = Some (JObj [(''id'', JStr ''a''), (''score'', if s = ''1'' then JFloat 1 else JFloat 0)])"

definition one_reply :: reply where
  "one_reply = Reply 200 (Some (JObj [(''message'', JObj [(''content'', JStr ''unsafe'')])]))"

theorem scores_survive_the_runs_witness:
  "\<exists>sc. load_already_scored one_loads (runs one_loads one_dumps [[(''id'', JStr ''a'')]] [(\<lambda>i k. one_reply, True, None)] None) = Some sc
     \<and> map_of sc (JStr ''b'') = None"
proof -
  have good: "whole_file None \<and> good_rows one_loads one_dumps [[(''id'', JStr ''a'')]]"
    by (simp add: whole_file_def good_rows_def reads_back_def one_loads_def one_dumps_def string_field_def Let_def str_strip_def
        str_lstrip_def is_space_def)
  show ?thesis
    using scores_survive_the_runs [of None one_loads one_dumps "[[(''id'', JStr ''a'')]]" "JStr ''b''" "[(\<lambda>i k. one_reply, True, None)]"]
    unfolding if_P [OF good] by (auto simp: load_already_scored_def string_field_def split: option.splits)
qed

text \<open>A run that completes and failed at no row leaves nothing to do for the next one, which touches neither the server nor
  the file.\<close>

lemma tabulate_all:
  assumes "\<forall>j. fst (try_row (ask j) MAX_RETRIES_PER_ROW 0 0) \<noteq> None"
  shows "r \<in> set rows \<Longrightarrow> map_of (tabulate ask i rows sc) (JStr (row_id r)) \<noteq> None"
    and "map_of sc k \<noteq> None \<Longrightarrow> map_of (tabulate ask i rows sc) k \<noteq> None"
proof -
  show keep: "map_of (tabulate ask i rows sc) k \<noteq> None" if "map_of sc k \<noteq> None" for i sc k
    using that by (induction rows arbitrary: i sc) (auto simp: map_of_od_set split: option.split)
  have *: "map_of (tabulate ask i rows sc) k \<noteq> None" if "map_of sc k \<noteq> None" for rows i sc k
    using that by (induction rows arbitrary: i sc) (auto simp: map_of_od_set split: option.split)
  show "map_of (tabulate ask i rows sc) (JStr (row_id r)) \<noteq> None" if "r \<in> set rows"
    using that
  proof (induction rows arbitrary: i sc)
    case (Cons r' rows)
    from assms obtain x where "fst (try_row (ask i) MAX_RETRIES_PER_ROW 0 0) = Some x" by blast
    with Cons * [of "od_set (JStr (row_id r')) (JFloat x) sc"] show ?case by (auto simp: map_of_od_set)
  qed simp
qed

theorem complete_run_leaves_nothing:
  assumes "whole_file file" and "good_rows loads dumps suite" and "\<forall>j. fst (try_row (ask j) MAX_RETRIES_PER_ROW 0 0) \<noteq> None"
    and "score_suite loads dumps ask True limit suite file = (Ran Completed finished rows, file')"
  shows "score_suite loads dumps ask' reachable limit suite file' = (Nothing_to_do, file')"
proof -
  from assms(4) obtain sc where sc: "load_already_scored loads file = Some sc"
    by (cases "load_already_scored loads file") (simp_all add: score_suite_def)
  let ?todo = "unscored sc (limited limit suite)"
  from score_suite_run [OF assms(1,2) sc assms(4)] have l: "load_already_scored loads file' = Some (tabulate ask 0 ?todo sc)" by auto
  have "map_of (tabulate ask 0 ?todo sc) (JStr (row_id r)) \<noteq> None" if "r \<in> set (limited limit suite)" for r
  proof (cases "r \<in> set ?todo")
    case False
    with that have "map_of sc (JStr (row_id r)) \<noteq> None" by (auto simp: unscored_def)
    then show ?thesis by (rule tabulate_all(2) [OF assms(3)])
  qed (rule tabulate_all(1) [OF assms(3)])
  then have "unscored (tabulate ask 0 ?todo sc) (limited limit suite) = []" by (auto simp: unscored_def filter_empty_conv)
  with l show ?thesis by (simp add: score_suite_def)
qed

text \<open>An outage ends a run after five more rows, fifteen attempts, with the file as it was.\<close>

lemma try_row_down:
  assumes "\<forall>m. score_one (ask m) = None"
  shows "try_row ask n k failures = (None, failures + n)"
  using assms by (induction n arbitrary: k failures) simp_all

theorem outage_ends_the_run:
  "if (\<forall>j m. score_one (ask j m) = None)
   then score_rows dumps ask i rows 0 n content =
     (if length rows < 5 then (Completed, n + length rows, content) else (ServerDown, n + 5, content))
   else True"
proof (cases "\<forall>j m. score_one (ask j m) = None")
  case True
  then have down: "try_row (ask j) MAX_RETRIES_PER_ROW 0 f = (None, f + 3)" for j f
    by (simp add: try_row_down MAX_RETRIES_PER_ROW_def)
  have "score_rows dumps ask i rows (3 * d) n content =
      (if length rows + d < 5 then (Completed, n + length rows, content) else (ServerDown, n + (5 - d), content))" if "d < 5" for d
    using that
  proof (induction rows arbitrary: i d n)
    case (Cons r rows)
    show ?case
    proof (cases "d = 4")
      case False
      with Cons.prems have d: "Suc d < 5" "\<not> 15 \<le> 3 * d + 3" by simp_all
      have "score_rows dumps ask i (r # rows) (3 * d) n content = score_rows dumps ask (Suc i) rows (3 * Suc d) (Suc n) content"
        using d(2) by (simp add: down add.commute)
      with Cons.IH [OF d(1), of "Suc i" "Suc n"] d(1) show ?thesis by (simp del: score_rows.simps) (auto simp: Suc_diff_le simp del: score_rows.simps)
    qed (simp add: down)
  qed simp
  from this [of 0] True show ?thesis by simp
next
  case False
  then show ?thesis by (simp only: if_False)
qed

text \<open>The count a run reports is not the number of scores: it is raised for the rows that were given up as well, and starts
  from all scores of the file, those of other rows than the ones asked for included. A completed run always says that all
  rows are done, though it may have scored none.\<close>

theorem done_counts_rows_given_up:
  "case load_already_scored loads file of
     None \<Rightarrow> True
   | Some sc \<Rightarrow>
       (case score_suite loads dumps ask True limit suite file of
          (Ran Completed finished rows, file') \<Rightarrow>
            finished = length sc + length (unscored sc (limited limit suite))
            \<and> (if (\<forall>j m. score_one (ask j m) = None) then file' = Some (case file of None \<Rightarrow> [] | Some c \<Rightarrow> c) else True)
        | _ \<Rightarrow> True)"
proof (cases "load_already_scored loads file")
  case (Some sc)
  let ?todo = "unscored sc (limited limit suite)" and ?c = "case file of None \<Rightarrow> [] | Some c \<Rightarrow> c"
  have count: "n' = n + length rows" if "score_rows dumps ask i rows f n content = (Completed, n', content')" for i rows f n n' content content'
    using that by (induction rows arbitrary: i f n content) (fastforce simp: Let_def split: prod.splits if_splits)+
  have same: "content' = content" if "score_rows dumps ask i rows f n content = (e, n', content')" "\<forall>j m. score_one (ask j m) = None"
    for i rows f n n' content content' e
    using that(1)
    by (induction rows arbitrary: i f n content) (auto simp: Let_def try_row_down that(2) split: if_splits)
  obtain e n' c' where s: "score_rows dumps ask 0 ?todo 0 (length sc) ?c = (e, n', c')" by (metis surj_pair)
  with count [of 0 ?todo 0 "length sc" ?c n' c'] same [OF s] Some show ?thesis
    by (cases e) (simp_all add: score_suite_def Let_def)
qed simp

lemma try_row_reset: "try_row ask n k g = (Some y, f) \<Longrightarrow> f = 0"
  by (induction n arbitrary: k g) (auto split: option.splits)

text \<open>A kill that cuts a line costs more than the row it was writing: the next run appends to the torn line, so that the
  first row it scores, written out and reported as done, is not found again.\<close>

theorem torn_line_costs_a_scored_row:
  "case load_already_scored loads (Some (old @ newline # torn)) of
     None \<Rightarrow> True
   | Some sc \<Rightarrow>
       (case (unscored sc (limited limit suite), fst (try_row (ask 0) MAX_RETRIES_PER_ROW 0 0)) of
          ([row], Some x) \<Rightarrow>
            let line = dumps (JObj [(''id'', JStr (row_id row)), (''score'', JFloat x)])
            in if newline \<notin> set torn \<and> newline \<notin> set line \<and> loads (str_strip torn) = None \<and> loads (str_strip (torn @ line)) = None
               then case score_suite loads dumps ask True limit suite (Some (old @ newline # torn)) of
                      (Ran Completed finished rows, file') \<Rightarrow>
                        finished = Suc (length sc) \<and> load_already_scored loads file' = Some sc
                    | _ \<Rightarrow> False
               else True
        | _ \<Rightarrow> True)"
proof (cases "load_already_scored loads (Some (old @ newline # torn))")
  case (Some sc)
  show ?thesis
  proof (cases "\<exists>row x. unscored sc (limited limit suite) = [row] \<and> fst (try_row (ask 0) MAX_RETRIES_PER_ROW 0 0) = Some x")
    case True
    then obtain row x where row: "unscored sc (limited limit suite) = [row]" and x: "fst (try_row (ask 0) MAX_RETRIES_PER_ROW 0 0) = Some x"
      by blast
    let ?line = "dumps (JObj [(''id'', JStr (row_id row)), (''score'', JFloat x)])"
    have skip: "read_score loads l t = Some t" if "loads (str_strip l) = None" for l t
      using that by (simp add: read_score_def Let_def)
    have reads: "read_scores loads (file_lines (old @ newline # torn @ ?line @ [newline])) [] = Some sc"
      if "newline \<notin> set torn" "newline \<notin> set ?line" "loads (str_strip torn) = None" "loads (str_strip (torn @ ?line)) = None"
    proof -
      have "read_scores loads (file_lines old) [] = Some sc"
        using Some that(1) skip [OF that(3)] str_split_append [of newline old torn]
        by (simp add: load_already_scored_def file_lines_def read_scores_append str_split_no_sep split: option.splits)
      moreover have "file_lines (old @ newline # (torn @ ?line) @ [newline]) = file_lines old @ [torn @ ?line, []]"
        using that(1,2) by (intro file_lines_line) simp
      ultimately show ?thesis using skip [OF that(4)] by (simp add: read_scores_append)
    qed
    obtain f where "try_row (ask 0) MAX_RETRIES_PER_ROW 0 0 = (Some x, f)" using x by (metis prod.collapse)
    moreover from try_row_reset [OF this] have "f = 0" .
    ultimately have "score_rows dumps ask 0 [row] 0 (length sc) (old @ newline # torn) =
        (Completed, Suc (length sc), old @ newline # torn @ ?line @ [newline])"
      by (simp add: score_line_def)
    then have "score_suite loads dumps ask True limit suite (Some (old @ newline # torn)) =
        (Ran Completed (Suc (length sc)) (length (limited limit suite)), Some (old @ newline # torn @ ?line @ [newline]))"
      using Some row by (simp add: score_suite_def)
    with Some row x reads show ?thesis by (simp add: load_already_scored_def Let_def)
  qed (use Some in \<open>auto split: list.split option.split\<close>)
qed simp

text \<open>What the sample script carries over is not scored again: left to do are exactly the rows of the sample that neither
  file has a score for.\<close>

theorem carried_rows_are_not_scored_again:
  "if set (map row_id sample) \<subseteq> set ids
   then case carry_over dumps ids full have_scores content of
          (n, have', content') \<Rightarrow>
            unscored have' sample = filter (\<lambda>r. map_of full (JStr (row_id r)) = None) (unscored have_scores sample)
            \<and> length have' = length have_scores + n
   else True"
proof -
  have "(case carry_over dumps ids full have_scores content of (n, have', content') \<Rightarrow>
      length have' = length have_scores + n \<and> (\<forall>k. map_of have' k =
        (case map_of have_scores k of Some v \<Rightarrow> Some v | None \<Rightarrow> if k \<in> JStr ` set ids then map_of full k else None)))"
  proof (induction ids arbitrary: have_scores content)
    case (Cons i ids)
    show ?case
    proof (cases "map_of have_scores (JStr i) = None \<and> map_of full (JStr i) \<noteq> None")
      case True
      then obtain s where s: "map_of have_scores (JStr i) = None" "map_of full (JStr i) = Some s" by blast
      let ?h = "od_set (JStr i) s have_scores"
      have "length ?h = Suc (length have_scores)" using s(1) by (simp add: length_od_set map_of_eq_None_iff)
      with Cons.IH [of ?h "content @ dumps (JObj [(''id'', JStr i), (''score'', s)]) @ [newline]"] s show ?thesis
        by (auto simp: Let_def map_of_od_set split: prod.splits option.splits)
    next
      case False
      with Cons.IH [of have_scores content] show ?thesis
        by (auto split: prod.splits option.splits)
    qed
  qed (simp split: option.split)
  then show ?thesis
    by (auto simp: unscored_def image_subset_iff split: prod.splits option.splits intro!: filter_cong)
qed

end
