(* ===== verification/Language_Studies.thy ===== *)
theory Language_Studies
  imports Detector_Comparison Calibration
begin

text \<open>
  scripts/calibrate_german_threshold.py and scripts/sweep_fusion_variants.py: does a language need its own threshold, or its
  own weights. A cache file is the dictionary it is read as, the report of the comparison is its JSON, the shuffle is a
  permutation of the indices, and the cross-validated probabilities of scikit-learn are an argument. Printing is left out.
\<close>

section \<open>A threshold for one language\<close>

text \<open>\<open>score_missing\<close>: the completed cache and, when there was something to score, the file it is saved to. \<open>None\<close> first: a
  batch raised, and nothing is saved.\<close>

definition score_missing ::
  "batch_scorer \<Rightarrow> nat \<Rightarrow> signal_row list \<Rightarrow> score_cache \<Rightarrow> score_cache option \<times> score_cache option" where
  "score_missing f batch_size rows cache =
     (let missing = filter (\<lambda>r. map_of cache (row_id r) = None) rows
      in if missing = [] then (Some cache, None)
         else case score_chunks f (batches batch_size (map (string_field ''text'') missing)) of
                None \<Rightarrow> (None, None)
              | Some scores \<Rightarrow> let c = save_scores missing scores cache in (Some c, Some c))"

fun entry_threshold :: "string \<Rightarrow> json list \<Rightarrow> json" where
  "entry_threshold name [] = JNull"
| "entry_threshold name (JObj e # es) = (if jget e ''detector'' = JStr name then jget e ''threshold'' else entry_threshold name es)"
| "entry_threshold name (v # es) = entry_threshold name es"

text \<open>\<open>None\<close>: an exception leaves the function.\<close>

definition load_deployed_threshold :: "json option \<Rightarrow> string \<Rightarrow> json option" where
  "load_deployed_threshold report name =
     (case report of
        None \<Rightarrow> Some JNull
      | Some (JObj kvs) \<Rightarrow>
          (case jget_default kvs ''results'' (JList []) of
             JList es \<Rightarrow> Some (entry_threshold name es)
           | JObj _ \<Rightarrow> Some JNull
           | JStr _ \<Rightarrow> Some JNull
           | _ \<Rightarrow> None)
      | Some _ \<Rightarrow> None)"

text \<open>\<open>sum(1 for s, lab in zip(scores, labels) if lab == cls and s >= t) / max(1, number of labels)\<close>\<close>

definition rate_at :: "real list \<Rightarrow> bool list \<Rightarrow> real option option \<Rightarrow> bool \<Rightarrow> real" where
  "rate_at scores labels threshold cls =
     real (length (filter (\<lambda>(s, lab). lab = cls \<and> reaches threshold s) (zip scores labels)))
     / real (max 1 (length (filter (\<lambda>lab. lab = cls) labels)))"

record at_deployed =
  ad_recall :: real
  ad_fpr :: real
  ad_recall_delta :: real

record german_report =
  ge_rows :: nat
  ge_attacks :: nat
  ge_fit :: nat
  ge_eval :: nat
  ge_threshold :: "real option option"
  ge_deployed :: "real option"
  ge_auc :: interval
  ge_recall_at_budget :: interval
  ge_recall :: real
  ge_fpr :: real
  ge_comparison :: "at_deployed option"

datatype german_error = ScoringFailed | SingleClassSplit | UnreadableReport

definition GERMAN_BUDGET :: real where "GERMAN_BUDGET = 5 / 100"

definition german_rows :: "detector \<Rightarrow> string list option \<Rightarrow> signal_row list \<Rightarrow> signal_row list" where
  "german_rows d attack_classes rows =
     (let de = filter (\<lambda>r. string_field ''language'' r = ''de'' \<and> string_field ''source'' r \<notin> set (de_trained_on d)) rows
      in case attack_classes of
           None \<Rightarrow> de
         | Some classes \<Rightarrow>
             if classes = [] then de
             else filter (\<lambda>r. string_field ''attack_class'' r \<in> set classes \<union> {''benign''}) de)"

definition halves :: "nat list \<Rightarrow> nat list \<times> nat list" where
  "halves idx = (let half = length idx div 2 in (take half idx, drop half idx))"

definition read_threshold :: "json \<Rightarrow> real option option" where
  "read_threshold v = (if v = JNull then Some None else map_option Some (num_of v))"

text \<open>\<open>shuffled n\<close> is the order the seeded shuffle leaves the indices below \<open>n\<close> in, \<open>draws k n\<close> are \<open>k\<close> draws of the bootstrap.\<close>

definition german_study ::
  "batch_scorer \<Rightarrow> (nat \<Rightarrow> nat list) \<Rightarrow> (nat \<Rightarrow> nat \<Rightarrow> nat list list) \<Rightarrow> detector \<Rightarrow> string list option \<Rightarrow> json option
   \<Rightarrow> signal_row list \<Rightarrow> score_cache \<Rightarrow> (german_error, german_report) res \<times> score_cache option" where
  "german_study f shuffled draws d attack_classes comparison_file rows cache =
     (let de = german_rows d attack_classes rows
      in case score_missing f 16 de cache of
           (None, saved) \<Rightarrow> (Inl ScoringFailed, saved)
         | (Some c, saved) \<Rightarrow>
             let labels = map row_attack de; scores = map (\<lambda>r. the (map_of c (row_id r))) de;
                 (fit, eval) = halves (shuffled (length de));
                 fit_scores = map (\<lambda>i. scores ! i) fit; fit_labels = map (\<lambda>i. labels ! i) fit;
                 eval_scores = map (\<lambda>i. scores ! i) eval; eval_labels = map (\<lambda>i. labels ! i) eval
             in if length (remdups fit_labels) < 2 \<or> length (remdups eval_labels) < 2 then (Inl SingleClassSplit, saved)
                else
                  let t = threshold_at_fpr fit_scores fit_labels GERMAN_BUDGET;
                      ci = (\<lambda>statistic. bootstrap_ci (draws 1000 (length eval)) eval_scores eval_labels statistic DEFAULT_ALPHA);
                      recall = rate_at eval_scores eval_labels t True; fpr = rate_at eval_scores eval_labels t False
                  in case Option.bind (load_deployed_threshold comparison_file (de_name d)) read_threshold of
                       None \<Rightarrow> (Inl UnreadableReport, saved)
                     | Some deployed \<Rightarrow>
                         (Inr \<lparr>ge_rows = length de, ge_attacks = length (filter id labels), ge_fit = length fit, ge_eval = length eval,
                               ge_threshold = t, ge_deployed = deployed, ge_auc = ci roc_auc,
                               ge_recall_at_budget = ci (\<lambda>s lab. recall_at_fpr s lab GERMAN_BUDGET),
                               ge_recall = recall, ge_fpr = fpr,
                               ge_comparison = map_option (\<lambda>u.
                                 let r = rate_at eval_scores eval_labels (Some (Some u)) True
                                 in \<lparr>ad_recall = r, ad_fpr = rate_at eval_scores eval_labels (Some (Some u)) False,
                                     ad_recall_delta = recall - r\<rparr>) deployed\<rparr>, saved))"

section \<open>Variants of the fusion\<close>

definition DEPLOYED_4 :: "string list" where
  "DEPLOYED_4 = [''anchors'', ''protectai_injection'', ''madhurjindal_jailbreak'', ''toxic_bert'']"

definition PLUS_DEEPSET_5 :: "string list" where "PLUS_DEEPSET_5 = DEPLOYED_4 @ [''deepset_injection'']"
definition PLUS_PG2_5 :: "string list" where "PLUS_PG2_5 = DEPLOYED_4 @ [''prompt_guard_2'']"
definition PLUS_BOTH_6 :: "string list" where "PLUS_BOTH_6 = DEPLOYED_4 @ [''deepset_injection'', ''prompt_guard_2'']"
definition PLUS_ML_5 :: "string list" where "PLUS_ML_5 = DEPLOYED_4 @ [''multilingual_head'']"
definition ALL_7 :: "string list" where "ALL_7 = DEPLOYED_4 @ [''deepset_injection'', ''prompt_guard_2'', ''multilingual_head'']"
definition SHIPPED_6 :: "string list" where "SHIPPED_6 = DEPLOYED_4 @ [''deepset_injection'', ''prompt_guard_2'']"

definition GERMAN_TOX_FEATURES :: "string list" where
  "GERMAN_TOX_FEATURES = [''german_toxicity_eistakovskii'', ''german_toxicity_ankekat'']"

definition PLUS_GERMAN_TOX_8 :: "string list" where "PLUS_GERMAN_TOX_8 = SHIPPED_6 @ GERMAN_TOX_FEATURES"

definition NO_TOXIC_BERT_PLUS_GERMAN_TOX_7 :: "string list" where
  "NO_TOXIC_BERT_PLUS_GERMAN_TOX_7 = filter (\<lambda>f. f \<noteq> ''toxic_bert'') SHIPPED_6 @ GERMAN_TOX_FEATURES"

definition ALL_FEATURES :: "string list" where
  "ALL_FEATURES = DEPLOYED_4 @ [''deepset_injection'', ''prompt_guard_2'', ''multilingual_head''] @ GERMAN_TOX_FEATURES"

definition pooled_variants :: "(string \<times> string list) list" where
  "pooled_variants =
     [(''deployed_4'', DEPLOYED_4), (''plus_deepset_5'', PLUS_DEEPSET_5), (''plus_pg2_5'', PLUS_PG2_5), (''plus_both_6'', PLUS_BOTH_6),
      (''plus_ml_5'', PLUS_ML_5), (''all_7'', ALL_7), (''shipped_6'', SHIPPED_6), (''plus_german_tox_8'', PLUS_GERMAN_TOX_8)]"

definition german_variants :: "(string \<times> string list) list" where
  "german_variants = [(''de_conditional'', DEPLOYED_4), (''de_conditional_5'', PLUS_DEEPSET_5), (''de_conditional_6'', PLUS_BOTH_6)]"

text \<open>A \<open>KeyError\<close> is \<open>None\<close>: \<open>caches[n][id]\<close> of a feature that was not loaded, or of a row without a score.\<close>

fun all_present :: "'a option list \<Rightarrow> 'a list option" where
  "all_present [] = Some []"
| "all_present (None # xs) = None"
| "all_present (Some x # xs) = map_option (Cons x) (all_present xs)"

definition matrix_of ::
  "(string \<times> score_cache) list \<Rightarrow> string list \<Rightarrow> signal_row list \<Rightarrow> real list list option" where
  "matrix_of caches features rows =
     all_present (map (\<lambda>r. all_present (map (\<lambda>n. Option.bind (map_of caches n) (\<lambda>c. map_of c (row_id r))) features)) rows)"

definition oof ::
  "(real list list \<Rightarrow> bool list \<Rightarrow> real list) \<Rightarrow> string list \<Rightarrow> signal_row list \<Rightarrow> (string \<times> score_cache) list \<Rightarrow> bool list
   \<Rightarrow> real list option" where
  "oof cross_val features rows caches y = map_option (\<lambda>X. cross_val X y) (matrix_of caches features rows)"

record summary =
  su_n :: nat
  su_attack :: nat
  su_auc :: interval
  su_recall :: interval

definition summarize :: "(nat \<Rightarrow> nat list list) \<Rightarrow> real list \<Rightarrow> bool list \<Rightarrow> summary" where
  "summarize draws scores labels =
     \<lparr>su_n = length labels, su_attack = length (filter id labels),
      su_auc = bootstrap_ci (draws (length scores)) scores labels roc_auc DEFAULT_ALPHA,
      su_recall = bootstrap_ci (draws (length scores)) scores labels (\<lambda>s lab. recall_at_fpr s lab (5 / 100)) DEFAULT_ALPHA\<rparr>"

record variant =
  va_features :: "string list"
  va_by_language :: "(string \<times> summary) list"
  va_pooled :: "summary option"

definition pooled_entry ::
  "(nat \<Rightarrow> nat list list) \<Rightarrow> string list \<Rightarrow> string list \<Rightarrow> real list \<Rightarrow> bool list \<Rightarrow> variant" where
  "pooled_entry draws features langs scores y =
     \<lparr>va_features = features,
      va_by_language = List.map_filter (\<lambda>lang.
        let idx = filter (\<lambda>i. langs ! i = lang) [0..<length langs]
        in if length idx < 50 then None
           else Some (lang, summarize draws (map (\<lambda>i. scores ! i) idx) (map (\<lambda>i. y ! i) idx))) [''en'', ''de'', ''other''],
      va_pooled = Some (summarize draws scores y)\<rparr>"

fun entries :: "('a \<Rightarrow> 'b option) \<Rightarrow> (string \<times> 'a) list \<Rightarrow> (string \<times> 'b) list option" where
  "entries f [] = Some []"
| "entries f ((tag, x) # xs) =
     (case f x of None \<Rightarrow> None | Some v \<Rightarrow> map_option (Cons (tag, v)) (entries f xs))"

definition sweep_rows :: "(string \<times> score_cache) list \<Rightarrow> signal_row list \<Rightarrow> signal_row list" where
  "sweep_rows caches rows_all =
     filter (\<lambda>r. list_all (\<lambda>n. Option.bind (map_of caches n) (\<lambda>c. map_of c (row_id r)) \<noteq> None) ALL_FEATURES) rows_all"

text \<open>The number of rows and the entries of the report; \<open>None\<close> when a file is missing or a lookup raises.\<close>

definition sweep_over ::
  "(real list list \<Rightarrow> bool list \<Rightarrow> real list) \<Rightarrow> (nat \<Rightarrow> nat list list) \<Rightarrow> (string \<times> score_cache) list \<Rightarrow> signal_row list
   \<Rightarrow> (nat \<times> (string \<times> variant) list) option" where
  "sweep_over cross_val draws caches rows_all =
     (let rows = sweep_rows caches rows_all;
          y = map row_attack rows; langs = map (string_field ''language'') rows;
          de_rows = filter (\<lambda>r. string_field ''language'' r = ''de'') rows; y_de = map row_attack de_rows
      in case (entries (\<lambda>feats. map_option (\<lambda>scores. pooled_entry draws feats langs scores y) (oof cross_val feats rows caches y))
                 pooled_variants,
               entries (\<lambda>feats. map_option
                   (\<lambda>scores. \<lparr>va_features = feats, va_by_language = [(''de'', summarize draws scores y_de)], va_pooled = None\<rparr>)
                   (oof cross_val feats de_rows caches y_de)) german_variants) of
           (Some ps, Some gs) \<Rightarrow> Some (length rows, ps @ gs)
         | _ \<Rightarrow> None)"

definition sweep_variants ::
  "(real list list \<Rightarrow> bool list \<Rightarrow> real list) \<Rightarrow> (nat \<Rightarrow> nat list list) \<Rightarrow> (string \<Rightarrow> score_cache option) \<Rightarrow> signal_row list
   \<Rightarrow> (nat \<times> (string \<times> variant) list) option" where
  "sweep_variants cross_val draws load rows_all =
     Option.bind (all_present (map (\<lambda>n. map_option (Pair n) (load n)) ALL_FEATURES))
       (\<lambda>caches. sweep_over cross_val draws caches rows_all)"

section \<open>Lemmas\<close>

lemma score_chunks_lengths:
  assumes "\<forall>ts. case f ts of None \<Rightarrow> True | Some ss \<Rightarrow> length ss = length ts" and "score_chunks f cs = Some scores"
  shows "length scores = length (concat cs)"
  using assms(2)
proof (induction cs arbitrary: scores)
  case (Cons c cs)
  then obtain ss rest where ss: "f c = Some ss" "score_chunks f cs = Some rest" "scores = ss @ rest"
    by (auto split: option.splits)
  with Cons.IH assms(1) [rule_format, of c] show ?case by simp
qed simp

lemma save_scores_append:
  "length ss = length rs \<Longrightarrow> save_scores (rs @ rs') (ss @ ss') cache = save_scores rs' ss' (save_scores rs ss cache)"
  by (simp add: save_scores_def)

lemma map_batches: "map (map g) (batches n xs) = batches n (map g xs)"
proof (induction n xs rule: batches.induct)
  case (1 n xs)
  then show ?case
    by (subst (1 2) batches.simps) (auto simp: take_map drop_map)
qed

text \<open>Filling batch by batch comes to the same cache, and raises with the same detectors.\<close>

lemma fill_batches_scores:
  assumes "\<forall>ts. case f ts of None \<Rightarrow> True | Some ss \<Rightarrow> length ss = length ts"
  shows "case score_chunks f (map (map (string_field ''text'')) chunks) of
      None \<Rightarrow> fst (fill_batches f i chunks cache stored) = False
    | Some scores \<Rightarrow> fill_batches f i chunks cache stored = (True, save_scores (concat chunks) scores cache)"
proof (induction chunks arbitrary: i cache stored)
  case (Cons c cs)
  show ?case
  proof (cases "f (map (string_field ''text'') c)")
    case (Some ss)
    then have len: "length ss = length c" using assms [rule_format, of "map (string_field ''text'') c"] by simp
    let ?c1 = "save_scores c ss cache"
    note ih = Cons.IH [of "Suc i" ?c1 "if i mod 20 = 0 then ?c1 else stored"]
    show ?thesis
      using ih Some by (auto simp: Let_def save_scores_append [OF len] split: option.splits)
  qed simp
qed simp

lemma all_present_map: "(\<And>x. x \<in> set xs \<Longrightarrow> f x = Some (g x)) \<Longrightarrow> all_present (map f xs) = Some (map g xs)"
  by (induction xs) auto

lemma entries_total: "(\<And>x. x \<in> snd ` set xs \<Longrightarrow> f x = Some (g x)) \<Longrightarrow> entries f xs = Some (map (\<lambda>(t, x). (t, g x)) xs)"
  by (induction f xs rule: entries.induct) auto

lemma variant_features:
  "list_all (\<lambda>(tag, fs). set fs \<subseteq> set ALL_FEATURES) (pooled_variants @ german_variants)"
  by (simp add: pooled_variants_def german_variants_def ALL_FEATURES_def DEPLOYED_4_def PLUS_DEEPSET_5_def PLUS_PG2_5_def
      PLUS_BOTH_6_def PLUS_ML_5_def ALL_7_def SHIPPED_6_def PLUS_GERMAN_TOX_8_def GERMAN_TOX_FEATURES_def)

text \<open>The score a lookup finds in a row of the sweep.\<close>

definition found :: "(string \<times> score_cache) list \<Rightarrow> signal_row \<Rightarrow> string \<Rightarrow> real" where
  "found caches r n = the (Option.bind (map_of caches n) (\<lambda>c. map_of c (row_id r)))"

lemma matrix_total:
  assumes "set features \<subseteq> set ALL_FEATURES" and "set rows \<subseteq> set (sweep_rows caches rows_all)"
  shows "matrix_of caches features rows = Some (map (\<lambda>r. map (found caches r) features) rows)"
  unfolding matrix_of_def
proof (intro all_present_map)
  fix r n assume "r \<in> set rows" "n \<in> set features"
  with assms show "Option.bind (map_of caches n) (\<lambda>c. map_of c (row_id r)) = Some (found caches r n)"
    by (fastforce simp: found_def sweep_rows_def list_all_iff)
qed

section \<open>Properties\<close>

text \<open>The threshold is judged on rows it was not fitted to: the two halves share no row, leave none out, and differ in
  size by at most one.\<close>

theorem split_is_honest:
  "case halves perm of
     (fit, eval) \<Rightarrow> fit @ eval = perm \<and> length fit \<le> length eval \<and> length eval \<le> Suc (length fit)
       \<and> (if distinct perm then set fit \<inter> set eval = {} else True)"
  using set_take_disj_set_drop_if_distinct [of perm "length perm div 2" "length perm div 2"]
  by (auto simp: halves_def Let_def)

text \<open>\<open>score_missing\<close> and \<open>fill\<close> of another script are one function written twice, for a detector that gives a score per
  text: they complete the cache in the same way and raise together. But when a batch raises \<open>score_missing\<close> saves nothing
  of what the batches before it scored.\<close>

theorem score_missing_agrees_with_fill:
  "if 0 < n \<and> (\<forall>ts. case f ts of None \<Rightarrow> True | Some ss \<Rightarrow> length ss = length ts)
   then case score_missing f n rows cache of
          (Some c, saved) \<Rightarrow> fill f n rows cache = (True, c) \<and> (case saved of None \<Rightarrow> c = cache | Some c' \<Rightarrow> c' = c)
        | (None, saved) \<Rightarrow> fst (fill f n rows cache) = False \<and> saved = None
   else True"
proof (cases "0 < n \<and> (\<forall>ts. case f ts of None \<Rightarrow> True | Some ss \<Rightarrow> length ss = length ts)")
  case True
  let ?missing = "filter (\<lambda>r. map_of cache (row_id r) = None) rows"
  note same = fill_batches_scores [OF True [THEN conjunct2], where chunks = "batches n ?missing" and i = 0 and cache = cache and stored = cache,
      unfolded map_batches concat_batches [OF True [THEN conjunct1]]]
  have "case score_missing f n rows cache of
          (Some c, saved) \<Rightarrow> fill f n rows cache = (True, c) \<and> (case saved of None \<Rightarrow> c = cache | Some c' \<Rightarrow> c' = c)
        | (None, saved) \<Rightarrow> fst (fill f n rows cache) = False \<and> saved = None"
  proof (cases "?missing = []")
    case False
    with same show ?thesis by (auto simp: score_missing_def fill_def Let_def split: option.splits)
  qed (simp add: score_missing_def fill_def)
  with True show ?thesis by simp
next
  case False
  then show ?thesis by (simp only: if_False)
qed

text \<open>The sweep never stumbles over a missing score: whatever the caches hold, when they can all be read, every variant is
  evaluated, and every pooled one on all the rows that are left.\<close>

theorem sweep_is_complete:
  "case all_present (map (\<lambda>n. map_option (Pair n) (load n)) ALL_FEATURES) of
     None \<Rightarrow> sweep_variants cross_val draws load rows = None
   | Some caches \<Rightarrow>
       (case sweep_variants cross_val draws load rows of
          None \<Rightarrow> False
        | Some (n, vs) \<Rightarrow>
            map (\<lambda>(tag, v). (tag, va_features v)) vs = pooled_variants @ german_variants \<and> n = length (sweep_rows caches rows)
            \<and> list_all (\<lambda>(tag, v). case va_pooled v of None \<Rightarrow> True | Some s \<Rightarrow> su_n s = n) vs)"
proof (cases "all_present (map (\<lambda>n. map_option (Pair n) (load n)) ALL_FEATURES)")
  case (Some caches)
  let ?rows = "sweep_rows caches rows"
  let ?de = "filter (\<lambda>r. string_field ''language'' r = ''de'') ?rows"
  let ?scores = "\<lambda>rs fs. cross_val (map (\<lambda>r. map (found caches r) fs) rs) (map row_attack rs)"
  let ?pooled = "\<lambda>fs. pooled_entry draws fs (map (string_field ''language'') ?rows) (?scores ?rows fs) (map row_attack ?rows)"
  let ?german = "\<lambda>fs. \<lparr>va_features = fs, va_by_language = [(''de'', summarize draws (?scores ?de fs) (map row_attack ?de))],
    va_pooled = None\<rparr>"
  have oof: "oof cross_val fs rs caches (map row_attack rs) = Some (?scores rs fs)"
    if "fs \<in> snd ` set (pooled_variants @ german_variants)" "set rs \<subseteq> set ?rows" for fs rs
    using that variant_features matrix_total [of fs rs caches rows] by (fastforce simp: oof_def list_all_iff)
  have "entries (\<lambda>fs. map_option (\<lambda>scores. pooled_entry draws fs (map (string_field ''language'') ?rows) scores (map row_attack ?rows))
      (oof cross_val fs ?rows caches (map row_attack ?rows))) pooled_variants = Some (map (\<lambda>(t, fs). (t, ?pooled fs)) pooled_variants)"
    by (rule entries_total) (use oof in auto)
  moreover have "entries (\<lambda>fs. map_option (\<lambda>scores. \<lparr>va_features = fs, va_by_language = [(''de'', summarize draws scores (map row_attack ?de))],
      va_pooled = None\<rparr>) (oof cross_val fs ?de caches (map row_attack ?de))) german_variants = Some (map (\<lambda>(t, fs). (t, ?german fs)) german_variants)"
  proof (rule entries_total)
    fix fs assume "fs \<in> snd ` set german_variants"
    then have "oof cross_val fs ?de caches (map row_attack ?de) = Some (?scores ?de fs)"
      by (intro oof) force+
    then show "map_option (\<lambda>scores. \<lparr>va_features = fs, va_by_language = [(''de'', summarize draws scores (map row_attack ?de))],
      va_pooled = None\<rparr>) (oof cross_val fs ?de caches (map row_attack ?de)) = Some (?german fs)" by simp
  qed
  ultimately have "sweep_variants cross_val draws load rows =
      Some (length ?rows, map (\<lambda>(t, fs). (t, ?pooled fs)) pooled_variants @ map (\<lambda>(t, fs). (t, ?german fs)) german_variants)"
    by (simp add: sweep_variants_def Some sweep_over_def Let_def)
  with Some show ?thesis
    by (auto simp: pooled_entry_def summarize_def list_all_iff intro: map_idI split: prod.splits)
qed (simp add: sweep_variants_def)

text \<open>The list of results without the envelope, which the script allows for, is not readable: \<open>report.get\<close> is evaluated
  first.\<close>

lemma bare_list_raises: "load_deployed_threshold (Some (JList es)) name = None"
  by (simp add: load_deployed_threshold_def)

text \<open>Two variants have the same features under two names, and the one that was to tell whether \<open>toxic_bert\<close> is only noise
  is never run.\<close>

lemma shipped_is_plus_both: "SHIPPED_6 = PLUS_BOTH_6"
  by (simp add: SHIPPED_6_def PLUS_BOTH_6_def)

lemma noise_variant_is_not_run: "list_all (\<lambda>(tag, fs). fs \<noteq> NO_TOXIC_BERT_PLUS_GERMAN_TOX_7) (pooled_variants @ german_variants)"
  by (simp add: pooled_variants_def german_variants_def NO_TOXIC_BERT_PLUS_GERMAN_TOX_7_def DEPLOYED_4_def PLUS_DEEPSET_5_def
      PLUS_PG2_5_def PLUS_BOTH_6_def PLUS_ML_5_def ALL_7_def SHIPPED_6_def PLUS_GERMAN_TOX_8_def GERMAN_TOX_FEATURES_def)

end
