(* ===== verification/Stratified_Samples.thy ===== *)
theory Stratified_Samples
  imports Language_Studies Risk "HOL-Library.List_Lexorder" "HOL-Library.Product_Lexorder" "HOL-Library.Char_ord"
    "HOL-Library.Multiset"
begin

text \<open>
  scripts/generate_decision_replay_corpus.py and scripts/eval_llama_guard_sample.py: two stratified samples of the suite, the
  first to freeze the decisions of the risk pipeline, the second to compare a slow detector with the others on the same rows.
  The seeded generator is an argument: \<open>draw i pool n\<close> are the \<open>n\<close> rows it takes at its \<open>i\<close>-th call, \<open>shuffled\<close> is the
  order it leaves a list in. Cross-validated scores and coefficients of scikit-learn are arguments. Printing is left out.
\<close>

section \<open>The corpus of decisions\<close>

type_synonym stratum = "string \<times> string"

definition tag :: "string \<Rightarrow> signal_row \<Rightarrow> string" where
  "tag k r = (case map_of r k of None \<Rightarrow> ''unknown'' | Some v \<Rightarrow> string_field k r)"

definition stratum_of :: "signal_row \<Rightarrow> stratum" where
  "stratum_of r = (tag ''attack_class'' r, tag ''language'' r)"

definition group_of :: "('k \<times> 'a list) list \<Rightarrow> 'k \<Rightarrow> 'a list" where
  "group_of gs k = (case map_of gs k of None \<Rightarrow> [] | Some g \<Rightarrow> g)"

definition strata :: "signal_row list \<Rightarrow> (stratum \<times> signal_row list) list" where
  "strata rows = foldl (\<lambda>gs r. od_set (stratum_of r) (group_of gs (stratum_of r) @ [r]) gs) [] rows"

text \<open>\<open>round(x)\<close>: to the nearest integer, and to the even one of two.\<close>

definition py_round :: "real \<Rightarrow> int" where
  "py_round x =
     (let f = \<lfloor>x\<rfloor>; d = x - of_int f
      in if d < 1 / 2 then f else if d > 1 / 2 then f + 1 else if even f then f else f + 1)"

definition allocate :: "nat \<Rightarrow> int \<Rightarrow> (stratum \<times> signal_row list) list \<Rightarrow> (stratum \<times> int) list" where
  "allocate n target groups =
     map (\<lambda>(k, g). (k, max 1 (py_round (real (length g) / real n * of_int target)))) groups"

text \<open>The first of the largest strata.\<close>

fun largest :: "(stratum \<times> signal_row list) list \<Rightarrow> stratum option" where
  "largest [] = None"
| "largest ((k, g) # gs) =
     (case largest gs of
        None \<Rightarrow> Some k
      | Some k' \<Rightarrow> if length (group_of gs k') > length g then Some k' else Some k)"

text \<open>\<open>None\<close>: \<open>max\<close> of no stratum raises.\<close>

definition adjusted :: "int \<Rightarrow> (stratum \<times> signal_row list) list \<Rightarrow> (stratum \<times> int) list \<Rightarrow> (stratum \<times> int) list option" where
  "adjusted target groups allocs =
     (let diff = target - sum_list (map snd allocs)
      in if diff = 0 then Some allocs
         else map_option (\<lambda>k. map (\<lambda>(k', a). (k', if k' = k then a + diff else a)) allocs) (largest groups))"

text \<open>The strata in order; \<open>None\<close> when a count is negative, which the generator refuses.\<close>

fun draw_strata ::
  "(nat \<Rightarrow> signal_row list \<Rightarrow> nat \<Rightarrow> signal_row list) \<Rightarrow> nat \<Rightarrow> (stratum \<times> signal_row list) list \<Rightarrow> (stratum \<times> int) list
   \<Rightarrow> stratum list \<Rightarrow> signal_row list option" where
  "draw_strata draw i groups allocs [] = Some []"
| "draw_strata draw i groups allocs (k # ks) =
     (let group = group_of groups k;
          n = min (case map_of allocs k of None \<Rightarrow> 0 | Some a \<Rightarrow> a) (int (length group))
      in if n < 0 then None
         else map_option ((@) (draw i (sort_key row_id group) (nat n))) (draw_strata draw (Suc i) groups allocs ks))"

definition sample_stratified_rows ::
  "(nat \<Rightarrow> signal_row list \<Rightarrow> nat \<Rightarrow> signal_row list) \<Rightarrow> int \<Rightarrow> signal_row list \<Rightarrow> signal_row list option" where
  "sample_stratified_rows draw target rows =
     (let groups = strata rows
      in case adjusted target groups (allocate (length rows) target groups) of
           None \<Rightarrow> None
         | Some allocs \<Rightarrow> map_option (sort_key row_id) (draw_strata draw 0 groups allocs (sort (map fst groups))))"

record corpus_entry =
  ce_id :: string
  ce_text :: string
  ce_sha :: string
  ce_stratum :: stratum
  ce_risk :: string
  ce_source :: string

text \<open>The two functions of the cache are replaced in the module while the rows are scored.\<close>

definition bypass :: "('v, 'c, 'l, 'j) risk_ops \<Rightarrow> ('v, 'c, 'l, 'j) risk_ops" where
  "bypass R = R\<lparr>ro_lookup := (\<lambda>prompt v c. (None, c)), ro_save := (\<lambda>prompt v risk score source c. c)\<rparr>"

definition corpus_row ::
  "(string \<Rightarrow> string) \<Rightarrow> 'v risk_env \<Rightarrow> ('v, 'c, 'l, 'j) risk_ops \<Rightarrow> signal_row \<Rightarrow> ('c, 'l, 'j) risk_state
   \<Rightarrow> corpus_entry \<times> ('c, 'l, 'j) risk_state" where
  "corpus_row sha E R row st =
     (let text = string_field ''text'' row; (out, st1) = assess_risk E (bypass R) False text None st
      in (\<lparr>ce_id = row_id row, ce_text = text, ce_sha = sha text, ce_stratum = stratum_of row,
           ce_risk = ar_risk_level (ou_result out), ce_source = ar_source (ou_result out)\<rparr>, st1))"

fun corpus_rows ::
  "(string \<Rightarrow> string) \<Rightarrow> 'v risk_env \<Rightarrow> ('v, 'c, 'l, 'j) risk_ops \<Rightarrow> signal_row list \<Rightarrow> ('c, 'l, 'j) risk_state
   \<Rightarrow> corpus_entry list \<times> ('c, 'l, 'j) risk_state" where
  "corpus_rows sha E R [] st = ([], st)"
| "corpus_rows sha E R (r # rs) st =
     (let (e, st1) = corpus_row sha E R r st; (es, st2) = corpus_rows sha E R rs st1 in (e # es, st2))"

definition generate_corpus ::
  "(nat \<Rightarrow> signal_row list \<Rightarrow> nat \<Rightarrow> signal_row list) \<Rightarrow> (string \<Rightarrow> string) \<Rightarrow> 'v risk_env \<Rightarrow> ('v, 'c, 'l, 'j) risk_ops \<Rightarrow> int
   \<Rightarrow> signal_row list \<Rightarrow> ('c, 'l, 'j) risk_state \<Rightarrow> corpus_entry list option \<times> ('c, 'l, 'j) risk_state" where
  "generate_corpus draw sha E R target suite st =
     (case sample_stratified_rows draw target suite of
        None \<Rightarrow> (None, st)
      | Some sampled \<Rightarrow> map_prod Some id (corpus_rows sha E R sampled st))"

section \<open>The sample with the slow detector\<close>

record sample_counts =
  sc_harmful :: nat
  sc_injection :: nat
  sc_jailbreak :: nat
  sc_benign :: nat

definition label_is :: "int \<Rightarrow> signal_row \<Rightarrow> bool" where
  "label_is n r = py_eq (jget r ''label'') (JInt n)"

definition attacks_of :: "string \<Rightarrow> signal_row list \<Rightarrow> signal_row list" where
  "attacks_of cls rows = filter (\<lambda>r. string_field ''attack_class'' r = cls \<and> label_is 1 r) rows"

text \<open>\<open>None\<close>: a count below zero, which the generator refuses.\<close>

definition build_sample ::
  "(nat \<Rightarrow> signal_row list \<Rightarrow> nat \<Rightarrow> signal_row list) \<Rightarrow> (signal_row list \<Rightarrow> signal_row list) \<Rightarrow> signal_row list \<Rightarrow> int \<Rightarrow> int
   \<Rightarrow> (signal_row list \<times> sample_counts) option" where
  "build_sample draw shuffled rows per_other_class benign_n =
     (let harmful = attacks_of ''harmful_content'' rows; injection = attacks_of ''prompt_injection'' rows;
          jailbreak = attacks_of ''jailbreak'' rows; benign = filter (label_is 0) rows;
          size = (\<lambda>n pool. nat (min n (int (length pool))))
      in if per_other_class < 0 \<or> benign_n < 0 then None
         else Some (shuffled (harmful @ draw 0 injection (size per_other_class injection)
                                @ draw 1 jailbreak (size per_other_class jailbreak) @ draw 2 benign (size benign_n benign)),
                    \<lparr>sc_harmful = length harmful, sc_injection = size per_other_class injection,
                     sc_jailbreak = size per_other_class jailbreak, sc_benign = size benign_n benign\<rparr>))"

text \<open>The file of the scores is the list of its lines; reading it, the last line of an identifier counts. A batch that raises
  ends the run, with the lines of the batches before it in the file.\<close>

type_synonym score_log = "(string \<times> real) list"

definition read_log :: "score_log \<Rightarrow> score_cache" where
  "read_log ls = foldl (\<lambda>c (i, s). od_set i s c) [] ls"

fun score_todo :: "batch_scorer \<Rightarrow> signal_row list list \<Rightarrow> score_cache \<Rightarrow> score_log \<Rightarrow> score_cache option \<times> score_log" where
  "score_todo f [] cached ls = (Some cached, ls)"
| "score_todo f (chunk # rest) cached ls =
     (case f (map (string_field ''text'') chunk) of
        None \<Rightarrow> (None, ls)
      | Some scores \<Rightarrow> score_todo f rest (save_scores chunk scores cached) (ls @ map2 (\<lambda>r s. (row_id r, s)) chunk scores))"

definition score_llama_guard ::
  "bool \<Rightarrow> batch_scorer \<Rightarrow> bool \<Rightarrow> signal_row list \<Rightarrow> score_log \<Rightarrow> score_cache option \<times> score_log" where
  "score_llama_guard available f refresh sample ls =
     (if \<not> available then (None, ls)
      else let cached = (if refresh then [] else read_log ls);
               todo = filter (\<lambda>r. map_of cached (row_id r) = None) sample
           in score_todo f (batches 8 todo) cached ls)"

record sample_result =
  sr_detector :: string
  sr_auc :: interval
  sr_recall :: interval
  sr_n :: nat

definition evaluate_single ::
  "(nat \<Rightarrow> nat list list) \<Rightarrow> string \<Rightarrow> real list \<Rightarrow> bool list \<Rightarrow> real \<Rightarrow> sample_result" where
  "evaluate_single draws name scores labels budget =
     \<lparr>sr_detector = name, sr_auc = bootstrap_ci (draws (length scores)) scores labels roc_auc DEFAULT_ALPHA,
      sr_recall = bootstrap_ci (draws (length scores)) scores labels (\<lambda>s lab. recall_at_fpr s lab budget) DEFAULT_ALPHA,
      sr_n = length labels\<rparr>"

text \<open>The detectors with a score for every row of the sample, the slow one first.\<close>

definition LLAMA_GUARD :: string where "LLAMA_GUARD = ''llama_guard_3_1b''"

definition sample_detectors ::
  "(string \<Rightarrow> score_cache option) \<Rightarrow> score_cache \<Rightarrow> signal_row list \<Rightarrow> (detector \<times> score_cache) list" where
  "sample_detectors load_cached lg_scores sample =
     map (\<lambda>d. (d, lg_scores)) (filter (\<lambda>d. de_name d = LLAMA_GUARD) REGISTRY)
     @ List.map_filter
         (\<lambda>d. if de_name d = LLAMA_GUARD then None
              else case load_cached (de_name d) of
                     None \<Rightarrow> None
                   | Some c \<Rightarrow> if c \<noteq> [] \<and> list_all (\<lambda>r. map_of c (row_id r) \<noteq> None) sample then Some (d, c) else None) REGISTRY"

definition score_in :: "score_cache \<Rightarrow> signal_row \<Rightarrow> real" where
  "score_in c r = the (map_of c (row_id r))"

text \<open>A detector without the rows of the sources it was trained on; \<open>None\<close> with fewer than two labels left.\<close>

definition single_result ::
  "(nat \<Rightarrow> nat list list) \<Rightarrow> real \<Rightarrow> signal_row list \<Rightarrow> detector \<times> score_cache \<Rightarrow> sample_result option" where
  "single_result draws budget sample dc =
     (let keep = filter (\<lambda>r. string_field ''source'' r \<notin> set (de_trained_on (fst dc))) sample; labels = map row_attack keep
      in if length (remdups labels) < 2 then None
         else Some (evaluate_single draws (de_name (fst dc)) (map (score_in (snd dc)) keep) labels budget))"

text \<open>The share of the harmful rows that reach the threshold the scores have on the whole sample, which none does when it is not a
  number; \<open>None\<close> when there is no harmful row to divide by.\<close>

definition harmful_share :: "real \<Rightarrow> signal_row list \<Rightarrow> real list \<Rightarrow> real option" where
  "harmful_share budget sample scores =
     (let hc = map snd (filter (\<lambda>(r, s). string_field ''attack_class'' r = ''harmful_content'') (zip sample scores));
          threshold = threshold_at_fpr scores (map row_attack sample) budget
      in if hc = [] then None else Some (share threshold hc))"

record fusion_result_on_sample =
  fs_auc :: interval
  fs_harmful :: real

definition fusion_on_sample ::
  "(real list list \<Rightarrow> bool list \<Rightarrow> real list) \<Rightarrow> (nat \<Rightarrow> nat list list) \<Rightarrow> real \<Rightarrow> signal_row list \<Rightarrow> (detector \<times> score_cache) list
   \<Rightarrow> fusion_result_on_sample option" where
  "fusion_on_sample cross_val draws budget sample ds =
     (let labels = map row_attack sample; oof = cross_val (map (\<lambda>r. map (\<lambda>(d, c). score_in c r) ds) sample) labels
      in map_option (\<lambda>h. \<lparr>fs_auc = bootstrap_ci (draws (length oof)) oof labels roc_auc DEFAULT_ALPHA, fs_harmful = h\<rparr>)
           (harmful_share budget sample oof))"

record sample_report =
  sx_counts :: sample_counts
  sx_attacks :: nat
  sx_single :: "sample_result list"
  sx_harmful :: "(string \<times> real) list"
  sx_with :: fusion_result_on_sample
  sx_without :: fusion_result_on_sample

definition sample_figures ::
  "(real list list \<Rightarrow> bool list \<Rightarrow> real list) \<Rightarrow> (nat \<Rightarrow> nat list list) \<Rightarrow> real \<Rightarrow> signal_row list \<Rightarrow> sample_counts
   \<Rightarrow> (detector \<times> score_cache) list \<Rightarrow> sample_report option" where
  "sample_figures cross_val draws budget sample counts ds =
     (let fusion = filter (\<lambda>(d, c). de_trained_on d = []) ds;
          without = filter (\<lambda>(d, c). de_name d \<noteq> LLAMA_GUARD) fusion;
          harmful = all_present (map (\<lambda>(d, c). map_option (Pair (de_name d)) (harmful_share budget sample (map (score_in c) sample))) ds)
      in case (harmful, fusion_on_sample cross_val draws budget sample fusion, fusion_on_sample cross_val draws budget sample without) of
           (Some h, Some f, Some f0) \<Rightarrow>
             Some \<lparr>sx_counts = counts, sx_attacks = length (filter row_attack sample),
                   sx_single = List.map_filter (single_result draws budget sample) ds, sx_harmful = h, sx_with = f, sx_without = f0\<rparr>
         | _ \<Rightarrow> None)"

text \<open>The report, or \<open>None\<close> when something raises, and the file of the scores.\<close>

definition eval_llama_guard_sample ::
  "(nat \<Rightarrow> signal_row list \<Rightarrow> nat \<Rightarrow> signal_row list) \<Rightarrow> (signal_row list \<Rightarrow> signal_row list)
   \<Rightarrow> (real list list \<Rightarrow> bool list \<Rightarrow> real list) \<Rightarrow> (nat \<Rightarrow> nat list list) \<Rightarrow> bool \<Rightarrow> batch_scorer \<Rightarrow> (string \<Rightarrow> score_cache option)
   \<Rightarrow> int \<Rightarrow> int \<Rightarrow> real \<Rightarrow> bool \<Rightarrow> signal_row list \<Rightarrow> score_log \<Rightarrow> sample_report option \<times> score_log" where
  "eval_llama_guard_sample draw shuffled cross_val draws available f load_cached per_other_class benign_n budget refresh rows ls =
     (case build_sample draw shuffled rows per_other_class benign_n of
        None \<Rightarrow> (None, ls)
      | Some (sample, counts) \<Rightarrow>
          (case score_llama_guard available f refresh sample ls of
             (None, lines1) \<Rightarrow> (None, lines1)
           | (Some lg, lines1) \<Rightarrow>
               (sample_figures cross_val draws budget sample counts (sample_detectors load_cached lg sample), lines1)))"

section \<open>Lemmas\<close>

lemma strata_snoc: "strata (rows @ [r]) = od_set (stratum_of r) (group_of (strata rows) (stratum_of r) @ [r]) (strata rows)"
  by (simp add: strata_def)

lemma group_of_strata: "group_of (strata rows) k = filter (\<lambda>r. stratum_of r = k) rows"
proof (induction rows rule: rev_induct)
  case Nil
  then show ?case by (simp add: strata_def group_of_def)
next
  case (snoc r rows)
  then show ?case by (auto simp: strata_snoc group_of_def map_of_od_set)
qed

lemma strata_keys: "od_wf (strata rows) \<and> set (map fst (strata rows)) = stratum_of ` set rows"
proof (induction rows rule: rev_induct)
  case Nil
  then show ?case by (simp add: strata_def od_wf_def)
next
  case (snoc r rows)
  then show ?case by (simp add: strata_snoc keys_od_set od_wf_od_set)
qed

text \<open>The generator takes as many rows as it is asked for, each of them once.\<close>

definition draws_rows :: "(nat \<Rightarrow> signal_row list \<Rightarrow> nat \<Rightarrow> signal_row list) \<Rightarrow> bool" where
  "draws_rows draw \<longleftrightarrow> (\<forall>i pool n. n \<le> length pool \<longrightarrow> length (draw i pool n) = n \<and> mset (draw i pool n) \<subseteq># mset pool)"

lemma draws_rowsD: "draws_rows draw \<Longrightarrow> n \<le> length pool \<Longrightarrow> length (draw i pool n) = n"
    "draws_rows draw \<Longrightarrow> n \<le> length pool \<Longrightarrow> mset (draw i pool n) \<subseteq># mset pool"
  by (simp_all add: draws_rows_def)

definition granted :: "(stratum \<times> int) list \<Rightarrow> stratum \<Rightarrow> int" where
  "granted allocs k = (case map_of allocs k of None \<Rightarrow> 0 | Some a \<Rightarrow> a)"

text \<open>What is drawn from a list of different strata.\<close>

lemma mset_by_stratum:
  "distinct ks \<Longrightarrow> mset (concat (map (\<lambda>k. filter (\<lambda>r. stratum_of r = k) rows) ks)) \<subseteq># mset rows"
proof (induction ks arbitrary: rows)
  case (Cons k ks)
  let ?rest = "filter (\<lambda>r. stratum_of r \<noteq> k) rows"
  have eq: "map (\<lambda>k'. filter (\<lambda>r. stratum_of r = k') rows) ks = map (\<lambda>k'. filter (\<lambda>r. stratum_of r = k') ?rest) ks"
    using Cons.prems by (auto intro!: map_cong filter_cong)
  have "mset (concat (map (\<lambda>k'. filter (\<lambda>r. stratum_of r = k') ?rest) ks)) \<subseteq># mset ?rest"
    using Cons.prems by (intro Cons.IH) simp
  then have "mset (filter (\<lambda>r. stratum_of r = k) rows) + mset (concat (map (\<lambda>k'. filter (\<lambda>r. stratum_of r = k') rows) ks))
      \<subseteq># filter_mset (\<lambda>r. stratum_of r = k) (mset rows) + filter_mset (\<lambda>r. stratum_of r \<noteq> k) (mset rows)"
    unfolding eq mset_filter by (rule subset_mset.add_left_mono)
  then show ?case unfolding multiset_partition [symmetric] by simp
qed simp

lemma draw_strata_sound:
  assumes "draws_rows draw"
  shows "draw_strata draw i (strata rows) allocs ks = Some s \<Longrightarrow>
    mset s \<subseteq># mset (concat (map (\<lambda>k. filter (\<lambda>r. stratum_of r = k) rows) ks))
    \<and> int (length s) \<le> (\<Sum>k\<leftarrow>ks. granted allocs k)
    \<and> (\<forall>k \<in> set ks. 1 \<le> granted allocs k \<longrightarrow> filter (\<lambda>r. stratum_of r = k) rows \<noteq> [] \<longrightarrow> (\<exists>r \<in> set s. stratum_of r = k))"
proof (induction ks arbitrary: i s)
  case (Cons k ks)
  let ?g = "filter (\<lambda>r. stratum_of r = k) rows"
  let ?n = "min (granted allocs k) (int (length ?g))"
  let ?d = "draw i (sort_key row_id ?g) (nat ?n)"
  have eq: "draw_strata draw i (strata rows) allocs (k # ks) =
      (if ?n < 0 then None else map_option ((@) ?d) (draw_strata draw (Suc i) (strata rows) allocs ks))"
    by (simp only: draw_strata.simps Let_def group_of_strata granted_def)
  have n: "0 \<le> ?n" using Cons.prems unfolding eq by (rule contrapos_pp) (simp only: not_le if_True option.distinct simp_thms)
  then obtain t where t: "draw_strata draw (Suc i) (strata rows) allocs ks = Some t" and s: "s = ?d @ t"
    using Cons.prems unfolding eq if_not_P [OF leD [OF n]] by blast
  have le: "nat ?n \<le> length (sort_key row_id ?g)" by simp
  note d = draws_rowsD [OF assms le, of i]
  have sub: "mset ?d \<subseteq># mset ?g" using d(2) by simp
  have within: "stratum_of r = k" if "r \<in> set ?d" for r
    using that mset_subset_eqD [OF sub, of r] by simp
  have hit: "\<exists>r \<in> set s. stratum_of r = k" if "1 \<le> granted allocs k" "?g \<noteq> []"
  proof -
    have "0 < length ?g" using that(2) unfolding length_greater_0_conv .
    with that(1) have "0 < nat ?n" by linarith
    then have "0 < length ?d" unfolding d(1) .
    then have "?d \<noteq> []" unfolding length_greater_0_conv .
    then obtain r where r: "r \<in> set ?d" by (cases ?d) auto
    show ?thesis by (rule bexI [of _ r]) (use within [OF r] r in \<open>simp_all only: s set_append Un_iff simp_thms\<close>)
  qed
  from Cons.IH [OF t] have ih: "mset t \<subseteq># mset (concat (map (\<lambda>k. filter (\<lambda>r. stratum_of r = k) rows) ks))"
    "int (length t) \<le> (\<Sum>k\<leftarrow>ks. granted allocs k)"
    "\<forall>k \<in> set ks. 1 \<le> granted allocs k \<longrightarrow> filter (\<lambda>r. stratum_of r = k) rows \<noteq> [] \<longrightarrow> (\<exists>r \<in> set t. stratum_of r = k)" by blast+
  have "int (length ?d) \<le> granted allocs k" using d(1) n by simp
  moreover have "mset s \<subseteq># mset (concat (map (\<lambda>k. filter (\<lambda>r. stratum_of r = k) rows) (k # ks)))"
    using sub ih(1) s by (simp add: subset_mset.add_mono)
  moreover have "int (length s) = int (length ?d) + int (length t)" by (simp add: s)
  moreover have "\<exists>r \<in> set s. stratum_of r = k'"
    if "k' \<in> set (k # ks)" "1 \<le> granted allocs k'" "filter (\<lambda>r. stratum_of r = k') rows \<noteq> []" for k'
  proof (cases "k' = k")
    case False
    with that(1) have "k' \<in> set ks" by simp
    with ih(3) that(2,3) obtain r where "r \<in> set t" "stratum_of r = k'" by blast
    then show ?thesis unfolding s by auto
  qed (use hit that in blast)
  ultimately show ?case using ih(2) by (intro conjI ballI impI) (simp, simp, blast)
qed simp

lemma granted_sum: "distinct (map fst al) \<Longrightarrow> (\<Sum>k\<leftarrow>map fst al. granted al k) = sum_list (map snd al)"
proof -
  assume "distinct (map fst al)"
  then have "map (granted al) (map fst al) = map snd al" by (auto simp: granted_def)
  then show ?thesis by (simp only:)
qed

lemma sum_sort: "(\<Sum>k\<leftarrow>sort ks. f k) = (\<Sum>k\<leftarrow>ks. (f k :: int))"
  by (metis mset_map mset_sort sum_mset_sum_list)

lemma bump_sum:
  "distinct (map fst al) \<Longrightarrow> sum_list (map snd (map (\<lambda>(k', a). (k', if k' = k then a + d else (a :: int))) al)) =
     sum_list (map snd al) + (if k \<in> fst ` set al then d else 0)"
  by (induction al) (auto simp: rev_image_eqI)

lemma bump_other: "k \<noteq> m \<Longrightarrow> map_of (map (\<lambda>(k', a). (k', if k' = m then a + d else a)) al) k = map_of al k"
  by (induction al) auto

lemma largest_in: "largest gs = Some k \<Longrightarrow> k \<in> fst ` set gs"
proof (induction gs arbitrary: k rule: largest.induct)
  case (2 k0 g gs)
  then show ?case by (auto split: option.splits if_splits)
qed simp

text \<open>The counts after the adjustment: they are for the same strata, their sum is the target, and only the largest changes.\<close>

lemma adjusted_facts:
  assumes "adjusted target groups al = Some al'" and "map fst al = map fst groups" and "distinct (map fst groups)"
  shows "map fst al' = map fst groups" and "sum_list (map snd al') = target"
    and "k \<in> fst ` set groups \<Longrightarrow> largest groups \<noteq> Some k \<Longrightarrow> granted al' k = granted al k"
proof -
  let ?d = "target - sum_list (map snd al)"
  have "map fst al' = map fst groups \<and> sum_list (map snd al') = target
    \<and> (k \<in> fst ` set groups \<longrightarrow> largest groups \<noteq> Some k \<longrightarrow> granted al' k = granted al k)"
  proof (cases "?d = 0")
    case True
    with assms show ?thesis by (simp add: adjusted_def)
  next
    case False
    with assms(1) obtain m where m: "largest groups = Some m" "al' = map (\<lambda>(k', a). (k', if k' = m then a + ?d else a)) al"
      by (auto simp: adjusted_def Let_def)
    have keys: "map fst al' = map fst al" unfolding m(2) by (simp add: comp_def case_prod_beta)
    have "m \<in> fst ` set al" using largest_in [OF m(1)] assms(2) by (metis list.set_map)
    with bump_sum [of al m ?d] assms(2,3) m(2) have "sum_list (map snd al') = target" by simp
    moreover have "map_of al' k = map_of al k" if "k \<noteq> m" for k
      unfolding m(2) using that by (rule bump_other)
    ultimately show ?thesis using keys assms(2) m(1) by (auto simp: granted_def)
  qed
  then show "map fst al' = map fst groups" and "sum_list (map snd al') = target"
    and "k \<in> fst ` set groups \<Longrightarrow> largest groups \<noteq> Some k \<Longrightarrow> granted al' k = granted al k" by blast+
qed

lemma allocate_facts: "map fst (allocate n target groups) = map fst groups"
    "k \<in> fst ` set groups \<Longrightarrow> 1 \<le> granted (allocate n target groups) k"
proof -
  show "map fst (allocate n target groups) = map fst groups" by (simp add: allocate_def comp_def case_prod_beta)
  show "1 \<le> granted (allocate n target groups) k" if "k \<in> fst ` set groups"
    using that unfolding granted_def allocate_def by (induction groups) auto
qed

section \<open>Properties\<close>

text \<open>The frozen corpus, when there is one, holds rows of the suite, each at most once and at most as many as were asked for,
  and some of every combination of attack class and language but perhaps the largest, whose count takes up what rounding
  and the minimum of one left over.\<close>

theorem corpus_is_stratified:
  "if draws_rows draw
   then case sample_stratified_rows draw target rows of
          None \<Rightarrow> True
        | Some s \<Rightarrow> mset s \<subseteq># mset rows \<and> int (length s) \<le> target
            \<and> list_all (\<lambda>k. largest (strata rows) = Some k \<or> list_ex (\<lambda>r. stratum_of r = k) s) (map stratum_of rows)
   else True"
proof (cases "draws_rows draw \<and> sample_stratified_rows draw target rows \<noteq> None")
  case True
  then obtain s where s: "sample_stratified_rows draw target rows = Some s" and draw: "draws_rows draw" by auto
  let ?gs = "strata rows"
  let ?al = "allocate (length rows) target ?gs" and ?ks = "sort (map fst ?gs)"
  from s obtain al t where al: "adjusted target ?gs ?al = Some al" and t: "draw_strata draw 0 ?gs al ?ks = Some t"
    and st: "s = sort_key row_id t"
    by (auto simp: sample_stratified_rows_def Let_def split: option.splits)
  have keys: "distinct (map fst ?gs)" "set (map fst ?gs) = stratum_of ` set rows"
    using strata_keys [of rows] by (simp_all add: od_wf_def)
  note adj = adjusted_facts [OF al allocate_facts(1) keys(1)]
  note sound = draw_strata_sound [OF draw t]
  have "mset s \<subseteq># mset rows"
    using sound mset_by_stratum [of ?ks rows] keys(1) by (auto simp: st intro: subset_mset.order_trans)
  moreover have "(\<Sum>k\<leftarrow>?ks. granted al k) = target"
    using granted_sum [of al] adj(1,2) keys(1) by (simp add: sum_sort)
  then have "int (length s) \<le> target" using sound by (simp add: st)
  moreover have "largest ?gs = Some k \<or> list_ex (\<lambda>r. stratum_of r = k) s" if "k \<in> stratum_of ` set rows" for k
  proof (cases "largest ?gs = Some k")
    case False
    have k: "k \<in> fst ` set ?gs" using that keys(2) by simp
    then have "1 \<le> granted al k" using adj(3) [OF k False] allocate_facts(2) [OF k] by simp
    moreover have "filter (\<lambda>r. stratum_of r = k) rows \<noteq> []" using that by (auto simp: filter_empty_conv)
    moreover have "k \<in> set ?ks" using k by simp
    ultimately have "\<exists>r \<in> set t. stratum_of r = k" using sound by blast
    then show ?thesis by (auto simp: st list_ex_iff)
  qed simp
  ultimately show ?thesis using s draw by (simp add: list_all_iff)
qed auto

text \<open>Freezing the decisions leaves the cache of the process as it was, and what is recorded for a text is what the pipeline says
  when the cache knows nothing: the two stages of the cache drop out.\<close>

lemma stage4_cache: "rs_cache (snd (snd (stage4 E R background prompt v upper st))) = rs_cache st"
  by (simp add: stage4_def Let_def split: prod.split option.split)

lemma stage4_cache_eq: "stage4 E R background prompt v upper st = (verdict, task, st1) \<Longrightarrow> rs_cache st1 = rs_cache st"
  using stage4_cache [of E R background prompt v upper st] by simp

lemma bypass_uncached:
  "assess_risk E (bypass R) background prompt raw st =
     assess_uncached E (bypass R) background prompt (case raw of Some t \<Rightarrow> t | None \<Rightarrow> prompt) (re_embed E prompt) st"
  by (simp add: assess_risk_def bypass_def Let_def)

lemma bypass_cache: "rs_cache (snd (assess_uncached E (bypass R) background prompt text v st)) = rs_cache st"
  by (auto dest!: stage4_cache_eq simp: assess_uncached_def save_verdict_def bypass_def Let_def split: option.splits prod.splits)

theorem corpus_leaves_the_cache:
  "rs_cache (snd (generate_corpus draw sha E R target suite st)) = rs_cache st"
proof -
  have "rs_cache (snd (corpus_rows sha E R rows st)) = rs_cache st" for rows
    by (induction rows arbitrary: st)
      (simp_all add: corpus_row_def bypass_uncached bypass_cache Let_def case_prod_beta)
  then show ?thesis by (simp add: generate_corpus_def case_prod_beta split: option.split)
qed

text \<open>With more combinations than rows asked for there is no corpus: every combination counts one, the largest pays for them, and
  the generator refuses a negative number of rows.\<close>

theorem many_strata_break_the_sampling:
  "sample_stratified_rows draw 1
     [[(''language'', JStr ''en'')], [(''language'', JStr ''de'')], [(''language'', JStr ''fr'')]] = None"
  by (simp add: sample_stratified_rows_def strata_def stratum_of_def tag_def string_field_def group_of_def allocate_def py_round_def
      adjusted_def Let_def)

section \<open>The sample\<close>

lemma attacks_of_append: "attacks_of c (xs @ ys) = attacks_of c xs @ attacks_of c ys"
  by (simp add: attacks_of_def)

lemma labels_differ: "label_is 1 r \<Longrightarrow> \<not> label_is 0 r"
  by (auto simp: label_is_def py_eq_def split: option.splits)

text \<open>A part of a pool holds what the pool holds.\<close>

lemma part_members: "mset xs \<subseteq># mset pool \<Longrightarrow> r \<in> set xs \<Longrightarrow> r \<in> set pool"
  by (metis mset_subset_eqD set_mset_mset)

lemma part_of_class:
  assumes "mset xs \<subseteq># mset (attacks_of k rows)"
  shows "attacks_of k xs = xs" and "k' \<noteq> k \<Longrightarrow> attacks_of k' xs = []" and "filter (label_is 0) xs = []"
proof -
  have all: "\<forall>r \<in> set xs. string_field ''attack_class'' r = k \<and> label_is 1 r"
    using part_members [OF assms] by (simp add: attacks_of_def)
  then show "attacks_of k xs = xs" unfolding attacks_of_def by (intro filter_True) simp
  show "attacks_of k' xs = []" if "k' \<noteq> k" using all that unfolding attacks_of_def by (intro filter_False) simp
  show "filter (label_is 0) xs = []" using all labels_differ by (intro filter_False) blast
qed

lemma part_of_benign:
  assumes "mset xs \<subseteq># mset (filter (label_is 0) rows)"
  shows "attacks_of k xs = []" and "filter (label_is 0) xs = xs"
proof -
  have all: "\<forall>r \<in> set xs. label_is 0 r" using part_members [OF assms] by simp
  then show "attacks_of k xs = []" using labels_differ unfolding attacks_of_def by (intro filter_False) blast
  show "filter (label_is 0) xs = xs" using all by (intro filter_True) simp
qed

text \<open>The sample is what its composition says: all harmful rows of the suite, each once, and as many rows of the other kinds as
  were asked for, or as there are.\<close>

theorem sample_is_as_described:
  assumes draw: "draws_rows draw" and shuffle: "\<And>xs. mset (shuffled xs) = mset xs"
    and built: "build_sample draw shuffled rows per_other_class benign_n = Some (s, c)"
  shows "mset s \<subseteq># mset rows" and "mset (attacks_of ''harmful_content'' s) = mset (attacks_of ''harmful_content'' rows)"
    and "length (attacks_of ''harmful_content'' s) = sc_harmful c" and "length (attacks_of ''prompt_injection'' s) = sc_injection c"
    and "length (attacks_of ''jailbreak'' s) = sc_jailbreak c" and "length (filter (label_is 0) s) = sc_benign c"
proof -
  let ?h = "attacks_of ''harmful_content'' rows" and ?i = "attacks_of ''prompt_injection'' rows"
  let ?j = "attacks_of ''jailbreak'' rows" and ?b = "filter (label_is 0) rows"
  define ni nj nb where n: "ni = nat (min per_other_class (int (length ?i)))" "nj = nat (min per_other_class (int (length ?j)))"
    "nb = nat (min benign_n (int (length ?b)))"
  define i j b where parts: "i = draw 0 ?i ni" "j = draw 1 ?j nj" "b = draw 2 ?b nb"
  have s: "s = shuffled (?h @ i @ j @ b)"
    and c: "c = \<lparr>sc_harmful = length ?h, sc_injection = ni, sc_jailbreak = nj, sc_benign = nb\<rparr>"
    using built by (auto simp: build_sample_def n parts Let_def split: if_splits)
  have le: "ni \<le> length ?i" "nj \<le> length ?j" "nb \<le> length ?b" by (simp_all add: n)
  have len: "length i = ni" "length j = nj" "length b = nb" unfolding parts by (rule draws_rowsD(1) [OF draw] le)+
  have sub: "mset i \<subseteq># mset ?i" "mset j \<subseteq># mset ?j" "mset b \<subseteq># mset ?b" unfolding parts by (rule draws_rowsD(2) [OF draw] le)+
  have self: "mset ?h \<subseteq># mset ?h" by simp
  have perm: "mset (filter P s) = mset (filter P ?h) + (mset (filter P i) + (mset (filter P j) + mset (filter P b)))" for P
    by (simp only: s mset_filter shuffle mset_append filter_union_mset)
  then have perm_class: "mset (attacks_of k s) = mset (attacks_of k ?h) + (mset (attacks_of k i) + (mset (attacks_of k j) + mset (attacks_of k b)))" for k
    unfolding attacks_of_def .
  note kinds = part_of_class [OF self] part_of_class [OF sub(1)] part_of_class [OF sub(2)] part_of_benign [OF sub(3)]
  show h: "mset (attacks_of ''harmful_content'' s) = mset ?h" unfolding perm_class by (simp add: kinds)
  have ij: "mset (attacks_of ''prompt_injection'' s) = mset i" "mset (attacks_of ''jailbreak'' s) = mset j"
    unfolding perm_class by (simp_all add: kinds)
  have b: "mset (filter (label_is 0) s) = mset b" unfolding perm by (simp add: kinds)
  show "length (attacks_of ''harmful_content'' s) = sc_harmful c" unfolding c using mset_eq_length [OF h] by simp
  show "length (attacks_of ''prompt_injection'' s) = sc_injection c" unfolding c using mset_eq_length [OF ij(1)] len by simp
  show "length (attacks_of ''jailbreak'' s) = sc_jailbreak c" unfolding c using mset_eq_length [OF ij(2)] len by simp
  show "length (filter (label_is 0) s) = sc_benign c" unfolding c using mset_eq_length [OF b] len by simp
  have "mset ?h + mset ?i + mset ?j + mset ?b \<subseteq># mset rows"
    using labels_differ by (auto simp: attacks_of_def intro!: mset_subset_eqI)
  moreover have "mset s \<subseteq># mset ?h + mset ?i + mset ?j + mset ?b"
    unfolding s shuffle mset_append add.assoc by (intro subset_mset.add_mono subset_mset.order_refl sub)
  ultimately show "mset s \<subseteq># mset rows" by (rule subset_mset.order_trans [rotated])
qed

section \<open>The scores of the slow detector\<close>

definition lines_ok :: "(string \<Rightarrow> real) \<Rightarrow> signal_row list \<Rightarrow> score_log \<Rightarrow> bool" where
  "lines_ok g sample ls \<longleftrightarrow> (\<forall>(i, s) \<in> set ls. \<forall>r \<in> set sample. row_id r = i \<longrightarrow> s = g (string_field ''text'' r))"

lemma read_log_line: "map_of (read_log ls) i = Some s \<Longrightarrow> (i, s) \<in> set ls"
proof (induction ls rule: rev_induct)
  case Nil
  then show ?case by (simp add: read_log_def)
next
  case (snoc l ls)
  then show ?case by (cases l) (auto simp: read_log_def map_of_od_set split: if_splits)
qed

lemma score_todo_within:
  assumes g: "scores_by g f" and T: "\<forall>r \<in> set sample. T (row_id r) = Some (g (string_field ''text'' r))"
    and ids: "distinct (map row_id sample)"
  shows "set (concat chunks) \<subseteq> set sample \<Longrightarrow> map_of cached \<subseteq>\<^sub>m T \<Longrightarrow> lines_ok g sample ls \<Longrightarrow>
    score_todo f chunks cached ls = (out, ls1) \<Longrightarrow>
    lines_ok g sample ls1 \<and> take (length ls) ls1 = ls
    \<and> (case out of None \<Rightarrow> True
       | Some c \<Rightarrow> map_of c \<subseteq>\<^sub>m T \<and> dom (map_of cached) \<union> row_id ` set (concat chunks) \<subseteq> dom (map_of c))"
proof (induction chunks arbitrary: cached ls)
  case (Cons chunk rest)
  show ?case
  proof (cases "f (map (string_field ''text'') chunk)")
    case None
    with Cons.prems show ?thesis by auto
  next
    case (Some ss)
    from g have "f (map (string_field ''text'') chunk) \<in> {None, Some (map g (map (string_field ''text'') chunk))}"
      unfolding scores_by_def by blast
    with Some have ss: "ss = map (\<lambda>r. g (string_field ''text'' r)) chunk" by (simp add: comp_def)
    let ?c = "save_scores chunk ss cached" and ?new = "map2 (\<lambda>r s. (row_id r, s)) chunk ss"
    have here: "\<forall>r \<in> set chunk. T (row_id r) = Some (g (string_field ''text'' r))" using Cons.prems(1) T by auto
    have step: "map_of ?c \<subseteq>\<^sub>m T" "map_of cached \<subseteq>\<^sub>m map_of ?c" "row_id ` set chunk \<subseteq> dom (map_of ?c)"
      using save_scores_within [OF here Cons.prems(2)] unfolding ss Let_def by blast+
    have new: "?new = map (\<lambda>r. (row_id r, g (string_field ''text'' r))) chunk"
      unfolding ss by (induction chunk) simp_all
    have same: "r = r'" if "r \<in> set chunk" "r' \<in> set sample" "row_id r' = row_id r" for r r'
    proof -
      have "r \<in> set sample" using that(1) Cons.prems(1) by auto
      with that(2,3) ids show ?thesis by (auto simp: distinct_map inj_on_def)
    qed
    have "lines_ok g sample (ls @ ?new)"
      using Cons.prems(3) same unfolding lines_ok_def new by (auto simp: image_iff)
    from Cons.IH [OF _ step(1) this] Cons.prems(1,4) Some
    have rest: "lines_ok g sample ls1" "take (length (ls @ ?new)) ls1 = ls @ ?new"
      "case out of None \<Rightarrow> True
       | Some c \<Rightarrow> map_of c \<subseteq>\<^sub>m T \<and> dom (map_of ?c) \<union> row_id ` set (concat rest) \<subseteq> dom (map_of c)" by auto
    have "take (length ls) ls1 = ls"
      using arg_cong [OF rest(2), of "take (length ls)"] by (simp add: take_take)
    moreover have "dom (map_of cached) \<union> row_id ` set chunk \<subseteq> dom (map_of ?c)"
      using step(3) map_le_implies_dom_le [OF step(2)] by simp
    moreover have "dom (map_of cached) \<union> row_id ` set (concat (chunk # rest)) \<subseteq> d"
      if "dom (map_of ?c) \<union> row_id ` set (concat rest) \<subseteq> d" for d
      using that calculation(2) unfolding concat.simps set_append image_Un by blast
    ultimately show ?thesis using rest(1,3) by (cases out) (simp_all del: concat.simps)
  qed
qed auto

text \<open>A run over the sample that breaks off loses no line, and a later one that comes to its end has the score of every row,
  whatever breaks came before, for a detector whose score depends on the text alone.\<close>

theorem interrupted_sample_continues:
  assumes "scores_by g f" and "distinct (map row_id sample)" and "lines_ok g sample ls"
    and "score_llama_guard True f False sample ls = (out, ls1)"
  shows "lines_ok g sample ls1" and "take (length ls) ls1 = ls"
    and "out = Some c \<Longrightarrow> r \<in> set sample \<Longrightarrow> map_of c (row_id r) = Some (g (string_field ''text'' r))"
proof -
  let ?cached = "read_log ls" and ?todo = "filter (\<lambda>r. map_of (read_log ls) (row_id r) = None) sample"
  let ?T = "completed g sample ?cached"
  have T: "\<forall>r \<in> set sample. ?T (row_id r) = Some (g (string_field ''text'' r))"
  proof
    fix r assume r: "r \<in> set sample"
    show "?T (row_id r) = Some (g (string_field ''text'' r))"
    proof (cases "map_of ?cached (row_id r)")
      case None
      with find_distinct [OF assms(2) r] show ?thesis by (simp add: completed_def)
    next
      case (Some s)
      with read_log_line [OF Some] assms(3) r show ?thesis by (auto simp: completed_def lines_ok_def)
    qed
  qed
  have "map_of ?cached \<subseteq>\<^sub>m ?T" by (auto simp: map_le_def completed_def dom_def)
  moreover have "score_todo f (batches 8 ?todo) ?cached ls = (out, ls1)" using assms(4) by (simp add: score_llama_guard_def Let_def)
  moreover have todo: "concat (batches 8 ?todo) = ?todo" by (rule concat_batches) simp
  ultimately have all: "lines_ok g sample ls1" "take (length ls) ls1 = ls"
    "case out of None \<Rightarrow> True | Some c \<Rightarrow> map_of c \<subseteq>\<^sub>m ?T \<and> dom (map_of ?cached) \<union> row_id ` set ?todo \<subseteq> dom (map_of c)"
    using score_todo_within [OF assms(1) T assms(2), of "batches 8 ?todo" ?cached ls out ls1, unfolded todo] assms(3) by auto
  show "lines_ok g sample ls1" "take (length ls) ls1 = ls" by (fact all)+
  show "map_of c (row_id r) = Some (g (string_field ''text'' r))" if "out = Some c" "r \<in> set sample"
  proof -
    have "row_id r \<in> dom (map_of c)"
      using all(3) that by (cases "map_of ?cached (row_id r)") auto
    with all(3) that(1) T that(2) show ?thesis by (auto simp: map_le_def)
  qed
qed

end
