(* ===== verification/Multilingual_Head.thy ===== *)
theory Multilingual_Head
  imports Language_Studies
begin

text \<open>
  The multilingual head and the studies it is judged by: scripts/build_multilingual_feature.py (vectors of the suite, held-out and
  leave-one-source-out figures, the feature), scripts/train_multilingual_head_artifact.py (the artifact core/detectors.py serves),
  scripts/validate_multilingual_head_nested.py (three disjoint parts), scripts/analyze_multilingual_fusion.py,
  scripts/analyze_fusion_by_language_full.py and scripts/analyze_german_by_task.py. The encoder, the fits, the splits and the
  cross-validated probabilities of the libraries are arguments; a fit may raise (\<open>None\<close>). \<open>draws n\<close> are the draws of the
  bootstrap from \<open>n\<close> rows. Printing and the writing of the reports are left out.
\<close>

section \<open>Vectors of the suite\<close>

text \<open>The two files of a model, vectors and identifiers; \<open>None\<close> is a file that does not exist. They are written one after the
  other.\<close>

type_synonym encoder = "string list \<Rightarrow> real list list"

record embed_files =
  ef_vecs :: "real list list option"
  ef_ids :: "string list option"

definition DEFAULT_MODEL :: string where
  "DEFAULT_MODEL = ''sentence-transformers/paraphrase-multilingual-MiniLM-L12-v2''"

definition slug :: "string \<Rightarrow> string" where
  "slug model_id = concat (map (\<lambda>c. if c = CHR ''/'' then ''__'' else [c]) model_id)"

definition cached_vectors :: "embed_files \<Rightarrow> signal_row list \<Rightarrow> real list list option" where
  "cached_vectors fs rows =
     (case (ef_vecs fs, ef_ids fs) of
        (Some vecs, Some ids) \<Rightarrow> if ids = map row_id rows then Some vecs else None
      | _ \<Rightarrow> None)"

definition save_vectors :: "real list list \<Rightarrow> embed_files \<Rightarrow> embed_files" where
  "save_vectors vecs fs = fs\<lparr>ef_vecs := Some vecs\<rparr>"

definition save_ids :: "signal_row list \<Rightarrow> embed_files \<Rightarrow> embed_files" where
  "save_ids rows fs = fs\<lparr>ef_ids := Some (map row_id rows)\<rparr>"

definition embed_files_of :: "encoder \<Rightarrow> signal_row list \<Rightarrow> embed_files \<Rightarrow> real list list \<times> embed_files" where
  "embed_files_of encode rows fs =
     (case cached_vectors fs rows of
        Some vecs \<Rightarrow> (vecs, fs)
      | None \<Rightarrow> let vecs = encode (map (string_field ''text'') rows) in (vecs, save_ids rows (save_vectors vecs fs)))"

definition embed_suite ::
  "(string \<Rightarrow> encoder) \<Rightarrow> string \<Rightarrow> signal_row list \<Rightarrow> (string \<Rightarrow> embed_files) \<Rightarrow> real list list \<times> (string \<Rightarrow> embed_files)" where
  "embed_suite encode model_id rows dir =
     (let (vecs, fs) = embed_files_of (encode model_id) rows (dir (slug model_id)) in (vecs, dir(slug model_id := fs)))"

text \<open>The two other scripts name the files and the model themselves.\<close>

definition EMBED_FILE :: string where
  "EMBED_FILE = ''sentence-transformers__paraphrase-multilingual-MiniLM-L12-v2''"

definition MODEL_ID :: string where
  "MODEL_ID = ''sentence-transformers/paraphrase-multilingual-MiniLM-L12-v2''"

definition load_or_build_embeddings ::
  "(string \<Rightarrow> encoder) \<Rightarrow> signal_row list \<Rightarrow> (string \<Rightarrow> embed_files) \<Rightarrow> real list list \<times> (string \<Rightarrow> embed_files)" where
  "load_or_build_embeddings encode rows dir =
     (let (vecs, fs) = embed_files_of (encode MODEL_ID) rows (dir EMBED_FILE) in (vecs, dir(EMBED_FILE := fs)))"

definition load_embeddings ::
  "(string \<Rightarrow> encoder) \<Rightarrow> signal_row list \<Rightarrow> (string \<Rightarrow> embed_files) \<Rightarrow> real list list \<times> (string \<Rightarrow> embed_files)" where
  "load_embeddings encode rows dir =
     (let (vecs, fs) = embed_files_of (encode MODEL_ID) rows (dir EMBED_FILE) in (vecs, dir(EMBED_FILE := fs)))"

section \<open>The deployed head\<close>

definition count_true :: "bool list \<Rightarrow> nat" where
  "count_true y = length (filter id y)"

definition head_artifact :: "string \<Rightarrow> fitted \<Rightarrow> real list list \<Rightarrow> bool list \<Rightarrow> json" where
  "head_artifact now m vecs y =
     JObj [(''version'', JInt 1), (''trained_at'', JStr now), (''model_id'', JStr MODEL_ID),
           (''embedding_dim'', JInt (int (length (hd vecs)))),
           (''scaler_mean'', JList (map JFloat (ft_mean m))), (''scaler_scale'', JList (map JFloat (ft_scale m))),
           (''coefficients'', JList (map JFloat (ft_coefs m))), (''intercept'', JFloat (ft_intercept m)),
           (''training'', JObj [(''n_rows'', JInt (int (length y))), (''n_attack'', JInt (int (count_true y))),
                                (''n_benign'', JInt (int (length y - count_true y)))])]"

definition train_head ::
  "learner \<Rightarrow> (string \<Rightarrow> encoder) \<Rightarrow> string \<Rightarrow> signal_row list \<Rightarrow> (string \<Rightarrow> embed_files)
   \<Rightarrow> json option \<times> (string \<Rightarrow> embed_files)" where
  "train_head H encode now rows dir =
     (let y = map row_attack rows; (vecs, dir1) = load_or_build_embeddings encode rows dir
      in (map_option (\<lambda>m. head_artifact now m vecs y) (le_fit H vecs y), dir1))"

section \<open>The figures of the feature\<close>

definition report_by_language ::
  "(nat \<Rightarrow> nat list list) \<Rightarrow> real list \<Rightarrow> bool list \<Rightarrow> string list \<Rightarrow> (string \<times> summary) list" where
  "report_by_language draws scores labels langs =
     List.map_filter (\<lambda>lang.
       let idx = filter (\<lambda>i. langs ! i = lang) [0..<length langs]
       in if length idx < 50 \<or> length (remdups (resample labels idx)) < 2 then None
          else Some (lang, Language_Studies.summarize draws (resample scores idx) (resample labels idx)))
       [''en'', ''de'', ''other'']"

text \<open>A model fitted on some rows, and its scores of others.\<close>

definition fit_and_score ::
  "learner \<Rightarrow> real list list \<Rightarrow> bool list \<Rightarrow> nat list \<Rightarrow> nat list \<Rightarrow> real list option" where
  "fit_and_score H X y train test =
     map_option (\<lambda>m. map (le_proba H m) (resample X test)) (le_fit H (resample X train) (resample y train))"

record source_figures =
  sf_n :: nat
  sf_attack :: nat
  sf_auc :: interval

definition language_is :: "string \<Rightarrow> signal_row \<Rightarrow> bool" where
  "language_is lang r \<longleftrightarrow> string_field ''language'' r = lang"

text \<open>The model of the rows of all other sources.\<close>

definition source_model :: "learner \<Rightarrow> signal_row list \<Rightarrow> real list list \<Rightarrow> string \<Rightarrow> fitted option" where
  "source_model H rows vecs src =
     (let train = filter (\<lambda>i. string_field ''source'' (rows ! i) \<noteq> src) [0..<length rows]
      in le_fit H (resample vecs train) (resample (map row_attack rows) train))"

text \<open>\<open>None\<close>: the fit raises; \<open>Some None\<close>: too few German rows of the source, or only one label.\<close>

definition unseen_source ::
  "(nat \<Rightarrow> nat list list) \<Rightarrow> learner \<Rightarrow> signal_row list \<Rightarrow> real list list \<Rightarrow> string \<Rightarrow> (string \<times> source_figures) option option" where
  "unseen_source draws H rows vecs src =
     (let test = filter (\<lambda>i. string_field ''source'' (rows ! i) = src \<and> language_is ''de'' (rows ! i)) [0..<length rows];
          labels = resample (map row_attack rows) test
      in if length test < 50 \<or> length (remdups labels) < 2 then Some None
         else map_option (\<lambda>m. Some (src, \<lparr>sf_n = length test, sf_attack = count_true labels,
                  sf_auc = bootstrap_ci (draws (length test)) (map (le_proba H m) (resample vecs test)) labels roc_auc DEFAULT_ALPHA\<rparr>))
                (source_model H rows vecs src))"

definition leave_one_source_out ::
  "(nat \<Rightarrow> nat list list) \<Rightarrow> learner \<Rightarrow> signal_row list \<Rightarrow> real list list \<Rightarrow> (string \<times> source_figures) list option" where
  "leave_one_source_out draws H rows vecs =
     (let sources = sort (remdups (map (string_field ''source'') rows));
          de_sources = map (string_field ''source'') (filter (language_is ''de'') rows)
      in map_option (List.map_filter id)
           (all_present (map (unseen_source draws H rows vecs) (filter (\<lambda>src. src \<in> set de_sources) sources))))"

record feature_report =
  fr_rows :: nat
  fr_train :: nat
  fr_test :: nat
  fr_oof :: "(string \<times> summary) list"
  fr_held_out :: "(string \<times> summary) list"
  fr_pooled :: interval
  fr_unseen :: "(string \<times> source_figures) list"

text \<open>The report and the lines of the feature; \<open>split f idx y\<close> are the two parts of \<open>train_test_split\<close>, \<open>f\<close> the share of the
  second, \<open>cross_val\<close> the out-of-fold probabilities.\<close>

definition build_feature ::
  "(real list list \<Rightarrow> bool list \<Rightarrow> real list) \<Rightarrow> (real \<Rightarrow> nat list \<Rightarrow> bool list \<Rightarrow> nat list \<times> nat list) \<Rightarrow> (nat \<Rightarrow> nat list list)
   \<Rightarrow> learner \<Rightarrow> signal_row list \<Rightarrow> real list list \<Rightarrow> (feature_report \<times> (string \<times> real) list) option" where
  "build_feature cross_val split draws H rows vecs =
     (let y = map row_attack rows; langs = map (string_field ''language'') rows;
          (train, test) = split (20 / 100) [0..<length rows] y;
          oof_train = cross_val (resample vecs train) (resample y train)
      in case (fit_and_score H vecs y train test, leave_one_source_out draws H rows vecs) of
           (Some scores, Some unseen) \<Rightarrow>
             Some (\<lparr>fr_rows = length rows, fr_train = length train, fr_test = length test,
                    fr_oof = report_by_language draws oof_train (resample y train) (resample langs train),
                    fr_held_out = report_by_language draws scores (resample y test) (resample langs test),
                    fr_pooled = bootstrap_ci (draws (length test)) scores (resample y test) roc_auc DEFAULT_ALPHA,
                    fr_unseen = unseen\<rparr>,
                   map2 (\<lambda>r s. (row_id r, s)) rows (cross_val vecs y))
         | _ \<Rightarrow> None)"

definition build_multilingual_feature ::
  "(real list list \<Rightarrow> bool list \<Rightarrow> real list) \<Rightarrow> (real \<Rightarrow> nat list \<Rightarrow> bool list \<Rightarrow> nat list \<times> nat list) \<Rightarrow> (nat \<Rightarrow> nat list list)
   \<Rightarrow> learner \<Rightarrow> (string \<Rightarrow> encoder) \<Rightarrow> string \<Rightarrow> signal_row list \<Rightarrow> (string \<Rightarrow> embed_files)
   \<Rightarrow> (feature_report \<times> (string \<times> real) list) option \<times> (string \<Rightarrow> embed_files)" where
  "build_multilingual_feature cross_val split draws H encode model_id rows dir =
     (let (vecs, dir1) = embed_suite encode model_id rows dir
      in (build_feature cross_val split draws H rows vecs, dir1))"

section \<open>The nested validation\<close>

definition usable_with :: "(string \<times> score_cache) list \<Rightarrow> string list \<Rightarrow> signal_row \<Rightarrow> bool" where
  "usable_with caches features r \<longleftrightarrow>
     list_all (\<lambda>n. Option.bind (map_of caches n) (\<lambda>c. map_of c (row_id r)) \<noteq> None) features"

definition load_caches :: "(string \<Rightarrow> score_cache option) \<Rightarrow> string list \<Rightarrow> (string \<times> score_cache) list option" where
  "load_caches load features = all_present (map (\<lambda>n. map_option (Pair n) (load n)) features)"

text \<open>A first part for the head, a second for the fusion, the third for the evaluation.\<close>

definition three_parts ::
  "(real \<Rightarrow> nat list \<Rightarrow> bool list \<Rightarrow> nat list \<times> nat list) \<Rightarrow> nat list \<Rightarrow> bool list \<Rightarrow> nat list \<times> nat list \<times> nat list" where
  "three_parts split usable y =
     (let (A, rest) = split (60 / 100) usable (resample y usable);
          (B, C) = split (50 / 100) rest (resample y rest)
      in (A, B, C))"

definition build_X ::
  "(string \<times> score_cache) list \<Rightarrow> signal_row list \<Rightarrow> nat list \<Rightarrow> string list \<Rightarrow> real list option \<Rightarrow> real list list option" where
  "build_X caches rows indices feats head_scores =
     map_option (\<lambda>X. case head_scores of None \<Rightarrow> X | Some hs \<Rightarrow> map2 (\<lambda>row h. row @ [h]) X hs)
       (matrix_of caches feats (resample rows indices))"

definition fusion_scores ::
  "learner \<Rightarrow> (string \<times> score_cache) list \<Rightarrow> signal_row list \<Rightarrow> bool list \<Rightarrow> nat list \<Rightarrow> nat list
   \<Rightarrow> real list option \<Rightarrow> real list option \<Rightarrow> real list option" where
  "fusion_scores F caches rows y B C head_B head_C =
     (case (build_X caches rows B PLUS_GERMAN_TOX_8 head_B, build_X caches rows C PLUS_GERMAN_TOX_8 head_C) of
        (Some XB, Some XC) \<Rightarrow> map_option (\<lambda>m. map (le_proba F m) XC) (le_fit F XB (resample y B))
      | _ \<Rightarrow> None)"

text \<open>The scores of the last part, without the head and with it.\<close>

definition nested_scores ::
  "learner \<Rightarrow> learner \<Rightarrow> real list list \<Rightarrow> (string \<times> score_cache) list \<Rightarrow> signal_row list \<Rightarrow> bool list
   \<Rightarrow> nat list \<times> nat list \<times> nat list \<Rightarrow> (real list \<times> real list) option" where
  "nested_scores H F vecs caches rows y parts =
     (let (A, B, C) = parts
      in case (fit_and_score H vecs y A B, fit_and_score H vecs y A C) of
           (Some hB, Some hC) \<Rightarrow>
             (case (fusion_scores F caches rows y B C None None, fusion_scores F caches rows y B C (Some hB) (Some hC)) of
                (Some control, Some with_head) \<Rightarrow> Some (control, with_head)
              | _ \<Rightarrow> None)
         | _ \<Rightarrow> None)"

definition INJECTION_SOURCES :: "string list" where
  "INJECTION_SOURCES =
     [''deepset/prompt-injections'', ''rikka-snow/prompt-injection-multilingual'',
      ''Octavio-Santana/prompt-injection-attack-detection-multilingual'', ''lakera/gandalf_ignore_instructions'']"

definition german_task :: "bool \<Rightarrow> signal_row list \<Rightarrow> nat list" where
  "german_task injection rows =
     filter (\<lambda>i. language_is ''de'' (rows ! i) \<and> (string_field ''source'' (rows ! i) \<in> set INJECTION_SOURCES) = injection)
       [0..<length rows]"

definition report_by_slice ::
  "(nat \<Rightarrow> nat list list) \<Rightarrow> real list \<Rightarrow> bool list \<Rightarrow> nat list \<Rightarrow> nat list \<Rightarrow> (string \<times> summary) list" where
  "report_by_slice draws scores labels idx_de_inj idx_de_off =
     List.map_filter (\<lambda>(name, idx).
       if length idx < 20 \<or> length (remdups (resample labels idx)) < 2 then None
       else Some (name, Language_Studies.summarize draws (resample scores idx) (resample labels idx)))
       [(''pooled'', [0..<length labels]), (''de_injection'', idx_de_inj), (''de_offensive'', idx_de_off)]"

record nested_report =
  ne_head_fit :: nat
  ne_fusion_fit :: nat
  ne_final :: nat
  ne_control :: "(string \<times> summary) list"
  ne_with_head :: "(string \<times> summary) list"

definition nested_validation ::
  "(real \<Rightarrow> nat list \<Rightarrow> bool list \<Rightarrow> nat list \<times> nat list) \<Rightarrow> (nat \<Rightarrow> nat list list) \<Rightarrow> learner \<Rightarrow> learner
   \<Rightarrow> (string \<Rightarrow> score_cache option) \<Rightarrow> (string \<Rightarrow> encoder) \<Rightarrow> signal_row list \<Rightarrow> (string \<Rightarrow> embed_files)
   \<Rightarrow> nested_report option \<times> (string \<Rightarrow> embed_files)" where
  "nested_validation split draws H F load encode rows dir =
     (let y = map row_attack rows; (vecs, dir1) = load_embeddings encode rows dir
      in (Option.bind (load_caches load PLUS_GERMAN_TOX_8) (\<lambda>caches.
            let usable = filter (\<lambda>i. usable_with caches PLUS_GERMAN_TOX_8 (rows ! i)) [0..<length rows];
                (A, B, C) = three_parts split usable y;
                rows_C = resample rows C; y_C = resample y C;
                report = (\<lambda>scores. report_by_slice draws scores y_C (german_task True rows_C) (german_task False rows_C))
            in map_option (\<lambda>(control, with_head).
                 \<lparr>ne_head_fit = length A, ne_fusion_fit = length B, ne_final = length C, ne_control = report control,
                  ne_with_head = report with_head\<rparr>) (nested_scores H F vecs caches rows y (A, B, C))), dir1))"

section \<open>The fusion by language and by task\<close>

definition DEPLOYED :: "string list" where
  "DEPLOYED = [''anchors'', ''protectai_injection'', ''madhurjindal_jailbreak'', ''toxic_bert'']"

definition CANDIDATE :: "string list" where
  "CANDIDATE = DEPLOYED @ [''prompt_guard_2'']"

definition oof_scores ::
  "(real list list \<Rightarrow> bool list \<Rightarrow> real list) \<Rightarrow> string list \<Rightarrow> signal_row list \<Rightarrow> (string \<times> score_cache) list \<Rightarrow> bool list
   \<Rightarrow> real list option" where
  "oof_scores cross_val feature_names usable caches y = map_option (\<lambda>X. cross_val X y) (matrix_of caches feature_names usable)"

definition by_language ::
  "(nat \<Rightarrow> nat list list) \<Rightarrow> real list \<Rightarrow> signal_row list \<Rightarrow> bool list \<Rightarrow> (string \<times> summary) list" where
  "by_language draws scores usable y =
     (let langs = map (string_field ''language'') usable
      in List.map_filter (\<lambda>lang.
           let idx = filter (\<lambda>i. langs ! i = lang) [0..<length langs]
           in if length idx < 10 then None
              else Some (lang, Language_Studies.summarize draws (resample scores idx) (resample y idx))) (sort (remdups langs)))"

definition overlap :: "interval \<Rightarrow> interval \<Rightarrow> bool" where
  "overlap a b \<longleftrightarrow> \<not> (above (ci_lo a) (ci_hi b) \<or> above (ci_lo b) (ci_hi a))"

record fusion_analysis =
  fa_rows :: nat
  fa_attack :: nat
  fa_benign :: nat
  fa_deployed :: "(string \<times> summary) list"
  fa_candidate :: "(string \<times> summary) list"
  fa_pooled_deployed :: interval
  fa_pooled_candidate :: interval
  fa_decisive :: bool

definition analyze_multilingual_fusion ::
  "(real list list \<Rightarrow> bool list \<Rightarrow> real list) \<Rightarrow> (nat \<Rightarrow> nat list list) \<Rightarrow> (string \<Rightarrow> score_cache option) \<Rightarrow> signal_row list
   \<Rightarrow> fusion_analysis option" where
  "analyze_multilingual_fusion cross_val draws load rows =
     Option.bind (load_caches load CANDIDATE) (\<lambda>caches.
       let usable = filter (usable_with caches CANDIDATE) rows; y = map row_attack usable;
           pooled = (\<lambda>scores. bootstrap_ci (draws (length scores)) scores y roc_auc DEFAULT_ALPHA)
       in case (oof_scores cross_val DEPLOYED usable caches y, oof_scores cross_val CANDIDATE usable caches y) of
            (Some d, Some c) \<Rightarrow>
              Some \<lparr>fa_rows = length usable, fa_attack = count_true y, fa_benign = length y - count_true y,
                    fa_deployed = by_language draws d usable y, fa_candidate = by_language draws c usable y,
                    fa_pooled_deployed = pooled d, fa_pooled_candidate = pooled c,
                    fa_decisive = (\<not> overlap (pooled d) (pooled c))\<rparr>
          | _ \<Rightarrow> None)"

record language_rates =
  lr_n :: nat
  lr_fpr :: real
  lr_recall :: real

record full_analysis =
  fl_rows :: nat
  fl_dropped :: nat
  fl_by_language :: "(string \<times> summary) list"
  fl_threshold :: "real option option"
  fl_rates :: "(string \<times> language_rates) list"

definition rates_at_pooled ::
  "real list \<Rightarrow> bool list \<Rightarrow> string list \<Rightarrow> real option option \<Rightarrow> string \<Rightarrow> (string \<times> language_rates) option" where
  "rates_at_pooled scores y langs threshold lang =
     (let idx = filter (\<lambda>i. langs ! i = lang) [0..<length langs]; labs = resample y idx; s = resample scores idx
      in if idx = [] then None
         else Some (lang, \<lparr>lr_n = length idx, lr_fpr = rate_at s labs threshold False, lr_recall = rate_at s labs threshold True\<rparr>))"

definition analyze_fusion_by_language_full ::
  "(real list list \<Rightarrow> bool list \<Rightarrow> real list) \<Rightarrow> (nat \<Rightarrow> nat list list) \<Rightarrow> (string \<Rightarrow> score_cache option) \<Rightarrow> signal_row list
   \<Rightarrow> full_analysis option" where
  "analyze_fusion_by_language_full cross_val draws load rows =
     Option.bind (load_caches load DEPLOYED) (\<lambda>caches.
       let usable = filter (usable_with caches DEPLOYED) rows; y = map row_attack usable;
           langs = map (string_field ''language'') usable
       in map_option (\<lambda>scores. let threshold = threshold_at_fpr scores y (5 / 100)
            in \<lparr>fl_rows = length usable, fl_dropped = length rows - length usable, fl_by_language = by_language draws scores usable y,
                fl_threshold = threshold,
                fl_rates = List.map_filter (rates_at_pooled scores y langs threshold) [''en'', ''de'', ''other'']\<rparr>)
            (oof_scores cross_val DEPLOYED usable caches y))"

definition task_variants :: "(string \<times> string list) list" where
  "task_variants =
     [(''deployed_4'', DEPLOYED_4), (''plus_both_6'', PLUS_BOTH_6), (''all_7'', ALL_7), (''shipped_6'', SHIPPED_6),
      (''plus_german_tox_8'', PLUS_GERMAN_TOX_8), (''no_toxic_bert_plus_german_tox_7'', NO_TOXIC_BERT_PLUS_GERMAN_TOX_7)]"

record task_report =
  tr_injection :: nat
  tr_offensive :: nat
  tr_variants :: "(string \<times> (string \<times> summary) list) list"

definition task_figures :: "(nat \<Rightarrow> nat list list) \<Rightarrow> signal_row list \<Rightarrow> bool list \<Rightarrow> real list \<Rightarrow> (string \<times> summary) list" where
  "task_figures draws rows y scores =
     map (\<lambda>(name, idx). (name, Language_Studies.summarize draws (resample scores idx) (resample y idx)))
       [(''german_injection'', german_task True rows), (''german_offensive'', german_task False rows)]"

definition analyze_german_by_task ::
  "(real list list \<Rightarrow> bool list \<Rightarrow> real list) \<Rightarrow> (nat \<Rightarrow> nat list list) \<Rightarrow> (string \<Rightarrow> score_cache option) \<Rightarrow> signal_row list
   \<Rightarrow> task_report option" where
  "analyze_german_by_task cross_val draws load rows_all =
     Option.bind (load_caches load (ALL_7 @ GERMAN_TOX_FEATURES)) (\<lambda>caches.
       let rows = filter (usable_with caches (ALL_7 @ GERMAN_TOX_FEATURES)) rows_all; y = map row_attack rows
       in map_option (\<lambda>vs. \<lparr>tr_injection = length (german_task True rows), tr_offensive = length (german_task False rows), tr_variants = vs\<rparr>)
            (entries (\<lambda>feats. map_option (task_figures draws rows y) (oof cross_val feats rows caches y)) task_variants))"

section \<open>The vectors\<close>

lemma cached_after_embedding:
  "cached_vectors (snd (embed_files_of encode rows fs)) rows = Some (fst (embed_files_of encode rows fs))"
  by (auto simp: embed_files_of_def cached_vectors_def save_ids_def save_vectors_def Let_def split: option.splits)

text \<open>All three scripts read and write the same pair of files, so that the vectors are computed once.\<close>

lemma embed_file: "slug DEFAULT_MODEL = EMBED_FILE"
  by (simp add: slug_def DEFAULT_MODEL_def EMBED_FILE_def)

theorem scripts_share_the_vectors:
  "load_or_build_embeddings encode rows dir = embed_suite encode DEFAULT_MODEL rows dir"
  "load_embeddings encode rows dir = embed_suite encode DEFAULT_MODEL rows dir"
  by (simp_all only: load_or_build_embeddings_def load_embeddings_def embed_suite_def embed_file MODEL_ID_def DEFAULT_MODEL_def [symmetric])

text \<open>As long as an identifier stands for one text and no write breaks off, the vectors are those of the texts, in whatever order
  suites were embedded before.\<close>

definition files_ok :: "encoder \<Rightarrow> (string \<Rightarrow> string) \<Rightarrow> embed_files \<Rightarrow> bool" where
  "files_ok encode T fs =
     (case (ef_vecs fs, ef_ids fs) of (Some vecs, Some ids) \<Rightarrow> vecs = encode (map T ids) | _ \<Rightarrow> True)"

theorem vectors_are_of_the_texts:
  assumes "files_ok (encode m) T (dir (slug m))" and texts: "\<forall>r \<in> set rows. string_field ''text'' r = T (row_id r)"
    and run: "embed_suite encode m rows dir = (vecs, dir1)"
  shows "vecs = encode m (map (string_field ''text'') rows)" and "files_ok (encode m) T (dir1 (slug m))"
    and "slug m' \<noteq> slug m \<Longrightarrow> dir1 (slug m') = dir (slug m')"
proof -
  have t: "map (string_field ''text'') rows = map T (map row_id rows)" using texts by simp
  show "vecs = encode m (map (string_field ''text'') rows)" "files_ok (encode m) T (dir1 (slug m))"
    using assms(1) run unfolding t
    by (auto simp: embed_suite_def embed_files_of_def cached_vectors_def files_ok_def save_ids_def save_vectors_def Let_def t
        split: option.splits if_splits)
  show "dir1 (slug m') = dir (slug m')" if "slug m' \<noteq> slug m"
    using run that by (auto simp: embed_suite_def split: prod.splits)
qed

text \<open>An identifier is a hash of the plain letters, digits and spaces of a prompt: a suite that was rebuilt with other texts under the
  same identifiers gets the vectors of the old ones.\<close>

theorem vectors_outlive_their_texts:
  "if map row_id rows' = map row_id rows
   then fst (embed_files_of encode rows' (snd (embed_files_of encode rows fs))) = fst (embed_files_of encode rows fs)
   else True"
proof (cases "map row_id rows' = map row_id rows")
  case True
  then have "cached_vectors (snd (embed_files_of encode rows fs)) rows' = Some (fst (embed_files_of encode rows fs))"
    using cached_after_embedding [of encode rows fs] unfolding cached_vectors_def by (simp only: True)
  then show ?thesis by (simp add: embed_files_of_def [of encode rows'])
qed simp

text \<open>A run that is stopped after the vectors of another suite and before their identifiers leaves a pair that passes for the
  first suite.\<close>

theorem torn_save_serves_other_vectors:
  "fst (embed_files_of encode rows (save_vectors other (snd (embed_files_of encode rows fs)))) = other"
proof -
  have "cached_vectors (save_vectors other (snd (embed_files_of encode rows fs))) rows = Some other"
    using cached_after_embedding [of encode rows fs]
    by (auto simp: cached_vectors_def save_vectors_def split: option.splits if_splits)
  then show ?thesis by (simp add: embed_files_of_def [of encode rows "save_vectors other fs'" for fs'])
qed

section \<open>The artifact\<close>

definition head_logit :: "fitted \<Rightarrow> real list \<Rightarrow> real" where
  "head_logit m vec =
     ft_intercept m + (\<Sum>(x, mu, s, c) \<leftarrow> zip vec (zip (ft_mean m) (zip (ft_scale m) (ft_coefs m))). c * ((x - mu) / s))"

lemma head_sum_floats:
  "head_sum z xs (map JFloat ms) (map JFloat ss) (map JFloat cs)
     = Some (z + (\<Sum>(x, mu, s, c) \<leftarrow> zip xs (zip ms (zip ss cs)). c * ((x - mu) / s)))"
proof (induction xs arbitrary: z ms ss cs)
  case (Cons x xs)
  show ?case
  proof (cases "ms = [] \<or> ss = [] \<or> cs = []")
    case True
    then show ?thesis by (cases ms; cases ss; cases cs) simp_all
  next
    case False
    then obtain m ms' s ss' c cs' where "ms = m # ms'" "ss = s # ss'" "cs = c # cs'" by (auto simp: neq_Nil_conv)
    then show ?thesis by (simp add: Cons.IH standardized_def)
  qed
qed simp

lemma sigmoid_close: "\<bar>sigmoid z - 1 / (1 + exp (- z))\<bar> \<le> exp (- 60)"
proof -
  have pos: "0 < 1 + exp (- z)" "0 < exp (- z)" by (simp_all add: add_pos_pos)
  consider "z < - 60" | "60 < z" | "- 60 \<le> z" "z \<le> 60" by linarith
  then show ?thesis
  proof cases
    case 1
    have "1 / (1 + exp (- z)) \<le> 1 / exp (- z)" using pos by (simp add: frac_le)
    also have "\<dots> = exp z" by (simp add: exp_minus divide_simps)
    also have "\<dots> \<le> exp (- 60)" using 1 by simp
    finally show ?thesis using 1 pos by (simp add: sigmoid_def)
  next
    case 2
    have e: "0 \<le> 1 - 1 / (1 + e) \<and> 1 - 1 / (1 + e) \<le> e" if "0 < e" for e :: real
      using that by (simp add: field_simps)
    have "exp (- z) \<le> exp (- 60)" using 2 by simp
    with e [OF pos(2)] have "0 \<le> 1 - 1 / (1 + exp (- z)) \<and> 1 - 1 / (1 + exp (- z)) \<le> exp (- 60)" by linarith
    then show ?thesis using 2 by (simp add: sigmoid_def)
  qed (simp add: sigmoid_def)
qed

text \<open>What the training writes is what the detector serves: the artifact passes the check of core/detectors.py, and the score of a
  vector is the probability the fit itself gives, up to the cut at 60 of the exponent.\<close>

theorem trained_head_is_served:
  assumes trained: "train_head H encode now rows dir = (Some art, dir1)"
    and fit: "le_fit H (fst (load_or_build_embeddings encode rows dir)) (map row_attack rows) = Some m"
    and sizes: "length (ft_mean m) = n" "length (ft_scale m) = n" "length (ft_coefs m) = n"
    and proba: "\<And>v. le_proba H m v = 1 / (1 + exp (- head_logit m v))"
  shows "\<exists>h. read_head (Parsed art) = Inr h
    \<and> (\<forall>vec. case apply_head h vec of Inr p \<Rightarrow> \<bar>p - le_proba H m vec\<bar> \<le> exp (- 60) | Inl _ \<Rightarrow> False)"
proof -
  let ?h = "\<lparr>hd_mean = JList (map JFloat (ft_mean m)), hd_scale = JList (map JFloat (ft_scale m)),
    hd_coefficients = JList (map JFloat (ft_coefs m)), hd_intercept = JFloat (ft_intercept m)\<rparr>"
  have "art = head_artifact now m (fst (load_or_build_embeddings encode rows dir)) (map row_attack rows)"
    using trained fit by (auto simp: train_head_def Let_def case_prod_beta)
  then have "read_head (Parsed art) = Inr ?h" using sizes by (simp add: read_head_def head_artifact_def HEAD_FIELDS_def jget_def)
  moreover have "apply_head ?h vec = Inr (sigmoid (head_logit m vec))" for vec
    by (simp add: apply_head_def json_items_def head_sum_floats head_logit_def)
  ultimately show ?thesis using sigmoid_close proba by simp
qed

section \<open>The nested validation\<close>

lemma mset_parts_disjoint: "mset xs + mset ys = mset zs \<Longrightarrow> distinct zs \<Longrightarrow> set xs \<inter> set ys = {} \<and> set xs \<union> set ys = set zs \<and> distinct xs \<and> distinct ys"
  by (metis distinct_append mset_append mset_eq_imp_distinct_iff set_append mset_eq_setD)

definition partitions :: "(real \<Rightarrow> nat list \<Rightarrow> bool list \<Rightarrow> nat list \<times> nat list) \<Rightarrow> bool" where
  "partitions split \<longleftrightarrow> (\<forall>f idx y. mset (fst (split f idx y)) + mset (snd (split f idx y)) = mset idx)"

lemma three_parts_disjoint:
  assumes "partitions split" and "distinct usable" and "three_parts split usable y = (A, B, C)"
  shows "set A \<inter> set B = {}" "(set A \<union> set B) \<inter> set C = {}" "set A \<union> set B \<union> set C = set usable"
proof -
  obtain rest where 1: "split (60 / 100) usable (resample y usable) = (A, rest)"
    and 2: "split (50 / 100) rest (resample y rest) = (B, C)"
    using assms(3) by (auto simp: three_parts_def Let_def split: prod.splits)
  from assms(1) 1 have "mset A + mset rest = mset usable" unfolding partitions_def by (metis fst_conv snd_conv)
  from mset_parts_disjoint [OF this assms(2)]
  have a: "set A \<inter> set rest = {}" "set A \<union> set rest = set usable" "distinct rest" by auto
  from assms(1) 2 have "mset B + mset C = mset rest" unfolding partitions_def by (metis fst_conv snd_conv)
  from mset_parts_disjoint [OF this a(3)] a show "set A \<inter> set B = {}" "(set A \<union> set B) \<inter> set C = {}"
    "set A \<union> set B \<union> set C = set usable" by auto
qed

lemma resample_cong: "(\<And>i. i \<in> set idx \<Longrightarrow> xs ! i = ys ! i) \<Longrightarrow> resample xs idx = resample ys idx"
  by (simp add: resample_def)

text \<open>No row of the last part has a hand in its own score: the parts are disjoint, and with other labels on that part the fusion
  with the head and the one without it score it as before.\<close>

theorem nested_is_free_of_leaks:
  assumes "partitions split" and "distinct usable" and parts: "three_parts split usable y = (A, B, C)"
    and other: "\<And>i. i \<notin> set C \<Longrightarrow> y' ! i = y ! i"
  shows "set A \<inter> set B = {} \<and> (set A \<union> set B) \<inter> set C = {} \<and> set A \<union> set B \<union> set C = set usable"
    and "nested_scores H F vecs caches rows y' (A, B, C) = nested_scores H F vecs caches rows y (A, B, C)"
proof -
  note d = three_parts_disjoint [OF assms(1-3)]
  show "set A \<inter> set B = {} \<and> (set A \<union> set B) \<inter> set C = {} \<and> set A \<union> set B \<union> set C = set usable" using d by simp
  have same: "resample y' A = resample y A" "resample y' B = resample y B"
    using d other by (auto intro!: resample_cong)
  have eqs: "fit_and_score H vecs y' A t = fit_and_score H vecs y A t"
    "fusion_scores F caches rows y' B C hB hC = fusion_scores F caches rows y B C hB hC" for t hB hC
    unfolding fit_and_score_def fusion_scores_def same by (rule refl)+
  show "nested_scores H F vecs caches rows y' (A, B, C) = nested_scores H F vecs caches rows y (A, B, C)"
    unfolding nested_scores_def Let_def prod.case eqs ..
qed

section \<open>Leaving a source out\<close>

text \<open>The figures of a source are those of a model that has not seen it: other labels and other vectors of its rows leave the fit
  as it was.\<close>

theorem unseen_source_is_unseen:
  assumes "length rows' = length rows"
    and "\<And>i. i < length rows \<Longrightarrow> string_field ''source'' (rows' ! i) = string_field ''source'' (rows ! i)"
    and "\<And>i. i < length rows \<Longrightarrow> string_field ''source'' (rows ! i) \<noteq> src \<Longrightarrow>
      vecs' ! i = vecs ! i \<and> row_attack (rows' ! i) = row_attack (rows ! i)"
  shows "source_model H rows' vecs' src = source_model H rows vecs src"
proof -
  let ?train = "filter (\<lambda>i. string_field ''source'' (rows ! i) \<noteq> src) [0..<length rows]"
  have "filter (\<lambda>i. string_field ''source'' (rows' ! i) \<noteq> src) [0..<length rows'] = ?train"
    using assms(1,2) by (intro filter_cong) auto
  moreover have "resample vecs' ?train = resample vecs ?train"
    "resample (map row_attack rows') ?train = resample (map row_attack rows) ?train"
    using assms(1,3) by (auto intro!: resample_cong)
  ultimately show ?thesis by (simp add: source_model_def Let_def)
qed

section \<open>The German tasks\<close>

lemma length_filter_split:
  "length (filter (\<lambda>x. P x \<and> Q x = True) xs) + length (filter (\<lambda>x. P x \<and> Q x = False) xs) = length (filter P xs)"
  by (induction xs) auto

lemma length_filter_indices: "length (filter (\<lambda>i. P (xs ! i)) [0..<length xs]) = length (filter P xs)"
  by (metis (no_types, lifting) length_map map_nth filter_map comp_def filter_cong)

text \<open>The two tasks share the German rows out between them, and every variant of the report is measured on exactly these rows.\<close>

theorem german_tasks_share_the_rows:
  assumes "analyze_german_by_task cross_val draws load rows_all = Some rep"
    and "load_caches load (ALL_7 @ GERMAN_TOX_FEATURES) = Some caches"
  shows "tr_injection rep + tr_offensive rep
      = length (filter (language_is ''de'') (filter (usable_with caches (ALL_7 @ GERMAN_TOX_FEATURES)) rows_all))"
    and "(tag, figures) \<in> set (tr_variants rep) \<Longrightarrow> map (\<lambda>(task, s). su_n s) figures = [tr_injection rep, tr_offensive rep]"
proof -
  let ?rows = "filter (usable_with caches (ALL_7 @ GERMAN_TOX_FEATURES)) rows_all" and ?y = "\<lambda>rows. map row_attack rows"
  obtain vs where vs: "entries (\<lambda>feats. map_option (task_figures draws ?rows (?y ?rows)) (oof cross_val feats ?rows caches (?y ?rows))) task_variants
      = Some vs"
    and rep: "rep = \<lparr>tr_injection = length (german_task True ?rows), tr_offensive = length (german_task False ?rows), tr_variants = vs\<rparr>"
    using assms by (auto simp: analyze_german_by_task_def Let_def)
  show "tr_injection rep + tr_offensive rep = length (filter (language_is ''de'') ?rows)"
    unfolding rep german_task_def
    by (simp only: task_report.simps length_filter_split length_filter_indices)
  have "list_all (\<lambda>(tag, v). map (\<lambda>(task, s). su_n s) v = [tr_injection rep, tr_offensive rep]) vs'"
    if "entries (\<lambda>feats. map_option (task_figures draws ?rows (?y ?rows)) (oof cross_val feats ?rows caches (?y ?rows))) ts = Some vs'" for ts vs'
    using that
    by (induction ts arbitrary: vs')
      (auto simp: task_figures_def Language_Studies.summarize_def resample_def rep split: option.splits)
  from this [OF vs] show "map (\<lambda>(task, s). su_n s) figures = [tr_injection rep, tr_offensive rep]"
    if "(tag, figures) \<in> set (tr_variants rep)"
    using that by (auto simp: rep list_all_iff)
qed

end
