(* ===== verification/Spec2Isabelle.thy ===== *)
theory Spec2Isabelle
  imports Run_Record Mcp_Probes Detectors Normalizer Calibration Key_Tool Policy_Tools Audit_Migration Eval_Suite
    Detector_Comparison Live_Redis Llama_Scoring Per_Class_Study Language_Studies
    Stratified_Samples Multilingual_Head
begin

text \<open>
  Gatekeeper is a gateway between callers and language models. A request names a prompt; the gateway says
  who is calling, how dangerous the prompt is, what the caller's policy does with that risk, and writes the
  answer to an audit log. The same gate stands in front of proxied chats, of responses, and of tool calls.
  This library models the Python code of that gateway and proves what its parts promise.

  The parts and how they interact.

  A request to api/main.py passes the gate: \<open>core/auth.py\<close> turns the key into a principal (capability,
  tenant, key id), \<open>core/tenancy.py\<close> says whether the tenant is suspended and which limits it has,
  \<open>core/rate_limit.py\<close> takes a token from the caller's bucket. \<open>/assess\<close> redacts the prompt
  (\<open>core/privacy.py\<close>), asks the risk pipeline (\<open>core/risk.py\<close>: semantic cache, symbolic rules, fast path,
  fusion of detectors, judges behind a circuit breaker), asks the policy store (\<open>core/policy.py\<close>) what the
  capability does with the risk, checks the response when there is one (\<open>core/output_guardrails.py\<close>), queues
  a REVIEW (\<open>core/review_queue.py\<close>) and writes the record (\<open>core/logger.py\<close>, \<open>core/audit_store.py\<close>).
  \<open>/gateway/chat\<close> adds the daily quota (\<open>core/token_quota.py\<close>) and the providers
  (\<open>core/llm_providers.py\<close>). \<open>/tools/call\<close> and the MCP servers run tools through \<open>core/tools.py\<close>. Operators
  read the log (\<open>core/activity.py\<close>), resolve reviews, and replace the policy
  (\<open>core/policy_versioning.py\<close>). Breaker, limiter, quota and exact cache share a Redis server when there is
  one (\<open>core/redis_client.py\<close>) and work locally when it is missing or fails.

  Theories, in the order of their imports. Each has the records and datatypes of its module, one definition
  per operation under the name of the Python function, then lemmas, then the properties with their
  witnesses.

    \<^item> \<open>Prelude\<close>: results, JSON values, ordered dictionaries, the string operations of Python, files as
      \<open>Absent\<close>, \<open>Unreadable\<close> or \<open>Parsed\<close>; the collections \<open>od_simps\<close> and \<open>inv_intros\<close>.
    \<^item> \<open>Redis_Client\<close>: the shared connection; the locale of a back end that may fail.
    \<^item> \<open>Circuit_Breaker\<close>, \<open>Rate_Limit\<close>, \<open>Token_Quota\<close>: local and Redis implementations with their Lua scripts.
      Bounds on what a limiter or a quota lets through, and the refinement of the local breaker by the
      shared one while the server answers.
    \<^item> \<open>Policy\<close>: loading, validating, deciding. A store that did not load BLOCKs everything; a file the
      validator accepts is enforced as written.
    \<^item> \<open>Policy_Versioning\<close>: the live file and the directory of versions, with copies that break halfway.
    \<^item> \<open>Review_Queue\<close>, \<open>Auth\<close>, \<open>Tenancy\<close>: the stores of reviews, keys and tenants.
    \<^item> \<open>Cache\<close>: the exact back ends and the two-tier semantic cache with its index.
    \<^item> \<open>Fusion\<close>, \<open>Semantic_Judge\<close>, \<open>Assess_Result\<close>, \<open>Risk\<close>: from detector scores to a risk level. When a
      verdict may be LOW, that a HIGH one stays HIGH, what symbolic rules veto, what an offline judge does.
    \<^item> \<open>Output_Guard\<close>: secrets, personal data, leaks of the system prompt, the cascade over a response.
    \<^item> \<open>Tools\<close>: contracts, access, execution, the demo tools and \<open>http.get\<close>.
    \<^item> \<open>Audit_Trail\<close>, \<open>Activity\<close>: the four kinds of record, the JSONL file and its SQLite mirror, the reader
      that walks a file backwards in chunks, the feed and the trace. What is written comes back, and both
      stores answer a trace alike.
    \<^item> \<open>LLM_Providers\<close>: requests and replies of the three providers.
    \<^item> \<open>Api_Gate\<close>: settings, the state of the process (\<open>gateway\<close>), what a request meets (\<open>chance\<close>), errors with
      their status codes, the gate; the locale \<open>request_gate\<close> with its two interpretations, for callers and
      for operators.
    \<^item> \<open>Api_Assess\<close>, \<open>Api_Chat\<close>, \<open>Api_Admin\<close>: the endpoints, composed from the theories above as the handlers
      compose the modules. Their properties span the components: what a caller reads was assessed, what
      was answered is on record, who may change what.
    \<^item> \<open>Mcp_Server\<close>: the MCP shapes, the stdio loop as a \<open>while_option\<close> over its input, the HTTP endpoints
      and the sessions of the SSE transport.
    \<^item> \<open>Normalizer\<close>: the steps over code points in front of the symbolic rules, and that their result is a
      fixed point.
    \<^item> \<open>Detectors\<close>: the check of the weights against the manifest, loading with its memory of a failure, the
      computation of every score around the networks, the chat template, the registry. What is scored was
      verified, but for the gap that \<open>rejected_model_is_scored\<close> shows.
    \<^item> \<open>Semantics\<close>: rule files, anchor stores, centroids and their lazy values: what the parameters of \<open>Risk\<close>
      named after them are in the code.
    \<^item> \<open>Metrics\<close>: what an assessment adds to the counters, and that the labels stay a closed set.
    \<^item> \<open>Api_Ops\<close>: start-up, the middleware around a request, the metrics endpoint, the list of benchmark runs.
    \<^item> \<open>Evaluation\<close>, \<open>Calibration\<close>: the metrics and the fitted thresholds. The rank formula of the AUC counts
      the pairs in the right order; a fitted policy is one the gateway loads.
    \<^item> \<open>Eval_Suite\<close>, \<open>Suite_Scoring\<close>: how the suite of prompts is pooled and scored. Each prompt is in it once,
      and the score that is evaluated is the one the risk pipeline compares with its thresholds.
    \<^item> \<open>Detector_Comparison\<close>: the comparison of detectors, their score caches and the choice of the ensemble. Rows a
      detector was trained on do not count, and an interrupted run can be continued.
    \<^item> \<open>Gateway_Run\<close>, \<open>Run_Record\<close>: the gateway as a whole. A \<open>demand\<close> is one of the requests of the HTTP API,
      \<open>serve\<close> answers an arrival, and a run is a sequence of the steps of one process. Over all runs: what was answered
      stays on record, the log only grows, every change of policy or review had an operator behind it.
    \<^item> \<open>Live_Pentest\<close>, \<open>Mcp_Probes\<close>: the attacks of scripts/live_pentest.py, with the modelled gateway and the
      modelled MCP transport as the servers they are sent to. What the script looks for, it does not find.
    \<^item> \<open>Live_Redis\<close>: scripts/live_redis_verification.py over the shared limiter, quota tracker and cache, with a server
      whose clock runs (the locale \<open>redis_clock\<close>, an extension of \<open>redis_kv\<close>). All its checks succeed.
    \<^item> \<open>Llama_Scoring\<close>, \<open>Per_Class_Study\<close>, \<open>Language_Studies\<close>: scoring over a slow server in runs that may be
      killed, and the studies of thresholds per attack class and per language and of the variants of the fusion.
    \<^item> \<open>Stratified_Samples\<close>: the corpus that freezes the decisions of the risk pipeline, which is drawn from the suite by
      stratum and leaves the cache alone, and the sample on which a slow detector is compared with the others.
    \<^item> \<open>Multilingual_Head\<close>: the head fitted on the suite, from its vectors over the artifact to the detector that serves it,
      and the studies it is judged by: unseen sources, three disjoint parts, languages and tasks.
    \<^item> \<open>Key_Tool\<close>, \<open>Policy_Tools\<close>, \<open>Audit_Migration\<close>: the command line tools, over the same stores as the gateway:
      an issued key resolves, a revoked one is gone, a simulation predicts a deployment, a migration can be
      repeated.

  Conventions. A handler maps a state to a result and a state; a raised exception is \<open>Inl\<close> and leaves the
  state as the code left it. Floats are \<open>real\<close>, so rounding, infinities and NaN are outside the model
  (a threshold of the evaluation that is infinite is \<open>None\<close>, and \<open>round\<close> to a number of digits is written out, ties
  upwards); Python integers are \<open>int\<close>. Strings are 8-bit characters and the keys of dictionaries are strings; the normalizer
  and the evaluation suite, which look at Unicode, work on lists of code points.
  Redis replies, HTTP replies, clocks, fresh identifiers, failing writes and timeouts are
  arguments (\<open>chance\<close> and the parameters of the operations), so a theorem holds for all of them. Locks make
  the operations atomic, and interleavings are sequences of operations; where two processes can
  interleave without a lock the model says so (reviews, policy stores, the cache).

  Code that is not in the repository is a parameter: the Redis server, FAISS, SHA-256 and SHA-1, the networks of
  the detectors and their tokenizers, the embedding model, spaCy, scikit-learn, the seeded shuffles, the tables of
  Unicode, the public data sets, the web framework, the parsers and printers of JSON and YAML (\<open>sx_loads\<close>, \<open>sx_dumps\<close>,
  \<open>sx_parse_policy\<close>), HTTP exchanges, name resolution. What a theorem needs of one of them is in its statement,
  with a witness.

  Bounds. The search of a regular expression over a text has fuel of the length of the text plus one,
  which is enough because every step consumes a character. The backward reader takes chunks of 65536
  bytes and stops after 20 MB, the stdio loop reads at most a million characters of a line, the HTTP
  transport of MCP takes bodies up to 102400 bytes: these are the constants of the code. Every other loop
  is structural recursion or has a measure.

  Requests to the gateway are handled one after the other: \<open>serve\<close> is a whole request, and a run is a sequence of them.
  Where one handler awaits another thread (the background confirmation, two processes over one file) the step that can fall
  in between is an operation of its own; other interleavings at an \<open>await\<close> are outside the model.

  Not modelled, and why: logging for humans and what the tools print (no effect on an answer); threads as such;
  the settings that are only names, paths and defaults (arguments of the operations that read them); the client
  library behind the metrics; the static pages and their mount; scripts that only measure latency and memory or fetch a
  model (their result is a time or a file of somebody else), and the tables of fixed texts and the random draws of
  \<open>data/generate_dataset.py\<close>.
\<close>

end
